(* ===== verification/Prelude.thy ===== *)
theory Prelude
  imports Main "HOL-Library.Word"
begin

text \<open>
  Shared vocabulary of the development: Python's exceptions as values, sequencing of
  fallible steps, loops that may raise, ceiling division (\<^verbatim>\<open>vllm/utils/__init__.py\<close>), and the
  generic list facts that the component theories use.
\<close>

section \<open>Exceptions as values\<close>

datatype py_error =
    ValueError | AssertionError | RuntimeError | KeyError | IndexError
  | OverflowError | AttributeError | NotImplementedError | ZeroDivisionError | TypeError | StopIteration | ImportError
  | Diverges

text \<open>\<open>Diverges\<close> is not an exception: it is the value of a loop of the source that
  does not end.\<close>

type_synonym 'a result = "py_error + 'a"

type_synonym bytes = "8 word list"

definition bnd :: "'a result \<Rightarrow> ('a \<Rightarrow> 'b result) \<Rightarrow> 'b result" where
  "bnd m f = (case m of Inl e \<Rightarrow> Inl e | Inr x \<Rightarrow> f x)"

definition check :: "bool \<Rightarrow> py_error \<Rightarrow> 'a result \<Rightarrow> 'a result" where
  "check b e m = (if b then m else Inl e)"

text \<open>A \<^verbatim>\<open>for\<close> loop whose body updates a state and may raise.\<close>

fun for_each :: "('a \<Rightarrow> 's \<Rightarrow> 's result) \<Rightarrow> 'a list \<Rightarrow> 's \<Rightarrow> 's result" where
  "for_each f [] s = Inr s"
| "for_each f (x # xs) s = bnd (f x s) (for_each f xs)"

text \<open>A list comprehension whose element expression may raise.\<close>

fun map_res :: "('a \<Rightarrow> 'b result) \<Rightarrow> 'a list \<Rightarrow> 'b list result" where
  "map_res f [] = Inr []"
| "map_res f (x # xs) = bnd (f x) (\<lambda>y. bnd (map_res f xs) (\<lambda>ys. Inr (y # ys)))"

definition lookup_py :: "('k \<rightharpoonup> 'v) \<Rightarrow> 'k \<Rightarrow> 'v result" where
  "lookup_py m k = (case m k of None \<Rightarrow> Inl KeyError | Some v \<Rightarrow> Inr v)"

definition index_py :: "'a list \<Rightarrow> nat \<Rightarrow> 'a result" where
  "index_py xs i = (if i < length xs then Inr (xs ! i) else Inl IndexError)"

section \<open>Integer helpers of \<^verbatim>\<open>vllm.utils\<close>\<close>

definition cdiv :: "int \<Rightarrow> int \<Rightarrow> int" where
  "cdiv a b = - (a div (- b))"

section \<open>Sequencing\<close>

named_theorems res_simps \<open>evaluation of fallible steps\<close>

lemma bnd_simps [simp, res_simps]: "bnd (Inl e) f = Inl e" "bnd (Inr x) f = f x"
  by (simp_all add: bnd_def)

lemma bnd_Inr_iff: "bnd m f = Inr y \<longleftrightarrow> (\<exists>x. m = Inr x \<and> f x = Inr y)"
  by (cases m) auto

lemma bnd_InrE [elim!]:
  assumes "bnd m f = Inr y"
  obtains x where "m = Inr x" "f x = Inr y"
  using assms by (auto simp: bnd_Inr_iff)

lemma check_simps [simp, res_simps]: "check True e m = m" "check False e m = Inl e"
  by (simp_all add: check_def)

lemma check_Inr_iff [simp]: "check b e m = Inr y \<longleftrightarrow> b \<and> m = Inr y"
  by (simp add: check_def)

lemma lookup_py_Inr_iff [simp]: "lookup_py m k = Inr v \<longleftrightarrow> m k = Some v"
  by (simp add: lookup_py_def split: option.splits)

lemma index_py_Inr_iff [simp]: "index_py xs i = Inr v \<longleftrightarrow> i < length xs \<and> xs ! i = v"
  by (simp add: index_py_def)

lemma for_each_append:
  "for_each f (xs @ ys) s = bnd (for_each f xs s) (for_each f ys)"
  by (induction xs arbitrary: s) (auto simp: bnd_def split: sum.splits)

lemma for_each_inv:
  assumes "for_each f xs s = Inr t" "P s"
    and "\<And>x s t. x \<in> set xs \<Longrightarrow> P s \<Longrightarrow> f x s = Inr t \<Longrightarrow> P t"
  shows "P t"
  using assms by (induction xs arbitrary: s) auto

lemma for_each_total:
  assumes "P s" and "\<And>x s. x \<in> set xs \<Longrightarrow> P s \<Longrightarrow> \<exists>t. f x s = Inr t \<and> P t"
  shows "\<exists>t. for_each f xs s = Inr t \<and> P t"
  using assms
proof (induction xs arbitrary: s)
  case (Cons x xs)
  then obtain t where "f x s = Inr t" "P t" by (meson list.set_intros(1))
  with Cons.IH[of t] Cons.prems(2) show ?case by simp
qed simp

lemma map_res_Inr_iff:
  "map_res f xs = Inr ys \<longleftrightarrow> list_all2 (\<lambda>x y. f x = Inr y) xs ys"
  by (induction xs arbitrary: ys) (auto simp: bnd_Inr_iff list_all2_Cons1)

lemma map_res_length: "map_res f xs = Inr ys \<Longrightarrow> length ys = length xs"
  by (auto simp: map_res_Inr_iff dest: list_all2_lengthD)

lemma map_res_eq:
  assumes "\<And>x. x \<in> set xs \<Longrightarrow> f x = Inr (g x)"
  shows "map_res f xs = Inr (map g xs)"
  using assms by (induction xs) auto

section \<open>Ceiling division\<close>

lemma cdiv_le_iff:
  assumes "b > 0"
  shows "cdiv a b \<le> k \<longleftrightarrow> a \<le> k * b"
proof -
  have "cdiv a b \<le> k \<longleftrightarrow> - k \<le> (- a) div b"
    by (simp add: cdiv_def minus_le_iff div_minus_right)
  also have "\<dots> \<longleftrightarrow> (- k) * b \<le> - a"
  proof
    assume "- k \<le> (- a) div b"
    then have "(- k) * b \<le> ((- a) div b) * b" using assms by (intro mult_right_mono) auto
    also have "\<dots> \<le> - a"
      by (metis add.commute assms div_mult_mod_eq le_add_same_cancel1 pos_mod_sign)
    finally show "(- k) * b \<le> - a" .
  next
    assume "(- k) * b \<le> - a"
    then have "((- k) * b) div b \<le> (- a) div b" using assms by (intro zdiv_mono1) auto
    moreover have "((- k) * b) div b = - k" using assms by (intro nonzero_mult_div_cancel_right) auto
    ultimately show "- k \<le> (- a) div b" by simp
  qed
  finally show ?thesis by simp
qed

lemma cdiv_mult_ge: "b > 0 \<Longrightarrow> a \<le> cdiv a b * b"
  using cdiv_le_iff[of b a "cdiv a b"] by simp

lemma cdiv_nonneg: "b > 0 \<Longrightarrow> a \<ge> 0 \<Longrightarrow> cdiv a b \<ge> 0"
  using cdiv_le_iff[of b a "-1"] by linarith

lemma cdiv_mono: "b > 0 \<Longrightarrow> a \<le> a' \<Longrightarrow> cdiv a b \<le> cdiv a' b"
  using cdiv_le_iff[of b a "cdiv a' b"] cdiv_mult_ge[of b a'] by linarith

section \<open>Lists\<close>

lemma remove1_append_notin: "x \<notin> set xs \<Longrightarrow> remove1 x (xs @ x # ys) = xs @ ys"
  by (simp add: remove1_append)

lemma distinct_remove1_set: "distinct xs \<Longrightarrow> set (remove1 x xs) = set xs - {x}"
  by simp

lemma count_list_distinct: "distinct xs \<Longrightarrow> count_list xs x = (if x \<in> set xs then 1 else 0)"
  by (induction xs) auto

end
