(* ===== verification/Free_Queue.thy ===== *)
theory Free_Queue
  imports Prelude
begin

text \<open>
  The free block queue of \<^verbatim>\<open>vllm/v1/core/kv_cache_utils.py\<close>: \<^verbatim>\<open>KVCacheBlock\<close> objects that are
  chained through their \<^verbatim>\<open>prev_free_block\<close> and \<^verbatim>\<open>next_free_block\<close> attributes between a fake
  head and a fake tail. Object identity is a reference (\<open>block_ref\<close>), the objects
  live in a store, and every assignment to an attribute is one store update, in the order
  of the source. The abstract specification is a list of references; \<open>queue_rel\<close> is
  the simulation relation and the locale \<open>block_queue\<close> the contract that the block
  pool relies on.
\<close>

section \<open>Blocks and the store\<close>

datatype block_ref = Head | Tail | Blk nat

record kv_block =
  block_id :: int
  ref_cnt :: int
  block_hash :: "bytes option"
  prev_free_block :: "block_ref option"
  next_free_block :: "block_ref option"
  is_null :: bool

type_synonym block_store = "block_ref \<Rightarrow> kv_block"

definition new_block :: "int \<Rightarrow> kv_block" where
  "new_block i = \<lparr>block_id = i, ref_cnt = 0, block_hash = None,
     prev_free_block = None, next_free_block = None, is_null = False\<rparr>"

definition set_block_hash :: "bytes \<Rightarrow> kv_block \<Rightarrow> kv_block result" where
  "set_block_hash h b = check (block_hash b = None) AssertionError (Inr (b\<lparr>block_hash := Some h\<rparr>))"

definition reset_hash :: "kv_block \<Rightarrow> kv_block" where
  "reset_hash b = b\<lparr>block_hash := None\<rparr>"

section \<open>The queue\<close>

record free_queue =
  store :: block_store
  num_free_blocks :: int

definition upd_block :: "block_ref \<Rightarrow> (kv_block \<Rightarrow> kv_block) \<Rightarrow> free_queue \<Rightarrow> free_queue" where
  "upd_block r f q = q\<lparr>store := (store q)(r := f (store q r))\<rparr>"

definition set_prev :: "block_ref \<Rightarrow> block_ref option \<Rightarrow> free_queue \<Rightarrow> free_queue" where
  "set_prev r v = upd_block r (prev_free_block_update (\<lambda>_. v))"

definition set_next :: "block_ref \<Rightarrow> block_ref option \<Rightarrow> free_queue \<Rightarrow> free_queue" where
  "set_next r v = upd_block r (next_free_block_update (\<lambda>_. v))"

abbreviation next_of :: "free_queue \<Rightarrow> block_ref \<Rightarrow> block_ref option" where
  "next_of q r \<equiv> next_free_block (store q r)"

abbreviation prev_of :: "free_queue \<Rightarrow> block_ref \<Rightarrow> block_ref option" where
  "prev_of q r \<equiv> prev_free_block (store q r)"

text \<open>\<^verbatim>\<open>FreeKVCacheBlockQueue.__init__\<close>: link consecutive blocks, then hook up the fake ends.\<close>

definition link_one :: "block_ref list \<Rightarrow> nat \<Rightarrow> free_queue \<Rightarrow> free_queue" where
  "link_one bs i q =
     (let q1 = (if i > 0 then set_prev (bs ! i) (Some (bs ! (i - 1))) q else q)
      in if i + 1 < length bs then set_next (bs ! i) (Some (bs ! (i + 1))) q1 else q1)"

definition init_queue :: "block_store \<Rightarrow> block_ref list \<Rightarrow> free_queue" where
  "init_queue st bs =
     (let q0 = \<lparr>store = st, num_free_blocks = int (length bs)\<rparr>;
          q1 = fold (link_one bs) [0..<length bs] q0;
          q2 = q1\<lparr>store := (store q1)(Head := new_block (-1), Tail := new_block (-1))\<rparr>
      in if num_free_blocks q2 > 0
         then set_next (last bs) (Some Tail) (set_prev Tail (Some (last bs))
                (set_prev (bs ! 0) (Some Head) (set_next Head (Some (bs ! 0)) q2)))
         else set_prev Tail (Some Head) (set_next Head (Some Tail) q2))"

definition popleft :: "free_queue \<Rightarrow> (block_ref \<times> free_queue) result" where
  "popleft q =
     (case next_of q Head of
        None \<Rightarrow> check (num_free_blocks q = 0) AssertionError (Inl ValueError)
      | Some first_block \<Rightarrow>
          if first_block = Tail
          then check (num_free_blocks q = 0) AssertionError (Inl ValueError)
          else (case next_of q first_block of
                  None \<Rightarrow> Inl RuntimeError
                | Some nxt \<Rightarrow>
                    let q1 = set_next Head (Some nxt) q;
                        q2 = set_prev nxt (Some Head) q1;
                        q3 = set_next first_block None (set_prev first_block None q2)
                    in Inr (first_block, q3\<lparr>num_free_blocks := num_free_blocks q3 - 1\<rparr>)))"

fun pop_loop :: "nat \<Rightarrow> block_ref option \<Rightarrow> block_ref list \<Rightarrow> free_queue
    \<Rightarrow> (block_ref list \<times> block_ref option \<times> free_queue) result" where
  "pop_loop 0 cur ret q = Inr (ret, cur, q)"
| "pop_loop (Suc n) None ret q = Inl AssertionError"
| "pop_loop (Suc n) (Some last_block) ret q =
     pop_loop n (next_of q last_block) (ret @ [last_block])
       (set_next last_block None (set_prev last_block None q))"

definition popleft_n :: "free_queue \<Rightarrow> nat \<Rightarrow> (block_ref list \<times> free_queue) result" where
  "popleft_n q n =
     (if n = 0 then Inr ([], q)
      else check (num_free_blocks q \<ge> int n) AssertionError
        (let q0 = q\<lparr>num_free_blocks := num_free_blocks q - int n\<rparr>
         in bnd (pop_loop n (next_of q0 Head) [] q0) (\<lambda>(ret, cur, q1).
              case cur of
                None \<Rightarrow> Inr (ret, q1)
              | Some c \<Rightarrow> Inr (ret, set_prev c (Some Head) (set_next Head (Some c) q1)))))"

definition remove_block :: "free_queue \<Rightarrow> block_ref \<Rightarrow> free_queue result" where
  "remove_block q b =
     (case (prev_of q b, next_of q b) of
        (Some p, Some n) \<Rightarrow>
          let q1 = set_next p (Some n) q;
              q2 = set_prev n (Some p) q1;
              q3 = set_next b None (set_prev b None q2)
          in Inr (q3\<lparr>num_free_blocks := num_free_blocks q3 - 1\<rparr>)
      | _ \<Rightarrow> Inl RuntimeError)"

definition append_block :: "free_queue \<Rightarrow> block_ref \<Rightarrow> free_queue result" where
  "append_block q b =
     (case prev_of q Tail of
        None \<Rightarrow> Inl RuntimeError
      | Some last_block \<Rightarrow>
          let q1 = set_prev b (Some last_block) (set_next last_block (Some b) q);
              q2 = set_prev Tail (Some b) (set_next b (Some Tail) q1)
          in Inr (q2\<lparr>num_free_blocks := num_free_blocks q2 + 1\<rparr>))"

fun link_loop :: "block_ref list \<Rightarrow> block_ref \<Rightarrow> free_queue \<Rightarrow> block_ref \<times> free_queue" where
  "link_loop [] last_block q = (last_block, q)"
| "link_loop (b # bs) last_block q =
     link_loop bs b (set_next last_block (Some b) (set_prev b (Some last_block) q))"

definition append_n :: "free_queue \<Rightarrow> block_ref list \<Rightarrow> free_queue result" where
  "append_n q bs =
     (if bs = [] then Inr q
      else case prev_of q Tail of
        None \<Rightarrow> Inl AssertionError
      | Some l \<Rightarrow>
          let (l', q1) = link_loop bs l q;
              q2 = set_prev Tail (Some l') (set_next l' (Some Tail) q1)
          in Inr (q2\<lparr>num_free_blocks := num_free_blocks q2 + int (length bs)\<rparr>))"

text \<open>The traversal of \<^verbatim>\<open>get_all_free_blocks\<close> follows the links as long as there is one;
  \<open>None\<close> stands for a loop that does not end (a cyclic chain).\<close>

partial_function (option) walk :: "block_store \<Rightarrow> block_ref \<Rightarrow> block_ref list \<Rightarrow> block_ref list option" where
  "walk st cur ret =
     (case next_free_block (st cur) of
        None \<Rightarrow> Some ret
      | Some nxt \<Rightarrow> walk st nxt (ret @ [cur]))"

definition get_all_free_blocks :: "free_queue \<Rightarrow> block_ref list result option" where
  "get_all_free_blocks q =
     (case next_of q Head of
        None \<Rightarrow> Some (Inl RuntimeError)
      | Some c \<Rightarrow> map_option Inr (walk (store q) c []))"

section \<open>Abstraction\<close>

fun chain :: "block_store \<Rightarrow> block_ref list \<Rightarrow> bool" where
  "chain st (a # b # rs) \<longleftrightarrow>
     next_free_block (st a) = Some b \<and> prev_free_block (st b) = Some a \<and> chain st (b # rs)"
| "chain st _ \<longleftrightarrow> True"

definition is_blk :: "block_ref \<Rightarrow> bool" where
  "is_blk r \<longleftrightarrow> r \<noteq> Head \<and> r \<noteq> Tail"

definition queue_rel :: "free_queue \<Rightarrow> block_ref list \<Rightarrow> bool" where
  "queue_rel q xs \<longleftrightarrow>
     chain (store q) (Head # xs @ [Tail]) \<and> distinct xs \<and> list_all is_blk xs
     \<and> prev_of q Head = None \<and> next_of q Tail = None
     \<and> (\<forall>r. is_blk r \<longrightarrow> r \<notin> set xs \<longrightarrow> prev_of q r = None \<and> next_of q r = None)
     \<and> num_free_blocks q = int (length xs)"

text \<open>What a block carries besides its links.\<close>

definition payload :: "free_queue \<Rightarrow> block_ref \<Rightarrow> int \<times> int \<times> bytes option \<times> bool" where
  "payload q r = (let b = store q r in (block_id b, ref_cnt b, block_hash b, is_null b))"

section \<open>The contract\<close>

locale block_queue =
  fixes rel :: "'q \<Rightarrow> 'b list \<Rightarrow> bool"
    and elem :: "'b \<Rightarrow> bool"
    and content :: "'q \<Rightarrow> 'd"
    and pop :: "'q \<Rightarrow> ('b \<times> 'q) result"
    and pop_n :: "'q \<Rightarrow> nat \<Rightarrow> ('b list \<times> 'q) result"
    and del :: "'q \<Rightarrow> 'b \<Rightarrow> 'q result"
    and put :: "'q \<Rightarrow> 'b \<Rightarrow> 'q result"
    and put_n :: "'q \<Rightarrow> 'b list \<Rightarrow> 'q result"
  assumes rel_distinct: "rel q xs \<Longrightarrow> distinct xs"
    and rel_elem: "rel q xs \<Longrightarrow> x \<in> set xs \<Longrightarrow> elem x"
    and pop_Nil: "rel q [] \<Longrightarrow> pop q = Inl ValueError"
    and pop_Cons: "rel q (x # xs) \<Longrightarrow>
      \<exists>q'. pop q = Inr (x, q') \<and> rel q' xs \<and> content q' = content q"
    and pop_n_ok: "rel q xs \<Longrightarrow> n \<le> length xs \<Longrightarrow>
      \<exists>q'. pop_n q n = Inr (take n xs, q') \<and> rel q' (drop n xs) \<and> content q' = content q"
    and pop_n_fail: "rel q xs \<Longrightarrow> length xs < n \<Longrightarrow> pop_n q n = Inl AssertionError"
    and del_ok: "rel q xs \<Longrightarrow> x \<in> set xs \<Longrightarrow>
      \<exists>q'. del q x = Inr q' \<and> rel q' (remove1 x xs) \<and> content q' = content q"
    and del_fail: "rel q xs \<Longrightarrow> elem x \<Longrightarrow> x \<notin> set xs \<Longrightarrow> del q x = Inl RuntimeError"
    and put_ok: "rel q xs \<Longrightarrow> elem x \<Longrightarrow> x \<notin> set xs \<Longrightarrow>
      \<exists>q'. put q x = Inr q' \<and> rel q' (xs @ [x]) \<and> content q' = content q"
    and put_n_ok: "rel q xs \<Longrightarrow> \<forall>y\<in>set ys. elem y \<and> y \<notin> set xs \<Longrightarrow> distinct ys \<Longrightarrow>
      \<exists>q'. put_n q ys = Inr q' \<and> rel q' (xs @ ys) \<and> content q' = content q"
begin

text \<open>Repeated single pops give what one bulk pop gives.\<close>

lemma pop_iter:
  assumes "rel q xs" "n \<le> length xs"
  shows "\<exists>q1. for_each (\<lambda>_ (acc, q). bnd (pop q) (\<lambda>(b, q'). Inr (acc @ [b], q'))) [0..<n] ([], q)
                = Inr (take n xs, q1) \<and> rel q1 (drop n xs) \<and> content q1 = content q"
  using assms(2)
proof (induction n)
  case 0
  then show ?case using assms(1) by simp
next
  case (Suc n)
  then obtain q1 where q1: "for_each (\<lambda>_ (acc, q). bnd (pop q) (\<lambda>(b, q'). Inr (acc @ [b], q'))) [0..<n] ([], q)
      = Inr (take n xs, q1)" "rel q1 (drop n xs)" "content q1 = content q" by auto
  have "drop n xs = xs ! n # drop (Suc n) xs"
    using Suc.prems by (simp add: Cons_nth_drop_Suc)
  with q1 pop_Cons[of q1 "xs ! n" "drop (Suc n) xs"]
  obtain q2 where "pop q1 = Inr (xs ! n, q2)" "rel q2 (drop (Suc n) xs)" "content q2 = content q"
    by auto
  with q1 Suc.prems show ?case
    by (simp add: for_each_append take_Suc_conv_app_nth)
qed

text \<open>Removing an element and putting it back makes it the most recently used one.\<close>

lemma del_put:
  assumes "rel q xs" "x \<in> set xs"
  shows "\<exists>q'. bnd (del q x) (\<lambda>q1. put q1 x) = Inr q' \<and> rel q' (remove1 x xs @ [x])
           \<and> content q' = content q"
proof -
  obtain q1 where q1: "del q x = Inr q1" "rel q1 (remove1 x xs)" "content q1 = content q"
    using del_ok[OF assms] by auto
  have "x \<notin> set (remove1 x xs)" using rel_distinct[OF assms(1)] by simp
  with put_ok[OF q1(2) rel_elem[OF assms]] q1 show ?thesis by auto
qed

text \<open>Popping some elements and appending them rotates the list: the eviction order is LRU.\<close>

lemma pop_n_put_n:
  assumes "rel q xs" "n \<le> length xs"
  shows "\<exists>q'. bnd (pop_n q n) (\<lambda>(ys, q1). put_n q1 ys) = Inr q' \<and> rel q' (drop n xs @ take n xs)
           \<and> content q' = content q"
proof -
  obtain q1 where q1: "pop_n q n = Inr (take n xs, q1)" "rel q1 (drop n xs)" "content q1 = content q"
    using pop_n_ok[OF assms] by auto
  have d: "distinct xs" using rel_distinct[OF assms(1)] .
  have "\<forall>y\<in>set (take n xs). elem y \<and> y \<notin> set (drop n xs)"
    using rel_elem[OF assms(1)] d set_take_disj_set_drop_if_distinct[OF d, of n n]
    by (auto dest: in_set_takeD)
  with put_n_ok[OF q1(2)] d q1 show ?thesis by (simp add: distinct_take)
qed

end

section \<open>Facts about chains\<close>

lemma set_link_simps [simp]:
  "store (set_prev r v q) = (store q)(r := (store q r)\<lparr>prev_free_block := v\<rparr>)"
  "store (set_next r v q) = (store q)(r := (store q r)\<lparr>next_free_block := v\<rparr>)"
  "num_free_blocks (set_prev r v q) = num_free_blocks q"
  "num_free_blocks (set_next r v q) = num_free_blocks q"
  by (simp_all add: set_prev_def set_next_def upd_block_def)

lemma payload_simps [simp]:
  "payload (set_prev r v q) = payload q"
  "payload (set_next r v q) = payload q"
  "payload (q\<lparr>num_free_blocks := k\<rparr>) = payload q"
  by (simp_all add: payload_def fun_eq_iff Let_def)

lemma is_blk_simps [simp]: "is_blk (Blk i)" "\<not> is_blk Head" "\<not> is_blk Tail"
  by (simp_all add: is_blk_def)

lemma is_blkE [elim]:
  assumes "is_blk r" obtains i where "r = Blk i"
  using assms by (cases r) auto

lemma chain_append: "chain st (xs @ a # ys) \<longleftrightarrow> chain st (xs @ [a]) \<and> chain st (a # ys)"
  by (induction xs rule: induct_list012) auto

lemma chain_frame:
  assumes "\<forall>r\<in>set (butlast ns). next_free_block (st' r) = next_free_block (st r)"
    and "\<forall>r\<in>set (tl ns). prev_free_block (st' r) = prev_free_block (st r)"
  shows "chain st' ns \<longleftrightarrow> chain st ns"
  using assms by (induction ns rule: induct_list012) (auto split: if_splits)

lemma queue_rel_distinct: "queue_rel q xs \<Longrightarrow> distinct (Head # xs @ [Tail])"
  by (auto simp: queue_rel_def list_all_iff)

lemma queue_rel_nth: "queue_rel q (x # xs) \<Longrightarrow> next_of q Head = Some x \<and> prev_of q x = Some Head"
  by (simp add: queue_rel_def)

section \<open>Removing a block\<close>

lemma remove_split:
  assumes "queue_rel q (ys @ b # zs)"
  obtains A p n B where "Head # ys = A @ [p]" "zs @ [Tail] = n # B"
    "distinct (A @ p # b # n # B)" "prev_of q b = Some p" "next_of q b = Some n"
    "chain (store q) (A @ [p])" "chain (store q) (n # B)"
proof -
  obtain A p where A: "Head # ys = A @ [p]" by (metis list.distinct(1) rev_exhaust)
  obtain n B where B: "zs @ [Tail] = n # B" by (cases "zs @ [Tail]") auto
  have eq: "Head # (ys @ b # zs) @ [Tail] = A @ p # b # n # B"
    using A B by (metis append.assoc append_Cons append_Nil)
  have "chain (store q) (A @ p # b # n # B)"
    using assms eq by (simp add: queue_rel_def)
  then have "chain (store q) (A @ [p])" "chain (store q) (p # b # n # B)"
    using chain_append by blast+
  moreover have "distinct (A @ p # b # n # B)"
    using queue_rel_distinct[OF assms] unfolding eq .
  ultimately show ?thesis using that A B by auto
qed

lemma remove_block_ok:
  assumes r: "queue_rel q xs" and b: "b \<in> set xs"
  shows "\<exists>q'. remove_block q b = Inr q' \<and> queue_rel q' (remove1 b xs) \<and> payload q' = payload q"
proof -
  obtain ys zs where xs: "xs = ys @ b # zs" using b by (meson split_list)
  obtain A p n B where d: "Head # ys = A @ [p]" "zs @ [Tail] = n # B"
    "distinct (A @ p # b # n # B)" "prev_of q b = Some p" "next_of q b = Some n"
    and c: "chain (store q) (A @ [p])" "chain (store q) (n # B)"
    using remove_split r[unfolded xs] by metis
  let ?q = "set_next b None (set_prev b None (set_prev n (Some p) (set_next p (Some n) q)))"
  let ?q' = "?q\<lparr>num_free_blocks := num_free_blocks ?q - 1\<rparr>"
  have eq: "Head # (ys @ zs) @ [Tail] = A @ p # n # B" using d(1,2) by (metis append.assoc append_Cons append_Nil)
  have "chain (store ?q') (A @ [p])"
    using c(1) d(3) by (subst chain_frame[of _ _ "store q"]) (auto dest: in_set_butlastD simp: butlast_append tl_append split: list.splits)
  moreover have "chain (store ?q') (n # B)"
    using c(2) d(3) by (subst chain_frame[of _ _ "store q"]) (auto dest: in_set_butlastD split: if_splits)
  ultimately have "chain (store ?q') (Head # (ys @ zs) @ [Tail])"
    unfolding eq using d(3) by (subst chain_append) auto
  moreover have pn: "p \<in> set (Head # ys)" "n \<in> set (zs @ [Tail])"
    using d(1,2) by (metis in_set_conv_decomp, metis list.set_intros(1))
  moreover have D: "distinct (Head # (ys @ b # zs) @ [Tail])"
    using queue_rel_distinct[OF r] unfolding xs .
  ultimately have "queue_rel ?q' (ys @ zs)"
    using r unfolding queue_rel_def xs by auto
  moreover have "remove_block q b = Inr ?q'" using d(4,5) by (simp add: remove_block_def)
  moreover have "remove1 b xs = ys @ zs" using D xs by (simp add: remove1_append)
  ultimately show ?thesis by (intro exI[of _ ?q']) simp
qed

lemma remove_block_fail: "queue_rel q xs \<Longrightarrow> is_blk b \<Longrightarrow> b \<notin> set xs \<Longrightarrow> remove_block q b = Inl RuntimeError"
  by (simp add: queue_rel_def remove_block_def)

lemma popleft_remove:
  assumes "queue_rel q (x # xs)"
  shows "popleft q = bnd (remove_block q x) (\<lambda>q'. Inr (x, q'))"
proof -
  obtain A p n B where "Head # [] = A @ [p]" and n: "next_of q x = Some n"
    using remove_split[of q "[]" x xs] assms by (metis append_Nil)
  moreover have "x \<noteq> Tail" using queue_rel_distinct[OF assms] by auto
  ultimately show ?thesis
    using queue_rel_nth[OF assms] by (simp add: popleft_def remove_block_def)
qed

lemma popleft_Cons:
  assumes "queue_rel q (x # xs)"
  shows "\<exists>q'. popleft q = Inr (x, q') \<and> queue_rel q' xs \<and> payload q' = payload q"
  using remove_block_ok[OF assms, of x] popleft_remove[OF assms] by auto

lemma popleft_Nil: "queue_rel q [] \<Longrightarrow> popleft q = Inl ValueError"
  by (simp add: popleft_def queue_rel_def)

section \<open>Bulk operations\<close>

definition clear_links :: "block_ref list \<Rightarrow> free_queue \<Rightarrow> free_queue" where
  "clear_links rs q = fold (\<lambda>r q. set_next r None (set_prev r None q)) rs q"

lemma clear_links_simps [simp]:
  "store (clear_links rs q) r = (if r \<in> set rs
     then (store q r)\<lparr>prev_free_block := None, next_free_block := None\<rparr> else store q r)"
  "num_free_blocks (clear_links rs q) = num_free_blocks q"
  "payload (clear_links rs q) = payload q"
  unfolding clear_links_def by (induction rs arbitrary: q) auto

lemma pop_loop_ok:
  assumes "chain (store q) (xs @ [Tail])" "distinct (xs @ [Tail])" "n \<le> length xs"
  shows "pop_loop n (Some (hd (xs @ [Tail]))) ret q
           = Inr (ret @ take n xs, Some (hd (drop n xs @ [Tail])), clear_links (take n xs) q)"
  using assms
proof (induction n arbitrary: xs ret q)
  case 0
  then show ?case by (simp add: clear_links_def)
next
  case (Suc n)
  then obtain x ys where xs: "xs = x # ys" by (cases xs) auto
  obtain m B where m: "ys @ [Tail] = m # B" by (cases "ys @ [Tail]") auto
  let ?q = "set_next x None (set_prev x None q)"
  have nx: "next_of q x = Some (hd (ys @ [Tail]))" using Suc.prems(1) xs m by simp
  have c: "chain (store q) (ys @ [Tail])" using Suc.prems(1) xs m by simp
  have cq: "chain (store ?q) (ys @ [Tail])"
    using c Suc.prems(2) xs
    by (subst chain_frame[of _ _ "store q"]) (auto simp: m dest: in_set_butlastD dest!: list.set_sel(2)[rotated])
  show ?case
    using Suc.IH[OF cq, of "ret @ [x]"] Suc.prems(2,3) nx xs
    by (simp add: clear_links_def del: set_link_simps)
qed

lemma popleft_n_ok:
  assumes r: "queue_rel q xs" and n: "n \<le> length xs"
  shows "\<exists>q'. popleft_n q n = Inr (take n xs, q') \<and> queue_rel q' (drop n xs) \<and> payload q' = payload q"
proof (cases "n = 0")
  case True
  with r show ?thesis by (simp add: popleft_n_def)
next
  case False
  obtain m B where m: "drop n xs @ [Tail] = m # B" by (cases "drop n xs @ [Tail]") auto
  let ?q0 = "q\<lparr>num_free_blocks := num_free_blocks q - int n\<rparr>"
  let ?q1 = "clear_links (take n xs) ?q0"
  define q2 where "q2 = set_prev m (Some Head) (set_next Head (Some m) ?q1)"
  have D: "distinct (Head # (take n xs @ drop n xs) @ [Tail])"
    using queue_rel_distinct[OF r] by (simp only: append_take_drop_id)
  have Dx: "distinct (xs @ [Tail])" using queue_rel_distinct[OF r] by simp
  have dis: "distinct (Head # take n xs @ m # B)"
    using D by (simp only: append_assoc m)
  have min: "m \<in> set (drop n xs @ [Tail])" using m by (metis list.set_intros(1))
  have q2: "num_free_blocks q2 = num_free_blocks q - int n" "payload q2 = payload q"
    "next_of q2 Head = Some m" "prev_of q2 m = Some Head" "prev_of q2 Head = prev_of q Head"
    "\<And>r. r \<noteq> Head \<Longrightarrow> r \<notin> set (take n xs) \<Longrightarrow> next_of q2 r = next_of q r"
    "\<And>r. r \<noteq> m \<Longrightarrow> r \<notin> set (take n xs) \<Longrightarrow> prev_of q2 r = prev_of q r"
    "\<And>r. r \<in> set (take n xs) \<Longrightarrow> prev_of q2 r = None \<and> next_of q2 r = None"
    using dis unfolding q2_def by auto
  have c: "chain (store q) (Head # xs @ [Tail])" using r by (simp add: queue_rel_def)
  then have c0: "chain (store q) (xs @ [Tail])" "next_of q Head = Some (hd (xs @ [Tail]))"
    by (cases xs; simp)+
  have "chain (store q) (take n xs @ m # B)" using c0(1) m by (metis append_assoc append_take_drop_id)
  then have "chain (store q) (m # B)" using chain_append by blast
  moreover have "chain (store q2) (m # B) \<longleftrightarrow> chain (store q) (m # B)"
  proof (rule chain_frame; rule ballI)
    fix r assume "r \<in> set (butlast (m # B))"
    then have "r \<in> set (m # B)" by (rule in_set_butlastD)
    then have "r \<noteq> Head" "r \<notin> set (take n xs)" using dis by auto
    then show "next_of q2 r = next_of q r" by (rule q2(6))
  next
    fix r assume "r \<in> set (tl (m # B))"
    then have "r \<noteq> m" "r \<notin> set (take n xs)" using dis by auto
    then show "prev_of q2 r = prev_of q r" by (rule q2(7))
  qed
  ultimately have "chain (store q2) (Head # drop n xs @ [Tail])" using q2(3,4) by (simp add: m)
  moreover have "prev_of q2 r = None \<and> next_of q2 r = None" if "is_blk r" "r \<notin> set (drop n xs)" for r
  proof (cases "r \<in> set (take n xs)")
    case False
    have "r \<notin> set xs" using False that(2) by (metis Un_iff append_take_drop_id set_append)
    moreover have "r \<noteq> Head" "r \<noteq> m" using that min by auto
    ultimately show ?thesis
      using q2(6)[of r] q2(7)[of r] that(1) False r by (simp add: queue_rel_def)
  qed (simp add: q2(8))
  moreover have "Tail \<notin> set (take n xs)" using Dx by (auto dest: in_set_takeD)
  ultimately have "queue_rel q2 (drop n xs)"
    using r n q2(1,5,6) unfolding queue_rel_def by (auto simp: list_all_iff dest: in_set_dropD)
  moreover have "popleft_n q n = Inr (take n xs, q2)"
    using pop_loop_ok[of ?q0 xs n "[]"] c0 Dx n False r m unfolding q2_def
    by (simp add: popleft_n_def queue_rel_def)
  ultimately show ?thesis using q2(2) by blast
qed

lemma popleft_n_fail: "queue_rel q xs \<Longrightarrow> length xs < n \<Longrightarrow> popleft_n q n = Inl AssertionError"
  by (simp add: popleft_n_def queue_rel_def check_def)

lemma link_loop_spec:
  assumes "link_loop bs l q = (l', q')" "distinct (l # bs)"
  shows "l' = last (l # bs) \<and> chain (store q') (l # bs) \<and> prev_of q' l = prev_of q l
    \<and> (\<forall>r. r \<notin> set (l # bs) \<longrightarrow> store q' r = store q r)
    \<and> num_free_blocks q' = num_free_blocks q \<and> payload q' = payload q"
  using assms
proof (induction bs arbitrary: l q)
  case Nil
  then show ?case by simp
next
  case (Cons b bs)
  let ?q = "set_next l (Some b) (set_prev b (Some l) q)"
  from Cons.prems have "link_loop bs b ?q = (l', q')" "distinct (b # bs)" by simp_all
  from Cons.IH[OF this] Cons.prems(2) show ?case by auto
qed

lemma append_n_ok:
  assumes r: "queue_rel q xs" and ys: "\<forall>y\<in>set ys. is_blk y \<and> y \<notin> set xs" and d: "distinct ys"
  shows "\<exists>q'. append_n q ys = Inr q' \<and> queue_rel q' (xs @ ys) \<and> payload q' = payload q"
proof (cases "ys = []")
  case True
  with r show ?thesis by (simp add: append_n_def)
next
  case False
  obtain A l where A: "Head # xs = A @ [l]" by (metis list.distinct(1) rev_exhaust)
  have c: "chain (store q) (A @ l # [Tail])"
    using r A unfolding queue_rel_def by (metis append.assoc append_Cons append_Nil)
  then have cA: "chain (store q) (A @ [l])" "chain (store q) (l # [Tail])" using chain_append by blast+
  have D: "distinct (Head # xs @ [Tail])" by (rule queue_rel_distinct[OF r])
  have lin: "l \<in> set (Head # xs)" using A by (metis in_set_conv_decomp)
  then have dl: "distinct (l # ys)" using ys d by auto
  obtain l' q1 where L: "link_loop ys l q = (l', q1)" by fastforce
  note S = link_loop_spec[OF L dl]
  let ?q = "set_prev Tail (Some l') (set_next l' (Some Tail) q1)"
  define q2 where "q2 = ?q\<lparr>num_free_blocks := num_free_blocks ?q + int (length ys)\<rparr>"
  have dA: "distinct (A @ l # ys @ [Tail])"
  proof -
    have "distinct ((Head # xs) @ ys @ [Tail])" using D d ys by auto
    then show ?thesis unfolding A by simp
  qed
  have l': "l' \<in> set ys" "last (l # ys) = l'" using S False by auto
  have neT: "l' \<noteq> Tail" "Tail \<notin> set (l # ys)" using dA l'(1) by auto
  have q2: "num_free_blocks q2 = num_free_blocks q + int (length ys)" "payload q2 = payload q"
    "next_of q2 l' = Some Tail" "prev_of q2 Tail = Some l'" "next_of q2 Tail = next_of q Tail"
    "\<And>r. r \<noteq> l' \<Longrightarrow> r \<noteq> Tail \<Longrightarrow> next_of q2 r = next_of q1 r"
    "\<And>r. r \<noteq> Tail \<Longrightarrow> prev_of q2 r = prev_of q1 r"
    using S neT unfolding q2_def by simp_all
  have fr: "prev_of q2 r = prev_of q r" "r \<noteq> l \<Longrightarrow> next_of q2 r = next_of q r"
    if "r \<in> set (A @ [l])" for r
  proof -
    have "r \<noteq> Tail" "r \<noteq> l'" "r \<notin> set ys" using that dA l'(1) by auto
    then show "prev_of q2 r = prev_of q r" using S q2(7)[of r] by (cases "r = l") auto
    show "r \<noteq> l \<Longrightarrow> next_of q2 r = next_of q r"
      using \<open>r \<noteq> Tail\<close> \<open>r \<noteq> l'\<close> \<open>r \<notin> set ys\<close> S q2(6)[of r] by auto
  qed
  have "l \<notin> set (butlast (A @ [l]))" using dA by simp
  then have "chain (store q2) (A @ [l])"
    using chain_frame[of "A @ [l]" "store q2" "store q"] fr cA(1)
    by (metis in_set_butlastD list.set_sel(2) snoc_eq_iff_butlast)
  moreover have "chain (store q2) (l # ys @ [Tail])"
  proof -
    obtain C where C: "l # ys = C @ [l']" using l'(2) by (metis append_butlast_last_id list.distinct(1))
    have "distinct (l # ys)" "Tail \<notin> set (l # ys)" using dA by auto
    then have ndl: "l' \<notin> set C" and tl: "Tail \<notin> set (l # ys)" unfolding C by auto
    have "chain (store q2) (l # ys) \<longleftrightarrow> chain (store q1) (l # ys)"
    proof (rule chain_frame)
      show "\<forall>r\<in>set (butlast (l # ys)). next_of q2 r = next_of q1 r"
      proof
        fix r assume "r \<in> set (butlast (l # ys))"
        then have "r \<in> set C" "r \<in> set (l # ys)" unfolding C by auto
        then show "next_of q2 r = next_of q1 r" using ndl tl by (intro q2(6)) auto
      qed
      show "\<forall>r\<in>set (tl (l # ys)). prev_of q2 r = prev_of q1 r"
        using tl q2(7) by (metis list.sel(3) list.set_intros(2))
    qed
    then have "chain (store q2) (l # ys)" using S by blast
    then have "chain (store q2) (C @ [l'])" unfolding C .
    moreover have "chain (store q2) [l', Tail]" using q2(3,4) by simp
    ultimately have "chain (store q2) (C @ l' # [Tail])" using chain_append by blast
    then show ?thesis using C by (metis append.assoc append_Cons append_Nil)
  qed
  ultimately have "chain (store q2) (A @ l # ys @ [Tail])" using chain_append by blast
  then have "chain (store q2) (Head # (xs @ ys) @ [Tail])"
    using A by (metis append.assoc append_Cons append_Nil)
  moreover have "prev_of q2 r = None \<and> next_of q2 r = None" if "is_blk r" "r \<notin> set (xs @ ys)" for r
  proof -
    have "r \<noteq> Tail" "r \<noteq> l" "r \<notin> set ys" "r \<noteq> l'" using that lin l' by auto
    then show ?thesis using that r S q2(6,7)[of r] by (simp add: queue_rel_def)
  qed
  moreover have "prev_of q2 Head = None"
    using r S q2(7)[of Head] ys by (cases "l = Head") (auto simp: queue_rel_def)
  ultimately have "queue_rel q2 (xs @ ys)"
    using r d ys q2(1,5) unfolding queue_rel_def by (auto simp: list_all_iff)
  moreover have "append_n q ys = Inr q2"
    using L cA(2) False unfolding q2_def by (simp add: append_n_def)
  ultimately show ?thesis using q2(2) by blast
qed

lemma append_block_append_n:
  assumes "queue_rel q xs" "is_blk x" "x \<notin> set xs"
  shows "append_block q x = append_n q [x]"
proof -
  obtain A l where A: "Head # xs = A @ [l]" by (metis list.distinct(1) rev_exhaust)
  then have "l \<in> set (Head # xs)" by (metis in_set_conv_decomp)
  then have "l \<noteq> x" using assms by auto
  moreover have "chain (store q) (A @ l # [Tail])"
    using assms(1) A unfolding queue_rel_def by (metis append.assoc append_Cons append_Nil)
  then have "prev_of q Tail = Some l" using chain_append by (metis chain.simps(1))
  ultimately show ?thesis
    by (simp add: append_block_def append_n_def set_prev_def set_next_def upd_block_def fun_upd_twist)
qed

lemma append_block_ok:
  assumes "queue_rel q xs" "is_blk x" "x \<notin> set xs"
  shows "\<exists>q'. append_block q x = Inr q' \<and> queue_rel q' (xs @ [x]) \<and> payload q' = payload q"
  using append_n_ok[OF assms(1), of "[x]"] append_block_append_n[OF assms] assms by simp

interpretation fq: block_queue queue_rel is_blk payload popleft popleft_n remove_block append_block append_n
proof unfold_locales
  show "distinct xs" if "queue_rel q xs" for q xs using that by (simp add: queue_rel_def)
  show "is_blk x" if "queue_rel q xs" "x \<in> set xs" for q xs x
    using that by (auto simp: queue_rel_def list_all_iff)
qed (blast intro: popleft_Nil popleft_Cons popleft_n_ok popleft_n_fail remove_block_ok
  remove_block_fail append_block_ok append_n_ok)+

section \<open>Construction and traversal\<close>

definition blank_links :: "block_store \<Rightarrow> bool" where
  "blank_links st \<longleftrightarrow> (\<forall>r. prev_free_block (st r) = None \<and> next_free_block (st r) = None)"

text \<open>The links after the first \<open>k\<close> iterations of the constructor's loop.\<close>

lemma link_fold:
  assumes "distinct bs" "k \<le> length bs"
  shows "num_free_blocks (fold (link_one bs) [0..<k] q) = num_free_blocks q
    \<and> payload (fold (link_one bs) [0..<k] q) = payload q
    \<and> (\<forall>r. r \<notin> set (take k bs) \<longrightarrow> store (fold (link_one bs) [0..<k] q) r = store q r)
    \<and> (\<forall>i<k. prev_of (fold (link_one bs) [0..<k] q) (bs ! i)
              = (if i > 0 then Some (bs ! (i - 1)) else prev_of q (bs ! i))
          \<and> next_of (fold (link_one bs) [0..<k] q) (bs ! i)
              = (if i + 1 < length bs then Some (bs ! (i + 1)) else next_of q (bs ! i)))"
  using assms(2)
proof (induction k)
  case 0
  then show ?case by simp
next
  case (Suc k)
  let ?q = "fold (link_one bs) [0..<k] q"
  have nk: "bs ! k \<notin> set (take k bs)" "\<And>i. i < k \<Longrightarrow> bs ! i \<noteq> bs ! k"
    using assms(1) Suc.prems by (auto simp: in_set_conv_nth nth_eq_iff_index_eq)
  have "store ?q (bs ! k) = store q (bs ! k)" using Suc nk by simp
  moreover have "set (take (Suc k) bs) = insert (bs ! k) (set (take k bs))"
    using Suc.prems by (simp add: take_Suc_conv_app_nth)
  ultimately show ?case
    using Suc nk by (auto simp: link_one_def Let_def less_Suc_eq)
qed

lemma chain_nth:
  "chain st ns \<longleftrightarrow> (\<forall>i. i + 1 < length ns \<longrightarrow>
     next_free_block (st (ns ! i)) = Some (ns ! (i + 1)) \<and> prev_free_block (st (ns ! (i + 1))) = Some (ns ! i))"
  by (induction ns rule: induct_list012) (auto simp: nth_Cons split: nat.splits)

lemma init_links:
  assumes "blank_links st" "distinct bs" "list_all is_blk bs" "bs \<noteq> []"
  defines "q \<equiv> init_queue st bs"
  shows "num_free_blocks q = int (length bs)" "next_of q Head = Some (hd bs)" "prev_of q Head = None"
    "prev_of q Tail = Some (last bs)" "next_of q Tail = None"
    "i < length bs \<Longrightarrow> next_of q (bs ! i) = Some (if i + 1 < length bs then bs ! (i + 1) else Tail)"
    "i < length bs \<Longrightarrow> prev_of q (bs ! i) = Some (if i > 0 then bs ! (i - 1) else Head)"
    "is_blk r \<Longrightarrow> r \<notin> set bs \<Longrightarrow> store q r = st r"
    "is_blk r \<Longrightarrow> payload q r = payload \<lparr>store = st, num_free_blocks = 0\<rparr> r"
proof -
  let ?q0 = "\<lparr>store = st, num_free_blocks = int (length bs)\<rparr>"
  define q1 where "q1 = fold (link_one bs) [0..<length bs] ?q0"
  note L = link_fold[OF assms(2) order_refl, of ?q0, folded q1_def]
  have n: "num_free_blocks q1 = int (length bs)" using L by simp
  have q: "q = set_next (last bs) (Some Tail) (set_prev Tail (Some (last bs))
      (set_prev (bs ! 0) (Some Head) (set_next Head (Some (bs ! 0))
        (q1\<lparr>store := (store q1)(Head := new_block (-1), Tail := new_block (-1))\<rparr>))))"
    unfolding q_def init_queue_def Let_def q1_def[symmetric] using n assms(4) by simp
  have blk: "is_blk (last bs)" "is_blk (bs ! 0)" "\<And>i. i < length bs \<Longrightarrow> is_blk (bs ! i)"
    using assms(3,4) by (auto simp: list_all_iff)
  have h: "bs ! 0 = hd bs" "last bs = bs ! (length bs - 1)"
    using assms(4) by (simp_all add: hd_conv_nth last_conv_nth)
  have ix: "bs ! i = bs ! j \<longleftrightarrow> i = j" if "i < length bs" "j < length bs" for i j
    using that assms(2) by (simp add: nth_eq_iff_index_eq)
  show "num_free_blocks q = int (length bs)" using q n by simp
  show "next_of q Head = Some (hd bs)" "prev_of q Head = None" "prev_of q Tail = Some (last bs)"
    "next_of q Tail = None"
    using q blk(1,2) h(1) by (auto simp: new_block_def)
  have lk: "next_of q r = (if r = last bs then Some Tail else next_of q1 r)"
      "prev_of q r = (if r = bs ! 0 then Some Head else prev_of q1 r)" if "is_blk r" for r
    using that blk(1,2) unfolding q by (auto simp: is_blk_def)
  show "next_of q (bs ! i) = Some (if i + 1 < length bs then bs ! (i + 1) else Tail)" if i: "i < length bs"
  proof (cases "i + 1 < length bs")
    case True
    then have "bs ! i \<noteq> last bs" using ix[OF i, of "length bs - 1"] h(2) by simp
    with True L lk(1)[OF blk(3)[OF i]] i show ?thesis by simp
  next
    case False
    then have "bs ! i = last bs" using i h(2) by (metis Suc_eq_plus1 Suc_lessI diff_Suc_1)
    with False lk(1)[OF blk(3)[OF i]] show ?thesis by simp
  qed
  show "prev_of q (bs ! i) = Some (if i > 0 then bs ! (i - 1) else Head)" if i: "i < length bs"
  proof -
    have z: "0 < length bs" using assms(4) by simp
    have "prev_of q1 (bs ! i) = Some (bs ! (i - 1))" if "i > 0" using L i that by simp
    then show ?thesis using lk(2)[OF blk(3)[OF i]] ix[OF i z] by (cases "i > 0") simp_all
  qed
  show "store q r = st r" if "is_blk r" "r \<notin> set bs"
  proof -
    have "r \<noteq> last bs" "r \<noteq> bs ! 0" using that assms(4) by auto
    moreover have "store q1 r = st r" using L that by simp
    ultimately show ?thesis using that(1) unfolding q by (simp add: is_blk_def)
  qed
  have "payload q r = payload q1 r" if "is_blk r" for r
    using that unfolding q by (simp add: payload_def is_blk_def)
  moreover have "payload q1 = payload ?q0" using L by blast
  ultimately show "payload q r = payload \<lparr>store = st, num_free_blocks = 0\<rparr> r" if "is_blk r"
    using that by (simp add: payload_def)
qed

lemma init_queue_rel:
  assumes "blank_links st" "distinct bs" "list_all is_blk bs"
  shows "queue_rel (init_queue st bs) bs"
proof (cases "bs = []")
  case True
  with assms show ?thesis by (auto simp: init_queue_def queue_rel_def new_block_def blank_links_def is_blk_def)
next
  case False
  note I = init_links[OF assms False]
  have "chain (store (init_queue st bs)) (Head # bs @ [Tail])"
    unfolding chain_nth
  proof (intro allI impI)
    fix i assume i: "i + 1 < length (Head # bs @ [Tail])"
    show "next_of (init_queue st bs) ((Head # bs @ [Tail]) ! i) = Some ((Head # bs @ [Tail]) ! (i + 1))
      \<and> prev_of (init_queue st bs) ((Head # bs @ [Tail]) ! (i + 1)) = Some ((Head # bs @ [Tail]) ! i)"
    proof (cases i)
      case 0
      with I(2) I(7)[of 0] False show ?thesis by (simp add: nth_append hd_conv_nth)
    next
      case (Suc j)
      show ?thesis
      proof (cases "Suc j < length bs")
        case True
        with Suc I(6)[of j] I(7)[of "Suc j"] show ?thesis by (simp add: nth_append)
      next
        case nj: False
        with i Suc have j: "Suc j = length bs" by simp
        then have "last bs = bs ! j" using False by (metis diff_Suc_1 last_conv_nth)
        moreover have "(Head # bs @ [Tail]) ! i = bs ! j" "(Head # bs @ [Tail]) ! (i + 1) = Tail"
          using j Suc by (simp_all add: nth_append flip: j)
        ultimately show ?thesis using j I(4) I(6)[of j] by simp
      qed
    qed
  qed
  moreover have "prev_of (init_queue st bs) r = None \<and> next_of (init_queue st bs) r = None"
    if "is_blk r" "r \<notin> set bs" for r
    using I(8)[OF that] assms(1) by (simp add: blank_links_def)
  ultimately show ?thesis
    using I(1,3,5) assms(2,3) by (simp add: queue_rel_def)
qed

lemma walk_chain:
  assumes "chain st (xs @ [Tail])" "next_free_block (st Tail) = None"
  shows "walk st (hd (xs @ [Tail])) acc = Some (acc @ xs)"
  using assms
proof (induction xs arbitrary: acc)
  case Nil
  then show ?case by (simp add: walk.simps)
next
  case (Cons x xs)
  obtain m B where m: "xs @ [Tail] = m # B" by (cases "xs @ [Tail]") auto
  then have "next_free_block (st x) = Some m" "chain st (xs @ [Tail])" using Cons.prems(1) by simp_all
  with Cons.IH[of "acc @ [x]"] Cons.prems(2) m show ?case by (subst walk.simps) simp
qed

lemma get_all_free_blocks_ok: "queue_rel q xs \<Longrightarrow> get_all_free_blocks q = Some (Inr xs)"
  using walk_chain[of "store q" xs "[]"]
  by (cases xs) (auto simp: queue_rel_def get_all_free_blocks_def)

section \<open>Properties\<close>

text \<open>the constructor turns a list of distinct, unlinked blocks into a well-formed
  doubly linked list that holds exactly these blocks in this order.\<close>

theorem free_queue_init:
  assumes "blank_links st" "distinct bs" "list_all is_blk bs"
  shows "queue_rel (init_queue st bs) bs \<and> get_all_free_blocks (init_queue st bs) = Some (Inr bs)"
  using init_queue_rel[OF assms] get_all_free_blocks_ok by blast

theorem free_queue_init_witness:
  "queue_rel (init_queue (\<lambda>_. new_block 0) [Blk 0, Blk 1, Blk 2]) [Blk 0, Blk 1, Blk 2]
   \<and> get_all_free_blocks (init_queue (\<lambda>_. new_block 0) [Blk 0, Blk 1, Blk 2])
       = Some (Inr [Blk 0, Blk 1, Blk 2])"
  by (rule free_queue_init) (simp_all add: blank_links_def new_block_def)

text \<open>The bulk operation \<^verbatim>\<open>popleft_n\<close>, which relinks the fake head only once, returns what
  \<open>n\<close> calls of \<^verbatim>\<open>popleft\<close> return, and both leave a well-formed queue of the
  remaining blocks and touch nothing but the links.\<close>

theorem popleft_n_iterates_popleft:
  assumes "queue_rel q xs" "n \<le> length xs"
  shows "\<exists>q1 q2. popleft_n q n = Inr (take n xs, q1)
    \<and> for_each (\<lambda>_ (acc, q). bnd (popleft q) (\<lambda>(b, q'). Inr (acc @ [b], q'))) [0..<n] ([], q)
        = Inr (take n xs, q2)
    \<and> queue_rel q1 (drop n xs) \<and> queue_rel q2 (drop n xs)
    \<and> payload q1 = payload q \<and> payload q2 = payload q"
  using fq.pop_n_ok[OF assms] fq.pop_iter[OF assms] by blast

theorem popleft_n_iterates_popleft_witness:
  "\<exists>q1 q2. popleft_n (init_queue (\<lambda>_. new_block 0) [Blk 4, Blk 1, Blk 2]) 2 = Inr ([Blk 4, Blk 1], q1)
    \<and> for_each (\<lambda>_ (acc, q). bnd (popleft q) (\<lambda>(b, q'). Inr (acc @ [b], q'))) [0..<2]
         ([], init_queue (\<lambda>_. new_block 0) [Blk 4, Blk 1, Blk 2]) = Inr ([Blk 4, Blk 1], q2)
    \<and> queue_rel q1 [Blk 2] \<and> queue_rel q2 [Blk 2]"
proof -
  let ?q = "init_queue (\<lambda>_. new_block 0) [Blk 4, Blk 1, Blk 2]"
  have "queue_rel ?q [Blk 4, Blk 1, Blk 2]"
    by (rule init_queue_rel) (simp_all add: blank_links_def new_block_def)
  from popleft_n_iterates_popleft[OF this, of 2] show ?thesis
    by (simp only: list.size take_Cons' drop_Cons') auto
qed

text \<open>C20: The linked queue implements a list of blocks. \<^verbatim>\<open>popleft\<close> takes the first block and raises
  on the empty queue; \<^verbatim>\<open>popleft_n\<close> takes the first \<open>n\<close> blocks in order and refuses every \<open>n\<close> larger
  than the queue; \<^verbatim>\<open>remove\<close> takes a block out of the middle and refuses one that is not linked;
  \<^verbatim>\<open>append\<close> and \<^verbatim>\<open>append_n\<close> add blocks that are not in the queue at the tail; the enumeration lists
  the blocks in order. No operation changes what the blocks carry (their id, reference count, hash
  and null mark).\<close>

theorem free_queue_refines_list:
  assumes "queue_rel q xs" "is_blk x" "distinct ys" "list_all (\<lambda>y. is_blk y \<and> y \<notin> set xs) ys"
  shows "(if x \<in> set xs
          then \<exists>q'. remove_block q x = Inr q' \<and> queue_rel q' (remove1 x xs) \<and> payload q' = payload q
          else remove_block q x = Inl RuntimeError
             \<and> (\<exists>q'. append_block q x = Inr q' \<and> queue_rel q' (xs @ [x]) \<and> payload q' = payload q))
    \<and> (\<exists>q'. append_n q ys = Inr q' \<and> queue_rel q' (xs @ ys) \<and> payload q' = payload q)
    \<and> (if n \<le> length xs
       then \<exists>q'. popleft_n q n = Inr (take n xs, q') \<and> queue_rel q' (drop n xs) \<and> payload q' = payload q
       else popleft_n q n = Inl AssertionError)
    \<and> (case xs of [] \<Rightarrow> popleft q = Inl ValueError
        | y # zs \<Rightarrow> \<exists>q'. popleft q = Inr (y, q') \<and> queue_rel q' zs \<and> payload q' = payload q)
    \<and> get_all_free_blocks q = Some (Inr xs)"
proof (intro conjI)
  have "\<forall>y\<in>set ys. is_blk y \<and> y \<notin> set xs" using assms(4) by (simp add: list_all_iff)
  then show "\<exists>q'. append_n q ys = Inr q' \<and> queue_rel q' (xs @ ys) \<and> payload q' = payload q"
    by (rule fq.put_n_ok[OF assms(1) _ assms(3)])
  show "case xs of [] \<Rightarrow> popleft q = Inl ValueError
      | y # zs \<Rightarrow> \<exists>q'. popleft q = Inr (y, q') \<and> queue_rel q' zs \<and> payload q' = payload q"
    using fq.pop_Nil[of q] fq.pop_Cons[of q] assms(1) by (cases xs) auto
qed (use fq.del_ok[OF assms(1), of x] fq.del_fail[OF assms(1,2)] fq.put_ok[OF assms(1,2)] fq.pop_n_ok[OF assms(1), of n]
    fq.pop_n_fail[OF assms(1), of n] get_all_free_blocks_ok[OF assms(1)] in \<open>simp_all add: not_le\<close>)

theorem free_queue_refines_list_witness:
  "\<exists>q'. remove_block (init_queue (\<lambda>_. new_block 0) [Blk 4, Blk 1, Blk 2]) (Blk 1) = Inr q'
    \<and> queue_rel q' [Blk 4, Blk 2]"
proof -
  let ?q = "init_queue (\<lambda>_. new_block 0) [Blk 4, Blk 1, Blk 2]"
  have "queue_rel ?q [Blk 4, Blk 1, Blk 2]"
    by (rule init_queue_rel) (simp_all add: blank_links_def new_block_def)
  from free_queue_refines_list[OF this, of "Blk 1" "[Blk 7]"] show ?thesis by auto
qed

end
