(* ===== verification/Request_Model.thy ===== *)
theory Request_Model
  imports Prelude Complex_Main
begin

text \<open>
  The request object of \<^verbatim>\<open>vllm/v1/request.py\<close> with its status machine, and the helpers of
  \<^verbatim>\<open>vllm/v1/core/sched/utils.py\<close> that decide when a request stops. The block hasher a
  request is built with is an argument of the constructor and of the append operation,
  because the source stores it as a partial application to the request itself. Tensors are
  represented by what the code reads of them (the number of rows of \<^verbatim>\<open>prompt_embeds\<close>);
  timestamps are arguments.
\<close>

section \<open>Status\<close>

datatype request_status =
    WAITING | WAITING_FOR_FSM | WAITING_FOR_REMOTE_KVS | RUNNING | PREEMPTED
  | FINISHED_STOPPED | FINISHED_LENGTH_CAPPED | FINISHED_ABORTED | FINISHED_IGNORED

text \<open>\<^verbatim>\<open>enum.auto()\<close> numbers the members from 1 in the order of their declaration.\<close>

fun status_value :: "request_status \<Rightarrow> nat" where
  "status_value WAITING = 1"
| "status_value WAITING_FOR_FSM = 2"
| "status_value WAITING_FOR_REMOTE_KVS = 3"
| "status_value RUNNING = 4"
| "status_value PREEMPTED = 5"
| "status_value FINISHED_STOPPED = 6"
| "status_value FINISHED_LENGTH_CAPPED = 7"
| "status_value FINISHED_ABORTED = 8"
| "status_value FINISHED_IGNORED = 9"

instantiation request_status :: linorder
begin

definition less_eq_request_status :: "request_status \<Rightarrow> request_status \<Rightarrow> bool" where
  "less_eq_request_status a b \<longleftrightarrow> status_value a \<le> status_value b"

definition less_request_status :: "request_status \<Rightarrow> request_status \<Rightarrow> bool" where
  "less_request_status a b \<longleftrightarrow> status_value a < status_value b"

instance
proof
  have inj: "status_value a = status_value b \<Longrightarrow> a = b" for a b
    by (cases a; cases b) simp_all
  fix a b c :: request_status
  show "a < b \<longleftrightarrow> a \<le> b \<and> \<not> b \<le> a" "a \<le> a" "a \<le> b \<or> b \<le> a"
    by (auto simp: less_eq_request_status_def less_request_status_def)
  show "a \<le> b \<Longrightarrow> b \<le> c \<Longrightarrow> a \<le> c" by (simp add: less_eq_request_status_def)
  show "a \<le> b \<Longrightarrow> b \<le> a \<Longrightarrow> a = b" using inj by (simp add: less_eq_request_status_def)
qed

end

datatype finish_reason = Reason_STOP | Reason_LENGTH | Reason_ABORT

definition status_is_finished :: "request_status \<Rightarrow> bool" where
  "status_is_finished s \<longleftrightarrow> s > PREEMPTED"

fun finished_reason_map :: "request_status \<rightharpoonup> finish_reason" where
  "finished_reason_map FINISHED_STOPPED = Some Reason_STOP"
| "finished_reason_map FINISHED_LENGTH_CAPPED = Some Reason_LENGTH"
| "finished_reason_map FINISHED_ABORTED = Some Reason_ABORT"
| "finished_reason_map FINISHED_IGNORED = Some Reason_LENGTH"
| "finished_reason_map _ = None"

section \<open>The request record\<close>

record placeholder_range =
  offset :: int
  mm_length :: int
  is_embed :: "bool list option"

record mm_feature =
  modality :: string
  mm_identifier :: string
  mm_position :: placeholder_range

definition get_num_embeds :: "placeholder_range \<Rightarrow> int" where
  "get_num_embeds p = (case is_embed p of
     None \<Rightarrow> mm_length p
   | Some bits \<Rightarrow> int (length (filter (\<lambda>b. b) bits)))"

record lora_request =
  lora_name :: string
  lora_int_id :: int

record sampling_params =
  sp_max_tokens :: "int option"
  ignore_eos :: bool
  stop_token_ids :: "int list option"
  structured_outputs :: "string option"
  extra_args :: "(string \<rightharpoonup> string) option"
  logprobs :: "int option"
  prompt_logprobs :: "int option"

text \<open>The grammar slot of a \<^verbatim>\<open>StructuredOutputRequest\<close>: absent, still being compiled, or a
  compiled grammar, by its handle.\<close>

datatype grammar_slot = No_Grammar | Grammar_Future nat | Grammar nat

datatype event_type = QUEUED | SCHEDULED | EV_PREEMPTED

record request =
  request_id :: string
  client_index :: int
  priority :: int
  sampling_params :: "sampling_params option"
  pooling_params :: "string option"
  eos_token_id :: "int option"
  lora_request :: "lora_request option"
  structured_output_request :: "grammar_slot option"
  arrival_time :: rat
  status :: request_status
  use_structured_output :: bool
  events :: "(event_type \<times> rat) list"
  stop_reason :: "int option"
  kv_transfer_params :: "string option"
  max_tokens :: int
  prompt_token_ids :: "int list option"
  prompt_embeds :: "nat option"
  num_prompt_tokens :: nat
  output_token_ids :: "int list"
  all_token_ids :: "int list"
  num_output_placeholders :: int
  spec_token_ids :: "int list"
  num_computed_tokens :: int
  cache_salt :: "string option"
  mm_features :: "mm_feature list"
  num_cached_tokens :: int
  num_nans_in_logits :: int
  block_hashes :: "bytes list"

type_synonym block_hasher = "request \<Rightarrow> bytes list result"

section \<open>Construction\<close>

definition length_from_prompt_token_ids_or_embeds :: "int list option \<Rightarrow> nat option \<Rightarrow> nat result" where
  "length_from_prompt_token_ids_or_embeds tids embeds =
     (case map_option length tids of
        None \<Rightarrow> (case embeds of None \<Rightarrow> Inl ValueError | Some n \<Rightarrow> Inr n)
      | Some k \<Rightarrow>
          if embeds \<noteq> None \<and> embeds \<noteq> Some k then Inl ValueError else Inr k)"

text \<open>The arguments of \<^verbatim>\<open>Request.__init__\<close> (the hasher apart).\<close>

record request_args =
  a_request_id :: string
  a_prompt_token_ids :: "int list option"
  a_sampling_params :: "sampling_params option"
  a_pooling_params :: "string option"
  a_eos_token_id :: "int option"
  a_client_index :: int
  a_arrival_time :: "rat option"
  a_prompt_embeds :: "nat option"
  a_mm_features :: "mm_feature list option"
  a_lora_request :: "lora_request option"
  a_structured_output_request :: "grammar_slot option"
  a_cache_salt :: "string option"
  a_priority :: int

text \<open>\<^verbatim>\<open>max_tokens\<close>, the first status, \<^verbatim>\<open>use_structured_output\<close> and \<^verbatim>\<open>kv_transfer_params\<close>
  depend on whether the request is a pooling or a generation request.\<close>

definition init_mode :: "sampling_params option \<Rightarrow> string option
    \<Rightarrow> (int \<times> request_status \<times> bool \<times> string option) result" where
  "init_mode sp pp =
     (case pp of
        Some _ \<Rightarrow> Inr (1, WAITING, False, None)
      | None \<Rightarrow> (case sp of
          Some s \<Rightarrow> (case sp_max_tokens s of
              None \<Rightarrow> Inl AssertionError
            | Some m \<Rightarrow>
                let structured = structured_outputs s \<noteq> None
                in Inr (m, if structured then WAITING_FOR_FSM else WAITING, structured,
                        case extra_args s of None \<Rightarrow> None | Some a \<Rightarrow> a ''kv_transfer_params''))
        | None \<Rightarrow> Inl ValueError))"

definition new_request :: "rat \<Rightarrow> request_args \<Rightarrow> int \<Rightarrow> request_status \<Rightarrow> bool \<Rightarrow> string option \<Rightarrow> nat \<Rightarrow> request" where
  "new_request now a mt st uso kvp n =
     \<lparr>request_id = a_request_id a, client_index = a_client_index a, priority = a_priority a,
      sampling_params = a_sampling_params a, pooling_params = a_pooling_params a,
      eos_token_id = a_eos_token_id a, lora_request = a_lora_request a,
      structured_output_request = a_structured_output_request a,
      arrival_time = (case a_arrival_time a of Some t \<Rightarrow> t | None \<Rightarrow> now),
      status = st, use_structured_output = uso, events = [], stop_reason = None,
      kv_transfer_params = kvp, max_tokens = mt,
      prompt_token_ids = a_prompt_token_ids a, prompt_embeds = a_prompt_embeds a,
      num_prompt_tokens = n, output_token_ids = [],
      all_token_ids = (case a_prompt_token_ids a of Some ts \<Rightarrow> ts | None \<Rightarrow> replicate n 0),
      num_output_placeholders = 0, spec_token_ids = [], num_computed_tokens = 0,
      cache_salt = a_cache_salt a,
      mm_features = (case a_mm_features a of Some fs \<Rightarrow> fs | None \<Rightarrow> []),
      num_cached_tokens = -1, num_nans_in_logits = 0, block_hashes = []\<rparr>"

definition request_init :: "rat \<Rightarrow> block_hasher option \<Rightarrow> request_args \<Rightarrow> request result" where
  "request_init now hasher a =
     bnd (init_mode (a_sampling_params a) (a_pooling_params a)) (\<lambda>(mt, st, uso, kvp).
     bnd (length_from_prompt_token_ids_or_embeds (a_prompt_token_ids a) (a_prompt_embeds a)) (\<lambda>n.
       let r = new_request now a mt st uso kvp n
       in case hasher of
            None \<Rightarrow> Inr r
          | Some h \<Rightarrow> bnd (h r) (\<lambda>hs. Inr (r\<lparr>block_hashes := hs\<rparr>))))"

text \<open>\<^verbatim>\<open>Request.from_engine_core_request\<close>: the client index keeps its value and a structured
  output request is attached to every request with sampling parameters.\<close>

definition from_engine_core_request :: "rat \<Rightarrow> block_hasher option \<Rightarrow> request_args \<Rightarrow> request result" where
  "from_engine_core_request now hasher a =
     request_init now hasher (a\<lparr>a_structured_output_request :=
       (case a_sampling_params a of Some _ \<Rightarrow> Some No_Grammar | None \<Rightarrow> None)\<rparr>)"

section \<open>Operations\<close>

definition append_output_token_ids :: "block_hasher option \<Rightarrow> int list \<Rightarrow> request \<Rightarrow> request result" where
  "append_output_token_ids hasher ts r =
     (let r1 = r\<lparr>output_token_ids := output_token_ids r @ ts, all_token_ids := all_token_ids r @ ts\<rparr>
      in case hasher of
           None \<Rightarrow> Inr r1
         | Some h \<Rightarrow> bnd (h r1) (\<lambda>hs. Inr (r1\<lparr>block_hashes := block_hashes r1 @ hs\<rparr>)))"

definition is_output_corrupted :: "request \<Rightarrow> bool" where
  "is_output_corrupted r \<longleftrightarrow> num_nans_in_logits r > 0"

definition num_tokens :: "request \<Rightarrow> int" where
  "num_tokens r = int (length (all_token_ids r))"

definition num_tokens_with_spec :: "request \<Rightarrow> int" where
  "num_tokens_with_spec r = int (length (all_token_ids r)) + int (length (spec_token_ids r))"

definition num_output_tokens :: "request \<Rightarrow> int" where
  "num_output_tokens r = int (length (output_token_ids r))"

definition is_finished :: "request \<Rightarrow> bool" where
  "is_finished r = status_is_finished (status r)"

definition get_finished_reason :: "request \<Rightarrow> finish_reason option" where
  "get_finished_reason r = finished_reason_map (status r)"

definition has_encoder_inputs :: "request \<Rightarrow> bool" where
  "has_encoder_inputs r \<longleftrightarrow> length (mm_features r) > 0"

text \<open>\<^verbatim>\<open>get_num_encoder_tokens\<close> asserts an upper bound only; its callers pass indices counted
  from zero.\<close>

definition get_num_encoder_tokens :: "request \<Rightarrow> nat \<Rightarrow> int result" where
  "get_num_encoder_tokens r i =
     check (i < length (mm_features r)) AssertionError (Inr (mm_length (mm_position (mm_features r ! i))))"

definition record_event :: "event_type \<Rightarrow> rat \<Rightarrow> request \<Rightarrow> request" where
  "record_event t ts r = r\<lparr>events := events r @ [(t, ts)]\<rparr>"

definition take_events :: "request \<Rightarrow> (event_type \<times> rat) list option \<times> request" where
  "take_events r = (if events r = [] then (None, r) else (Some (events r), r\<lparr>events := []\<rparr>))"

section \<open>Scheduler helpers\<close>

definition remove_all :: "'a list \<Rightarrow> 'a set \<Rightarrow> 'a list" where
  "remove_all lst items =
     (if items = {} then lst
      else if card items = 1 then remove1 (the_elem items) lst
      else filter (\<lambda>x. x \<notin> items) lst)"

text \<open>\<^verbatim>\<open>check_stop\<close> returns the updated request and whether it stopped.\<close>

definition check_stop :: "request \<Rightarrow> int \<Rightarrow> bool \<Rightarrow> (request \<times> bool) result" where
  "check_stop r max_model_len has_pooler_output =
     (if num_tokens r \<ge> max_model_len \<or> num_output_tokens r \<ge> max_tokens r
      then Inr (r\<lparr>status := FINISHED_LENGTH_CAPPED\<rparr>, True)
      else if pooling_params r \<noteq> None
      then (if has_pooler_output then Inr (r\<lparr>status := FINISHED_STOPPED\<rparr>, True) else Inr (r, False))
      else (case sampling_params r of
          None \<Rightarrow> Inl AssertionError
        | Some sp \<Rightarrow>
            if output_token_ids r = [] then Inl IndexError
            else let last_token_id = last (output_token_ids r) in
              if \<not> ignore_eos sp \<and> Some last_token_id = eos_token_id r
              then Inr (r\<lparr>status := FINISHED_STOPPED\<rparr>, True)
              else if last_token_id \<in> set (case stop_token_ids sp of None \<Rightarrow> [] | Some ts \<Rightarrow> ts)
              then Inr (r\<lparr>status := FINISHED_STOPPED, stop_reason := Some last_token_id\<rparr>, True)
              else Inr (r, False)))"

section \<open>Lemmas\<close>

definition request_wf :: "request \<Rightarrow> bool" where
  "request_wf r \<longleftrightarrow>
     all_token_ids r = (case prompt_token_ids r of Some ts \<Rightarrow> ts | None \<Rightarrow> replicate (num_prompt_tokens r) 0)
                         @ output_token_ids r
     \<and> (case prompt_token_ids r of Some ts \<Rightarrow> num_prompt_tokens r = length ts | None \<Rightarrow> True)
     \<and> (sampling_params r \<noteq> None \<or> pooling_params r \<noteq> None)"

lemma status_is_finished_iff:
  "status_is_finished s \<longleftrightarrow>
     s \<in> {FINISHED_STOPPED, FINISHED_LENGTH_CAPPED, FINISHED_ABORTED, FINISHED_IGNORED}"
  by (cases s) (simp_all add: status_is_finished_def less_request_status_def)

lemma status_is_finished_simps [simp]:
  "status_is_finished FINISHED_STOPPED" "status_is_finished FINISHED_LENGTH_CAPPED"
  "status_is_finished FINISHED_ABORTED" "status_is_finished FINISHED_IGNORED"
  "\<not> status_is_finished WAITING" "\<not> status_is_finished WAITING_FOR_FSM"
  "\<not> status_is_finished WAITING_FOR_REMOTE_KVS" "\<not> status_is_finished RUNNING"
  "\<not> status_is_finished PREEMPTED"
  by (simp_all add: status_is_finished_iff)

lemma init_mode_Inr: "init_mode sp pp = Inr x \<Longrightarrow> sp \<noteq> None \<or> pp \<noteq> None"
  by (auto simp: init_mode_def split: option.splits)

lemma length_from_prompt_Inr:
  "length_from_prompt_token_ids_or_embeds tids embeds = Inr n \<Longrightarrow>
     (case tids of Some ts \<Rightarrow> n = length ts | None \<Rightarrow> embeds = Some n)"
  by (auto simp: length_from_prompt_token_ids_or_embeds_def split: option.splits if_splits)

lemma new_request_simps [simp]:
  "sampling_params (new_request now a mt st uso kvp n) = a_sampling_params a"
  "pooling_params (new_request now a mt st uso kvp n) = a_pooling_params a"
  "prompt_token_ids (new_request now a mt st uso kvp n) = a_prompt_token_ids a"
  "output_token_ids (new_request now a mt st uso kvp n) = []"
  "num_prompt_tokens (new_request now a mt st uso kvp n) = n"
  "all_token_ids (new_request now a mt st uso kvp n)
     = (case a_prompt_token_ids a of Some ts \<Rightarrow> ts | None \<Rightarrow> replicate n 0)"
  "mm_features (new_request now a mt st uso kvp n) = (case a_mm_features a of Some fs \<Rightarrow> fs | None \<Rightarrow> [])"
  "lora_request (new_request now a mt st uso kvp n) = a_lora_request a"
  "cache_salt (new_request now a mt st uso kvp n) = a_cache_salt a"
  "status (new_request now a mt st uso kvp n) = st"
  "max_tokens (new_request now a mt st uso kvp n) = mt"
  "block_hashes (new_request now a mt st uso kvp n) = []"
  "num_computed_tokens (new_request now a mt st uso kvp n) = 0"
  "spec_token_ids (new_request now a mt st uso kvp n) = []"
  "request_id (new_request now a mt st uso kvp n) = a_request_id a"
  "(new_request now a mt st uso kvp n)\<lparr>block_hashes := []\<rparr> = new_request now a mt st uso kvp n"
  by (simp_all add: new_request_def)

text \<open>A constructed request is a new one up to the hashes.\<close>

lemma request_initE:
  assumes "request_init now hasher a = Inr r"
  obtains mt st uso kvp n hs where
    "init_mode (a_sampling_params a) (a_pooling_params a) = Inr (mt, st, uso, kvp)"
    "length_from_prompt_token_ids_or_embeds (a_prompt_token_ids a) (a_prompt_embeds a) = Inr n"
    "r = (new_request now a mt st uso kvp n)\<lparr>block_hashes := hs\<rparr>"
    "case hasher of None \<Rightarrow> hs = [] | Some h \<Rightarrow> h (new_request now a mt st uso kvp n) = Inr hs"
proof -
  obtain mt st uso kvp n where 1: "init_mode (a_sampling_params a) (a_pooling_params a) = Inr (mt, st, uso, kvp)"
    and 2: "length_from_prompt_token_ids_or_embeds (a_prompt_token_ids a) (a_prompt_embeds a) = Inr n"
    using assms unfolding request_init_def
    by (cases "init_mode (a_sampling_params a) (a_pooling_params a)";
        cases "length_from_prompt_token_ids_or_embeds (a_prompt_token_ids a) (a_prompt_embeds a)") auto
  show ?thesis
  proof (cases hasher)
    case None
    have "r = (new_request now a mt st uso kvp n)\<lparr>block_hashes := []\<rparr>"
      using assms None by (auto simp: request_init_def 1 2)
    with that[OF 1 2] None show ?thesis by simp
  next
    case (Some h)
    with assms that[OF 1 2] show ?thesis by (auto simp: request_init_def Let_def 1 2)
  qed
qed

lemma request_init_wf:
  assumes "request_init now hasher a = Inr r"
  shows "request_wf r"
proof (rule request_initE[OF assms])
  fix mt st uso kvp n hs
  assume "init_mode (a_sampling_params a) (a_pooling_params a) = Inr (mt, st, uso, kvp)"
    "length_from_prompt_token_ids_or_embeds (a_prompt_token_ids a) (a_prompt_embeds a) = Inr n"
    "r = (new_request now a mt st uso kvp n)\<lparr>block_hashes := hs\<rparr>"
  then show ?thesis
    using init_mode_Inr length_from_prompt_Inr by (fastforce simp: request_wf_def split: option.splits)
qed

lemma request_wf_upd [simp]:
  "request_wf (r\<lparr>status := st\<rparr>) = request_wf r"
  "request_wf (r\<lparr>status := st, stop_reason := x\<rparr>) = request_wf r"
  by (auto simp: request_wf_def split: option.splits)

lemma append_output_token_ids_wf:
  assumes "append_output_token_ids hasher ts r = Inr r'" "request_wf r"
  shows "request_wf r'"
  using assms
  by (auto simp: append_output_token_ids_def request_wf_def Let_def split: option.splits)

lemma remove_all_filter:
  assumes "distinct lst" "finite items"
  shows "remove_all lst items = filter (\<lambda>x. x \<notin> items) lst"
proof (cases "card items = 1")
  case True
  then obtain x where "items = {x}" by (auto simp: card_Suc_eq numeral_eq_Suc)
  with assms show ?thesis by (simp add: remove_all_def distinct_remove1_removeAll removeAll_filter_not_eq) (metis)
qed (auto simp: remove_all_def)

section \<open>Properties\<close>

text \<open>The conditions under which a request stops, in the order of their precedence.\<close>

definition length_capped :: "request \<Rightarrow> int \<Rightarrow> bool" where
  "length_capped r max_model_len \<longleftrightarrow> num_tokens r \<ge> max_model_len \<or> num_output_tokens r \<ge> max_tokens r"

definition emitted_stop :: "request \<Rightarrow> bool" where
  "emitted_stop r \<longleftrightarrow> (case sampling_params r of
     None \<Rightarrow> False
   | Some sp \<Rightarrow> output_token_ids r \<noteq> []
       \<and> (\<not> ignore_eos sp \<and> eos_token_id r = Some (last (output_token_ids r))
          \<or> (\<exists>ts. stop_token_ids sp = Some ts \<and> last (output_token_ids r) \<in> set ts)))"

text \<open>on a well-formed, unfinished request with output, \<^verbatim>\<open>check_stop\<close> returns; the request is
  finished exactly when it says so, which is when the length cap is reached, a pooler output
  is there, or the last token is the end-of-sequence or a stop token; the length cap takes
  precedence in the reported reason, and nothing else of the request changes otherwise.\<close>

theorem check_stop_correct:
  assumes "request_wf r" "\<not> is_finished r" "pooling_params r = None \<longrightarrow> output_token_ids r \<noteq> []"
  shows "\<exists>r' stopped. check_stop r max_model_len has_pooler_output = Inr (r', stopped)
    \<and> stopped = is_finished r'
    \<and> stopped = (length_capped r max_model_len
        \<or> (if pooling_params r \<noteq> None then has_pooler_output else emitted_stop r))
    \<and> get_finished_reason r' = (if length_capped r max_model_len then Some Reason_LENGTH
        else if stopped then Some Reason_STOP else None)
    \<and> request_wf r' \<and> (\<not> stopped \<longrightarrow> r' = r)"
proof -
  have nf: "finished_reason_map (status r) = None"
    using assms(2) by (cases "status r") (simp_all add: is_finished_def)
  consider (cap) "length_capped r max_model_len"
    | (pool) "\<not> length_capped r max_model_len" "pooling_params r \<noteq> None"
    | (sample) sp where "\<not> length_capped r max_model_len" "pooling_params r = None" "sampling_params r = Some sp"
    using assms(1) by (auto simp: request_wf_def)
  then show ?thesis
  proof cases
    case cap
    with assms(1) show ?thesis
      by (simp add: check_stop_def length_capped_def is_finished_def get_finished_reason_def)
  next
    case pool
    with assms nf show ?thesis
      by (auto simp: check_stop_def length_capped_def is_finished_def get_finished_reason_def)
  next
    case sample
    with assms nf show ?thesis
      by (cases "stop_token_ids sp")
        (auto simp: check_stop_def length_capped_def is_finished_def get_finished_reason_def
          emitted_stop_def Let_def)
  qed
qed

definition stop_demo :: request where
  "stop_demo = (new_request 0 \<lparr>a_request_id = ''r'', a_prompt_token_ids = Some [1, 2],
       a_sampling_params = Some \<lparr>sp_max_tokens = Some 16, ignore_eos = False, stop_token_ids = Some [9],
         structured_outputs = None, extra_args = None, logprobs = None, prompt_logprobs = None\<rparr>,
       a_pooling_params = None, a_eos_token_id = Some 3, a_client_index = 0, a_arrival_time = None,
       a_prompt_embeds = None, a_mm_features = None, a_lora_request = None,
       a_structured_output_request = None, a_cache_salt = None, a_priority = 0\<rparr> 16 RUNNING False None 2)
     \<lparr>output_token_ids := [5, 9], all_token_ids := [1, 2, 5, 9]\<rparr>"

theorem check_stop_correct_witness:
  "\<exists>r'. check_stop stop_demo 100 False = Inr (r', True) \<and> get_finished_reason r' = Some Reason_STOP"
proof -
  have d: "request_wf stop_demo" "\<not> is_finished stop_demo" "output_token_ids stop_demo \<noteq> []"
    "\<not> length_capped stop_demo 100" "pooling_params stop_demo = None" "emitted_stop stop_demo"
    by (simp_all add: stop_demo_def request_wf_def is_finished_def length_capped_def num_tokens_def
        num_output_tokens_def emitted_stop_def)
  from check_stop_correct[OF d(1,2), of 100 False] d(3-6) show ?thesis by auto
qed

end
