(* ===== verification/Block_Hash.thy ===== *)
theory Block_Hash
  imports Request_Model "HOL-Library.Countable"
begin

text \<open>
  Block hashes for prefix caching, from \<^verbatim>\<open>vllm/v1/core/kv_cache_utils.py\<close>: packing a hash and
  a group id into one key, the extra keys of multi-modal, LoRA and salted requests, the
  chained hash of the full blocks of a request, and the sliding-window hit-rate metrics.
  The hash function (SHA-256 over a serialisation) is a parameter.
\<close>

section \<open>Keys of the hash table\<close>

definition to_bytes4 :: "int \<Rightarrow> bytes result" where
  "to_bytes4 g =
     check (0 \<le> g \<and> g < 2 ^ 32) OverflowError
       (Inr [word_of_int (g div 2 ^ 24), word_of_int (g div 2 ^ 16), word_of_int (g div 2 ^ 8), word_of_int g])"

definition from_bytes :: "bytes \<Rightarrow> int" where
  "from_bytes bs = foldl (\<lambda>acc b. acc * 256 + uint b) 0 bs"

definition make_block_hash_with_group_id :: "bytes \<Rightarrow> int \<Rightarrow> bytes result" where
  "make_block_hash_with_group_id block_hash group_id =
     bnd (to_bytes4 group_id) (\<lambda>g. Inr (block_hash @ g))"

definition get_block_hash :: "bytes \<Rightarrow> bytes" where
  "get_block_hash key = take (length key - 4) key"

definition get_group_id :: "bytes \<Rightarrow> int" where
  "get_group_id key = from_bytes (drop (length key - 4) key)"

datatype external_hash = EBytes bytes | EInt int

definition maybe_convert_block_hash :: "bool \<Rightarrow> bytes \<Rightarrow> external_hash" where
  "maybe_convert_block_hash use_int hash_bytes =
     (if \<not> use_int then EBytes hash_bytes
      else EInt (and (from_bytes hash_bytes) (push_bit 64 1 - 1)))"

section \<open>Hash inputs\<close>

datatype extra_key = KInt int | KStr string

datatype hash_input = HSeed string | HBlock bytes "int list" "extra_key list option"

type_synonym hash_fn = "hash_input \<Rightarrow> bytes"

text \<open>\<^verbatim>\<open>init_none_hash\<close>: the value of \<^verbatim>\<open>PYTHONHASHSEED\<close> and the random bytes are arguments.\<close>

definition init_none_hash :: "hash_fn \<Rightarrow> string option \<Rightarrow> bytes \<Rightarrow> bytes" where
  "init_none_hash hf hash_seed urandom =
     (case hash_seed of None \<Rightarrow> urandom | Some s \<Rightarrow> hf (HSeed s))"

definition hash_block_tokens :: "hash_fn \<Rightarrow> bytes \<Rightarrow> bytes option \<Rightarrow> int list \<Rightarrow> extra_key list option \<Rightarrow> bytes" where
  "hash_block_tokens hf none_hash parent toks extra_keys =
     hf (HBlock (case parent of None \<Rightarrow> none_hash | Some p \<Rightarrow> if p = [] then none_hash else p) toks extra_keys)"

section \<open>Extra keys\<close>

definition need_extra_keys :: "request \<Rightarrow> bool" where
  "need_extra_keys r \<longleftrightarrow> mm_features r \<noteq> [] \<or> lora_request r \<noteq> None \<or> cache_salt r \<noteq> None"

function mm_loop :: "mm_feature list \<Rightarrow> int \<Rightarrow> int \<Rightarrow> nat \<Rightarrow> string list \<Rightarrow> string list \<times> nat" where
  "mm_loop fs start_token_idx end_token_idx i extra_keys =
     (if i < length fs
      then let f = fs ! i; off = offset (mm_position f); len = mm_length (mm_position f)
        in if end_token_idx > off
           then if start_token_idx > off + len
                then mm_loop fs start_token_idx end_token_idx (i + 1) extra_keys
                else if end_token_idx \<ge> off + len
                then mm_loop fs start_token_idx end_token_idx (i + 1) (extra_keys @ [mm_identifier f])
                else (extra_keys @ [mm_identifier f], i)
           else (extra_keys, i)
      else (extra_keys, i))"
  by pat_completeness auto
termination
  by (relation "measure (\<lambda>(fs, _, _, i, _). length fs - i)") auto

declare mm_loop.simps [simp del]

definition gen_mm_extra_hash_keys :: "request \<Rightarrow> int \<Rightarrow> int \<Rightarrow> int \<Rightarrow> (string list \<times> int) result" where
  "gen_mm_extra_hash_keys r start_token_idx end_token_idx start_mm_idx =
     (let fs = mm_features r in
      if fs = [] then Inr ([], start_mm_idx)
      else let last_pos = mm_position (last fs) in
        if offset last_pos + mm_length last_pos < start_token_idx then Inr ([], start_mm_idx)
        else check (start_mm_idx < 0 \<longrightarrow> - start_mm_idx \<le> int (length fs)) AssertionError
          (let i = (if start_mm_idx < 0 then int (length fs) + start_mm_idx else start_mm_idx);
               (ks, j) = mm_loop fs start_token_idx end_token_idx (nat i) []
           in Inr (ks, int j)))"

definition gen_lora_extra_hash_keys :: "request \<Rightarrow> int list" where
  "gen_lora_extra_hash_keys r = (case lora_request r of None \<Rightarrow> [] | Some l \<Rightarrow> [lora_int_id l])"

definition cache_salt_keys :: "request \<Rightarrow> int \<Rightarrow> string list" where
  "cache_salt_keys r start_token_idx =
     (case cache_salt r of
        None \<Rightarrow> []
      | Some s \<Rightarrow> if start_token_idx = 0 \<and> s \<noteq> [] then [s] else [])"

definition generate_block_hash_extra_keys ::
    "request \<Rightarrow> int \<Rightarrow> int \<Rightarrow> int \<Rightarrow> (extra_key list option \<times> int) result" where
  "generate_block_hash_extra_keys r start_token_idx end_token_idx start_mm_idx =
     bnd (gen_mm_extra_hash_keys r start_token_idx end_token_idx start_mm_idx) (\<lambda>(mm_keys, new_idx).
       let extra_keys = map KInt (gen_lora_extra_hash_keys r) @ map KStr mm_keys
                          @ map KStr (cache_salt_keys r start_token_idx)
       in Inr (if extra_keys = [] then None else Some extra_keys, new_idx))"

section \<open>The request block hasher\<close>

definition token_slice :: "request \<Rightarrow> nat \<Rightarrow> nat \<Rightarrow> int list" where
  "token_slice r s e = take (e - s) (drop s (all_token_ids r))"

function hash_loop :: "hash_fn \<Rightarrow> bytes \<Rightarrow> nat \<Rightarrow> request \<Rightarrow> nat \<Rightarrow> int \<Rightarrow> bytes option \<Rightarrow> bytes list
    \<Rightarrow> bytes list result" where
  "hash_loop hf none_hash block_size r start_token_idx mm_idx prev acc =
     (let end_token_idx = start_token_idx + block_size in
      if end_token_idx > length (all_token_ids r) then Inr acc
      else if block_size = 0 then Inl Diverges
      else bnd (generate_block_hash_extra_keys r (int start_token_idx) (int end_token_idx) mm_idx)
        (\<lambda>(extra_keys, mm_idx').
          let h = hash_block_tokens hf none_hash prev (token_slice r start_token_idx end_token_idx) extra_keys
          in hash_loop hf none_hash block_size r end_token_idx mm_idx' (Some h) (acc @ [h])))"
  by pat_completeness auto
termination
  by (relation "measure (\<lambda>(_, _, _, r, s, _, _, _). length (all_token_ids r) - s)") auto

declare hash_loop.simps [simp del]

definition request_block_hasher :: "nat \<Rightarrow> hash_fn \<Rightarrow> bytes \<Rightarrow> block_hasher" where
  "request_block_hasher block_size hf none_hash r =
     (let start_token_idx = length (block_hashes r) * block_size
      in hash_loop hf none_hash block_size r start_token_idx
           (if start_token_idx > 0 then -1 else 0)
           (if block_hashes r = [] then None else Some (last (block_hashes r))) [])"

section \<open>Prefix caching metrics\<close>

record prefix_cache_stats =
  st_reset :: bool
  st_requests :: int
  st_queries :: int
  st_hits :: int

record prefix_caching_metrics =
  max_recent_requests :: int
  aggregated_requests :: int
  aggregated_query_total :: int
  aggregated_query_hit :: int
  query_queue :: "(int \<times> int \<times> int) list"

definition metrics_init :: "int \<Rightarrow> prefix_caching_metrics" where
  "metrics_init n = \<lparr>max_recent_requests = n, aggregated_requests = 0,
     aggregated_query_total = 0, aggregated_query_hit = 0, query_queue = []\<rparr>"

definition metrics_reset :: "prefix_caching_metrics \<Rightarrow> prefix_caching_metrics" where
  "metrics_reset m = m\<lparr>aggregated_requests := 0, aggregated_query_total := 0,
     aggregated_query_hit := 0, query_queue := []\<rparr>"

function evict_old :: "prefix_caching_metrics \<Rightarrow> prefix_caching_metrics" where
  "evict_old m =
     (if length (query_queue m) > 1 \<and> aggregated_requests m > max_recent_requests m
      then let (old_requests, old_queries, old_hits) = hd (query_queue m)
        in evict_old (m\<lparr>query_queue := tl (query_queue m),
             aggregated_requests := aggregated_requests m - old_requests,
             aggregated_query_total := aggregated_query_total m - old_queries,
             aggregated_query_hit := aggregated_query_hit m - old_hits\<rparr>)
      else m)"
  by pat_completeness auto
termination
  by (relation "measure (\<lambda>m. length (query_queue m))") auto

declare evict_old.simps [simp del]

definition observe :: "prefix_cache_stats \<Rightarrow> prefix_caching_metrics \<Rightarrow> prefix_caching_metrics" where
  "observe stats m =
     (let m1 = (if st_reset stats then metrics_reset m else m) in
      if st_requests stats = 0 then m1
      else evict_old (m1\<lparr>query_queue := query_queue m1 @ [(st_requests stats, st_queries stats, st_hits stats)],
             aggregated_requests := aggregated_requests m1 + st_requests stats,
             aggregated_query_total := aggregated_query_total m1 + st_queries stats,
             aggregated_query_hit := aggregated_query_hit m1 + st_hits stats\<rparr>))"

text \<open>The quotient of the source is a floating point division; here it is exact.\<close>

definition hit_rate :: "prefix_caching_metrics \<Rightarrow> rat" where
  "hit_rate m =
     (if aggregated_query_total m = 0 then 0
      else of_int (aggregated_query_hit m) / of_int (aggregated_query_total m))"

section \<open>Keys: packing and unpacking\<close>

lemma from_bytes4: "from_bytes [a, b, c, d] = ((uint a * 256 + uint b) * 256 + uint c) * 256 + uint d"
  by (simp add: from_bytes_def)

lemma horner256:
  fixes g :: int
  assumes "m1 = q1 - 256 * q0" "m2 = q2 - 256 * q1" "m3 = g - 256 * q2" "m0 = q0"
  shows "((m0 * 256 + m1) * 256 + m2) * 256 + m3 = g"
  using assms by simp

lemma to_bytes4_inverse:
  assumes "to_bytes4 g = Inr bs"
  shows "length bs = 4" "from_bytes bs = g"
proof -
  have g: "0 \<le> g" "g < 4294967296" using assms by (simp_all add: to_bytes4_def)
  have bs: "bs = [word_of_int (g div 2 ^ 24), word_of_int (g div 2 ^ 16), word_of_int (g div 2 ^ 8), word_of_int g]"
    using assms by (simp add: to_bytes4_def)
  show "length bs = 4" by (simp add: bs)
  have u: "uint (word_of_int x :: 8 word) = x mod 256" for x
    by (simp add: uint_word_of_int)
  show "from_bytes bs = g"
  proof -
    have d: "g div 65536 div 256 = g div 16777216" "g div 256 div 256 = g div 65536"
      using zdiv_zmult2_eq[of 256 g 65536] zdiv_zmult2_eq[of 256 g 256] by simp_all
    have m: "g div 65536 mod 256 = g div 65536 - 256 * (g div 16777216)"
      "g div 256 mod 256 = g div 256 - 256 * (g div 65536)" "g mod 256 = g - 256 * (g div 256)"
      using d mult_div_mod_eq[of 256 "g div 65536"] mult_div_mod_eq[of 256 "g div 256"]
        mult_div_mod_eq[of 256 g] by linarith+
    have p: "(2::int) ^ 24 = 16777216" "(2::int) ^ 16 = 65536" "(2::int) ^ 8 = 256" by simp_all
    have m0: "g div 16777216 mod 256 = g div 16777216" using g by simp
    have "from_bytes bs = ((g div 16777216 mod 256 * 256 + g div 65536 mod 256) * 256
        + g div 256 mod 256) * 256 + g mod 256"
      unfolding bs from_bytes4 u p ..
    also have "\<dots> = g" by (rule horner256[OF m m0])
    finally show ?thesis .
  qed
qed

lemma get_of_make:
  assumes "make_block_hash_with_group_id h g = Inr k"
  shows "get_block_hash k = h" "get_group_id k = g"
  using assms to_bytes4_inverse[of g]
  by (auto simp: make_block_hash_with_group_id_def get_block_hash_def get_group_id_def)

lemma make_block_hash_total:
  "(\<exists>k. make_block_hash_with_group_id h g = Inr k) \<longleftrightarrow> 0 \<le> g \<and> g < 2 ^ 32"
  by (auto simp: make_block_hash_with_group_id_def to_bytes4_def check_def)

lemma make_block_hash_inj:
  "make_block_hash_with_group_id h g = Inr k \<Longrightarrow> make_block_hash_with_group_id h' g' = Inr k
    \<Longrightarrow> h = h' \<and> g = g'"
  using get_of_make by metis

section \<open>Multi-modal keys\<close>

text \<open>The source notes that features are sorted by offset; placeholders do not overlap.\<close>

definition mm_sorted :: "mm_feature list \<Rightarrow> bool" where
  "mm_sorted fs \<longleftrightarrow> sorted_wrt (\<lambda>f g. offset (mm_position f) + mm_length (mm_position f) \<le> offset (mm_position g)) fs
     \<and> (\<forall>f\<in>set fs. mm_length (mm_position f) \<ge> 0)"

definition overlaps :: "mm_feature \<Rightarrow> int \<Rightarrow> int \<Rightarrow> bool" where
  "overlaps f s e \<longleftrightarrow> offset (mm_position f) < e \<and> s < offset (mm_position f) + mm_length (mm_position f)"

text \<open>The loop as a structural scan of the features from the current one on: the keys of
  the block and how many features it is done with.\<close>

fun mm_scan :: "mm_feature list \<Rightarrow> int \<Rightarrow> int \<Rightarrow> string list \<times> nat" where
  "mm_scan [] s e = ([], 0)"
| "mm_scan (f # fs) s e =
     (let off = offset (mm_position f); len = mm_length (mm_position f); (ks, n) = mm_scan fs s e
      in if e \<le> off then ([], 0)
         else if off + len < s then (ks, n + 1)
         else if off + len \<le> e then (mm_identifier f # ks, n + 1)
         else ([mm_identifier f], 0))"

lemma mm_loop_scan:
  "mm_loop fs s e i acc = (acc @ fst (mm_scan (drop i fs) s e), i + snd (mm_scan (drop i fs) s e))"
proof (induction fs s e i acc rule: mm_loop.induct)
  case (1 fs s e i acc)
  show ?case
  proof (cases "i < length fs")
    case True
    then have d: "drop i fs = fs ! i # drop (Suc i) fs" by (simp add: Cons_nth_drop_Suc)
    show ?thesis
      using 1[OF True refl refl refl] by (subst mm_loop.simps) (auto simp: d True Let_def split: prod.splits)
  qed (simp add: mm_loop.simps)
qed

lemma mm_sorted_Cons:
  "mm_sorted (f # fs) \<longleftrightarrow> mm_length (mm_position f) \<ge> 0 \<and> mm_sorted fs
     \<and> (\<forall>g\<in>set fs. offset (mm_position f) + mm_length (mm_position f) \<le> offset (mm_position g))"
  by (auto simp: mm_sorted_def)

text \<open>The scan reports every feature that overlaps the block, and every feature it has
  passed ends before the next block starts.\<close>

lemma mm_scan_covers:
  assumes "mm_sorted fs" "f \<in> set fs" "overlaps f s e"
  shows "mm_identifier f \<in> set (fst (mm_scan fs s e))"
  using assms
proof (induction fs)
  case (Cons g fs)
  have "e \<le> offset (mm_position f)" if "f \<in> set fs" "e < offset (mm_position g) + mm_length (mm_position g)"
    using that Cons.prems(1) by (fastforce simp: mm_sorted_Cons)
  moreover have "e \<le> offset (mm_position f)" if "f \<in> set fs" "e \<le> offset (mm_position g)"
    using that Cons.prems(1) by (fastforce simp: mm_sorted_Cons)
  ultimately show ?case
    using Cons by (auto simp: mm_sorted_Cons overlaps_def Let_def split: prod.splits)
qed simp

lemma mm_scan_passed:
  assumes "s \<le> e" "f \<in> set (take (snd (mm_scan fs s e)) fs)"
  shows "offset (mm_position f) + mm_length (mm_position f) \<le> e"
  using assms(2)
  by (induction fs) (use assms(1) in \<open>auto simp: Let_def split: prod.splits if_splits\<close>)

lemma mm_scan_le: "snd (mm_scan fs s e) \<le> length fs"
  by (induction fs) (auto simp: Let_def split: prod.splits)

section \<open>The hash chain\<close>

text \<open>The extra keys of \<open>n\<close> consecutive blocks, and the chain of hashes over them.\<close>

fun keys_from :: "request \<Rightarrow> nat \<Rightarrow> nat \<Rightarrow> int \<Rightarrow> nat \<Rightarrow> extra_key list option list result" where
  "keys_from r bs s i 0 = Inr []"
| "keys_from r bs s i (Suc n) =
     bnd (generate_block_hash_extra_keys r (int s) (int (s + bs)) i) (\<lambda>(ks, i').
     bnd (keys_from r bs (s + bs) i' n) (\<lambda>kss. Inr (ks # kss)))"

fun hash_chain :: "hash_fn \<Rightarrow> bytes \<Rightarrow> nat \<Rightarrow> request \<Rightarrow> nat \<Rightarrow> bytes option \<Rightarrow> extra_key list option list
    \<Rightarrow> bytes list" where
  "hash_chain hf nh bs r s prev [] = []"
| "hash_chain hf nh bs r s prev (ks # kss) =
     (let h = hash_block_tokens hf nh prev (token_slice r s (s + bs)) ks
      in h # hash_chain hf nh bs r (s + bs) (Some h) kss)"

lemma hash_loop_chain:
  assumes "bs > 0"
  shows "hash_loop hf nh bs r s i prev acc =
    bnd (keys_from r bs s i ((length (all_token_ids r) - s) div bs))
      (\<lambda>kss. Inr (acc @ hash_chain hf nh bs r s prev kss))"
  using assms
proof (induction hf nh bs r s i prev acc rule: hash_loop.induct)
  case (1 hf nh bs r s i prev acc)
  show ?case
  proof (cases "s + bs > length (all_token_ids r)")
    case True
    then have "length (all_token_ids r) - s < bs" using 1(2) by linarith
    then have "(length (all_token_ids r) - s) div bs = 0" by simp
    with True show ?thesis by (simp add: hash_loop.simps)
  next
    case False
    then have d: "(length (all_token_ids r) - s) div bs = Suc ((length (all_token_ids r) - (s + bs)) div bs)"
      using 1(2) by (subst le_div_geq) auto
    show ?thesis
    proof (cases "generate_block_hash_extra_keys r (int s) (int (s + bs)) i")
      case (Inl e)
      with False 1(2) d show ?thesis by (simp add: hash_loop.simps)
    next
      case (Inr p)
      obtain ks i' where p: "p = (ks, i')" by fastforce
      show ?thesis
        using 1(1)[OF refl _ _ refl] False 1(2) d Inr p
        by (subst hash_loop.simps) (simp add: bnd_def Let_def split: sum.splits)
    qed
  qed
qed

lemma keys_from_length: "keys_from r bs s i n = Inr kss \<Longrightarrow> length kss = n"
  by (induction n arbitrary: s i kss) auto

lemma hash_chain_length [simp]: "length (hash_chain hf nh bs r s prev kss) = length kss"
  by (induction kss arbitrary: s prev) (auto simp: Let_def)

lemma hash_chain_Nil_iff [simp]: "hash_chain hf nh bs r s prev kss = [] \<longleftrightarrow> kss = []"
  using hash_chain_length by (metis length_0_conv)

lemma gen_mm_total:
  assumes "i \<ge> -1"
  shows "\<exists>ks j. gen_mm_extra_hash_keys r s e i = Inr (ks, j) \<and> j \<ge> -1"
proof -
  have "mm_features r = [] \<or> - i \<le> int (length (mm_features r))"
    using assms by (cases "mm_features r") auto
  then show ?thesis
    using assms by (auto simp: gen_mm_extra_hash_keys_def Let_def check_def split: prod.splits)
qed

lemma keys_from_total: "i \<ge> -1 \<Longrightarrow> \<exists>kss. keys_from r bs s i n = Inr kss"
proof (induction n arbitrary: s i)
  case (Suc n)
  obtain ks j where g: "gen_mm_extra_hash_keys r (int s) (int (s + bs)) i = Inr (ks, j)" "j \<ge> -1"
    using gen_mm_total[OF Suc.prems] by blast
  obtain kss where "keys_from r bs (s + bs) j n = Inr kss" using Suc.IH[OF g(2)] by blast
  with g(1) show ?case by (simp add: generate_block_hash_extra_keys_def Let_def)
qed simp

text \<open>The hasher always returns, with one hash for every full block that had none.\<close>

lemma hasher_total:
  assumes "bs > 0"
  shows "\<exists>hs. request_block_hasher bs hf nh r = Inr hs
    \<and> length hs = (length (all_token_ids r) - length (block_hashes r) * bs) div bs"
proof -
  let ?s = "length (block_hashes r) * bs"
  obtain kss where "keys_from r bs ?s (if ?s > 0 then -1 else 0) ((length (all_token_ids r) - ?s) div bs) = Inr kss"
    using keys_from_total[of "if ?s > 0 then -1 else 0"] by fastforce
  with keys_from_length[OF this] show ?thesis
    by (simp add: request_block_hasher_def hash_loop_chain[OF assms] Let_def)
qed

section \<open>Incremental hashing of text requests\<close>

definition plain_keys :: "request \<Rightarrow> int \<Rightarrow> extra_key list option" where
  "plain_keys r s =
     (let ks = map KInt (gen_lora_extra_hash_keys r) @ map KStr (cache_salt_keys r s)
      in if ks = [] then None else Some ks)"

definition text_hashes :: "hash_fn \<Rightarrow> bytes \<Rightarrow> nat \<Rightarrow> request \<Rightarrow> nat \<Rightarrow> bytes list" where
  "text_hashes hf nh bs r n = hash_chain hf nh bs r 0 None (map (\<lambda>k. plain_keys r (int (k * bs))) [0..<n])"

lemma keys_from_text:
  assumes "mm_features r = []"
  shows "keys_from r bs s i n = Inr (map (\<lambda>k. plain_keys r (int (s + k * bs))) [0..<n])"
proof (induction n arbitrary: s i)
  case (Suc n)
  have "map (\<lambda>k. plain_keys r (int (s + k * bs))) [0..<Suc n]
    = plain_keys r (int s) # map (\<lambda>k. plain_keys r (int (s + bs + k * bs))) [0..<n]"
    by (rule nth_equalityI) (auto simp: nth_Cons algebra_simps split: nat.splits simp del: upt_Suc)
  with Suc assms show ?case
    by (simp add: generate_block_hash_extra_keys_def gen_mm_extra_hash_keys_def plain_keys_def Let_def del: upt_Suc)
qed simp

lemma hash_chain_append:
  "hash_chain hf nh bs r s prev (xs @ ys) =
     (let hs = hash_chain hf nh bs r s prev xs
      in hs @ hash_chain hf nh bs r (s + length xs * bs) (if xs = [] then prev else Some (last hs)) ys)"
  by (induction xs arbitrary: s prev) (auto simp: Let_def algebra_simps)

lemma hash_chain_cong:
  assumes "\<And>k. k < length kss \<Longrightarrow>
    token_slice r (s + k * bs) (s + k * bs + bs) = token_slice r' (s + k * bs) (s + k * bs + bs)"
  shows "hash_chain hf nh bs r s prev kss = hash_chain hf nh bs r' s prev kss"
  using assms
proof (induction kss arbitrary: s prev)
  case (Cons ks kss)
  have "token_slice r (s + bs + k * bs) (s + bs + k * bs + bs)
      = token_slice r' (s + bs + k * bs) (s + bs + k * bs + bs)" if "k < length kss" for k
    using Cons.prems[of "Suc k"] that by (simp add: algebra_simps)
  from Cons.IH[OF this] Cons.prems[of 0] show ?case by (simp add: Let_def)
qed simp

lemma text_hashes_length [simp]: "length (text_hashes hf nh bs r n) = n"
  by (simp add: text_hashes_def)

lemma div_diff_blocks:
  fixes bs m l :: nat
  assumes "bs > 0" "m \<le> l div bs"
  shows "(l - m * bs) div bs = l div bs - m"
proof -
  have "m * bs \<le> l" using assms by (simp add: less_eq_div_iff_mult_less_eq)
  then have "l div bs = (l - m * bs + m * bs) div bs" by simp
  also have "\<dots> = (l - m * bs) div bs + m" using assms by (subst div_mult_self1) auto
  finally show ?thesis by simp
qed

lemma hasher_text:
  assumes "bs > 0" "mm_features r = []" "block_hashes r = text_hashes hf nh bs r m"
    "m \<le> length (all_token_ids r) div bs"
  shows "\<exists>hs. request_block_hasher bs hf nh r = Inr hs
    \<and> block_hashes r @ hs = text_hashes hf nh bs r (length (all_token_ids r) div bs)"
proof -
  let ?n = "length (all_token_ids r) div bs"
  let ?k = "\<lambda>k. plain_keys r (int (k * bs))"
  have split: "map ?k [0..<?n] = map ?k [0..<m] @ map (\<lambda>k. plain_keys r (int (m * bs + k * bs))) [0..<?n - m]"
    using assms(4) by (intro nth_equalityI) (auto simp: nth_append algebra_simps)
  have eq: "text_hashes hf nh bs r ?n = text_hashes hf nh bs r m @ hash_chain hf nh bs r (m * bs)
      (if m = 0 then None else Some (last (text_hashes hf nh bs r m)))
      (map (\<lambda>k. plain_keys r (int (m * bs + k * bs))) [0..<?n - m])"
    unfolding text_hashes_def split hash_chain_append by (simp add: Let_def)
  have "block_hashes r = [] \<longleftrightarrow> m = 0" "length (block_hashes r) = m"
    using assms(3) text_hashes_length by (metis length_0_conv, simp)
  then show ?thesis
    using assms(3) unfolding eq request_block_hasher_def hash_loop_chain[OF assms(1)] keys_from_text[OF assms(2)]
    by (simp add: div_diff_blocks[OF assms(1,4)])
qed

lemma hasher_text_all:
  assumes "bs > 0" "mm_features r = []" "block_hashes r = []" "length (all_token_ids r) div bs = n"
  shows "request_block_hasher bs hf nh r = Inr (text_hashes hf nh bs r n)"
  using hasher_text[OF assms(1,2), of hf nh 0] assms(3,4) by (auto simp: text_hashes_def)

lemma text_hashes_extend:
  assumes "n * bs \<le> length (all_token_ids r)"
    "all_token_ids r' = all_token_ids r @ ts" "lora_request r' = lora_request r" "cache_salt r' = cache_salt r"
  shows "text_hashes hf nh bs r' n = text_hashes hf nh bs r n"
proof -
  have k: "plain_keys r' s = plain_keys r s" for s
    using assms by (simp add: plain_keys_def gen_lora_extra_hash_keys_def cache_salt_keys_def)
  have "token_slice r' (k * bs) (k * bs + bs) = token_slice r (k * bs) (k * bs + bs)" if "k < n" for k
  proof -
    have "Suc k * bs \<le> n * bs" using that by (intro mult_right_mono) auto
    then have "k * bs + bs \<le> length (all_token_ids r)" using assms(1) by simp
    then show ?thesis using assms(2) by (simp add: token_slice_def)
  qed
  then show ?thesis unfolding text_hashes_def k by (intro hash_chain_cong) simp
qed

text \<open>The state that construction establishes and appending keeps.\<close>

definition hashed_text :: "hash_fn \<Rightarrow> bytes \<Rightarrow> nat \<Rightarrow> request \<Rightarrow> bool" where
  "hashed_text hf nh bs r \<longleftrightarrow> mm_features r = []
     \<and> block_hashes r = text_hashes hf nh bs r (length (all_token_ids r) div bs)"

lemma append_hashed_text:
  assumes "bs > 0" "hashed_text hf nh bs r"
  shows "\<exists>r'. append_output_token_ids (Some (request_block_hasher bs hf nh)) ts r = Inr r'
    \<and> hashed_text hf nh bs r' \<and> output_token_ids r' = output_token_ids r @ ts
    \<and> all_token_ids r' = all_token_ids r @ ts"
proof -
  define r1 where "r1 = r\<lparr>output_token_ids := output_token_ids r @ ts, all_token_ids := all_token_ids r @ ts\<rparr>"
  let ?m = "length (all_token_ids r) div bs"
  have r1: "mm_features r1 = []" "all_token_ids r1 = all_token_ids r @ ts" "lora_request r1 = lora_request r"
    "cache_salt r1 = cache_salt r" "block_hashes r1 = block_hashes r" "output_token_ids r1 = output_token_ids r @ ts"
    using assms(2) by (simp_all add: r1_def hashed_text_def)
  have "text_hashes hf nh bs r1 ?m = text_hashes hf nh bs r ?m"
    by (rule text_hashes_extend[OF _ r1(2-4)]) (simp add: div_times_less_eq_dividend)
  then have "block_hashes r1 = text_hashes hf nh bs r1 ?m" using assms(2) r1(5) by (simp add: hashed_text_def)
  moreover have "?m \<le> length (all_token_ids r1) div bs" using r1(2) by (simp add: div_le_mono)
  ultimately obtain hs where hs: "request_block_hasher bs hf nh r1 = Inr hs"
      "block_hashes r1 @ hs = text_hashes hf nh bs r1 (length (all_token_ids r1) div bs)"
    using hasher_text[OF assms(1) r1(1)] by blast
  let ?r = "r1\<lparr>block_hashes := block_hashes r1 @ hs\<rparr>"
  have "append_output_token_ids (Some (request_block_hasher bs hf nh)) ts r = Inr ?r"
    using hs(1) by (simp add: append_output_token_ids_def Let_def r1_def)
  moreover have "text_hashes hf nh bs ?r n = text_hashes hf nh bs r1 n" if "n * bs \<le> length (all_token_ids r1)" for n
    by (rule text_hashes_extend[OF that, of _ "[]"]) simp_all
  then have "hashed_text hf nh bs ?r"
    using r1(1) hs(2) by (simp add: hashed_text_def div_times_less_eq_dividend)
  ultimately show ?thesis using r1 by fastforce
qed

section \<open>Collision freedom\<close>

instance extra_key :: countable
  by countable_datatype

instance hash_input :: countable
  by countable_datatype

lemma hash_chain_nth:
  assumes "i < length kss"
  shows "hash_chain hf nh bs r s prev kss ! i =
    hash_block_tokens hf nh (if i = 0 then prev else Some (hash_chain hf nh bs r s prev kss ! (i - 1)))
      (token_slice r (s + i * bs) (s + i * bs + bs)) (kss ! i)"
  using assms
proof (induction kss arbitrary: i s prev)
  case (Cons ks kss)
  show ?case
  proof (cases i)
    case (Suc k)
    with Cons.prems Cons.IH[of k "s + bs"] show ?thesis
      by (cases k) (simp_all add: Let_def algebra_simps)
  qed (simp add: Let_def)
qed simp

definition collision_free :: "hash_fn \<Rightarrow> bytes \<Rightarrow> bool" where
  "collision_free hf nh \<longleftrightarrow> inj hf \<and> (\<forall>p ts ks. hf (HBlock p ts ks) \<noteq> nh \<and> hf (HBlock p ts ks) \<noteq> [])"

lemma hash_block_tokens_inj:
  assumes "collision_free hf nh" "hash_block_tokens hf nh p ts ks = hash_block_tokens hf nh p' ts' ks'"
    "p \<noteq> Some []" "p' \<noteq> Some []" "p \<noteq> Some nh" "p' \<noteq> Some nh"
  shows "p = p' \<and> ts = ts' \<and> ks = ks'"
  using assms
  by (auto simp: hash_block_tokens_def collision_free_def dest!: injD split: option.splits if_splits)

lemma chain_inj:
  assumes cf: "collision_free hf nh" and "i < length kss" "j < length kss'"
    and "hash_chain hf nh bs r 0 None kss ! i = hash_chain hf nh bs r' 0 None kss' ! j"
  shows "i = j \<and> (\<forall>k\<le>i. token_slice r (k * bs) (k * bs + bs) = token_slice r' (k * bs) (k * bs + bs)
                       \<and> kss ! k = kss' ! k)"
  using assms(2-)
proof (induction i arbitrary: j)
  case 0
  have ne: "hash_chain hf nh bs r' 0 None kss' ! k \<noteq> [] \<and> hash_chain hf nh bs r' 0 None kss' ! k \<noteq> nh"
    if "k < length kss'" for k
    using cf that by (subst (1 2) hash_chain_nth) (auto simp: hash_block_tokens_def collision_free_def)
  show ?case
    using hash_block_tokens_inj[OF cf 0(3)[unfolded hash_chain_nth[OF 0(1)] hash_chain_nth[OF 0(2)]]] ne[of "j - 1"] 0(2)
    by (cases j) auto
next
  case (Suc i)
  have ne: "hash_chain hf nh bs x 0 None ks ! k \<noteq> [] \<and> hash_chain hf nh bs x 0 None ks ! k \<noteq> nh"
    if "k < length ks" for x k ks
    using cf that by (subst (1 2) hash_chain_nth) (auto simp: hash_block_tokens_def collision_free_def)
  note eq = hash_block_tokens_inj[OF cf Suc(4)[unfolded hash_chain_nth[OF Suc(2)] hash_chain_nth[OF Suc(3)]]]
  obtain j' where j: "j = Suc j'"
    using eq ne[of i kss r] ne[of "j - 1" kss' r'] Suc(2,3) by (cases j) auto
  have "hash_chain hf nh bs r 0 None kss ! i = hash_chain hf nh bs r' 0 None kss' ! j'"
    and last: "token_slice r (Suc i * bs) (Suc i * bs + bs) = token_slice r' (Suc j' * bs) (Suc j' * bs + bs)"
      "kss ! Suc i = kss' ! Suc j'"
    using eq ne[of i kss r] ne[of j' kss' r'] Suc(2,3) j by auto
  with Suc.IH[of j'] Suc(2,3) j have ih: "i = j'" "\<forall>k\<le>i. token_slice r (k * bs) (k * bs + bs)
      = token_slice r' (k * bs) (k * bs + bs) \<and> kss ! k = kss' ! k" by auto
  show ?case using ih last j by (auto simp: le_Suc_eq)
qed

lemma slices_take:
  assumes "\<forall>k<n. token_slice r (k * bs) (k * bs + bs) = token_slice r' (k * bs) (k * bs + bs)"
  shows "take (n * bs) (all_token_ids r) = take (n * bs) (all_token_ids r')"
  using assms
proof (induction n)
  case (Suc n)
  have "take (Suc n * bs) xs = take (n * bs) xs @ take bs (drop (n * bs) xs)" for xs :: "int list"
    by (metis add.commute mult_Suc take_add)
  with Suc show ?case by (simp add: token_slice_def)
qed simp

lemma keys_shape_lora:
  assumes "(let ks = map KInt as @ map KStr ms in if ks = [] then None else Some ks)
    = (let ks = map KInt as' @ map KStr ms' in if ks = [] then None else Some ks)"
    "length as \<le> 1" "length as' \<le> 1"
  shows "as = as'"
  using assms by (cases as; cases as'; cases ms; cases ms') (auto simp: Let_def)

section \<open>Multi-modal coverage of a whole prompt\<close>

lemma mm_sorted_last:
  assumes "mm_sorted fs" "f \<in> set fs"
  shows "offset (mm_position f) + mm_length (mm_position f)
    \<le> offset (mm_position (last fs)) + mm_length (mm_position (last fs))"
  using assms
proof (induction fs)
  case (Cons g fs)
  show ?case
  proof (cases "fs = []")
    case False
    then have "last fs \<in> set fs" by simp
    then have "offset (mm_position g) + mm_length (mm_position g) \<le> offset (mm_position (last fs))"
      "mm_length (mm_position (last fs)) \<ge> 0" "mm_sorted fs"
      using Cons.prems(1) by (auto simp: mm_sorted_Cons mm_sorted_def)
    with Cons False show ?thesis by auto
  qed (use Cons.prems in simp)
qed simp

lemma mm_sorted_drop: "mm_sorted fs \<Longrightarrow> mm_sorted (drop i fs)"
  by (auto simp: mm_sorted_def sorted_wrt_drop dest: in_set_dropD)

lemma generate_covers:
  assumes "mm_sorted (mm_features r)" "i \<ge> 0" "s \<le> e"
    and before: "\<forall>f\<in>set (take (nat i) (mm_features r)). offset (mm_position f) + mm_length (mm_position f) \<le> s"
    and g: "generate_block_hash_extra_keys r s e i = Inr (ks, i')"
  shows "i' \<ge> 0
    \<and> (\<forall>f\<in>set (take (nat i') (mm_features r)). offset (mm_position f) + mm_length (mm_position f) \<le> e)
    \<and> (\<forall>f\<in>set (mm_features r). overlaps f s e \<longrightarrow> (\<exists>es. ks = Some es \<and> KStr (mm_identifier f) \<in> set es))"
proof -
  let ?fs = "mm_features r"
  obtain ms where ms: "gen_mm_extra_hash_keys r s e i = Inr (ms, i')"
    and ks: "\<And>k. k \<in> set ms \<Longrightarrow> \<exists>es. ks = Some es \<and> KStr k \<in> set es"
    using g that by (fastforce simp: generate_block_hash_extra_keys_def Let_def)
  have "i' \<ge> 0 \<and> (\<forall>f\<in>set (take (nat i') ?fs). offset (mm_position f) + mm_length (mm_position f) \<le> e)
    \<and> (\<forall>f\<in>set ?fs. overlaps f s e \<longrightarrow> mm_identifier f \<in> set ms)"
  proof (cases "?fs = [] \<or> offset (mm_position (last ?fs)) + mm_length (mm_position (last ?fs)) < s")
    case True
    then have "i' = i" using ms by (auto simp: gen_mm_extra_hash_keys_def Let_def split: if_splits)
    moreover have "\<not> overlaps f s e" if "f \<in> set ?fs" for f
      using True that mm_sorted_last[OF assms(1) that] by (auto simp: overlaps_def)
    ultimately show ?thesis using assms(2,3) before by fastforce
  next
    case False
    then have ms': "ms = fst (mm_scan (drop (nat i) ?fs) s e)" "i' = i + int (snd (mm_scan (drop (nat i) ?fs) s e))"
      using ms assms(2) by (auto simp: gen_mm_extra_hash_keys_def Let_def mm_loop_scan)
    have t: "take (nat i') ?fs = take (nat i) ?fs @ take (snd (mm_scan (drop (nat i) ?fs) s e)) (drop (nat i) ?fs)"
      using assms(2) by (simp add: ms'(2) nat_add_distrib take_add)
    have "mm_identifier f \<in> set ms" if "f \<in> set ?fs" "overlaps f s e" for f
    proof -
      have "f \<notin> set (take (nat i) ?fs)" using before that(2) by (auto simp: overlaps_def)
      then have "f \<in> set (drop (nat i) ?fs)" using that(1) by (metis Un_iff append_take_drop_id set_append)
      then show ?thesis using mm_scan_covers[OF mm_sorted_drop[OF assms(1)] _ that(2)] ms'(1) by blast
    qed
    moreover have "offset (mm_position f) + mm_length (mm_position f) \<le> e" if "f \<in> set (take (nat i') ?fs)" for f
    proof (cases "f \<in> set (take (nat i) ?fs)")
      case True
      with before assms(3) show ?thesis by fastforce
    next
      case False
      then show ?thesis using that mm_scan_passed[OF assms(3), of f "drop (nat i) ?fs"] unfolding t by simp
    qed
    ultimately show ?thesis using assms(2) ms'(2) by simp
  qed
  with ks show ?thesis by blast
qed

lemma keys_from_covers:
  assumes "mm_sorted (mm_features r)" "i \<ge> 0"
    and "\<forall>f\<in>set (take (nat i) (mm_features r)). offset (mm_position f) + mm_length (mm_position f) \<le> int s"
    and "keys_from r bs s i n = Inr kss" "k < n" "f \<in> set (mm_features r)"
    and "overlaps f (int (s + k * bs)) (int (s + k * bs + bs))"
  shows "\<exists>es. kss ! k = Some es \<and> KStr (mm_identifier f) \<in> set es"
  using assms
proof (induction n arbitrary: s i k kss)
  case (Suc n)
  from Suc.prems(4) obtain ks i' rest where g: "generate_block_hash_extra_keys r (int s) (int (s + bs)) i = Inr (ks, i')"
    and rest: "keys_from r bs (s + bs) i' n = Inr rest" "kss = ks # rest" by auto
  note G = generate_covers[OF Suc.prems(1,2) _ Suc.prems(3) g]
  show ?case
  proof (cases k)
    case 0
    with G Suc.prems(6,7) rest show ?thesis by simp
  next
    case (Suc k')
    with Suc.IH[OF Suc.prems(1), of i' "s + bs" rest k'] G rest Suc.prems(5-7) show ?thesis
      by (simp add: algebra_simps)
  qed
qed simp

section \<open>The keys of a block, exactly\<close>

text \<open>Multi-modal inputs with sorted, disjoint, non-empty placeholders; the identifiers of those with a
  placeholder token in a block, and the extra keys of the block.\<close>

definition mm_proper :: "mm_feature list \<Rightarrow> bool" where
  "mm_proper fs \<longleftrightarrow> mm_sorted fs \<and> (\<forall>f\<in>set fs. mm_length (mm_position f) > 0)"

definition block_mm_ids :: "mm_feature list \<Rightarrow> int \<Rightarrow> int \<Rightarrow> string list" where
  "block_mm_ids fs s e = map mm_identifier (filter (\<lambda>f. overlaps f s e) fs)"

definition block_keys :: "request \<Rightarrow> int \<Rightarrow> int \<Rightarrow> extra_key list option" where
  "block_keys r s e =
     (let ks = map KInt (gen_lora_extra_hash_keys r) @ map KStr (block_mm_ids (mm_features r) s e) @ map KStr (cache_salt_keys r s)
      in if ks = [] then None else Some ks)"

abbreviation mm_end :: "mm_feature \<Rightarrow> int" where
  "mm_end f \<equiv> offset (mm_position f) + mm_length (mm_position f)"

lemma mm_proper_Cons:
  "mm_proper (f # fs) \<longleftrightarrow> mm_length (mm_position f) > 0 \<and> mm_proper fs \<and> (\<forall>g\<in>set fs. mm_end f \<le> offset (mm_position g))"
  by (auto simp: mm_proper_def mm_sorted_Cons)

lemma mm_scan_exact:
  assumes "mm_proper fs" "\<forall>f\<in>set fs. s < mm_end f" "s \<le> e"
  shows "fst (mm_scan fs s e) = block_mm_ids fs s e"
    "\<forall>f\<in>set (drop (snd (mm_scan fs s e)) fs). e < mm_end f"
  using assms
proof (induction fs)
  case (Cons f fs)
  {
    case 1
    have "\<not> overlaps g s e" if "g \<in> set fs" "e < mm_end f \<or> e \<le> offset (mm_position f)" for g
      using that 1 by (fastforce simp: mm_proper_Cons overlaps_def)
    then have "filter (\<lambda>f. overlaps f s e) fs = []" if "e < mm_end f \<or> e \<le> offset (mm_position f)"
      using that by (simp add: filter_empty_conv)
    moreover have "mm_proper fs" "\<forall>f\<in>set fs. s < mm_end f" using 1 by (simp_all add: mm_proper_Cons)
    note Cons.IH(1)[OF this 1(3)]
    ultimately show ?case using 1 by (auto simp: Let_def block_mm_ids_def overlaps_def split: prod.splits)
  next
    case 2
    have "e < mm_end g" if "g \<in> set fs" "e < mm_end f \<or> e \<le> offset (mm_position f)" for g
    proof -
      have "mm_length (mm_position f) > 0" "mm_length (mm_position g) > 0" "mm_end f \<le> offset (mm_position g)"
        using that(1) 2(1) unfolding mm_proper_Cons by (simp_all add: mm_proper_def)
      with that(2) show ?thesis by linarith
    qed
    moreover have "mm_proper fs" "\<forall>f\<in>set fs. s < mm_end f" using 2 by (simp_all add: mm_proper_Cons)
    note Cons.IH(2)[OF this 2(3)]
    ultimately show ?case using 2 by (auto simp: Let_def mm_proper_Cons split: prod.splits)
  }
qed (simp_all add: block_mm_ids_def)

text \<open>Where the scan stands when a block starts: what it has passed ends before the block, the rest ends in
  it or later.\<close>

definition scanned :: "mm_feature list \<Rightarrow> int \<Rightarrow> int \<Rightarrow> bool" where
  "scanned fs i s \<longleftrightarrow> i \<ge> 0 \<and> (\<forall>f\<in>set (take (nat i) fs). mm_end f \<le> s) \<and> (\<forall>f\<in>set (drop (nat i) fs). s < mm_end f)"

lemma mm_proper_drop: "mm_proper fs \<Longrightarrow> mm_proper (drop i fs)"
  by (auto simp: mm_proper_def mm_sorted_drop dest: in_set_dropD)

lemma scanned_ids:
  assumes "scanned fs i s"
  shows "block_mm_ids fs s e = block_mm_ids (drop (nat i) fs) s e"
proof -
  have "filter (\<lambda>f. overlaps f s e) (take (nat i) fs) = []"
    using assms by (auto simp: scanned_def overlaps_def filter_empty_conv)
  then have "filter (\<lambda>f. overlaps f s e) (take (nat i) fs @ drop (nat i) fs) = filter (\<lambda>f. overlaps f s e) (drop (nat i) fs)"
    by (simp only: filter_append append_Nil)
  then show ?thesis by (simp only: block_mm_ids_def append_take_drop_id)
qed

lemma gen_mm_exact:
  assumes "mm_proper (mm_features r)" "scanned (mm_features r) i s" "s < e"
  shows "\<exists>i'. gen_mm_extra_hash_keys r s e i = Inr (block_mm_ids (mm_features r) s e, i') \<and> scanned (mm_features r) i' e"
proof -
  let ?fs = "mm_features r"
  have i: "i \<ge> 0" using assms(2) by (simp add: scanned_def)
  show ?thesis
  proof (cases "?fs = [] \<or> mm_end (last ?fs) < s")
    case True
    have "mm_end f < s" if "f \<in> set ?fs" for f
      using True that mm_sorted_last[of ?fs f] assms(1) by (fastforce simp: mm_proper_def)
    then have "drop (nat i) ?fs = []"
      using assms(2) by (metis (no_types) all_not_in_conv in_set_dropD less_asym scanned_def set_empty)
    moreover from this have "block_mm_ids ?fs s e = []" using scanned_ids[OF assms(2), of e] by (simp add: block_mm_ids_def)
    moreover have "scanned ?fs i e" using assms(2,3) \<open>drop (nat i) ?fs = []\<close> by (fastforce simp: scanned_def)
    ultimately show ?thesis using True by (auto simp: gen_mm_extra_hash_keys_def Let_def)
  next
    case False
    let ?n = "snd (mm_scan (drop (nat i) ?fs) s e)"
    have after: "\<forall>f\<in>set (drop (nat i) ?fs). s < mm_end f" using assms(2) by (simp add: scanned_def)
    note sc = mm_scan_exact[OF mm_proper_drop[OF assms(1)] after, of e]
    have g: "gen_mm_extra_hash_keys r s e i = Inr (block_mm_ids ?fs s e, i + int ?n)"
      using False i sc(1) assms(3) scanned_ids[OF assms(2), of e]
      by (auto simp: gen_mm_extra_hash_keys_def Let_def mm_loop_scan)
    have "take (nat (i + int ?n)) ?fs = take (nat i) ?fs @ take ?n (drop (nat i) ?fs)"
      "drop (nat (i + int ?n)) ?fs = drop ?n (drop (nat i) ?fs)"
      using i by (simp_all add: nat_add_distrib take_add add.commute)
    moreover have "mm_end f \<le> e" if "f \<in> set (take ?n (drop (nat i) ?fs))" for f
      using mm_scan_passed[OF _ that] assms(3) by simp
    ultimately have "scanned ?fs (i + int ?n) e"
      using i sc(2) assms(2,3) by (fastforce simp: scanned_def)
    with g show ?thesis by blast
  qed
qed

lemma keys_from_exact:
  assumes "bs > 0" "mm_proper (mm_features r)" "scanned (mm_features r) i (int s)"
  shows "keys_from r bs s i n = Inr (map (\<lambda>k. block_keys r (int (s + k * bs)) (int (s + k * bs + bs))) [0..<n])"
  using assms(3)
proof (induction n arbitrary: s i)
  case (Suc n)
  obtain i' where g: "gen_mm_extra_hash_keys r (int s) (int (s + bs)) i = Inr (block_mm_ids (mm_features r) (int s) (int (s + bs)), i')"
    "scanned (mm_features r) i' (int (s + bs))"
    using gen_mm_exact[OF assms(2) Suc.prems, of "int (s + bs)"] assms(1) by auto
  have "map (\<lambda>k. block_keys r (int (s + k * bs)) (int (s + k * bs + bs))) [0..<Suc n]
      = block_keys r (int s) (int (s + bs)) # map (\<lambda>k. block_keys r (int (s + bs + k * bs)) (int (s + bs + k * bs + bs))) [0..<n]"
    by (rule nth_equalityI) (auto simp: nth_Cons algebra_simps split: nat.splits simp del: upt_Suc)
  with Suc.IH[OF g(2)] g(1) show ?case
    by (simp add: generate_block_hash_extra_keys_def block_keys_def Let_def del: upt_Suc)
qed simp

lemma scanned_0: "mm_proper fs \<Longrightarrow> \<forall>f\<in>set fs. offset (mm_position f) \<ge> 0 \<Longrightarrow> scanned fs 0 0"
  by (auto simp: scanned_def mm_proper_def add_nonneg_pos)

lemma KStr_keys_inj:
  assumes "(let ks = map KInt as @ map KStr ms in if ks = [] then None else Some ks)
    = (let ks = map KInt as @ map KStr ms' in if ks = [] then None else Some ks)"
  shows "ms = ms'"
  using assms by (auto simp: Let_def inj_map_eq_map[of KStr] inj_def split: if_splits)

text \<open>Equal hashes of whole token lists: the chains agree block by block.\<close>

lemma hasher_chain:
  assumes "bs > 0" "block_hashes r = []" "request_block_hasher bs hf nh r = Inr hs"
    and "mm_proper (mm_features r)" "\<forall>f\<in>set (mm_features r). offset (mm_position f) \<ge> 0"
  shows "hs = hash_chain hf nh bs r 0 None
    (map (\<lambda>k. block_keys r (int (k * bs)) (int (k * bs + bs))) [0..<length (all_token_ids r) div bs])"
proof -
  have "scanned (mm_features r) 0 (int 0)" using scanned_0[OF assms(4,5)] by simp
  from keys_from_exact[OF assms(1,4) this] assms(2,3) show ?thesis
    by (simp add: request_block_hasher_def hash_loop_chain[OF assms(1)])
qed

lemma shared_hash:
  assumes "bs > 0" "collision_free hf nh"
    and r: "block_hashes r = []" "request_block_hasher bs hf nh r = Inr hs" "i < length hs"
      "mm_proper (mm_features r)" "\<forall>f\<in>set (mm_features r). offset (mm_position f) \<ge> 0"
    and r': "block_hashes r' = []" "request_block_hasher bs hf nh r' = Inr hs'" "j < length hs'"
      "mm_proper (mm_features r')" "\<forall>f\<in>set (mm_features r'). offset (mm_position f) \<ge> 0"
    and eq: "hs ! i = hs' ! j"
  shows "i = j" "take (Suc i * bs) (all_token_ids r) = take (Suc i * bs) (all_token_ids r')"
    "\<forall>k\<le>i. block_keys r (int (k * bs)) (int (k * bs + bs)) = block_keys r' (int (k * bs)) (int (k * bs + bs))"
proof -
  note h = hasher_chain[OF assms(1) r(1,2,4,5)] and h' = hasher_chain[OF assms(1) r'(1,2,4,5)]
  have len: "length hs = length (all_token_ids r) div bs" "length hs' = length (all_token_ids r') div bs"
    by (simp_all add: h h')
  let ?k = "map (\<lambda>k. block_keys r (int (k * bs)) (int (k * bs + bs))) [0..<length (all_token_ids r) div bs]"
  let ?k' = "map (\<lambda>k. block_keys r' (int (k * bs)) (int (k * bs + bs))) [0..<length (all_token_ids r') div bs]"
  have C: "i = j \<and> (\<forall>k\<le>i. token_slice r (k * bs) (k * bs + bs) = token_slice r' (k * bs) (k * bs + bs) \<and> ?k ! k = ?k' ! k)"
    by (rule chain_inj[OF assms(2)]) (use r(3) r'(3) len eq h h' in simp_all)
  then show "i = j" by blast
  show "take (Suc i * bs) (all_token_ids r) = take (Suc i * bs) (all_token_ids r')"
    using C by (intro slices_take) (simp add: less_Suc_eq_le)
  show "\<forall>k\<le>i. block_keys r (int (k * bs)) (int (k * bs + bs)) = block_keys r' (int (k * bs)) (int (k * bs + bs))"
  proof (intro allI impI)
    fix k assume "k \<le> i"
    moreover have "i < length (all_token_ids r) div bs" "i < length (all_token_ids r') div bs" using r(3) r'(3) len C by auto
    ultimately show "block_keys r (int (k * bs)) (int (k * bs + bs)) = block_keys r' (int (k * bs)) (int (k * bs + bs))"
      using conjunct2[OF C, rule_format, of k] by simp
  qed
qed

section \<open>Incremental hashing and the last multi-modal input\<close>

text \<open>Two scans of different inputs that see the same inputs from here on; -1 stands for the last one.\<close>

definition same_tail :: "mm_feature list \<Rightarrow> mm_feature list \<Rightarrow> int \<Rightarrow> int \<Rightarrow> bool" where
  "same_tail fs gs i j \<longleftrightarrow> (i = -1 \<and> j = -1) \<or> (0 \<le> i \<and> 0 \<le> j \<and> drop (nat i) fs = drop (nat j) gs)"

lemma gen_mm_same_tail:
  assumes ne: "mm_features r \<noteq> []" "fs \<noteq> []" "last fs = last (mm_features r)" and rest: "same_tail (mm_features r) fs i j"
  shows "\<exists>ks i' j'. gen_mm_extra_hash_keys r s e i = Inr (ks, i') \<and> gen_mm_extra_hash_keys (r\<lparr>mm_features := fs\<rparr>) s e j = Inr (ks, j')
    \<and> same_tail (mm_features r) fs i' j'"
proof (cases "mm_end (last fs) < s")
  case True
  then show ?thesis using assms by (auto simp: gen_mm_extra_hash_keys_def Let_def)
next
  case False
  define a where "a = nat (if i < 0 then int (length (mm_features r)) + i else i)"
  define b where "b = nat (if j < 0 then int (length fs) + j else j)"
  have l: "drop (length gs - Suc 0) gs = [last gs]" if "gs \<noteq> []" for gs :: "mm_feature list"
    using that by (cases gs rule: rev_cases) simp_all
  have "a = length (mm_features r) - Suc 0 \<and> b = length fs - Suc 0 \<or> a = nat i \<and> b = nat j \<and> drop (nat i) (mm_features r) = drop (nat j) fs"
    using rest by (auto simp: same_tail_def a_def b_def)
  then have d: "drop a (mm_features r) = drop b fs" using ne l[OF ne(1)] l[OF ne(2)] by auto
  let ?sc = "mm_scan (drop a (mm_features r)) s e"
  have "- i \<le> int (length (mm_features r))" if "i < 0" "gs = mm_features r" for gs
    using rest ne(1) that by (auto simp: same_tail_def Suc_le_eq)
  then have "gen_mm_extra_hash_keys r s e i = Inr (fst ?sc, int (a + snd ?sc))"
    using False ne by (auto simp: gen_mm_extra_hash_keys_def Let_def mm_loop_scan a_def)
  moreover have "- j \<le> int (length fs)" if "j < 0"
    using rest ne(2) that by (auto simp: same_tail_def Suc_le_eq)
  then have "gen_mm_extra_hash_keys (r\<lparr>mm_features := fs\<rparr>) s e j = Inr (fst ?sc, int (b + snd ?sc))"
    using False ne d by (auto simp: gen_mm_extra_hash_keys_def Let_def mm_loop_scan b_def)
  moreover have "same_tail (mm_features r) fs (int (a + snd ?sc)) (int (b + snd ?sc))"
    using arg_cong[OF d, of "drop (snd ?sc)"] by (simp add: same_tail_def nat_add_distrib add.commute)
  ultimately show ?thesis by blast
qed

lemma keys_from_same_tail:
  assumes "mm_features r \<noteq> []" "fs \<noteq> []" "last fs = last (mm_features r)"
  shows "same_tail (mm_features r) fs i j \<Longrightarrow> keys_from (r\<lparr>mm_features := fs\<rparr>) bs s j n = keys_from r bs s i n"
proof (induction n arbitrary: s i j)
  case (Suc n)
  obtain ks i' j' where "gen_mm_extra_hash_keys r (int s) (int (s + bs)) i = Inr (ks, i')"
    "gen_mm_extra_hash_keys (r\<lparr>mm_features := fs\<rparr>) (int s) (int (s + bs)) j = Inr (ks, j')" "same_tail (mm_features r) fs i' j'"
    using gen_mm_same_tail[OF assms Suc.prems] by blast
  with Suc.IH[of i' j' "s + bs"] show ?case
    by (simp add: generate_block_hash_extra_keys_def gen_lora_extra_hash_keys_def cache_salt_keys_def Let_def)
qed simp

lemma hasher_last_input:
  assumes "bs > 0" "block_hashes r \<noteq> []" "mm_features r \<noteq> []" "fs \<noteq> []" "last fs = last (mm_features r)"
  shows "request_block_hasher bs hf nh (r\<lparr>mm_features := fs\<rparr>) = request_block_hasher bs hf nh r"
proof -
  have "hash_chain hf nh bs (r\<lparr>mm_features := fs\<rparr>) s prev kss = hash_chain hf nh bs r s prev kss" for s prev kss
    by (rule hash_chain_cong) (simp add: token_slice_def)
  moreover have "length (block_hashes r) * bs > 0" using assms(1,2) by simp
  moreover have "keys_from (r\<lparr>mm_features := fs\<rparr>) bs s (-1) n = keys_from r bs s (-1) n" for s n
    by (rule keys_from_same_tail[OF assms(3-5)]) (simp add: same_tail_def)
  ultimately show ?thesis by (simp add: request_block_hasher_def hash_loop_chain[OF assms(1)] Let_def)
qed

section \<open>Metrics\<close>

definition metrics_inv :: "prefix_caching_metrics \<Rightarrow> bool" where
  "metrics_inv m \<longleftrightarrow>
     aggregated_requests m = sum_list (map fst (query_queue m))
     \<and> aggregated_query_total m = sum_list (map (fst \<circ> snd) (query_queue m))
     \<and> aggregated_query_hit m = sum_list (map (snd \<circ> snd) (query_queue m))
     \<and> (\<forall>(_, q, h)\<in>set (query_queue m). 0 \<le> h \<and> h \<le> q)"

definition metrics_window :: "prefix_caching_metrics \<Rightarrow> bool" where
  "metrics_window m \<longleftrightarrow> length (query_queue m) \<le> 1 \<or> aggregated_requests m \<le> max_recent_requests m"

lemma evict_old_spec:
  "metrics_inv m \<Longrightarrow> metrics_inv (evict_old m) \<and> metrics_window (evict_old m)
     \<and> (query_queue m \<noteq> [] \<longrightarrow> query_queue (evict_old m) \<noteq> [] \<and> last (query_queue (evict_old m)) = last (query_queue m))"
proof (induction m rule: evict_old.induct)
  case (1 m)
  show ?case
  proof (cases "length (query_queue m) > 1 \<and> aggregated_requests m > max_recent_requests m")
    case True
    obtain a b c xs where q: "query_queue m = (a, b, c) # xs" "xs \<noteq> []"
      using True by (cases "query_queue m") (auto simp: prod_cases3)
    let ?m = "m\<lparr>query_queue := xs, aggregated_requests := aggregated_requests m - a,
      aggregated_query_total := aggregated_query_total m - b, aggregated_query_hit := aggregated_query_hit m - c\<rparr>"
    have "evict_old m = evict_old ?m" using True q by (subst evict_old.simps) simp
    moreover have "metrics_inv ?m" using 1(2) q by (auto simp: metrics_inv_def)
    ultimately show ?thesis using 1(1)[OF True, of "(a, b, c)" a "(b, c)" b c] q by simp
  next
    case False
    then have "evict_old m = m" by (subst evict_old.simps) (simp only: if_False)
    with False 1(2) show ?thesis by (auto simp: metrics_window_def)
  qed
qed

lemma observe_inv:
  assumes "metrics_inv m" "0 \<le> st_hits s" "st_hits s \<le> st_queries s"
  shows "metrics_inv (observe s m)"
proof -
  have "metrics_inv (metrics_reset m)" by (simp add: metrics_reset_def metrics_inv_def)
  then show ?thesis
    using assms by (auto simp: observe_def Let_def intro!: evict_old_spec[THEN conjunct1])
      (auto simp: metrics_inv_def)
qed

lemma observe_window:
  assumes "metrics_inv m" "0 \<le> st_hits s" "st_hits s \<le> st_queries s" "st_requests s \<noteq> 0"
  shows "metrics_window (observe s m)
    \<and> last (query_queue (observe s m)) = (st_requests s, st_queries s, st_hits s)"
proof -
  have m: "metrics_inv (if st_reset s then metrics_reset m else m)"
    using assms(1) by (simp add: metrics_reset_def metrics_inv_def)
  define m1 where "m1 = (if st_reset s then metrics_reset m else m)"
  define m2 where "m2 = m1\<lparr>query_queue := query_queue m1 @ [(st_requests s, st_queries s, st_hits s)],
      aggregated_requests := aggregated_requests m1 + st_requests s,
      aggregated_query_total := aggregated_query_total m1 + st_queries s,
      aggregated_query_hit := aggregated_query_hit m1 + st_hits s\<rparr>"
  have "metrics_inv m2" using m assms(2,3) unfolding m1_def[symmetric] m2_def by (auto simp: metrics_inv_def)
  moreover have "observe s m = evict_old m2" using assms(4) by (simp add: observe_def Let_def m1_def m2_def)
  ultimately show ?thesis using evict_old_spec[of m2] by (simp add: m2_def)
qed

lemma metrics_hits_le:
  "metrics_inv m \<Longrightarrow> 0 \<le> aggregated_query_hit m \<and> aggregated_query_hit m \<le> aggregated_query_total m"
proof -
  have "(\<forall>(_, q, h)\<in>set xs. 0 \<le> h \<and> h \<le> q) \<Longrightarrow>
    0 \<le> sum_list (map (snd \<circ> snd) xs) \<and> sum_list (map (snd \<circ> snd) xs) \<le> sum_list (map (fst \<circ> snd) xs)"
    for xs :: "(int \<times> int \<times> int) list"
    by (induction xs) auto
  then show "metrics_inv m \<Longrightarrow> ?thesis" by (simp add: metrics_inv_def)
qed

section \<open>Whole runs\<close>

lemma request_init_hashed_text:
  assumes "bs > 0" "request_init now (Some (request_block_hasher bs hf nh)) a = Inr r0"
    "a_mm_features a = None"
  shows "hashed_text hf nh bs r0 \<and> output_token_ids r0 = []"
proof (rule request_initE[OF assms(2)])
  fix mt st uso kvp n hs
  let ?r = "new_request now a mt st uso kvp n"
  assume r0: "r0 = ?r\<lparr>block_hashes := hs\<rparr>"
    and h: "case Some (request_block_hasher bs hf nh) of None \<Rightarrow> hs = [] | Some h \<Rightarrow> h ?r = Inr hs"
  have mm: "mm_features ?r = []" using assms(3) by simp
  have "block_hashes ?r = text_hashes hf nh bs ?r 0" by (simp add: text_hashes_def)
  from hasher_text[OF assms(1) mm this] h
  have "hs = text_hashes hf nh bs ?r (length (all_token_ids ?r) div bs)" by simp
  also have "\<dots> = text_hashes hf nh bs r0 (length (all_token_ids ?r) div bs)"
    by (rule text_hashes_extend[symmetric, of _ _ _ _ "[]"]) (simp_all add: r0 div_times_less_eq_dividend)
  finally show ?thesis using mm by (simp add: hashed_text_def r0)
qed

lemma appends_hashed_text:
  assumes "bs > 0" "hashed_text hf nh bs r0"
  shows "\<exists>r. for_each (append_output_token_ids (Some (request_block_hasher bs hf nh))) tss r0 = Inr r
    \<and> hashed_text hf nh bs r \<and> output_token_ids r = output_token_ids r0 @ concat tss
    \<and> all_token_ids r = all_token_ids r0 @ concat tss"
  using assms(2)
proof (induction tss arbitrary: r0)
  case (Cons ts tss)
  from append_hashed_text[OF assms(1) Cons.prems, of ts] Cons.IH show ?case by fastforce
qed simp

lemma rehash_text:
  assumes "bs > 0" "hashed_text hf nh bs r"
  shows "request_block_hasher bs hf nh (r\<lparr>block_hashes := []\<rparr>) = Inr (block_hashes r)"
proof -
  let ?r = "r\<lparr>block_hashes := []\<rparr>"
  have "block_hashes ?r = text_hashes hf nh bs ?r 0" "mm_features ?r = []"
    using assms(2) by (simp_all add: text_hashes_def hashed_text_def)
  from hasher_text[OF assms(1) this(2,1)]
  have "request_block_hasher bs hf nh ?r = Inr (text_hashes hf nh bs ?r (length (all_token_ids r) div bs))" by simp
  also have "text_hashes hf nh bs ?r (length (all_token_ids r) div bs)
      = text_hashes hf nh bs r (length (all_token_ids r) div bs)"
    by (rule text_hashes_extend[of _ _ _ _ "[]"]) (simp_all add: div_times_less_eq_dividend)
  finally show ?thesis using assms(2) by (simp add: hashed_text_def)
qed

text \<open>Concrete arguments for the examples: a sampling request with the given prompt and
  features, and a hash function that is injective because its inputs are countable.\<close>

definition demo_args :: "int list \<Rightarrow> mm_feature list option \<Rightarrow> request_args" where
  "demo_args ts fs = \<lparr>a_request_id = ''r'', a_prompt_token_ids = Some ts,
     a_sampling_params = Some \<lparr>sp_max_tokens = Some 16, ignore_eos = False, stop_token_ids = None,
       structured_outputs = None, extra_args = None, logprobs = None, prompt_logprobs = None\<rparr>,
     a_pooling_params = None, a_eos_token_id = None, a_client_index = 0, a_arrival_time = None,
     a_prompt_embeds = None, a_mm_features = fs, a_lora_request = None,
     a_structured_output_request = None, a_cache_salt = None, a_priority = 0\<rparr>"

definition demo_hash :: hash_fn where
  "demo_hash x = replicate (Suc (to_nat x)) 1"

lemma demo_hash_collision_free: "collision_free demo_hash [0]"
proof -
  have "inj demo_hash"
  proof (rule injI)
    fix x y assume "demo_hash x = demo_hash y"
    then have "length (demo_hash x) = length (demo_hash y)" by simp
    then show "x = y" by (simp add: demo_hash_def)
  qed
  then show ?thesis by (simp add: collision_free_def demo_hash_def)
qed

lemma demo_init:
  assumes "bs > 0"
  shows "\<exists>r hs. request_init 0 (Some (request_block_hasher bs hf nh)) (demo_args ts fs) = Inr r
    \<and> all_token_ids r = ts \<and> r = (new_request 0 (demo_args ts fs) 16 WAITING False None (length ts))\<lparr>block_hashes := hs\<rparr>
    \<and> request_block_hasher bs hf nh (new_request 0 (demo_args ts fs) 16 WAITING False None (length ts)) = Inr hs"
proof -
  let ?r = "new_request 0 (demo_args ts fs) 16 WAITING False None (length ts)"
  obtain hs where "request_block_hasher bs hf nh ?r = Inr hs" using hasher_total[OF assms] by blast
  moreover have "init_mode (a_sampling_params (demo_args ts fs)) (a_pooling_params (demo_args ts fs))
      = Inr (16, WAITING, False, None)"
    "length_from_prompt_token_ids_or_embeds (a_prompt_token_ids (demo_args ts fs)) (a_prompt_embeds (demo_args ts fs))
      = Inr (length ts)"
    by (simp_all add: demo_args_def init_mode_def Let_def length_from_prompt_token_ids_or_embeds_def)
  moreover have "a_prompt_token_ids (demo_args ts fs) = Some ts" by (simp add: demo_args_def)
  ultimately show ?thesis by (auto simp: request_init_def Let_def)
qed

definition demo_feature :: "string \<Rightarrow> int \<Rightarrow> int \<Rightarrow> mm_feature" where
  "demo_feature n off len = \<lparr>modality = ''image'', mm_identifier = n,
     mm_position = \<lparr>offset = off, mm_length = len, is_embed = None\<rparr>\<rparr>"

text \<open>A prompt whose last, partial block holds two one-token images.\<close>

definition mm_pair_args :: "string \<Rightarrow> request_args" where
  "mm_pair_args n = demo_args [1, 2, 3, 4, 0, 0] (Some [demo_feature n 4 1, demo_feature ''C'' 5 1])"

lemma mm_pair_run:
  "\<exists>r s. request_init 0 (Some (request_block_hasher 4 hf nh)) (mm_pair_args n) = Inr r
     \<and> append_output_token_ids (Some (request_block_hasher 4 hf nh)) [7, 8] r = Inr s
     \<and> block_hashes r \<noteq> [] \<and> mm_features r = [demo_feature n 4 1, demo_feature ''C'' 5 1] \<and> length (all_token_ids s) = 8"
proof -
  let ?fs = "[demo_feature n 4 1, demo_feature ''C'' 5 1]" and ?ts = "[1, 2, 3, 4, 0, 0] :: int list"
  have six: "length ?ts = 6" by simp
  obtain r hs where r: "request_init 0 (Some (request_block_hasher 4 hf nh)) (mm_pair_args n) = Inr r" "all_token_ids r = ?ts"
    "r = (new_request 0 (mm_pair_args n) 16 WAITING False None 6)\<lparr>block_hashes := hs\<rparr>"
    "request_block_hasher 4 hf nh (new_request 0 (mm_pair_args n) 16 WAITING False None 6) = Inr hs"
    using demo_init[of 4 hf nh ?ts "Some ?fs"] unfolding six mm_pair_args_def by auto
  have "length hs = 1"
    using hasher_total[of 4 hf nh "new_request 0 (mm_pair_args n) 16 WAITING False None 6"] r(4) by (simp add: mm_pair_args_def demo_args_def)
  then have b: "block_hashes r \<noteq> []" "mm_features r = ?fs" by (auto simp: r(3) mm_pair_args_def demo_args_def)
  let ?r1 = "r\<lparr>output_token_ids := output_token_ids r @ [7, 8], all_token_ids := all_token_ids r @ [7, 8]\<rparr>"
  obtain new where "request_block_hasher 4 hf nh ?r1 = Inr new" using hasher_total[of 4 hf nh ?r1] by auto
  then have "append_output_token_ids (Some (request_block_hasher 4 hf nh)) [7, 8] r = Inr (?r1\<lparr>block_hashes := block_hashes r @ new\<rparr>)"
    by (simp add: append_output_token_ids_def Let_def)
  then show ?thesis using r(1,2) b by (intro exI[of _ r] exI[of _ "?r1\<lparr>block_hashes := block_hashes r @ new\<rparr>"]) simp
qed

section \<open>Properties\<close>

text \<open>a block hash and a group id that fits four bytes are packed into one key from which
  both are recovered; any other group id raises \<^verbatim>\<open>OverflowError\<close>.\<close>

theorem block_hash_key_roundtrip:
  "if 0 \<le> g \<and> g < 2 ^ 32
   then \<exists>k. make_block_hash_with_group_id h g = Inr k \<and> get_block_hash k = h \<and> get_group_id k = g
   else make_block_hash_with_group_id h g = Inl OverflowError"
  using make_block_hash_total[of h g] get_of_make[of h g]
  by (auto simp: make_block_hash_with_group_id_def to_bytes4_def check_def)

text \<open>C29: for a request without multi-modal inputs, hashing incrementally while tokens are
  appended never fails, accounts for every token, hashes exactly the full blocks, and gives
  the hashes that hashing the whole token list at once gives.\<close>

theorem incremental_hashing_is_batch_hashing:
  assumes "bs > 0" "request_init now (Some (request_block_hasher bs hf nh)) a = Inr r0"
    "a_mm_features a = None"
  shows "\<exists>r. for_each (append_output_token_ids (Some (request_block_hasher bs hf nh))) tss r0 = Inr r
    \<and> output_token_ids r = concat tss \<and> all_token_ids r = all_token_ids r0 @ concat tss
    \<and> length (block_hashes r) = length (all_token_ids r) div bs
    \<and> request_block_hasher bs hf nh (r\<lparr>block_hashes := []\<rparr>) = Inr (block_hashes r)"
proof -
  let ?h = "request_block_hasher bs hf nh"
  have r0: "hashed_text hf nh bs r0" "output_token_ids r0 = []"
    using request_init_hashed_text[OF assms] by simp_all
  have "\<exists>r. for_each (append_output_token_ids (Some ?h)) tss r0 = Inr r \<and> hashed_text hf nh bs r
      \<and> output_token_ids r = output_token_ids r0 @ concat tss \<and> all_token_ids r = all_token_ids r0 @ concat tss"
    by (rule appends_hashed_text[OF assms(1) r0(1)])
  then show ?thesis using r0(2) rehash_text[OF assms(1)] by (fastforce simp: hashed_text_def)
qed

theorem incremental_hashing_is_batch_hashing_witness:
  "\<exists>r0 r. request_init 0 (Some (request_block_hasher 2 demo_hash [0])) (demo_args [5, 6, 7] None) = Inr r0
    \<and> for_each (append_output_token_ids (Some (request_block_hasher 2 demo_hash [0]))) [[8], [9, 10]] r0 = Inr r
    \<and> length (block_hashes r) = 3
    \<and> request_block_hasher 2 demo_hash [0] (r\<lparr>block_hashes := []\<rparr>) = Inr (block_hashes r)"
proof -
  obtain r0 where r0: "request_init 0 (Some (request_block_hasher 2 demo_hash [0])) (demo_args [5, 6, 7] None) = Inr r0"
    "all_token_ids r0 = [5, 6, 7]"
    using demo_init[of 2 demo_hash "[0]" "[5, 6, 7]" None] by auto
  from incremental_hashing_is_batch_hashing[OF _ r0(1), of "[[8], [9, 10]]"] r0 show ?thesis
    by (auto simp: demo_args_def)
qed

text \<open>C19: under a collision-free hash function, two requests that share a block hash (each computed
  from the whole token list, with sorted, disjoint, non-empty placeholders) agree on the position
  of the block, on every token up to its end, on the LoRA adapter, and in every block up to this
  one on the identifiers of the multi-modal inputs that have a placeholder token in the block, in
  order, followed in the first block by the cache salt. The keys are one list of strings, so
  nothing marks where the identifiers of the first block end and the salt begins, and the
  position of an input inside its block is not part of them.\<close>

theorem prefix_hash_sound:
  assumes "bs > 0" "collision_free hf nh"
    and "block_hashes r = []" "request_block_hasher bs hf nh r = Inr hs" "i < length hs"
    and "mm_proper (mm_features r)" "\<forall>f\<in>set (mm_features r). offset (mm_position f) \<ge> 0"
    and "block_hashes r' = []" "request_block_hasher bs hf nh r' = Inr hs'" "j < length hs'"
    and "mm_proper (mm_features r')" "\<forall>f\<in>set (mm_features r'). offset (mm_position f) \<ge> 0"
    and "hs ! i = hs' ! j"
  shows "i = j \<and> take (Suc i * bs) (all_token_ids r) = take (Suc i * bs) (all_token_ids r')
    \<and> map_option lora_int_id (lora_request r) = map_option lora_int_id (lora_request r')
    \<and> (\<forall>k\<le>i. block_mm_ids (mm_features r) (int (k * bs)) (int (k * bs + bs)) @ cache_salt_keys r (int (k * bs))
            = block_mm_ids (mm_features r') (int (k * bs)) (int (k * bs + bs)) @ cache_salt_keys r' (int (k * bs)))"
proof -
  note C = shared_hash[OF assms]
  have le: "length (gen_lora_extra_hash_keys x) \<le> 1" for x
    by (simp add: gen_lora_extra_hash_keys_def split: option.splits)
  have lora: "gen_lora_extra_hash_keys r = gen_lora_extra_hash_keys r'"
    using C(3)[rule_format, of i] keys_shape_lora[OF _ le le] unfolding block_keys_def map_append[symmetric] by blast
  then have "map_option lora_int_id (lora_request r) = map_option lora_int_id (lora_request r')"
    by (auto simp: gen_lora_extra_hash_keys_def split: option.splits)
  moreover have "block_mm_ids (mm_features r) (int (k * bs)) (int (k * bs + bs)) @ cache_salt_keys r (int (k * bs))
      = block_mm_ids (mm_features r') (int (k * bs)) (int (k * bs + bs)) @ cache_salt_keys r' (int (k * bs))" if "k \<le> i" for k
    by (rule KStr_keys_inj) (use C(3)[rule_format, OF that] in \<open>simp add: block_keys_def lora\<close>)
  ultimately show ?thesis using C(1,2) by blast
qed

theorem prefix_hash_sound_witness:
  "\<exists>hs hs'. request_block_hasher 2 demo_hash [0] (new_request 0 (demo_args [5, 6, 7, 8, 9] None) 16 WAITING False None 5) = Inr hs
    \<and> request_block_hasher 2 demo_hash [0] (new_request 1 (demo_args [5, 6, 7, 8] None) 16 WAITING False None 4) = Inr hs'
    \<and> hs ! 1 = hs' ! 1 \<and> take 4 [5, 6, 7, 8, 9] = take 4 [5, 6, 7, 8::int]"
proof -
  let ?r = "new_request 0 (demo_args [5, 6, 7, 8, 9] None) 16 WAITING False None 5"
  let ?r' = "new_request 1 (demo_args [5, 6, 7, 8] None) 16 WAITING False None 4"
  have tk: "all_token_ids ?r = [5, 6, 7, 8, 9]" "all_token_ids ?r' = [5, 6, 7, 8]"
    "mm_features ?r = []" "mm_features ?r' = []"
    by (simp_all add: demo_args_def)
  have eq: "text_hashes demo_hash [0] 2 ?r 2 = text_hashes demo_hash [0] 2 ?r' 2"
    by (rule text_hashes_extend[of _ _ _ _ "[9]"]) (simp_all add: tk demo_args_def)
  have 1: "request_block_hasher 2 demo_hash [0] ?r = Inr (text_hashes demo_hash [0] 2 ?r 2)"
    by (rule hasher_text_all) (simp_all add: demo_args_def)
  have 2: "request_block_hasher 2 demo_hash [0] ?r' = Inr (text_hashes demo_hash [0] 2 ?r' 2)"
    by (rule hasher_text_all) (simp_all add: demo_args_def)
  have p: "block_hashes ?r = []" "block_hashes ?r' = []"
    "mm_proper (mm_features ?r)" "\<forall>f\<in>set (mm_features ?r). offset (mm_position f) \<ge> 0"
    "mm_proper (mm_features ?r')" "\<forall>f\<in>set (mm_features ?r'). offset (mm_position f) \<ge> 0"
    unfolding tk(3,4) by (simp_all add: mm_proper_def mm_sorted_def demo_args_def)
  have l: "1 < length (text_hashes demo_hash [0] 2 ?r 2)" "1 < length (text_hashes demo_hash [0] 2 ?r' 2)"
    "text_hashes demo_hash [0] 2 ?r 2 ! 1 = text_hashes demo_hash [0] 2 ?r' 2 ! 1" using eq by simp_all
  from prefix_hash_sound[OF _ demo_hash_collision_free p(1) 1 l(1) p(3,4) p(2) 2 l(2) p(5,6) l(3)]
  have "take 4 (all_token_ids ?r) = take 4 (all_token_ids ?r')" by simp
  with 1 2 eq show ?thesis unfolding tk by auto
qed

text \<open>when a prompt is hashed as a whole and its multi-modal placeholders are sorted and
  disjoint, the keys of every block name every feature that has a placeholder token in it.\<close>

theorem mm_keys_cover_block:
  assumes "mm_sorted (mm_features r)" "keys_from r bs 0 0 n = Inr kss" "k < n"
    "f \<in> set (mm_features r)" "overlaps f (int (k * bs)) (int (k * bs + bs))"
  shows "\<exists>es. kss ! k = Some es \<and> KStr (mm_identifier f) \<in> set es"
  using keys_from_covers[of r 0 0 bs n kss k f] assms by simp

theorem mm_keys_cover_block_witness:
  "\<exists>kss es. keys_from (new_request 0 (demo_args [0, 0, 0, 7] (Some [demo_feature ''A'' 1 2])) 16 WAITING False None 4) 2 0 0 2
       = Inr kss
    \<and> kss ! 1 = Some es \<and> KStr ''A'' \<in> set es"
proof -
  let ?r = "new_request 0 (demo_args [0, 0, 0, 7] (Some [demo_feature ''A'' 1 2])) 16 WAITING False None 4"
  obtain kss where k: "keys_from ?r 2 0 0 2 = Inr kss" using keys_from_total[of 0 ?r 2 0 2] by auto
  have "\<exists>es. kss ! 1 = Some es \<and> KStr (mm_identifier (demo_feature ''A'' 1 2)) \<in> set es"
    by (rule mm_keys_cover_block[OF _ k])
      (simp_all add: demo_args_def mm_sorted_def overlaps_def demo_feature_def)
  with k show ?thesis by (auto simp: demo_feature_def)
qed

text \<open>C40: hashing incrementally looks at the last multi-modal input only. Once a request has a hashed
  block, appending tokens to it gives the same hashes to the blocks they complete when the inputs
  are exchanged for any others with the same last one, whatever the hash function. Hashing the
  token lists as a whole tells the requests apart: with a collision-free hash function (and sorted,
  disjoint, non-empty placeholders) the hashes differ for every block in which the identifiers differ.\<close>

theorem incremental_mm_hash_ignores_inputs:
  fixes hf nh bs
  defines "hasher \<equiv> request_block_hasher bs hf nh"
  assumes "bs > 0" "block_hashes r \<noteq> []" "mm_features r \<noteq> []" "fs \<noteq> []" "last fs = last (mm_features r)"
    and "append_output_token_ids (Some hasher) ts r = Inr r'"
  shows "append_output_token_ids (Some hasher) ts (r\<lparr>mm_features := fs\<rparr>) = Inr (r'\<lparr>mm_features := fs\<rparr>)
    \<and> (collision_free hf nh
        \<and> (\<forall>gs\<in>{mm_features r, fs}. mm_proper gs \<and> (\<forall>f\<in>set gs. offset (mm_position f) \<ge> 0))
       \<longrightarrow> (\<exists>hs hs'. hasher (r'\<lparr>block_hashes := []\<rparr>) = Inr hs \<and> hasher (r'\<lparr>block_hashes := [], mm_features := fs\<rparr>) = Inr hs'
            \<and> length hs = length (all_token_ids r') div bs \<and> length hs' = length hs
            \<and> (\<forall>k<length hs. block_mm_ids (mm_features r) (int (k * bs)) (int (k * bs + bs)) \<noteq> block_mm_ids fs (int (k * bs)) (int (k * bs + bs))
                 \<longrightarrow> hs ! k \<noteq> hs' ! k)))"
proof (intro conjI impI)
  let ?r1 = "r\<lparr>output_token_ids := output_token_ids r @ ts, all_token_ids := all_token_ids r @ ts\<rparr>"
  have h: "request_block_hasher bs hf nh (?r1\<lparr>mm_features := fs\<rparr>) = request_block_hasher bs hf nh ?r1"
    by (rule hasher_last_input) (use assms(2-6) in simp_all)
  obtain new where new: "request_block_hasher bs hf nh ?r1 = Inr new" "r' = ?r1\<lparr>block_hashes := block_hashes r @ new\<rparr>"
    using assms(7) by (auto simp: hasher_def append_output_token_ids_def Let_def)
  show "append_output_token_ids (Some hasher) ts (r\<lparr>mm_features := fs\<rparr>) = Inr (r'\<lparr>mm_features := fs\<rparr>)"
  proof -
    have "append_output_token_ids (Some hasher) ts (r\<lparr>mm_features := fs\<rparr>)
        = bnd (request_block_hasher bs hf nh (?r1\<lparr>mm_features := fs\<rparr>)) (\<lambda>hs. Inr ((?r1\<lparr>mm_features := fs\<rparr>)\<lparr>block_hashes := block_hashes r @ hs\<rparr>))"
      by (cases r) (simp add: hasher_def append_output_token_ids_def Let_def)
    also have "\<dots> = Inr (r'\<lparr>mm_features := fs\<rparr>)" unfolding h new by simp
    finally show ?thesis .
  qed
  assume cf: "collision_free hf nh \<and> (\<forall>gs\<in>{mm_features r, fs}. mm_proper gs \<and> (\<forall>f\<in>set gs. offset (mm_position f) \<ge> 0))"
  let ?a = "r'\<lparr>block_hashes := []\<rparr>" and ?b = "r'\<lparr>block_hashes := [], mm_features := fs\<rparr>"
  obtain hs where hs: "request_block_hasher bs hf nh ?a = Inr hs" "length hs = length (all_token_ids r') div bs"
    using hasher_total[OF assms(2), of hf nh ?a] by auto
  obtain hs' where hs': "request_block_hasher bs hf nh ?b = Inr hs'" "length hs' = length (all_token_ids r') div bs"
    using hasher_total[OF assms(2), of hf nh ?b] by auto
  have mm: "mm_features r' = mm_features r" by (simp add: new(2))
  have "hs ! k \<noteq> hs' ! k" if "k < length hs"
    and ne: "block_mm_ids (mm_features r) (int (k * bs)) (int (k * bs + bs)) \<noteq> block_mm_ids fs (int (k * bs)) (int (k * bs + bs))" for k
  proof
    assume "hs ! k = hs' ! k"
    then have "\<forall>j\<le>k. block_keys ?a (int (j * bs)) (int (j * bs + bs)) = block_keys ?b (int (j * bs)) (int (j * bs + bs))"
      by (intro shared_hash(3)[OF assms(2) conjunct1[OF cf] _ hs(1) _ _ _ _ hs'(1), of k k]) (use cf that(1) hs(2) hs'(2) mm in simp_all)
    then have "block_mm_ids (mm_features r) (int (k * bs)) (int (k * bs + bs)) @ cache_salt_keys r' (int (k * bs))
        = block_mm_ids fs (int (k * bs)) (int (k * bs + bs)) @ cache_salt_keys r' (int (k * bs))"
      by (intro KStr_keys_inj[of "gen_lora_extra_hash_keys r'"]) (simp add: block_keys_def gen_lora_extra_hash_keys_def cache_salt_keys_def mm)
    with ne show False by simp
  qed
  with hs hs' show "\<exists>hs hs'. hasher ?a = Inr hs \<and> hasher ?b = Inr hs' \<and> length hs = length (all_token_ids r') div bs \<and> length hs' = length hs
      \<and> (\<forall>k<length hs. block_mm_ids (mm_features r) (int (k * bs)) (int (k * bs + bs)) \<noteq> block_mm_ids fs (int (k * bs)) (int (k * bs + bs))
           \<longrightarrow> hs ! k \<noteq> hs' ! k)"
    by (auto simp: hasher_def)
qed

text \<open>The image \<open>A\<close> of the last block of the prompt is exchanged for \<open>B\<close>: the completed block gets the same
  hash, but hashing everything at once gives another one.\<close>

theorem incremental_mm_hash_ignores_inputs_witness:
  "\<exists>r s. request_init 0 (Some (request_block_hasher 4 demo_hash [0])) (mm_pair_args ''A'') = Inr r
     \<and> append_output_token_ids (Some (request_block_hasher 4 demo_hash [0])) [7, 8] r = Inr s
     \<and> append_output_token_ids (Some (request_block_hasher 4 demo_hash [0])) [7, 8]
         (r\<lparr>mm_features := [demo_feature ''B'' 4 1, demo_feature ''C'' 5 1]\<rparr>)
         = Inr (s\<lparr>mm_features := [demo_feature ''B'' 4 1, demo_feature ''C'' 5 1]\<rparr>)
     \<and> (\<exists>hs hs'. request_block_hasher 4 demo_hash [0] (s\<lparr>block_hashes := []\<rparr>) = Inr hs
          \<and> request_block_hasher 4 demo_hash [0] (s\<lparr>block_hashes := [], mm_features := [demo_feature ''B'' 4 1, demo_feature ''C'' 5 1]\<rparr>) = Inr hs'
          \<and> hs ! 1 \<noteq> hs' ! 1)"
proof -
  let ?fs = "[demo_feature ''B'' 4 1, demo_feature ''C'' 5 1]"
  obtain r s where rs: "request_init 0 (Some (request_block_hasher 4 demo_hash [0])) (mm_pair_args ''A'') = Inr r"
    "append_output_token_ids (Some (request_block_hasher 4 demo_hash [0])) [7, 8] r = Inr s"
    "block_hashes r \<noteq> []" "mm_features r = [demo_feature ''A'' 4 1, demo_feature ''C'' 5 1]" "length (all_token_ids s) = 8"
    using mm_pair_run[of demo_hash "[0]" "''A''"] by auto
  have f: "offset (mm_position (demo_feature x a b)) = a" "mm_length (mm_position (demo_feature x a b)) = b"
    "mm_identifier (demo_feature x a b) = x" for x a b by (simp_all add: demo_feature_def)
  have ids: "block_mm_ids [demo_feature x 4 1, demo_feature ''C'' 5 1] 4 8 = [x, ''C'']" for x
    by (simp add: block_mm_ids_def overlaps_def f)
  have ok: "mm_proper [demo_feature x 4 1, demo_feature ''C'' 5 1]" for x by (simp add: mm_proper_def mm_sorted_def f)
  from incremental_mm_hash_ignores_inputs[of 4 r ?fs demo_hash "[0]" "[7, 8]" s] rs ok demo_hash_collision_free
  obtain hs hs' where h: "append_output_token_ids (Some (request_block_hasher 4 demo_hash [0])) [7, 8] (r\<lparr>mm_features := ?fs\<rparr>) = Inr (s\<lparr>mm_features := ?fs\<rparr>)"
    "request_block_hasher 4 demo_hash [0] (s\<lparr>block_hashes := []\<rparr>) = Inr hs"
    "request_block_hasher 4 demo_hash [0] (s\<lparr>block_hashes := [], mm_features := ?fs\<rparr>) = Inr hs'"
    "\<forall>k<2. block_mm_ids (mm_features r) (int (k * 4)) (int (k * 4 + 4)) \<noteq> block_mm_ids ?fs (int (k * 4)) (int (k * 4 + 4)) \<longrightarrow> hs ! k \<noteq> hs' ! k"
    by (auto simp: f)
  have "hs ! 1 \<noteq> hs' ! 1" using h(4)[rule_format, of 1] by (simp add: rs(4) ids)
  with rs(1,2) h(1-3) show ?thesis by blast
qed

text \<open>Whatever statistics are observed, the aggregates are the sums over the window, the
  window keeps within the limit unless it holds one entry, and the hit rate is between 0 and 1.\<close>

theorem metrics_observe_ok:
  assumes "metrics_inv m" "0 \<le> st_hits s" "st_hits s \<le> st_queries s"
  shows "metrics_inv (observe s m) \<and> 0 \<le> hit_rate (observe s m) \<and> hit_rate (observe s m) \<le> 1
    \<and> (st_requests s \<noteq> 0 \<longrightarrow> metrics_window (observe s m)
         \<and> last (query_queue (observe s m)) = (st_requests s, st_queries s, st_hits s))"
proof -
  have inv: "metrics_inv (observe s m)" by (rule observe_inv[OF assms])
  note le = metrics_hits_le[OF inv]
  have "0 \<le> hit_rate (observe s m) \<and> hit_rate (observe s m) \<le> 1"
    using le by (auto simp: hit_rate_def divide_le_eq_1 zero_le_divide_iff)
  moreover have "metrics_window (observe s m)
      \<and> last (query_queue (observe s m)) = (st_requests s, st_queries s, st_hits s)" if "st_requests s \<noteq> 0"
    by (rule observe_window[OF assms that])
  ultimately show ?thesis using inv by blast
qed

theorem metrics_observe_ok_witness:
  "metrics_window (observe \<lparr>st_reset = False, st_requests = 4, st_queries = 10, st_hits = 5\<rparr> (metrics_init 3))
   \<and> hit_rate (observe \<lparr>st_reset = False, st_requests = 4, st_queries = 10, st_hits = 5\<rparr> (metrics_init 3)) \<le> 1"
  using metrics_observe_ok[of "metrics_init 3" "\<lparr>st_reset = False, st_requests = 4, st_queries = 10, st_hits = 5\<rparr>"]
  by (simp add: metrics_init_def metrics_inv_def)


end
