(* ===== verification/Block_Pool.thy ===== *)
theory Block_Pool
  imports Free_Queue Block_Hash "HOL-Library.AList"
begin

text \<open>
  The block pool of \<^verbatim>\<open>vllm/v1/core/block_pool.py\<close>: the map from block hashes to cached blocks
  and the pool that allocates, caches, touches and frees blocks on top of the free block
  queue. The attributes of the block objects live in the store of the queue. The invariant
  \<open>pool_inv\<close> ties reference counts, free list and hash map together; the locale
  \<open>block_allocator\<close> is the contract that the cache managers rely on.
\<close>

section \<open>The hash map\<close>

text \<open>One block, or an insertion-ordered dict from block ids to blocks.\<close>

datatype cache_entry = Single block_ref | Multi "(int \<times> block_ref) list"

type_synonym block_map = "bytes \<rightharpoonup> cache_entry"

definition get_one_block :: "block_map \<Rightarrow> bytes \<Rightarrow> block_ref option result" where
  "get_one_block m key =
     (case m key of
        None \<Rightarrow> Inr None
      | Some (Single b) \<Rightarrow> Inr (Some b)
      | Some (Multi bs) \<Rightarrow> (case bs of [] \<Rightarrow> Inl StopIteration | (_, b) # _ \<Rightarrow> Inr (Some b)))"

definition map_insert :: "block_store \<Rightarrow> block_map \<Rightarrow> bytes \<Rightarrow> block_ref \<Rightarrow> block_map" where
  "map_insert st m key block =
     (case m key of
        None \<Rightarrow> m(key \<mapsto> Single block)
      | Some (Single b) \<Rightarrow>
          m(key \<mapsto> Multi (AList.update (block_id (st block)) block [(block_id (st b), b)]))
      | Some (Multi bs) \<Rightarrow> m(key \<mapsto> Multi (AList.update (block_id (st block)) block bs)))"

definition map_pop :: "block_store \<Rightarrow> block_map \<Rightarrow> bytes \<Rightarrow> int \<Rightarrow> block_ref option \<times> block_map" where
  "map_pop st m key bid =
     (case m key of
        None \<Rightarrow> (None, m)
      | Some (Single b) \<Rightarrow> if block_id (st b) = bid then (Some b, m(key := None)) else (None, m)
      | Some (Multi bs) \<Rightarrow>
          let bs' = AList.delete bid bs
          in (map_of bs bid, m(key := if bs' = [] then None else Some (Multi bs'))))"

section \<open>The pool\<close>

datatype kv_event =
    BlockStored "external_hash list" "external_hash option" "int list" nat "int option"
  | BlockRemoved "external_hash list"
  | AllBlocksCleared

record block_pool =
  num_gpu_blocks :: nat
  enable_caching :: bool
  fbq :: free_queue
  cached_block_hash_to_block :: block_map
  null_block :: block_ref
  enable_kv_cache_events :: bool
  kv_event_queue :: "kv_event list"
  use_int_block_hashes :: bool

abbreviation blk :: "block_pool \<Rightarrow> block_ref \<Rightarrow> kv_block" where
  "blk p r \<equiv> store (fbq p) r"

definition upd_blk :: "block_ref \<Rightarrow> (kv_block \<Rightarrow> kv_block) \<Rightarrow> block_pool \<Rightarrow> block_pool" where
  "upd_blk r f p = p\<lparr>fbq := upd_block r f (fbq p)\<rparr>"

definition add_ref :: "int \<Rightarrow> block_ref \<Rightarrow> block_pool \<Rightarrow> block_pool" where
  "add_ref d r = upd_blk r (\<lambda>b. b\<lparr>ref_cnt := ref_cnt b + d\<rparr>)"

definition pool_blocks :: "block_pool \<Rightarrow> block_ref list" where
  "pool_blocks p = map Blk [0..<num_gpu_blocks p]"

definition initial_store :: block_store where
  "initial_store r = (case r of Blk i \<Rightarrow> new_block (int i) | _ \<Rightarrow> new_block (-1))"

definition pool_init :: "nat \<Rightarrow> bool \<Rightarrow> bool \<Rightarrow> bool \<Rightarrow> block_pool result" where
  "pool_init n caching events_on use_int =
     check (n > 0) AssertionError
       (bnd (popleft (init_queue initial_store (map Blk [0..<n]))) (\<lambda>(nb, q).
          Inr (upd_blk nb (is_null_update (\<lambda>_. True))
            \<lparr>num_gpu_blocks = n, enable_caching = caching, fbq = q,
             cached_block_hash_to_block = Map.empty, null_block = nb,
             enable_kv_cache_events = events_on, kv_event_queue = [], use_int_block_hashes = use_int\<rparr>)))"

fun get_cached_block :: "block_pool \<Rightarrow> bytes \<Rightarrow> int list \<Rightarrow> block_ref list option result" where
  "get_cached_block p h [] = Inr (Some [])"
| "get_cached_block p h (g # gs) =
     bnd (make_block_hash_with_group_id h g) (\<lambda>key.
     bnd (get_one_block (cached_block_hash_to_block p) key) (\<lambda>b.
       case b of
         None \<Rightarrow> Inr None
       | Some r \<Rightarrow> bnd (get_cached_block p h gs) (\<lambda>rest. Inr (map_option ((#) r) rest))))"

definition cache_one :: "int \<Rightarrow> block_ref \<times> bytes \<Rightarrow> block_pool \<times> external_hash list
    \<Rightarrow> (block_pool \<times> external_hash list) result" where
  "cache_one gid bh s =
     (let (r, h) = bh; (p, new_hashes) = s in
      check (block_hash (blk p r) = None) AssertionError
        (bnd (make_block_hash_with_group_id h gid) (\<lambda>key.
         bnd (set_block_hash key (blk p r)) (\<lambda>b.
           let p1 = upd_blk r (\<lambda>_. b) p
           in Inr (p1\<lparr>cached_block_hash_to_block :=
                       map_insert (store (fbq p1)) (cached_block_hash_to_block p1) key r\<rparr>,
                   if enable_kv_cache_events p
                   then new_hashes @ [maybe_convert_block_hash (use_int_block_hashes p) h] else new_hashes)))))"

text \<open>The event carries \<^verbatim>\<open>request.lora_request.id\<close>, an attribute that \<^verbatim>\<open>LoRARequest\<close> does not
  have.\<close>

definition stored_event :: "block_pool \<Rightarrow> request \<Rightarrow> block_ref list \<Rightarrow> nat \<Rightarrow> nat \<Rightarrow> nat \<Rightarrow> external_hash list
    \<Rightarrow> block_pool result" where
  "stored_event p req blocks num_cached_blocks num_full_blocks block_size new_hashes =
     bnd (if num_cached_blocks = 0 then Inr None
          else bnd (index_py blocks (num_cached_blocks - 1)) (\<lambda>parent.
            case block_hash (blk p parent) of
              None \<Rightarrow> Inl AssertionError
            | Some k \<Rightarrow> Inr (Some (maybe_convert_block_hash (use_int_block_hashes p) (get_block_hash k)))))
       (\<lambda>parent_block_hash.
          if lora_request req \<noteq> None then Inl AttributeError
          else Inr (p\<lparr>kv_event_queue := kv_event_queue p @
            [BlockStored new_hashes parent_block_hash
               (token_slice req (num_cached_blocks * block_size) (num_full_blocks * block_size))
               block_size None]\<rparr>))"

definition cache_full_blocks ::
    "block_pool \<Rightarrow> request \<Rightarrow> block_ref list \<Rightarrow> nat \<Rightarrow> nat \<Rightarrow> nat \<Rightarrow> int \<Rightarrow> block_pool result" where
  "cache_full_blocks p req blocks num_cached_blocks num_full_blocks block_size gid =
     (if num_cached_blocks = num_full_blocks then Inr p
      else let new_full_blocks = take (num_full_blocks - num_cached_blocks) (drop num_cached_blocks blocks)
        in check (length (block_hashes req) \<ge> num_full_blocks) AssertionError
          (let new_block_hashes = drop num_cached_blocks (block_hashes req)
           in bnd (for_each (\<lambda>i s. bnd (index_py new_block_hashes i) (\<lambda>h. cache_one gid (new_full_blocks ! i, h) s))
                     [0..<length new_full_blocks] (p, []))
                (\<lambda>(p1, new_hashes).
                   if enable_kv_cache_events p1
                   then stored_event p1 req blocks num_cached_blocks num_full_blocks block_size new_hashes
                   else Inr p1)))"

definition get_num_free_blocks :: "block_pool \<Rightarrow> int" where
  "get_num_free_blocks p = num_free_blocks (fbq p)"

definition maybe_evict_cached_block :: "block_ref \<Rightarrow> block_pool \<Rightarrow> bool \<times> block_pool" where
  "maybe_evict_cached_block r p =
     (case block_hash (blk p r) of
        None \<Rightarrow> (False, p)
      | Some h \<Rightarrow>
          let (b, m) = map_pop (store (fbq p)) (cached_block_hash_to_block p) h (block_id (blk p r));
              p1 = p\<lparr>cached_block_hash_to_block := m\<rparr>
          in case b of
               None \<Rightarrow> (False, p1)
             | Some _ \<Rightarrow>
                 let p2 = upd_blk r reset_hash p1
                 in (True, if enable_kv_cache_events p2
                       then p2\<lparr>kv_event_queue := kv_event_queue p2 @
                          [BlockRemoved [maybe_convert_block_hash (use_int_block_hashes p2) (get_block_hash h)]]\<rparr>
                       else p2))"

definition take_new :: "block_ref \<Rightarrow> block_pool \<Rightarrow> block_pool result" where
  "take_new r p =
     (let p1 = (if enable_caching p then snd (maybe_evict_cached_block r p) else p)
      in check (ref_cnt (blk p1 r) = 0) AssertionError (Inr (add_ref 1 r p1)))"

definition get_new_blocks :: "block_pool \<Rightarrow> nat \<Rightarrow> (block_ref list \<times> block_pool) result" where
  "get_new_blocks p n =
     (if int n > get_num_free_blocks p then Inl ValueError
      else bnd (popleft_n (fbq p) n) (\<lambda>(ret, q).
             bnd (for_each take_new ret (p\<lparr>fbq := q\<rparr>)) (\<lambda>p1. Inr (ret, p1))))"

definition touch_one :: "block_ref \<Rightarrow> block_pool \<Rightarrow> block_pool result" where
  "touch_one r p =
     bnd (if ref_cnt (blk p r) = 0 \<and> \<not> is_null (blk p r)
          then bnd (remove_block (fbq p) r) (\<lambda>q. Inr (p\<lparr>fbq := q\<rparr>)) else Inr p)
       (\<lambda>p1. Inr (add_ref 1 r p1))"

definition touch :: "block_pool \<Rightarrow> block_ref list list \<Rightarrow> block_pool result" where
  "touch p blocks = for_each (for_each touch_one) blocks p"

definition free_blocks :: "block_pool \<Rightarrow> block_ref list \<Rightarrow> block_pool result" where
  "free_blocks p ordered_blocks =
     (let p1 = fold (add_ref (-1)) ordered_blocks p
      in bnd (append_n (fbq p1) (filter (\<lambda>r. ref_cnt (blk p1 r) = 0 \<and> \<not> is_null (blk p1 r)) ordered_blocks))
           (\<lambda>q. Inr (p1\<lparr>fbq := q\<rparr>)))"

definition reset_prefix_cache :: "block_pool \<Rightarrow> bool \<times> block_pool" where
  "reset_prefix_cache p =
     (let num_used_blocks = int (num_gpu_blocks p) - get_num_free_blocks p in
      if num_used_blocks \<noteq> 1 then (False, p)
      else let p1 = p\<lparr>cached_block_hash_to_block := Map.empty\<rparr>;
               p2 = fold (\<lambda>r. upd_blk r reset_hash) (pool_blocks p1) p1
        in (True, if enable_kv_cache_events p2
                  then p2\<lparr>kv_event_queue := kv_event_queue p2 @ [AllBlocksCleared]\<rparr> else p2))"

definition get_usage :: "block_pool \<Rightarrow> rat" where
  "get_usage p =
     (let total_gpu_blocks = int (num_gpu_blocks p) - 1
      in if total_gpu_blocks = 0 then 0
         else 1 - of_int (get_num_free_blocks p) / of_int total_gpu_blocks)"

definition pool_take_events :: "block_pool \<Rightarrow> kv_event list \<times> block_pool" where
  "pool_take_events p =
     (if \<not> enable_kv_cache_events p then ([], p) else (kv_event_queue p, p\<lparr>kv_event_queue := []\<rparr>))"

section \<open>Invariant\<close>

fun entry_refs :: "cache_entry \<Rightarrow> block_ref list" where
  "entry_refs (Single b) = [b]"
| "entry_refs (Multi bs) = map snd bs"

fun entry_ok :: "block_store \<Rightarrow> cache_entry \<Rightarrow> bool" where
  "entry_ok st (Single b) = True"
| "entry_ok st (Multi bs) \<longleftrightarrow>
     bs \<noteq> [] \<and> distinct (map fst bs) \<and> (\<forall>(i, b)\<in>set bs. block_id (st b) = i)"

definition in_cache :: "block_map \<Rightarrow> bytes \<Rightarrow> block_ref \<Rightarrow> bool" where
  "in_cache m k r \<longleftrightarrow> (\<exists>e. m k = Some e \<and> r \<in> set (entry_refs e))"

definition pool_refs :: "nat \<Rightarrow> block_ref set" where
  "pool_refs n = Blk ` {1..<n}"

text \<open>The free list \<open>xs\<close> holds exactly the non-null blocks without references, up to the
  blocks \<open>ys\<close> that an allocation has popped and not counted yet.\<close>

definition queue_pend :: "nat \<Rightarrow> free_queue \<Rightarrow> block_ref list \<Rightarrow> block_ref list \<Rightarrow> bool" where
  "queue_pend n q xs ys \<longleftrightarrow> queue_rel q xs \<and> n > 0 \<and> distinct (xs @ ys)
     \<and> (\<forall>i<n. block_id (store q (Blk i)) = int i \<and> (is_null (store q (Blk i)) \<longleftrightarrow> i = 0))
     \<and> set xs \<union> set ys \<subseteq> pool_refs n
     \<and> (\<forall>r\<in>pool_refs n. ref_cnt (store q r) \<ge> 0
          \<and> (r \<in> set xs \<union> set ys \<longleftrightarrow> ref_cnt (store q r) = 0))"

abbreviation queue_ok :: "nat \<Rightarrow> free_queue \<Rightarrow> block_ref list \<Rightarrow> bool" where
  "queue_ok n q xs \<equiv> queue_pend n q xs []"

text \<open>A block is found under a key exactly when it carries this key as its hash.\<close>

definition cache_ok :: "nat \<Rightarrow> block_store \<Rightarrow> block_map \<Rightarrow> bool" where
  "cache_ok n st m \<longleftrightarrow> (\<forall>k e. m k = Some e \<longrightarrow> entry_ok st e)
     \<and> (\<forall>k r. in_cache m k r \<longleftrightarrow> r \<in> pool_refs n \<and> block_hash (st r) = Some k)
     \<and> block_hash (st (Blk 0)) = None"

definition pool_inv :: "block_pool \<Rightarrow> block_ref list \<Rightarrow> bool" where
  "pool_inv p xs \<longleftrightarrow> queue_ok (num_gpu_blocks p) (fbq p) xs
     \<and> cache_ok (num_gpu_blocks p) (store (fbq p)) (cached_block_hash_to_block p) \<and> null_block p = Blk 0"

text \<open>What no operation changes.\<close>

definition pool_static :: "block_pool \<Rightarrow> nat \<times> bool \<times> block_ref \<times> bool \<times> bool" where
  "pool_static p = (num_gpu_blocks p, enable_caching p, null_block p, enable_kv_cache_events p, use_int_block_hashes p)"

definition rc :: "block_pool \<Rightarrow> block_ref \<Rightarrow> int" where
  "rc p r = ref_cnt (blk p r)"

definition bh :: "block_pool \<Rightarrow> block_ref \<Rightarrow> bytes option" where
  "bh p r = block_hash (blk p r)"

section \<open>Lemmas on the hash map\<close>

lemma entry_mem:
  "entry_ok st (Multi l) \<Longrightarrow> x \<in> snd ` set l \<longleftrightarrow> map_of l (block_id (st x)) = Some x"
  by (force simp: map_of_eq_Some_iff)

lemma set_alist_update: "set (AList.update k v l) \<subseteq> insert (k, v) (set l)"
  by (induction l) auto

lemma entry_ok_update:
  assumes "entry_ok st (Multi l)"
  shows "entry_ok st (Multi (AList.update (block_id (st r)) r l))"
proof -
  have "AList.update (block_id (st r)) r l \<noteq> []" by (cases l) auto
  moreover have "(i, b) \<in> set (AList.update (block_id (st r)) r l) \<Longrightarrow> block_id (st b) = i" for i b
    using assms set_alist_update[of "block_id (st r)" r l] by auto
  ultimately show ?thesis using assms by (auto simp: distinct_update)
qed

lemma update_mem:
  assumes "entry_ok st (Multi l)" "\<And>b. b \<in> snd ` set l \<Longrightarrow> block_id (st b) = block_id (st r) \<Longrightarrow> b = r"
  shows "x \<in> snd ` set (AList.update (block_id (st r)) r l) \<longleftrightarrow> x = r \<or> x \<in> snd ` set l"
proof -
  have "x = r" if "map_of l (block_id (st x)) = Some x" "block_id (st x) = block_id (st r)"
    using assms(2)[of x] entry_mem[OF assms(1), of x] that by simp
  then show ?thesis
    using entry_mem[OF entry_ok_update[OF assms(1)], of x r] entry_mem[OF assms(1), of x]
    by (auto simp: update_conv' split: if_splits)
qed

lemma map_insert_ok:
  assumes ok: "\<forall>e. m key = Some e \<longrightarrow> entry_ok st e"
    and inj: "\<forall>b. in_cache m key b \<longrightarrow> block_id (st b) = block_id (st r) \<longrightarrow> b = r"
  shows "in_cache (map_insert st m key r) k x \<longleftrightarrow> in_cache m k x \<or> k = key \<and> x = r"
    and "map_insert st m key r k = Some e \<Longrightarrow> k \<noteq> key \<Longrightarrow> m k = Some e"
    and "map_insert st m key r key = Some e \<Longrightarrow> entry_ok st e"
proof -
  consider (none) "m key = None" | (single) b where "m key = Some (Single b)"
    | (multi) l where "m key = Some (Multi l)" by (metis cache_entry.exhaust option.exhaust)
  then have "(in_cache (map_insert st m key r) k x \<longleftrightarrow> in_cache m k x \<or> k = key \<and> x = r)
    \<and> (map_insert st m key r key = Some e \<longrightarrow> entry_ok st e)"
  proof cases
    case none
    then show ?thesis by (auto simp: map_insert_def in_cache_def)
  next
    case (single b)
    have o: "entry_ok st (Multi [(block_id (st b), b)])" by simp
    have "b' = r" if "b' \<in> snd ` set [(block_id (st b), b)]" "block_id (st b') = block_id (st r)" for b'
      using that inj single by (auto simp: in_cache_def)
    with entry_ok_update[OF o] update_mem[OF o] single show ?thesis
      by (auto simp: map_insert_def in_cache_def)
  next
    case (multi l)
    have o: "entry_ok st (Multi l)" using ok multi by blast
    have "b = r" if "b \<in> snd ` set l" "block_id (st b) = block_id (st r)" for b
      using that inj multi by (auto simp: in_cache_def)
    with entry_ok_update[OF o, of r] update_mem[OF o, of r] multi show ?thesis
      by (auto simp: map_insert_def in_cache_def simp del: entry_ok.simps)
  qed
  then show "in_cache (map_insert st m key r) k x \<longleftrightarrow> in_cache m k x \<or> k = key \<and> x = r"
    "map_insert st m key r key = Some e \<Longrightarrow> entry_ok st e" by blast+
  show "map_insert st m key r k = Some e \<Longrightarrow> k \<noteq> key \<Longrightarrow> m k = Some e"
    by (auto simp: map_insert_def split: option.splits cache_entry.splits)
qed

lemma map_pop_ok:
  assumes "m key = Some e" "entry_ok st e" "in_cache m key r"
    and inj: "\<And>b. in_cache m key b \<Longrightarrow> block_id (st b) = block_id (st r) \<Longrightarrow> b = r"
  shows "\<exists>m'. map_pop st m key (block_id (st r)) = (Some r, m')
    \<and> (\<forall>k x. in_cache m' k x \<longleftrightarrow> in_cache m k x \<and> \<not> (k = key \<and> x = r))
    \<and> (\<forall>k e'. m' k = Some e' \<longrightarrow> (if k = key then entry_ok st e' else m k = Some e'))"
proof (cases e)
  case (Single b)
  with assms show ?thesis by (auto simp: map_pop_def in_cache_def)
next
  case (Multi l)
  let ?l = "AList.delete (block_id (st r)) l"
  have ok: "entry_ok st (Multi l)" using assms(2) Multi by simp
  have r: "map_of l (block_id (st r)) = Some r" using assms(1,3) Multi entry_mem[OF ok] by (auto simp: in_cache_def)
  have sl: "set ?l = {(i, b)\<in>set l. i \<noteq> block_id (st r)}" by (auto simp: AList.delete_eq)
  have ok': "?l \<noteq> [] \<Longrightarrow> entry_ok st (Multi ?l)"
    using ok sl by (auto simp: distinct_delete)
  have mem: "x \<in> snd ` set ?l \<longleftrightarrow> x \<in> snd ` set l \<and> x \<noteq> r" for x
    using ok sl inj[of x] assms(1) Multi by (force simp: in_cache_def)
  have "map_pop st m key (block_id (st r)) = (Some r, m(key := if ?l = [] then None else Some (Multi ?l)))"
    using assms(1) Multi r by (simp add: map_pop_def Let_def)
  moreover have "in_cache (m(key := if ?l = [] then None else Some (Multi ?l))) k x
      \<longleftrightarrow> in_cache m k x \<and> \<not> (k = key \<and> x = r)" for k x
    using mem[of x] assms(1) Multi by (auto simp: in_cache_def)
  ultimately show ?thesis using ok' by (auto simp del: entry_ok.simps)
qed

section \<open>Lemmas on the store\<close>

lemma upd_blk_simps [simp]:
  "store (fbq (upd_blk r f p)) = (store (fbq p))(r := f (store (fbq p) r))"
  "num_free_blocks (fbq (upd_blk r f p)) = num_free_blocks (fbq p)"
  "cached_block_hash_to_block (upd_blk r f p) = cached_block_hash_to_block p"
  "num_gpu_blocks (upd_blk r f p) = num_gpu_blocks p" "null_block (upd_blk r f p) = null_block p"
  "enable_caching (upd_blk r f p) = enable_caching p"
  "enable_kv_cache_events (upd_blk r f p) = enable_kv_cache_events p"
  "use_int_block_hashes (upd_blk r f p) = use_int_block_hashes p"
  "pool_static (upd_blk r f p) = pool_static p" "kv_event_queue (upd_blk r f p) = kv_event_queue p"
  by (simp_all add: upd_blk_def upd_block_def pool_static_def)

lemma pool_static_simps [simp]:
  "pool_static (p\<lparr>fbq := q\<rparr>) = pool_static p"
  "pool_static (p\<lparr>cached_block_hash_to_block := m\<rparr>) = pool_static p"
  "pool_static (p\<lparr>kv_event_queue := es\<rparr>) = pool_static p"
  by (simp_all add: pool_static_def)

lemma pool_staticD:
  assumes "pool_static p' = pool_static p"
  shows "num_gpu_blocks p' = num_gpu_blocks p" "enable_caching p' = enable_caching p"
    "null_block p' = null_block p" "enable_kv_cache_events p' = enable_kv_cache_events p"
    "use_int_block_hashes p' = use_int_block_hashes p"
  using assms by (simp_all add: pool_static_def)

lemma payload_eqD:
  assumes "payload q' = payload q"
  shows "block_id (store q' r) = block_id (store q r)" "ref_cnt (store q' r) = ref_cnt (store q r)"
    "block_hash (store q' r) = block_hash (store q r)" "is_null (store q' r) = is_null (store q r)"
  using fun_cong[OF assms, of r] by (simp_all add: payload_def Let_def)

lemma queue_rel_upd:
  assumes "\<And>b. prev_free_block (f b) = prev_free_block b" "\<And>b. next_free_block (f b) = next_free_block b"
  shows "queue_rel (upd_block r f q) xs \<longleftrightarrow> queue_rel q xs"
proof -
  have "next_of (upd_block r f q) x = next_of q x \<and> prev_of (upd_block r f q) x = prev_of q x" for x
    using assms by (simp add: upd_block_def)
  moreover have "chain (store (upd_block r f q)) ns \<longleftrightarrow> chain (store q) ns" for ns
    using calculation by (intro chain_frame) auto
  ultimately show ?thesis by (simp add: queue_rel_def upd_block_def)
qed

lemma queue_rel_upd_blk:
  assumes "\<And>b. prev_free_block (f b) = prev_free_block b" "\<And>b. next_free_block (f b) = next_free_block b"
  shows "queue_rel (fbq (upd_blk r f p)) xs \<longleftrightarrow> queue_rel (fbq p) xs"
  using queue_rel_upd[of f, OF assms] by (simp add: upd_blk_def)

lemma rc_bh_simps [simp]:
  "rc (add_ref d r p) = (rc p)(r := rc p r + d)" "bh (add_ref d r p) = bh p"
  "pool_static (add_ref d r p) = pool_static p"
  "cached_block_hash_to_block (add_ref d r p) = cached_block_hash_to_block p"
  "num_gpu_blocks (add_ref d r p) = num_gpu_blocks p" "null_block (add_ref d r p) = null_block p"
  "is_null (blk (add_ref d r p) x) = is_null (blk p x)" "block_id (blk (add_ref d r p) x) = block_id (blk p x)"
  by (auto simp: rc_def bh_def add_ref_def fun_eq_iff)

lemma queue_rel_add_ref [simp]: "queue_rel (fbq (add_ref d r p)) xs \<longleftrightarrow> queue_rel (fbq p) xs"
  unfolding add_ref_def by (rule queue_rel_upd_blk) simp_all

text \<open>The parts of the invariant depend on few attributes each.\<close>

lemma queue_pend_cong:
  assumes "queue_pend n q xs ys" "queue_rel q' xs'" "distinct (xs' @ ys')"
    "\<And>r. block_id (store q' r) = block_id (store q r)" "\<And>r. is_null (store q' r) = is_null (store q r)"
    "set xs' \<union> set ys' \<subseteq> pool_refs n"
    "\<And>r. r \<in> pool_refs n \<Longrightarrow> ref_cnt (store q' r) \<ge> 0
       \<and> (r \<in> set xs' \<union> set ys' \<longleftrightarrow> ref_cnt (store q' r) = 0)"
  shows "queue_pend n q' xs' ys'"
  using assms unfolding queue_pend_def by auto

lemma cache_ok_cong:
  assumes "cache_ok n st m" "\<And>r. block_id (st' r) = block_id (st r)" "\<And>r. block_hash (st' r) = block_hash (st r)"
  shows "cache_ok n st' m"
proof -
  have "entry_ok st' e = entry_ok st e" for e using assms(2) by (cases e) auto
  with assms show ?thesis by (simp add: cache_ok_def)
qed

lemma cache_ok_upd_cong:
  assumes "cache_ok n (store (fbq p)) m" "\<And>r. block_id (blk p' r) = block_id (blk p r)" "bh p' = bh p"
  shows "cache_ok n (store (fbq p')) m"
  using cache_ok_cong[OF assms(1)] assms(2) fun_cong[OF assms(3)] by (simp add: bh_def)

section \<open>Allocation\<close>

lemma pool_refs_simps [simp]:
  "Blk i \<in> pool_refs n \<longleftrightarrow> 0 < i \<and> i < n" "Head \<notin> pool_refs n" "Tail \<notin> pool_refs n"
  by (auto simp: pool_refs_def)

lemma pool_refsE [elim]:
  assumes "r \<in> pool_refs n" obtains i where "r = Blk i" "0 < i" "i < n"
  using assms by (auto simp: pool_refs_def)

lemma ids_inj:
  assumes "queue_pend n q xs ys" "a \<in> pool_refs n" "b \<in> pool_refs n"
    "block_id (store q a) = block_id (store q b)"
  shows "a = b"
  using assms(2-) by (rule_tac pool_refsE[OF assms(2)], rule_tac pool_refsE[OF assms(3)])
    (use assms(1) in \<open>simp add: queue_pend_def\<close>)

lemma queue_pend_rel: "queue_pend n q xs ys \<Longrightarrow> queue_rel q xs"
  by (simp add: queue_pend_def)

lemma queue_pend_rc:
  "queue_pend n q xs ys \<Longrightarrow> r \<in> pool_refs n \<Longrightarrow>
     ref_cnt (store q r) \<ge> 0 \<and> (r \<in> set xs \<union> set ys \<longleftrightarrow> ref_cnt (store q r) = 0)"
  by (simp add: queue_pend_def)

lemma queue_pend_head:
  assumes "queue_pend n q xs (y # ys)"
  shows "y \<in> pool_refs n \<and> y \<notin> set xs \<and> y \<notin> set ys \<and> ref_cnt (store q y) = 0"
proof -
  have "y \<in> pool_refs n" using assms by (simp add: queue_pend_def)
  from queue_pend_rc[OF assms this] this show ?thesis using assms by (simp add: queue_pend_def)
qed

lemma evict_ok:
  assumes q: "queue_pend n (fbq p) xs ys" and c: "cache_ok n (store (fbq p)) (cached_block_hash_to_block p)"
    and r: "r \<in> pool_refs n"
  shows "\<exists>p'. maybe_evict_cached_block r p = (bh p r \<noteq> None, p') \<and> pool_static p' = pool_static p
    \<and> (\<forall>zs. queue_rel (fbq p') zs = queue_rel (fbq p) zs) \<and> rc p' = rc p \<and> bh p' = (bh p)(r := None)
    \<and> (\<forall>x. block_id (blk p' x) = block_id (blk p x) \<and> is_null (blk p' x) = is_null (blk p x))
    \<and> cache_ok n (store (fbq p')) (cached_block_hash_to_block p')"
proof (cases "bh p r")
  case None
  with c show ?thesis by (auto simp: maybe_evict_cached_block_def bh_def)
next
  case (Some k)
  let ?st = "store (fbq p)" and ?m = "cached_block_hash_to_block p"
  have ic: "in_cache ?m k r" using Some r c by (simp add: cache_ok_def bh_def)
  then obtain e where e: "?m k = Some e" by (auto simp: in_cache_def)
  have inj: "b = r" if "in_cache ?m k b" "block_id (?st b) = block_id (?st r)" for b
    using that c r by (intro ids_inj[OF q]) (auto simp: cache_ok_def)
  have eo: "entry_ok ?st e" using c e by (auto simp: cache_ok_def)
  obtain m' where m': "map_pop ?st ?m k (block_id (?st r)) = (Some r, m')"
    "\<forall>k' x. in_cache m' k' x \<longleftrightarrow> in_cache ?m k' x \<and> \<not> (k' = k \<and> x = r)"
    "\<forall>k' e'. m' k' = Some e' \<longrightarrow> (if k' = k then entry_ok ?st e' else ?m k' = Some e')"
    using map_pop_ok[OF e eo ic inj] by auto
  define p2 where "p2 = upd_blk r reset_hash (p\<lparr>cached_block_hash_to_block := m'\<rparr>)"
  define p3 where "p3 = (if enable_kv_cache_events p2
      then p2\<lparr>kv_event_queue := kv_event_queue p2 @
        [BlockRemoved [maybe_convert_block_hash (use_int_block_hashes p2) (get_block_hash k)]]\<rparr> else p2)"
  have ev: "maybe_evict_cached_block r p = (True, p3)"
    using Some m'(1) by (simp add: maybe_evict_cached_block_def bh_def Let_def p2_def p3_def)
  have p3: "pool_static p3 = pool_static p" "fbq p3 = upd_block r reset_hash (fbq p)"
    "cached_block_hash_to_block p3 = m'"
    by (simp_all add: p3_def p2_def upd_blk_def pool_static_def)
  have st: "store (fbq p3) x = (if x = r then reset_hash (?st r) else ?st x)" for x
    unfolding p3(2) by (simp add: upd_block_def)
  have bid: "block_id (store (fbq p3) x) = block_id (?st x)" for x
    by (simp add: st reset_hash_def)
  have eo: "entry_ok (store (fbq p3)) e' = entry_ok ?st e'" for e'
    using bid by (cases e') auto
  have "cache_ok n (store (fbq p3)) m'"
    unfolding cache_ok_def eo
  proof (intro conjI allI impI)
    show "entry_ok ?st e'" if "m' k' = Some e'" for k' e'
      using m'(3) that c by (auto simp: cache_ok_def split: if_splits)
    show "in_cache m' k' x \<longleftrightarrow> x \<in> pool_refs n \<and> block_hash (store (fbq p3) x) = Some k'" for k' x
      using m'(2) c Some by (auto simp: cache_ok_def bh_def st reset_hash_def)
    show "block_hash (store (fbq p3) (Blk 0)) = None" using c r by (auto simp: st cache_ok_def)
  qed
  moreover have "queue_rel (fbq p3) zs = queue_rel (fbq p) zs" for zs
    unfolding p3(2) by (rule queue_rel_upd) (simp_all add: reset_hash_def)
  moreover have "rc p3 = rc p" "bh p3 = (bh p)(r := None)"
    using st by (auto simp: rc_def bh_def fun_eq_iff reset_hash_def)
  moreover have "is_null (blk p3 x) = is_null (blk p x)" for x using st by (simp add: reset_hash_def)
  ultimately show ?thesis using ev p3(1,3) Some bid by simp
qed

lemma take_new_ok:
  assumes q: "queue_pend n (fbq p) xs (y # ys)" and c: "cache_ok n (store (fbq p)) (cached_block_hash_to_block p)"
  shows "\<exists>p'. take_new y p = Inr p' \<and> pool_static p' = pool_static p
    \<and> queue_pend n (fbq p') xs ys \<and> cache_ok n (store (fbq p')) (cached_block_hash_to_block p')
    \<and> rc p' = (rc p)(y := 1) \<and> bh p' = (if enable_caching p then (bh p)(y := None) else bh p)"
proof -
  have y: "y \<in> pool_refs n" "y \<notin> set xs" "y \<notin> set ys" and rc0: "rc p y = 0"
    using queue_pend_head[OF q] by (auto simp: rc_def)
  define p1 where "p1 = (if enable_caching p then snd (maybe_evict_cached_block y p) else p)"
  have p1: "pool_static p1 = pool_static p" "cache_ok n (store (fbq p1)) (cached_block_hash_to_block p1)"
    "queue_rel (fbq p1) xs" "rc p1 = rc p" "bh p1 = (if enable_caching p then (bh p)(y := None) else bh p)"
    "\<And>r. block_id (blk p1 r) = block_id (blk p r)" "\<And>r. is_null (blk p1 r) = is_null (blk p r)"
    using evict_ok[OF q c y(1)] c queue_pend_rel[OF q] unfolding p1_def by auto
  let ?p = "add_ref 1 y p1"
  have "take_new y p = Inr ?p"
    using rc0 fun_cong[OF p1(4), of y] by (simp add: take_new_def p1_def[symmetric] rc_def Let_def)
  moreover have "rc ?p = (rc p)(y := 1)" using p1(4) rc0 by simp
  moreover have rcp: "ref_cnt (blk ?p r) = (if r = y then 1 else ref_cnt (blk p r))" for r
    using fun_cong[OF p1(4), of r] rc0 by (auto simp: add_ref_def rc_def)
  moreover have "queue_pend n (fbq ?p) xs ys"
  proof (rule queue_pend_cong[OF q])
    show "ref_cnt (blk ?p r) \<ge> 0 \<and> (r \<in> set xs \<union> set ys \<longleftrightarrow> ref_cnt (blk ?p r) = 0)" if "r \<in> pool_refs n" for r
      using y queue_pend_rc[OF q that] by (auto simp: rcp)
  qed (use p1 q in \<open>auto simp: queue_pend_def\<close>)
  moreover have "cache_ok n (store (fbq ?p)) (cached_block_hash_to_block ?p)"
    using cache_ok_upd_cong[OF p1(2), of ?p] by simp
  ultimately show ?thesis using p1 by simp
qed

lemma take_news_ok:
  assumes "queue_pend n (fbq p) xs ys" "cache_ok n (store (fbq p)) (cached_block_hash_to_block p)"
  shows "\<exists>p'. for_each take_new ys p = Inr p' \<and> pool_static p' = pool_static p
    \<and> queue_ok n (fbq p') xs \<and> cache_ok n (store (fbq p')) (cached_block_hash_to_block p')
    \<and> (\<forall>r. rc p' r = rc p r + (if r \<in> set ys then 1 else 0))
    \<and> (\<forall>r. bh p' r = (if enable_caching p \<and> r \<in> set ys then None else bh p r))"
  using assms
proof (induction ys arbitrary: p)
  case Nil
  then show ?case by simp
next
  case (Cons y ys)
  have y: "rc p y = 0" "y \<notin> set ys" using queue_pend_head[OF Cons.prems(1)] by (auto simp: rc_def)
  obtain p1 where p1: "take_new y p = Inr p1" "pool_static p1 = pool_static p"
    "queue_pend n (fbq p1) xs ys" "cache_ok n (store (fbq p1)) (cached_block_hash_to_block p1)"
    "rc p1 = (rc p)(y := 1)" "bh p1 = (if enable_caching p then (bh p)(y := None) else bh p)"
    using take_new_ok[OF Cons.prems] by blast
  from Cons.IH[OF p1(3,4)] p1 y pool_staticD(2)[OF p1(2)] show ?case by auto
qed

lemma get_new_blocks_ok:
  assumes "pool_inv p xs" "n \<le> length xs"
  shows "\<exists>p'. get_new_blocks p n = Inr (take n xs, p') \<and> pool_inv p' (drop n xs) \<and> pool_static p' = pool_static p
    \<and> (\<forall>r. rc p' r = rc p r + (if r \<in> set (take n xs) then 1 else 0))
    \<and> (\<forall>r. bh p' r = (if enable_caching p \<and> r \<in> set (take n xs) then None else bh p r))"
proof -
  let ?n = "num_gpu_blocks p"
  have q: "queue_ok ?n (fbq p) xs" and c: "cache_ok ?n (store (fbq p)) (cached_block_hash_to_block p)"
    and nb: "null_block p = Blk 0" using assms(1) by (auto simp: pool_inv_def)
  have qr: "queue_rel (fbq p) xs" using q by (simp add: queue_pend_def)
  obtain q1 where q1: "popleft_n (fbq p) n = Inr (take n xs, q1)" "queue_rel q1 (drop n xs)" "payload q1 = payload (fbq p)"
    using fq.pop_n_ok[OF qr assms(2)] by blast
  let ?p = "p\<lparr>fbq := q1\<rparr>"
  have "distinct (take n xs @ drop n xs)" using q by (simp add: queue_pend_def)
  then have d: "distinct (drop n xs @ take n xs)" unfolding distinct_append by blast
  have d2: "set (drop n xs) \<union> set (take n xs) = set xs" by (metis Un_commute append_take_drop_id set_append)
  have "queue_pend ?n (fbq ?p) (drop n xs) (take n xs)"
    using q q1(2) d d2 payload_eqD[OF q1(3)] by (intro queue_pend_cong[OF q]) (auto simp: queue_pend_def)
  moreover have "cache_ok ?n (store (fbq ?p)) (cached_block_hash_to_block ?p)"
    using cache_ok_cong[OF c, of "store q1"] payload_eqD[OF q1(3)] by simp
  moreover have "rc ?p = rc p" "bh ?p = bh p" "enable_caching ?p = enable_caching p"
    using payload_eqD[OF q1(3)] by (auto simp: rc_def bh_def fun_eq_iff)
  ultimately obtain p' where p': "for_each take_new (take n xs) ?p = Inr p'" "pool_static p' = pool_static ?p"
    "queue_ok ?n (fbq p') (drop n xs)" "cache_ok ?n (store (fbq p')) (cached_block_hash_to_block p')"
    "\<forall>r. rc p' r = rc p r + (if r \<in> set (take n xs) then 1 else 0)"
    "\<forall>r. bh p' r = (if enable_caching p \<and> r \<in> set (take n xs) then None else bh p r)"
    using take_news_ok[of ?n ?p "drop n xs" "take n xs"] by auto
  have "int n \<le> get_num_free_blocks p" using qr assms(2) by (simp add: queue_rel_def get_num_free_blocks_def)
  then have "get_new_blocks p n = Inr (take n xs, p')" using q1(1) p'(1) by (simp add: get_new_blocks_def)
  moreover have "pool_inv p' (drop n xs)" using p' nb pool_staticD[of p' p] by (simp add: pool_inv_def)
  ultimately show ?thesis using p' by simp
qed

lemma get_new_blocks_fail: "pool_inv p xs \<Longrightarrow> length xs < n \<Longrightarrow> get_new_blocks p n = Inl ValueError"
  by (simp add: get_new_blocks_def pool_inv_def queue_pend_def queue_rel_def get_num_free_blocks_def)

section \<open>Touching and freeing\<close>

lemma pool_invD:
  assumes "pool_inv p xs"
  shows "queue_ok (num_gpu_blocks p) (fbq p) xs" "queue_rel (fbq p) xs"
    "cache_ok (num_gpu_blocks p) (store (fbq p)) (cached_block_hash_to_block p)" "null_block p = Blk 0"
    "num_gpu_blocks p > 0" "distinct xs" "set xs \<subseteq> pool_refs (num_gpu_blocks p)"
    "get_num_free_blocks p = int (length xs)"
  using assms by (auto simp: pool_inv_def queue_pend_def queue_rel_def get_num_free_blocks_def)

lemma pool_inv_rc:
  "pool_inv p xs \<Longrightarrow> r \<in> pool_refs (num_gpu_blocks p) \<Longrightarrow> rc p r \<ge> 0 \<and> (r \<in> set xs \<longleftrightarrow> rc p r = 0)"
  using queue_pend_rc[OF pool_invD(1)] by (fastforce simp: rc_def)

text \<open>An operation that changes reference counts and the free list, and nothing of the cache.\<close>

lemma pool_inv_rc_change:
  assumes inv: "pool_inv p xs" and st: "pool_static p' = pool_static p"
    and m: "cached_block_hash_to_block p' = cached_block_hash_to_block p"
    and bh: "bh p' = bh p" and id: "\<And>r. block_id (blk p' r) = block_id (blk p r)"
    and nul: "\<And>r. is_null (blk p' r) = is_null (blk p r)"
    and q: "queue_rel (fbq p') ys" and sub: "set ys \<subseteq> pool_refs (num_gpu_blocks p)"
    and rc: "\<And>r. r \<in> pool_refs (num_gpu_blocks p) \<Longrightarrow> rc p' r \<ge> 0 \<and> (r \<in> set ys \<longleftrightarrow> rc p' r = 0)"
  shows "pool_inv p' ys"
proof -
  have "queue_ok (num_gpu_blocks p) (fbq p') ys"
  proof (rule queue_pend_cong[OF pool_invD(1)[OF inv] q])
    show "distinct (ys @ [])" using q by (simp add: queue_rel_def)
  qed (use id nul sub rc in \<open>auto simp: rc_def\<close>)
  moreover have "cache_ok (num_gpu_blocks p) (store (fbq p')) (cached_block_hash_to_block p)"
    using cache_ok_upd_cong[OF pool_invD(3)[OF inv] id bh] .
  ultimately show ?thesis using pool_staticD[OF st] pool_invD(4)[OF inv] m by (simp add: pool_inv_def)
qed

lemma null_iff: "pool_inv p xs \<Longrightarrow> i < num_gpu_blocks p \<Longrightarrow> is_null (blk p (Blk i)) \<longleftrightarrow> i = 0"
  using pool_invD(1) by (fastforce simp: queue_pend_def)

definition in_pool :: "block_pool \<Rightarrow> block_ref \<Rightarrow> bool" where
  "in_pool p r \<longleftrightarrow> r = Blk 0 \<or> r \<in> pool_refs (num_gpu_blocks p)"

lemma in_pool_null_iff: "pool_inv p xs \<Longrightarrow> in_pool p r \<Longrightarrow> is_null (blk p r) \<longleftrightarrow> r = Blk 0"
  using null_iff[of p xs] pool_invD(5)[of p xs] by (auto simp: in_pool_def)

lemma touch_one_ok:
  assumes inv: "pool_inv p xs" and r: "in_pool p r"
  shows "\<exists>p'. touch_one r p = Inr p' \<and> pool_inv p' (removeAll r xs) \<and> pool_static p' = pool_static p
    \<and> rc p' = (rc p)(r := rc p r + 1) \<and> bh p' = bh p"
proof (cases "rc p r = 0 \<and> r \<noteq> Blk 0")
  case True
  then have rp: "r \<in> pool_refs (num_gpu_blocks p)" using r by (simp add: in_pool_def)
  then have rx: "r \<in> set xs" using pool_inv_rc[OF inv] True by blast
  obtain q where q: "remove_block (fbq p) r = Inr q" "queue_rel q (remove1 r xs)" "payload q = payload (fbq p)"
    using fq.del_ok[OF pool_invD(2)[OF inv] rx] by blast
  have ra: "remove1 r xs = removeAll r xs" using pool_invD(6)[OF inv] by (rule distinct_remove1_removeAll)
  let ?p = "add_ref 1 r (p\<lparr>fbq := q\<rparr>)"
  have v: "rc (p\<lparr>fbq := q\<rparr>) = rc p" "bh (p\<lparr>fbq := q\<rparr>) = bh p"
    using payload_eqD[OF q(3)] by (auto simp: rc_def bh_def fun_eq_iff)
  have "touch_one r p = Inr ?p"
    using q(1) True in_pool_null_iff[OF inv r] by (simp add: touch_one_def rc_def)
  moreover have "pool_inv ?p (removeAll r xs)"
  proof (rule pool_inv_rc_change[OF inv])
    show "rc ?p x \<ge> 0 \<and> (x \<in> set (removeAll r xs) \<longleftrightarrow> rc ?p x = 0)" if "x \<in> pool_refs (num_gpu_blocks p)" for x
      using pool_inv_rc[OF inv that] True by (auto simp: v)
    show "set (removeAll r xs) \<subseteq> pool_refs (num_gpu_blocks p)" using pool_invD(7)[OF inv] by auto
  qed (use q(2) ra v payload_eqD[OF q(3)] in simp_all)
  ultimately show ?thesis using v by simp
next
  case False
  let ?p = "add_ref 1 r p"
  have rx: "r \<notin> set xs"
    using False r pool_inv_rc[OF inv, of r] pool_invD(7)[OF inv] by (auto simp: in_pool_def)
  then have ra: "removeAll r xs = xs" by simp
  have "touch_one r p = Inr ?p"
    using False in_pool_null_iff[OF inv r] by (auto simp: touch_one_def rc_def)
  moreover have "pool_inv ?p xs"
  proof (rule pool_inv_rc_change[OF inv])
    show "rc ?p x \<ge> 0 \<and> (x \<in> set xs \<longleftrightarrow> rc ?p x = 0)" if "x \<in> pool_refs (num_gpu_blocks p)" for x
      using pool_inv_rc[OF inv that] that False by auto
  qed (use pool_invD[OF inv] in simp_all)
  ultimately show ?thesis using ra by simp
qed

lemma touch_blocks_ok:
  assumes "pool_inv p xs" "\<forall>r\<in>set bs. in_pool p r"
  shows "\<exists>p'. for_each touch_one bs p = Inr p' \<and> pool_inv p' (filter (\<lambda>r. r \<notin> set bs) xs)
    \<and> pool_static p' = pool_static p \<and> (\<forall>r. rc p' r = rc p r + int (count_list bs r)) \<and> bh p' = bh p"
  using assms
proof (induction bs arbitrary: p xs)
  case Nil
  then show ?case by simp
next
  case (Cons b bs)
  obtain p1 where p1: "touch_one b p = Inr p1" "pool_inv p1 (removeAll b xs)" "pool_static p1 = pool_static p"
      "rc p1 = (rc p)(b := rc p b + 1)" "bh p1 = bh p"
    using touch_one_ok[OF Cons.prems(1), of b] Cons.prems(2) by auto
  have "\<forall>r\<in>set bs. in_pool p1 r" using Cons.prems(2) pool_staticD(1)[OF p1(3)] by (simp add: in_pool_def)
  from Cons.IH[OF p1(2) this] obtain p2 where p2: "for_each touch_one bs p1 = Inr p2"
      "pool_inv p2 (filter (\<lambda>r. r \<notin> set bs) (removeAll b xs))" "pool_static p2 = pool_static p1"
      "\<forall>r. rc p2 r = rc p1 r + int (count_list bs r)" "bh p2 = bh p1" by blast
  have "filter (\<lambda>r. r \<notin> set bs) (removeAll b xs) = filter (\<lambda>r. r \<notin> set (b # bs)) xs"
    by (auto simp: removeAll_filter_not_eq intro: filter_cong)
  with p1 p2 show ?case by auto
qed

lemma for_each_concat: "for_each (for_each f) xss s = for_each f (concat xss) s"
  by (induction xss arbitrary: s) (auto simp: for_each_append bnd_def split: sum.splits)

lemma touch_ok:
  assumes "pool_inv p xs" "\<forall>r\<in>set (concat bss). in_pool p r"
  shows "\<exists>p'. touch p bss = Inr p' \<and> pool_inv p' (filter (\<lambda>r. r \<notin> set (concat bss)) xs)
    \<and> pool_static p' = pool_static p \<and> (\<forall>r. rc p' r = rc p r + int (count_list (concat bss) r)) \<and> bh p' = bh p"
  unfolding touch_def for_each_concat by (rule touch_blocks_ok[OF assms])

lemma fold_add_ref:
  "rc (fold (add_ref d) bs p) = (\<lambda>r. rc p r + d * int (count_list bs r))"
  "bh (fold (add_ref d) bs p) = bh p" "pool_static (fold (add_ref d) bs p) = pool_static p"
  "cached_block_hash_to_block (fold (add_ref d) bs p) = cached_block_hash_to_block p"
  "queue_rel (fbq (fold (add_ref d) bs p)) xs \<longleftrightarrow> queue_rel (fbq p) xs"
  "is_null (blk (fold (add_ref d) bs p) x) = is_null (blk p x)"
  "block_id (blk (fold (add_ref d) bs p) x) = block_id (blk p x)"
  by (induction bs arbitrary: p) (auto simp: fun_eq_iff algebra_simps)

lemma free_blocks_ok:
  assumes inv: "pool_inv p xs" and bs: "\<forall>r\<in>set bs. in_pool p r"
    and d: "distinct (filter (\<lambda>r. r \<noteq> Blk 0) bs)"
    and held: "\<forall>r\<in>set bs. r \<noteq> Blk 0 \<longrightarrow> rc p r > 0"
  shows "\<exists>p'. free_blocks p bs = Inr p'
    \<and> pool_inv p' (xs @ filter (\<lambda>r. r \<noteq> Blk 0 \<and> rc p r = 1) bs) \<and> pool_static p' = pool_static p
    \<and> (\<forall>r. rc p' r = rc p r - int (count_list bs r)) \<and> bh p' = bh p"
proof -
  define p1 where "p1 = fold (add_ref (-1)) bs p"
  let ?n = "num_gpu_blocks p" and ?ys = "filter (\<lambda>r. r \<noteq> Blk 0 \<and> rc p r = 1) bs"
  have p1: "rc p1 = (\<lambda>r. rc p r - int (count_list bs r))" "bh p1 = bh p" "pool_static p1 = pool_static p"
      "cached_block_hash_to_block p1 = cached_block_hash_to_block p" "queue_rel (fbq p1) xs"
      "\<And>x. is_null (blk p1 x) = is_null (blk p x)" "\<And>x. block_id (blk p1 x) = block_id (blk p x)"
    using pool_invD(2)[OF inv] by (simp_all add: p1_def fold_add_ref)
  have cnt: "count_list bs r = (if r \<in> set bs then 1 else 0)" if "r \<noteq> Blk 0" for r
  proof -
    have "count_list bs r = count_list (filter (\<lambda>r. r \<noteq> Blk 0) bs) r"
      using that by (induction bs) auto
    also have "\<dots> = (if r \<in> set (filter (\<lambda>r. r \<noteq> Blk 0) bs) then 1 else 0)"
      using d by (simp add: count_list_distinct)
    finally show ?thesis using that by simp
  qed
  have feq: "filter (\<lambda>r. ref_cnt (blk p1 r) = 0 \<and> \<not> is_null (blk p1 r)) bs = ?ys"
  proof (rule filter_cong[OF refl])
    fix r assume r: "r \<in> set bs"
    show "(ref_cnt (blk p1 r) = 0 \<and> \<not> is_null (blk p1 r)) = (r \<noteq> Blk 0 \<and> rc p r = 1)"
      using in_pool_null_iff[OF inv, of r] bs r p1(6) cnt[of r] fun_cong[OF p1(1), of r] by (auto simp: rc_def)
  qed
  have yx: "\<forall>y\<in>set ?ys. y \<in> pool_refs ?n \<and> y \<notin> set xs"
    using bs pool_inv_rc[OF inv] by (auto simp: in_pool_def)
  then have yb: "\<forall>y\<in>set ?ys. is_blk y \<and> y \<notin> set xs" by (auto elim!: pool_refsE)
  have "?ys = filter (\<lambda>r. rc p r = 1) (filter (\<lambda>r. r \<noteq> Blk 0) bs)" by (simp add: conj_commute)
  then have yd: "distinct ?ys" using d by (metis distinct_filter)
  obtain q where q: "append_n (fbq p1) ?ys = Inr q" "queue_rel q (xs @ ?ys)" "payload q = payload (fbq p1)"
    using fq.put_n_ok[OF p1(5) yb yd] by blast
  let ?p = "p1\<lparr>fbq := q\<rparr>"
  have v: "rc ?p = rc p1" "bh ?p = bh p1"
    using payload_eqD[OF q(3)] by (auto simp: rc_def bh_def fun_eq_iff)
  have "pool_inv ?p (xs @ ?ys)"
  proof (rule pool_inv_rc_change[OF inv])
    show "rc ?p x \<ge> 0 \<and> (x \<in> set (xs @ ?ys) \<longleftrightarrow> rc ?p x = 0)" if "x \<in> pool_refs ?n" for x
    proof -
      have "x \<noteq> Blk 0" using that by auto
      with pool_inv_rc[OF inv that] held cnt[of x] show ?thesis by (auto simp: v p1(1))
    qed
    show "set (xs @ ?ys) \<subseteq> pool_refs ?n" using pool_invD(7)[OF inv] yx by auto
  qed (use p1 q(2) v payload_eqD[OF q(3)] in simp_all)
  moreover have "free_blocks p bs = Inr ?p" using q(1) feq by (simp add: free_blocks_def Let_def p1_def)
  ultimately show ?thesis using v p1 by auto
qed

section \<open>Caching full blocks\<close>

lemma cache_one_ok:
  assumes inv: "pool_inv p xs" and r: "r \<in> pool_refs (num_gpu_blocks p)" and none: "bh p r = None"
    and k: "make_block_hash_with_group_id h gid = Inr key"
  shows "\<exists>p' hs'. cache_one gid (r, h) (p, hs) = Inr (p', hs') \<and> pool_inv p' xs \<and> pool_static p' = pool_static p
    \<and> rc p' = rc p \<and> bh p' = (bh p)(r := Some key)"
proof -
  let ?n = "num_gpu_blocks p" and ?m = "cached_block_hash_to_block p" and ?st = "store (fbq p)"
  define p1 where "p1 = upd_blk r (\<lambda>_. (?st r)\<lparr>block_hash := Some key\<rparr>) p"
  let ?m' = "map_insert (store (fbq p1)) ?m key r"
  let ?p = "p1\<lparr>cached_block_hash_to_block := ?m'\<rparr>"
  have st1: "store (fbq p1) x = (if x = r then (?st r)\<lparr>block_hash := Some key\<rparr> else ?st x)" for x
    by (simp add: p1_def)
  have id: "block_id (store (fbq p1) x) = block_id (?st x)" "is_null (store (fbq p1) x) = is_null (?st x)"
    "ref_cnt (store (fbq p1) x) = ref_cnt (?st x)" for x by (simp_all add: st1)
  have eo: "entry_ok (store (fbq p1)) e = entry_ok ?st e" for e using id(1) by (cases e) auto
  have c: "cache_ok ?n ?st ?m" and q: "queue_ok ?n (fbq p) xs" using pool_invD[OF inv] by auto
  have inj: "b = r" if "in_cache ?m key b" "block_id (store (fbq p1) b) = block_id (store (fbq p1) r)" for b
    using that c r by (intro ids_inj[OF q]) (auto simp: cache_ok_def id)
  have ok: "entry_ok (store (fbq p1)) e" if "?m k = Some e" for k e using c that by (simp add: cache_ok_def eo)
  have ok': "\<forall>e. ?m key = Some e \<longrightarrow> entry_ok (store (fbq p1)) e"
    and inj': "\<forall>b. in_cache ?m key b \<longrightarrow> block_id (store (fbq p1) b) = block_id (store (fbq p1) r) \<longrightarrow> b = r"
    using ok inj by blast+
  note ins = map_insert_ok[OF ok' inj']
  have "cache_ok ?n (store (fbq p1)) ?m'"
    unfolding cache_ok_def
  proof (intro conjI allI impI)
    show "entry_ok (store (fbq p1)) e" if "?m' k = Some e" for k e
      using ins(2)[OF that] ins(3)[of e] that ok by (cases "k = key") auto
    show "in_cache ?m' k x \<longleftrightarrow> x \<in> pool_refs ?n \<and> block_hash (store (fbq p1) x) = Some k" for k x
      unfolding ins(1) using c r none by (auto simp: cache_ok_def st1 bh_def)
    show "block_hash (store (fbq p1) (Blk 0)) = None" using c r by (auto simp: st1 cache_ok_def)
  qed
  moreover have "queue_rel (fbq p1) xs"
  proof -
    have "next_of (fbq p1) x = next_of (fbq p) x \<and> prev_of (fbq p1) x = prev_of (fbq p) x" for x by (simp add: st1)
    moreover have "chain (store (fbq p1)) ns \<longleftrightarrow> chain ?st ns" for ns
      using calculation by (intro chain_frame) auto
    moreover have "num_free_blocks (fbq p1) = num_free_blocks (fbq p)" by (simp add: p1_def)
    ultimately show ?thesis using pool_invD(2)[OF inv] by (simp add: queue_rel_def)
  qed
  then have "queue_ok ?n (fbq p1) xs"
    using q id by (intro queue_pend_cong[OF q]) (auto simp: queue_pend_def)
  ultimately have "pool_inv ?p xs"
    using pool_invD(4)[OF inv] by (simp add: pool_inv_def p1_def)
  moreover have "rc ?p = rc p" "bh ?p = (bh p)(r := Some key)" "pool_static ?p = pool_static p"
    by (auto simp: rc_def bh_def fun_eq_iff st1 p1_def)
  moreover have "\<exists>hs'. cache_one gid (r, h) (p, hs) = Inr (?p, hs')"
    using none k by (simp add: cache_one_def bh_def set_block_hash_def Let_def p1_def)
  ultimately show ?thesis by blast
qed

lemma make_key:
  assumes "0 \<le> g" "g < 2 ^ 32"
  obtains gb where "\<And>h. make_block_hash_with_group_id h g = Inr (h @ gb)" "length gb = 4"
proof -
  obtain gb where "to_bytes4 g = Inr gb" using assms by (simp add: to_bytes4_def)
  with to_bytes4_inverse(1)[OF this] that show ?thesis by (auto simp: make_block_hash_with_group_id_def)
qed

lemma cache_loop_ok:
  assumes inv: "pool_inv p xs" and gb: "\<And>h. make_block_hash_with_group_id h gid = Inr (h @ gb)"
    and nb: "distinct nb" "\<forall>r\<in>set nb. r \<in> pool_refs (num_gpu_blocks p) \<and> bh p r = None"
    and k: "k \<le> length nb" "length nb \<le> length hs"
  shows "\<exists>p' es. for_each (\<lambda>i s. bnd (index_py hs i) (\<lambda>h. cache_one gid (nb ! i, h) s)) [0..<k] (p, []) = Inr (p', es)
    \<and> pool_inv p' xs \<and> pool_static p' = pool_static p \<and> rc p' = rc p
    \<and> (\<forall>i<k. bh p' (nb ! i) = Some (hs ! i @ gb)) \<and> (\<forall>r. r \<notin> set (take k nb) \<longrightarrow> bh p' r = bh p r)"
  using k(1)
proof (induction k)
  case 0
  with inv show ?case by simp
next
  case (Suc k)
  then obtain p1 es where p1: "for_each (\<lambda>i s. bnd (index_py hs i) (\<lambda>h. cache_one gid (nb ! i, h) s)) [0..<k] (p, []) = Inr (p1, es)"
    "pool_inv p1 xs" "pool_static p1 = pool_static p" "rc p1 = rc p"
    "\<forall>i<k. bh p1 (nb ! i) = Some (hs ! i @ gb)" "\<forall>r. r \<notin> set (take k nb) \<longrightarrow> bh p1 r = bh p r"
    by auto
  have kn: "nb ! k \<notin> set (take k nb)" "\<And>i. i < k \<Longrightarrow> nb ! i \<noteq> nb ! k"
    using nb(1) Suc.prems by (auto simp: in_set_conv_nth nth_eq_iff_index_eq)
  have "nb ! k \<in> pool_refs (num_gpu_blocks p1)" "bh p1 (nb ! k) = None"
    using nb(2) Suc.prems p1(6) kn pool_staticD(1)[OF p1(3)] by simp_all
  from cache_one_ok[OF p1(2) this gb[of "hs ! k"]] obtain p2 es2 where p2: "cache_one gid (nb ! k, hs ! k) (p1, es) = Inr (p2, es2)"
    "pool_inv p2 xs" "pool_static p2 = pool_static p1" "rc p2 = rc p1" "bh p2 = (bh p1)(nb ! k := Some (hs ! k @ gb))"
    by blast
  have "k < length hs" using Suc.prems k(2) by simp
  then show ?case
    using p1 p2 kn Suc.prems by (auto simp: for_each_append index_py_def take_Suc_conv_app_nth less_Suc_eq)
qed

text \<open>Caching requires new full blocks that carry no hash, hashes for all full blocks, and, when
  events are on, a request without a LoRA adapter and a cached parent block.\<close>

definition cacheable :: "block_pool \<Rightarrow> request \<Rightarrow> block_ref list \<Rightarrow> nat \<Rightarrow> nat \<Rightarrow> int \<Rightarrow> bool" where
  "cacheable p req blocks nc nf gid \<longleftrightarrow> nc \<le> nf \<and> nf \<le> length blocks \<and> nf \<le> length (block_hashes req)
     \<and> 0 \<le> gid \<and> gid < 2 ^ 32 \<and> distinct (drop nc (take nf blocks))
     \<and> (\<forall>r\<in>set (drop nc (take nf blocks)). r \<in> pool_refs (num_gpu_blocks p) \<and> bh p r = None)
     \<and> (enable_kv_cache_events p \<longrightarrow> lora_request req = None \<and> (nc = 0 \<or> bh p (blocks ! (nc - 1)) \<noteq> None))"

lemma pool_inv_events [simp]: "pool_inv (p\<lparr>kv_event_queue := es\<rparr>) xs = pool_inv p xs"
  by (simp add: pool_inv_def)

lemma rc_bh_events [simp]: "rc (p\<lparr>kv_event_queue := es\<rparr>) = rc p" "bh (p\<lparr>kv_event_queue := es\<rparr>) = bh p"
  by (simp_all add: rc_def bh_def fun_eq_iff)

lemma stored_event_ok:
  assumes "lora_request req = None" "nc = 0 \<or> nc \<le> length blocks \<and> bh p (blocks ! (nc - 1)) \<noteq> None"
  shows "\<exists>es. stored_event p req blocks nc nf bs hs = Inr (p\<lparr>kv_event_queue := es\<rparr>)"
  using assms by (cases "nc = 0") (auto simp: stored_event_def bh_def index_py_def)

lemma cache_full_blocks_ok:
  assumes inv: "pool_inv p xs" and c: "cacheable p req blocks nc nf gid"
  shows "\<exists>p'. cache_full_blocks p req blocks nc nf bs gid = Inr p' \<and> pool_inv p' xs
    \<and> pool_static p' = pool_static p \<and> rc p' = rc p
    \<and> (\<forall>i. nc \<le> i \<and> i < nf \<longrightarrow>
         make_block_hash_with_group_id (block_hashes req ! i) gid = Inr (the (bh p' (blocks ! i))) \<and> bh p' (blocks ! i) \<noteq> None)
    \<and> (\<forall>r. r \<notin> set (drop nc (take nf blocks)) \<longrightarrow> bh p' r = bh p r)"
proof (cases "nc = nf")
  case True
  with inv show ?thesis by (auto simp: cache_full_blocks_def)
next
  case False
  let ?nb = "take (nf - nc) (drop nc blocks)" and ?hs = "drop nc (block_hashes req)"
  have nbeq: "?nb = drop nc (take nf blocks)" by (simp add: drop_take)
  have le: "nc \<le> nf" "nf \<le> length blocks" "nf \<le> length (block_hashes req)" "0 \<le> gid" "gid < 2 ^ 32"
    using c by (simp_all add: cacheable_def)
  obtain gb where gb: "\<And>h. make_block_hash_with_group_id h gid = Inr (h @ gb)" using make_key[OF le(4,5)] by metis
  have l: "length ?nb = nf - nc" "length ?nb \<le> length ?hs" using le by simp_all
  have "distinct ?nb" "\<forall>r\<in>set ?nb. r \<in> pool_refs (num_gpu_blocks p) \<and> bh p r = None"
    using c unfolding nbeq cacheable_def by blast+
  from cache_loop_ok[OF inv gb this order_refl l(2)] obtain p1 es where
    p1: "for_each (\<lambda>i s. bnd (index_py ?hs i) (\<lambda>h. cache_one gid (?nb ! i, h) s)) [0..<length ?nb] (p, []) = Inr (p1, es)"
    "pool_inv p1 xs" "pool_static p1 = pool_static p" "rc p1 = rc p"
    "\<forall>i<length ?nb. bh p1 (?nb ! i) = Some (?hs ! i @ gb)" "\<forall>r. r \<notin> set (take (length ?nb) ?nb) \<longrightarrow> bh p1 r = bh p r"
    by blast
  have key: "bh p1 (blocks ! i) = Some (block_hashes req ! i @ gb)" if "nc \<le> i" "i < nf" for i
    using p1(5)[rule_format, of "i - nc"] that le by (simp add: l)
  have oth: "bh p1 r = bh p r" if "r \<notin> set (drop nc (take nf blocks))" for r
    using p1(6) that unfolding nbeq by simp
  have par: "nc = 0 \<or> bh p1 (blocks ! (nc - 1)) \<noteq> None" if "enable_kv_cache_events p"
  proof (cases "nc = 0 \<or> blocks ! (nc - 1) \<notin> set (drop nc (take nf blocks))")
    case True
    with c that oth show ?thesis by (auto simp: cacheable_def)
  next
    case False
    then obtain j where "j < length ?nb" "blocks ! (nc - 1) = ?nb ! j" unfolding nbeq[symmetric] by (auto simp: in_set_conv_nth)
    with p1(5) show ?thesis by simp
  qed
  obtain p2 es' where p2: "p2 = p1\<lparr>kv_event_queue := es'\<rparr>"
    "(if enable_kv_cache_events p1 then stored_event p1 req blocks nc nf bs es else Inr p1) = Inr p2"
  proof (cases "enable_kv_cache_events p")
    case True
    then have "\<exists>es'. stored_event p1 req blocks nc nf bs es = Inr (p1\<lparr>kv_event_queue := es'\<rparr>)"
      using c par le by (intro stored_event_ok) (auto simp: cacheable_def)
    with True pool_staticD(4)[OF p1(3)] that show ?thesis by auto
  next
    case False
    with pool_staticD(4)[OF p1(3)] that[of p1 "kv_event_queue p1"] show ?thesis by simp
  qed
  have "cache_full_blocks p req blocks nc nf bs gid = Inr p2"
    using False le p1(1) p2(2) by (simp add: cache_full_blocks_def Let_def)
  then show ?thesis using p1 key oth gb by (simp add: p2(1))
qed

section \<open>Construction and reset\<close>

lemma init_payload:
  assumes "blank_links st" "distinct bs" "list_all is_blk bs" "bs \<noteq> []" "is_blk r"
  shows "payload (init_queue st bs) r = payload \<lparr>store = st, num_free_blocks = 0\<rparr> r"
  using init_links(9)[OF assms(1-4)] assms(5) by blast

lemma pool_init_ok:
  assumes "n > 0"
  shows "\<exists>p. pool_init n c e u = Inr p \<and> pool_inv p (map Blk [1..<n])
    \<and> pool_static p = (n, c, Blk 0, e, u) \<and> (\<forall>r. is_blk r \<longrightarrow> rc p r = 0 \<and> bh p r = None)"
proof -
  let ?bs = "map Blk [0..<n]"
  have bs: "?bs = Blk 0 # map Blk [1..<n]" using assms by (simp add: upt_conv_Cons)
  have pre: "blank_links initial_store" "distinct ?bs" "list_all is_blk ?bs" "?bs \<noteq> []"
    using assms by (auto simp: blank_links_def initial_store_def new_block_def distinct_map inj_on_def list_all_iff
        split: block_ref.splits)
  obtain q where q: "popleft (init_queue initial_store ?bs) = Inr (Blk 0, q)" "queue_rel q (map Blk [1..<n])"
      "payload q = payload (init_queue initial_store ?bs)"
    using fq.pop_Cons[of "init_queue initial_store ?bs" "Blk 0" "map Blk [1..<n]"] init_queue_rel[OF pre(1-3)]
    unfolding bs by blast
  have pl: "block_id (store q (Blk i)) = int i" "ref_cnt (store q (Blk i)) = 0" "block_hash (store q (Blk i)) = None"
    "\<not> is_null (store q (Blk i))" for i
    using init_payload[OF pre, of "Blk i"] fun_cong[OF q(3), of "Blk i"]
    by (simp_all add: payload_def Let_def initial_store_def new_block_def)
  define p where "p = upd_blk (Blk 0) (is_null_update (\<lambda>_. True))
            \<lparr>num_gpu_blocks = n, enable_caching = c, fbq = q,
             cached_block_hash_to_block = Map.empty, null_block = Blk 0,
             enable_kv_cache_events = e, kv_event_queue = [], use_int_block_hashes = u\<rparr>"
  have v: "store (fbq p) (Blk i) = (if i = 0 then (store q (Blk 0))\<lparr>is_null := True\<rparr> else store q (Blk i))" for i
    by (simp add: p_def)
  have "queue_rel (fbq p) (map Blk [1..<n])" unfolding p_def using q(2) by (subst queue_rel_upd_blk) simp_all
  then have "queue_ok n (fbq p) (map Blk [1..<n])"
    using assms by (auto simp: queue_pend_def v pl distinct_map inj_on_def elim!: pool_refsE)
  moreover have "cache_ok n (store (fbq p)) Map.empty"
    by (auto simp: cache_ok_def in_cache_def v pl elim!: pool_refsE)
  ultimately have "pool_inv p (map Blk [1..<n])" by (simp add: pool_inv_def p_def)
  moreover have "pool_init n c e u = Inr p" using assms q(1) by (simp add: pool_init_def p_def)
  moreover have "rc p r = 0 \<and> bh p r = None" if "is_blk r" for r
    using that pl by (cases r) (auto simp: rc_def bh_def v)
  ultimately show ?thesis by (auto simp: pool_static_def p_def)
qed

lemma queue_rel_reset_hash [simp]: "queue_rel (fbq (upd_blk r reset_hash p)) xs = queue_rel (fbq p) xs"
  by (rule queue_rel_upd_blk) (simp_all add: reset_hash_def)

lemma fold_reset_hash:
  "rc (fold (\<lambda>r. upd_blk r reset_hash) bs p) = rc p"
  "bh (fold (\<lambda>r. upd_blk r reset_hash) bs p) r = (if r \<in> set bs then None else bh p r)"
  "pool_static (fold (\<lambda>r. upd_blk r reset_hash) bs p) = pool_static p"
  "cached_block_hash_to_block (fold (\<lambda>r. upd_blk r reset_hash) bs p) = cached_block_hash_to_block p"
  "queue_rel (fbq (fold (\<lambda>r. upd_blk r reset_hash) bs p)) xs \<longleftrightarrow> queue_rel (fbq p) xs"
  "is_null (blk (fold (\<lambda>r. upd_blk r reset_hash) bs p) x) = is_null (blk p x)"
  "block_id (blk (fold (\<lambda>r. upd_blk r reset_hash) bs p) x) = block_id (blk p x)"
  by (induction bs arbitrary: p)
    (auto simp: rc_def bh_def reset_hash_def fun_eq_iff simp del: upd_blk_simps(1) simp: upd_blk_simps(1))

lemma reset_prefix_cache_ok:
  assumes inv: "pool_inv p xs"
  shows "if \<forall>r\<in>pool_refs (num_gpu_blocks p). rc p r = 0
    then \<exists>p'. reset_prefix_cache p = (True, p') \<and> pool_inv p' xs \<and> cached_block_hash_to_block p' = Map.empty
       \<and> rc p' = rc p \<and> pool_static p' = pool_static p \<and> (\<forall>r\<in>set (pool_blocks p). bh p' r = None)
    else reset_prefix_cache p = (False, p)"
proof -
  let ?n = "num_gpu_blocks p"
  have card: "card (pool_refs ?n) = ?n - 1" "finite (pool_refs ?n)"
    by (simp_all add: pool_refs_def card_image inj_on_def)
  have sub: "set xs \<subseteq> pool_refs ?n" and d: "distinct xs" and n0: "?n > 0" using pool_invD[OF inv] by auto
  have "(\<forall>r\<in>pool_refs ?n. rc p r = 0) \<longleftrightarrow> set xs = pool_refs ?n"
    using sub pool_inv_rc[OF inv] by blast
  also have "\<dots> \<longleftrightarrow> length xs = ?n - 1"
    using card_subset_eq[OF card(2) sub] card(1) distinct_card[OF d] by metis
  also have "\<dots> \<longleftrightarrow> int ?n - get_num_free_blocks p = 1"
    using pool_invD(8)[OF inv] n0 by auto
  finally have iff: "(\<forall>r\<in>pool_refs ?n. rc p r = 0) \<longleftrightarrow> int ?n - get_num_free_blocks p = 1" .
  let ?p1 = "p\<lparr>cached_block_hash_to_block := Map.empty\<rparr>"
  define p2 where "p2 = fold (\<lambda>r. upd_blk r reset_hash) (pool_blocks ?p1) ?p1"
  have pb: "set (pool_blocks ?p1) = set (pool_blocks p)" "pool_refs ?n \<subseteq> set (pool_blocks p)" "Blk 0 \<in> set (pool_blocks p)"
    using n0 by (auto simp: pool_blocks_def elim!: pool_refsE)
  have v1: "rc ?p1 = rc p" "bh ?p1 = bh p" by (simp_all add: rc_def bh_def fun_eq_iff)
  have p2: "rc p2 = rc p" "\<And>r. bh p2 r = (if r \<in> set (pool_blocks p) then None else bh p r)"
      "pool_static p2 = pool_static p" "cached_block_hash_to_block p2 = Map.empty" "queue_rel (fbq p2) xs"
      "\<And>r. is_null (blk p2 r) = is_null (blk p r)" "\<And>r. block_id (blk p2 r) = block_id (blk p r)"
    using pool_invD(2)[OF inv] by (simp_all add: p2_def fold_reset_hash v1 pb(1))
  have "queue_ok ?n (fbq p2) xs"
    using pool_invD(6,7)[OF inv] p2 pool_inv_rc[OF inv]
    by (intro queue_pend_cong[OF pool_invD(1)[OF inv]]) (auto simp: rc_def fun_eq_iff)
  moreover have "cache_ok ?n (store (fbq p2)) Map.empty"
    using p2(2) pb by (auto simp: cache_ok_def in_cache_def bh_def)
  ultimately have "pool_inv p2 xs"
    using pool_staticD[OF p2(3)] p2(4) pool_invD(4)[OF inv] by (simp add: pool_inv_def)
  with p2 iff show ?thesis
    by (auto simp: reset_prefix_cache_def Let_def p2_def[symmetric])
qed

lemma get_usage_bounds:
  assumes "pool_inv p xs"
  shows "0 \<le> get_usage p \<and> get_usage p \<le> 1"
proof -
  have "length xs = card (set xs)" using pool_invD(6)[OF assms] by (simp add: distinct_card)
  also have "\<dots> \<le> card (pool_refs (num_gpu_blocks p))"
    using pool_invD(7)[OF assms] by (intro card_mono) (auto simp: pool_refs_def)
  also have "\<dots> = num_gpu_blocks p - 1" by (simp add: pool_refs_def card_image inj_on_def)
  finally have "int (length xs) \<le> int (num_gpu_blocks p) - 1" using pool_invD(5)[OF assms] by linarith
  then show ?thesis
    using pool_invD(8)[OF assms] by (auto simp: get_usage_def Let_def divide_le_eq_1 zero_le_divide_iff)
qed

section \<open>Lookup\<close>

lemma get_one_block_ok:
  assumes inv: "pool_inv p xs"
  shows "\<exists>b. get_one_block (cached_block_hash_to_block p) key = Inr b
    \<and> (case b of Some r \<Rightarrow> r \<in> pool_refs (num_gpu_blocks p) \<and> bh p r = Some key
       | None \<Rightarrow> \<forall>r\<in>pool_refs (num_gpu_blocks p). bh p r \<noteq> Some key)"
proof -
  let ?m = "cached_block_hash_to_block p"
  have ic: "in_cache ?m key r \<longleftrightarrow> r \<in> pool_refs (num_gpu_blocks p) \<and> bh p r = Some key" for r
    using pool_invD(3)[OF inv] by (simp add: cache_ok_def bh_def)
  show ?thesis
  proof (cases "?m key")
    case None
    then have "\<not> in_cache ?m key r" for r by (simp add: in_cache_def)
    with None ic show ?thesis by (auto simp: get_one_block_def)
  next
    case (Some e)
    then have "entry_ok (store (fbq p)) e" using pool_invD(3)[OF inv] by (simp add: cache_ok_def)
    then obtain r rs where "entry_refs e = r # rs" by (cases e; cases "entry_refs e") auto
    then have "get_one_block ?m key = Inr (Some r)" "in_cache ?m key r"
      using Some by (cases e; auto simp: get_one_block_def in_cache_def split: list.splits)+
    with ic show ?thesis by auto
  qed
qed

lemma get_cached_block_ok:
  assumes inv: "pool_inv p xs" and "\<forall>g\<in>set gs. 0 \<le> g \<and> g < 2 ^ 32"
  shows "\<exists>res. get_cached_block p h gs = Inr res
    \<and> (case res of
         Some bs \<Rightarrow> list_all2 (\<lambda>g r. r \<in> pool_refs (num_gpu_blocks p)
                      \<and> (\<exists>key. make_block_hash_with_group_id h g = Inr key \<and> bh p r = Some key)) gs bs
       | None \<Rightarrow> \<exists>g\<in>set gs. \<exists>key. make_block_hash_with_group_id h g = Inr key
                      \<and> (\<forall>r\<in>pool_refs (num_gpu_blocks p). bh p r \<noteq> Some key))"
  using assms(2)
proof (induction gs)
  case (Cons g gs)
  obtain key where key: "make_block_hash_with_group_id h g = Inr key"
    using Cons.prems make_block_hash_total[of h g] by auto
  obtain b where b: "get_one_block (cached_block_hash_to_block p) key = Inr b"
    "case b of Some r \<Rightarrow> r \<in> pool_refs (num_gpu_blocks p) \<and> bh p r = Some key
       | None \<Rightarrow> \<forall>r\<in>pool_refs (num_gpu_blocks p). bh p r \<noteq> Some key"
    using get_one_block_ok[OF inv] by blast
  obtain res where res: "get_cached_block p h gs = Inr res" "case res of
         Some bs \<Rightarrow> list_all2 (\<lambda>g r. r \<in> pool_refs (num_gpu_blocks p)
                      \<and> (\<exists>key. make_block_hash_with_group_id h g = Inr key \<and> bh p r = Some key)) gs bs
       | None \<Rightarrow> \<exists>g\<in>set gs. \<exists>key. make_block_hash_with_group_id h g = Inr key
                      \<and> (\<forall>r\<in>pool_refs (num_gpu_blocks p). bh p r \<noteq> Some key)"
    using Cons by auto
  show ?case using key b res by (cases b; cases res) auto
qed simp

section \<open>The allocator contract\<close>

locale block_allocator =
  fixes inv :: "'p \<Rightarrow> 'b list \<Rightarrow> bool"
    and refs :: "'p \<Rightarrow> 'b \<Rightarrow> int"
    and valid :: "'p \<Rightarrow> 'b \<Rightarrow> bool"
    and null :: 'b
    and alloc :: "'p \<Rightarrow> nat \<Rightarrow> ('b list \<times> 'p) result"
    and acquire :: "'p \<Rightarrow> 'b list list \<Rightarrow> 'p result"
    and release :: "'p \<Rightarrow> 'b list \<Rightarrow> 'p result"
  assumes inv_distinct: "inv p xs \<Longrightarrow> distinct xs"
    and inv_free: "inv p xs \<Longrightarrow> x \<in> set xs \<Longrightarrow> valid p x \<and> x \<noteq> null \<and> refs p x = 0"
    and inv_refs: "inv p xs \<Longrightarrow> valid p x \<Longrightarrow> x \<noteq> null \<Longrightarrow> refs p x \<ge> 0 \<and> (x \<in> set xs \<longleftrightarrow> refs p x = 0)"
    and alloc_ok: "inv p xs \<Longrightarrow> n \<le> length xs \<Longrightarrow> \<exists>p'. alloc p n = Inr (take n xs, p') \<and> inv p' (drop n xs)
        \<and> valid p' = valid p \<and> (\<forall>r. refs p' r = refs p r + (if r \<in> set (take n xs) then 1 else 0))"
    and alloc_fail: "inv p xs \<Longrightarrow> length xs < n \<Longrightarrow> alloc p n = Inl ValueError"
    and acquire_ok: "inv p xs \<Longrightarrow> \<forall>r\<in>set (concat bss). valid p r \<Longrightarrow>
        \<exists>p'. acquire p bss = Inr p' \<and> inv p' (filter (\<lambda>r. r \<notin> set (concat bss)) xs)
        \<and> valid p' = valid p \<and> (\<forall>r. refs p' r = refs p r + int (count_list (concat bss) r))"
    and release_ok: "inv p xs \<Longrightarrow> \<forall>r\<in>set bs. valid p r \<Longrightarrow> distinct (filter (\<lambda>r. r \<noteq> null) bs) \<Longrightarrow>
        \<forall>r\<in>set bs. r \<noteq> null \<longrightarrow> refs p r > 0 \<Longrightarrow>
        \<exists>p'. release p bs = Inr p' \<and> inv p' (xs @ filter (\<lambda>r. r \<noteq> null \<and> refs p r = 1) bs)
        \<and> valid p' = valid p \<and> (\<forall>r. refs p' r = refs p r - int (count_list bs r))"
begin

text \<open>The reference counts determine which blocks are free.\<close>

lemma inv_set: "inv p xs \<Longrightarrow> set xs = {x. valid p x \<and> x \<noteq> null \<and> refs p x = 0}"
  using inv_free inv_refs by blast

text \<open>Blocks that are allocated and released again go back to the end of the free list.\<close>

lemma alloc_release:
  assumes "inv p xs" "n \<le> length xs"
  shows "\<exists>p1 p2. alloc p n = Inr (take n xs, p1) \<and> release p1 (rev (take n xs)) = Inr p2
    \<and> inv p2 (drop n xs @ rev (take n xs)) \<and> refs p2 = refs p"
proof -
  let ?t = "take n xs"
  obtain p1 where p1: "alloc p n = Inr (?t, p1)" "inv p1 (drop n xs)" "valid p1 = valid p"
    "\<forall>r. refs p1 r = refs p r + (if r \<in> set ?t then 1 else 0)"
    using alloc_ok[OF assms] by blast
  have d: "distinct ?t" using inv_distinct[OF assms(1)] by simp
  have free: "valid p x \<and> x \<noteq> null \<and> refs p x = 0" if "x \<in> set ?t" for x
    using inv_free[OF assms(1) in_set_takeD[OF that]] .
  have f: "filter (\<lambda>r. r \<noteq> null \<and> refs p1 r = 1) (rev ?t) = rev ?t" "distinct (filter (\<lambda>r. r \<noteq> null) (rev ?t))"
    using free p1(4) d by (simp_all add: filter_id_conv)
  obtain p2 where p2: "release p1 (rev ?t) = Inr p2" "inv p2 (drop n xs @ rev ?t)"
    "\<forall>r. refs p2 r = refs p1 r - int (count_list (rev ?t) r)"
    using release_ok[OF p1(2) _ f(2)] free p1(3,4) unfolding f(1) by auto
  have "refs p2 = refs p"
    using p1(4) p2(3) d by (auto simp: fun_eq_iff count_list_distinct)
  with p1 p2 show ?thesis by blast
qed

text \<open>Touching blocks and releasing them again restores every reference count and keeps the
  invariant.\<close>

lemma acquire_release:
  assumes "inv p xs" "\<forall>r\<in>set bs. valid p r" "distinct (filter (\<lambda>r. r \<noteq> null) bs)"
  shows "\<exists>p1 p2 ys. acquire p [bs] = Inr p1 \<and> release p1 bs = Inr p2 \<and> inv p2 ys \<and> set ys = set xs \<and> refs p2 = refs p"
proof -
  obtain p1 where p1: "acquire p [bs] = Inr p1" "inv p1 (filter (\<lambda>r. r \<notin> set bs) xs)" "valid p1 = valid p"
    "\<forall>r. refs p1 r = refs p r + int (count_list bs r)"
    using acquire_ok[OF assms(1), of "[bs]"] assms(2) by auto
  have cp: "count_list bs r > 0" if "r \<in> set bs" for r
    using that by (metis count_list_0_iff gr0I)
  have pos: "refs p1 r > 0" if "r \<in> set bs" "r \<noteq> null" for r
    using inv_refs[OF assms(1), of r] assms(2) that p1(4) cp[of r] by fastforce
  have "\<forall>r\<in>set bs. valid p1 r" "\<forall>r\<in>set bs. r \<noteq> null \<longrightarrow> 0 < refs p1 r" using assms(2) p1(3) pos by auto
  from release_ok[OF p1(2) this(1) assms(3) this(2)] obtain p2 where p2: "release p1 bs = Inr p2"
    "inv p2 (filter (\<lambda>r. r \<notin> set bs) xs @ filter (\<lambda>r. r \<noteq> null \<and> refs p1 r = 1) bs)" "valid p2 = valid p1"
    "\<forall>r. refs p2 r = refs p1 r - int (count_list bs r)" by blast
  have r2: "refs p2 = refs p" using p1(4) p2(4) by (simp add: fun_eq_iff)
  let ?ys = "filter (\<lambda>r. r \<notin> set bs) xs @ filter (\<lambda>r. r \<noteq> null \<and> refs p1 r = 1) bs"
  have "set ?ys = set xs"
    unfolding inv_set[OF p2(2)] inv_set[OF assms(1)] using p1(3) p2(3) r2 by simp
  with p1 p2 r2 show ?thesis by blast
qed

end

interpretation bp: block_allocator pool_inv rc in_pool "Blk 0" get_new_blocks touch free_blocks
proof unfold_locales
  fix p xs x assume inv: "pool_inv p xs"
  show "distinct xs" by (rule pool_invD(6)[OF inv])
  show "in_pool p x \<and> x \<noteq> Blk 0 \<and> rc p x = 0" if "x \<in> set xs"
    using pool_invD(7)[OF inv] pool_inv_rc[OF inv, of x] that by (auto simp: in_pool_def)
  show "rc p x \<ge> 0 \<and> (x \<in> set xs \<longleftrightarrow> rc p x = 0)" if "in_pool p x" "x \<noteq> Blk 0"
    using pool_inv_rc[OF inv, of x] that by (simp add: in_pool_def)
next
  fix p xs n assume inv: "pool_inv p xs"
  have v: "in_pool p' = in_pool p" if "pool_static p' = pool_static p" for p'
    using pool_staticD(1)[OF that] by (simp add: in_pool_def fun_eq_iff)
  show "\<exists>p'. get_new_blocks p n = Inr (take n xs, p') \<and> pool_inv p' (drop n xs) \<and> in_pool p' = in_pool p
    \<and> (\<forall>r. rc p' r = rc p r + (if r \<in> set (take n xs) then 1 else 0))" if "n \<le> length xs"
    using get_new_blocks_ok[OF inv that] v by blast
  show "get_new_blocks p n = Inl ValueError" if "length xs < n" using get_new_blocks_fail[OF inv that] .
  show "\<exists>p'. touch p bss = Inr p' \<and> pool_inv p' (filter (\<lambda>r. r \<notin> set (concat bss)) xs) \<and> in_pool p' = in_pool p
    \<and> (\<forall>r. rc p' r = rc p r + int (count_list (concat bss) r))" if "\<forall>r\<in>set (concat bss). in_pool p r" for bss
    using touch_ok[OF inv that] v by blast
  show "\<exists>p'. free_blocks p bs = Inr p' \<and> pool_inv p' (xs @ filter (\<lambda>r. r \<noteq> Blk 0 \<and> rc p r = 1) bs)
    \<and> in_pool p' = in_pool p \<and> (\<forall>r. rc p' r = rc p r - int (count_list bs r))"
    if "\<forall>r\<in>set bs. in_pool p r" "distinct (filter (\<lambda>r. r \<noteq> Blk 0) bs)" "\<forall>r\<in>set bs. r \<noteq> Blk 0 \<longrightarrow> rc p r > 0" for bs
    using free_blocks_ok[OF inv that] v by blast
qed

section \<open>Properties\<close>

text \<open>C38: a new pool of at least one block satisfies the invariant with block 0 set aside as the
  null block and all other blocks free in order; a pool without blocks is refused.\<close>

theorem pool_init_correct:
  "if n > 0
   then \<exists>p. pool_init n c e u = Inr p \<and> pool_inv p (map Blk [1..<n]) \<and> null_block p = Blk 0
          \<and> get_num_free_blocks p = int n - 1 \<and> (\<forall>i<n. rc p (Blk i) = 0 \<and> bh p (Blk i) = None)
   else pool_init n c e u = Inl AssertionError"
proof (cases "n > 0")
  case True
  obtain p where p: "pool_init n c e u = Inr p" "pool_inv p (map Blk [1..<n])"
    "\<forall>r. is_blk r \<longrightarrow> rc p r = 0 \<and> bh p r = None"
    using pool_init_ok[OF True, of c e u] by blast
  with True pool_invD(4,8)[OF p(2)] show ?thesis by (auto simp: of_nat_diff)
qed (simp add: pool_init_def)

theorem pool_init_correct_witness:
  "\<exists>p. pool_init 2 True False False = Inr p \<and> pool_inv p [Blk 1] \<and> rc p (Blk 0) = 0 \<and> rc p (Blk 1) = 0"
proof -
  have "map Blk [1..<2] = [Blk 1]" by (simp add: upt_rec)
  then show ?thesis using pool_init_correct[of 2 True False False] by auto
qed

text \<open>C21: allocation hands out the least recently freed blocks, gives each exactly one
  reference, evicts their hashes when caching is on, leaves every other block as it was and
  keeps the invariant; asking for more blocks than are free raises \<^verbatim>\<open>ValueError\<close>.\<close>

theorem get_new_blocks_correct:
  assumes "pool_inv p xs"
  shows "if n \<le> length xs
    then \<exists>p'. get_new_blocks p n = Inr (take n xs, p') \<and> pool_inv p' (drop n xs)
       \<and> (\<forall>r. rc p' r = (if r \<in> set (take n xs) then 1 else rc p r))
       \<and> (\<forall>r. bh p' r = (if enable_caching p \<and> r \<in> set (take n xs) then None else bh p r))
    else get_new_blocks p n = Inl ValueError"
proof -
  have "rc p r = 0" if "r \<in> set (take n xs)" for r
    using bp.inv_free[OF assms] in_set_takeD[OF that] by blast
  then show ?thesis using get_new_blocks_ok[OF assms, of n] get_new_blocks_fail[OF assms, of n] by auto
qed

definition pool4 :: block_pool where
  "pool4 = (case pool_init 4 True False False of Inr p \<Rightarrow> p)"

lemma pool4: "pool_init 4 True False False = Inr pool4" "pool_inv pool4 [Blk 1, Blk 2, Blk 3]"
  "\<And>r. is_blk r \<Longrightarrow> rc pool4 r = 0 \<and> bh pool4 r = None" "num_gpu_blocks pool4 = 4"
  "enable_caching pool4" "\<not> enable_kv_cache_events pool4"
proof -
  obtain p where p: "pool_init 4 True False False = Inr p" "pool_inv p (map Blk [1..<4])"
    "pool_static p = (4, True, Blk 0, False, False)" "\<forall>r. is_blk r \<longrightarrow> rc p r = 0 \<and> bh p r = None"
    using pool_init_ok[of 4 True False False] by auto
  have "pool4 = p" using p(1) by (simp add: pool4_def)
  moreover have "map Blk [1..<4] = [Blk 1, Blk 2, Blk 3]" by (simp add: upt_rec)
  ultimately show "pool_init 4 True False False = Inr pool4" "pool_inv pool4 [Blk 1, Blk 2, Blk 3]"
    "\<And>r. is_blk r \<Longrightarrow> rc pool4 r = 0 \<and> bh pool4 r = None" "num_gpu_blocks pool4 = 4"
    "enable_caching pool4" "\<not> enable_kv_cache_events pool4"
    using p by (simp_all add: pool_static_def)
qed

theorem get_new_blocks_correct_witness:
  "\<exists>p'. get_new_blocks pool4 2 = Inr ([Blk 1, Blk 2], p') \<and> pool_inv p' [Blk 3]
     \<and> rc p' (Blk 1) = 1 \<and> rc p' (Blk 3) = 0"
proof -
  obtain p' where p': "get_new_blocks pool4 2 = Inr (take 2 [Blk 1, Blk 2, Blk 3], p')"
    "pool_inv p' (drop 2 [Blk 1, Blk 2, Blk 3])"
    "\<forall>r. rc p' r = (if r \<in> set (take 2 [Blk 1, Blk 2, Blk 3]) then 1 else rc pool4 r)"
    using get_new_blocks_correct[OF pool4(2), of 2] by auto
  have "get_new_blocks pool4 2 = Inr ([Blk 1, Blk 2], p')" "pool_inv p' [Blk 3]" using p'(1,2) by simp_all
  moreover have "rc p' (Blk 1) = 1" "rc p' (Blk 3) = 0" using p'(3) pool4(3) by simp_all
  ultimately show ?thesis by blast
qed

text \<open>C28: freeing removes one reference per occurrence; exactly the blocks whose last reference
  goes away are appended to the free list, in the given order, so that the first one is
  evicted first; hashes are kept, and the invariant holds again.\<close>

theorem free_blocks_correct:
  assumes "pool_inv p xs" "\<forall>r\<in>set bs. in_pool p r" "distinct (filter (\<lambda>r. r \<noteq> Blk 0) bs)"
    "\<forall>r\<in>set bs. r \<noteq> Blk 0 \<longrightarrow> rc p r > 0"
  shows "\<exists>p'. free_blocks p bs = Inr p'
    \<and> pool_inv p' (xs @ filter (\<lambda>r. r \<noteq> Blk 0 \<and> rc p r = 1) bs)
    \<and> (\<forall>r. rc p' r = rc p r - int (count_list bs r)) \<and> bh p' = bh p"
  using free_blocks_ok[OF assms] by blast

theorem free_blocks_correct_witness:
  "\<exists>p1 p2. get_new_blocks pool4 2 = Inr ([Blk 1, Blk 2], p1) \<and> free_blocks p1 [Blk 2, Blk 1] = Inr p2
    \<and> pool_inv p2 [Blk 3, Blk 2, Blk 1]"
proof -
  obtain p1 where p1: "get_new_blocks pool4 2 = Inr ([Blk 1, Blk 2], p1)" "pool_inv p1 [Blk 3]"
    "pool_static p1 = pool_static pool4" "\<forall>r. rc p1 r = rc pool4 r + (if r \<in> {Blk 1, Blk 2} then 1 else 0)"
    using get_new_blocks_ok[OF pool4(2), of 2] by auto
  have "in_pool p1 (Blk 1)" "in_pool p1 (Blk 2)" "rc p1 (Blk 1) = 1" "rc p1 (Blk 2) = 1"
    using p1(3,4) pool4(3,4) pool_staticD(1)[OF p1(3)] by (simp_all add: in_pool_def)
  then obtain p2 where "free_blocks p1 [Blk 2, Blk 1] = Inr p2" "pool_inv p2 [Blk 3, Blk 2, Blk 1]"
    using free_blocks_correct[OF p1(2), of "[Blk 2, Blk 1]"] by auto
  with p1(1) show ?thesis by blast
qed

text \<open>Touching blocks of a prefix hit takes the unreferenced ones out of the free list; freeing
  the same blocks again restores all reference counts and the set of free blocks.\<close>

theorem touch_free_restores:
  assumes "pool_inv p xs" "\<forall>r\<in>set bs. in_pool p r" "distinct (filter (\<lambda>r. r \<noteq> Blk 0) bs)"
  shows "\<exists>p1 p2 ys. touch p [bs] = Inr p1 \<and> pool_inv p1 (filter (\<lambda>r. r \<notin> set bs) xs)
    \<and> (\<forall>r. rc p1 r = rc p r + int (count_list bs r))
    \<and> free_blocks p1 bs = Inr p2 \<and> pool_inv p2 ys \<and> set ys = set xs \<and> rc p2 = rc p"
  using bp.acquire_release[OF assms] touch_ok[OF assms(1), of "[bs]"] assms(2) by fastforce

theorem touch_free_restores_witness:
  "\<exists>p1 p2 ys. touch pool4 [[Blk 2]] = Inr p1 \<and> pool_inv p1 [Blk 1, Blk 3]
    \<and> free_blocks p1 [Blk 2] = Inr p2 \<and> pool_inv p2 ys \<and> set ys = {Blk 1, Blk 2, Blk 3}"
proof -
  have "\<forall>r\<in>set [Blk 2]. in_pool pool4 r" by (simp add: in_pool_def pool4(4))
  from touch_free_restores[OF pool4(2) this] show ?thesis by auto
qed

text \<open>C22: after the full blocks of a request are cached, a lookup by any of their hashes finds a
  block that carries this hash; reference counts and free list are untouched.\<close>

theorem cache_full_blocks_lookup:
  assumes "pool_inv p xs" "cacheable p req blocks nc nf gid" "nc \<le> i" "i < nf"
  shows "\<exists>p' b. cache_full_blocks p req blocks nc nf bs gid = Inr p' \<and> pool_inv p' xs \<and> rc p' = rc p
    \<and> get_cached_block p' (block_hashes req ! i) [gid] = Inr (Some [b])
    \<and> b \<in> pool_refs (num_gpu_blocks p) \<and> bh p' b = bh p' (blocks ! i) \<and> bh p' b \<noteq> None"
proof -
  obtain p' where p': "cache_full_blocks p req blocks nc nf bs gid = Inr p'" "pool_inv p' xs"
    "pool_static p' = pool_static p" "rc p' = rc p"
    "make_block_hash_with_group_id (block_hashes req ! i) gid = Inr (the (bh p' (blocks ! i)))"
    "bh p' (blocks ! i) \<noteq> None" "\<forall>r. r \<notin> set (drop nc (take nf blocks)) \<longrightarrow> bh p' r = bh p r"
    using cache_full_blocks_ok[OF assms(1,2), of bs] assms(3,4) by blast
  have n: "num_gpu_blocks p' = num_gpu_blocks p" using pool_staticD(1)[OF p'(3)] .
  have "\<forall>g\<in>set [gid]. 0 \<le> g \<and> g < 2 ^ 32" using assms(2) by (simp add: cacheable_def)
  from get_cached_block_ok[OF p'(2) this, of "block_hashes req ! i"] obtain res where
    res: "get_cached_block p' (block_hashes req ! i) [gid] = Inr res"
    "case res of Some bs \<Rightarrow> list_all2 (\<lambda>g r. r \<in> pool_refs (num_gpu_blocks p')
         \<and> (\<exists>key. make_block_hash_with_group_id (block_hashes req ! i) g = Inr key \<and> bh p' r = Some key)) [gid] bs
     | None \<Rightarrow> \<exists>g\<in>set [gid]. \<exists>key. make_block_hash_with_group_id (block_hashes req ! i) g = Inr key
         \<and> (\<forall>r\<in>pool_refs (num_gpu_blocks p'). bh p' r \<noteq> Some key)" by blast
  have bi: "blocks ! i \<in> set (drop nc (take nf blocks))"
    using assms(2-4) by (auto simp: cacheable_def in_set_conv_nth intro!: exI[of _ "i - nc"])
  then have "blocks ! i \<in> pool_refs (num_gpu_blocks p')" using assms(2) n by (simp add: cacheable_def)
  then have "res \<noteq> None" using res(2) p'(5,6) by (cases res) auto
  then obtain b where "res = Some [b]" "b \<in> pool_refs (num_gpu_blocks p)" "bh p' b = bh p' (blocks ! i)"
    using res(2) p'(5,6) n by (auto simp: list_all2_Cons1)
  with p' res(1) show ?thesis by auto
qed

definition demo_req :: request where
  "demo_req = (new_request 0 (demo_args [5, 6, 7, 8] None) 16 RUNNING False None 4)\<lparr>block_hashes := [[1], [2]]\<rparr>"

theorem cache_full_blocks_lookup_witness:
  "\<exists>p' b. cache_full_blocks pool4 demo_req [Blk 3, Blk 1] 0 2 2 0 = Inr p'
    \<and> get_cached_block p' [2] [0] = Inr (Some [b]) \<and> bh p' b = bh p' (Blk 1)"
proof -
  have h: "block_hashes demo_req = [[1], [2]]" by (simp add: demo_req_def)
  have "cacheable pool4 demo_req [Blk 3, Blk 1] 0 2 0"
    by (simp add: cacheable_def h pool4 numeral_2_eq_2)
  from cache_full_blocks_lookup[OF pool4(2) this, of 1 2] h show ?thesis by auto
qed

text \<open>the prefix cache is reset exactly when every block but the null block is unreferenced;
  then no block keeps a hash, nothing is found any more, and references and free list stay.
  Otherwise nothing changes.\<close>

theorem reset_prefix_cache_correct:
  assumes "pool_inv p xs"
  shows "if \<forall>r\<in>pool_refs (num_gpu_blocks p). rc p r = 0
    then \<exists>p'. reset_prefix_cache p = (True, p') \<and> pool_inv p' xs \<and> rc p' = rc p
       \<and> (\<forall>key. get_one_block (cached_block_hash_to_block p') key = Inr None)
       \<and> (\<forall>r\<in>set (pool_blocks p). bh p' r = None)
    else reset_prefix_cache p = (False, p)"
  using reset_prefix_cache_ok[OF assms] by (auto simp: get_one_block_def)

theorem reset_prefix_cache_correct_witness: "\<exists>p'. reset_prefix_cache pool4 = (True, p')"
proof -
  have "\<forall>r\<in>pool_refs (num_gpu_blocks pool4). rc pool4 r = 0"
    using pool4(3) by (auto elim!: pool_refsE)
  then show ?thesis using reset_prefix_cache_correct[OF pool4(2)] by auto
qed

text \<open>with cache events enabled, caching the first full blocks of a request that has a LoRA
  adapter raises \<^verbatim>\<open>AttributeError\<close>, because the event reads an attribute that LoRA
  requests do not have.\<close>

theorem lora_event_raises:
  assumes "pool_inv p xs" "enable_kv_cache_events p" "lora_request req \<noteq> None" "0 < nf"
    "nf \<le> length blocks" "nf \<le> length (block_hashes req)" "0 \<le> gid" "gid < 2 ^ 32" "distinct (take nf blocks)"
    "\<forall>r\<in>set (take nf blocks). r \<in> pool_refs (num_gpu_blocks p) \<and> bh p r = None"
  shows "cache_full_blocks p req blocks 0 nf bs gid = Inl AttributeError"
proof -
  obtain gb where gb: "\<And>h. make_block_hash_with_group_id h gid = Inr (h @ gb)" using make_key[OF assms(7,8)] by metis
  have l: "length (take nf blocks) \<le> length (block_hashes req)" using assms(5,6) by simp
  obtain p1 es where p1: "for_each (\<lambda>i s. bnd (index_py (block_hashes req) i) (\<lambda>h. cache_one gid (take nf blocks ! i, h) s))
      [0..<length (take nf blocks)] (p, []) = Inr (p1, es)" "pool_static p1 = pool_static p"
    using cache_loop_ok[OF assms(1) gb assms(9,10) order_refl l] by blast
  have "enable_kv_cache_events p1" using pool_staticD(4)[OF p1(2)] assms(2) by simp
  then show ?thesis using p1(1) assms(3-6) by (simp add: cache_full_blocks_def Let_def stored_event_def)
qed

theorem lora_event_raises_witness:
  "\<exists>p. pool_init 4 True True False = Inr p
    \<and> cache_full_blocks p (demo_req\<lparr>lora_request := Some \<lparr>lora_name = ''a'', lora_int_id = 1\<rparr>\<rparr>) [Blk 3, Blk 1] 0 2 2 0
        = Inl AttributeError"
proof -
  let ?r = "demo_req\<lparr>lora_request := Some \<lparr>lora_name = ''a'', lora_int_id = 1\<rparr>\<rparr>"
  obtain p where p: "pool_init 4 True True False = Inr p" "pool_inv p (map Blk [1..<4])"
    "pool_static p = (4, True, Blk 0, True, False)" "\<forall>r. is_blk r \<longrightarrow> rc p r = 0 \<and> bh p r = None"
    using pool_init_ok[of 4 True True False] by auto
  have "cache_full_blocks p ?r [Blk 3, Blk 1] 0 2 2 0 = Inl AttributeError"
    by (rule lora_event_raises[OF p(2)]) (use p(3,4) in \<open>simp_all add: pool_static_def demo_req_def\<close>)
  with p(1) show ?thesis by blast
qed

end
