(* ===== verification/Request_Queue.thy ===== *)
theory Request_Queue
  imports Request_Model "HOL-Library.Multiset" "HOL-Library.Product_Lexorder"
begin

text \<open>
  The waiting queues of \<^verbatim>\<open>vllm/v1/core/sched/request_queue.py\<close>: first come first served on a
  deque, and by priority and arrival time on a binary heap. The heap functions are those of
  Python's \<^verbatim>\<open>heapq\<close>, with a comparison of tuples that raises \<^verbatim>\<open>TypeError\<close> when it gets to the
  requests themselves, which define no order. The locale \<open>policy_queue\<close> is the contract of
  the abstract base class; both queues are interpretations.
\<close>

section \<open>Requests as the queues see them\<close>

text \<open>Priority, arrival time and identity.\<close>

type_synonym qreq = "int \<times> rat \<times> string"

definition qkey :: "qreq \<Rightarrow> int \<times> rat" where
  "qkey e = (fst e, fst (snd e))"

datatype scheduling_policy = FCFS | PRIORITY

section \<open>First come, first served\<close>

type_synonym fcfs_queue = "qreq list"

definition fcfs_add :: "qreq \<Rightarrow> fcfs_queue \<Rightarrow> fcfs_queue result" where
  "fcfs_add r q = Inr (q @ [r])"

definition fcfs_pop :: "fcfs_queue \<Rightarrow> (qreq \<times> fcfs_queue) result" where
  "fcfs_pop q = (case q of [] \<Rightarrow> Inl IndexError | r # rs \<Rightarrow> Inr (r, rs))"

definition fcfs_peek :: "fcfs_queue \<Rightarrow> qreq result" where
  "fcfs_peek q = (if q = [] then Inl IndexError else Inr (q ! 0))"

definition fcfs_prepend :: "qreq \<Rightarrow> fcfs_queue \<Rightarrow> fcfs_queue result" where
  "fcfs_prepend r q = Inr (r # q)"

text \<open>\<^verbatim>\<open>extendleft\<close> prepends one element after the other, so it is given the reversed queue.\<close>

definition fcfs_prepend_all :: "qreq list \<Rightarrow> fcfs_queue \<Rightarrow> fcfs_queue result" where
  "fcfs_prepend_all rs q = Inr (fold (#) (rev rs) q)"

definition fcfs_remove :: "qreq \<Rightarrow> fcfs_queue \<Rightarrow> fcfs_queue result" where
  "fcfs_remove r q = (if r \<in> set q then Inr (remove1 r q) else Inl ValueError)"

definition fcfs_remove_all :: "qreq list \<Rightarrow> fcfs_queue \<Rightarrow> fcfs_queue result" where
  "fcfs_remove_all rs q = Inr (filter (\<lambda>r. r \<notin> set rs) q)"

definition fcfs_iter :: "fcfs_queue \<Rightarrow> qreq list result" where
  "fcfs_iter q = Inr q"

section \<open>Heap functions\<close>

definition tuple_less :: "qreq \<Rightarrow> qreq \<Rightarrow> bool result" where
  "tuple_less a b =
     (let (p, t, r) = a; (p', t', r') = b in
      if p \<noteq> p' then Inr (p < p')
      else if t \<noteq> t' then Inr (t < t')
      else if r = r' then Inr False
      else Inl TypeError)"

function siftdown :: "qreq list \<Rightarrow> nat \<Rightarrow> nat \<Rightarrow> qreq \<Rightarrow> qreq list result" where
  "siftdown heap startpos pos newitem =
     (if pos > startpos
      then let parentpos = (pos - 1) div 2; parent = heap ! parentpos
        in bnd (tuple_less newitem parent) (\<lambda>b.
             if b then siftdown (heap[pos := parent]) startpos parentpos newitem
             else Inr (heap[pos := newitem]))
      else Inr (heap[pos := newitem]))"
  by pat_completeness auto
termination
  by (relation "measure (\<lambda>(_, _, pos, _). pos)") auto

function siftup_loop :: "qreq list \<Rightarrow> nat \<Rightarrow> (qreq list \<times> nat) result" where
  "siftup_loop heap pos =
     (let endpos = length heap; childpos = 2 * pos + 1; rightpos = childpos + 1 in
      if childpos < endpos
      then bnd (if rightpos < endpos then tuple_less (heap ! childpos) (heap ! rightpos) else Inr True) (\<lambda>b.
             let c = (if b then childpos else rightpos)
             in siftup_loop (heap[pos := heap ! c]) c)
      else Inr (heap, pos))"
  by pat_completeness auto
termination
  by (relation "measure (\<lambda>(heap, pos). length heap - pos)") (auto split: if_splits)

declare siftdown.simps [simp del] siftup_loop.simps [simp del]

definition siftup :: "qreq list \<Rightarrow> nat \<Rightarrow> qreq list result" where
  "siftup heap pos =
     (let newitem = heap ! pos
      in bnd (siftup_loop heap pos) (\<lambda>(heap', pos'). siftdown (heap'[pos' := newitem]) pos pos' newitem))"

definition heappush :: "qreq list \<Rightarrow> qreq \<Rightarrow> qreq list result" where
  "heappush heap item = siftdown (heap @ [item]) 0 (length heap) item"

definition heappop :: "qreq list \<Rightarrow> (qreq \<times> qreq list) result" where
  "heappop heap =
     (if heap = [] then Inl IndexError
      else let lastelt = last heap; heap' = butlast heap
        in if heap' \<noteq> []
           then bnd (siftup (heap'[0 := lastelt]) 0) (\<lambda>h. Inr (heap' ! 0, h))
           else Inr (lastelt, heap'))"

definition heapify :: "qreq list \<Rightarrow> qreq list result" where
  "heapify heap = for_each (\<lambda>i h. siftup h i) (rev [0..<length heap div 2]) heap"

section \<open>The priority queue\<close>

type_synonym prio_queue = "qreq list"

definition prio_add :: "qreq \<Rightarrow> prio_queue \<Rightarrow> prio_queue result" where
  "prio_add r q = heappush q r"

definition prio_pop :: "prio_queue \<Rightarrow> (qreq \<times> prio_queue) result" where
  "prio_pop q = (if q = [] then Inl IndexError else heappop q)"

definition prio_peek :: "prio_queue \<Rightarrow> qreq result" where
  "prio_peek q = (if q = [] then Inl IndexError else Inr (q ! 0))"

definition prio_prepend :: "qreq \<Rightarrow> prio_queue \<Rightarrow> prio_queue result" where
  "prio_prepend r q = prio_add r q"

definition prio_prepend_all :: "qreq list \<Rightarrow> prio_queue \<Rightarrow> prio_queue result" where
  "prio_prepend_all rs q = for_each prio_add rs q"

definition prio_remove :: "qreq \<Rightarrow> prio_queue \<Rightarrow> prio_queue result" where
  "prio_remove r q = heapify (filter (\<lambda>x. x \<noteq> r) q)"

definition prio_remove_all :: "qreq list \<Rightarrow> prio_queue \<Rightarrow> prio_queue result" where
  "prio_remove_all rs q = heapify (filter (\<lambda>x. x \<notin> set rs) q)"

text \<open>Iteration pops from a copy; each pop shortens the copy, so its length bounds the loop.\<close>

fun prio_drain :: "nat \<Rightarrow> prio_queue \<Rightarrow> qreq list result" where
  "prio_drain 0 q = Inr []"
| "prio_drain (Suc n) q =
     (if q = [] then Inr [] else bnd (heappop q) (\<lambda>(r, q'). bnd (prio_drain n q') (\<lambda>rs. Inr (r # rs))))"

definition prio_iter :: "prio_queue \<Rightarrow> qreq list result" where
  "prio_iter q = prio_drain (length q) q"

definition prio_reversed :: "prio_queue \<Rightarrow> qreq list result" where
  "prio_reversed q = bnd (prio_iter q) (\<lambda>rs. Inr (rev rs))"

section \<open>Choice of the policy\<close>

datatype request_queue = Fcfs_Queue fcfs_queue | Prio_Queue prio_queue

definition create_request_queue :: "scheduling_policy \<Rightarrow> request_queue" where
  "create_request_queue policy = (case policy of PRIORITY \<Rightarrow> Prio_Queue [] | FCFS \<Rightarrow> Fcfs_Queue [])"

definition lift_queue :: "(fcfs_queue \<Rightarrow> fcfs_queue result) \<Rightarrow> (prio_queue \<Rightarrow> prio_queue result)
    \<Rightarrow> request_queue \<Rightarrow> request_queue result" where
  "lift_queue f g q = (case q of
     Fcfs_Queue l \<Rightarrow> bnd (f l) (\<lambda>l'. Inr (Fcfs_Queue l'))
   | Prio_Queue h \<Rightarrow> bnd (g h) (\<lambda>h'. Inr (Prio_Queue h')))"

definition add_request :: "qreq \<Rightarrow> request_queue \<Rightarrow> request_queue result" where
  "add_request r = lift_queue (fcfs_add r) (prio_add r)"

definition pop_request :: "request_queue \<Rightarrow> (qreq \<times> request_queue) result" where
  "pop_request q = (case q of
     Fcfs_Queue l \<Rightarrow> bnd (fcfs_pop l) (\<lambda>(r, l'). Inr (r, Fcfs_Queue l'))
   | Prio_Queue h \<Rightarrow> bnd (prio_pop h) (\<lambda>(r, h'). Inr (r, Prio_Queue h')))"

definition peek_request :: "request_queue \<Rightarrow> qreq result" where
  "peek_request q = (case q of Fcfs_Queue l \<Rightarrow> fcfs_peek l | Prio_Queue h \<Rightarrow> prio_peek h)"

definition prepend_request :: "qreq \<Rightarrow> request_queue \<Rightarrow> request_queue result" where
  "prepend_request r = lift_queue (fcfs_prepend r) (prio_prepend r)"

definition iter_requests :: "request_queue \<Rightarrow> qreq list result" where
  "iter_requests q = (case q of Fcfs_Queue l \<Rightarrow> fcfs_iter l | Prio_Queue h \<Rightarrow> prio_iter h)"

definition prepend_requests :: "request_queue \<Rightarrow> request_queue \<Rightarrow> request_queue result" where
  "prepend_requests rs q =
     bnd (iter_requests rs) (\<lambda>l. lift_queue (fcfs_prepend_all l) (prio_prepend_all l) q)"

definition remove_request :: "qreq \<Rightarrow> request_queue \<Rightarrow> request_queue result" where
  "remove_request r = lift_queue (fcfs_remove r) (prio_remove r)"

definition remove_requests :: "qreq list \<Rightarrow> request_queue \<Rightarrow> request_queue result" where
  "remove_requests rs = lift_queue (fcfs_remove_all rs) (prio_remove_all rs)"

definition queue_len :: "request_queue \<Rightarrow> nat" where
  "queue_len q = (case q of Fcfs_Queue l \<Rightarrow> length l | Prio_Queue h \<Rightarrow> length h)"

section \<open>Heap invariant\<close>

abbreviation par :: "nat \<Rightarrow> nat" where
  "par i \<equiv> (i - 1) div 2"

text \<open>The heap order below position \<open>s\<close>.\<close>

definition heap_from :: "nat \<Rightarrow> qreq list \<Rightarrow> bool" where
  "heap_from s h \<longleftrightarrow> (\<forall>i. 0 < i \<and> i < length h \<and> s \<le> par i \<longrightarrow> qkey (h ! par i) \<le> qkey (h ! i))"

text \<open>The heap order below \<open>s\<close> with a hole at \<open>pos\<close>.\<close>

definition heap_hole :: "nat \<Rightarrow> nat \<Rightarrow> qreq list \<Rightarrow> bool" where
  "heap_hole s pos h \<longleftrightarrow>
     (\<forall>i. 0 < i \<and> i < length h \<and> s \<le> par i \<and> i \<noteq> pos \<and> par i \<noteq> pos \<longrightarrow> qkey (h ! par i) \<le> qkey (h ! i))
   \<and> (\<forall>i. 0 < i \<and> i < length h \<and> par i = pos \<and> pos \<noteq> s \<longrightarrow> qkey (h ! par pos) \<le> qkey (h ! i))"

text \<open>\<open>pos\<close> is \<open>s\<close> or below it in the tree.\<close>

inductive below :: "nat \<Rightarrow> nat \<Rightarrow> bool" for s where
  below_refl: "below s s"
| below_child: "below s p \<Longrightarrow> 0 < c \<Longrightarrow> par c = p \<Longrightarrow> below s c"

inductive_cases below_cases: "below s c"

text \<open>Ties between different requests are the inputs on which a comparison raises.\<close>

definition no_ties :: "qreq set \<Rightarrow> bool" where
  "no_ties E \<longleftrightarrow> (\<forall>a\<in>E. \<forall>b\<in>E. qkey a = qkey b \<longrightarrow> a = b)"

lemma tuple_less_key:
  assumes "no_ties E" "a \<in> E" "b \<in> E"
  shows "tuple_less a b = Inr (qkey a < qkey b)"
  using assms by (cases a; cases b) (fastforce simp: tuple_less_def no_ties_def qkey_def less_prod_def)

lemma below_le: "below s p \<Longrightarrow> s \<le> p"
  by (induction rule: below.induct) auto

lemma below_par: "below s p \<Longrightarrow> s < p \<Longrightarrow> below s (par p)"
  by (erule below_cases) auto

lemma siftdown_ok:
  assumes "no_ties (set (h[pos := x]))" "pos < length h" "below s pos" "heap_hole s pos h"
    and "\<forall>i. 0 < i \<and> i < length h \<and> par i = pos \<longrightarrow> qkey x \<le> qkey (h ! i)"
  shows "\<exists>h'. siftdown h s pos x = Inr h' \<and> heap_from s h' \<and> mset h' = mset (h[pos := x]) \<and> length h' = length h"
  using assms
proof (induction h s pos x rule: siftdown.induct)
  case (1 h s pos x)
  show ?case
  proof (cases "pos > s")
    case False
    then have "pos = s" using below_le[OF 1(4)] by simp
    have "heap_from s (h[pos := x])"
      using 1(5,6) unfolding heap_from_def heap_hole_def \<open>pos = s\<close> by (auto simp: nth_list_update)
    with False show ?thesis by (simp add: siftdown.simps)
  next
    case True
    let ?p = "par pos"
    have pp: "?p < pos" "?p < length h" "?p \<noteq> pos" using True 1(3) by auto
    have lt: "tuple_less x (h ! ?p) = Inr (qkey x < qkey (h ! ?p))"
    proof (rule tuple_less_key[OF 1(2)])
      show "x \<in> set (h[pos := x])" using 1(3) by (rule set_update_memI)
      have "h[pos := x] ! ?p = h ! ?p" using pp by simp
      then show "h ! ?p \<in> set (h[pos := x])" using pp(2) by (metis length_list_update nth_mem)
    qed
    have A: "qkey (h ! par i) \<le> qkey (h ! i)" if "0 < i" "i < length h" "s \<le> par i" "i \<noteq> pos" "par i \<noteq> pos" for i
      using 1(5) that by (simp add: heap_hole_def)
    have B: "qkey (h ! ?p) \<le> qkey (h ! i)" if "0 < i" "i < length h" "par i = pos" for i
      using 1(5) that True by (simp add: heap_hole_def)
    have sp: "s \<le> ?p" using below_le[OF below_par[OF 1(4) True]] .
    have sib: "qkey (h ! ?p) \<le> qkey (h ! i)" if "0 < i" "i < length h" "par i = ?p" "i \<noteq> pos" for i
      using A[of i] that sp pp by simp
    show ?thesis
    proof (cases "qkey x < qkey (h ! ?p)")
      case less: True
      let ?h = "h[pos := h ! ?p]"
      have m: "mset (?h[?p := x]) = mset (h[pos := x])"
        using mset_swap[of ?p "h[pos := x]" pos] pp 1(3) by simp
      have "heap_hole s ?p ?h"
        unfolding heap_hole_def
      proof (intro conjI allI impI; elim conjE)
        fix i assume i: "0 < i" "i < length ?h" "s \<le> par i" "i \<noteq> ?p" "par i \<noteq> ?p"
        then have "i \<noteq> pos" by blast
        then show "qkey (?h ! par i) \<le> qkey (?h ! i)"
          using i A[of i] B[of i] 1(3) by (cases "par i = pos") simp_all
      next
        fix i assume i: "0 < i" "i < length ?h" "par i = ?p" "?p \<noteq> s"
        have "s < ?p" using sp i(4) by simp
        then have "s \<le> par ?p" using below_le[OF below_par[OF below_par[OF 1(4) True]]] by blast
        then have "qkey (h ! par ?p) \<le> qkey (h ! ?p)" using A[of ?p] pp \<open>s < ?p\<close> by fastforce
        also have "\<dots> \<le> qkey (?h ! i)" using sib[of i] i 1(3) by (cases "i = pos") simp_all
        finally show "qkey (?h ! par ?p) \<le> qkey (?h ! i)"
          using pp by (simp add: nth_list_update)
      qed
      moreover have "\<forall>i. 0 < i \<and> i < length ?h \<and> par i = ?p \<longrightarrow> qkey x \<le> qkey (?h ! i)"
        using sib less 1(3) by (auto simp: nth_list_update intro: order_trans less_imp_le)
      moreover have "no_ties (set (?h[?p := x]))" using 1(2) m by (metis set_mset_mset)
      ultimately have "\<exists>h'. siftdown ?h s ?p x = Inr h' \<and> heap_from s h' \<and> mset h' = mset (?h[?p := x]) \<and> length h' = length ?h"
        using True pp below_par[OF 1(4) True] lt less by (intro 1(1)) auto
      then show ?thesis using True lt less m by (simp add: siftdown.simps[of h] Let_def)
    next
      case False
      have "heap_from s (h[pos := x])"
        unfolding heap_from_def
      proof (intro allI impI; elim conjE)
        fix i assume i: "0 < i" "i < length (h[pos := x])" "s \<le> par i"
        show "qkey (h[pos := x] ! par i) \<le> qkey (h[pos := x] ! i)"
        proof (cases "i = pos")
          case True
          with False pp 1(3) show ?thesis by simp
        next
          case ne: False
          with i A[of i] 1(3,6) show ?thesis by (cases "par i = pos") simp_all
        qed
      qed
      with False True lt show ?thesis by (simp add: siftdown.simps[of h])
    qed
  qed
qed

lemma par_child: "0 < i \<Longrightarrow> par i = p \<longleftrightarrow> i = 2 * p + 1 \<or> i = 2 * p + 2"
  by auto

lemma siftup_loop_ok:
  assumes "no_ties (set (h[pos := x]))" "pos < length h" "below s pos" "heap_hole s pos h"
  shows "\<exists>h' pos'. siftup_loop h pos = Inr (h', pos') \<and> length h' = length h \<and> pos' < length h
    \<and> length h \<le> 2 * pos' + 1 \<and> below s pos' \<and> heap_hole s pos' h' \<and> mset (h'[pos' := x]) = mset (h[pos := x])"
  using assms
proof (induction h pos rule: siftup_loop.induct)
  case (1 h pos)
  let ?l = "2 * pos + 1" and ?r = "2 * pos + 1 + 1"
  show ?case
  proof (cases "?l < length h")
    case False
    with 1(3-5) show ?thesis by (simp add: siftup_loop.simps)
  next
    case True
    have mem: "h ! i \<in> set (h[pos := x])" if "i < length h" "i \<noteq> pos" for i
      using that by (metis length_list_update nth_list_update_neq nth_mem)
    have b: "?r < length h \<Longrightarrow> tuple_less (h ! ?l) (h ! ?r) = Inr (qkey (h ! ?l) < qkey (h ! ?r))"
      using tuple_less_key[OF 1(2) mem mem, of ?l ?r] True by simp
    define c where "c = (if \<not> ?r < length h \<or> qkey (h ! ?l) < qkey (h ! ?r) then ?l else ?r)"
    have c: "c < length h" "0 < c" "par c = pos" "c \<noteq> pos" "pos < c" using True by (auto simp: c_def)
    have cmin: "qkey (h ! c) \<le> qkey (h ! i)" if "0 < i" "i < length h" "par i = pos" for i
      using that True unfolding par_child[OF that(1)] c_def by auto
    let ?h = "h[pos := h ! c]"
    have A: "qkey (h ! par i) \<le> qkey (h ! i)" if "0 < i" "i < length h" "s \<le> par i" "i \<noteq> pos" "par i \<noteq> pos" for i
      using 1(5) that by (simp add: heap_hole_def)
    have B: "qkey (h ! par pos) \<le> qkey (h ! i)" if "0 < i" "i < length h" "par i = pos" "pos \<noteq> s" for i
      using 1(5) that by (simp add: heap_hole_def)
    have sp: "s \<le> pos" using below_le[OF 1(4)] .
    have "heap_hole s c ?h"
      unfolding heap_hole_def
    proof (intro conjI allI impI; elim conjE)
      fix i assume i: "0 < i" "i < length ?h" "s \<le> par i" "i \<noteq> c" "par i \<noteq> c"
      consider "i = pos" | "i \<noteq> pos" "par i = pos" | "i \<noteq> pos" "par i \<noteq> pos" by blast
      then show "qkey (?h ! par i) \<le> qkey (?h ! i)"
      proof cases
        case 1
        then have "pos \<noteq> s" using i(1,3) by auto
        with 1 B[of c] c i show ?thesis by (simp add: nth_list_update)
      next
        case 2
        with cmin[of i] i show ?thesis by simp
      next
        case 3
        with A[of i] i show ?thesis by simp
      qed
    next
      fix i assume i: "0 < i" "i < length ?h" "par i = c" "c \<noteq> s"
      have "i \<noteq> pos" using i(1,3) c(5) by auto
      with A[of i] i c sp show "qkey (?h ! par c) \<le> qkey (?h ! i)" by simp
    qed
    moreover have m: "mset (?h[c := x]) = mset (h[pos := x])"
      using mset_swap[of c "h[pos := x]" pos] c 1(3) by (simp add: list_update_swap)
    moreover have "no_ties (set (?h[c := x]))" using 1(2) m by (metis set_mset_mset)
    moreover have "below s c" by (rule below_child[OF 1(4) c(2,3)])
    ultimately have "\<exists>h' pos'. siftup_loop ?h c = Inr (h', pos') \<and> length h' = length ?h \<and> pos' < length ?h
      \<and> length ?h \<le> 2 * pos' + 1 \<and> below s pos' \<and> heap_hole s pos' h' \<and> mset (h'[pos' := x]) = mset (?h[c := x])"
      using True c(1) by (intro 1(1)[OF refl refl refl]) (auto simp: c_def)
    moreover have "siftup_loop h pos = siftup_loop ?h c"
      using True b by (subst siftup_loop.simps) (simp add: Let_def c_def)
    ultimately show ?thesis using m by simp
  qed
qed

lemma heap_hole_update:
  assumes "s \<le> pos" "heap_hole s pos h"
  shows "heap_hole s pos (h[pos := x])"
  unfolding heap_hole_def length_list_update
proof (intro conjI allI impI; elim conjE)
  fix i assume "0 < i" "i < length h" "s \<le> par i" "i \<noteq> pos" "par i \<noteq> pos"
  then show "qkey (h[pos := x] ! par i) \<le> qkey (h[pos := x] ! i)"
    using assms(2) by (simp add: heap_hole_def)
next
  fix i assume i: "0 < i" "i < length h" "par i = pos" "pos \<noteq> s"
  then have "i \<noteq> pos" "par pos \<noteq> pos" using assms(1) by auto
  then show "qkey (h[pos := x] ! par pos) \<le> qkey (h[pos := x] ! i)"
    using assms(2) i by (simp add: heap_hole_def)
qed

lemma siftup_ok:
  assumes "s < length h" "heap_from (Suc s) h" "no_ties (set h)"
  shows "\<exists>h'. siftup h s = Inr h' \<and> heap_from s h' \<and> mset h' = mset h"
proof -
  let ?x = "h ! s"
  have "heap_hole s s h"
    using assms(2) unfolding heap_from_def heap_hole_def by (metis Suc_leI le_neq_implies_less)
  moreover have "no_ties (set (h[s := ?x]))" using assms(3) by simp
  ultimately obtain h1 p1 where 1: "siftup_loop h s = Inr (h1, p1)" "length h1 = length h" "p1 < length h"
    "length h \<le> 2 * p1 + 1" "below s p1" "heap_hole s p1 h1" "mset (h1[p1 := ?x]) = mset h"
    using siftup_loop_ok[OF _ assms(1) below_refl, of ?x] by auto
  have "set (h1[p1 := ?x]) = set h" using 1(7) by (metis set_mset_mset)
  then have "no_ties (set (h1[p1 := ?x, p1 := ?x]))" using assms(3) by simp
  moreover have "\<forall>i. 0 < i \<and> i < length (h1[p1 := ?x]) \<and> par i = p1 \<longrightarrow> qkey ?x \<le> qkey (h1[p1 := ?x] ! i)"
    using 1(2,4) par_child by fastforce
  ultimately obtain h2 where "siftdown (h1[p1 := ?x]) s p1 ?x = Inr h2" "heap_from s h2"
    "mset h2 = mset (h1[p1 := ?x, p1 := ?x])"
    using siftdown_ok[of "h1[p1 := ?x]" p1 ?x s] 1 heap_hole_update[OF below_le[OF 1(5)] 1(6)] by auto
  with 1 show ?thesis by (simp add: siftup_def)
qed

lemma no_ties_inj: "no_ties E \<longleftrightarrow> inj_on qkey E"
  by (simp add: no_ties_def inj_on_def)

lemma no_ties_subset: "no_ties E \<Longrightarrow> F \<subseteq> E \<Longrightarrow> no_ties F"
  by (auto simp: no_ties_def)

lemma below_0: "below 0 i"
proof (induction i rule: less_induct)
  case (less i)
  show ?case
  proof (cases "i = 0")
    case False
    then have "below 0 (par i)" by (intro less) auto
    then show ?thesis using below_child[of 0 "par i" i] False by simp
  qed (simp add: below_refl)
qed

lemma heap_root_min:
  assumes "heap_from 0 h" "i < length h"
  shows "qkey (h ! 0) \<le> qkey (h ! i)"
  using assms(2)
proof (induction i rule: less_induct)
  case (less i)
  show ?case
  proof (cases "i = 0")
    case False
    then have "qkey (h ! 0) \<le> qkey (h ! par i)" using less by auto
    also have "\<dots> \<le> qkey (h ! i)" using assms(1) less.prems False by (simp add: heap_from_def)
    finally show ?thesis .
  qed simp
qed

lemma heappush_ok:
  assumes "heap_from 0 h" "no_ties (insert x (set h))"
  shows "\<exists>h'. heappush h x = Inr h' \<and> heap_from 0 h' \<and> mset h' = add_mset x (mset h)"
proof -
  let ?h = "h @ [x]" and ?n = "length h"
  have "heap_hole 0 ?n ?h"
    unfolding heap_hole_def
  proof (intro conjI allI impI; elim conjE)
    fix i assume i: "0 < i" "i < length ?h" "i \<noteq> ?n"
    then have "i < length h" "par i < length h" by auto
    then show "qkey (?h ! par i) \<le> qkey (?h ! i)" using assms(1) i by (simp add: heap_from_def nth_append)
  qed auto
  moreover have "\<forall>i. 0 < i \<and> i < length ?h \<and> par i = ?n \<longrightarrow> qkey x \<le> qkey (?h ! i)" by auto
  ultimately show ?thesis
    using siftdown_ok[of ?h ?n x 0] assms(2) below_0 by (auto simp: heappush_def)
qed

lemma heap_from_butlast:
  assumes "heap_from 0 h"
  shows "heap_from 1 ((butlast h)[0 := y])"
  unfolding heap_from_def
proof (intro allI impI; elim conjE)
  fix i assume i: "0 < i" "i < length ((butlast h)[0 := y])" "1 \<le> par i"
  then have "i < length h - 1" "par i \<noteq> 0" "i \<noteq> 0" "par i < length h - 1" by auto
  then show "qkey ((butlast h)[0 := y] ! par i) \<le> qkey ((butlast h)[0 := y] ! i)"
    using assms by (simp add: heap_from_def nth_butlast)
qed

lemma heappop_ok:
  assumes "heap_from 0 h" "no_ties (set h)" "h \<noteq> []"
  shows "\<exists>h'. heappop h = Inr (h ! 0, h') \<and> heap_from 0 h' \<and> mset h = add_mset (h ! 0) (mset h')"
proof (cases "butlast h = []")
  case True
  then obtain y where "h = [y]" using assms(3) by (metis append_butlast_last_id append_Nil)
  then show ?thesis by (simp add: heappop_def heap_from_def)
next
  case False
  let ?b = "(butlast h)[0 := last h]"
  obtain a t where bl: "butlast h = a # t" using False by (cases "butlast h") auto
  have h: "h = a # t @ [last h]" using assms(3) bl by (metis append_butlast_last_id append_Cons)
  have z: "butlast h ! 0 = h ! 0" using bl h by (metis nth_Cons_0)
  have "mset (a # t @ [last h]) = add_mset a (mset ?b)" by (simp add: bl)
  then have m: "mset h = add_mset (h ! 0) (mset ?b)" using h by (metis nth_Cons_0)
  have "set ?b \<subseteq> set h" using h bl by (metis (no_types) Un_iff list.set_intros(1) list_update_code(2) set_ConsD set_append set_subset_Cons subsetI list.set_intros(2))
  then have "no_ties (set ?b)" using no_ties_subset[OF assms(2)] by blast
  moreover have "0 < length ?b" by (simp add: bl)
  moreover have "heap_from (Suc 0) ?b" using heap_from_butlast[OF assms(1)] by simp
  ultimately obtain h' where "siftup ?b 0 = Inr h'" "heap_from 0 h'" "mset h' = mset ?b"
    using siftup_ok by blast
  with False m z assms(3) show ?thesis by (simp add: heappop_def Let_def)
qed

lemma heapify_ok:
  assumes "no_ties (set h)"
  shows "\<exists>h'. heapify h = Inr h' \<and> heap_from 0 h' \<and> mset h' = mset h"
proof -
  have "\<exists>h'. for_each (\<lambda>i h. siftup h i) (rev [0..<m]) g = Inr h' \<and> heap_from 0 h' \<and> mset h' = mset h"
    if "heap_from m g" "mset g = mset h" "m \<le> length h" for m g
    using that
  proof (induction m arbitrary: g)
    case (Suc m)
    have l: "length g = length h" "set g = set h" using Suc.prems(2) by (metis size_mset, metis set_mset_mset)
    then obtain g' where "siftup g m = Inr g'" "heap_from m g'" "mset g' = mset g"
      using siftup_ok[of m g] Suc.prems(1,3) assms by auto
    with Suc show ?case by simp
  qed simp
  moreover have "heap_from (length h div 2) h" unfolding heap_from_def by auto
  ultimately show ?thesis by (simp add: heapify_def)
qed

section \<open>The contract of a request queue\<close>

locale policy_queue =
  fixes ok :: "'q \<Rightarrow> bool"
    and fits :: "'e \<Rightarrow> 'q \<Rightarrow> bool"
    and seq :: "'q \<Rightarrow> 'e list"
    and add :: "'e \<Rightarrow> 'q \<Rightarrow> 'q result"
    and pop :: "'q \<Rightarrow> ('e \<times> 'q) result"
    and peek :: "'q \<Rightarrow> 'e result"
    and remove :: "'e \<Rightarrow> 'q \<Rightarrow> 'q result"
    and iter :: "'q \<Rightarrow> 'e list result"
  assumes seq_distinct: "ok q \<Longrightarrow> distinct (seq q)"
    and pop_Nil: "ok q \<Longrightarrow> seq q = [] \<Longrightarrow> pop q = Inl IndexError"
    and pop_Cons: "ok q \<Longrightarrow> seq q = r # rs \<Longrightarrow> \<exists>q'. pop q = Inr (r, q') \<and> ok q' \<and> seq q' = rs"
    and peek_seq: "ok q \<Longrightarrow> peek q = (case seq q of [] \<Rightarrow> Inl IndexError | r # _ \<Rightarrow> Inr r)"
    and add_ok: "ok q \<Longrightarrow> fits r q \<Longrightarrow>
      \<exists>q'. add r q = Inr q' \<and> ok q' \<and> mset (seq q') = add_mset r (mset (seq q))"
    and remove_ok: "ok q \<Longrightarrow> r \<in> set (seq q) \<Longrightarrow>
      \<exists>q'. remove r q = Inr q' \<and> ok q' \<and> seq q' = filter (\<lambda>x. x \<noteq> r) (seq q)"
    and iter_seq: "ok q \<Longrightarrow> iter q = Inr (seq q)"
begin

text \<open>Popping until the queue is empty yields the order of iteration.\<close>

lemma pop_all:
  assumes "ok q"
  shows "\<exists>q'. for_each (\<lambda>_ (acc, q). bnd (pop q) (\<lambda>(r, q'). Inr (acc @ [r], q'))) [0..<length (seq q)] ([], q)
    = Inr (seq q, q') \<and> ok q' \<and> seq q' = []"
proof -
  have "\<exists>q'. for_each (\<lambda>_ (acc, q). bnd (pop q) (\<lambda>(r, q'). Inr (acc @ [r], q'))) [0..<n] ([], q)
      = Inr (take n (seq q), q') \<and> ok q' \<and> seq q' = drop n (seq q)" if "n \<le> length (seq q)" for n
    using that
  proof (induction n)
    case (Suc n)
    then obtain q1 where q1: "for_each (\<lambda>_ (acc, q). bnd (pop q) (\<lambda>(r, q'). Inr (acc @ [r], q'))) [0..<n] ([], q)
      = Inr (take n (seq q), q1)" "ok q1" "seq q1 = drop n (seq q)" by auto
    then have "seq q1 = seq q ! n # drop (Suc n) (seq q)" using Suc.prems by (simp add: Cons_nth_drop_Suc)
    from pop_Cons[OF q1(2) this] q1(1) Suc.prems show ?case
      by (auto simp: for_each_append take_Suc_conv_app_nth)
  qed (use assms in simp)
  from this[of "length (seq q)"] show ?thesis by simp
qed

text \<open>What is added stays until it is popped or removed.\<close>

lemma add_remove:
  assumes "ok q" "fits r q"
  shows "\<exists>q1 q2. add r q = Inr q1 \<and> remove r q1 = Inr q2 \<and> ok q2 \<and> set (seq q2) = set (seq q)"
proof -
  obtain q1 where q1: "add r q = Inr q1" "ok q1" "mset (seq q1) = add_mset r (mset (seq q))"
    using add_ok[OF assms] by blast
  have s: "set (seq q1) = insert r (set (seq q))" using q1(3) by (metis set_mset_add_mset_insert set_mset_mset)
  have "count (mset (seq q1)) r \<le> 1" using seq_distinct[OF q1(2)] by (simp add: distinct_count_atmost_1)
  then have "count (mset (seq q)) r = 0" unfolding q1(3) by simp
  then have "r \<notin> set (seq q)" by (simp add: count_eq_zero_iff)
  with remove_ok[OF q1(2)] q1 s show ?thesis by fastforce
qed

end

section \<open>Both queues satisfy it\<close>

definition fcfs_fits :: "qreq \<Rightarrow> fcfs_queue \<Rightarrow> bool" where
  "fcfs_fits r q \<longleftrightarrow> r \<notin> set q"

interpretation fcfs: policy_queue distinct fcfs_fits "\<lambda>q. q" fcfs_add fcfs_pop fcfs_peek fcfs_remove fcfs_iter
  by unfold_locales
    (auto simp: fcfs_pop_def fcfs_peek_def fcfs_add_def fcfs_fits_def fcfs_remove_def fcfs_iter_def
      distinct_remove1_removeAll removeAll_filter_not_eq split: list.splits intro: filter_cong)

definition prio_ok :: "prio_queue \<Rightarrow> bool" where
  "prio_ok q \<longleftrightarrow> heap_from 0 q \<and> no_ties (set q) \<and> distinct q"

definition prio_fits :: "qreq \<Rightarrow> prio_queue \<Rightarrow> bool" where
  "prio_fits r q \<longleftrightarrow> r \<notin> set q \<and> no_ties (insert r (set q))"

definition prio_seq :: "prio_queue \<Rightarrow> qreq list" where
  "prio_seq q = sort_key qkey q"

lemma prio_seq_unique:
  assumes "no_ties (set q)" "mset rs = mset q" "sorted (map qkey rs)"
  shows "prio_seq q = rs"
  using assms by (auto simp: prio_seq_def no_ties_inj intro!: sort_key_inj_key_eq)

lemma prio_seq_Cons:
  assumes "prio_ok q" "q \<noteq> []" "mset q = add_mset (q ! 0) (mset q')" "heap_from 0 q'"
  shows "prio_seq q = q ! 0 # prio_seq q'" "prio_ok q'"
proof -
  have nt: "no_ties (set q)" and h: "heap_from 0 q" and d: "distinct q" using assms(1) by (auto simp: prio_ok_def)
  have sub: "set q = insert (q ! 0) (set q')" using assms(3) by (metis set_mset_add_mset_insert set_mset_mset)
  have nt': "no_ties (set q')" using no_ties_subset[OF nt] sub by blast
  have "distinct q'" using assms(3) d by (metis distinct.simps(2) mset.simps(2) mset_eq_imp_distinct_iff)
  then show "prio_ok q'" using nt' assms(4) by (simp add: prio_ok_def)
  show "prio_seq q = q ! 0 # prio_seq q'"
  proof (rule prio_seq_unique[OF nt])
    show "mset (q ! 0 # prio_seq q') = mset q" using assms(3) by (simp add: prio_seq_def)
    have "qkey (q ! 0) \<le> qkey x" if "x \<in> set q'" for x
      using heap_root_min[OF h] that sub by (metis in_set_conv_nth insertCI)
    then show "sorted (map qkey (q ! 0 # prio_seq q'))" by (simp add: prio_seq_def)
  qed
qed

lemma heap_same_elems:
  assumes "prio_ok q" "mset q' = mset q" "heap_from 0 q'"
  shows "prio_ok q'"
  using assms by (metis mset_eq_imp_distinct_iff prio_ok_def set_mset_mset)

interpretation prio: policy_queue prio_ok prio_fits prio_seq prio_add prio_pop prio_peek prio_remove prio_iter
proof unfold_locales
  fix q assume ok: "prio_ok q"
  then have h: "heap_from 0 q" and nt: "no_ties (set q)" and d: "distinct q" by (auto simp: prio_ok_def)
  have nil: "prio_seq q = [] \<longleftrightarrow> q = []" by (metis length_0_conv length_sort prio_seq_def)
  show "distinct (prio_seq q)" using d by (simp add: prio_seq_def)
  show "prio_pop q = Inl IndexError" if "prio_seq q = []" using that nil by (simp add: prio_pop_def)
  have pop: "\<exists>q'. heappop q = Inr (q ! 0, q') \<and> prio_ok q' \<and> prio_seq q = q ! 0 # prio_seq q'" if "q \<noteq> []"
    using heappop_ok[OF h nt that] prio_seq_Cons[OF ok that] by blast
  then show "\<exists>q'. prio_pop q = Inr (r, q') \<and> prio_ok q' \<and> prio_seq q' = rs" if "prio_seq q = r # rs" for r rs
    using that nil by (auto simp: prio_pop_def)
  show "prio_peek q = (case prio_seq q of [] \<Rightarrow> Inl IndexError | r # _ \<Rightarrow> Inr r)"
    using pop nil by (cases "q = []") (auto simp: prio_peek_def)
  show "\<exists>q'. prio_add r q = Inr q' \<and> prio_ok q' \<and> mset (prio_seq q') = add_mset r (mset (prio_seq q))"
    if "prio_fits r q" for r
  proof -
    have f: "no_ties (insert r (set q))" "r \<notin> set q" using that by (auto simp: prio_fits_def)
    obtain q' where q': "heappush q r = Inr q'" "heap_from 0 q'" "mset q' = add_mset r (mset q)"
      using heappush_ok[OF h f(1)] by blast
    have "set q' = insert r (set q)" using q'(3) by (metis set_mset_add_mset_insert set_mset_mset)
    moreover have "distinct q'" using q'(3) f(2) d by (metis distinct.simps(2) mset.simps(2) mset_eq_imp_distinct_iff)
    ultimately show ?thesis using q' f(1) by (auto simp: prio_add_def prio_ok_def prio_seq_def)
  qed
  show "\<exists>q'. prio_remove r q = Inr q' \<and> prio_ok q' \<and> prio_seq q' = filter (\<lambda>x. x \<noteq> r) (prio_seq q)" for r
  proof -
    let ?f = "filter (\<lambda>x. x \<noteq> r) q"
    have nf: "no_ties (set ?f)" using no_ties_subset[OF nt] by auto
    obtain q' where q': "heapify ?f = Inr q'" "heap_from 0 q'" "mset q' = mset ?f"
      using heapify_ok[OF nf] by blast
    have s: "set q' = set ?f" using q'(3) by (metis set_mset_mset)
    have "prio_seq q' = filter (\<lambda>x. x \<noteq> r) (prio_seq q)"
      using nf q'(3) by (intro prio_seq_unique) (simp_all add: s prio_seq_def sorted_filter)
    moreover have "prio_ok q'" using q' s nf d by (metis distinct_filter mset_eq_imp_distinct_iff prio_ok_def)
    ultimately show ?thesis using q'(1) by (auto simp: prio_remove_def)
  qed
  show "prio_iter q = Inr (prio_seq q)"
    unfolding prio_iter_def using ok
  proof (induction "length q" arbitrary: q)
    case 0
    then show ?case by (simp add: prio_seq_def)
  next
    case (Suc n)
    then have ne: "q \<noteq> []" and h: "heap_from 0 q" and nt: "no_ties (set q)" by (auto simp: prio_ok_def)
    obtain q' where q': "heappop q = Inr (q ! 0, q')" "heap_from 0 q'" "mset q = add_mset (q ! 0) (mset q')"
      using heappop_ok[OF h nt ne] by blast
    have "length q' = n" using q'(3) Suc.hyps(2) by (metis Suc_inject size_add_mset size_mset)
    with Suc(1)[of q'] prio_seq_Cons[OF Suc.prems ne q'(3,2)] q'(1) ne Suc.hyps(2)[symmetric] show ?case by simp
  qed
qed

text \<open>The queue that \<^verbatim>\<open>create_request_queue\<close> chooses satisfies it whatever the policy.\<close>

definition rqueue_ok :: "request_queue \<Rightarrow> bool" where
  "rqueue_ok q = (case q of Fcfs_Queue l \<Rightarrow> distinct l | Prio_Queue h \<Rightarrow> prio_ok h)"

definition queue_fits :: "qreq \<Rightarrow> request_queue \<Rightarrow> bool" where
  "queue_fits r q = (case q of Fcfs_Queue l \<Rightarrow> fcfs_fits r l | Prio_Queue h \<Rightarrow> prio_fits r h)"

definition queue_seq :: "request_queue \<Rightarrow> qreq list" where
  "queue_seq q = (case q of Fcfs_Queue l \<Rightarrow> l | Prio_Queue h \<Rightarrow> prio_seq h)"

interpretation rq: policy_queue rqueue_ok queue_fits queue_seq add_request pop_request peek_request
  remove_request iter_requests
proof unfold_locales
  fix q assume ok: "rqueue_ok q"
  show "distinct (queue_seq q)"
    using ok prio.seq_distinct by (cases q) (auto simp: rqueue_ok_def queue_seq_def)
  show "pop_request q = Inl IndexError" if "queue_seq q = []"
    using ok that fcfs.pop_Nil prio.pop_Nil by (cases q) (auto simp: rqueue_ok_def queue_seq_def pop_request_def)
  show "\<exists>q'. pop_request q = Inr (r, q') \<and> rqueue_ok q' \<and> queue_seq q' = rs" if "queue_seq q = r # rs" for r rs
  proof (cases q)
    case (Fcfs_Queue l)
    with ok that fcfs.pop_Cons[of l r rs] show ?thesis by (auto simp: rqueue_ok_def queue_seq_def pop_request_def)
  next
    case (Prio_Queue h)
    with ok that prio.pop_Cons[of h r rs] show ?thesis by (auto simp: rqueue_ok_def queue_seq_def pop_request_def)
  qed
  show "peek_request q = (case queue_seq q of [] \<Rightarrow> Inl IndexError | r # _ \<Rightarrow> Inr r)"
    using ok fcfs.peek_seq prio.peek_seq by (cases q) (auto simp: rqueue_ok_def queue_seq_def peek_request_def)
  show "\<exists>q'. add_request r q = Inr q' \<and> rqueue_ok q' \<and> mset (queue_seq q') = add_mset r (mset (queue_seq q))"
    if "queue_fits r q" for r
  proof (cases q)
    case (Fcfs_Queue l)
    with ok that fcfs.add_ok[of l r] show ?thesis
      by (auto simp: rqueue_ok_def queue_seq_def queue_fits_def add_request_def lift_queue_def)
  next
    case (Prio_Queue h)
    with ok that prio.add_ok[of h r] show ?thesis
      by (auto simp: rqueue_ok_def queue_seq_def queue_fits_def add_request_def lift_queue_def)
  qed
  show "\<exists>q'. remove_request r q = Inr q' \<and> rqueue_ok q' \<and> queue_seq q' = filter (\<lambda>x. x \<noteq> r) (queue_seq q)"
    if "r \<in> set (queue_seq q)" for r
  proof (cases q)
    case (Fcfs_Queue l)
    with ok that fcfs.remove_ok[of l r] show ?thesis
      by (auto simp: rqueue_ok_def queue_seq_def remove_request_def lift_queue_def)
  next
    case (Prio_Queue h)
    with ok that prio.remove_ok[of h r] show ?thesis
      by (auto simp: rqueue_ok_def queue_seq_def remove_request_def lift_queue_def)
  qed
  show "iter_requests q = Inr (queue_seq q)"
    using ok fcfs.iter_seq prio.iter_seq by (cases q) (auto simp: rqueue_ok_def queue_seq_def iter_requests_def)
qed

text \<open>Removing several requests at once.\<close>

lemma remove_requests_ok:
  assumes "rqueue_ok q"
  shows "\<exists>q'. remove_requests rs q = Inr q' \<and> rqueue_ok q' \<and> queue_seq q' = filter (\<lambda>x. x \<notin> set rs) (queue_seq q)"
proof (cases q)
  case (Fcfs_Queue l)
  with assms show ?thesis by (simp add: rqueue_ok_def remove_requests_def lift_queue_def fcfs_remove_all_def queue_seq_def)
next
  case (Prio_Queue h)
  with assms have nt: "no_ties (set h)" and d: "distinct h" by (auto simp: rqueue_ok_def prio_ok_def)
  let ?f = "filter (\<lambda>x. x \<notin> set rs) h"
  have nf: "no_ties (set ?f)" using no_ties_subset[OF nt] by auto
  obtain h' where h': "heapify ?f = Inr h'" "heap_from 0 h'" "mset h' = mset ?f" using heapify_ok[OF nf] by blast
  have s: "set h' = set ?f" using h'(3) by (metis set_mset_mset)
  have "prio_seq h' = filter (\<lambda>x. x \<notin> set rs) (prio_seq h)"
    using nf h'(3) by (intro prio_seq_unique) (simp_all add: s prio_seq_def sorted_filter)
  moreover have "prio_ok h'" using h' s nf d by (metis distinct_filter mset_eq_imp_distinct_iff prio_ok_def)
  ultimately show ?thesis
    using Prio_Queue h'(1) by (simp add: rqueue_ok_def remove_requests_def lift_queue_def prio_remove_all_def queue_seq_def)
qed

text \<open>A pop shortens any queue by one, whether or not it is a heap.\<close>

lemma siftdown_length: "siftdown h s pos x = Inr h' \<Longrightarrow> length h' = length h"
proof (induction h s pos x rule: siftdown.induct)
  case (1 h s pos x)
  show ?case
  proof (cases "pos > s")
    case True
    obtain b where b: "tuple_less x (h ! par pos) = Inr b"
      using "1.prems"[unfolded siftdown.simps[of h s pos x]] True by (auto simp: Let_def)
    have c: "(if b then siftdown (h[pos := h ! par pos]) s (par pos) x else Inr (h[pos := x])) = Inr h'"
      using "1.prems"[unfolded siftdown.simps[of h s pos x]] True b by (cases b) (simp_all add: Let_def)
    show ?thesis
    proof (cases b)
      case True
      with c have "siftdown (h[pos := h ! par pos]) s (par pos) x = Inr h'" by simp
      with "1.IH"[OF \<open>s < pos\<close> refl refl True] show ?thesis by simp
    next
      case False
      with c show ?thesis by auto
    qed
  next
    case False
    with "1.prems" show ?thesis by (subst (asm) siftdown.simps) auto
  qed
qed

lemma siftup_loop_length: "siftup_loop h pos = Inr (h', pos') \<Longrightarrow> length h' = length h"
proof (induction "length h - pos" arbitrary: h pos rule: less_induct)
  case less
  show ?case
  proof (cases "2 * pos + 1 < length h")
    case True
    with less.prems[unfolded siftup_loop.simps[of h pos]] obtain c where "c = 2 * pos + 1 \<or> c = 2 * pos + 2" "siftup_loop (h[pos := h ! c]) c = Inr (h', pos')"
      by (fastforce simp: Let_def split: if_splits)
    with less.hyps[of "h[pos := h ! c]" c] True show ?thesis by auto
  next
    case False
    with less.prems show ?thesis by (subst (asm) siftup_loop.simps) auto
  qed
qed

lemma heappop_length: "heappop h = Inr (e, h') \<Longrightarrow> length h = Suc (length h')"
  by (cases h rule: rev_cases)
    (auto simp: heappop_def siftup_def Let_def dest!: siftdown_length siftup_loop_length split: if_splits)

lemma pop_request_length: "pop_request q = Inr (e, q') \<Longrightarrow> queue_len q = Suc (queue_len q')"
  by (auto simp: pop_request_def queue_len_def fcfs_pop_def prio_pop_def dest: heappop_length
      split: request_queue.splits list.splits if_splits)

section \<open>Properties\<close>

text \<open>C35: popping a priority queue until it is empty returns every request exactly once, in
  ascending order of priority and, within a priority, of arrival time; iterating over the queue
  gives the same order. This is for a queue in which no two requests have both the same
  priority and the same arrival time (\<open>no_ties\<close>, part of \<open>prio_ok\<close>): with such a pair the heap
  compares the two requests themselves and the operation raises, see \<open>priority_tie_raises\<close>.\<close>

theorem priority_queue_order:
  assumes "prio_ok q"
  shows "\<exists>rs q'. for_each (\<lambda>_ (acc, q). bnd (prio_pop q) (\<lambda>(r, q'). Inr (acc @ [r], q'))) [0..<length rs] ([], q) = Inr (rs, q')
    \<and> prio_iter q = Inr rs \<and> mset rs = mset q \<and> sorted (map qkey rs)"
proof -
  have "mset (prio_seq q) = mset q" "sorted (map qkey (prio_seq q))" by (simp_all add: prio_seq_def)
  with prio.pop_all[OF assms] prio.iter_seq[OF assms] show ?thesis by blast
qed

theorem priority_queue_order_witness:
  "\<exists>q rs. for_each prio_add [(5, 1, ''a''), (2, 9, ''b''), (2, 3, ''c'')] [] = Inr q
    \<and> prio_iter q = Inr rs \<and> sorted (map qkey rs) \<and> length rs = 3"
proof -
  have nt: "no_ties {(5, 1, ''a''), (2, 9, ''b''), (2, 3, ''c'')}" by (simp add: no_ties_def qkey_def)
  have e: "prio_ok []" by (simp add: prio_ok_def heap_from_def no_ties_def)
  obtain q1 where q1: "prio_add (5, 1, ''a'') [] = Inr q1" "prio_ok q1" "mset (prio_seq q1) = {#(5, 1, ''a'')#}"
    using prio.add_ok[OF e, of "(5, 1, ''a'')"] by (auto simp: prio_fits_def no_ties_def prio_seq_def)
  then have s1: "set q1 = {(5, 1, ''a'')}" by (metis mset_sort prio_seq_def set_mset_mset set_mset_single)
  obtain q2 where q2: "prio_add (2, 9, ''b'') q1 = Inr q2" "prio_ok q2"
      "mset (prio_seq q2) = {#(2, 9, ''b''), (5, 1, ''a'')#}"
    using prio.add_ok[OF q1(2), of "(2, 9, ''b'')"] q1(3) s1 by (auto simp: prio_fits_def no_ties_def qkey_def)
  then have s2: "set q2 = {(2, 9, ''b''), (5, 1, ''a'')}"
    by (metis mset_sort prio_seq_def set_mset_mset set_mset_add_mset_insert set_mset_single)
  obtain q3 where q3: "prio_add (2, 3, ''c'') q2 = Inr q3" "prio_ok q3"
      "mset (prio_seq q3) = {#(2, 3, ''c''), (2, 9, ''b''), (5, 1, ''a'')#}"
    using prio.add_ok[OF q2(2), of "(2, 3, ''c'')"] q2(3) s2 by (auto simp: prio_fits_def no_ties_def qkey_def)
  obtain rs where "prio_iter q3 = Inr rs" "mset rs = mset q3" "sorted (map qkey rs)"
    using priority_queue_order[OF q3(2)] by blast
  moreover have "length q3 = 3" using q3(3) by (metis mset_sort prio_seq_def size_mset size_add_mset size_empty numeral_3_eq_3)
  ultimately show ?thesis using q1(1) q2(1) q3(1) by (auto dest: mset_eq_length)
qed

text \<open>two different requests with the same priority and the same arrival time cannot both
  wait in a priority queue: pushing the second one compares the request objects and raises
  \<^verbatim>\<open>TypeError\<close>.\<close>

theorem priority_tie_raises:
  assumes "a \<noteq> b"
  shows "bnd (prio_add (p, t, a) []) (prio_add (p, t, b)) = Inl TypeError"
  using assms by (simp add: prio_add_def heappush_def siftdown.simps tuple_less_def)

theorem priority_tie_raises_witness:
  "bnd (prio_add (0, 7, ''a'') []) (prio_add (0, 7, ''b'')) = Inl TypeError"
  by (rule priority_tie_raises) simp

end
