(* ===== verification/Encoder_Cache.thy ===== *)
theory Encoder_Cache
  imports Request_Model "HOL-Library.AList"
begin

text \<open>
  The encoder cache manager of \<^verbatim>\<open>vllm/v1/core/encoder_cache_manager.py\<close>: which multi-modal
  encoder outputs are cached, which requests reference them, and how much space is free or
  can be reclaimed by evicting unreferenced entries, oldest first.
\<close>

section \<open>State\<close>

record encoder_cache =
  cache_size :: int
  num_free_slots :: int
  num_freeable_slots :: int
  cached :: "string \<rightharpoonup> string set"
  freeable :: "(string \<times> int) list"
  freed :: "string list"

definition encoder_cache_init :: "int \<Rightarrow> encoder_cache" where
  "encoder_cache_init n = \<lparr>cache_size = n, num_free_slots = n, num_freeable_slots = n,
     cached = Map.empty, freeable = [], freed = []\<rparr>"

definition mm_hash_of :: "request \<Rightarrow> nat \<Rightarrow> string result" where
  "mm_hash_of r i = bnd (index_py (mm_features r) i) (\<lambda>f. Inr (mm_identifier f))"

section \<open>Operations\<close>

definition check_and_update_cache :: "request \<Rightarrow> nat \<Rightarrow> encoder_cache \<Rightarrow> (bool \<times> encoder_cache) result" where
  "check_and_update_cache r input_id c =
     bnd (mm_hash_of r input_id) (\<lambda>mm_hash.
       case cached c mm_hash of
         None \<Rightarrow> Inr (False, c)
       | Some ids \<Rightarrow>
           bnd (if ids = {}
                then bnd (lookup_py (map_of (freeable c)) mm_hash) (\<lambda>n.
                       Inr (c\<lparr>freeable := AList.delete mm_hash (freeable c),
                              num_freeable_slots := num_freeable_slots c - n\<rparr>))
                else Inr c)
             (\<lambda>c1. Inr (True, c1\<lparr>cached := (cached c1)(mm_hash \<mapsto> insert (request_id r) ids)\<rparr>)))"

text \<open>The eviction loop of \<^verbatim>\<open>can_allocate\<close>, over the entries of the ordered dict.\<close>

fun evict_loop :: "int \<Rightarrow> (string \<times> int) list \<Rightarrow> encoder_cache \<Rightarrow> encoder_cache result" where
  "evict_loop total_tokens entries c =
     (if total_tokens > num_free_slots c
      then (case entries of
          [] \<Rightarrow> Inl KeyError
        | (mm_hash, num_free_token) # rest \<Rightarrow>
            if cached c mm_hash = None then Inl KeyError
            else evict_loop total_tokens rest
              (c\<lparr>freeable := rest, cached := (cached c)(mm_hash := None), freed := freed c @ [mm_hash],
                 num_free_slots := num_free_slots c + num_free_token\<rparr>))
      else Inr c)"

declare evict_loop.simps [simp del]

definition can_allocate :: "request \<Rightarrow> nat \<Rightarrow> int \<Rightarrow> int \<Rightarrow> encoder_cache \<Rightarrow> (bool \<times> encoder_cache) result" where
  "can_allocate r input_id encoder_compute_budget num_tokens_to_schedule c =
     bnd (get_num_encoder_tokens r input_id) (\<lambda>n.
       if n > encoder_compute_budget then Inr (False, c)
       else let total_tokens = n + num_tokens_to_schedule in
         if total_tokens \<le> num_free_slots c then Inr (True, c)
         else if total_tokens > num_freeable_slots c then Inr (False, c)
         else bnd (evict_loop total_tokens (freeable c) c) (\<lambda>c1. Inr (True, c1)))"

definition allocate :: "request \<Rightarrow> nat \<Rightarrow> encoder_cache \<Rightarrow> encoder_cache result" where
  "allocate r input_id c =
     bnd (mm_hash_of r input_id) (\<lambda>mm_hash.
       let c1 = (if cached c mm_hash = None then c\<lparr>cached := (cached c)(mm_hash \<mapsto> {})\<rparr> else c)
       in bnd (get_num_encoder_tokens r input_id) (\<lambda>n.
            check (num_free_slots c1 \<ge> n) AssertionError
              (check (num_freeable_slots c1 \<ge> n) AssertionError
                (Inr (c1\<lparr>cached := (cached c1)(mm_hash \<mapsto> insert (request_id r) (the (cached c1 mm_hash))),
                         num_free_slots := num_free_slots c1 - n,
                         num_freeable_slots := num_freeable_slots c1 - n\<rparr>)))))"

definition get_cached_input_ids :: "request \<Rightarrow> encoder_cache \<Rightarrow> nat set" where
  "get_cached_input_ids r c =
     set (filter (\<lambda>i. cached c (mm_identifier (mm_features r ! i)) \<noteq> None) [0..<length (mm_features r)])"

definition free_encoder_input :: "request \<Rightarrow> nat \<Rightarrow> encoder_cache \<Rightarrow> encoder_cache result" where
  "free_encoder_input r input_id c =
     bnd (mm_hash_of r input_id) (\<lambda>mm_hash.
       case cached c mm_hash of
         None \<Rightarrow> Inr c
       | Some ids \<Rightarrow>
           if ids = {} then Inr c
           else let ids' = ids - {request_id r}; c1 = c\<lparr>cached := (cached c)(mm_hash \<mapsto> ids')\<rparr>
             in if ids' = {}
                then bnd (get_num_encoder_tokens r input_id) (\<lambda>n.
                       Inr (c1\<lparr>freeable := AList.update mm_hash n (freeable c1),
                               num_freeable_slots := num_freeable_slots c1 + n\<rparr>))
                else Inr c1)"

text \<open>\<^verbatim>\<open>free\<close> runs over a set of input ids; the order in which the set is iterated is an
  argument.\<close>

definition free_inputs :: "request \<Rightarrow> nat list \<Rightarrow> encoder_cache \<Rightarrow> encoder_cache result" where
  "free_inputs r input_ids c = for_each (free_encoder_input r) input_ids c"

definition get_freed_mm_hashes :: "encoder_cache \<Rightarrow> string list \<times> encoder_cache" where
  "get_freed_mm_hashes c = (freed c, c\<lparr>freed := []\<rparr>)"

section \<open>Budgets\<close>

record encoder_budget_config =
  disable_chunked_mm_input :: bool
  ebc_max_num_batched_tokens :: int
  max_num_encoder_input_tokens :: int
  encoder_cache_size :: int

definition compute_text_encoder_budget :: "encoder_budget_config \<Rightarrow> int \<times> int" where
  "compute_text_encoder_budget cfg = (0, 0)"

definition compute_mm_encoder_budget :: "encoder_budget_config \<Rightarrow> (string \<times> int) list \<Rightarrow> (int \<times> int) result" where
  "compute_mm_encoder_budget cfg max_tokens_by_modality =
     (if max_tokens_by_modality = [] then Inr (0, 0)
      else let m = Max (set (map snd max_tokens_by_modality)) in
        if disable_chunked_mm_input cfg \<and> m > ebc_max_num_batched_tokens cfg then Inl ValueError
        else Inr (max (max_num_encoder_input_tokens cfg) m, max (encoder_cache_size cfg) m))"

text \<open>The modalities come from the registry of the model, which is not part of this theory.\<close>

definition compute_encoder_budget :: "bool \<Rightarrow> (string \<times> int) list \<Rightarrow> encoder_budget_config \<Rightarrow> (int \<times> int) result" where
  "compute_encoder_budget supports_multimodal max_tokens_by_modality cfg =
     (if supports_multimodal then compute_mm_encoder_budget cfg max_tokens_by_modality
      else Inr (compute_text_encoder_budget cfg))"

section \<open>Invariant\<close>

text \<open>\<open>sz\<close> is the number of encoder tokens of the input with a given hash.\<close>

definition enc_inv :: "(string \<Rightarrow> int) \<Rightarrow> encoder_cache \<Rightarrow> bool" where
  "enc_inv sz c \<longleftrightarrow> finite (dom (cached c)) \<and> (\<forall>h. sz h \<ge> 0)
     \<and> distinct (map fst (freeable c)) \<and> fst ` set (freeable c) = {h. cached c h = Some {}}
     \<and> (\<forall>(h, n)\<in>set (freeable c). n = sz h)
     \<and> num_free_slots c = cache_size c - sum sz (dom (cached c)) \<and> num_free_slots c \<ge> 0
     \<and> num_freeable_slots c = num_free_slots c + sum sz {h. cached c h = Some {}}"

definition input_size_ok :: "(string \<Rightarrow> int) \<Rightarrow> request \<Rightarrow> nat \<Rightarrow> bool" where
  "input_size_ok sz r i \<longleftrightarrow> i < length (mm_features r)
     \<and> mm_length (mm_position (mm_features r ! i)) = sz (mm_identifier (mm_features r ! i))"

section \<open>Lemmas\<close>

lemma mm_hash_of_ok: "input_size_ok sz r i \<Longrightarrow> mm_hash_of r i = Inr (mm_identifier (mm_features r ! i))"
  by (simp add: mm_hash_of_def input_size_ok_def index_py_def)

lemma encoder_tokens_ok:
  "input_size_ok sz r i \<Longrightarrow> get_num_encoder_tokens r i = Inr (sz (mm_identifier (mm_features r ! i)))"
  by (simp add: get_num_encoder_tokens_def input_size_ok_def)

lemma enc_init_inv: "n \<ge> 0 \<Longrightarrow> \<forall>h. sz h \<ge> 0 \<Longrightarrow> enc_inv sz (encoder_cache_init n)"
  by (simp add: enc_inv_def encoder_cache_init_def)

lemma enc_invD:
  assumes "enc_inv sz c"
  shows "finite (dom (cached c))" "\<And>h. sz h \<ge> 0" "distinct (map fst (freeable c))"
    "fst ` set (freeable c) = {h. cached c h = Some {}}" "\<And>h n. (h, n) \<in> set (freeable c) \<Longrightarrow> n = sz h"
    "num_free_slots c = cache_size c - sum sz (dom (cached c))" "num_free_slots c \<ge> 0"
    "num_freeable_slots c = num_free_slots c + sum sz {h. cached c h = Some {}}"
    "finite {h. cached c h = Some {}}"
  using assms unfolding enc_inv_def
  by (auto intro: finite_subset[of _ "dom (cached c)"])

text \<open>Giving an unreferenced entry a reference takes it off the reclaimable space.\<close>

lemma check_and_update_ok:
  assumes inv: "enc_inv sz c" and i: "input_size_ok sz r i"
  defines "h \<equiv> mm_identifier (mm_features r ! i)"
  shows "\<exists>c'. check_and_update_cache r i c = Inr (cached c h \<noteq> None, c') \<and> enc_inv sz c'
    \<and> cached c' = (case cached c h of None \<Rightarrow> cached c | Some ids \<Rightarrow> (cached c)(h \<mapsto> insert (request_id r) ids))
    \<and> num_free_slots c' = num_free_slots c"
proof (cases "cached c h")
  case None
  with inv mm_hash_of_ok[OF i] show ?thesis by (simp add: check_and_update_cache_def h_def)
next
  case (Some ids)
  let ?m = "(cached c)(h \<mapsto> insert (request_id r) ids)"
  have dom: "dom ?m = dom (cached c)" "insert h (dom (cached c)) = dom (cached c)" using Some by auto
  note D = enc_invD[OF inv]
  show ?thesis
  proof (cases "ids = {}")
    case False
    then have E: "{x. ?m x = Some {}} = {x. cached c x = Some {}}" using Some by auto
    have "enc_inv sz (c\<lparr>cached := ?m\<rparr>)" using inv unfolding enc_inv_def by (simp add: E dom del: fun_upd_apply)
    with Some False mm_hash_of_ok[OF i] show ?thesis by (simp add: check_and_update_cache_def h_def)
  next
    case True
    have "h \<in> fst ` set (freeable c)" using Some True D(4) by auto
    then obtain n where n: "map_of (freeable c) h = Some n" by (metis map_of_eq_None_iff not_None_eq)
    then have nsz: "n = sz h" using D(5) by (auto dest: map_of_SomeD)
    let ?c = "c\<lparr>freeable := AList.delete h (freeable c), num_freeable_slots := num_freeable_slots c - n, cached := ?m\<rparr>"
    have E: "{x. ?m x = Some {}} = {x. cached c x = Some {}} - {h}" using Some True by auto
    have "sum sz ({x. cached c x = Some {}} - {h}) = sum sz {x. cached c x = Some {}} - sz h"
      using D(9) Some True by (simp add: sum_diff1)
    moreover have "fst ` set (AList.delete h (freeable c)) = fst ` set (freeable c) - {h}"
      by (auto simp: AList.delete_eq)
    ultimately have "enc_inv sz ?c"
      using inv unfolding enc_inv_def
      by (simp add: E dom nsz distinct_delete del: fun_upd_apply) (auto simp: AList.delete_eq)
    moreover have "check_and_update_cache r i c = Inr (True, ?c)"
      using Some True n mm_hash_of_ok[OF i] by (simp add: check_and_update_cache_def h_def lookup_py_def)
    ultimately show ?thesis using Some by auto
  qed
qed

lemma evict_one:
  assumes inv: "enc_inv sz c" and f: "freeable c = (h, n) # rest"
  defines "c1 \<equiv> c\<lparr>freeable := rest, cached := (cached c)(h := None), freed := freed c @ [h],
    num_free_slots := num_free_slots c + n\<rparr>"
  shows "enc_inv sz c1 \<and> cached c h = Some {} \<and> num_freeable_slots c1 = num_freeable_slots c"
proof -
  note D = enc_invD[OF inv]
  have h: "cached c h = Some {}" "n = sz h" "h \<notin> fst ` set rest" using D(3-5) f by auto
  have E: "{x. ((cached c)(h := None)) x = Some {}} = {x. cached c x = Some {}} - {h}" by auto
  have s1: "sum sz ({x. cached c x = Some {}} - {h}) = sum sz {x. cached c x = Some {}} - sz h"
    using D(9) h(1) by (simp add: sum_diff1)
  have s2: "sum sz (dom (cached c) - {h}) = sum sz (dom (cached c)) - sz h"
    using D(1) h(1) by (simp add: sum_diff1 domI)
  have "fst ` set rest = {x. cached c x = Some {}} - {h}" using D(4) f h(3) by auto
  moreover have c1: "freeable c1 = rest" "cached c1 = (cached c)(h := None)" "cache_size c1 = cache_size c"
    "num_free_slots c1 = num_free_slots c + sz h" "num_freeable_slots c1 = num_freeable_slots c"
    by (simp_all add: c1_def h(2))
  moreover have "dom (cached c1) = dom (cached c) - {h}" unfolding c1 by simp
  ultimately have "enc_inv sz c1"
    unfolding enc_inv_def c1(2) E using D(1-3) D(5-8) f s1 s2 by (auto simp: c1)
  then show ?thesis using h(1) c1 by simp
qed

lemma evict_loop_ok:
  assumes "enc_inv sz c" "need \<le> num_freeable_slots c"
  shows "\<exists>c' k. evict_loop need (freeable c) c = Inr c' \<and> enc_inv sz c' \<and> need \<le> num_free_slots c'
    \<and> num_freeable_slots c' = num_freeable_slots c \<and> cache_size c' = cache_size c
    \<and> freeable c' = drop k (freeable c) \<and> freed c' = freed c @ map fst (take k (freeable c))
    \<and> (\<forall>h. cached c' h = (if h \<in> fst ` set (take k (freeable c)) then None else cached c h))"
  using assms
proof (induction "freeable c" arbitrary: c)
  case Nil
  note D = enc_invD[OF Nil.prems(1)]
  have "{h. cached c h = Some {}} = {}" using D(4) Nil.hyps[symmetric] by auto
  then have "num_freeable_slots c = num_free_slots c" unfolding D(8) by simp
  with Nil show ?case by (intro exI[of _ c] exI[of _ 0]) (simp add: evict_loop.simps Nil.hyps[symmetric])
next
  case (Cons e rest)
  obtain h n where e: "e = (h, n)" by fastforce
  show ?case
  proof (cases "need > num_free_slots c")
    case False
    with Cons.prems show ?thesis by (intro exI[of _ c] exI[of _ 0]) (simp add: evict_loop.simps)
  next
    case True
    define c1 where "c1 = c\<lparr>freeable := rest, cached := (cached c)(h := None), freed := freed c @ [h],
      num_free_slots := num_free_slots c + n\<rparr>"
    have 1: "enc_inv sz c1" "cached c h = Some {}" "num_freeable_slots c1 = num_freeable_slots c"
      using evict_one[OF Cons.prems(1), of h n rest] Cons.hyps(2) e by (simp_all add: c1_def)
    have c1: "freeable c1 = rest" "freed c1 = freed c @ [h]" "cached c1 = (cached c)(h := None)" "cache_size c1 = cache_size c"
      by (simp_all add: c1_def)
    have "\<exists>c' k. evict_loop need (freeable c1) c1 = Inr c' \<and> enc_inv sz c' \<and> need \<le> num_free_slots c'
      \<and> num_freeable_slots c' = num_freeable_slots c1 \<and> cache_size c' = cache_size c1
      \<and> freeable c' = drop k (freeable c1) \<and> freed c' = freed c1 @ map fst (take k (freeable c1))
      \<and> (\<forall>x. cached c' x = (if x \<in> fst ` set (take k (freeable c1)) then None else cached c1 x))"
      using Cons.hyps(1)[of c1] 1(1,3) Cons.prems(2) c1(1) by simp
    then obtain c' k where c': "evict_loop need rest c1 = Inr c'" "enc_inv sz c'" "need \<le> num_free_slots c'"
      "num_freeable_slots c' = num_freeable_slots c" "cache_size c' = cache_size c"
      "freeable c' = drop k rest" "freed c' = (freed c @ [h]) @ map fst (take k rest)"
      "\<forall>x. cached c' x = (if x \<in> fst ` set (take k rest) then None else ((cached c)(h := None)) x)"
      unfolding c1 1(3) by blast
    have "evict_loop need (freeable c) c = Inr c'"
      using True c'(1) 1(2) Cons.hyps(2)[symmetric] e by (subst evict_loop.simps) (simp add: c1_def)
    then show ?thesis
      using c' Cons.hyps(2)[symmetric] e by (intro exI[of _ c'] exI[of _ "Suc k"]) auto
  qed
qed

lemma can_allocate_ok:
  assumes inv: "enc_inv sz c" and i: "input_size_ok sz r i"
  defines "n \<equiv> sz (mm_identifier (mm_features r ! i))"
  shows "\<exists>c' k. can_allocate r i budget sched c
      = Inr (n \<le> budget \<and> n + sched \<le> max (num_free_slots c) (num_freeable_slots c), c') \<and> enc_inv sz c'
    \<and> (n \<le> budget \<and> n + sched \<le> max (num_free_slots c) (num_freeable_slots c) \<longrightarrow> n + sched \<le> num_free_slots c')
    \<and> num_freeable_slots c' = num_freeable_slots c
    \<and> freeable c' = drop k (freeable c) \<and> freed c' = freed c @ map fst (take k (freeable c))
    \<and> (\<forall>h. cached c' h = (if h \<in> fst ` set (take k (freeable c)) then None else cached c h))"
proof (cases "n \<le> budget \<and> num_free_slots c < n + sched \<and> n + sched \<le> num_freeable_slots c")
  case True
  from evict_loop_ok[OF inv, of "n + sched"] True encoder_tokens_ok[OF i] show ?thesis
    by (fastforce simp: can_allocate_def Let_def n_def)
next
  case False
  then have "\<exists>b. can_allocate r i budget sched c = Inr (b, c)
      \<and> b = (n \<le> budget \<and> n + sched \<le> max (num_free_slots c) (num_freeable_slots c)) \<and> (b \<longrightarrow> n + sched \<le> num_free_slots c)"
    using encoder_tokens_ok[OF i] by (auto simp: can_allocate_def Let_def n_def max_def)
  with inv show ?thesis by (intro exI[of _ c] exI[of _ 0]) auto
qed

lemma allocate_ok:
  assumes inv: "enc_inv sz c" and i: "input_size_ok sz r i"
    and new: "cached c (mm_identifier (mm_features r ! i)) = None"
    and room: "sz (mm_identifier (mm_features r ! i)) \<le> num_free_slots c"
  shows "\<exists>c'. allocate r i c = Inr c' \<and> enc_inv sz c'
    \<and> cached c' = (cached c)(mm_identifier (mm_features r ! i) \<mapsto> {request_id r})
    \<and> num_free_slots c' = num_free_slots c - sz (mm_identifier (mm_features r ! i))"
proof -
  define h where "h = mm_identifier (mm_features r ! i)"
  note D = enc_invD[OF inv]
  define c' where "c' = c\<lparr>cached := (cached c)(h \<mapsto> {request_id r}), num_free_slots := num_free_slots c - sz h,
    num_freeable_slots := num_freeable_slots c - sz h\<rparr>"
  have c': "cached c' = (cached c)(h \<mapsto> {request_id r})" "num_free_slots c' = num_free_slots c - sz h"
    "num_freeable_slots c' = num_freeable_slots c - sz h" "freeable c' = freeable c" "cache_size c' = cache_size c"
    by (simp_all add: c'_def)
  have "0 \<le> sum sz {h. cached c h = Some {}}" using D(2) by (simp add: sum_nonneg)
  then have room2: "sz h \<le> num_freeable_slots c" using room D(8) by (simp add: h_def)
  have E: "{x. ((cached c)(h \<mapsto> {request_id r})) x = Some {}} = {x. cached c x = Some {}}" using new by (auto simp: h_def)
  have "sum sz (insert h (dom (cached c))) = sz h + sum sz (dom (cached c))"
    using D(1) new by (intro sum.insert) (auto simp: h_def)
  moreover have "dom (cached c') = insert h (dom (cached c))" by (simp add: c')
  ultimately have "enc_inv sz c'"
    unfolding enc_inv_def c'(1) E using D(1-8) room by (auto simp: c' h_def)
  moreover have "allocate r i c = Inr c'"
    using mm_hash_of_ok[OF i] encoder_tokens_ok[OF i] new room room2
    by (simp add: allocate_def Let_def c'_def h_def)
  ultimately show ?thesis using c' by (auto simp: h_def)
qed

lemma alist_update_new: "k \<notin> fst ` set xs \<Longrightarrow> AList.update k v xs = xs @ [(k, v)]"
  by (induction xs) auto

lemma free_encoder_input_ok:
  assumes inv: "enc_inv sz c" and i: "input_size_ok sz r i"
  defines "h \<equiv> mm_identifier (mm_features r ! i)"
  shows "\<exists>c'. free_encoder_input r i c = Inr c' \<and> enc_inv sz c' \<and> num_free_slots c' = num_free_slots c
    \<and> cached c' = (case cached c h of None \<Rightarrow> cached c | Some ids \<Rightarrow> (cached c)(h \<mapsto> ids - {request_id r}))
    \<and> (\<exists>ys. freeable c' = freeable c @ ys)"
proof (cases "cached c h = None \<or> cached c h = Some {}")
  case True
  then have "free_encoder_input r i c = Inr c"
    using mm_hash_of_ok[OF i] by (auto simp: free_encoder_input_def h_def)
  moreover have "cached c = (case cached c h of None \<Rightarrow> cached c | Some ids \<Rightarrow> (cached c)(h \<mapsto> ids - {request_id r}))"
    using True by (auto simp: fun_eq_iff)
  ultimately show ?thesis using inv by (metis append_Nil2)
next
  case False
  then obtain ids where ids: "cached c h = Some ids" "ids \<noteq> {}" by auto
  let ?m = "(cached c)(h \<mapsto> ids - {request_id r})"
  note D = enc_invD[OF inv]
  have dom: "dom ?m = dom (cached c)" using ids by auto
  show ?thesis
  proof (cases "ids - {request_id r} = {}")
    case False
    let ?c = "c\<lparr>cached := ?m\<rparr>"
    have E: "{x. ?m x = Some {}} = {x. cached c x = Some {}}" using ids False by auto
    have "cached ?c = ?m" by simp
    then have "enc_inv sz ?c"
      unfolding enc_inv_def using D(1-8) by (simp only: E dom) auto
    moreover have "free_encoder_input r i c = Inr ?c"
      using mm_hash_of_ok[OF i] ids False by (simp add: free_encoder_input_def Let_def h_def[symmetric])
    ultimately show ?thesis using ids by auto
  next
    case True
    define c' where "c' = c\<lparr>cached := ?m, freeable := AList.update h (sz h) (freeable c),
      num_freeable_slots := num_freeable_slots c + sz h\<rparr>"
    have hn: "h \<notin> fst ` set (freeable c)" using D(4) ids by auto
    have c': "cached c' = ?m" "freeable c' = freeable c @ [(h, sz h)]" "num_free_slots c' = num_free_slots c"
      "num_freeable_slots c' = num_freeable_slots c + sz h" "cache_size c' = cache_size c"
      using alist_update_new[OF hn] by (simp_all add: c'_def)
    have E: "{x. ?m x = Some {}} = insert h {x. cached c x = Some {}}" using True by auto
    have "sum sz (insert h {x. cached c x = Some {}}) = sz h + sum sz {x. cached c x = Some {}}"
      using D(9) ids by (intro sum.insert) auto
    then have "enc_inv sz c'"
      unfolding enc_inv_def c'(1) E dom using D(1-8) hn by (auto simp: c')
    moreover have "free_encoder_input r i c = Inr c'"
      using mm_hash_of_ok[OF i] encoder_tokens_ok[OF i] ids True
      by (simp add: free_encoder_input_def Let_def h_def[symmetric] c'_def)
    ultimately show ?thesis using ids c' by auto
  qed
qed

lemma free_inputs_ok:
  assumes "enc_inv sz c" "\<forall>i\<in>set is. input_size_ok sz r i"
  shows "\<exists>c'. free_inputs r is c = Inr c' \<and> enc_inv sz c' \<and> num_free_slots c' = num_free_slots c
    \<and> (\<forall>h. cached c' h = (if h \<in> (\<lambda>i. mm_identifier (mm_features r ! i)) ` set is
         then map_option (\<lambda>ids. ids - {request_id r}) (cached c h) else cached c h))"
  using assms
proof (induction "is" arbitrary: c)
  case Nil
  then show ?case by (simp add: free_inputs_def)
next
  case (Cons i "is")
  let ?h = "mm_identifier (mm_features r ! i)"
  obtain c1 where c1: "free_encoder_input r i c = Inr c1" "enc_inv sz c1" "num_free_slots c1 = num_free_slots c"
    "cached c1 = (case cached c ?h of None \<Rightarrow> cached c | Some ids \<Rightarrow> (cached c)(?h \<mapsto> ids - {request_id r}))"
    using free_encoder_input_ok[OF Cons.prems(1), of r i] Cons.prems(2) by auto
  obtain c2 where c2: "free_inputs r is c1 = Inr c2" "enc_inv sz c2" "num_free_slots c2 = num_free_slots c1"
    "\<forall>h. cached c2 h = (if h \<in> (\<lambda>i. mm_identifier (mm_features r ! i)) ` set is
         then map_option (\<lambda>ids. ids - {request_id r}) (cached c1 h) else cached c1 h)"
    using Cons.IH[OF c1(2)] Cons.prems(2) by auto
  have "cached c1 h = (if h = ?h then map_option (\<lambda>ids. ids - {request_id r}) (cached c h) else cached c h)" for h
    using c1(4) by (auto split: option.splits)
  then have "cached c2 h = (if h \<in> (\<lambda>i. mm_identifier (mm_features r ! i)) ` set (i # is)
         then map_option (\<lambda>ids. ids - {request_id r}) (cached c h) else cached c h)" for h
    using c2(4) by (cases "cached c h") auto
  with c1 c2 show ?case by (simp add: free_inputs_def)
qed

section \<open>Properties\<close>

text \<open>A request with two images, and a cache that holds the first one unreferenced.\<close>

definition img_req :: request where
  "img_req = (new_request 0 \<lparr>a_request_id = ''r'', a_prompt_token_ids = Some [1, 2, 3, 4, 5],
       a_sampling_params = None, a_pooling_params = Some ''embed'', a_eos_token_id = None, a_client_index = 0,
       a_arrival_time = None, a_prompt_embeds = None,
       a_mm_features = Some [\<lparr>modality = ''image'', mm_identifier = ''A'', mm_position = \<lparr>offset = 0, mm_length = 2, is_embed = None\<rparr>\<rparr>,
         \<lparr>modality = ''image'', mm_identifier = ''B'', mm_position = \<lparr>offset = 2, mm_length = 3, is_embed = None\<rparr>\<rparr>],
       a_lora_request = None, a_structured_output_request = None, a_cache_salt = None, a_priority = 0\<rparr>
     1 WAITING False None 5)"

definition img_size :: "string \<Rightarrow> int" where
  "img_size h = (if h = ''A'' then 2 else 3)"

definition img_cache :: encoder_cache where
  "img_cache = \<lparr>cache_size = 4, num_free_slots = 2, num_freeable_slots = 4, cached = [''A'' \<mapsto> {}],
     freeable = [(''A'', 2)], freed = []\<rparr>"

lemma img_ok: "enc_inv img_size img_cache" "input_size_ok img_size img_req 1" "input_size_ok img_size img_req 0"
  "mm_identifier (mm_features img_req ! 1) = ''B''" "mm_identifier (mm_features img_req ! 0) = ''A''"
  "length (mm_features img_req) = 2" "request_id img_req = ''r''"
proof -
  have e: "{h. cached img_cache h = Some {}} = {''A''}" "dom (cached img_cache) = {''A''}"
    by (auto simp: img_cache_def split: if_splits)
  show "enc_inv img_size img_cache"
    unfolding enc_inv_def e by (simp add: img_cache_def img_size_def)
qed (simp_all add: input_size_ok_def img_req_def img_size_def)

text \<open>\<^verbatim>\<open>can_allocate\<close> says yes exactly when the input fits the compute budget and the free plus
  reclaimable space; it then has made enough room by evicting the oldest unreferenced entries
  only, never a referenced one, and the bookkeeping invariant holds.\<close>

theorem can_allocate_correct:
  assumes "enc_inv sz c" "input_size_ok sz r i"
  shows "\<exists>ok c' k. can_allocate r i budget sched c = Inr (ok, c') \<and> enc_inv sz c'
    \<and> ok = (sz (mm_identifier (mm_features r ! i)) \<le> budget
          \<and> sz (mm_identifier (mm_features r ! i)) + sched \<le> num_freeable_slots c)
    \<and> (ok \<longrightarrow> sz (mm_identifier (mm_features r ! i)) + sched \<le> num_free_slots c')
    \<and> freed c' = freed c @ map fst (take k (freeable c)) \<and> freeable c' = drop k (freeable c)
    \<and> (\<forall>h ids. ids \<noteq> {} \<longrightarrow> cached c' h = Some ids \<longleftrightarrow> cached c h = Some ids)"
proof -
  note D = enc_invD[OF assms(1)]
  have "num_free_slots c \<le> num_freeable_slots c" using D(2) D(8) by (simp add: sum_nonneg)
  then have m: "max (num_free_slots c) (num_freeable_slots c) = num_freeable_slots c" by simp
  obtain c' k where c': "can_allocate r i budget sched c = Inr (sz (mm_identifier (mm_features r ! i)) \<le> budget
        \<and> sz (mm_identifier (mm_features r ! i)) + sched \<le> num_freeable_slots c, c')" "enc_inv sz c'"
    "sz (mm_identifier (mm_features r ! i)) \<le> budget
        \<and> sz (mm_identifier (mm_features r ! i)) + sched \<le> num_freeable_slots c \<longrightarrow>
      sz (mm_identifier (mm_features r ! i)) + sched \<le> num_free_slots c'"
    "freeable c' = drop k (freeable c)" "freed c' = freed c @ map fst (take k (freeable c))"
    "\<forall>h. cached c' h = (if h \<in> fst ` set (take k (freeable c)) then None else cached c h)"
    using can_allocate_ok[OF assms, of budget sched] unfolding m by blast
  have "cached c h = Some {}" if "h \<in> fst ` set (take k (freeable c))" for h
    using that D(4) by (auto dest: in_set_takeD)
  then have "ids \<noteq> {} \<Longrightarrow> cached c' h = Some ids \<longleftrightarrow> cached c h = Some ids" for h ids using c'(6) by auto
  with c' show ?thesis by blast
qed

theorem can_allocate_correct_witness:
  "\<exists>c'. can_allocate img_req 1 10 0 img_cache = Inr (True, c') \<and> enc_inv img_size c' \<and> 3 \<le> num_free_slots c'"
  using can_allocate_correct[OF img_ok(1,2), of 10 0] img_ok(4) by (auto simp: img_size_def img_cache_def)

text \<open>C34: scheduling an encoder input that is not cached, once \<^verbatim>\<open>can_allocate\<close> has agreed to it
  beside \<open>n\<close> tokens already promised in this step, is within the compute budget, succeeds, takes
  exactly the tokens of the input and leaves at least \<open>n\<close> free slots for the promised ones; freeing
  the request's reference again makes the entry reclaimable without giving up its space.\<close>

theorem allocate_free_correct:
  assumes "enc_inv sz c" "input_size_ok sz r i" "cached c (mm_identifier (mm_features r ! i)) = None"
    "can_allocate r i budget n c = Inr (True, c1)" "0 \<le> n"
  shows "sz (mm_identifier (mm_features r ! i)) \<le> budget
    \<and> (\<exists>c2 c3. allocate r i c1 = Inr c2 \<and> enc_inv sz c2 \<and> num_free_slots c2 \<ge> n
    \<and> num_free_slots c2 = num_free_slots c1 - sz (mm_identifier (mm_features r ! i))
    \<and> cached c2 (mm_identifier (mm_features r ! i)) = Some {request_id r}
    \<and> free_encoder_input r i c2 = Inr c3 \<and> enc_inv sz c3 \<and> num_free_slots c3 = num_free_slots c2
    \<and> cached c3 (mm_identifier (mm_features r ! i)) = Some {})"
proof -
  let ?h = "mm_identifier (mm_features r ! i)"
  obtain k where b: "sz ?h \<le> budget" and c1: "enc_inv sz c1" "sz ?h + n \<le> num_free_slots c1"
    "\<forall>h. cached c1 h = (if h \<in> fst ` set (take k (freeable c)) then None else cached c h)"
    using can_allocate_ok[OF assms(1,2), of budget n] assms(4) by auto
  have "cached c1 ?h = None" "sz ?h \<le> num_free_slots c1" using c1(2,3) assms(3,5) by simp_all
  then obtain c2 where c2: "allocate r i c1 = Inr c2" "enc_inv sz c2" "cached c2 = (cached c1)(?h \<mapsto> {request_id r})"
    "num_free_slots c2 = num_free_slots c1 - sz ?h"
    using allocate_ok[OF c1(1) assms(2)] by blast
  obtain c3 where "free_encoder_input r i c2 = Inr c3" "enc_inv sz c3" "num_free_slots c3 = num_free_slots c2"
    "cached c3 ?h = Some {}"
    using free_encoder_input_ok[OF c2(2) assms(2)] c2(3) by auto
  with b c1(2) c2 show ?thesis by auto
qed

theorem allocate_free_correct_witness:
  "\<exists>c1 c2 c3. can_allocate img_req 1 10 1 img_cache = Inr (True, c1) \<and> allocate img_req 1 c1 = Inr c2
    \<and> free_encoder_input img_req 1 c2 = Inr c3 \<and> cached c3 ''B'' = Some {}"
proof -
  obtain c1 where c1: "can_allocate img_req 1 10 1 img_cache = Inr (True, c1)"
    using can_allocate_ok[OF img_ok(1,2), of 10 1] img_ok(4) by (auto simp: img_size_def img_cache_def)
  have "cached img_cache (mm_identifier (mm_features img_req ! 1)) = None" using img_ok(4) by (simp add: img_cache_def)
  from allocate_free_correct[OF img_ok(1,2) this c1] c1 img_ok(4) show ?thesis by auto
qed

text \<open>freeing a finished request, in whatever order its cached inputs are visited, removes it
  from every entry it referenced and keeps the entries and the invariant.\<close>

theorem free_request_correct:
  assumes "enc_inv sz c" "\<forall>i<length (mm_features r). input_size_ok sz r i" "set is = get_cached_input_ids r c"
  shows "\<exists>c'. free_inputs r is c = Inr c' \<and> enc_inv sz c' \<and> dom (cached c') = dom (cached c)
    \<and> (\<forall>i<length (mm_features r). \<forall>ids. cached c' (mm_identifier (mm_features r ! i)) = Some ids \<longrightarrow> request_id r \<notin> ids)"
proof -
  have "\<forall>i\<in>set is. input_size_ok sz r i" using assms(2,3) by (auto simp: get_cached_input_ids_def)
  from free_inputs_ok[OF assms(1) this] obtain c' where c': "free_inputs r is c = Inr c'" "enc_inv sz c'"
    "\<forall>h. cached c' h = (if h \<in> (\<lambda>i. mm_identifier (mm_features r ! i)) ` set is
         then map_option (\<lambda>ids. ids - {request_id r}) (cached c h) else cached c h)" by blast
  have d: "cached c' h = None \<longleftrightarrow> cached c h = None" for h using c'(3) by auto
  have "request_id r \<notin> ids" if "i < length (mm_features r)" "cached c' (mm_identifier (mm_features r ! i)) = Some ids" for i ids
  proof -
    have "cached c (mm_identifier (mm_features r ! i)) \<noteq> None"
      using that(2) d[of "mm_identifier (mm_features r ! i)"] by simp
    then have "i \<in> set is" using that(1) assms(3) by (auto simp: get_cached_input_ids_def)
    then show ?thesis using that(2) c'(3) by auto
  qed
  moreover have "dom (cached c') = dom (cached c)" using d by (auto simp: dom_def)
  ultimately show ?thesis using c'(1,2) by blast
qed

theorem free_request_correct_witness: "\<exists>c'. free_inputs img_req [0] img_cache = Inr c' \<and> enc_inv img_size c'"
proof -
  have "\<forall>i<length (mm_features img_req). input_size_ok img_size img_req i"
    using img_ok(2,3,6) by (auto simp: less_2_cases_iff)
  moreover have "set [0] = get_cached_input_ids img_req img_cache"
  proof -
    have "[0..<2] = [0, Suc 0]" by (simp add: upt_rec)
    then show ?thesis
      unfolding get_cached_input_ids_def img_ok(6) using img_ok(4,5) by (simp add: img_cache_def)
  qed
  ultimately show ?thesis using free_request_correct[OF img_ok(1)] by blast
qed

end
