(* ===== verification/Offload.thy ===== *)
theory Offload
  imports Prelude "HOL-Library.AList"
begin

text \<open>
  KV offloading, from \<^verbatim>\<open>vllm/v1/kv_offload\<close>: the manager that evicts offloaded blocks by LRU over
  a pluggable backend, the CPU backend, the dispatch of transfers to handlers, and the
  translation of block ids between media of different block sizes. The backend is a record of
  operations; its contract, stated in the docstrings of \<^verbatim>\<open>Backend\<close>, is the locale
  \<open>offload_backend\<close>, and the CPU backend is its interpretation.
\<close>

section \<open>Block status\<close>

text \<open>The reference count is a C \<^verbatim>\<open>int32\<close> field, so assignments wrap around.\<close>

definition wrap32 :: "int \<Rightarrow> int" where
  "wrap32 x = (x + 2 ^ 31) mod 2 ^ 32 - 2 ^ 31"

record block_status =
  st_ref_cnt :: int
  st_block_id :: int

definition new_status :: "int \<Rightarrow> block_status" where
  "new_status i = \<lparr>st_ref_cnt = wrap32 (-1), st_block_id = i\<rparr>"

definition is_ready :: "block_status \<Rightarrow> bool" where
  "is_ready b \<longleftrightarrow> st_ref_cnt b \<ge> 0"

section \<open>Backends\<close>

record 'b backend_ops =
  bk_num_free :: "'b \<Rightarrow> int"
  bk_allocate :: "bytes list \<Rightarrow> 'b \<Rightarrow> (block_status list \<times> 'b) result"
  bk_free :: "block_status \<Rightarrow> 'b \<Rightarrow> 'b"

record cpu_backend =
  num_blocks :: int
  num_allocated_blocks :: int
  allocated_blocks_free_list :: "int list"

definition cpu_init :: "int \<Rightarrow> cpu_backend" where
  "cpu_init n = \<lparr>num_blocks = n, num_allocated_blocks = 0, allocated_blocks_free_list = []\<rparr>"

definition cpu_num_free :: "cpu_backend \<Rightarrow> int" where
  "cpu_num_free b = int (length (allocated_blocks_free_list b)) + num_blocks b - num_allocated_blocks b"

fun alloc_fresh :: "nat \<Rightarrow> cpu_backend \<Rightarrow> block_status list \<times> cpu_backend" where
  "alloc_fresh 0 b = ([], b)"
| "alloc_fresh (Suc n) b =
     (let s = new_status (num_allocated_blocks b);
          (ss, b') = alloc_fresh n (b\<lparr>num_allocated_blocks := num_allocated_blocks b + 1\<rparr>)
      in (s # ss, b'))"

text \<open>\<^verbatim>\<open>list.pop()\<close> takes the last id and raises on an empty list.\<close>

fun alloc_reused :: "nat \<Rightarrow> cpu_backend \<Rightarrow> (block_status list \<times> cpu_backend) result" where
  "alloc_reused 0 b = Inr ([], b)"
| "alloc_reused (Suc n) b =
     (let l = allocated_blocks_free_list b in
      if l = [] then Inl IndexError
      else bnd (alloc_reused n (b\<lparr>allocated_blocks_free_list := butlast l\<rparr>)) (\<lambda>(ss, b').
             Inr (new_status (last l) # ss, b')))"

definition cpu_allocate :: "bytes list \<Rightarrow> cpu_backend \<Rightarrow> (block_status list \<times> cpu_backend) result" where
  "cpu_allocate hs b =
     (let num_fresh = min (int (length hs)) (num_blocks b - num_allocated_blocks b);
          num_reused = int (length hs) - num_fresh
      in check (int (length (allocated_blocks_free_list b)) \<ge> num_reused) AssertionError
           (let (fresh, b1) = alloc_fresh (nat num_fresh) b
            in bnd (alloc_reused (nat num_reused) b1) (\<lambda>(reused, b2). Inr (fresh @ reused, b2))))"

definition cpu_free :: "block_status \<Rightarrow> cpu_backend \<Rightarrow> cpu_backend" where
  "cpu_free s b = b\<lparr>allocated_blocks_free_list := allocated_blocks_free_list b @ [st_block_id s]\<rparr>"

definition cpu_ops :: "cpu_backend backend_ops" where
  "cpu_ops = \<lparr>bk_num_free = cpu_num_free, bk_allocate = cpu_allocate, bk_free = cpu_free\<rparr>"

section \<open>The LRU manager\<close>

datatype offload_event = Offload_Event "bytes list" bool

record 'b lru_manager =
  backend :: 'b
  lru_blocks :: "(bytes \<times> block_status) list"
  lru_events :: "offload_event list option"

definition lru_init :: "'b \<Rightarrow> bool \<Rightarrow> 'b lru_manager" where
  "lru_init b enable_events = \<lparr>backend = b, lru_blocks = [], lru_events = (if enable_events then Some [] else None)\<rparr>"

fun lookup :: "'b lru_manager \<Rightarrow> bytes list \<Rightarrow> nat" where
  "lookup m [] = 0"
| "lookup m (h # hs) =
     (case map_of (lru_blocks m) h of
        None \<Rightarrow> 0
      | Some b \<Rightarrow> if is_ready b then Suc (lookup m hs) else 0)"

definition set_block :: "bytes \<Rightarrow> block_status \<Rightarrow> 'b lru_manager \<Rightarrow> 'b lru_manager" where
  "set_block h b m = m\<lparr>lru_blocks := AList.update h b (lru_blocks m)\<rparr>"

definition load_one :: "bytes \<Rightarrow> 'b lru_manager \<times> block_status list \<Rightarrow> ('b lru_manager \<times> block_status list) result" where
  "load_one h s =
     (let (m, bs) = s in
      bnd (lookup_py (map_of (lru_blocks m)) h) (\<lambda>b.
        check (is_ready b) AssertionError
          (let b' = b\<lparr>st_ref_cnt := wrap32 (st_ref_cnt b + 1)\<rparr> in Inr (set_block h b' m, bs @ [b']))))"

text \<open>The load specification of the CPU backend is the list of block ids.\<close>

definition prepare_load :: "'b lru_manager \<Rightarrow> bytes list \<Rightarrow> (int list \<times> 'b lru_manager) result" where
  "prepare_load m hs = bnd (for_each load_one hs (m, [])) (\<lambda>(m', bs). Inr (map st_block_id bs, m'))"

definition lru_touch :: "'b lru_manager \<Rightarrow> bytes list \<Rightarrow> 'b lru_manager" where
  "lru_touch m hs = fold (\<lambda>h m.
     case map_of (lru_blocks m) h of
       None \<Rightarrow> m
     | Some b \<Rightarrow> m\<lparr>lru_blocks := AList.delete h (lru_blocks m) @ [(h, b)]\<rparr>) (rev hs) m"

definition unload_one :: "bytes \<Rightarrow> 'b lru_manager \<Rightarrow> 'b lru_manager result" where
  "unload_one h m =
     bnd (lookup_py (map_of (lru_blocks m)) h) (\<lambda>b.
       check (st_ref_cnt b > 0) AssertionError
         (Inr (set_block h (b\<lparr>st_ref_cnt := wrap32 (st_ref_cnt b - 1)\<rparr>) m)))"

definition complete_load :: "'b lru_manager \<Rightarrow> bytes list \<Rightarrow> 'b lru_manager result" where
  "complete_load m hs = for_each unload_one hs m"

text \<open>The loop that collects the blocks to evict; \<open>None\<close> when it runs to the end of the blocks.\<close>

fun collect_evict :: "nat \<Rightarrow> (bytes \<times> block_status) list \<Rightarrow> bytes list option" where
  "collect_evict n [] = None"
| "collect_evict n ((h, b) # rest) =
     (if st_ref_cnt b = 0
      then if n - 1 = 0 then Some [h] else map_option ((#) h) (collect_evict (n - 1) rest)
      else collect_evict n rest)"

definition evict_one_block :: "'b backend_ops \<Rightarrow> bytes \<Rightarrow> 'b lru_manager \<Rightarrow> 'b lru_manager result" where
  "evict_one_block ops h m =
     bnd (lookup_py (map_of (lru_blocks m)) h) (\<lambda>b.
       Inr (m\<lparr>lru_blocks := AList.delete h (lru_blocks m), backend := bk_free ops b (backend m)\<rparr>))"

definition add_event :: "bytes list \<Rightarrow> bool \<Rightarrow> 'b lru_manager \<Rightarrow> 'b lru_manager" where
  "add_event hs removed m =
     (if hs \<noteq> [] then m\<lparr>lru_events := map_option (\<lambda>es. es @ [Offload_Event hs removed]) (lru_events m)\<rparr> else m)"

record prepare_store_output =
  block_hashes_to_store :: "bytes list"
  store_spec :: "int list"
  block_hashes_evicted :: "bytes list"

definition prepare_store :: "'b backend_ops \<Rightarrow> 'b lru_manager \<Rightarrow> bytes list
    \<Rightarrow> (prepare_store_output option \<times> 'b lru_manager) result" where
  "prepare_store ops m hs =
     (let to_store = filter (\<lambda>h. map_of (lru_blocks m) h = None) hs;
          num_evict = int (length to_store) - bk_num_free ops (backend m)
      in case (if num_evict > 0 then collect_evict (nat num_evict) (lru_blocks m) else Some []) of
           None \<Rightarrow> Inr (None, m)
         | Some to_evict \<Rightarrow>
             bnd (for_each (evict_one_block ops) to_evict m) (\<lambda>m1.
               let m2 = add_event to_evict True m1
               in bnd (bk_allocate ops to_store (backend m2)) (\<lambda>(bs, bk).
                    check (length bs = length to_store) AssertionError
                      (let m3 = fold (\<lambda>(h, b). set_block h b) (zip to_store bs) (m2\<lparr>backend := bk\<rparr>)
                       in Inr (Some \<lparr>block_hashes_to_store = to_store, store_spec = map st_block_id bs,
                                     block_hashes_evicted = to_evict\<rparr>, m3)))))"

definition store_done :: "bytes \<Rightarrow> 'b lru_manager \<times> bytes list \<Rightarrow> ('b lru_manager \<times> bytes list) result" where
  "store_done h s =
     (let (m, stored) = s in
      bnd (lookup_py (map_of (lru_blocks m)) h) (\<lambda>b.
        if \<not> is_ready b then Inr (set_block h (b\<lparr>st_ref_cnt := 0\<rparr>) m, stored @ [h]) else Inr (m, stored)))"

definition store_failed :: "'b backend_ops \<Rightarrow> bytes \<Rightarrow> 'b lru_manager \<Rightarrow> 'b lru_manager result" where
  "store_failed ops h m =
     bnd (lookup_py (map_of (lru_blocks m)) h) (\<lambda>b.
       if \<not> is_ready b
       then Inr (m\<lparr>backend := bk_free ops b (backend m), lru_blocks := AList.delete h (lru_blocks m)\<rparr>)
       else Inr m)"

definition complete_store :: "'b backend_ops \<Rightarrow> 'b lru_manager \<Rightarrow> bytes list \<Rightarrow> bool \<Rightarrow> 'b lru_manager result" where
  "complete_store ops m hs success =
     (if success
      then bnd (for_each store_done hs (m, [])) (\<lambda>(m', stored). Inr (add_event stored False m'))
      else for_each (store_failed ops) hs m)"

definition lru_take_events :: "'b lru_manager \<Rightarrow> offload_event list \<times> 'b lru_manager" where
  "lru_take_events m =
     (case lru_events m of None \<Rightarrow> ([], m) | Some es \<Rightarrow> (es, m\<lparr>lru_events := Some []\<rparr>))"

section \<open>Transfers\<close>

type_synonym transfer_type = "string \<times> string"

record offloading_worker =
  handlers :: "nat set"
  transfer_type_to_handler :: "transfer_type \<rightharpoonup> nat"

definition worker_init :: offloading_worker where
  "worker_init = \<lparr>handlers = {}, transfer_type_to_handler = Map.empty\<rparr>"

definition register_handler :: "string \<Rightarrow> string \<Rightarrow> nat \<Rightarrow> offloading_worker \<Rightarrow> offloading_worker result" where
  "register_handler src dst handler w =
     check (transfer_type_to_handler w (src, dst) = None) AssertionError
       (Inr (w\<lparr>handlers := insert handler (handlers w),
               transfer_type_to_handler := (transfer_type_to_handler w)((src, dst) \<mapsto> handler)\<rparr>))"

text \<open>The handler's own method is a parameter; an exception it raises is turned into failure.\<close>

definition worker_transfer_async :: "(nat \<Rightarrow> int \<Rightarrow> 'spec \<Rightarrow> bool result) \<Rightarrow> ('spec \<Rightarrow> transfer_type)
    \<Rightarrow> int \<Rightarrow> 'spec \<Rightarrow> offloading_worker \<Rightarrow> bool result" where
  "worker_transfer_async run ttype job_id spec w =
     (case transfer_type_to_handler w (ttype spec) of
        None \<Rightarrow> Inl AssertionError
      | Some h \<Rightarrow> (case run h job_id spec of Inl e \<Rightarrow> Inr False | Inr success \<Rightarrow> Inr success))"

text \<open>The handlers are a set, whose iteration order is not specified: \<open>order\<close> is the order the
  iteration takes, and \<open>poll\<close> a handler's own method on the state of the handlers.\<close>

definition worker_get_finished :: "(nat \<Rightarrow> 's \<Rightarrow> (int \<times> bool) list \<times> 's) \<Rightarrow> nat list \<Rightarrow> 's \<Rightarrow> (int \<times> bool) list \<times> 's" where
  "worker_get_finished poll order s =
     fold (\<lambda>h (fin, s). let (new, s') = poll h s in (fin @ new, s')) order ([], s)"

text \<open>A slice assignment of numpy: the slice is clipped to the array, the lengths must agree, and
  a value of length one is broadcast.\<close>

definition write_slice :: "int list \<Rightarrow> nat \<Rightarrow> int list \<Rightarrow> int list result" where
  "write_slice out i vs =
     (let e = min (i + length vs) (length out); k = e - min i (length out)
      in if k = length vs then Inr (take i out @ vs @ drop (i + length vs) out)
         else if length vs = 1 then Inr out
         else Inl ValueError)"

fun expand_loop :: "int list \<Rightarrow> int \<Rightarrow> int list \<Rightarrow> nat \<Rightarrow> int list \<Rightarrow> int list result" where
  "expand_loop [] f rng pos out = Inr out"
| "expand_loop (b # bs) f rng pos out =
     bnd (write_slice out pos (map (\<lambda>i. b * f + i) rng)) (\<lambda>out'.
       expand_loop bs f [0..f - 1] (pos + length rng) out')"

definition expand_block_ids :: "int list \<Rightarrow> int \<Rightarrow> int list \<Rightarrow> int \<Rightarrow> int list result" where
  "expand_block_ids block_ids f out skip_count =
     check (skip_count < f) AssertionError (expand_loop block_ids f [skip_count..f - 1] 0 out)"

datatype medium = CPU | GPU

record cpu_gpu_handler =
  block_size_factor :: int
  transfer_events :: "(int \<times> nat) list"
  events_pool :: "nat list"

definition cpu_gpu_init :: "int \<Rightarrow> int \<Rightarrow> cpu_gpu_handler result" where
  "cpu_gpu_init gpu_block_size cpu_block_size =
     (if gpu_block_size = 0 then Inl ZeroDivisionError
      else check (cpu_block_size mod gpu_block_size = 0) AssertionError
        (Inr \<lparr>block_size_factor = cpu_block_size div gpu_block_size, transfer_events = [], events_pool = []\<rparr>))"

text \<open>The pairs of source and destination sub-blocks of a transfer; the copy itself is an external
  operation. \<open>fresh\<close> is the event that is created when the pool is empty, and \<open>junk\<close> the
  content of the uninitialised array.\<close>

definition transfer_pairs :: "cpu_gpu_handler \<Rightarrow> medium \<times> int list \<Rightarrow> medium \<times> int list \<Rightarrow> (nat \<Rightarrow> int)
    \<Rightarrow> (int \<times> int) list result" where
  "transfer_pairs hdl src dst junk =
     (let (sm, src_blocks) = src; (dm, dst_blocks) = dst;
          sf = (if sm = CPU then block_size_factor hdl else 1);
          df = (if sm = CPU then 1 else block_size_factor hdl)
      in check (dm = (if sm = CPU then GPU else CPU)) AssertionError
           (if df = 0 then Inl ZeroDivisionError
            else let skip = (- int (length src_blocks)) mod df; n = int (length src_blocks) * sf
              in check (n = int (length dst_blocks) * df - skip) AssertionError
                   (bnd (expand_block_ids src_blocks sf (map junk [0..<nat n]) 0) (\<lambda>c0.
                    bnd (expand_block_ids dst_blocks df (map junk [0..<nat n]) skip) (\<lambda>c1.
                      Inr (zip c0 c1))))))"

definition handler_transfer_async :: "cpu_gpu_handler \<Rightarrow> int \<Rightarrow> medium \<times> int list \<Rightarrow> medium \<times> int list
    \<Rightarrow> (nat \<Rightarrow> int) \<Rightarrow> nat \<Rightarrow> ((int \<times> int) list \<times> cpu_gpu_handler) result" where
  "handler_transfer_async hdl job_id src dst junk fresh =
     bnd (transfer_pairs hdl src dst junk) (\<lambda>pairs.
       let (ev, pool) = (if events_pool hdl \<noteq> [] then (last (events_pool hdl), butlast (events_pool hdl))
                         else (fresh, []))
       in Inr (pairs, hdl\<lparr>transfer_events := AList.update job_id ev (transfer_events hdl), events_pool := pool\<rparr>))"

definition handler_get_finished :: "(nat \<Rightarrow> bool) \<Rightarrow> cpu_gpu_handler \<Rightarrow> (int \<times> bool) list \<times> cpu_gpu_handler" where
  "handler_get_finished query hdl =
     (let done_jobs = filter (\<lambda>(_, ev). query ev) (transfer_events hdl);
          results = map (\<lambda>(j, _). (j, True)) done_jobs
      in (results, hdl\<lparr>events_pool := events_pool hdl @ map snd done_jobs,
                      transfer_events := fold (\<lambda>(j, _). AList.delete j) results (transfer_events hdl)\<rparr>))"

section \<open>Lemmas on the pieces\<close>

lemma wrap32_id: "- (2 ^ 31) \<le> x \<Longrightarrow> x < 2 ^ 31 \<Longrightarrow> wrap32 x = x"
  by (simp add: wrap32_def)

lemma new_status_simps [simp]: "st_ref_cnt (new_status i) = -1" "st_block_id (new_status i) = i"
  by (simp_all add: new_status_def wrap32_def)

lemma collect_evict_spec:
  "n > 0 \<Longrightarrow> collect_evict n l =
     (let u = map fst (filter (\<lambda>(_, b). st_ref_cnt b = 0) l) in if n \<le> length u then Some (take n u) else None)"
proof (induction n l rule: collect_evict.induct)
  case (2 n h b rest)
  show ?case
  proof (cases "st_ref_cnt b = 0 \<and> n - 1 \<noteq> 0")
    case True
    then obtain k where "n = Suc k" "k > 0" by (cases n) auto
    with 2 True show ?thesis by (auto simp: Let_def)
  next
    case False
    with 2 show ?thesis by (auto simp: Let_def take_Cons' Suc_le_eq)
  qed
qed simp

lemma alist_update_append: "k \<notin> fst ` set xs \<Longrightarrow> AList.update k v xs = xs @ [(k, v)]"
  by (induction xs) auto

lemma dom_delete_keys: "fst ` set (AList.delete k xs) = fst ` set xs - {k}"
  by (metis delete_keys set_map set_removeAll)

lemma fold_set_block:
  assumes "distinct hs" "set hs \<inter> fst ` set (lru_blocks m) = {}" "length bs = length hs"
  shows "fold (\<lambda>(h, b). set_block h b) (zip hs bs) m = m\<lparr>lru_blocks := lru_blocks m @ zip hs bs\<rparr>"
  using assms
proof (induction hs arbitrary: m bs)
  case (Cons h hs)
  then obtain b bs' where bs: "bs = b # bs'" by (cases bs) auto
  have "set_block h b m = m\<lparr>lru_blocks := lru_blocks m @ [(h, b)]\<rparr>"
    using Cons.prems(2) by (simp add: set_block_def alist_update_append)
  moreover have "set hs \<inter> fst ` set (lru_blocks (set_block h b m)) = {}"
    using Cons.prems calculation by auto
  ultimately show ?case using Cons.IH[of "set_block h b m" bs'] Cons.prems bs by simp
qed simp

lemma alloc_fresh_spec:
  "alloc_fresh n b = (map (\<lambda>i. new_status (num_allocated_blocks b + int i)) [0..<n],
     b\<lparr>num_allocated_blocks := num_allocated_blocks b + int n\<rparr>)"
proof (induction n arbitrary: b)
  case (Suc n)
  have "[0..<Suc n] = 0 # map Suc [0..<n]" by (metis map_Suc_upt upt_conv_Cons zero_less_Suc)
  then show ?case using Suc by (simp add: comp_def algebra_simps del: upt_Suc)
qed simp

lemma alloc_reused_spec:
  "n \<le> length (allocated_blocks_free_list b) \<Longrightarrow>
     alloc_reused n b = Inr (map new_status (take n (rev (allocated_blocks_free_list b))),
       b\<lparr>allocated_blocks_free_list := take (length (allocated_blocks_free_list b) - n) (allocated_blocks_free_list b)\<rparr>)"
proof (induction n arbitrary: b)
  case (Suc n)
  let ?l = "allocated_blocks_free_list b"
  have ne: "?l \<noteq> []" using Suc.prems by auto
  then have r: "rev ?l = last ?l # rev (butlast ?l)" by (metis rev.simps(2) rev_rev_ident append_butlast_last_id rev_append append_Nil append_Cons)
  have t: "take (length ?l - Suc n) (butlast ?l) = take (length ?l - Suc n) ?l"
    using ne by (simp add: take_butlast)
  show ?case using Suc ne t by (simp add: r Let_def)
qed simp

section \<open>The backend contract\<close>

text \<open>\<open>ok b A\<close>: the backend is in a consistent state and \<open>A\<close> are the ids it has handed out.\<close>

definition lru_inv :: "('b \<Rightarrow> int set \<Rightarrow> bool) \<Rightarrow> 'b lru_manager \<Rightarrow> bool" where
  "lru_inv ok m \<longleftrightarrow> distinct (map fst (lru_blocks m)) \<and> distinct (map (st_block_id \<circ> snd) (lru_blocks m))
     \<and> ok (backend m) (st_block_id ` snd ` set (lru_blocks m))
     \<and> (\<forall>b\<in>snd ` set (lru_blocks m). -1 \<le> st_ref_cnt b)"

locale offload_backend =
  fixes ops :: "'b backend_ops"
    and ok :: "'b \<Rightarrow> int set \<Rightarrow> bool"
  assumes free_nonneg: "ok b A \<Longrightarrow> bk_num_free ops b \<ge> 0"
    and allocate_ok: "ok b A \<Longrightarrow> int (length hs) \<le> bk_num_free ops b \<Longrightarrow>
      \<exists>ss b'. bk_allocate ops hs b = Inr (ss, b') \<and> length ss = length hs
        \<and> distinct (map st_block_id ss) \<and> st_block_id ` set ss \<inter> A = {} \<and> (\<forall>s\<in>set ss. st_ref_cnt s = -1)
        \<and> ok b' (A \<union> st_block_id ` set ss) \<and> bk_num_free ops b' = bk_num_free ops b - int (length hs)"
    and free_ok: "ok b A \<Longrightarrow> st_block_id s \<in> A \<Longrightarrow>
      ok (bk_free ops s b) (A - {st_block_id s}) \<and> bk_num_free ops (bk_free ops s b) = bk_num_free ops b + 1"
begin

lemma delete_inv:
  assumes inv: "lru_inv ok m" and b: "map_of (lru_blocks m) h = Some b"
  shows "lru_inv ok (m\<lparr>lru_blocks := AList.delete h (lru_blocks m), backend := bk_free ops b (backend m)\<rparr>)
    \<and> bk_num_free ops (bk_free ops b (backend m)) = bk_num_free ops (backend m) + 1"
proof -
  let ?l = "lru_blocks m" and ?d = "AList.delete h (lru_blocks m)"
  have mem: "(h, b) \<in> set ?l" using b by (rule map_of_SomeD)
  have d: "distinct (map fst ?l)" "distinct (map (st_block_id \<circ> snd) ?l)" using inv by (auto simp: lru_inv_def)
  have sub: "?d = filter (\<lambda>(k, _). h \<noteq> k) ?l" by (simp add: AList.delete_eq)
  have inj: "x = (h, b)" if "x \<in> set ?l" "st_block_id (snd x) = st_block_id b" for x
    using d(2) mem that by (auto simp: distinct_map inj_on_def)
  have keys: "x \<in> set ?l \<Longrightarrow> fst x = h \<Longrightarrow> x = (h, b)" for x
    using d(1) mem by (auto simp: distinct_map inj_on_def)
  have "st_block_id ` snd ` set ?d = st_block_id ` snd ` set ?l - {st_block_id b}"
  proof (intro equalityI subsetI)
    fix i assume "i \<in> st_block_id ` snd ` set ?d"
    then obtain x where "x \<in> set ?l" "fst x \<noteq> h" "i = st_block_id (snd x)" unfolding sub by auto
    with inj[of x] show "i \<in> st_block_id ` snd ` set ?l - {st_block_id b}" by auto
  next
    fix i assume "i \<in> st_block_id ` snd ` set ?l - {st_block_id b}"
    then obtain x where x: "x \<in> set ?l" "i = st_block_id (snd x)" "i \<noteq> st_block_id b" by auto
    then have "fst x \<noteq> h" using keys[of x] by (metis snd_conv)
    then have "x \<in> set ?d" using x(1) unfolding sub by auto
    with x(2) show "i \<in> st_block_id ` snd ` set ?d" by blast
  qed
  moreover have "st_block_id b \<in> st_block_id ` snd ` set ?l" using mem by force
  ultimately show ?thesis
    using inv free_ok[of "backend m" "st_block_id ` snd ` set ?l" b] d
    by (auto simp: lru_inv_def distinct_delete sub distinct_map_filter)
qed

lemma evict_all:
  assumes "lru_inv ok m" "distinct hs" "set hs \<subseteq> fst ` set (lru_blocks m)"
  shows "\<exists>m'. for_each (evict_one_block ops) hs m = Inr m' \<and> lru_inv ok m'
    \<and> lru_blocks m' = filter (\<lambda>(h, _). h \<notin> set hs) (lru_blocks m)
    \<and> bk_num_free ops (backend m') = bk_num_free ops (backend m) + int (length hs) \<and> lru_events m' = lru_events m"
  using assms
proof (induction hs arbitrary: m)
  case Nil
  then show ?case by simp
next
  case (Cons h hs)
  obtain b where b: "map_of (lru_blocks m) h = Some b"
    using Cons.prems(3) by (metis insert_subset list.simps(15) map_of_eq_None_iff option.exhaust)
  let ?m = "m\<lparr>lru_blocks := AList.delete h (lru_blocks m), backend := bk_free ops b (backend m)\<rparr>"
  have 1: "lru_inv ok ?m" "bk_num_free ops (backend ?m) = bk_num_free ops (backend m) + 1"
    using delete_inv[OF Cons.prems(1) b] by simp_all
  have "set hs \<subseteq> fst ` set (lru_blocks ?m)"
    using Cons.prems(2,3) dom_delete_keys[of h "lru_blocks m"] by auto
  from Cons.IH[OF 1(1) _ this] Cons.prems(2) obtain m' where m': "for_each (evict_one_block ops) hs ?m = Inr m'"
    "lru_inv ok m'" "lru_blocks m' = filter (\<lambda>(h, _). h \<notin> set hs) (lru_blocks ?m)"
    "bk_num_free ops (backend m') = bk_num_free ops (backend ?m) + int (length hs)" "lru_events m' = lru_events m" by auto
  have "lru_blocks m' = filter (\<lambda>(x, _). x \<notin> set (h # hs)) (lru_blocks m)"
    using m'(3) by (auto simp: AList.delete_eq intro!: filter_cong)
  moreover have "evict_one_block ops h m = Inr ?m" using b by (simp add: evict_one_block_def lookup_py_def)
  ultimately show ?case using m' 1(2) by simp
qed

lemma store_failed_all:
  assumes "lru_inv ok m" "distinct hs" "\<forall>h\<in>set hs. \<exists>b. map_of (lru_blocks m) h = Some b \<and> \<not> is_ready b"
  shows "for_each (store_failed ops) hs m = for_each (evict_one_block ops) hs m"
  using assms
proof (induction hs arbitrary: m)
  case (Cons h hs)
  obtain b where b: "map_of (lru_blocks m) h = Some b" "\<not> is_ready b" using Cons.prems(3) by auto
  let ?m = "m\<lparr>lru_blocks := AList.delete h (lru_blocks m), backend := bk_free ops b (backend m)\<rparr>"
  have "store_failed ops h m = Inr ?m" "evict_one_block ops h m = Inr ?m"
    using b by (simp_all add: store_failed_def evict_one_block_def lookup_py_def)
  moreover have "map_of (lru_blocks ?m) x = map_of (lru_blocks m) x" if "x \<in> set hs" for x
    using that Cons.prems(2) by (auto simp: delete_conv')
  ultimately show ?case using Cons.IH[of ?m] Cons.prems delete_inv[OF Cons.prems(1) b(1)] by simp
qed simp

lemma append_inv:
  assumes inv: "lru_inv ok m" and dist: "distinct hs" "set hs \<inter> fst ` set (lru_blocks m) = {}"
    and ss: "length ss = length hs" "distinct (map st_block_id ss)"
      "st_block_id ` set ss \<inter> st_block_id ` snd ` set (lru_blocks m) = {}" "\<forall>s\<in>set ss. st_ref_cnt s = -1"
    and bk: "ok bk (st_block_id ` snd ` set (lru_blocks m) \<union> st_block_id ` set ss)"
  shows "lru_inv ok (m\<lparr>backend := bk, lru_blocks := lru_blocks m @ zip hs ss\<rparr>)"
proof -
  have m: "map fst (zip hs ss) = hs" "map snd (zip hs ss) = ss" using ss(1) by simp_all
  have img: "snd ` set (zip hs ss) = set ss" by (metis m(2) set_map)
  have ids: "map (st_block_id \<circ> snd) (zip hs ss) = map st_block_id ss" by (metis m(2) map_map)
  have "set (map (st_block_id \<circ> snd) (lru_blocks m)) \<inter> set (map st_block_id ss) = {}"
    using ss(3) by (auto simp: image_comp)
  then have "distinct (map (st_block_id \<circ> snd) (lru_blocks m @ zip hs ss))"
    using inv ss(2) by (simp only: lru_inv_def map_append distinct_append ids)
  moreover have "distinct (map fst (lru_blocks m @ zip hs ss))"
    using inv dist by (auto simp: lru_inv_def m(1))
  moreover have "snd ` set (lru_blocks m @ zip hs ss) = snd ` set (lru_blocks m) \<union> set ss"
    by (simp add: image_Un img)
  ultimately show ?thesis using inv ss(4) bk by (auto simp: lru_inv_def image_Un)
qed

lemma take_in_keys:
  assumes "u = map fst (filter P l)" "distinct (map fst l)"
  shows "distinct (take n u)" "set (take n u) \<subseteq> fst ` set l"
proof -
  show "distinct (take n u)" using assms by (simp add: distinct_map_filter)
  have "set (take n u) \<subseteq> set u" by (rule set_take_subset)
  then show "set (take n u) \<subseteq> fst ` set l" using assms(1) by auto
qed

text \<open>The outcome of preparing a store: refused without any change when too few blocks are
  unreferenced; otherwise exactly as many of the least recently used unreferenced blocks are
  evicted as are missing, and the new blocks are there, not ready yet.\<close>

lemma prepare_store_ok:
  assumes inv: "lru_inv ok m" and dist: "distinct hs"
  defines "to_store \<equiv> filter (\<lambda>h. map_of (lru_blocks m) h = None) hs"
    and "unused \<equiv> map fst (filter (\<lambda>(_, b). st_ref_cnt b = 0) (lru_blocks m))"
  defines "k \<equiv> nat (int (length to_store) - bk_num_free ops (backend m))"
  shows "if k \<le> length unused
    then \<exists>ss m'. prepare_store ops m hs = Inr (Some \<lparr>block_hashes_to_store = to_store,
           store_spec = map st_block_id ss, block_hashes_evicted = take k unused\<rparr>, m')
       \<and> lru_inv ok m' \<and> length ss = length to_store
       \<and> lru_blocks m' = filter (\<lambda>(h, _). h \<notin> set (take k unused)) (lru_blocks m) @ zip to_store ss
       \<and> (\<forall>s\<in>set ss. \<not> is_ready s)
    else prepare_store ops m hs = Inr (None, m)"
proof -
  let ?ev = "take k unused"
  let ?n = "int (length to_store) - bk_num_free ops (backend m)"
  have ce: "(if ?n > 0 then collect_evict (nat ?n) (lru_blocks m) else Some [])
      = (if k \<le> length unused then Some ?ev else None)"
    using collect_evict_spec[of "nat ?n" "lru_blocks m"] by (simp add: k_def unused_def Let_def)
  show ?thesis
  proof (cases "k \<le> length unused")
    case False
    with ce show ?thesis by (simp add: prepare_store_def to_store_def[symmetric] Let_def)
  next
    case True
    have d: "distinct (map fst (lru_blocks m))" using inv by (simp add: lru_inv_def)
    note ev = take_in_keys[OF meta_eq_to_obj_eq[OF unused_def] d, of k]
    obtain m1 where m1: "for_each (evict_one_block ops) ?ev m = Inr m1" "lru_inv ok m1"
      "lru_blocks m1 = filter (\<lambda>(h, _). h \<notin> set ?ev) (lru_blocks m)"
      "bk_num_free ops (backend m1) = bk_num_free ops (backend m) + int (length ?ev)"
      using evict_all[OF inv ev] by blast
    let ?m2 = "add_event ?ev True m1"
    have m2: "lru_blocks ?m2 = lru_blocks m1" "backend ?m2 = backend m1" by (simp_all add: add_event_def)
    have "int (length to_store) \<le> bk_num_free ops (backend m1)" using m1(4) True by (simp add: k_def)
    moreover have okm: "ok (backend m1) (st_block_id ` snd ` set (lru_blocks m1))" using m1(2) by (simp add: lru_inv_def)
    ultimately obtain ss bk where ss: "bk_allocate ops to_store (backend m1) = Inr (ss, bk)"
      "length ss = length to_store" "distinct (map st_block_id ss)"
      "st_block_id ` set ss \<inter> st_block_id ` snd ` set (lru_blocks m1) = {}" "\<forall>s\<in>set ss. st_ref_cnt s = -1"
      "ok bk (st_block_id ` snd ` set (lru_blocks m1) \<union> st_block_id ` set ss)"
      using allocate_ok by blast
    have ts: "distinct to_store" "set to_store \<inter> fst ` set (lru_blocks m1) = {}"
      using dist m1(3) by (auto simp: to_store_def map_of_eq_None_iff)
    define m3 where "m3 = ?m2\<lparr>backend := bk, lru_blocks := lru_blocks m1 @ zip to_store ss\<rparr>"
    have f: "fold (\<lambda>(h, b). set_block h b) (zip to_store ss) (?m2\<lparr>backend := bk\<rparr>) = m3"
      using fold_set_block[OF ts(1), of "?m2\<lparr>backend := bk\<rparr>" ss] ts(2) ss(2) m2 by (simp add: m3_def)
    have "lru_inv ok m1 = lru_inv ok ?m2" by (simp add: lru_inv_def m2)
    with append_inv[of ?m2 to_store ss bk] m1(2) ts ss(2-6) have "lru_inv ok m3" by (simp add: m3_def m2)
    moreover have "prepare_store ops m hs = Inr (Some \<lparr>block_hashes_to_store = to_store,
           store_spec = map st_block_id ss, block_hashes_evicted = ?ev\<rparr>, m3)"
      using True ce m1(1) ss(1,2) f m2 by (simp add: prepare_store_def to_store_def[symmetric] Let_def)
    ultimately show ?thesis using True ss(2,5) m1(3) by (auto simp: m3_def is_ready_def)
  qed
qed

end

section \<open>The CPU backend meets the contract\<close>

definition cpu_ok :: "cpu_backend \<Rightarrow> int set \<Rightarrow> bool" where
  "cpu_ok b A \<longleftrightarrow> 0 \<le> num_allocated_blocks b \<and> num_allocated_blocks b \<le> num_blocks b
     \<and> distinct (allocated_blocks_free_list b)
     \<and> set (allocated_blocks_free_list b) \<subseteq> {0..<num_allocated_blocks b}
     \<and> A = {0..<num_allocated_blocks b} - set (allocated_blocks_free_list b)"

lemma cpu_allocate_spec:
  assumes ok: "cpu_ok b A" and n: "int (length hs) \<le> cpu_num_free b"
  defines "f \<equiv> nat (min (int (length hs)) (num_blocks b - num_allocated_blocks b))"
    and "l \<equiv> allocated_blocks_free_list b"
  defines "r \<equiv> length hs - f"
  shows "cpu_allocate hs b = Inr (map new_status (map (\<lambda>i. num_allocated_blocks b + int i) [0..<f] @ take r (rev l)),
      b\<lparr>num_allocated_blocks := num_allocated_blocks b + int f, allocated_blocks_free_list := take (length l - r) l\<rparr>)"
    and "f + r = length hs" "r \<le> length l" "num_allocated_blocks b + int f \<le> num_blocks b"
proof -
  have fi: "int f = min (int (length hs)) (num_blocks b - num_allocated_blocks b)"
    using ok by (simp add: f_def cpu_ok_def)
  then have fr: "f \<le> length hs" by linarith
  then show "f + r = length hs" by (simp add: r_def)
  have ri: "int r = int (length hs) - int f" using fr by (simp add: r_def of_nat_diff)
  then show rl: "r \<le> length l" using n fi ok by (simp add: l_def cpu_num_free_def cpu_ok_def min_def split: if_splits)
  show "num_allocated_blocks b + int f \<le> num_blocks b" using fi by linarith
  have "nat (int (length hs) - min (int (length hs)) (num_blocks b - num_allocated_blocks b)) = r"
    using ri fi by simp
  then show "cpu_allocate hs b = Inr (map new_status (map (\<lambda>i. num_allocated_blocks b + int i) [0..<f] @ take r (rev l)),
      b\<lparr>num_allocated_blocks := num_allocated_blocks b + int f, allocated_blocks_free_list := take (length l - r) l\<rparr>)"
    using rl ri fi by (simp add: cpu_allocate_def check_def Let_def alloc_fresh_spec alloc_reused_spec f_def[symmetric] l_def comp_def)
qed

lemma split_last_set:
  assumes "distinct l" "r \<le> length l"
  shows "set (take r (rev l)) \<union> set (take (length l - r) l) = set l"
    and "set (take r (rev l)) \<inter> set (take (length l - r) l) = {}"
    and "distinct (take r (rev l))" "distinct (take (length l - r) l)"
proof -
  have e: "set (take r (rev l)) = set (drop (length l - r) l)" by (simp add: take_rev)
  have a: "take (length l - r) l @ drop (length l - r) l = l" by simp
  show "set (take r (rev l)) \<union> set (take (length l - r) l) = set l"
    unfolding e by (metis a set_append Un_commute)
  show "set (take r (rev l)) \<inter> set (take (length l - r) l) = {}"
    unfolding e by (metis a assms(1) distinct_append Int_commute)
  show "distinct (take r (rev l))" "distinct (take (length l - r) l)" using assms by (simp_all add: distinct_take)
qed

lemma cpu_fresh_ids:
  "distinct (map (\<lambda>i. k + int i) [0..<f])" "set (map (\<lambda>i. k + int i) [0..<f]) = {k..<k + int f}"
proof -
  show "distinct (map (\<lambda>i. k + int i) [0..<f])" by (simp add: distinct_map inj_on_def)
  have "x \<in> (\<lambda>i. k + int i) ` {0..<f}" if "x \<in> {k..<k + int f}" for x
    using that by (intro image_eqI[of _ _ "nat (x - k)"]) auto
  then show "set (map (\<lambda>i. k + int i) [0..<f]) = {k..<k + int f}" by auto
qed

lemma handed_out_ids:
  fixes k f :: int
  assumes "R \<union> T = L" "R \<inter> T = {}" "L \<subseteq> {0..<k}" "0 \<le> k" "0 \<le> f"
  shows "({0..<k} - L) \<union> ({k..<k + f} \<union> R) = {0..<k + f} - T"
proof (rule set_eqI)
  fix x
  have "x \<in> L \<longleftrightarrow> x \<in> R \<or> x \<in> T" "\<not> (x \<in> R \<and> x \<in> T)" "x \<in> L \<longrightarrow> 0 \<le> x \<and> x < k"
    using assms(1-3) by auto
  then show "x \<in> ({0..<k} - L) \<union> ({k..<k + f} \<union> R) \<longleftrightarrow> x \<in> {0..<k + f} - T"
    using assms(4,5) by auto
qed

lemma cpu_allocate_ok:
  assumes ok: "cpu_ok b A" and n: "int (length hs) \<le> cpu_num_free b"
  shows "\<exists>ss b'. cpu_allocate hs b = Inr (ss, b') \<and> length ss = length hs
        \<and> distinct (map st_block_id ss) \<and> st_block_id ` set ss \<inter> A = {} \<and> (\<forall>s\<in>set ss. st_ref_cnt s = -1)
        \<and> cpu_ok b' (A \<union> st_block_id ` set ss) \<and> cpu_num_free b' = cpu_num_free b - int (length hs)"
proof -
  define l where "l = allocated_blocks_free_list b"
  define k where "k = num_allocated_blocks b"
  define f where "f = nat (min (int (length hs)) (num_blocks b - k))"
  define r where "r = length hs - f"
  define ids where "ids = map (\<lambda>i. k + int i) [0..<f] @ take r (rev l)"
  define b' where "b' = b\<lparr>num_allocated_blocks := k + int f, allocated_blocks_free_list := take (length l - r) l\<rparr>"
  have a: "cpu_allocate hs b = Inr (map new_status ids, b')" and fr: "f + r = length hs" and rl: "r \<le> length l"
    and cap: "k + int f \<le> num_blocks b"
    using cpu_allocate_spec[OF ok n] unfolding l_def k_def f_def r_def ids_def b'_def by auto
  have l: "distinct l" "set l \<subseteq> {0..<k}" "A = {0..<k} - set l" "0 \<le> k" using ok by (auto simp: cpu_ok_def l_def k_def)
  note sp = split_last_set[OF l(1) rl]
  have ids_set: "set ids = {k..<k + int f} \<union> set (take r (rev l))" using cpu_fresh_ids(2) unfolding ids_def by simp
  have disj: "{k..<k + int f} \<inter> set (take r (rev l)) = {}" using sp(1) l(2) by fastforce
  then have "distinct ids" using cpu_fresh_ids sp(3) unfolding ids_def distinct_append by metis
  moreover have "set ids \<inter> A = {}" using ids_set sp(1) l(2,3) by fastforce
  moreover have "A \<union> set ids = {0..<k + int f} - set (take (length l - r) l)"
    unfolding ids_set l(3) by (rule handed_out_ids[OF sp(1,2) l(2,4)]) simp
  then have "cpu_ok b' (A \<union> set ids)"
    using l cap sp by (auto simp: cpu_ok_def b'_def)
  moreover have "length ids = length hs" using fr rl by (simp add: ids_def)
  moreover have "cpu_num_free b' = cpu_num_free b - int (length hs)"
    using fr rl by (simp add: cpu_num_free_def b'_def l_def k_def)
  moreover have "st_block_id ` set (map new_status ids) = set ids" by (simp add: image_image)
  ultimately show ?thesis using a by (intro exI[of _ "map new_status ids"] exI[of _ b']) (simp add: comp_def)
qed

interpretation cpu: offload_backend cpu_ops cpu_ok
proof
  fix b A assume "cpu_ok b A"
  then show "bk_num_free cpu_ops b \<ge> 0" by (simp add: cpu_ops_def cpu_num_free_def cpu_ok_def)
next
  fix b A and hs :: "bytes list" assume "cpu_ok b A" "int (length hs) \<le> bk_num_free cpu_ops b"
  then show "\<exists>ss b'. bk_allocate cpu_ops hs b = Inr (ss, b') \<and> length ss = length hs
        \<and> distinct (map st_block_id ss) \<and> st_block_id ` set ss \<inter> A = {} \<and> (\<forall>s\<in>set ss. st_ref_cnt s = -1)
        \<and> cpu_ok b' (A \<union> st_block_id ` set ss) \<and> bk_num_free cpu_ops b' = bk_num_free cpu_ops b - int (length hs)"
    using cpu_allocate_ok[of b A hs] by (simp add: cpu_ops_def)
next
  fix b A and s :: block_status assume "cpu_ok b A" "st_block_id s \<in> A"
  then show "cpu_ok (bk_free cpu_ops s b) (A - {st_block_id s})
      \<and> bk_num_free cpu_ops (bk_free cpu_ops s b) = bk_num_free cpu_ops b + 1"
    by (auto simp: cpu_ops_def cpu_ok_def cpu_free_def cpu_num_free_def)
qed

section \<open>Updating blocks in place\<close>

definition upd_keys :: "('v \<Rightarrow> 'v) \<Rightarrow> 'k set \<Rightarrow> ('k \<times> 'v) list \<Rightarrow> ('k \<times> 'v) list" where
  "upd_keys f K l = map (\<lambda>(h, b). (h, if h \<in> K then f b else b)) l"

lemma upd_keys_basic [simp]:
  "upd_keys f {} l = l" "map fst (upd_keys f K l) = map fst l" "fst ` set (upd_keys f K l) = fst ` set l"
  by (auto simp: upd_keys_def split_beta comp_def image_image intro!: map_idI)

lemma upd_keys_upd_keys: "h \<notin> K \<Longrightarrow> upd_keys f K (upd_keys f {h} l) = upd_keys f (insert h K) l"
  by (auto simp: upd_keys_def)

lemma map_of_upd_keys: "map_of (upd_keys f K l) h = (if h \<in> K then map_option f (map_of l h) else map_of l h)"
  by (induction l) (auto simp: upd_keys_def)

lemma update_upd_keys:
  "distinct (map fst l) \<Longrightarrow> map_of l h = Some b \<Longrightarrow> AList.update h (f b) l = upd_keys f {h} l"
proof (induction l)
  case (Cons x l)
  show ?case
  proof (cases "fst x = h")
    case True
    then have "upd_keys f {h} l = l" using Cons.prems(1) unfolding upd_keys_def
      by (intro map_idI) (auto simp: image_iff split: prod.split)
    with True Cons.prems show ?thesis by (cases x) (auto simp: upd_keys_def)
  next
    case False
    with Cons show ?thesis by (cases x) (auto simp: upd_keys_def)
  qed
qed simp

lemma for_each_load:
  assumes "distinct (map fst (lru_blocks m))" "distinct hs"
    "\<forall>h\<in>set hs. \<exists>b. map_of (lru_blocks m) h = Some b \<and> is_ready b"
  shows "for_each load_one hs (m, bs) = Inr
     (m\<lparr>lru_blocks := upd_keys (\<lambda>b. b\<lparr>st_ref_cnt := wrap32 (st_ref_cnt b + 1)\<rparr>) (set hs) (lru_blocks m)\<rparr>,
      bs @ map (\<lambda>h. (\<lambda>b. b\<lparr>st_ref_cnt := wrap32 (st_ref_cnt b + 1)\<rparr>) (the (map_of (lru_blocks m) h))) hs)"
  using assms
proof (induction hs arbitrary: m bs)
  case (Cons h hs)
  let ?f = "\<lambda>b. b\<lparr>st_ref_cnt := wrap32 (st_ref_cnt b + 1)\<rparr>"
  obtain b where b: "map_of (lru_blocks m) h = Some b" "is_ready b" using Cons.prems(3) by auto
  let ?m = "m\<lparr>lru_blocks := upd_keys ?f {h} (lru_blocks m)\<rparr>"
  have "load_one h (m, bs) = Inr (?m, bs @ [?f b])"
    using b update_upd_keys[of _ h b ?f] Cons.prems(1) by (simp add: load_one_def lookup_py_def check_def set_block_def)
  moreover have "map_of (lru_blocks ?m) x = map_of (lru_blocks m) x" if "x \<in> set hs" for x
    using that Cons.prems(2) by (auto simp: map_of_upd_keys)
  ultimately show ?case
    using Cons.IH[of ?m] Cons.prems b by (simp add: upd_keys_upd_keys)
qed simp

lemma for_each_unload:
  assumes "distinct (map fst (lru_blocks m))" "distinct hs"
    "\<forall>h\<in>set hs. \<exists>b. map_of (lru_blocks m) h = Some b \<and> st_ref_cnt b > 0"
  shows "for_each unload_one hs m = Inr
     (m\<lparr>lru_blocks := upd_keys (\<lambda>b. b\<lparr>st_ref_cnt := wrap32 (st_ref_cnt b - 1)\<rparr>) (set hs) (lru_blocks m)\<rparr>)"
  using assms
proof (induction hs arbitrary: m)
  case (Cons h hs)
  let ?f = "\<lambda>b. b\<lparr>st_ref_cnt := wrap32 (st_ref_cnt b - 1)\<rparr>"
  obtain b where b: "map_of (lru_blocks m) h = Some b" "st_ref_cnt b > 0" using Cons.prems(3) by auto
  let ?m = "m\<lparr>lru_blocks := upd_keys ?f {h} (lru_blocks m)\<rparr>"
  have "unload_one h m = Inr ?m"
    using b update_upd_keys[of _ h b ?f] Cons.prems(1) by (simp add: unload_one_def lookup_py_def check_def set_block_def)
  moreover have "map_of (lru_blocks ?m) x = map_of (lru_blocks m) x" if "x \<in> set hs" for x
    using that Cons.prems(2) by (auto simp: map_of_upd_keys)
  ultimately show ?case using Cons.IH[of ?m] Cons.prems by (simp add: upd_keys_upd_keys)
qed simp

lemma for_each_store_done:
  assumes "distinct (map fst (lru_blocks m))" "distinct hs"
    "\<forall>h\<in>set hs. \<exists>b. map_of (lru_blocks m) h = Some b \<and> \<not> is_ready b"
  shows "for_each store_done hs (m, st) = Inr
     (m\<lparr>lru_blocks := upd_keys (\<lambda>b. b\<lparr>st_ref_cnt := 0\<rparr>) (set hs) (lru_blocks m)\<rparr>, st @ hs)"
  using assms
proof (induction hs arbitrary: m st)
  case (Cons h hs)
  let ?f = "\<lambda>b. b\<lparr>st_ref_cnt := 0\<rparr>"
  obtain b where b: "map_of (lru_blocks m) h = Some b" "\<not> is_ready b" using Cons.prems(3) by auto
  let ?m = "m\<lparr>lru_blocks := upd_keys ?f {h} (lru_blocks m)\<rparr>"
  have "store_done h (m, st) = Inr (?m, st @ [h])"
    using b update_upd_keys[of _ h b ?f] Cons.prems(1) by (simp add: store_done_def lookup_py_def set_block_def)
  moreover have "map_of (lru_blocks ?m) x = map_of (lru_blocks m) x" if "x \<in> set hs" for x
    using that Cons.prems(2) by (auto simp: map_of_upd_keys)
  ultimately show ?case using Cons.IH[of ?m] Cons.prems by (simp add: upd_keys_upd_keys)
qed simp

lemma lookup_all: "\<forall>h\<in>set hs. \<exists>b. map_of (lru_blocks m) h = Some b \<and> is_ready b \<Longrightarrow> lookup m hs = length hs"
  by (induction hs) auto

section \<open>Properties of the manager\<close>

text \<open>C25: On the CPU backend, preparing a store of pairwise different blocks is refused without any change
  when fewer blocks are unreferenced than the backend lacks; otherwise exactly as many blocks are
  evicted as it lacks, the least recently used unreferenced ones first, the blocks that were absent are
  added in order with backend ids that no other block has, not ready yet and so safe from eviction,
  and the invariant of the manager is kept. Given blocks that are already stored get no protection: an
  unreferenced one is evicted like any other when its turn comes, in the very call that names it, which
  the documentation of the interface excludes.\<close>

theorem prepare_store_correct:
  assumes "lru_inv cpu_ok m" "distinct hs"
  shows "let to_store = filter (\<lambda>h. map_of (lru_blocks m) h = None) hs;
             unused = map fst (filter (\<lambda>(_, b). st_ref_cnt b = 0) (lru_blocks m));
             k = nat (int (length to_store) - cpu_num_free (backend m))
         in if k \<le> length unused
            then \<exists>ss m'. prepare_store cpu_ops m hs = Inr (Some \<lparr>block_hashes_to_store = to_store,
                   store_spec = map st_block_id ss, block_hashes_evicted = take k unused\<rparr>, m')
               \<and> lru_inv cpu_ok m' \<and> length ss = length to_store
               \<and> lru_blocks m' = filter (\<lambda>(h, _). h \<notin> set (take k unused)) (lru_blocks m) @ zip to_store ss
               \<and> (\<forall>s\<in>set ss. \<not> is_ready s)
            else prepare_store cpu_ops m hs = Inr (None, m)"
proof -
  have f: "bk_num_free cpu_ops = cpu_num_free" by (simp add: cpu_ops_def)
  show ?thesis using cpu.prepare_store_ok[OF assms] unfolding Let_def f .
qed

definition two_blocks :: "cpu_backend lru_manager" where
  "two_blocks = \<lparr>backend = \<lparr>num_blocks = 2, num_allocated_blocks = 2, allocated_blocks_free_list = []\<rparr>,
     lru_blocks = [([1], \<lparr>st_ref_cnt = 1, st_block_id = 0\<rparr>), ([2], \<lparr>st_ref_cnt = 0, st_block_id = 1\<rparr>)],
     lru_events = None\<rparr>"

lemma two_blocks_inv: "lru_inv cpu_ok two_blocks"
  by (auto simp: two_blocks_def lru_inv_def cpu_ok_def)

lemma two_blocks_eval: "filter (\<lambda>h. map_of (lru_blocks two_blocks) h = None) [[2], [3]] = [[3]]"
  "map fst (filter (\<lambda>(_, b). st_ref_cnt b = 0) (lru_blocks two_blocks)) = [[2]]"
  "cpu_num_free (backend two_blocks) = 0"
  by (simp_all add: two_blocks_def cpu_num_free_def)

text \<open>The given block \<open>[2]\<close> is evicted to make room for the given block \<open>[3]\<close>.\<close>

theorem prepare_store_correct_witness:
  "\<exists>(ss :: block_status list) m'. prepare_store cpu_ops two_blocks [[2], [3]] = Inr (Some \<lparr>block_hashes_to_store = [[3]],
      store_spec = map st_block_id ss, block_hashes_evicted = [[2]]\<rparr>, m') \<and> lru_inv cpu_ok m'"
  using prepare_store_correct[OF two_blocks_inv, of "[[2], [3]]"] unfolding two_blocks_eval Let_def
  by auto

lemma prepare_store_SomeD:
  assumes "lru_inv cpu_ok m" "distinct hs" "prepare_store cpu_ops m hs = Inr (Some out, m1)"
  obtains ss where "store_spec out = map st_block_id ss" "length ss = length (block_hashes_to_store out)"
    "lru_inv cpu_ok m1" "distinct (block_hashes_to_store out)" "\<forall>s\<in>set ss. \<not> is_ready s"
    "lru_blocks m1 = filter (\<lambda>(h, _). h \<notin> set (block_hashes_evicted out)) (lru_blocks m) @ zip (block_hashes_to_store out) ss"
    "set (block_hashes_to_store out) \<inter> fst ` set (lru_blocks m) = {}"
proof -
  have "set (filter (\<lambda>h. map_of (lru_blocks m) h = None) hs) \<inter> fst ` set (lru_blocks m) = {}"
    unfolding set_filter map_of_eq_None_iff by blast
  moreover obtain ss where "store_spec out = map st_block_id ss" "length ss = length (block_hashes_to_store out)"
    "lru_inv cpu_ok m1" "block_hashes_to_store out = filter (\<lambda>h. map_of (lru_blocks m) h = None) hs"
    "\<forall>s\<in>set ss. \<not> is_ready s"
    "lru_blocks m1 = filter (\<lambda>(h, _). h \<notin> set (block_hashes_evicted out)) (lru_blocks m) @ zip (block_hashes_to_store out) ss"
    using cpu.prepare_store_ok[OF assms(1,2)] assms(3) by (auto split: if_splits)
  ultimately show ?thesis using that[of ss] assms(2) by simp
qed

lemma map_of_append_zip:
  assumes "set hs \<inter> fst ` set l = {}" "distinct hs" "length ss = length hs" "i < length hs"
  shows "map_of (filter P l @ zip hs ss) (hs ! i) = Some (ss ! i)"
proof -
  have "map_of (filter P l) (hs ! i) = None"
    using assms(1) nth_mem[OF assms(4)] by (force simp: map_of_eq_None_iff)
  moreover have "map_of (zip hs ss) (hs ! i) = Some (ss ! i)" using assms(2-4) by (simp add: map_of_zip_nth)
  ultimately show ?thesis by (simp add: map_add_def)
qed

text \<open>C32: Storing and loading round trip on the CPU backend: when a store has been prepared and then
  completes, all the blocks it was for are found by the next lookup, loading them reads exactly the
  backend block ids the store was told to write, in the same order, and completing the load
  restores the manager.\<close>

theorem store_load_roundtrip:
  assumes inv: "lru_inv cpu_ok m" and dist: "distinct hs"
    and prep: "prepare_store cpu_ops m hs = Inr (Some out, m1)"
  shows "\<exists>m2 m3. complete_store cpu_ops m1 (block_hashes_to_store out) True = Inr m2
    \<and> lookup m2 (block_hashes_to_store out) = length (block_hashes_to_store out)
    \<and> prepare_load m2 (block_hashes_to_store out) = Inr (store_spec out, m3)
    \<and> complete_load m3 (block_hashes_to_store out) = Inr m2"
proof -
  define ts where "ts = block_hashes_to_store out"
  obtain ss where ss: "store_spec out = map st_block_id ss" "length ss = length ts" "lru_inv cpu_ok m1" "distinct ts"
    "\<forall>s\<in>set ss. \<not> is_ready s" "set ts \<inter> fst ` set (lru_blocks m) = {}"
    "lru_blocks m1 = filter (\<lambda>(h, _). h \<notin> set (block_hashes_evicted out)) (lru_blocks m) @ zip ts ss"
    using prepare_store_SomeD[OF inv dist prep] unfolding ts_def by metis
  have d: "distinct (map fst (lru_blocks m1))" using ss(3) by (simp add: lru_inv_def)
  have nth: "map_of (lru_blocks m1) (ts ! i) = Some (ss ! i)" if "i < length ts" for i
    using map_of_append_zip[OF ss(6,4,2) that] ss(7) by simp
  then have there: "\<forall>h\<in>set ts. \<exists>b. map_of (lru_blocks m1) h = Some b \<and> \<not> is_ready b"
    using ss(2,5) by (metis in_set_conv_nth nth_mem)
  define m2 where "m2 = add_event ts False (m1\<lparr>lru_blocks := upd_keys (\<lambda>b. b\<lparr>st_ref_cnt := 0\<rparr>) (set ts) (lru_blocks m1)\<rparr>)"
  have c: "complete_store cpu_ops m1 ts True = Inr m2"
    using for_each_store_done[OF d ss(4) there, of "[]"] by (simp add: complete_store_def m2_def)
  have bl: "lru_blocks m2 = upd_keys (\<lambda>b. b\<lparr>st_ref_cnt := 0\<rparr>) (set ts) (lru_blocks m1)"
    by (simp add: m2_def add_event_def)
  have d2: "distinct (map fst (lru_blocks m2))" using d by (simp add: bl)
  have nth2: "map_of (lru_blocks m2) (ts ! i) = Some ((ss ! i)\<lparr>st_ref_cnt := 0\<rparr>)" if "i < length ts" for i
    using nth[OF that] that by (simp add: bl map_of_upd_keys)
  then have ready: "\<forall>h\<in>set ts. \<exists>b. map_of (lru_blocks m2) h = Some b \<and> st_ref_cnt b = 0"
    by (metis (no_types, lifting) in_set_conv_nth block_status.simps(1) block_status.surjective block_status.update_convs(1))
  define m3 where "m3 = m2\<lparr>lru_blocks := upd_keys (\<lambda>b. b\<lparr>st_ref_cnt := wrap32 (st_ref_cnt b + 1)\<rparr>) (set ts) (lru_blocks m2)\<rparr>"
  have "map (\<lambda>h. st_block_id (the (map_of (lru_blocks m2) h))) ts = map st_block_id ss"
    using nth2 ss(2) by (intro nth_equalityI) auto
  then have l: "prepare_load m2 ts = Inr (store_spec out, m3)"
    using for_each_load[OF d2 ss(4), of "[]"] ready ss(1)
    by (fastforce simp: prepare_load_def m3_def is_ready_def comp_def)
  have pos: "\<forall>h\<in>set ts. \<exists>b. map_of (lru_blocks m3) h = Some b \<and> st_ref_cnt b > 0"
    using ready by (fastforce simp: m3_def map_of_upd_keys wrap32_def)
  have "upd_keys (\<lambda>b. b\<lparr>st_ref_cnt := wrap32 (st_ref_cnt b - 1)\<rparr>) (set ts) (lru_blocks m3) = lru_blocks m2"
    by (auto simp: m3_def bl upd_keys_def wrap32_def)
  then have "complete_load m3 ts = Inr m2"
    using for_each_unload[of m3 ts] d2 ss(4) pos by (simp add: complete_load_def m3_def)
  then show ?thesis using c l lookup_all[of ts m2] ready by (fastforce simp: ts_def is_ready_def)
qed

definition demo_stored :: "cpu_backend lru_manager" where
  "demo_stored = \<lparr>backend = \<lparr>num_blocks = 2, num_allocated_blocks = 2, allocated_blocks_free_list = []\<rparr>,
     lru_blocks = [([1], new_status 0), ([2], new_status 1)], lru_events = None\<rparr>"

lemma demo_prepare_store: "prepare_store cpu_ops (lru_init (cpu_init 2) False) [[1], [2]]
    = Inr (Some \<lparr>block_hashes_to_store = [[1], [2]], store_spec = [0, 1], block_hashes_evicted = []\<rparr>, demo_stored)"
  by (simp add: prepare_store_def lru_init_def cpu_init_def cpu_ops_def cpu_num_free_def add_event_def
      cpu_allocate_def check_def set_block_def demo_stored_def numeral_2_eq_2)

lemma demo_init_inv: "lru_inv cpu_ok (lru_init (cpu_init 2) False)"
  by (simp add: lru_inv_def lru_init_def cpu_init_def cpu_ok_def)

theorem store_load_roundtrip_witness:
  "\<exists>m2 m3. complete_store cpu_ops demo_stored [[1], [2]] True = Inr m2 \<and> lookup m2 [[1], [2]] = 2
    \<and> prepare_load m2 [[1], [2]] = Inr ([0, 1], m3) \<and> complete_load m3 [[1], [2]] = Inr m2"
  using store_load_roundtrip[OF demo_init_inv _ demo_prepare_store] by (simp add: numeral_2_eq_2)

text \<open>C33: A store that fails is rolled back: the blocks prepared for it are gone, the blocks that
  were not evicted are as before the preparation, and the invariant holds again, so the backend has
  got its blocks back.\<close>

theorem failed_store_rolls_back:
  assumes inv: "lru_inv cpu_ok m" and dist: "distinct hs"
    and prep: "prepare_store cpu_ops m hs = Inr (Some out, m1)"
  shows "\<exists>m2. complete_store cpu_ops m1 (block_hashes_to_store out) False = Inr m2 \<and> lru_inv cpu_ok m2
    \<and> lru_blocks m2 = filter (\<lambda>(h, _). h \<notin> set (block_hashes_evicted out)) (lru_blocks m)
    \<and> lru_events m2 = lru_events m1"
proof -
  define ts where "ts = block_hashes_to_store out"
  define P where "P = (\<lambda>(h, _ :: block_status). h \<notin> set (block_hashes_evicted out))"
  obtain ss where ss: "length ss = length ts" "lru_inv cpu_ok m1" "distinct ts"
    "\<forall>s\<in>set ss. \<not> is_ready s" "set ts \<inter> fst ` set (lru_blocks m) = {}"
    "lru_blocks m1 = filter P (lru_blocks m) @ zip ts ss"
    using prepare_store_SomeD[OF inv dist prep] unfolding ts_def P_def by metis
  have there: "\<forall>h\<in>set ts. \<exists>b. map_of (lru_blocks m1) h = Some b \<and> \<not> is_ready b"
    using map_of_append_zip[OF ss(5,3,1), of _ P] ss(1,4,6) by (metis in_set_conv_nth nth_mem)
  then have "set ts \<subseteq> fst ` set (lru_blocks m1)" by (force dest: map_of_SomeD)
  from cpu.evict_all[OF ss(2,3) this] obtain m2 where m2: "for_each (evict_one_block cpu_ops) ts m1 = Inr m2"
    "lru_inv cpu_ok m2" "lru_blocks m2 = filter (\<lambda>(h, _). h \<notin> set ts) (lru_blocks m1)" "lru_events m2 = lru_events m1"
    by blast
  have "filter (\<lambda>(h, _). h \<notin> set ts) (zip ts ss) = []" by (auto simp: filter_empty_conv dest: set_zip_leftD)
  moreover have "filter (\<lambda>(h, _). h \<notin> set ts) (filter P (lru_blocks m)) = filter P (lru_blocks m)"
    using ss(5) unfolding filter_filter by (intro filter_cong refl) force
  ultimately have "lru_blocks m2 = filter P (lru_blocks m)" using m2(3) ss(6) by simp
  then show ?thesis
    using m2 cpu.store_failed_all[OF ss(2,3) there] by (simp add: complete_store_def ts_def P_def)
qed

theorem failed_store_rolls_back_witness:
  "\<exists>m2. complete_store cpu_ops demo_stored [[1], [2]] False = Inr m2 \<and> lru_inv cpu_ok m2 \<and> lru_blocks m2 = []"
  using failed_store_rolls_back[OF demo_init_inv _ demo_prepare_store] by (simp add: lru_init_def) blast

section \<open>Block ids between media\<close>

definition sub_blocks :: "int \<Rightarrow> int list \<Rightarrow> int list" where
  "sub_blocks f bs = concat (map (\<lambda>b. map (\<lambda>i. b * f + i) [0..f - 1]) bs)"

lemma length_sub_blocks: "0 \<le> f \<Longrightarrow> int (length (sub_blocks f bs)) = int (length bs) * f"
  by (induction bs) (simp_all add: sub_blocks_def algebra_simps)

lemma write_slice_in: "i + length vs \<le> length out \<Longrightarrow> write_slice out i vs = Inr (take i out @ vs @ drop (i + length vs) out)"
  by (simp add: write_slice_def)

lemma upto_drop: "0 \<le> s \<Longrightarrow> [s..f - 1] = drop (nat s) [0..f - 1]"
  by (rule nth_equalityI) (auto simp: nth_upto)

lemma expand_loop_spec:
  assumes "0 \<le> s" "s \<le> f" "bs \<noteq> []" "int (length out) = int pos + int (length bs) * f - s"
  shows "expand_loop bs f [s..f - 1] pos out = Inr (take pos out @ drop (nat s) (sub_blocks f bs))"
  using assms
proof (induction bs arbitrary: s pos out)
  case (Cons b bs)
  define vs where "vs = map (\<lambda>i. b * f + i) [s..f - 1]"
  have lv: "int (length vs) = f - s" using Cons.prems by (simp add: vs_def)
  have nn: "0 \<le> int (length bs) * f" using Cons.prems by simp
  have lo: "int (length out) = int pos + int (length vs) + int (length bs) * f"
    using Cons.prems(4) lv by (simp add: distrib_right)
  then have fits: "pos + length vs \<le> length out" using nn by linarith
  have vd: "drop (nat s) (map (\<lambda>i. b * f + i) [0..f - 1]) = vs"
    unfolding vs_def drop_map upto_drop[OF Cons.prems(1)] ..
  have "nat s \<le> length (map (\<lambda>i. b * f + i) [0..f - 1])" using Cons.prems(1,2) by simp
  then have sd: "drop (nat s) (sub_blocks f (b # bs)) = vs @ sub_blocks f bs"
    unfolding sub_blocks_def list.map concat.simps drop_append vd by simp
  define out' where "out' = take pos out @ vs @ drop (pos + length vs) out"
  have w: "write_slice out pos vs = Inr out'" using fits by (simp add: out'_def write_slice_in)
  have t: "take (pos + length vs) out' = take pos out @ vs" using fits by (simp add: out'_def)
  show ?case
  proof (cases "bs = []")
    case True
    then have "pos + length vs = length out" using lo by simp
    then show ?thesis using w sd True by (simp add: out'_def vs_def sub_blocks_def)
  next
    case False
    have "int (length out') = int (pos + length vs) + int (length bs) * f - 0"
      using fits lo by (simp add: out'_def)
    from Cons.IH[OF _ _ False this] show ?thesis using w sd t Cons.prems by (simp add: vs_def)
  qed
qed simp

lemma expand_block_ids_ok:
  assumes "0 \<le> s" "s < f" "int (length out) = int (length bs) * f - s"
  shows "expand_block_ids bs f out s = Inr (drop (nat s) (sub_blocks f bs))"
proof (cases "bs = []")
  case True
  then show ?thesis using assms by (cases out) (simp_all add: expand_block_ids_def check_def sub_blocks_def)
next
  case False
  then show ?thesis using expand_loop_spec[of s f bs out 0] assms by (simp add: expand_block_ids_def check_def)
qed

lemma sub_blocks_1 [simp]: "sub_blocks 1 bs = bs"
  by (induction bs) (simp_all add: sub_blocks_def)

text \<open>With a positive ratio of the block sizes, a transfer from CPU to GPU succeeds exactly when
  the GPU blocks are as many as the sub-blocks of the CPU blocks, and one from GPU to CPU exactly
  when the GPU blocks are as many as the sub-blocks of the CPU blocks less the smallest number that
  aligns them; it then copies sub-block by sub-block in order, leaving out the first sub-blocks of
  the first CPU block when storing. In every other case an assertion fails.\<close>

theorem transfer_pairs_correct:
  assumes "block_size_factor hdl > 0"
  shows "let f = block_size_factor hdl; skip = (- int (length gpu)) mod f
    in transfer_pairs hdl (CPU, cpu_ids) (GPU, gpu) junk =
         (if int (length gpu) = int (length cpu_ids) * f then Inr (zip (sub_blocks f cpu_ids) gpu) else Inl AssertionError)
     \<and> transfer_pairs hdl (GPU, gpu) (CPU, cpu_ids) junk =
         (if int (length gpu) = int (length cpu_ids) * f - skip
          then Inr (zip gpu (drop (nat skip) (sub_blocks f cpu_ids))) else Inl AssertionError)
     \<and> transfer_pairs hdl (GPU, gpu) (GPU, cpu_ids) junk = Inl AssertionError
     \<and> transfer_pairs hdl (CPU, gpu) (CPU, cpu_ids) junk = Inl AssertionError"
proof -
  let ?f = "block_size_factor hdl"
  have m: "0 \<le> (- int (length gpu)) mod ?f" "(- int (length gpu)) mod ?f < ?f" using assms by simp_all
  show ?thesis
    using assms m
    by (auto simp: transfer_pairs_def check_def Let_def expand_block_ids_ok algebra_simps)
qed

theorem transfer_pairs_correct_witness:
  "transfer_pairs \<lparr>block_size_factor = 2, transfer_events = [], events_pool = []\<rparr> (GPU, [7, 8, 9]) (CPU, [0, 4]) (\<lambda>_. 0)
     = Inr [(7, 1), (8, 8), (9, 9)]"
  using transfer_pairs_correct[of "\<lparr>block_size_factor = 2, transfer_events = [], events_pool = []\<rparr>" "[7, 8, 9]" "[0, 4]" "\<lambda>_. 0"]
  by (simp add: sub_blocks_def upto.simps)

end
