(* ===== verification/Kv_Specs.thy ===== *)
theory Kv_Specs
  imports Prelude
begin

text \<open>
  The formats of the KV cache, from \<^verbatim>\<open>vllm/v1/kv_cache_interface.py\<close>: one specification per layer,
  its page size and its largest memory usage, the merging of specifications, and the
  configuration that the workers get. The size of a data type is a torch function and enters as
  the parameter \<open>sz\<close>.
\<close>

section \<open>Specifications\<close>

type_synonym dtype = string

record attention_spec =
  a_block_size :: int
  num_kv_heads :: int
  head_size :: int
  a_dtype :: dtype
  use_mla :: bool

record mamba_spec =
  m_block_size :: int
  shapes :: "int list list"
  dtypes :: "dtype list"
  page_size_padded :: "int option"
  mamba_type :: string
  num_speculative_blocks :: int

text \<open>A dictionary of the source is a list of pairs in insertion order.\<close>

datatype kv_cache_spec =
    FullAttentionSpec attention_spec (sliding_window_opt: "int option") (attention_chunk_opt: "int option")
  | ChunkedLocalAttentionSpec attention_spec int
  | SlidingWindowSpec attention_spec int
  | MambaSpec mamba_spec
  | EncoderOnlyAttentionSpec attention_spec
  | CrossAttentionSpec attention_spec
  | UniformTypeKVCacheSpecs int "(string \<times> kv_cache_spec) list"

type_synonym spec_dict = "(string \<times> kv_cache_spec) list"

record vllm_config =
  max_model_len :: int
  decode_context_parallel_size :: int
  cfg_max_num_batched_tokens :: int
  cfg_max_num_encoder_input_tokens :: int
  num_gpu_blocks_override :: "int option"
  disable_hybrid_kv_cache_manager :: bool

fun spec_block_size :: "kv_cache_spec \<Rightarrow> int" where
  "spec_block_size (FullAttentionSpec a _ _) = a_block_size a"
| "spec_block_size (ChunkedLocalAttentionSpec a _) = a_block_size a"
| "spec_block_size (SlidingWindowSpec a _) = a_block_size a"
| "spec_block_size (MambaSpec m) = m_block_size m"
| "spec_block_size (EncoderOnlyAttentionSpec a) = a_block_size a"
| "spec_block_size (CrossAttentionSpec a) = a_block_size a"
| "spec_block_size (UniformTypeKVCacheSpecs b _) = b"

text \<open>Constructing a sliding window specification runs its \<^verbatim>\<open>__post_init__\<close>.\<close>

definition mk_sliding_window :: "attention_spec \<Rightarrow> int \<Rightarrow> kv_cache_spec result" where
  "mk_sliding_window a w = check (\<not> use_mla a) AssertionError (Inr (SlidingWindowSpec a w))"

section \<open>Memory\<close>

fun sum_res :: "int result list \<Rightarrow> int result" where
  "sum_res [] = Inr 0"
| "sum_res (r # rs) = bnd r (\<lambda>x. bnd (sum_res rs) (\<lambda>y. Inr (x + y)))"

fun all_res :: "'a result list \<Rightarrow> 'a list result" where
  "all_res [] = Inr []"
| "all_res (r # rs) = bnd r (\<lambda>x. bnd (all_res rs) (\<lambda>xs. Inr (x # xs)))"

definition max_py :: "int list \<Rightarrow> int result" where
  "max_py xs = (if xs = [] then Inl ValueError else Inr (Max (set xs)))"

definition min_py :: "int list \<Rightarrow> int result" where
  "min_py xs = (if xs = [] then Inl ValueError else Inr (Min (set xs)))"

definition div_py :: "int \<Rightarrow> int \<Rightarrow> int result" where
  "div_py a b = (if b = 0 then Inl ZeroDivisionError else Inr (a div b))"

definition cdiv_py :: "int \<Rightarrow> int \<Rightarrow> int result" where
  "cdiv_py a b = (if b = 0 then Inl ZeroDivisionError else Inr (cdiv a b))"

definition attention_page_size :: "(dtype \<Rightarrow> int) \<Rightarrow> attention_spec \<Rightarrow> int" where
  "attention_page_size sz a =
     (if use_mla a then 1 else 2) * a_block_size a * num_kv_heads a * head_size a * sz (a_dtype a)"

definition mamba_page_size :: "(dtype \<Rightarrow> int) \<Rightarrow> mamba_spec \<Rightarrow> int result" where
  "mamba_page_size sz m =
     (let page_size = sum_list (map (\<lambda>(shape, dt). prod_list shape * sz dt) (zip (shapes m) (dtypes m)))
      in case page_size_padded m of
           None \<Rightarrow> Inr page_size
         | Some p \<Rightarrow> check (p \<ge> page_size) AssertionError (Inr p))"

fun page_size_bytes :: "(dtype \<Rightarrow> int) \<Rightarrow> kv_cache_spec \<Rightarrow> int result" where
  "page_size_bytes sz (FullAttentionSpec a _ _) = Inr (attention_page_size sz a)"
| "page_size_bytes sz (ChunkedLocalAttentionSpec a _) = Inr (attention_page_size sz a)"
| "page_size_bytes sz (SlidingWindowSpec a _) = Inr (attention_page_size sz a)"
| "page_size_bytes sz (MambaSpec m) = mamba_page_size sz m"
| "page_size_bytes sz (EncoderOnlyAttentionSpec a) = Inr (attention_page_size sz a)"
| "page_size_bytes sz (CrossAttentionSpec a) = Inr (attention_page_size sz a)"
| "page_size_bytes sz (UniformTypeKVCacheSpecs _ specs) = sum_res (map (\<lambda>(_, s). page_size_bytes sz s) specs)"

definition pages_for :: "(dtype \<Rightarrow> int) \<Rightarrow> attention_spec \<Rightarrow> int \<Rightarrow> int result" where
  "pages_for sz a n = bnd (cdiv_py n (a_block_size a)) (\<lambda>k. Inr (k * attention_page_size sz a))"

definition local_model_len :: "vllm_config \<Rightarrow> int" where
  "local_model_len cfg =
     (if decode_context_parallel_size cfg > 1 then cdiv (max_model_len cfg) (decode_context_parallel_size cfg)
      else max_model_len cfg)"

text \<open>\<^verbatim>\<open>max_memory_usage_bytes\<close> of the classes of specifications, and the dispatch over them.\<close>

definition full_max_memory :: "(dtype \<Rightarrow> int) \<Rightarrow> vllm_config \<Rightarrow> attention_spec \<Rightarrow> int result" where
  "full_max_memory sz cfg a = pages_for sz a (local_model_len cfg)"

definition chunked_max_memory :: "(dtype \<Rightarrow> int) \<Rightarrow> vllm_config \<Rightarrow> attention_spec \<Rightarrow> int \<Rightarrow> int result" where
  "chunked_max_memory sz cfg a chunk = pages_for sz a (min (chunk + cfg_max_num_batched_tokens cfg) (max_model_len cfg))"

definition sliding_max_memory :: "(dtype \<Rightarrow> int) \<Rightarrow> vllm_config \<Rightarrow> attention_spec \<Rightarrow> int \<Rightarrow> int result" where
  "sliding_max_memory sz cfg a w =
     check (decode_context_parallel_size cfg = 1) AssertionError
       (bnd (cdiv_py (min (w - 1 + cfg_max_num_batched_tokens cfg) (max_model_len cfg)) (a_block_size a)) (\<lambda>k.
          Inr ((k + 1) * attention_page_size sz a)))"

definition mamba_max_memory :: "(dtype \<Rightarrow> int) \<Rightarrow> mamba_spec \<Rightarrow> int result" where
  "mamba_max_memory sz m = mamba_page_size sz m"

definition cross_max_memory :: "(dtype \<Rightarrow> int) \<Rightarrow> vllm_config \<Rightarrow> attention_spec \<Rightarrow> int result" where
  "cross_max_memory sz cfg a = pages_for sz a (cfg_max_num_encoder_input_tokens cfg)"

declare full_max_memory_def [simp] chunked_max_memory_def [simp] sliding_max_memory_def [simp] mamba_max_memory_def [simp]
  cross_max_memory_def [simp]

fun max_memory_usage_bytes :: "(dtype \<Rightarrow> int) \<Rightarrow> vllm_config \<Rightarrow> kv_cache_spec \<Rightarrow> int result" where
  "max_memory_usage_bytes sz cfg (FullAttentionSpec a _ _) = full_max_memory sz cfg a"
| "max_memory_usage_bytes sz cfg (ChunkedLocalAttentionSpec a chunk) = chunked_max_memory sz cfg a chunk"
| "max_memory_usage_bytes sz cfg (SlidingWindowSpec a w) = sliding_max_memory sz cfg a w"
| "max_memory_usage_bytes sz cfg (MambaSpec m) = mamba_max_memory sz m"
| "max_memory_usage_bytes sz cfg (EncoderOnlyAttentionSpec a) = Inr 0"
| "max_memory_usage_bytes sz cfg (CrossAttentionSpec a) = cross_max_memory sz cfg a"
| "max_memory_usage_bytes sz cfg (UniformTypeKVCacheSpecs b specs) =
     bnd (all_res (map (\<lambda>(_, s). bnd (max_memory_usage_bytes sz cfg s) (\<lambda>m.
            bnd (page_size_bytes sz s) (\<lambda>p. cdiv_py m p))) specs)) (\<lambda>ks.
       bnd (max_py ks) (\<lambda>k.
       bnd (page_size_bytes sz (UniformTypeKVCacheSpecs b specs)) (\<lambda>p. Inr (k * p))))"

section \<open>Merging\<close>

fun is_full :: "kv_cache_spec \<Rightarrow> bool" where
  "is_full (FullAttentionSpec _ _ _) = True"
| "is_full _ = False"

fun is_cross :: "kv_cache_spec \<Rightarrow> bool" where
  "is_cross (CrossAttentionSpec _) = True"
| "is_cross _ = False"

fun is_sliding :: "kv_cache_spec \<Rightarrow> bool" where
  "is_sliding (SlidingWindowSpec _ _) = True"
| "is_sliding _ = False"

fun is_chunked :: "kv_cache_spec \<Rightarrow> bool" where
  "is_chunked (ChunkedLocalAttentionSpec _ _) = True"
| "is_chunked _ = False"

fun is_uniform :: "kv_cache_spec \<Rightarrow> bool" where
  "is_uniform (UniformTypeKVCacheSpecs _ _) = True"
| "is_uniform _ = False"

fun full_attention :: "kv_cache_spec \<Rightarrow> attention_spec" where
  "full_attention (FullAttentionSpec a _ _) = a"
| "full_attention (ChunkedLocalAttentionSpec a _) = a"
| "full_attention (SlidingWindowSpec a _) = a"
| "full_attention (EncoderOnlyAttentionSpec a) = a"
| "full_attention (CrossAttentionSpec a) = a"

definition merge_window_sizes :: "int list \<Rightarrow> int option result" where
  "merge_window_sizes ws =
     (case remdups ws of [] \<Rightarrow> Inr None | [w] \<Rightarrow> Inr (Some w) | _ \<Rightarrow> Inl ValueError)"

definition window_set :: "(kv_cache_spec \<Rightarrow> int option) \<Rightarrow> kv_cache_spec list \<Rightarrow> int list" where
  "window_set f specs = List.map_filter f specs"

definition full_attention_merge :: "kv_cache_spec list \<Rightarrow> kv_cache_spec result" where
  "full_attention_merge specs =
     check (list_all is_full specs) AssertionError
       (bnd (index_py specs 0) (\<lambda>s0.
        bnd (merge_window_sizes (window_set sliding_window_opt specs)) (\<lambda>w.
        bnd (merge_window_sizes (window_set attention_chunk_opt specs)) (\<lambda>c.
        check (list_all (\<lambda>s. full_attention s = full_attention s0) specs) AssertionError
          (check (\<not> (w \<noteq> None \<and> c \<noteq> None)) AssertionError
            (Inr (FullAttentionSpec (full_attention s0) w c)))))))"

definition base_merge :: "kv_cache_spec list \<Rightarrow> kv_cache_spec result" where
  "base_merge specs =
     bnd (index_py specs 0) (\<lambda>s0.
       check (list_all (\<lambda>s. s = s0) (tl specs)) AssertionError (Inr s0))"

definition spec_merge :: "kv_cache_spec list \<Rightarrow> kv_cache_spec result" where
  "spec_merge specs =
     bnd (index_py specs 0) (\<lambda>s0. if is_full s0 then full_attention_merge specs else base_merge specs)"

fun same_type :: "kv_cache_spec \<Rightarrow> kv_cache_spec \<Rightarrow> bool result" where
  "same_type (FullAttentionSpec _ _ _) s = Inr (is_full s)"
| "same_type (CrossAttentionSpec _) s = Inr (is_cross s)"
| "same_type (SlidingWindowSpec _ w) s = Inr (case s of SlidingWindowSpec _ w' \<Rightarrow> w' = w | _ \<Rightarrow> False)"
| "same_type (ChunkedLocalAttentionSpec _ c) s = Inr (case s of ChunkedLocalAttentionSpec _ c' \<Rightarrow> c' = c | _ \<Rightarrow> False)"
| "same_type (MambaSpec m) s =
     Inr (case s of MambaSpec m' \<Rightarrow> num_speculative_blocks m' = num_speculative_blocks m | _ \<Rightarrow> False)"
| "same_type (EncoderOnlyAttentionSpec _) s = Inl NotImplementedError"
| "same_type (UniformTypeKVCacheSpecs _ _) s = Inl NotImplementedError"

definition is_uniform_type :: "spec_dict \<Rightarrow> bool result" where
  "is_uniform_type specs =
     (if length (remdups (map (spec_block_size \<circ> snd) specs)) > 1 then Inr False
      else case specs of
        [] \<Rightarrow> Inl StopIteration
      | (_, one_spec) # _ \<Rightarrow> bnd (all_res (map (same_type one_spec \<circ> snd) specs)) (\<lambda>bs. Inr (list_all id bs)))"

definition from_specs :: "spec_dict \<Rightarrow> kv_cache_spec option result" where
  "from_specs specs =
     bnd (is_uniform_type specs) (\<lambda>b.
       if b then (case specs of
           [] \<Rightarrow> Inl StopIteration
         | (_, s) # _ \<Rightarrow> Inr (Some (UniformTypeKVCacheSpecs (spec_block_size s) specs)))
       else Inr None)"

section \<open>Configurations\<close>

record kv_cache_tensor =
  tensor_size :: int
  shared_by :: "string list"

record kv_cache_group_spec =
  layer_names :: "string list"
  group_spec :: kv_cache_spec

record kv_cache_config =
  cfg_num_blocks :: int
  kv_cache_tensors :: "kv_cache_tensor list"
  kv_cache_groups :: "kv_cache_group_spec list"

end
