(* ===== verification/Kv_Config.thy ===== *)
theory Kv_Config
  imports Complex_Main Kv_Specs "HOL-Library.AList" "HOL-Library.Multiset"
begin

text \<open>
  From the KV cache specifications of the layers to the configuration of every worker
  (\<^verbatim>\<open>vllm/v1/core/kv_cache_utils.py\<close>, second half): the memory check with its binary search, the
  grouping of layers, the number of blocks and the tensors. Log output is left out, but what is
  computed for it and may raise is kept.
\<close>

section \<open>Memory check\<close>

definition total_memory :: "(dtype \<Rightarrow> int) \<Rightarrow> vllm_config \<Rightarrow> kv_cache_spec list \<Rightarrow> int result" where
  "total_memory sz cfg specs = sum_res (map (max_memory_usage_bytes sz cfg) specs)"

text \<open>The test for one length assigns the length to the configuration object.\<close>

definition fits_in_memory :: "(dtype \<Rightarrow> int) \<Rightarrow> kv_cache_spec list \<Rightarrow> int \<Rightarrow> int \<Rightarrow> vllm_config \<Rightarrow> (bool \<times> vllm_config) result" where
  "fits_in_memory sz specs available_memory model_len cfg =
     (let cfg' = cfg\<lparr>max_model_len := model_len\<rparr>
      in bnd (total_memory sz cfg' specs) (\<lambda>needed. Inr (needed \<le> available_memory, cfg')))"

function search_loop :: "(dtype \<Rightarrow> int) \<Rightarrow> kv_cache_spec list \<Rightarrow> int \<Rightarrow> int \<Rightarrow> int \<Rightarrow> int \<Rightarrow> vllm_config
    \<Rightarrow> (int \<times> vllm_config) result" where
  "search_loop sz specs mem left right res cfg =
     (if left \<le> right
      then let mid = (left + right) div 2
           in bnd (fits_in_memory sz specs mem mid cfg) (\<lambda>(fits, cfg').
                if fits then search_loop sz specs mem (mid + 1) right mid cfg'
                else search_loop sz specs mem left (mid - 1) res cfg')
      else Inr (res, cfg))"
  by pat_completeness auto
termination
  by (relation "measure (\<lambda>(_, _, _, left, right, _, _). nat (right - left + 1))") auto

declare search_loop.simps [simp del]

definition estimate_max_model_len :: "(dtype \<Rightarrow> int) \<Rightarrow> vllm_config \<Rightarrow> spec_dict \<Rightarrow> int \<Rightarrow> (int \<times> vllm_config) result" where
  "estimate_max_model_len sz cfg specs available_memory =
     (let current_max = max_model_len cfg
      in bnd (fits_in_memory sz (map snd specs) available_memory 1 cfg) (\<lambda>(fits, cfg').
           if \<not> fits then Inr (0, cfg')
           else search_loop sz (map snd specs) available_memory 1 current_max 1 cfg'))"

definition check_enough_kv_cache_memory :: "(dtype \<Rightarrow> int) \<Rightarrow> vllm_config \<Rightarrow> spec_dict \<Rightarrow> int \<Rightarrow> unit result" where
  "check_enough_kv_cache_memory sz cfg specs available_memory =
     (if specs = [] then Inr ()
      else if available_memory \<le> 0 then Inl ValueError
      else bnd (total_memory sz cfg (map snd specs)) (\<lambda>needed.
        if needed > available_memory
        then bnd (estimate_max_model_len sz cfg specs available_memory) (\<lambda>_. Inl ValueError)
        else Inr ()))"

section \<open>Grouping\<close>

definition create_kv_cache_group_specs :: "spec_dict \<Rightarrow> string list list \<Rightarrow> kv_cache_group_spec list result" where
  "create_kv_cache_group_specs specs grouped_layer_names =
     map_res (\<lambda>names. bnd (map_res (lookup_py (map_of specs)) names) (\<lambda>layer_specs.
       bnd (spec_merge layer_specs) (\<lambda>merged. Inr \<lparr>layer_names = names, group_spec = merged\<rparr>))) grouped_layer_names"

definition is_kv_cache_spec_uniform :: "spec_dict \<Rightarrow> bool result" where
  "is_kv_cache_spec_uniform specs =
     (if specs = [] then Inr True
      else case spec_merge (map snd specs) of
        Inl e \<Rightarrow> if e = AssertionError then Inr False else Inl e
      | Inr _ \<Rightarrow> Inr True)"

definition get_max_concurrency_for_kv_cache_config :: "(dtype \<Rightarrow> int) \<Rightarrow> vllm_config \<Rightarrow> kv_cache_config \<Rightarrow> rat result" where
  "get_max_concurrency_for_kv_cache_config sz cfg kc =
     bnd (max_py (map (\<lambda>g. int (length (layer_names g))) (kv_cache_groups kc))) (\<lambda>n.
     bnd (total_memory sz cfg (map group_spec (kv_cache_groups kc))) (\<lambda>t.
     bnd (index_py (kv_cache_groups kc) 0) (\<lambda>g0.
     bnd (page_size_bytes sz (group_spec g0)) (\<lambda>p.
     bnd (cdiv_py (n * t) (p * n)) (\<lambda>k.
       if k = 0 then Inl ZeroDivisionError else Inr (of_int (cfg_num_blocks kc) / of_int k))))))"

definition may_override_num_blocks :: "vllm_config \<Rightarrow> int \<Rightarrow> int" where
  "may_override_num_blocks cfg n = (case num_gpu_blocks_override cfg of None \<Rightarrow> n | Some k \<Rightarrow> k)"

definition get_num_blocks :: "vllm_config \<Rightarrow> int \<Rightarrow> int \<Rightarrow> int \<Rightarrow> int result" where
  "get_num_blocks cfg num_layers available_memory page_size =
     bnd (div_py available_memory page_size) (\<lambda>x.
     bnd (div_py x num_layers) (\<lambda>n. Inr (may_override_num_blocks cfg (max n 0))))"

definition get_uniform_page_size :: "(dtype \<Rightarrow> int) \<Rightarrow> spec_dict \<Rightarrow> int result" where
  "get_uniform_page_size sz specs =
     bnd (map_res (page_size_bytes sz \<circ> snd) specs) (\<lambda>ps.
       case remdups ps of [p] \<Rightarrow> Inr p | _ \<Rightarrow> Inl AssertionError)"

definition get_kv_cache_groups_uniform_spec :: "spec_dict \<Rightarrow> kv_cache_group_spec list result" where
  "get_kv_cache_groups_uniform_spec specs = create_kv_cache_group_specs specs [map fst specs]"

definition get_kv_cache_groups_uniform_type :: "kv_cache_spec \<Rightarrow> kv_cache_group_spec list result" where
  "get_kv_cache_groups_uniform_type spec =
     (case spec of
        UniformTypeKVCacheSpecs b specs \<Rightarrow> Inr [\<lparr>layer_names = map fst specs, group_spec = spec\<rparr>]
      | _ \<Rightarrow> Inl AttributeError)"

definition is_kv_cache_page_size_uniform :: "(dtype \<Rightarrow> int) \<Rightarrow> spec_dict \<Rightarrow> bool result" where
  "is_kv_cache_page_size_uniform sz specs =
     bnd (map_res (page_size_bytes sz \<circ> snd) specs) (\<lambda>ps. Inr (length (remdups ps) = 1))"

definition is_kv_cache_type_attention_free :: "spec_dict \<Rightarrow> bool" where
  "is_kv_cache_type_attention_free specs \<longleftrightarrow> specs = []"

text \<open>A dictionary from specifications to layer names; a specification that holds a dictionary is
  not hashable.\<close>

definition add_layer :: "string \<times> kv_cache_spec \<Rightarrow> (kv_cache_spec \<times> string list) list
    \<Rightarrow> (kv_cache_spec \<times> string list) list result" where
  "add_layer l d =
     (let (n, s) = l in
      check (\<not> is_uniform s) TypeError
        (Inr (AList.update s ((case map_of d s of None \<Rightarrow> [] | Some ns \<Rightarrow> ns) @ [n]) d)))"

definition every_nth :: "'a list \<Rightarrow> nat \<Rightarrow> nat \<Rightarrow> 'a list" where
  "every_nth xs i k = map (\<lambda>j. xs ! j) (filter (\<lambda>j. (j - i) mod k = 0) [i..<length xs])"

definition split_layers :: "int \<Rightarrow> string list \<Rightarrow> string list list" where
  "split_layers group_size layers =
     (let num_groups = nat (cdiv (int (length layers)) group_size)
      in map (\<lambda>i. every_nth layers i num_groups) [0..<num_groups])"

definition get_kv_cache_groups_uniform_page_size :: "spec_dict \<Rightarrow> kv_cache_group_spec list result" where
  "get_kv_cache_groups_uniform_page_size specs =
     bnd (for_each add_layer specs []) (\<lambda>same_type_layers.
     bnd (min_py (map (int \<circ> length \<circ> snd) same_type_layers)) (\<lambda>group_size.
       create_kv_cache_group_specs specs (concat (map (split_layers group_size \<circ> snd) same_type_layers))))"

section \<open>Configurations\<close>

definition uniform_tensors :: "(dtype \<Rightarrow> int) \<Rightarrow> vllm_config \<Rightarrow> kv_cache_group_spec \<Rightarrow> spec_dict \<Rightarrow> int
    \<Rightarrow> (int \<times> kv_cache_tensor list) result" where
  "uniform_tensors sz cfg g per_layer available_memory =
     bnd (page_size_bytes sz (group_spec g)) (\<lambda>p.
     bnd (div_py available_memory p) (\<lambda>n0.
       let n = may_override_num_blocks cfg n0
       in bnd (map_res (\<lambda>l. bnd (lookup_py (map_of per_layer) l) (\<lambda>s.
                 bnd (page_size_bytes sz s) (\<lambda>ps. Inr \<lparr>tensor_size = ps * n, shared_by = [l]\<rparr>))) (layer_names g)) (\<lambda>ts.
            Inr (n, ts))))"

definition shared_layers :: "kv_cache_group_spec list \<Rightarrow> nat \<Rightarrow> string list" where
  "shared_layers groups i = [layer_names g ! i. g \<leftarrow> groups, i < length (layer_names g)]"

definition pooled_tensors :: "(dtype \<Rightarrow> int) \<Rightarrow> vllm_config \<Rightarrow> kv_cache_group_spec list \<Rightarrow> spec_dict \<Rightarrow> int
    \<Rightarrow> (int \<times> kv_cache_tensor list) result" where
  "pooled_tensors sz cfg groups specs available_memory =
     bnd (max_py (map (\<lambda>g. int (length (layer_names g))) groups)) (\<lambda>group_size.
     bnd (get_uniform_page_size sz specs) (\<lambda>page_size.
     check (group_size > 0) AssertionError
       (bnd (get_num_blocks cfg group_size available_memory page_size) (\<lambda>n.
          Inr (n, map (\<lambda>i. \<lparr>tensor_size = page_size * n, shared_by = shared_layers groups i\<rparr>) [0..<nat group_size])))))"

definition get_kv_cache_config_from_groups :: "(dtype \<Rightarrow> int) \<Rightarrow> vllm_config \<Rightarrow> kv_cache_group_spec list \<Rightarrow> spec_dict
    \<Rightarrow> int \<Rightarrow> kv_cache_config result" where
  "get_kv_cache_config_from_groups sz cfg groups specs available_memory =
     (if groups = [] then Inr \<lparr>cfg_num_blocks = 1, kv_cache_tensors = [], kv_cache_groups = groups\<rparr>
      else bnd (case groups of
             [g] \<Rightarrow> (case group_spec g of
                 UniformTypeKVCacheSpecs _ per_layer \<Rightarrow> uniform_tensors sz cfg g per_layer available_memory
               | _ \<Rightarrow> pooled_tensors sz cfg groups specs available_memory)
           | _ \<Rightarrow> pooled_tensors sz cfg groups specs available_memory) (\<lambda>(n, ts).
        let kc = \<lparr>cfg_num_blocks = n, kv_cache_tensors = ts, kv_cache_groups = groups\<rparr>
        in bnd (get_max_concurrency_for_kv_cache_config sz cfg kc) (\<lambda>_. Inr kc)))"

fun as_full_attention :: "kv_cache_spec \<Rightarrow> kv_cache_spec" where
  "as_full_attention (SlidingWindowSpec a w) = FullAttentionSpec a (Some w) None"
| "as_full_attention (ChunkedLocalAttentionSpec a c) = FullAttentionSpec a None (Some c)"
| "as_full_attention s = s"

definition unify_hybrid_kv_cache_specs :: "spec_dict \<Rightarrow> spec_dict result" where
  "unify_hybrid_kv_cache_specs specs =
     bnd (is_kv_cache_spec_uniform specs) (\<lambda>u.
       if u then Inr specs
       else let vs = map snd specs;
                specs' = (if list_ex is_full vs \<and> (list_ex is_sliding vs \<or> list_ex is_chunked vs)
                          then map (\<lambda>(n, s). (n, as_full_attention s)) specs else specs)
            in bnd (is_kv_cache_spec_uniform specs') (\<lambda>u'. check u' ValueError (Inr specs')))"

definition get_kv_cache_groups :: "(dtype \<Rightarrow> int) \<Rightarrow> vllm_config \<Rightarrow> spec_dict \<Rightarrow> kv_cache_group_spec list result" where
  "get_kv_cache_groups sz cfg specs0 =
     bnd (if disable_hybrid_kv_cache_manager cfg then unify_hybrid_kv_cache_specs specs0 else Inr specs0) (\<lambda>specs.
       if is_kv_cache_type_attention_free specs then Inr []
       else bnd (is_kv_cache_spec_uniform specs) (\<lambda>u.
         if u then get_kv_cache_groups_uniform_spec specs
         else bnd (from_specs specs) (\<lambda>us. case us of
             Some uniform_spec \<Rightarrow> get_kv_cache_groups_uniform_type uniform_spec
           | None \<Rightarrow> bnd (is_kv_cache_page_size_uniform sz specs) (\<lambda>p.
               if p then get_kv_cache_groups_uniform_page_size specs else Inl NotImplementedError))))"

definition scheduler_group :: "kv_cache_group_spec \<Rightarrow> kv_cache_group_spec result" where
  "scheduler_group g =
     (case group_spec g of
        UniformTypeKVCacheSpecs _ specs \<Rightarrow>
          (case specs of [] \<Rightarrow> Inl StopIteration | (_, s) # _ \<Rightarrow> Inr (g\<lparr>group_spec := s\<rparr>))
      | _ \<Rightarrow> Inr g)"

definition generate_scheduler_kv_cache_config :: "kv_cache_config list \<Rightarrow> kv_cache_config result" where
  "generate_scheduler_kv_cache_config cs =
     check (list_all (\<lambda>c. cfg_num_blocks c = cfg_num_blocks (cs ! 0)) cs) AssertionError
       (bnd (index_py cs 0) (\<lambda>c.
        bnd (map_res scheduler_group (kv_cache_groups c)) (\<lambda>gs. Inr (c\<lparr>kv_cache_groups := gs\<rparr>))))"

definition merge_layer :: "string \<times> kv_cache_spec \<Rightarrow> spec_dict \<Rightarrow> spec_dict result" where
  "merge_layer l merged =
     (let (n, s) = l in
      case map_of merged n of
        None \<Rightarrow> Inr (merged @ [(n, s)])
      | Some s' \<Rightarrow> check (s' = s) AssertionError (Inr merged))"

definition worker_groups :: "kv_cache_group_spec list \<Rightarrow> spec_dict \<Rightarrow> kv_cache_group_spec list" where
  "worker_groups groups specs =
     map (\<lambda>g. \<lparr>layer_names = filter (\<lambda>n. map_of specs n \<noteq> None) (layer_names g), group_spec = group_spec g\<rparr>) groups"

definition worker_config :: "(dtype \<Rightarrow> int) \<Rightarrow> vllm_config \<Rightarrow> kv_cache_group_spec list \<Rightarrow> spec_dict \<times> int
    \<Rightarrow> kv_cache_config result" where
  "worker_config sz cfg groups w =
     (let (specs, mem) = w; gs = worker_groups groups specs in
      check (sum_list (map (length \<circ> layer_names) gs) = length specs) AssertionError
        (get_kv_cache_config_from_groups sz cfg gs specs mem))"

definition get_kv_cache_configs :: "(dtype \<Rightarrow> int) \<Rightarrow> vllm_config \<Rightarrow> spec_dict list \<Rightarrow> int list \<Rightarrow> kv_cache_config list result" where
  "get_kv_cache_configs sz cfg specs mems =
     bnd (map_res (\<lambda>(s, m). check_enough_kv_cache_memory sz cfg s m) (zip specs mems)) (\<lambda>_.
     bnd (for_each merge_layer (concat specs) []) (\<lambda>merged.
     bnd (get_kv_cache_groups sz cfg merged) (\<lambda>groups.
     bnd (map_res (worker_config sz cfg groups) (zip specs mems)) (\<lambda>cs.
     bnd (min_py (map cfg_num_blocks cs)) (\<lambda>m.
       Inr (map (\<lambda>c. c\<lparr>cfg_num_blocks := m\<rparr>) cs))))))"

section \<open>The memory check\<close>

text \<open>What the configuration of a real model satisfies: positive block sizes, page sizes that are not
  negative, and no sliding window together with context parallelism.\<close>

fun spec_wf :: "(dtype \<Rightarrow> int) \<Rightarrow> vllm_config \<Rightarrow> kv_cache_spec \<Rightarrow> bool" where
  "spec_wf sz cfg (FullAttentionSpec a _ _) = (a_block_size a > 0 \<and> attention_page_size sz a \<ge> 0)"
| "spec_wf sz cfg (ChunkedLocalAttentionSpec a _) = (a_block_size a > 0 \<and> attention_page_size sz a \<ge> 0)"
| "spec_wf sz cfg (SlidingWindowSpec a _) =
     (a_block_size a > 0 \<and> attention_page_size sz a \<ge> 0 \<and> decode_context_parallel_size cfg = 1)"
| "spec_wf sz cfg (MambaSpec m) = (\<exists>p\<ge>0. mamba_page_size sz m = Inr p)"
| "spec_wf sz cfg (EncoderOnlyAttentionSpec a) = True"
| "spec_wf sz cfg (CrossAttentionSpec a) = (a_block_size a > 0 \<and> attention_page_size sz a \<ge> 0)"
| "spec_wf sz cfg (UniformTypeKVCacheSpecs _ _) = False"

definition mono_memory :: "(int \<Rightarrow> int result) \<Rightarrow> bool" where
  "mono_memory f \<longleftrightarrow> (\<exists>g. (\<forall>n. f n = Inr (g n)) \<and> mono g)"

lemma mono_memory_const: "mono_memory (\<lambda>_. Inr c)"
  by (auto simp: mono_memory_def mono_def)

lemma mono_memory_pages:
  assumes "a_block_size a > 0" "attention_page_size sz a \<ge> 0" "mono h"
  shows "mono_memory (\<lambda>n. pages_for sz a (h n))"
  unfolding mono_memory_def
proof (intro exI[of _ "\<lambda>n. cdiv (h n) (a_block_size a) * attention_page_size sz a"] conjI allI)
  show "pages_for sz a (h n) = Inr (cdiv (h n) (a_block_size a) * attention_page_size sz a)" for n
    using assms(1) by (simp add: pages_for_def cdiv_py_def)
  show "mono (\<lambda>n. cdiv (h n) (a_block_size a) * attention_page_size sz a)"
    using assms by (auto simp: mono_def intro!: mult_right_mono cdiv_mono)
qed

lemma local_model_len_mono: "mono (\<lambda>n. local_model_len (cfg\<lparr>max_model_len := n\<rparr>))"
  by (auto simp: mono_def local_model_len_def intro: cdiv_mono)

lemma max_memory_mono:
  assumes "spec_wf sz cfg s"
  shows "mono_memory (\<lambda>n. max_memory_usage_bytes sz (cfg\<lparr>max_model_len := n\<rparr>) s)"
proof (cases s)
  case (FullAttentionSpec a w c)
  then show ?thesis using assms mono_memory_pages[OF _ _ local_model_len_mono[of cfg], of a sz] by simp
next
  case (ChunkedLocalAttentionSpec a c)
  have "mono (\<lambda>n. min (c + cfg_max_num_batched_tokens cfg) n)" by (auto simp: mono_def)
  from mono_memory_pages[OF _ _ this, of a sz] assms show ?thesis by (simp add: ChunkedLocalAttentionSpec)
next
  case (SlidingWindowSpec a w)
  let ?g = "\<lambda>n. (cdiv (min (w - 1 + cfg_max_num_batched_tokens cfg) n) (a_block_size a) + 1) * attention_page_size sz a"
  have "mono ?g"
    using assms by (auto simp: SlidingWindowSpec mono_def intro!: mult_right_mono cdiv_mono)
  then show ?thesis
    using assms by (auto simp: SlidingWindowSpec mono_memory_def cdiv_py_def check_def intro!: exI[of _ ?g])
next
  case (MambaSpec m)
  then show ?thesis using assms mono_memory_const by auto
next
  case (EncoderOnlyAttentionSpec a)
  then show ?thesis using mono_memory_const[of 0] by simp
next
  case (CrossAttentionSpec a)
  have "mono (\<lambda>_ :: int. cfg_max_num_encoder_input_tokens cfg)" by (simp add: mono_def)
  from mono_memory_pages[OF _ _ this, of a sz] assms show ?thesis by (simp add: CrossAttentionSpec)
qed (use assms in simp)

lemma total_memory_mono:
  "\<forall>s\<in>set specs. spec_wf sz cfg s \<Longrightarrow> mono_memory (\<lambda>n. total_memory sz (cfg\<lparr>max_model_len := n\<rparr>) specs)"
proof (induction specs)
  case Nil
  then show ?case using mono_memory_const[of 0] by (simp add: total_memory_def)
next
  case (Cons s specs)
  obtain g where g: "\<And>n. max_memory_usage_bytes sz (cfg\<lparr>max_model_len := n\<rparr>) s = Inr (g n)" "mono g"
    using max_memory_mono[of sz cfg s] Cons.prems by (auto simp: mono_memory_def)
  obtain h where h: "\<And>n. total_memory sz (cfg\<lparr>max_model_len := n\<rparr>) specs = Inr (h n)" "mono h"
    using Cons by (auto simp: mono_memory_def)
  have "mono (\<lambda>n. g n + h n)" using g(2) h(2) by (auto simp: mono_def intro: add_mono)
  then show ?case
    using g(1) h(1) by (auto simp: mono_memory_def total_memory_def intro!: exI[of _ "\<lambda>n. g n + h n"])
qed

lemma search_loop_correct:
  assumes "\<And>n. total_memory sz (cfg\<lparr>max_model_len := n\<rparr>) specs = Inr (g n)" "mono g"
    and "g res \<le> mem" "1 \<le> left" "1 \<le> res" "left - 1 \<le> res" "res \<le> max 1 maxlen" "right \<le> maxlen"
    and "\<forall>n. right < n \<and> n \<le> maxlen \<longrightarrow> \<not> g n \<le> mem" "res < left \<or> left = 1 \<and> res = 1"
  shows "\<exists>r cfg'. search_loop sz specs mem left right res cfg = Inr (r, cfg') \<and> 1 \<le> r \<and> r \<le> max 1 maxlen
    \<and> g r \<le> mem \<and> (\<forall>n. r < n \<and> n \<le> maxlen \<longrightarrow> \<not> g n \<le> mem)"
  using assms
proof (induction sz specs mem left right res cfg rule: search_loop.induct)
  case (1 sz specs mem left right res cfg)
  show ?case
  proof (cases "left \<le> right")
    case False
    then have "\<forall>n. res < n \<and> n \<le> maxlen \<longrightarrow> \<not> g n \<le> mem" using "1.prems"(6,9,10) by auto
    then show ?thesis using False "1.prems" by (subst search_loop.simps) auto
  next
    case True
    define mid where "mid = (left + right) div 2"
    have mid: "left \<le> mid" "mid \<le> right" using True by (auto simp: mid_def)
    have f: "fits_in_memory sz specs mem mid cfg = Inr (g mid \<le> mem, cfg\<lparr>max_model_len := mid\<rparr>)"
      using "1.prems"(1) by (simp add: fits_in_memory_def Let_def)
    have s: "search_loop sz specs mem left right res cfg =
        (if g mid \<le> mem then search_loop sz specs mem (mid + 1) right mid (cfg\<lparr>max_model_len := mid\<rparr>)
         else search_loop sz specs mem left (mid - 1) res (cfg\<lparr>max_model_len := mid\<rparr>))"
      using True f by (subst search_loop.simps) (simp add: Let_def mid_def)
    have h: "total_memory sz (cfg\<lparr>max_model_len := mid\<rparr>\<lparr>max_model_len := n\<rparr>) specs = Inr (g n)" for n
      using "1.prems"(1) by simp
    show ?thesis
    proof (cases "g mid \<le> mem")
      case fits: True
      show ?thesis unfolding s if_P[OF fits]
        by (rule "1.IH"(1)[OF True mid_def fits h "1.prems"(2) fits]) (use mid "1.prems" in auto)
    next
      case fits: False
      have "\<forall>n. mid - 1 < n \<and> n \<le> maxlen \<longrightarrow> \<not> g n \<le> mem"
        using fits "1.prems"(2) by (meson monoD order_trans not_le zle_diff1_eq)
      then show ?thesis unfolding s if_not_P[OF fits]
        by (intro "1.IH"(2)[OF True mid_def fits h "1.prems"(2,3)]) (use mid "1.prems" in auto)
    qed
  qed
qed

definition fits_len :: "(dtype \<Rightarrow> int) \<Rightarrow> vllm_config \<Rightarrow> spec_dict \<Rightarrow> int \<Rightarrow> int \<Rightarrow> bool" where
  "fits_len sz cfg specs mem n \<longleftrightarrow>
     (case total_memory sz (cfg\<lparr>max_model_len := n\<rparr>) (map snd specs) of Inl _ \<Rightarrow> False | Inr m \<Rightarrow> m \<le> mem)"

text \<open>C23: The binary search for the longest model length ends, and its result is the longest length
  from 1 to the configured maximum that fits in memory, or 0 when not even length 1 fits. (With a
  configured maximum below 1 the result is still 1.)\<close>

theorem estimate_max_model_len_correct:
  assumes "\<forall>s\<in>snd ` set specs. spec_wf sz cfg s"
  shows "\<exists>r cfg'. estimate_max_model_len sz cfg specs mem = Inr (r, cfg')
    \<and> (if fits_len sz cfg specs mem 1
       then 1 \<le> r \<and> r \<le> max 1 (max_model_len cfg) \<and> fits_len sz cfg specs mem r
          \<and> (\<forall>n. r < n \<and> n \<le> max_model_len cfg \<longrightarrow> \<not> fits_len sz cfg specs mem n)
       else r = 0)"
proof -
  obtain g where g: "\<And>n. total_memory sz (cfg\<lparr>max_model_len := n\<rparr>) (map snd specs) = Inr (g n)" "mono g"
    using total_memory_mono[of "map snd specs" sz cfg] assms by (auto simp: mono_memory_def)
  have f: "fits_len sz cfg specs mem n \<longleftrightarrow> g n \<le> mem" for n by (simp add: fits_len_def g(1))
  have f1: "fits_in_memory sz (map snd specs) mem 1 cfg = Inr (g 1 \<le> mem, cfg\<lparr>max_model_len := 1\<rparr>)"
    using g(1) by (simp add: fits_in_memory_def Let_def)
  show ?thesis
  proof (cases "g 1 \<le> mem")
    case True
    have "\<exists>r cfg'. search_loop sz (map snd specs) mem 1 (max_model_len cfg) 1 (cfg\<lparr>max_model_len := 1\<rparr>) = Inr (r, cfg')
      \<and> 1 \<le> r \<and> r \<le> max 1 (max_model_len cfg) \<and> g r \<le> mem \<and> (\<forall>n. r < n \<and> n \<le> max_model_len cfg \<longrightarrow> \<not> g n \<le> mem)"
      by (rule search_loop_correct[OF _ g(2) True]) (use g(1) in auto)
    then show ?thesis using True f1 f by (simp add: estimate_max_model_len_def Let_def)
  next
    case False
    then show ?thesis using f1 f by (simp add: estimate_max_model_len_def Let_def)
  qed
qed

definition tiny_attention :: attention_spec where
  "tiny_attention = \<lparr>a_block_size = 2, num_kv_heads = 1, head_size = 1, a_dtype = ''half'', use_mla = True\<rparr>"

definition tiny_config :: vllm_config where
  "tiny_config = \<lparr>max_model_len = 8, decode_context_parallel_size = 1, cfg_max_num_batched_tokens = 4,
     cfg_max_num_encoder_input_tokens = 0, num_gpu_blocks_override = None, disable_hybrid_kv_cache_manager = False\<rparr>"

theorem estimate_max_model_len_correct_witness:
  "\<exists>r cfg'. estimate_max_model_len (\<lambda>_. 2) tiny_config [(''l0'', FullAttentionSpec tiny_attention None None)] 9 = Inr (r, cfg')
     \<and> r = 4"
proof -
  let ?s = "[(''l0'', FullAttentionSpec tiny_attention None None)]"
  have f: "fits_len (\<lambda>_. 2) tiny_config ?s 9 n \<longleftrightarrow> cdiv n 2 * 4 \<le> 9" for n
    by (simp add: fits_len_def total_memory_def pages_for_def cdiv_py_def tiny_attention_def
        attention_page_size_def local_model_len_def tiny_config_def)
  have e: "cdiv n 2 * 4 \<le> 9 \<longleftrightarrow> n \<le> 4" for n
    using cdiv_le_iff[of 2 n 2] by auto
  have len: "max_model_len tiny_config = 8" by (simp add: tiny_config_def)
  have wf: "\<forall>s\<in>snd ` set ?s. spec_wf (\<lambda>_. 2) tiny_config s"
    by (simp add: tiny_attention_def attention_page_size_def)
  obtain r cfg' where r: "estimate_max_model_len (\<lambda>_. 2) tiny_config ?s 9 = Inr (r, cfg')" "r \<le> 4"
    "\<forall>n. r < n \<and> n \<le> 8 \<longrightarrow> \<not> n \<le> 4"
    using estimate_max_model_len_correct[OF wf, of 9] unfolding f e len by auto
  from r(3)[rule_format, of 4] r(2) have "r = 4" by linarith
  with r(1) show ?thesis by blast
qed

section \<open>The tensors fit in memory\<close>

definition pages_positive :: "(dtype \<Rightarrow> int) \<Rightarrow> kv_cache_spec \<Rightarrow> bool" where
  "pages_positive sz s \<longleftrightarrow> (case page_size_bytes sz s of Inl _ \<Rightarrow> True | Inr p \<Rightarrow> p > 0)"

lemma sum_res_Inr: "sum_res rs = Inr t \<Longrightarrow> \<exists>xs. all_res rs = Inr xs \<and> t = sum_list xs"
  by (induction rs arbitrary: t) auto

lemma sum_res_map:
  "sum_res (map f xs) = Inr t \<Longrightarrow> \<exists>g. (\<forall>x\<in>set xs. f x = Inr (g x)) \<and> t = sum_list (map g xs)"
proof (induction xs arbitrary: t)
  case (Cons x xs)
  then obtain a b where ab: "f x = Inr a" "sum_res (map f xs) = Inr b" "t = a + b" by auto
  from Cons.IH[OF ab(2)] obtain g where g: "\<forall>x\<in>set xs. f x = Inr (g x)" "b = sum_list (map g xs)" by auto
  have "map (g(x := a)) xs = map g xs" using g(1) ab(1) by (auto intro!: map_cong)
  then have "t = sum_list (map (g(x := a)) (x # xs))" using g ab by (simp del: map_eq_conv)
  moreover have "\<forall>y\<in>set (x # xs). f y = Inr ((g(x := a)) y)" using g ab by auto
  ultimately show ?case by blast
qed simp

lemma sum_list_le_of_subset:
  fixes f :: "'a \<Rightarrow> int"
  assumes "distinct ys" "set ys \<subseteq> set xs" "distinct xs" "\<forall>x\<in>set xs. f x \<ge> 0"
  shows "sum_list (map f ys) \<le> sum_list (map f xs)"
  using assms by (auto simp: sum_list_distinct_conv_sum_set intro!: sum_mono2)

lemma pooled_tensors_fit:
  assumes "pooled_tensors sz cfg groups specs mem = Inr (n, ts)" "num_gpu_blocks_override cfg = None" "0 \<le> mem"
    and "\<forall>s\<in>snd ` set specs. pages_positive sz s"
  shows "sum_list (map tensor_size ts) \<le> mem"
proof -
  obtain gs p where gs: "get_uniform_page_size sz specs = Inr p" "gs > 0" "get_num_blocks cfg gs mem p = Inr n"
    "ts = map (\<lambda>i. \<lparr>tensor_size = p * n, shared_by = shared_layers groups i\<rparr>) [0..<nat gs]"
    using assms(1) by (auto simp: pooled_tensors_def)
  obtain ps where ps: "map_res (page_size_bytes sz \<circ> snd) specs = Inr ps" "remdups ps = [p]"
    using gs(1) by (auto simp: get_uniform_page_size_def split: list.splits)
  have "p \<in> set ps" by (metis ps(2) list.set_intros(1) set_remdups)
  then obtain s where "s \<in> snd ` set specs" "page_size_bytes sz s = Inr p"
    using ps(1) by (auto simp: map_res_Inr_iff list_all2_conv_all_nth in_set_conv_nth) (metis image_eqI nth_mem)
  then have p: "p > 0" using assms(4) by (auto simp: pages_positive_def)
  have n: "n = max (mem div p div gs) 0" using gs(2,3) p assms(2)
    by (auto simp: get_num_blocks_def div_py_def may_override_num_blocks_def)
  moreover have "0 \<le> mem div p div gs" using p gs(2) assms(3) by (simp add: pos_imp_zdiv_nonneg_iff)
  ultimately have "n = mem div (p * gs)" using gs(2) by (simp add: zdiv_zmult2_eq)
  moreover have "sum_list (map tensor_size ts) = gs * (p * n)" using gs(2,4) by (simp add: comp_def sum_list_triv)
  ultimately have "sum_list (map tensor_size ts) = (p * gs) * (mem div (p * gs))" by (simp add: ac_simps)
  then show ?thesis using p gs(2) by (simp add: mult_div_mod_eq[symmetric] flip: minus_mod_eq_mult_div)
qed

lemma layer_tensors:
  assumes "map_res (\<lambda>l. bnd (lookup_py (map_of specs) l) (\<lambda>s.
      bnd (page_size_bytes sz s) (\<lambda>ps. Inr \<lparr>tensor_size = ps * n, shared_by = [l]\<rparr>))) names = Inr ts"
    and "\<And>l s p. map_of specs l = Some s \<Longrightarrow> page_size_bytes sz s = Inr p \<Longrightarrow> q l = p"
  shows "map tensor_size ts = map (\<lambda>l. q l * n) names \<and> set names \<subseteq> set (map fst specs)"
  using assms
proof (induction names arbitrary: ts)
  case (Cons l names)
  then obtain s p ts' where "map_of specs l = Some s" "page_size_bytes sz s = Inr p"
    "ts = \<lparr>tensor_size = p * n, shared_by = [l]\<rparr> # ts'"
    "map_res (\<lambda>l. bnd (lookup_py (map_of specs) l) (\<lambda>s.
      bnd (page_size_bytes sz s) (\<lambda>ps. Inr \<lparr>tensor_size = ps * n, shared_by = [l]\<rparr>))) names = Inr ts'"
    by auto
  with Cons.IH[of ts'] Cons.prems(2) show ?case by (force dest: map_of_SomeD)
qed simp

lemma uniform_tensors_fit:
  assumes t: "uniform_tensors sz cfg g specs mem = Inr (n, ts)" and "num_gpu_blocks_override cfg = None" "0 \<le> mem"
    and "group_spec g = UniformTypeKVCacheSpecs b specs" "distinct (layer_names g)" "distinct (map fst specs)"
    and pos: "\<forall>s\<in>snd ` set specs. pages_positive sz s" "specs \<noteq> []"
  shows "sum_list (map tensor_size ts) \<le> mem"
proof -
  obtain p where p: "sum_res (map (\<lambda>(_, s). page_size_bytes sz s) specs) = Inr p" "p \<noteq> 0" "n = mem div p"
    and ts: "map_res (\<lambda>l. bnd (lookup_py (map_of specs) l) (\<lambda>s.
                 bnd (page_size_bytes sz s) (\<lambda>ps. Inr \<lparr>tensor_size = ps * n, shared_by = [l]\<rparr>))) (layer_names g) = Inr ts"
    using t assms(2,4) by (auto simp: uniform_tensors_def div_py_def may_override_num_blocks_def split: if_splits)
  obtain h where h: "\<forall>x\<in>set specs. page_size_bytes sz (snd x) = Inr (h x)" "p = sum_list (map h specs)"
    using sum_res_map[OF p(1)] by (auto simp: case_prod_beta)
  have hp: "\<forall>x\<in>set specs. h x > 0" using h(1) pos(1) by (fastforce simp: pages_positive_def)
  then have "p > 0" using p(2) h(2) sum_list_nonneg[of "map h specs"] by fastforce
  then have n: "n \<ge> 0" "p * n \<le> mem" using p(3) assms(3)
    by (simp_all add: pos_imp_zdiv_nonneg_iff mult_div_mod_eq[symmetric] flip: minus_mod_eq_mult_div)
  define q where "q l = h (l, the (map_of specs l))" for l
  have "q l = p'" if "map_of specs l = Some s" "page_size_bytes sz s = Inr p'" for l s p'
    using that h(1) map_of_SomeD[OF that(1)] by (fastforce simp: q_def)
  from layer_tensors[OF ts this]
  have tl: "map tensor_size ts = map (\<lambda>l. q l * n) (layer_names g)" and sub: "set (layer_names g) \<subseteq> set (map fst specs)"
    by auto
  have mq: "map q (map fst specs) = map h specs" using assms(6) by (auto simp: q_def)
  then have "\<forall>l\<in>set (map fst specs). q l \<ge> 0" using hp by fastforce
  from sum_list_le_of_subset[OF assms(5) sub assms(6) this] mq h(2)
  have "sum_list (map q (layer_names g)) \<le> p" by metis
  moreover have "sum_list (map tensor_size ts) = sum_list (map q (layer_names g)) * n"
    unfolding tl by (simp add: sum_list_mult_const)
  ultimately show ?thesis using n by (metis mult_right_mono order_trans)
qed

text \<open>C24: Without an override of the number of blocks, the KV cache tensors that a configuration asks a
  worker to create need no more memory than is available, both when each layer has a tensor of its
  own and when tensors are shared by one layer of each group.\<close>

theorem kv_cache_tensors_fit:
  assumes "get_kv_cache_config_from_groups sz cfg groups specs mem = Inr kc"
    and "num_gpu_blocks_override cfg = None" "0 \<le> mem"
    and "\<forall>s\<in>snd ` set specs. pages_positive sz s"
    and "\<forall>g\<in>set groups. distinct (layer_names g)"
    and "\<forall>g\<in>set groups. \<forall>b ls. group_spec g = UniformTypeKVCacheSpecs b ls \<longrightarrow>
           ls \<noteq> [] \<and> distinct (map fst ls) \<and> (\<forall>s\<in>snd ` set ls. pages_positive sz s)"
  shows "sum_list (map tensor_size (kv_cache_tensors kc)) \<le> mem"
proof (cases "groups = []")
  case True
  then show ?thesis using assms(1,3) by (auto simp: get_kv_cache_config_from_groups_def)
next
  case False
  obtain n ts where ts: "kc = \<lparr>cfg_num_blocks = n, kv_cache_tensors = ts, kv_cache_groups = groups\<rparr>"
    and c: "pooled_tensors sz cfg groups specs mem = Inr (n, ts)
      \<or> (\<exists>g b ls. groups = [g] \<and> group_spec g = UniformTypeKVCacheSpecs b ls \<and> uniform_tensors sz cfg g ls mem = Inr (n, ts))"
    using assms(1) False
    by (auto simp: get_kv_cache_config_from_groups_def Let_def split: list.splits kv_cache_spec.splits)
  from c show ?thesis
  proof (elim disjE exE conjE)
    assume "pooled_tensors sz cfg groups specs mem = Inr (n, ts)"
    then show ?thesis using pooled_tensors_fit assms(2-4) by (simp add: ts)
  next
    fix g b ls assume g: "groups = [g]" "group_spec g = UniformTypeKVCacheSpecs b ls" "uniform_tensors sz cfg g ls mem = Inr (n, ts)"
    then show ?thesis using uniform_tensors_fit[OF g(3) assms(2,3) g(2)] assms(5,6) by (simp add: ts)
  qed
qed

theorem kv_cache_tensors_fit_witness:
  "\<exists>kc. get_kv_cache_config_from_groups (\<lambda>_. 2) tiny_config
       [\<lparr>layer_names = [''l0'', ''l1''], group_spec = FullAttentionSpec tiny_attention None None\<rparr>]
       [(''l0'', FullAttentionSpec tiny_attention None None), (''l1'', FullAttentionSpec tiny_attention None None)] 50 = Inr kc
     \<and> sum_list (map tensor_size (kv_cache_tensors kc)) \<le> 50 \<and> cfg_num_blocks kc = 6"
proof -
  let ?f = "FullAttentionSpec tiny_attention None None"
  let ?g = "[\<lparr>layer_names = [''l0'', ''l1''], group_spec = ?f\<rparr>]" and ?s = "[(''l0'', ?f), (''l1'', ?f)]"
  have p: "attention_page_size (\<lambda>_. 2) tiny_attention = 4" by (simp add: attention_page_size_def tiny_attention_def)
  have bs: "a_block_size tiny_attention = 2" by (simp add: tiny_attention_def)
  have t: "total_memory (\<lambda>_. 2) tiny_config [?f] = Inr 16"
    by (simp add: total_memory_def pages_for_def p cdiv_py_def local_model_len_def tiny_config_def bs cdiv_def)
  define kc where "kc = \<lparr>cfg_num_blocks = 6, kv_cache_tensors =
     map (\<lambda>i. \<lparr>tensor_size = 24, shared_by = shared_layers ?g i\<rparr>) [0..<2], kv_cache_groups = ?g\<rparr>"
  have e: "get_kv_cache_config_from_groups (\<lambda>_. 2) tiny_config ?g ?s 50 = Inr kc"
    using t p by (simp add: get_kv_cache_config_from_groups_def pooled_tensors_def max_py_def get_uniform_page_size_def
        get_num_blocks_def div_py_def may_override_num_blocks_def get_max_concurrency_for_kv_cache_config_def
        index_py_def cdiv_py_def cdiv_def tiny_config_def kc_def)
  have "sum_list (map tensor_size (kv_cache_tensors kc)) \<le> 50"
    by (rule kv_cache_tensors_fit[OF e]) (simp_all add: tiny_config_def pages_positive_def p)
  with e show ?thesis by (auto simp: kc_def)
qed

section \<open>Every layer is in one group\<close>

lemma group_specs_names: "create_kv_cache_group_specs specs names = Inr gs \<Longrightarrow> map layer_names gs = names"
  unfolding create_kv_cache_group_specs_def
  by (induction names arbitrary: gs) (auto)

lemma every_nth_partition:
  assumes "k > 0"
  shows "mset (concat (map (\<lambda>i. every_nth xs i k) [0..<k])) = mset xs"
proof -
  have f: "filter (\<lambda>j. (j - i) mod k = 0) [i..<length xs] = filter (\<lambda>j. j mod k = i) [0..<length xs]" if "i < k" for i
  proof (cases "i \<le> length xs")
    case True
    have s: "[0..<length xs] = [0..<i] @ [i..<length xs]" using True upt_add_eq_append[of 0 i "length xs - i"] by simp
    have "filter (\<lambda>j. j mod k = i) [0..<i] = []" using that by (auto simp: filter_empty_conv)
    moreover have "(j - i) mod k = 0 \<longleftrightarrow> j mod k = i" if "j \<ge> i" for j
      using \<open>i < k\<close> that by (metis mod_less mod_eq_dvd_iff_nat mod_0_imp_dvd dvd_imp_mod_0)
    then have "filter (\<lambda>j. (j - i) mod k = 0) [i..<length xs] = filter (\<lambda>j. j mod k = i) [i..<length xs]"
      by (intro filter_cong) auto
    ultimately show ?thesis by (simp add: s)
  next
    case False
    then have "filter (\<lambda>j. j mod k = i) [0..<length xs] = []" using that by (auto simp: filter_empty_conv)
    with False show ?thesis by simp
  qed
  have c: "mset (concat (map (\<lambda>i. filter (\<lambda>j. j mod k = i) ys) [0..<m])) = mset (filter (\<lambda>j. j mod k < m) ys)" for ys m
  proof (induction m)
    case (Suc m)
    have "filter (\<lambda>j. j mod k < Suc m) ys = filter (\<lambda>j. j mod k < m \<or> j mod k = m) ys" by (rule filter_cong) auto
    moreover have "mset (filter (\<lambda>j. j mod k < m \<or> j mod k = m) ys)
        = mset (filter (\<lambda>j. j mod k < m) ys) + mset (filter (\<lambda>j. j mod k = m) ys)"
      by (induction ys) auto
    ultimately show ?case using Suc by simp
  qed simp
  have "concat (map (\<lambda>i. every_nth xs i k) [0..<k]) = map (\<lambda>j. xs ! j) (concat (map (\<lambda>i. filter (\<lambda>j. j mod k = i) [0..<length xs]) [0..<k]))"
    unfolding map_concat map_map every_nth_def comp_def using f by (intro arg_cong[of _ _ concat] map_cong) auto
  then have "mset (concat (map (\<lambda>i. every_nth xs i k) [0..<k])) = image_mset (\<lambda>j. xs ! j) (mset [0..<length xs])"
    using c[of "[0..<length xs]" k] assms by (simp add: mset_map)
  then show ?thesis by (metis map_nth mset_map)
qed

lemma split_layers_partition:
  assumes "group_size > 0"
  shows "mset (concat (split_layers group_size layers)) = mset layers"
proof (cases "layers = []")
  case True
  then have "nat (cdiv (int (length layers)) group_size) = 0" by (simp add: cdiv_def)
  with True show ?thesis by (simp add: split_layers_def)
next
  case False
  then have "cdiv (int (length layers)) group_size > 0"
    using cdiv_le_iff[OF assms, of "int (length layers)" 0] by simp
  then show ?thesis using every_nth_partition[of "nat (cdiv (int (length layers)) group_size)" layers]
    by (simp add: split_layers_def Let_def)
qed

lemma mset_concat_map: "(\<And>x. x \<in> set xs \<Longrightarrow> mset (f x) = mset (g x)) \<Longrightarrow> mset (concat (map f xs)) = mset (concat (map g xs))"
  by (induction xs) auto

lemma add_layer_names:
  "add_layer l d = Inr d' \<Longrightarrow> distinct (map fst d) \<Longrightarrow> [] \<notin> snd ` set d \<Longrightarrow>
     mset (concat (map snd d')) = mset (concat (map snd d)) + {#fst l#} \<and> distinct (map fst d') \<and> [] \<notin> snd ` set d'"
proof -
  assume a: "add_layer l d = Inr d'" "distinct (map fst d)" "[] \<notin> snd ` set d"
  obtain n s where l: "l = (n, s)" by (cases l)
  let ?v = "(case map_of d s of None \<Rightarrow> [] | Some ns \<Rightarrow> ns) @ [n]"
  have d': "d' = AList.update s ?v d" using a(1) l by (simp add: add_layer_def)
  have "mset (concat (map snd (AList.update s (v @ [n]) d))) = mset (concat (map snd d)) + {#n#}"
    if "v = (case map_of d s of None \<Rightarrow> [] | Some ns \<Rightarrow> ns)" for v
    using that by (induction d) (auto split: if_splits)
  moreover have "[] \<notin> snd ` set (AList.update s (v @ [n]) d)" for v using a(3) by (induction d) auto
  ultimately show ?thesis using a(2) d' l by (simp add: distinct_update)
qed

lemma same_type_layers_names:
  "for_each add_layer specs d = Inr d' \<Longrightarrow> distinct (map fst d) \<Longrightarrow> [] \<notin> snd ` set d \<Longrightarrow>
     mset (concat (map snd d')) = mset (concat (map snd d)) + mset (map fst specs) \<and> [] \<notin> snd ` set d'"
proof (induction specs arbitrary: d)
  case (Cons l specs)
  then obtain d1 where d1: "add_layer l d = Inr d1" "for_each add_layer specs d1 = Inr d'" by auto
  from add_layer_names[OF d1(1) Cons.prems(2,3)] Cons.IH[OF d1(2)] show ?case by auto
qed simp

lemma page_size_groups_names:
  assumes "get_kv_cache_groups_uniform_page_size specs = Inr gs"
  shows "mset (concat (map layer_names gs)) = mset (map fst specs)"
proof -
  obtain d k where d: "for_each add_layer specs [] = Inr d" "min_py (map (int \<circ> length \<circ> snd) d) = Inr k"
    "create_kv_cache_group_specs specs (concat (map (split_layers k \<circ> snd) d)) = Inr gs"
    using assms by (auto simp: get_kv_cache_groups_uniform_page_size_def)
  have names: "mset (concat (map snd d)) = mset (map fst specs)" and ne: "[] \<notin> snd ` set d"
    using same_type_layers_names[OF d(1)] by auto
  have "k \<in> set (map (int \<circ> length \<circ> snd) d)"
    using d(2) by (auto simp: min_py_def split: if_splits simp del: set_map intro: Min_in)
  then have "k > 0" using ne by force
  have "mset (concat (concat (map (split_layers k \<circ> snd) d))) = mset (concat (map snd d))"
    using split_layers_partition[OF \<open>k > 0\<close>] by (induction d) auto
  then show ?thesis using names group_specs_names[OF d(3)] by simp
qed

lemma unify_names: "unify_hybrid_kv_cache_specs specs = Inr specs' \<Longrightarrow> map fst specs' = map fst specs"
  by (auto simp: unify_hybrid_kv_cache_specs_def Let_def split: if_splits)

lemma get_kv_cache_groups_names:
  assumes "get_kv_cache_groups sz cfg specs0 = Inr gs"
  shows "mset (concat (map layer_names gs)) = mset (map fst specs0)"
proof -
  obtain specs where s: "(if disable_hybrid_kv_cache_manager cfg then unify_hybrid_kv_cache_specs specs0 else Inr specs0) = Inr specs"
    and g: "if specs = [] then gs = [] else get_kv_cache_groups_uniform_spec specs = Inr gs
      \<or> (\<exists>us. from_specs specs = Inr (Some us) \<and> get_kv_cache_groups_uniform_type us = Inr gs)
      \<or> get_kv_cache_groups_uniform_page_size specs = Inr gs"
    using assms by (auto simp: get_kv_cache_groups_def is_kv_cache_type_attention_free_def split: if_splits option.splits)
  have n: "map fst specs = map fst specs0" using s unify_names by (auto split: if_splits)
  have "mset (concat (map layer_names gs)) = mset (map fst specs)"
  proof (cases "specs = []")
    case False
    with g consider "get_kv_cache_groups_uniform_spec specs = Inr gs"
      | us where "from_specs specs = Inr (Some us)" "get_kv_cache_groups_uniform_type us = Inr gs"
      | "get_kv_cache_groups_uniform_page_size specs = Inr gs" by auto
    then show ?thesis
    proof cases
      case 1
      then show ?thesis using group_specs_names[of specs "[map fst specs]" gs] by (auto simp: get_kv_cache_groups_uniform_spec_def)
    next
      case 2
      then show ?thesis by (auto simp: from_specs_def get_kv_cache_groups_uniform_type_def split: if_splits list.splits)
    next
      case 3
      then show ?thesis by (rule page_size_groups_names)
    qed
  qed (use g in simp)
  then show ?thesis using n by simp
qed

lemma merge_layers:
  "for_each merge_layer ls m = Inr m' \<Longrightarrow> distinct (map fst m) \<Longrightarrow>
     distinct (map fst m') \<and> (\<forall>n s. (n, s) \<in> set m \<union> set ls \<longrightarrow> map_of m' n = Some s) \<and> fst ` set m' = fst ` set m \<union> fst ` set ls"
proof (induction ls arbitrary: m)
  case (Cons l ls)
  obtain n s where l: "l = (n, s)" by (cases l)
  obtain m1 where m1: "merge_layer l m = Inr m1" "for_each merge_layer ls m1 = Inr m'" using Cons.prems(1) by auto
  then have c: "(map_of m n = None \<and> m1 = m @ [(n, s)]) \<or> (map_of m n = Some s \<and> m1 = m)"
    by (auto simp: merge_layer_def l split: option.splits)
  then have "distinct (map fst m1)" "set m1 = insert (n, s) (set m)"
    using Cons.prems(2) by (auto simp: map_of_eq_None_iff dest: map_of_SomeD)
  with Cons.IH[OF m1(2)] show ?case by (auto simp: l)
qed auto

lemma worker_groups_names:
  assumes "mset (concat (map layer_names gs)) = mset ns" "distinct ns" "distinct (map fst specs)" "fst ` set specs \<subseteq> set ns"
  shows "mset (concat (map layer_names (worker_groups gs specs))) = mset (map fst specs)"
proof -
  have "concat (map layer_names (worker_groups gs specs)) = filter (\<lambda>n. map_of specs n \<noteq> None) (concat (map layer_names gs))"
    unfolding worker_groups_def by (induction gs) auto
  then have "mset (concat (map layer_names (worker_groups gs specs))) = filter_mset (\<lambda>n. map_of specs n \<noteq> None) (mset ns)"
    using assms(1) by (simp only: mset_filter)
  also have "\<dots> = mset (filter (\<lambda>n. map_of specs n \<noteq> None) ns)" by simp
  also have "\<dots> = mset (map fst specs)"
    using assms(2-4) by (subst set_eq_iff_mset_eq_distinct[symmetric]) (auto simp: map_of_eq_None_iff)
  finally show ?thesis .
qed

lemma config_groups: "get_kv_cache_config_from_groups sz cfg groups specs mem = Inr kc \<Longrightarrow> kv_cache_groups kc = groups"
  by (auto simp: get_kv_cache_config_from_groups_def Let_def split: if_splits)

text \<open>C31: Generating the configurations of the workers: all get the same number of blocks, which is
  the minimum of the numbers the workers' own memory allows, everything else in a worker's
  configuration is its own, and in each worker's groups every layer of the worker
  occurs exactly once and no other layer does.\<close>

theorem get_kv_cache_configs_consistent:
  assumes "get_kv_cache_configs sz cfg specs mems = Inr cs" "length mems = length specs"
    and "\<forall>s\<in>set specs. distinct (map fst s)"
  shows "length cs = length specs
    \<and> (\<exists>merged gs ws. for_each merge_layer (concat specs) [] = Inr merged \<and> get_kv_cache_groups sz cfg merged = Inr gs
          \<and> length ws = length specs \<and> (\<forall>i<length specs. worker_config sz cfg gs (specs ! i, mems ! i) = Inr (ws ! i))
          \<and> ws \<noteq> [] \<and> cs = map (\<lambda>c. c\<lparr>cfg_num_blocks := Min (set (map cfg_num_blocks ws))\<rparr>) ws)
    \<and> (\<forall>i<length cs. mset (concat (map layer_names (kv_cache_groups (cs ! i)))) = mset (map fst (specs ! i)))"
proof -
  obtain merged gs cs0 m where m: "for_each merge_layer (concat specs) [] = Inr merged"
    "get_kv_cache_groups sz cfg merged = Inr gs" "map_res (worker_config sz cfg gs) (zip specs mems) = Inr cs0"
    "min_py (map cfg_num_blocks cs0) = Inr m" "cs = map (\<lambda>c. c\<lparr>cfg_num_blocks := m\<rparr>) cs0"
    using assms(1) by (auto simp: get_kv_cache_configs_def)
  have len: "length cs0 = length specs" using map_res_length[OF m(3)] assms(2) by simp
  have w: "worker_config sz cfg gs (specs ! i, mems ! i) = Inr (cs0 ! i)" if "i < length cs0" for i
    using m(3) that len assms(2) by (auto simp: map_res_Inr_iff list_all2_conv_all_nth)
  have ne: "cs0 \<noteq> []" "m = Min (set (map cfg_num_blocks cs0))" using m(4) by (auto simp: min_py_def split: if_splits)
  have names: "mset (concat (map layer_names (kv_cache_groups (cs ! i)))) = mset (map fst (specs ! i))" if "i < length cs0" for i
  proof -
    have "kv_cache_groups (cs0 ! i) = worker_groups gs (specs ! i)"
      using w[OF that] by (auto simp: worker_config_def Let_def dest: config_groups)
    moreover have "fst ` set (specs ! i) \<subseteq> set (map fst merged)" "distinct (map fst merged)"
      using merge_layers[OF m(1)] that len by (auto simp: image_iff) (metis fst_conv nth_mem)+
    ultimately show ?thesis
      using worker_groups_names[OF get_kv_cache_groups_names[OF m(2)]] assms(3) that len m(5) by simp
  qed
  moreover have "length cs = length specs" using len m(5) by simp
  ultimately show ?thesis using len w ne m(1,2,5)
    by (intro conjI exI[of _ merged] exI[of _ gs] exI[of _ cs0]) simp_all
qed

lemma tiny_simps:
  "a_block_size tiny_attention = 2" "attention_page_size (\<lambda>_. 2) tiny_attention = 4" "max_model_len tiny_config = 8"
  "decode_context_parallel_size tiny_config = 1" "num_gpu_blocks_override tiny_config = None"
  "disable_hybrid_kv_cache_manager tiny_config = False"
  by (simp_all add: tiny_attention_def tiny_config_def attention_page_size_def)

lemma tiny_configs: "\<exists>cs. get_kv_cache_configs (\<lambda>_. 2) tiny_config
    [[(''l0'', FullAttentionSpec tiny_attention None None)], [(''l1'', FullAttentionSpec tiny_attention None None)]] [50, 30] = Inr cs
    \<and> map cfg_num_blocks cs = [7, 7]"
  by (simp add: get_kv_cache_configs_def check_enough_kv_cache_memory_def total_memory_def pages_for_def cdiv_py_def
      tiny_simps local_model_len_def cdiv_def merge_layer_def get_kv_cache_groups_def is_kv_cache_type_attention_free_def
      is_kv_cache_spec_uniform_def spec_merge_def index_py_def full_attention_merge_def merge_window_sizes_def window_set_def
      List.map_filter_def get_kv_cache_groups_uniform_spec_def create_kv_cache_group_specs_def lookup_py_def worker_config_def
      worker_groups_def get_kv_cache_config_from_groups_def pooled_tensors_def max_py_def get_uniform_page_size_def
      get_num_blocks_def div_py_def may_override_num_blocks_def get_max_concurrency_for_kv_cache_config_def min_py_def Let_def)

theorem get_kv_cache_configs_consistent_witness:
  "\<exists>cs. get_kv_cache_configs (\<lambda>_. 2) tiny_config
     [[(''l0'', FullAttentionSpec tiny_attention None None)], [(''l1'', FullAttentionSpec tiny_attention None None)]] [50, 30] = Inr cs
     \<and> mset (concat (map layer_names (kv_cache_groups (cs ! 1)))) = {#''l1''#} \<and> map cfg_num_blocks cs = [7, 7]"
proof -
  obtain cs where cs: "get_kv_cache_configs (\<lambda>_. 2) tiny_config
     [[(''l0'', FullAttentionSpec tiny_attention None None)], [(''l1'', FullAttentionSpec tiny_attention None None)]] [50, 30] = Inr cs"
    "map cfg_num_blocks cs = [7, 7]"
    using tiny_configs by auto
  let ?specs = "[[(''l0'', FullAttentionSpec tiny_attention None None)], [(''l1'', FullAttentionSpec tiny_attention None None)]]"
  have h: "length [50, 30 :: int] = length ?specs" "\<forall>s\<in>set ?specs. distinct (map fst s)" by simp_all
  note c = get_kv_cache_configs_consistent[OF cs(1) h]
  have "length cs = 2" using conjunct1[OF c] by simp
  with conjunct2[OF conjunct2[OF c], rule_format, of 1] cs show ?thesis by simp
qed

end
