(* ===== verification/Kv_Managers.thy ===== *)
theory Kv_Managers
  imports Block_Pool Kv_Specs
begin

text \<open>
  The managers of one attention type each (\<^verbatim>\<open>vllm/v1/core/single_type_kv_cache_manager.py\<close>): the
  blocks every request holds, allocation, caching, freeing, prefix-cache hits and the removal of
  blocks outside the attention window. The class of a manager is determined by its specification.
  The pool is shared by all managers, so every operation takes and returns it. Dictionaries are
  association lists in insertion order; reading a missing key of a \<^verbatim>\<open>defaultdict\<close> inserts it.
\<close>

section \<open>State\<close>

record st_manager =
  st_spec :: kv_cache_spec
  st_block_size :: int
  st_dcp_world_size :: int
  req_to_blocks :: "(string \<times> block_ref list) list"
  num_cached_block :: "(string \<times> nat) list"
  kv_cache_group_id :: int
  st_null_block :: block_ref

definition manager_init :: "kv_cache_spec \<Rightarrow> block_pool \<Rightarrow> int \<Rightarrow> int \<Rightarrow> st_manager" where
  "manager_init spec p gid dcp =
     \<lparr>st_spec = spec, st_block_size = (if dcp > 1 then spec_block_size spec * dcp else spec_block_size spec),
      st_dcp_world_size = dcp, req_to_blocks = [], num_cached_block = [], kv_cache_group_id = gid,
      st_null_block = null_block p\<rparr>"

text \<open>\<^verbatim>\<open>spec_manager_map\<close> has no entry for encoder-only and uniform-type specifications.\<close>

definition get_manager_for_kv_cache_spec :: "kv_cache_spec \<Rightarrow> block_pool \<Rightarrow> int \<Rightarrow> int \<Rightarrow> st_manager result" where
  "get_manager_for_kv_cache_spec spec p gid dcp =
     (case spec of
        EncoderOnlyAttentionSpec _ \<Rightarrow> Inl KeyError
      | UniformTypeKVCacheSpecs _ _ \<Rightarrow> Inl KeyError
      | _ \<Rightarrow> Inr (manager_init spec p gid dcp))"

definition blocks_of :: "st_manager \<Rightarrow> string \<Rightarrow> block_ref list" where
  "blocks_of m rid = (case map_of (req_to_blocks m) rid of None \<Rightarrow> [] | Some bs \<Rightarrow> bs)"

definition set_blocks :: "string \<Rightarrow> block_ref list \<Rightarrow> st_manager \<Rightarrow> st_manager" where
  "set_blocks rid bs m = m\<lparr>req_to_blocks := AList.update rid bs (req_to_blocks m)\<rparr>"

definition read_blocks :: "string \<Rightarrow> st_manager \<Rightarrow> st_manager" where
  "read_blocks rid m = set_blocks rid (blocks_of m rid) m"

section \<open>Allocation\<close>

definition num_evictable :: "block_pool \<Rightarrow> block_ref list \<Rightarrow> int" where
  "num_evictable p bs = int (length (filter (\<lambda>r. ref_cnt (blk p r) = 0 \<and> \<not> is_null (blk p r)) bs))"

text \<open>A Mamba manager adds the blocks for speculative decoding.\<close>

definition slots_for :: "st_manager \<Rightarrow> int \<Rightarrow> int" where
  "slots_for m n =
     (case st_spec m of
        MambaSpec s \<Rightarrow> (if num_speculative_blocks s > 0 then n + m_block_size s * num_speculative_blocks s else n)
      | _ \<Rightarrow> n)"

definition get_num_blocks_to_allocate :: "block_pool \<Rightarrow> string \<Rightarrow> int \<Rightarrow> block_ref list \<Rightarrow> st_manager \<Rightarrow> (int \<times> st_manager) result" where
  "get_num_blocks_to_allocate p rid n new_computed m =
     bnd (cdiv_py (slots_for m n) (st_block_size m)) (\<lambda>req.
       Inr (req - int (length new_computed) - int (length (blocks_of m rid)) + num_evictable p new_computed,
            read_blocks rid m))"

definition save_new_computed_blocks :: "string \<Rightarrow> block_ref list \<Rightarrow> st_manager \<Rightarrow> st_manager result" where
  "save_new_computed_blocks rid new_computed m =
     (case st_spec m of
        CrossAttentionSpec _ \<Rightarrow> check (new_computed = []) AssertionError (Inr m)
      | _ \<Rightarrow>
          (case map_of (num_cached_block m) rid of
             None \<Rightarrow> check (blocks_of m rid = []) AssertionError
               (Inr ((set_blocks rid new_computed m)\<lparr>num_cached_block := AList.update rid (length new_computed) (num_cached_block m)\<rparr>))
           | Some _ \<Rightarrow> check (new_computed = []) AssertionError (Inr m)))"

definition allocate_new_blocks :: "string \<Rightarrow> int \<Rightarrow> st_manager \<Rightarrow> block_pool \<Rightarrow> (block_ref list \<times> st_manager \<times> block_pool) result" where
  "allocate_new_blocks rid n m p =
     bnd (cdiv_py (slots_for m n) (st_block_size m)) (\<lambda>req.
       let bs = blocks_of m rid; num_new = req - int (length bs) in
       if num_new \<le> 0 then Inr ([], read_blocks rid m, p)
       else bnd (get_new_blocks p (nat num_new)) (\<lambda>(new, p'). Inr (new, set_blocks rid (bs @ new) m, p')))"

text \<open>Token counts are not negative.\<close>

definition cache_blocks :: "request \<Rightarrow> int \<Rightarrow> st_manager \<Rightarrow> block_pool \<Rightarrow> (st_manager \<times> block_pool) result" where
  "cache_blocks r n m p =
     (case st_spec m of
        CrossAttentionSpec _ \<Rightarrow> Inl ValueError
      | _ \<Rightarrow>
          bnd (lookup_py (map_of (num_cached_block m)) (request_id r)) (\<lambda>nc.
          bnd (div_py n (st_block_size m)) (\<lambda>nf.
          bnd (cache_full_blocks p r (blocks_of m (request_id r)) nc (nat nf) (nat (st_block_size m)) (kv_cache_group_id m)) (\<lambda>p'.
            Inr ((read_blocks (request_id r) m)\<lparr>num_cached_block := AList.update (request_id r) (nat nf) (num_cached_block m)\<rparr>, p')))))"

definition free_request :: "string \<Rightarrow> st_manager \<Rightarrow> block_pool \<Rightarrow> (st_manager \<times> block_pool) result" where
  "free_request rid m p =
     bnd (free_blocks p (rev (blocks_of m rid))) (\<lambda>p'.
       Inr (m\<lparr>req_to_blocks := AList.delete rid (req_to_blocks m),
              num_cached_block := AList.delete rid (num_cached_block m)\<rparr>, p'))"

definition num_common_prefix_blocks :: "block_pool \<Rightarrow> string \<Rightarrow> int \<Rightarrow> st_manager \<Rightarrow> int \<times> st_manager" where
  "num_common_prefix_blocks p rid num_running m =
     (case st_spec m of
        FullAttentionSpec _ _ _ \<Rightarrow>
          (int (length (takeWhile (\<lambda>r. ref_cnt (blk p r) = num_running) (blocks_of m rid))), read_blocks rid m)
      | _ \<Rightarrow> (0, m))"

section \<open>Blocks outside the attention window\<close>

text \<open>Comparing blocks compares their fields in order, the block id first, and ids are unique:
  blocks are equal only to themselves.\<close>

fun skip_loop :: "block_ref \<Rightarrow> nat \<Rightarrow> block_ref list \<Rightarrow> block_ref list \<Rightarrow> (block_ref list \<times> block_ref list) result" where
  "skip_loop null 0 bs removed = Inr (bs, removed)"
| "skip_loop null (Suc i) bs removed =
     bnd (index_py bs i) (\<lambda>b.
       if b = null then Inr (bs, removed) else skip_loop null i (bs[i := null]) (removed @ [b]))"

definition drop_blocks :: "string \<Rightarrow> int \<Rightarrow> st_manager \<Rightarrow> block_pool \<Rightarrow> (st_manager \<times> block_pool) result" where
  "drop_blocks rid first_useful m p =
     bnd (skip_loop (st_null_block m) (nat first_useful) (blocks_of m rid) []) (\<lambda>(bs, removed).
     bnd (free_blocks p removed) (\<lambda>p'. Inr (set_blocks rid bs m, p')))"

definition remove_skipped_blocks :: "string \<Rightarrow> int \<Rightarrow> st_manager \<Rightarrow> block_pool \<Rightarrow> (st_manager \<times> block_pool) result" where
  "remove_skipped_blocks rid num_computed m p =
     (case st_spec m of
        SlidingWindowSpec _ w \<Rightarrow>
          bnd (div_py (num_computed - w + 1) (st_block_size m)) (\<lambda>last_useful_block.
            drop_blocks rid last_useful_block m p)
      | ChunkedLocalAttentionSpec _ c \<Rightarrow>
          bnd (div_py num_computed c) (\<lambda>k.
          bnd (div_py (k * c) (st_block_size m)) (\<lambda>first0.
            let num_cached = (case map_of (num_cached_block m) rid of None \<Rightarrow> 0 | Some n \<Rightarrow> n);
                first = (if num_cached > 0 then min first0 (int num_cached - 1) else first0)
            in drop_blocks rid first m p))
      | _ \<Rightarrow> Inr (m, p))"

section \<open>Prefix-cache hits\<close>

definition append_each :: "block_ref list list \<Rightarrow> block_ref list \<Rightarrow> block_ref list list" where
  "append_each computed cached = map (\<lambda>(c, b). c @ [b]) (zip computed cached)"

fun hit_loop :: "block_pool \<Rightarrow> int list \<Rightarrow> bytes list \<Rightarrow> block_ref list list \<Rightarrow> block_ref list list result" where
  "hit_loop p gids [] computed = Inr computed"
| "hit_loop p gids (h # hs) computed =
     bnd (get_cached_block p h gids) (\<lambda>c.
       case c of
         None \<Rightarrow> Inr computed
       | Some cached \<Rightarrow> if cached = [] then Inr computed else hit_loop p gids hs (append_each computed cached))"

definition drop_last_for_eagle :: "bool \<Rightarrow> block_ref list list \<Rightarrow> block_ref list list result" where
  "drop_last_for_eagle use_eagle computed =
     (if use_eagle
      then bnd (index_py computed 0) (\<lambda>c0. if c0 \<noteq> [] then Inr (map butlast computed) else Inr computed)
      else Inr computed)"

definition full_find_longest_cache_hit :: "block_pool \<Rightarrow> int \<Rightarrow> bytes list \<Rightarrow> int \<Rightarrow> int list \<Rightarrow> bool \<Rightarrow> int
    \<Rightarrow> block_ref list list result" where
  "full_find_longest_cache_hit p spec_block hashes max_length gids use_eagle dcp =
     bnd (div_py max_length (if dcp > 1 then spec_block * dcp else spec_block)) (\<lambda>max_num.
     check (max_num \<ge> 0) ValueError
       (bnd (hit_loop p gids (take (nat max_num) hashes) (map (\<lambda>_. []) gids)) (drop_last_for_eagle use_eagle)))"

fun window_loop :: "block_pool \<Rightarrow> int list \<Rightarrow> bytes list \<Rightarrow> int \<Rightarrow> nat \<Rightarrow> block_ref list list \<Rightarrow> nat
    \<Rightarrow> block_ref list list result" where
  "window_loop p gids hashes need 0 computed contiguous = Inr (map (take contiguous) computed)"
| "window_loop p gids hashes need (Suc i) computed contiguous =
     bnd (index_py hashes i) (\<lambda>h.
     bnd (get_cached_block p h gids) (\<lambda>c.
       case c of
         None \<Rightarrow> window_loop p gids hashes need i computed 0
       | Some cached \<Rightarrow>
           if cached = [] then window_loop p gids hashes need i computed 0
           else let computed' = map (\<lambda>(l, b). l[i := b]) (zip computed cached); k = contiguous + 1
             in if int k \<ge> need then Inr (map (take (i + k)) computed')
                else window_loop p gids hashes need i computed' k))"

definition window_find_longest_cache_hit :: "block_pool \<Rightarrow> int \<Rightarrow> int \<Rightarrow> bytes list \<Rightarrow> int \<Rightarrow> int list \<Rightarrow> bool \<Rightarrow> int
    \<Rightarrow> block_ref list list result" where
  "window_find_longest_cache_hit p bs w hashes max_length gids use_eagle dcp =
     check (dcp = 1) AssertionError
       (bnd (cdiv_py (w - 1) bs) (\<lambda>need0.
        bnd (div_py max_length bs) (\<lambda>max_num.
          let need = (if use_eagle then need0 + 1 else need0);
              computed = map (\<lambda>_. replicate (nat max_num) (null_block p)) gids
          in bnd (window_loop p gids hashes need (nat max_num) computed 0) (drop_last_for_eagle use_eagle))))"

fun chunk_loop :: "block_pool \<Rightarrow> int list \<Rightarrow> bytes list \<Rightarrow> nat list \<Rightarrow> block_ref list list \<Rightarrow> block_ref list list result" where
  "chunk_loop p gids hashes [] computed = Inr computed"
| "chunk_loop p gids hashes (i # is) computed =
     bnd (index_py hashes i) (\<lambda>h.
     bnd (get_cached_block p h gids) (\<lambda>c.
       case c of
         None \<Rightarrow> Inr computed
       | Some cached \<Rightarrow> if cached = [] then Inr computed else chunk_loop p gids hashes is (append_each computed cached)))"

definition chunked_find_longest_cache_hit :: "block_pool \<Rightarrow> int \<Rightarrow> int \<Rightarrow> bytes list \<Rightarrow> int \<Rightarrow> int list \<Rightarrow> bool \<Rightarrow> int
    \<Rightarrow> block_ref list list result" where
  "chunked_find_longest_cache_hit p bs chunk hashes max_length gids use_eagle dcp =
     check (\<not> use_eagle) AssertionError (check (dcp = 1) AssertionError
       (bnd (div_py max_length bs) (\<lambda>max_num.
        bnd (if max_length > 0 then bnd (div_py max_length chunk) (\<lambda>k. Inr (k * chunk)) else Inr 0) (\<lambda>start.
        bnd (div_py start bs) (\<lambda>start_block.
          chunk_loop p gids hashes [nat start_block..<nat max_num]
            (map (\<lambda>_. replicate (nat start_block) (null_block p)) gids))))))"

definition find_longest_cache_hit :: "block_pool \<Rightarrow> kv_cache_spec \<Rightarrow> bytes list \<Rightarrow> int \<Rightarrow> int list \<Rightarrow> bool \<Rightarrow> int
    \<Rightarrow> block_ref list list result" where
  "find_longest_cache_hit p spec hashes max_length gids use_eagle dcp =
     (case spec of
        FullAttentionSpec a _ _ \<Rightarrow> full_find_longest_cache_hit p (a_block_size a) hashes max_length gids use_eagle dcp
      | SlidingWindowSpec a w \<Rightarrow> window_find_longest_cache_hit p (a_block_size a) w hashes max_length gids use_eagle dcp
      | ChunkedLocalAttentionSpec a c \<Rightarrow> chunked_find_longest_cache_hit p (a_block_size a) c hashes max_length gids use_eagle dcp
      | MambaSpec _ \<Rightarrow> check (dcp = 1) AssertionError (Inr (map (\<lambda>_. []) gids))
      | CrossAttentionSpec _ \<Rightarrow> Inl NotImplementedError
      | _ \<Rightarrow> Inl KeyError)"

section \<open>The hit of full attention is the longest\<close>

text \<open>\<open>r\<close> is a cached block for hash \<open>h\<close> in group \<open>g\<close>, and \<open>h\<close> is cached in all groups.\<close>

definition cached_for :: "block_pool \<Rightarrow> int \<Rightarrow> bytes \<Rightarrow> block_ref \<Rightarrow> bool" where
  "cached_for p g h r \<longleftrightarrow> r \<in> pool_refs (num_gpu_blocks p)
     \<and> (\<exists>key. make_block_hash_with_group_id h g = Inr key \<and> bh p r = Some key)"

definition cached_in_all :: "block_pool \<Rightarrow> int list \<Rightarrow> bytes \<Rightarrow> bool" where
  "cached_in_all p gids h \<longleftrightarrow> (\<forall>g\<in>set gids. \<exists>r. cached_for p g h r)"

lemma get_cached_block_iff:
  assumes "pool_inv p xs" "\<forall>g\<in>set gids. 0 \<le> g \<and> g < 2 ^ 32"
  shows "if cached_in_all p gids h
    then \<exists>bs. get_cached_block p h gids = Inr (Some bs) \<and> list_all2 (\<lambda>g r. cached_for p g h r) gids bs
    else get_cached_block p h gids = Inr None"
proof -
  obtain res where res: "get_cached_block p h gids = Inr res" "case res of
         Some bs \<Rightarrow> list_all2 (\<lambda>g r. r \<in> pool_refs (num_gpu_blocks p)
                      \<and> (\<exists>key. make_block_hash_with_group_id h g = Inr key \<and> bh p r = Some key)) gids bs
       | None \<Rightarrow> \<exists>g\<in>set gids. \<exists>key. make_block_hash_with_group_id h g = Inr key
                      \<and> (\<forall>r\<in>pool_refs (num_gpu_blocks p). bh p r \<noteq> Some key)"
    using get_cached_block_ok[OF assms] by blast
  show ?thesis
  proof (cases res)
    case None
    with res have "\<not> cached_in_all p gids h" by (force simp: cached_in_all_def cached_for_def)
    with res None show ?thesis by simp
  next
    case (Some bs)
    then have l: "list_all2 (\<lambda>g r. cached_for p g h r) gids bs" using res(2) by (simp add: cached_for_def)
    then have "cached_in_all p gids h"
      by (fastforce simp: cached_in_all_def list_all2_conv_all_nth in_set_conv_nth)
    with res(1) Some l show ?thesis by auto
  qed
qed

lemma hit_loop_spec:
  assumes "pool_inv p xs" "\<forall>g\<in>set gids. 0 \<le> g \<and> g < 2 ^ 32" "gids \<noteq> []" "length acc = length gids"
  shows "\<exists>rest. hit_loop p gids hs acc = Inr (map (\<lambda>(a, b). a @ b) (zip acc rest)) \<and> length rest = length gids
    \<and> (\<forall>j<length gids. list_all2 (cached_for p (gids ! j)) (takeWhile (cached_in_all p gids) hs) (rest ! j))"
  using assms(4)
proof (induction hs arbitrary: acc)
  case Nil
  then have "map (\<lambda>(a, b). a @ b) (zip acc (replicate (length gids) [])) = acc"
    by (intro nth_equalityI) auto
  then show ?case by (intro exI[of _ "replicate (length gids) []"]) simp
next
  case (Cons h hs)
  show ?case
  proof (cases "cached_in_all p gids h")
    case False
    have "map (\<lambda>(a, b). a @ b) (zip acc (replicate (length gids) [])) = acc"
      using Cons.prems by (intro nth_equalityI) auto
    with False get_cached_block_iff[OF assms(1,2), of h] show ?thesis
      by (intro exI[of _ "replicate (length gids) []"]) simp
  next
    case True
    then obtain bs where bs: "get_cached_block p h gids = Inr (Some bs)" "list_all2 (\<lambda>g r. cached_for p g h r) gids bs"
      using get_cached_block_iff[OF assms(1,2), of h] by auto
    have len: "length bs = length gids" using list_all2_lengthD[OF bs(2)] by simp
    then have "bs \<noteq> []" using assms(3) by auto
    have la: "length (append_each acc bs) = length gids" using Cons.prems len by (simp add: append_each_def)
    from Cons.IH[OF this] obtain rest where rest: "hit_loop p gids hs (append_each acc bs) = Inr (map (\<lambda>(a, b). a @ b) (zip (append_each acc bs) rest))"
      "length rest = length gids"
      "\<forall>j<length gids. list_all2 (cached_for p (gids ! j)) (takeWhile (cached_in_all p gids) hs) (rest ! j)" by blast
    have "map (\<lambda>(a, b). a @ b) (zip (append_each acc bs) rest)
        = map (\<lambda>(a, b). a @ b) (zip acc (map (\<lambda>(b, r). b # r) (zip bs rest)))"
      using Cons.prems len rest(2) by (intro nth_equalityI) (auto simp: append_each_def)
    moreover have "hit_loop p gids (h # hs) acc = hit_loop p gids hs (append_each acc bs)" using bs(1) \<open>bs \<noteq> []\<close> by simp
    ultimately show ?thesis using rest bs(2) len True
      by (intro exI[of _ "map (\<lambda>(b, r). b # r) (zip bs rest)"]) (auto simp: list_all2_conv_all_nth nth_Cons split: nat.split)
  qed
qed

text \<open>C30: The prefix-cache hit of full attention is the longest possible: within the maximal number of
  blocks, each as long as the block size times the number of decode-context-parallel ranks, it covers exactly the leading hashes that are cached in all groups (less the last block
  when drafting needs it recomputed), and in each group the hit is, hash by hash, a block of the
  pool that is cached under this hash for this group.\<close>

theorem full_cache_hit_longest:
  assumes inv: "pool_inv p xs" and gids: "\<forall>g\<in>set gids. 0 \<le> g \<and> g < 2 ^ 32" "gids \<noteq> []"
    and bs: "bs > 0" and len: "max_length \<ge> 0"
  shows "\<exists>hits. full_find_longest_cache_hit p bs hashes max_length gids use_eagle dcp = Inr hits \<and> length hits = length gids
    \<and> (let prefix = takeWhile (cached_in_all p gids) (take (nat (max_length div (bs * max 1 dcp))) hashes)
       in \<forall>j<length gids. list_all2 (cached_for p (gids ! j)) (if use_eagle then butlast prefix else prefix) (hits ! j))"
proof -
  define hs where "hs = take (nat (max_length div (bs * max 1 dcp))) hashes"
  have len1: "(if dcp > 1 then bs * dcp else bs) = bs * max 1 dcp" "bs * max 1 dcp > 0" using bs by (auto simp: max_def)
  obtain rest where rest: "hit_loop p gids hs (map (\<lambda>_. []) gids) = Inr (map (\<lambda>(a, b). a @ b) (zip (map (\<lambda>_. []) gids) rest))"
    "length rest = length gids"
    "\<forall>j<length gids. list_all2 (cached_for p (gids ! j)) (takeWhile (cached_in_all p gids) hs) (rest ! j)"
    using hit_loop_spec[OF inv gids, of "map (\<lambda>_. []) gids" hs] by auto
  have "map (\<lambda>(a, b). a @ b) (zip (map (\<lambda>_. []) gids) rest) = rest"
    using rest(2) by (intro nth_equalityI) auto
  with rest(1) have h: "full_find_longest_cache_hit p bs hashes max_length gids use_eagle dcp = drop_last_for_eagle use_eagle rest"
    using len len1(2) bs unfolding full_find_longest_cache_hit_def len1(1)
    by (auto simp: div_py_def check_def hs_def pos_imp_zdiv_nonneg_iff)
  have b: "list_all2 P (butlast ys) (butlast zs)" if "list_all2 P ys zs" for P :: "bytes \<Rightarrow> block_ref \<Rightarrow> bool" and ys zs
    using that by (auto simp: list_all2_conv_all_nth nth_butlast)
  have ne: "rest \<noteq> []" "0 < length gids" using rest(2) gids(2) by auto
  show ?thesis
  proof (cases "use_eagle \<and> rest ! 0 \<noteq> []")
    case True
    then have "drop_last_for_eagle use_eagle rest = Inr (map butlast rest)" using ne by (simp add: drop_last_for_eagle_def index_py_def)
    then show ?thesis using h rest(2,3) True b by (simp add: hs_def Let_def)
  next
    case False
    have "butlast (takeWhile (cached_in_all p gids) hs) = takeWhile (cached_in_all p gids) hs" if "use_eagle"
      using rest(3) False that ne(2) by (metis butlast.simps(1) list_all2_Nil2)
    moreover have "drop_last_for_eagle use_eagle rest = Inr rest" using False ne by (auto simp: drop_last_for_eagle_def index_py_def)
    ultimately show ?thesis using h rest(2,3) by (auto simp: hs_def Let_def)
  qed
qed

theorem full_cache_hit_longest_witness:
  "\<exists>hits. full_find_longest_cache_hit pool4 2 [[1], [2]] 5 [0] False 2 = Inr hits \<and> length hits = 1"
  using full_cache_hit_longest[OF pool4(2), of "[0]" 2 5 "[[1], [2]]" False 2] by auto

end
