(* ===== verification/Kv_Coordinator.thy ===== *)
theory Kv_Coordinator
  imports Kv_Managers
begin

text \<open>
  The coordinator of the managers of all KV cache groups (\<^verbatim>\<open>vllm/v1/core/kv_cache_coordinator.py\<close>)
  and the KV cache manager the scheduler talks to (\<^verbatim>\<open>vllm/v1/core/kv_cache_manager.py\<close>). The three
  coordinator classes differ in how they look for prefix-cache hits, which is the field
  \<open>co_kind\<close>. Generator expressions over the managers run in order and thread the shared pool.
\<close>

section \<open>State\<close>

record hybrid_split =
  full_attention_group_ids :: "nat list"
  other_group_ids :: "nat list"
  full_attention_spec :: kv_cache_spec
  other_spec :: kv_cache_spec
  full_attn_first :: bool

datatype coordinator_kind = No_Prefix_Cache | Unitary kv_cache_spec int int | Hybrid hybrid_split

record kv_coordinator =
  co_config :: kv_cache_config
  co_max_model_len :: int
  co_enable_caching :: bool
  co_pool :: block_pool
  co_use_eagle :: bool
  single_type_managers :: "st_manager list"
  co_kind :: coordinator_kind

fun thread :: "('m \<Rightarrow> 'p \<Rightarrow> ('a \<times> 'm \<times> 'p) result) \<Rightarrow> 'm list \<Rightarrow> 'p \<Rightarrow> ('a list \<times> 'm list \<times> 'p) result" where
  "thread f [] p = Inr ([], [], p)"
| "thread f (m # ms) p =
     bnd (f m p) (\<lambda>(a, m', p1). bnd (thread f ms p1) (\<lambda>(as, ms', p2). Inr (a # as, m' # ms', p2)))"

definition managers_init :: "kv_cache_group_spec list \<Rightarrow> block_pool \<Rightarrow> int \<Rightarrow> st_manager list result" where
  "managers_init groups p dcp =
     map_res (\<lambda>(i, g). get_manager_for_kv_cache_spec (group_spec g) p (int i) dcp) (zip [0..<length groups] groups)"

definition split_one :: "nat \<times> kv_cache_group_spec \<Rightarrow> kv_cache_spec option \<times> kv_cache_spec option \<times> nat list \<times> nat list
    \<Rightarrow> (kv_cache_spec option \<times> kv_cache_spec option \<times> nat list \<times> nat list) result" where
  "split_one ig st =
     (let (i, g) = ig; (full, other, fids, oids) = st; s = group_spec g in
      if is_full s
      then check (full = None \<or> full = Some s) AssertionError (Inr (Some s, other, fids @ [i], oids))
      else check (other = None \<or> other = Some s) AssertionError (Inr (full, Some s, fids, oids @ [i])))"

definition verify_and_split_kv_cache_groups :: "kv_cache_group_spec list \<Rightarrow> bool \<Rightarrow> hybrid_split result" where
  "verify_and_split_kv_cache_groups groups caching =
     bnd (for_each split_one (zip [0..<length groups] groups) (None, None, [], [])) (\<lambda>(full, other, fids, oids).
       case full of
         None \<Rightarrow> Inl AssertionError
       | Some f \<Rightarrow> (case other of
           None \<Rightarrow> Inl AssertionError
         | Some ot \<Rightarrow>
             bnd (if caching
                  then if spec_block_size f = 0 then Inl ZeroDivisionError
                       else check (spec_block_size ot mod spec_block_size f = 0) AssertionError (Inr ())
                  else Inr ()) (\<lambda>_.
             let mk = (\<lambda>b. Inr \<lparr>full_attention_group_ids = fids, other_group_ids = oids, full_attention_spec = f,
                               other_spec = ot, full_attn_first = b\<rparr>)
             in if Max (set fids) < Min (set oids) then mk True
                else if Max (set oids) < Min (set fids) then mk False
                else Inl ValueError)))"

definition get_kv_cache_coordinator :: "bool \<Rightarrow> kv_cache_config \<Rightarrow> int \<Rightarrow> bool \<Rightarrow> bool \<Rightarrow> bool \<Rightarrow> int \<Rightarrow> kv_coordinator result" where
  "get_kv_cache_coordinator use_int cfg max_len use_eagle caching events_on dcp =
     (let groups = kv_cache_groups cfg in
      bnd (pool_init (nat (cfg_num_blocks cfg)) caching events_on use_int) (\<lambda>p.
      bnd (managers_init groups p dcp) (\<lambda>ms.
      bnd (if \<not> caching then Inr No_Prefix_Cache
           else if length groups = 1
           then let s = group_spec (groups ! 0)
                in Inr (Unitary s (if dcp > 1 then spec_block_size s * dcp else spec_block_size s) dcp)
           else check (dcp = 1) AssertionError
                  (bnd (verify_and_split_kv_cache_groups groups caching) (\<lambda>h. Inr (Hybrid h)))) (\<lambda>k.
        Inr \<lparr>co_config = cfg, co_max_model_len = max_len, co_enable_caching = caching, co_pool = p,
             co_use_eagle = use_eagle, single_type_managers = ms, co_kind = k\<rparr>))))"

section \<open>Operations on all groups\<close>

definition is_cross_manager :: "st_manager \<Rightarrow> bool" where
  "is_cross_manager m = is_cross (st_spec m)"

fun sum_blocks_to_allocate :: "block_pool \<Rightarrow> string \<Rightarrow> int \<Rightarrow> int \<Rightarrow> block_ref list list \<Rightarrow> nat \<Rightarrow> st_manager list
    \<Rightarrow> (int \<times> st_manager list) result" where
  "sum_blocks_to_allocate p rid n enc computed i [] = Inr (0, [])"
| "sum_blocks_to_allocate p rid n enc computed i (m # ms) =
     bnd (if is_cross_manager m then get_num_blocks_to_allocate p rid enc [] m
          else bnd (index_py computed i) (\<lambda>c. get_num_blocks_to_allocate p rid n c m)) (\<lambda>(k, m').
     bnd (sum_blocks_to_allocate p rid n enc computed (Suc i) ms) (\<lambda>(k', ms'). Inr (k + k', m' # ms')))"

definition co_get_num_blocks_to_allocate :: "string \<Rightarrow> int \<Rightarrow> block_ref list list \<Rightarrow> int \<Rightarrow> kv_coordinator \<Rightarrow> (int \<times> kv_coordinator) result" where
  "co_get_num_blocks_to_allocate rid n computed enc co =
     bnd (sum_blocks_to_allocate (co_pool co) rid n enc computed 0 (single_type_managers co)) (\<lambda>(k, ms).
       Inr (k, co\<lparr>single_type_managers := ms\<rparr>))"

fun save_all :: "string \<Rightarrow> block_ref list list \<Rightarrow> nat \<Rightarrow> st_manager list \<Rightarrow> st_manager list result" where
  "save_all rid computed i [] = Inr []"
| "save_all rid computed i (m # ms) =
     bnd (index_py computed i) (\<lambda>c. bnd (save_new_computed_blocks rid c m) (\<lambda>m'.
     bnd (save_all rid computed (Suc i) ms) (\<lambda>ms'. Inr (m' # ms'))))"

definition co_save_new_computed_blocks :: "string \<Rightarrow> block_ref list list \<Rightarrow> kv_coordinator \<Rightarrow> kv_coordinator result" where
  "co_save_new_computed_blocks rid computed co =
     bnd (save_all rid computed 0 (single_type_managers co)) (\<lambda>ms. Inr (co\<lparr>single_type_managers := ms\<rparr>))"

definition co_allocate_new_blocks :: "string \<Rightarrow> int \<Rightarrow> int \<Rightarrow> kv_coordinator \<Rightarrow> (block_ref list list \<times> kv_coordinator) result" where
  "co_allocate_new_blocks rid n enc co =
     bnd (thread (\<lambda>m p. allocate_new_blocks rid (if is_cross_manager m then enc else n) m p)
            (single_type_managers co) (co_pool co)) (\<lambda>(new, ms, p).
       Inr (new, co\<lparr>single_type_managers := ms, co_pool := p\<rparr>))"

definition on_managers :: "(st_manager \<Rightarrow> block_pool \<Rightarrow> (st_manager \<times> block_pool) result) \<Rightarrow> kv_coordinator \<Rightarrow> kv_coordinator result" where
  "on_managers f co =
     bnd (thread (\<lambda>m p. bnd (f m p) (\<lambda>(m', p'). Inr ((), m', p'))) (single_type_managers co) (co_pool co)) (\<lambda>(_, ms, p).
       Inr (co\<lparr>single_type_managers := ms, co_pool := p\<rparr>))"

definition co_cache_blocks :: "request \<Rightarrow> int \<Rightarrow> kv_coordinator \<Rightarrow> kv_coordinator result" where
  "co_cache_blocks r n = on_managers (cache_blocks r n)"

definition co_free :: "string \<Rightarrow> kv_coordinator \<Rightarrow> kv_coordinator result" where
  "co_free rid = on_managers (free_request rid)"

definition co_remove_skipped_blocks :: "string \<Rightarrow> int \<Rightarrow> kv_coordinator \<Rightarrow> kv_coordinator result" where
  "co_remove_skipped_blocks rid n = on_managers (remove_skipped_blocks rid n)"

definition co_get_num_common_prefix_blocks :: "string \<Rightarrow> int \<Rightarrow> kv_coordinator \<Rightarrow> int list \<times> kv_coordinator" where
  "co_get_num_common_prefix_blocks rid num_running co =
     (if co_kind co = No_Prefix_Cache then (replicate (length (single_type_managers co)) 0, co)
      else let rs = map (num_common_prefix_blocks (co_pool co) rid num_running) (single_type_managers co)
           in (map fst rs, co\<lparr>single_type_managers := map snd rs\<rparr>))"

definition co_get_blocks :: "string \<Rightarrow> kv_coordinator \<Rightarrow> block_ref list list" where
  "co_get_blocks rid co = map (\<lambda>m. blocks_of m rid) (single_type_managers co)"

section \<open>Prefix-cache hits\<close>

definition hybrid_find_longest_cache_hit :: "block_pool \<Rightarrow> bool \<Rightarrow> hybrid_split \<Rightarrow> bytes list \<Rightarrow> int
    \<Rightarrow> (block_ref list list \<times> int) result" where
  "hybrid_find_longest_cache_hit p use_eagle h hashes max_len =
     (let fbs = spec_block_size (full_attention_spec h); obs = spec_block_size (other_spec h) in
      bnd (find_longest_cache_hit p (full_attention_spec h) hashes max_len (map int (full_attention_group_ids h)) use_eagle 1) (\<lambda>full_hits.
      bnd (index_py full_hits 0) (\<lambda>f0.
      bnd (find_longest_cache_hit p (other_spec h) hashes (int (length f0) * fbs) (map int (other_group_ids h)) use_eagle 1) (\<lambda>other_hits.
      bnd (index_py other_hits 0) (\<lambda>o0.
        let hit_length = int (length o0) * obs in
        if fbs = 0 then Inl ZeroDivisionError
        else check (hit_length mod fbs = 0) AssertionError
          (let full' = map (take (nat (hit_length div fbs))) full_hits
           in Inr (if full_attn_first h then full' @ other_hits else other_hits @ full', hit_length)))))))"

definition co_find_longest_cache_hit :: "bytes list \<Rightarrow> int \<Rightarrow> kv_coordinator \<Rightarrow> (block_ref list list \<times> int) result" where
  "co_find_longest_cache_hit hashes max_len co =
     (case co_kind co of
        No_Prefix_Cache \<Rightarrow> Inr (map (\<lambda>_. []) (single_type_managers co), 0)
      | Unitary s bs dcp \<Rightarrow>
          bnd (find_longest_cache_hit (co_pool co) s hashes max_len [0] (co_use_eagle co) dcp) (\<lambda>hits.
          bnd (index_py hits 0) (\<lambda>h0. Inr (hits, int (length h0) * bs)))
      | Hybrid h \<Rightarrow> hybrid_find_longest_cache_hit (co_pool co) (co_use_eagle co) h hashes max_len)"

section \<open>The KV cache manager\<close>

record kv_cache_manager =
  km_max_model_len :: int
  km_enable_caching :: bool
  log_stats :: bool
  prefix_stats :: "prefix_cache_stats option"
  km_block_size :: "int option"
  coordinator :: kv_coordinator
  num_kv_cache_groups :: nat

definition empty_stats :: prefix_cache_stats where
  "empty_stats = \<lparr>st_reset = False, st_requests = 0, st_queries = 0, st_hits = 0\<rparr>"

definition kv_cache_manager_init :: "bool \<Rightarrow> kv_cache_config \<Rightarrow> int \<Rightarrow> bool \<Rightarrow> bool \<Rightarrow> bool \<Rightarrow> bool \<Rightarrow> int \<Rightarrow> kv_cache_manager result" where
  "kv_cache_manager_init use_int cfg max_len caching use_eagle stats events_on dcp =
     (let groups = kv_cache_groups cfg in
      bnd (if caching
           then check (length (remdups (map (spec_block_size \<circ> group_spec) groups)) = 1) AssertionError
                  (let bs = spec_block_size (group_spec (groups ! 0))
                   in if dcp > 1 then check (length groups = 1) AssertionError (Inr (Some (bs * dcp))) else Inr (Some bs))
           else Inr None) (\<lambda>bs.
      bnd (get_kv_cache_coordinator use_int cfg max_len use_eagle caching events_on dcp) (\<lambda>co.
        Inr \<lparr>km_max_model_len = max_len, km_enable_caching = caching, log_stats = stats,
             prefix_stats = (if stats then Some empty_stats else None), km_block_size = bs,
             coordinator = co, num_kv_cache_groups = length groups\<rparr>)))"

definition usage :: "kv_cache_manager \<Rightarrow> rat" where
  "usage km = get_usage (co_pool (coordinator km))"

definition make_prefix_cache_stats :: "kv_cache_manager \<Rightarrow> prefix_cache_stats option \<times> kv_cache_manager" where
  "make_prefix_cache_stats km =
     (if \<not> log_stats km then (None, km) else (prefix_stats km, km\<lparr>prefix_stats := Some empty_stats\<rparr>))"

definition create_empty_block_list :: "kv_cache_manager \<Rightarrow> block_ref list list" where
  "create_empty_block_list km = replicate (num_kv_cache_groups km) []"

definition skips_prefix_cache :: "kv_cache_manager \<Rightarrow> request \<Rightarrow> bool" where
  "skips_prefix_cache km r \<longleftrightarrow> \<not> km_enable_caching km
     \<or> (case sampling_params r of None \<Rightarrow> False | Some s \<Rightarrow> prompt_logprobs s \<noteq> None)"

definition get_computed_blocks :: "request \<Rightarrow> kv_cache_manager \<Rightarrow> ((block_ref list list \<times> int) \<times> kv_cache_manager) result" where
  "get_computed_blocks r km =
     (if skips_prefix_cache km r then Inr ((create_empty_block_list km, 0), km)
      else bnd (co_find_longest_cache_hit (block_hashes r) (num_tokens r - 1) (coordinator km)) (\<lambda>(blocks, n).
        if log_stats km
        then case prefix_stats km of
            None \<Rightarrow> Inl AssertionError
          | Some s \<Rightarrow> Inr ((blocks, n), km\<lparr>prefix_stats := Some (s\<lparr>st_requests := st_requests s + 1,
              st_queries := st_queries s + num_tokens r, st_hits := st_hits s + n\<rparr>)\<rparr>)
        else Inr ((blocks, n), km)))"

definition commit_slots :: "request \<Rightarrow> int \<Rightarrow> int \<Rightarrow> int \<Rightarrow> block_ref list list \<Rightarrow> bool \<Rightarrow> int \<Rightarrow> kv_cache_manager \<Rightarrow> kv_coordinator
    \<Rightarrow> (block_ref list list option \<times> kv_coordinator) result" where
  "commit_slots r num_computed num_new need_slot computed delay enc km co =
     bnd (if km_enable_caching km then touch (co_pool co) computed
          else check (list_all (\<lambda>c. c = []) computed) AssertionError (Inr (co_pool co))) (\<lambda>p.
     bnd (co_save_new_computed_blocks (request_id r) computed (co\<lparr>co_pool := p\<rparr>)) (\<lambda>co1.
     bnd (co_allocate_new_blocks (request_id r) need_slot enc co1) (\<lambda>(new, co2).
       if \<not> km_enable_caching km \<or> delay then Inr (Some new, co2)
       else bnd (co_cache_blocks r (min (num_computed + num_new) (num_tokens r)) co2) (\<lambda>co3. Inr (Some new, co3)))))"

definition allocate_slots :: "request \<Rightarrow> int \<Rightarrow> int \<Rightarrow> block_ref list list option \<Rightarrow> int \<Rightarrow> bool \<Rightarrow> int \<Rightarrow> kv_cache_manager
    \<Rightarrow> (block_ref list list option \<times> kv_cache_manager) result" where
  "allocate_slots r num_new num_new_computed new_computed lookahead delay enc km =
     (if num_new = 0 then Inl ValueError
      else let computed = (case new_computed of Some bs \<Rightarrow> bs
                           | None \<Rightarrow> map (\<lambda>_. []) (kv_cache_groups (co_config (coordinator km))))
       in bnd (co_remove_skipped_blocks (request_id r) (num_computed_tokens r) (coordinator km)) (\<lambda>co0.
         let num_computed = num_computed_tokens r + num_new_computed;
             need_slot = min (num_computed + num_new + lookahead) (km_max_model_len km)
         in bnd (co_get_num_blocks_to_allocate (request_id r) need_slot computed enc co0) (\<lambda>(k, co1).
           if k > get_num_free_blocks (co_pool co1) then Inr (None, km\<lparr>coordinator := co1\<rparr>)
           else bnd (commit_slots r num_computed num_new need_slot computed delay enc km co1) (\<lambda>(res, co2).
             Inr (res, km\<lparr>coordinator := co2\<rparr>)))))"

definition km_free :: "request \<Rightarrow> kv_cache_manager \<Rightarrow> kv_cache_manager result" where
  "km_free r km = bnd (co_free (request_id r) (coordinator km)) (\<lambda>co. Inr (km\<lparr>coordinator := co\<rparr>))"

definition km_reset_prefix_cache :: "kv_cache_manager \<Rightarrow> (bool \<times> kv_cache_manager) result" where
  "km_reset_prefix_cache km =
     (let (b, p) = reset_prefix_cache (co_pool (coordinator km));
          km' = km\<lparr>coordinator := (coordinator km)\<lparr>co_pool := p\<rparr>\<rparr>
      in if \<not> b then Inr (False, km')
         else if log_stats km
         then case prefix_stats km of
             None \<Rightarrow> Inl AssertionError
           | Some s \<Rightarrow> Inr (True, km'\<lparr>prefix_stats := Some (s\<lparr>st_reset := True\<rparr>)\<rparr>)
         else Inr (True, km'))"

definition km_get_num_common_prefix_blocks :: "request \<Rightarrow> int \<Rightarrow> kv_cache_manager \<Rightarrow> (int list \<times> kv_cache_manager) result" where
  "km_get_num_common_prefix_blocks r num_running km =
     check (status r = RUNNING) AssertionError
       (let (ns, co) = co_get_num_common_prefix_blocks (request_id r) num_running (coordinator km)
        in Inr (ns, km\<lparr>coordinator := co\<rparr>))"

definition km_take_events :: "kv_cache_manager \<Rightarrow> kv_event list \<times> kv_cache_manager" where
  "km_take_events km =
     (let (es, p) = pool_take_events (co_pool (coordinator km))
      in (es, km\<lparr>coordinator := (coordinator km)\<lparr>co_pool := p\<rparr>\<rparr>))"

definition km_cache_blocks :: "request \<Rightarrow> int \<Rightarrow> kv_cache_manager \<Rightarrow> kv_cache_manager result" where
  "km_cache_blocks r n km =
     (if km_enable_caching km
      then bnd (co_cache_blocks r n (coordinator km)) (\<lambda>co. Inr (km\<lparr>coordinator := co\<rparr>)) else Inr km)"

section \<open>\<^verbatim>\<open>KVCacheBlocks\<close>\<close>

definition blocks_add :: "block_ref list list \<Rightarrow> block_ref list list \<Rightarrow> block_ref list list" where
  "blocks_add a b = map (\<lambda>(x, y). x @ y) (zip a b)"

definition block_ids :: "block_pool \<Rightarrow> block_ref list list \<Rightarrow> int list list" where
  "block_ids p bss = map (map (\<lambda>r. block_id (blk p r))) bss"

definition get_block_ids :: "block_pool \<Rightarrow> bool \<Rightarrow> block_ref list list \<Rightarrow> int list list option" where
  "get_block_ids p allow_none bss =
     (if allow_none \<and> list_all (\<lambda>g. g = []) bss then None else Some (block_ids p bss))"

definition get_unhashed_block_ids :: "block_pool \<Rightarrow> block_ref list list \<Rightarrow> int list result" where
  "get_unhashed_block_ids p bss =
     check (length bss = 1) AssertionError
       (Inr (map (\<lambda>r. block_id (blk p r)) (filter (\<lambda>r. block_hash (blk p r) = None) (bss ! 0))))"

definition new_empty :: "block_ref list list \<Rightarrow> block_ref list list" where
  "new_empty bss = map (\<lambda>_. []) bss"

definition km_get_blocks :: "string \<Rightarrow> kv_cache_manager \<Rightarrow> block_ref list list" where
  "km_get_blocks rid km = co_get_blocks rid (coordinator km)"

definition km_get_block_ids :: "string \<Rightarrow> kv_cache_manager \<Rightarrow> int list list" where
  "km_get_block_ids rid km = block_ids (co_pool (coordinator km)) (km_get_blocks rid km)"

end
