(* ===== verification/Kv_Invariant.thy ===== *)
theory Kv_Invariant
  imports Kv_Coordinator
begin

text \<open>
  The ownership invariant of the KV cache: every block's reference count is the number of times
  the requests hold it, over all managers, and exactly the unreferenced blocks are free. Each
  operation of a single manager keeps it relative to what the other managers hold; the locale
  \<open>pool_step\<close> lifts this to the loops of the coordinator.
\<close>

section \<open>Held blocks\<close>

definition held :: "st_manager \<Rightarrow> block_ref list" where
  "held m = concat (map snd (req_to_blocks m))"

definition all_held :: "st_manager list \<Rightarrow> block_ref list" where
  "all_held ms = concat (map held ms)"

definition manager_ok :: "st_manager \<Rightarrow> bool" where
  "manager_ok m \<longleftrightarrow> distinct (map fst (req_to_blocks m)) \<and> st_null_block m = Blk 0
     \<and> (\<forall>bs\<in>snd ` set (req_to_blocks m). distinct (filter (\<lambda>r. r \<noteq> Blk 0) bs))
     \<and> (is_full (st_spec m) \<longrightarrow> Blk 0 \<notin> set (held m))"

text \<open>\<open>c\<close> counts the references held by others.\<close>

definition refs_inv :: "(block_ref \<Rightarrow> nat) \<Rightarrow> block_pool \<Rightarrow> st_manager list \<Rightarrow> block_ref list \<Rightarrow> bool" where
  "refs_inv c p ms xs \<longleftrightarrow> pool_inv p xs \<and> (\<forall>m\<in>set ms. manager_ok m) \<and> (\<forall>r\<in>set (all_held ms). in_pool p r)
     \<and> (\<forall>r. in_pool p r \<and> r \<noteq> Blk 0 \<longrightarrow> rc p r = int (c r + count_list (all_held ms) r))"

lemma all_held_simps [simp]: "all_held [] = []" "all_held (m # ms) = held m @ all_held ms"
  by (simp_all add: all_held_def)

lemma in_pool_static: "pool_static p' = pool_static p \<Longrightarrow> in_pool p' = in_pool p"
  using pool_staticD(1)[of p' p] by (simp add: in_pool_def fun_eq_iff)

lemma all_held_sum:
  "c r + count_list (all_held ms) r + count_list (all_held [m]) r = c r + count_list (all_held (m # ms)) r"
  "c r + count_list (held m) r + count_list (all_held ms) r = c r + count_list (all_held (m # ms)) r"
  by simp_all

lemma refs_inv_Cons:
  "refs_inv c p (m # ms) xs \<longleftrightarrow>
     refs_inv (\<lambda>r. c r + count_list (all_held ms) r) p [m] xs \<and> refs_inv (\<lambda>r. c r + count_list (held m) r) p ms xs"
proof -
  have 1: "(\<forall>r\<in>set (all_held (m # ms)). in_pool p r) \<longleftrightarrow>
      (\<forall>r\<in>set (all_held [m]). in_pool p r) \<and> (\<forall>r\<in>set (all_held ms). in_pool p r)" by auto
  have 2: "(\<forall>x\<in>set (m # ms). manager_ok x) \<longleftrightarrow> (\<forall>x\<in>set [m]. manager_ok x) \<and> (\<forall>x\<in>set ms. manager_ok x)" by auto
  show ?thesis unfolding refs_inv_def all_held_sum 1 2 by (rule iffI; elim conjE; intro conjI; assumption)
qed

lemma refs_inv_step:
  assumes "refs_inv c p (m # ms) xs" "refs_inv (\<lambda>r. c r + count_list (all_held ms) r) p' [m'] ys"
    and "pool_static p' = pool_static p"
  shows "refs_inv c p' (m' # ms) ys" "refs_inv (\<lambda>r. c r + count_list (held m') r) p' ms ys"
proof -
  have "\<forall>x\<in>set ms. manager_ok x" "\<forall>r\<in>set (all_held ms). in_pool p' r"
    using assms(1) in_pool_static[OF assms(3)] by (auto simp: refs_inv_def)
  with assms(2) show 2: "refs_inv (\<lambda>r. c r + count_list (held m') r) p' ms ys"
    unfolding refs_inv_def all_held_sum by (elim conjE, intro conjI)
  with assms(2) show "refs_inv c p' (m' # ms) ys" using refs_inv_Cons[of c p' m' ms ys] by blast
qed

section \<open>Changing the blocks of one request\<close>

lemma blocks_of_set_blocks [simp]: "blocks_of (set_blocks rid bs m) rid' = (if rid' = rid then bs else blocks_of m rid')"
  by (simp add: blocks_of_def set_blocks_def update_conv')

lemma blocks_of_held: "set (blocks_of m rid) \<subseteq> set (held m)"
proof (cases "map_of (req_to_blocks m) rid")
  case (Some bs)
  then show ?thesis using map_of_SomeD[OF Some] by (auto simp: blocks_of_def held_def)
qed (simp add: blocks_of_def)

lemma count_update:
  "distinct (map fst l) \<Longrightarrow>
     count_list (concat (map snd (AList.update k v l))) r + count_list (case map_of l k of None \<Rightarrow> [] | Some w \<Rightarrow> w) r
     = count_list (concat (map snd l)) r + count_list v r"
proof (induction l)
  case (Cons x l)
  then show ?case by (cases x) (auto simp: map_of_eq_None_iff[symmetric])
qed simp

lemma count_held_set_blocks:
  "manager_ok m \<Longrightarrow> count_list (held (set_blocks rid bs m)) r + count_list (blocks_of m rid) r
     = count_list (held m) r + count_list bs r"
  using count_update[of "req_to_blocks m" rid bs r] by (simp add: held_def set_blocks_def blocks_of_def manager_ok_def)

lemma count_delete:
  "distinct (map fst l) \<Longrightarrow>
     count_list (concat (map snd (AList.delete k l))) r + count_list (case map_of l k of None \<Rightarrow> [] | Some w \<Rightarrow> w) r
     = count_list (concat (map snd l)) r"
proof (induction l)
  case (Cons x l)
  have "AList.delete k l = l" if "k \<notin> fst ` set l" using that by (simp add: delete_idem)
  with Cons show ?case by (cases x) (auto simp: map_of_eq_None_iff[symmetric] split: option.splits dest: map_of_SomeD)
qed simp

lemma set_update_blocks: "set (AList.update k v l) \<subseteq> insert (k, v) (set l)"
  by (induction l) auto

lemma held_set_blocks: "set (held (set_blocks rid bs m)) \<subseteq> set (held m) \<union> set bs"
  using set_update_blocks[of rid bs "req_to_blocks m"] by (fastforce simp: held_def set_blocks_def)

lemma manager_ok_set_blocks:
  assumes "manager_ok m" "distinct (filter (\<lambda>r. r \<noteq> Blk 0) bs)" "is_full (st_spec m) \<longrightarrow> Blk 0 \<notin> set bs"
  shows "manager_ok (set_blocks rid bs m)"
proof -
  have "\<forall>b\<in>snd ` set (AList.update rid bs (req_to_blocks m)). distinct (filter (\<lambda>r. r \<noteq> Blk 0) b)"
    using assms(1,2) set_update_blocks[of rid bs "req_to_blocks m"] by (fastforce simp: manager_ok_def)
  then show ?thesis
    using assms held_set_blocks[of rid bs m] by (auto simp: manager_ok_def set_blocks_def distinct_update)
qed

lemma blocks_of_distinct: "manager_ok m \<Longrightarrow> distinct (filter (\<lambda>r. r \<noteq> Blk 0) (blocks_of m rid))"
  by (force simp: manager_ok_def blocks_of_def split: option.splits dest!: map_of_SomeD)

text \<open>The general way a manager changes the blocks of a request, and the pool the counts.\<close>

lemma refs_inv_set_blocks:
  assumes inv: "refs_inv c p [m] xs" and p': "pool_inv p' ys" "pool_static p' = pool_static p"
    and bs: "distinct (filter (\<lambda>r. r \<noteq> Blk 0) bs)" "is_full (st_spec m) \<longrightarrow> Blk 0 \<notin> set bs" "\<forall>r\<in>set bs. in_pool p r"
    and rc: "\<forall>r. in_pool p r \<and> r \<noteq> Blk 0 \<longrightarrow>
      rc p' r + int (count_list (blocks_of m rid) r) = rc p r + int (count_list bs r)"
  shows "refs_inv c p' [set_blocks rid bs m] ys"
proof -
  have m: "manager_ok m" "\<forall>r\<in>set (held m). in_pool p r" and
    r: "\<forall>r. in_pool p r \<and> r \<noteq> Blk 0 \<longrightarrow> rc p r = int (c r + count_list (held m) r)"
    using inv by (auto simp: refs_inv_def)
  have "in_pool p r" if "r \<in> set (held (set_blocks rid bs m))" for r
    using that held_set_blocks[of rid bs m] m(2) bs(3) by blast
  moreover have "rc p' r = int (c r + count_list (held (set_blocks rid bs m)) r)" if "in_pool p r" "r \<noteq> Blk 0" for r
    using r rc that count_held_set_blocks[OF m(1), of rid bs r] by fastforce
  ultimately show ?thesis
    using p' manager_ok_set_blocks[OF m(1) bs(1,2)] in_pool_static[OF p'(2)] by (simp add: refs_inv_def)
qed

lemma refs_inv_read_blocks: "refs_inv c p [m] xs \<Longrightarrow> refs_inv c p [read_blocks rid m] xs"
  unfolding read_blocks_def
  using blocks_of_held[of m rid] blocks_of_distinct[of m rid]
  by (intro refs_inv_set_blocks) (auto simp: refs_inv_def manager_ok_def[of m])

lemma refs_inv_num_cached [simp]: "refs_inv c p [m\<lparr>num_cached_block := x\<rparr>] xs = refs_inv c p [m] xs"
  by (simp add: refs_inv_def manager_ok_def held_def)

section \<open>One manager\<close>

lemma refs_invD:
  assumes "refs_inv c p ms xs"
  shows "pool_inv p xs" "\<forall>m\<in>set ms. manager_ok m" "\<forall>r\<in>set (all_held ms). in_pool p r"
    "\<And>r. in_pool p r \<Longrightarrow> r \<noteq> Blk 0 \<Longrightarrow> rc p r = int (c r + count_list (all_held ms) r)"
  using assms by (auto simp: refs_inv_def)

lemma held_pos:
  assumes "refs_inv c p [m] xs" "r \<in> set (blocks_of m rid)" "r \<noteq> Blk 0"
  shows "in_pool p r" "rc p r > 0"
proof -
  have r: "r \<in> set (held m)" using assms(2) blocks_of_held[of m rid] by blast
  then show "in_pool p r" using refs_invD(3)[OF assms(1)] by simp
  have "count_list (held m) r > 0" using r by (metis count_list_0_iff gr0I)
  then show "rc p r > 0" using refs_invD(4)[OF assms(1) \<open>in_pool p r\<close> assms(3)] by simp
qed

lemma allocate_new_blocks_ok:
  fixes k :: int and rid :: string
  assumes inv: "refs_inv c p [m] xs" and bs: "st_block_size m \<noteq> 0"
  defines "n \<equiv> nat (cdiv (slots_for m k) (st_block_size m) - int (length (blocks_of m rid)))"
  shows "if n \<le> length xs
    then \<exists>m' p'. allocate_new_blocks rid k m p = Inr (take n xs, m', p') \<and> refs_inv c p' [m'] (drop n xs)
       \<and> pool_static p' = pool_static p \<and> blocks_of m' rid = blocks_of m rid @ take n xs
       \<and> (\<forall>rid'. rid' \<noteq> rid \<longrightarrow> blocks_of m' rid' = blocks_of m rid')
       \<and> num_cached_block m' = num_cached_block m \<and> st_spec m' = st_spec m
    else allocate_new_blocks rid k m p = Inl ValueError"
proof (cases "n = 0")
  case True
  then have "allocate_new_blocks rid k m p = Inr ([], read_blocks rid m, p)"
    using bs by (simp add: allocate_new_blocks_def cdiv_py_def n_def Let_def)
  then show ?thesis using True refs_inv_read_blocks[OF inv, of rid] by (simp add: read_blocks_def set_blocks_def) (simp add: blocks_of_def update_conv')
next
  case False
  then have a: "allocate_new_blocks rid k m p =
      bnd (get_new_blocks p n) (\<lambda>(new, p'). Inr (new, set_blocks rid (blocks_of m rid @ new) m, p'))"
    using bs by (simp add: allocate_new_blocks_def cdiv_py_def n_def Let_def)
  note pi = refs_invD(1)[OF inv]
  show ?thesis
  proof (cases "n \<le> length xs")
    case le: True
    obtain p' where p': "get_new_blocks p n = Inr (take n xs, p')" "pool_inv p' (drop n xs)" "pool_static p' = pool_static p"
      "\<forall>r. rc p' r = rc p r + (if r \<in> set (take n xs) then 1 else 0)"
      using get_new_blocks_ok[OF pi le] by blast
    have fresh: "in_pool p r \<and> r \<noteq> Blk 0 \<and> r \<notin> set (blocks_of m rid)" if "r \<in> set (take n xs)" for r
      using bp.inv_free[OF pi in_set_takeD[OF that]] held_pos(2)[OF inv, of r rid] by fastforce
    have d: "distinct (take n xs)" using pool_invD(6)[OF pi] by simp
    have mo: "manager_ok m" "is_full (st_spec m) \<longrightarrow> Blk 0 \<notin> set (blocks_of m rid)"
      using refs_invD(2)[OF inv] blocks_of_held[of m rid] by (auto simp: manager_ok_def)
    have "refs_inv c p' [set_blocks rid (blocks_of m rid @ take n xs) m] (drop n xs)"
    proof (rule refs_inv_set_blocks[OF inv p'(2,3)])
      show "distinct (filter (\<lambda>r. r \<noteq> Blk 0) (blocks_of m rid @ take n xs))"
        using blocks_of_distinct[OF mo(1), of rid] d fresh by auto
      show "is_full (st_spec m) \<longrightarrow> Blk 0 \<notin> set (blocks_of m rid @ take n xs)" using mo(2) fresh by auto
      show "\<forall>r\<in>set (blocks_of m rid @ take n xs). in_pool p r"
        using refs_invD(3)[OF inv] blocks_of_held[of m rid] fresh by auto
      show "\<forall>r. in_pool p r \<and> r \<noteq> Blk 0 \<longrightarrow>
          rc p' r + int (count_list (blocks_of m rid) r) = rc p r + int (count_list (blocks_of m rid @ take n xs) r)"
        using p'(4) d by (simp add: count_list_distinct)
    qed
    then show ?thesis using le a p' by (simp add: set_blocks_def) (simp add: blocks_of_def update_conv')
  next
    case False
    then show ?thesis using a get_new_blocks_fail[OF pi, of n] by simp
  qed
qed

lemma alist_delete_subset: "set (AList.delete k l) \<subseteq> set l"
  by (auto simp: AList.delete_eq)

lemma held_delete:
  "count_list (held (m\<lparr>req_to_blocks := AList.delete rid (req_to_blocks m), num_cached_block := x\<rparr>)) r + count_list (blocks_of m rid) r
     = count_list (held m) r" if "manager_ok m"
  using count_delete[of "req_to_blocks m" rid r] that by (simp add: held_def blocks_of_def manager_ok_def)

lemma free_request_ok:
  assumes inv: "refs_inv c p [m] xs"
  shows "\<exists>m' p' ys. free_request rid m p = Inr (m', p') \<and> refs_inv c p' [m'] (xs @ ys) \<and> pool_static p' = pool_static p
    \<and> blocks_of m' rid = [] \<and> (\<forall>rid'. rid' \<noteq> rid \<longrightarrow> blocks_of m' rid' = blocks_of m rid')
    \<and> set ys = {r \<in> set (blocks_of m rid). r \<noteq> Blk 0 \<and> rc p r = 1} \<and> st_spec m' = st_spec m"
proof -
  let ?bs = "blocks_of m rid"
  let ?m = "m\<lparr>req_to_blocks := AList.delete rid (req_to_blocks m), num_cached_block := AList.delete rid (num_cached_block m)\<rparr>"
  have mo: "manager_ok m" and hp: "\<forall>r\<in>set (held m). in_pool p r" using refs_invD(2,3)[OF inv] by auto
  have "\<forall>r\<in>set (rev ?bs). in_pool p r" using hp blocks_of_held[of m rid] by auto
  moreover have "distinct (filter (\<lambda>r. r \<noteq> Blk 0) (rev ?bs))" using blocks_of_distinct[OF mo, of rid] by (simp add: rev_filter[symmetric])
  moreover have "\<forall>r\<in>set (rev ?bs). r \<noteq> Blk 0 \<longrightarrow> rc p r > 0" using held_pos(2)[OF inv] by auto
  ultimately obtain p' where p': "free_blocks p (rev ?bs) = Inr p'"
    "pool_inv p' (xs @ filter (\<lambda>r. r \<noteq> Blk 0 \<and> rc p r = 1) (rev ?bs))" "pool_static p' = pool_static p"
    "\<forall>r. rc p' r = rc p r - int (count_list (rev ?bs) r)"
    using free_blocks_ok[OF refs_invD(1)[OF inv], of "rev ?bs"] by blast
  have sub: "set (held ?m) \<subseteq> set (held m)" using alist_delete_subset[of rid "req_to_blocks m"] by (auto simp: held_def)
  have mok: "manager_ok ?m"
    using mo sub alist_delete_subset[of rid "req_to_blocks m"] by (auto simp: manager_ok_def distinct_delete)
  have "refs_inv c p' [?m] (xs @ filter (\<lambda>r. r \<noteq> Blk 0 \<and> rc p r = 1) (rev ?bs))"
    unfolding refs_inv_def
  proof (intro conjI allI impI)
    show "\<forall>r\<in>set (all_held [?m]). in_pool p' r" using sub hp in_pool_static[OF p'(3)] by auto
    fix r assume r: "in_pool p' r \<and> r \<noteq> Blk 0"
    then have "rc p r = int (c r + count_list (held m) r)"
      using refs_invD(4)[OF inv, of r] in_pool_static[OF p'(3)] by simp
    moreover have "rc p' r = rc p r - int (count_list ?bs r)" using p'(4) by (simp add: count_list_rev)
    ultimately show "rc p' r = int (c r + count_list (all_held [?m]) r)"
      using held_delete[OF mo, of "AList.delete rid (num_cached_block m)" rid r] by simp
  qed (use p' mok in auto)
  moreover have "free_request rid m p = Inr (?m, p')" using p'(1) by (simp add: free_request_def)
  moreover have "blocks_of ?m rid' = (if rid' = rid then [] else blocks_of m rid')" for rid'
    by (simp add: blocks_of_def delete_conv')
  ultimately show ?thesis
    by (intro exI[of _ ?m] exI[of _ p'] exI[of _ "filter (\<lambda>r. r \<noteq> Blk 0 \<and> rc p r = 1) (rev ?bs)"]) (use p' in auto)
qed

lemma count_list_filter: "count_list (filter P xs) r = (if P r then count_list xs r else 0)"
  by (induction xs) auto

lemma distinct_iff_count: "distinct xs \<longleftrightarrow> (\<forall>r. count_list xs r \<le> 1)"
proof (induction xs)
  case (Cons x xs)
  have "x \<notin> set xs \<longleftrightarrow> count_list xs x = 0" by (simp add: count_list_0_iff)
  moreover have "(\<forall>r. count_list (x # xs) r \<le> 1) \<longleftrightarrow> count_list xs x = 0 \<and> (\<forall>r. r \<noteq> x \<longrightarrow> count_list xs r \<le> 1)"
    by (auto dest: spec[of _ x])
  ultimately show ?case using Cons.IH by (metis distinct.simps(2) le0 le_numeral_extra(4) less_le_not_le nat_le_linear zero_le_one)
qed simp

lemma distinct_nonnull_iff: "distinct (filter (\<lambda>r. r \<noteq> n) xs) \<longleftrightarrow> (\<forall>r. r \<noteq> n \<longrightarrow> count_list xs r \<le> 1)"
  by (auto simp: distinct_iff_count count_list_filter)

lemma count_list_upd:
  "i < length xs \<Longrightarrow> count_list (xs[i := v]) r + (if xs ! i = r then 1 else 0) = count_list xs r + (if v = r then 1 else 0)"
proof (induction xs arbitrary: i)
  case (Cons x xs)
  show ?case
  proof (cases i)
    case (Suc j)
    then show ?thesis using Cons.IH[of j] Cons.prems by (auto split: if_splits)
  qed simp
qed simp

lemma skip_loop_spec:
  "skip_loop null n bs removed = Inr (bs', removed') \<Longrightarrow>
     \<exists>rs. removed' = removed @ rs \<and> null \<notin> set rs \<and> set rs \<subseteq> set bs \<and> set bs' \<subseteq> insert null (set bs)
       \<and> length bs' = length bs \<and> (\<forall>r. r \<noteq> null \<longrightarrow> count_list bs' r + count_list rs r = count_list bs r)"
proof (induction null n bs removed rule: skip_loop.induct)
  case (2 null i bs removed)
  then have i: "i < length bs" by auto
  show ?case
  proof (cases "bs ! i = null")
    case True
    with 2 i show ?thesis by (auto simp: index_py_def)
  next
    case False
    with 2 i obtain rs where rs: "removed' = (removed @ [bs ! i]) @ rs" "null \<notin> set rs" "set rs \<subseteq> set (bs[i := null])"
      "set bs' \<subseteq> insert null (set (bs[i := null]))" "length bs' = length bs"
      "\<forall>r. r \<noteq> null \<longrightarrow> count_list bs' r + count_list rs r = count_list (bs[i := null]) r"
      by (fastforce simp: index_py_def)
    have sub: "set (bs[i := null]) \<subseteq> insert null (set bs)" by (rule set_update_subset_insert)
    have "count_list bs' r + count_list (bs ! i # rs) r = count_list bs r" if "r \<noteq> null" for r
      using rs(6) that count_list_upd[OF i, of null r] by auto
    moreover have "set (bs ! i # rs) \<subseteq> set bs" using rs(2,3) sub i by auto
    ultimately show ?thesis using rs False sub by (intro exI[of _ "bs ! i # rs"]) auto
  qed
qed auto

lemma drop_blocks_inv:
  assumes inv: "refs_inv c p [m] xs" and nf: "\<not> is_full (st_spec m)" and d: "drop_blocks rid k m p = Inr (m', p')"
  shows "\<exists>ys. refs_inv c p' [m'] (xs @ ys) \<and> pool_static p' = pool_static p"
proof -
  have mo: "manager_ok m" and hp: "\<forall>r\<in>set (held m). in_pool p r" and nb: "st_null_block m = Blk 0"
    using refs_invD(2,3)[OF inv] by (auto simp: manager_ok_def)
  obtain bs rs where s: "skip_loop (Blk 0) (nat k) (blocks_of m rid) [] = Inr (bs, rs)" "free_blocks p rs = Inr p'" "m' = set_blocks rid bs m"
    using d nb by (auto simp: drop_blocks_def)
  have rs: "Blk 0 \<notin> set rs" "set rs \<subseteq> set (blocks_of m rid)" "set bs \<subseteq> insert (Blk 0) (set (blocks_of m rid))"
    "\<And>r. r \<noteq> Blk 0 \<Longrightarrow> count_list bs r + count_list rs r = count_list (blocks_of m rid) r"
    using skip_loop_spec[OF s(1)] by auto
  have c1: "count_list (blocks_of m rid) r \<le> 1" if "r \<noteq> Blk 0" for r
    using blocks_of_distinct[OF mo, of rid] that by (simp add: distinct_nonnull_iff)
  have "count_list rs r \<le> 1" "count_list bs r \<le> 1" if "r \<noteq> Blk 0" for r
    using rs(4)[OF that] c1[OF that] by simp_all
  then have d': "distinct (filter (\<lambda>r. r \<noteq> Blk 0) rs)" "distinct (filter (\<lambda>r. r \<noteq> Blk 0) bs)"
    by (simp_all add: distinct_nonnull_iff)
  have ip: "\<forall>r\<in>set rs. in_pool p r" "\<forall>r\<in>set rs. r \<noteq> Blk 0 \<longrightarrow> rc p r > 0"
    using rs(1,2) held_pos[OF inv] by blast+
  from free_blocks_ok[OF refs_invD(1)[OF inv] ip(1) d'(1) ip(2)] s(2) obtain ys where ys: "pool_inv p' (xs @ ys)"
    "pool_static p' = pool_static p" "\<forall>r. rc p' r = rc p r - int (count_list rs r)" by auto
  have "\<forall>r\<in>set bs. in_pool p r" using rs(3) hp blocks_of_held[of m rid] by (auto simp: in_pool_def)
  moreover have "rc p' r + int (count_list (blocks_of m rid) r) = rc p r + int (count_list bs r)" if "r \<noteq> Blk 0" for r
    using ys(3) rs(4)[OF that] by simp
  ultimately have "refs_inv c p' [m'] (xs @ ys)"
    unfolding s(3) using refs_inv_set_blocks[OF inv ys(1,2) d'(2)] nf by blast
  with ys(2) show ?thesis by blast
qed

lemma remove_skipped_blocks_inv:
  assumes "refs_inv c p [m] xs" "remove_skipped_blocks rid k m p = Inr (m', p')"
  shows "\<exists>ys. refs_inv c p' [m'] (xs @ ys) \<and> pool_static p' = pool_static p"
proof (cases "is_sliding (st_spec m) \<or> is_chunked (st_spec m)")
  case True
  then obtain j where "drop_blocks rid j m p = Inr (m', p')" "\<not> is_full (st_spec m)"
    using assms(2) by (cases "st_spec m") (auto simp: remove_skipped_blocks_def Let_def)
  with drop_blocks_inv assms(1) show ?thesis by blast
next
  case False
  then have "m' = m" "p' = p" using assms(2) by (cases "st_spec m"; simp add: remove_skipped_blocks_def)+
  with assms(1) show ?thesis by (intro exI[of _ "[]"]) simp
qed

lemma cache_one_Inr:
  assumes inv: "pool_inv p xs" and r: "r \<in> pool_refs (num_gpu_blocks p)" and c: "cache_one gid (r, h) (p, hs) = Inr (p', hs')"
  shows "pool_inv p' xs \<and> pool_static p' = pool_static p \<and> rc p' = rc p"
proof -
  obtain key where "bh p r = None" "make_block_hash_with_group_id h gid = Inr key"
    using c by (auto simp: cache_one_def bh_def)
  from cache_one_ok[OF inv r this, of hs] c show ?thesis by auto
qed

lemma stored_event_Inr: "stored_event p req blocks nc nf bs hs = Inr p' \<Longrightarrow> \<exists>es. p' = p\<lparr>kv_event_queue := es\<rparr>"
  by (auto simp: stored_event_def split: if_splits)

lemma cache_full_blocks_Inr:
  assumes inv: "pool_inv p xs" and bs: "\<forall>r\<in>set blocks. r \<in> pool_refs (num_gpu_blocks p)"
    and c: "cache_full_blocks p req blocks nc nf k gid = Inr p'"
  shows "pool_inv p' xs \<and> pool_static p' = pool_static p \<and> rc p' = rc p"
proof (cases "nc = nf")
  case False
  define nb where "nb = take (nf - nc) (drop nc blocks)"
  define hs where "hs = drop nc (block_hashes req)"
  obtain p1 es where p1: "for_each (\<lambda>i s. bnd (index_py hs i) (\<lambda>h. cache_one gid (nb ! i, h) s)) [0..<length nb] (p, []) = Inr (p1, es)"
    "p' = p1 \<or> stored_event p1 req blocks nc nf k es = Inr p'"
    using c False by (auto simp: cache_full_blocks_def Let_def nb_def hs_def split: if_splits)
  have sub: "nb ! i \<in> pool_refs (num_gpu_blocks p)" if "i < length nb" for i
    using bs nth_mem[OF that] by (auto simp: nb_def dest: in_set_takeD in_set_dropD)
  let ?P = "\<lambda>s. pool_inv (fst s) xs \<and> pool_static (fst s) = pool_static p \<and> rc (fst s) = rc p"
  have "?P (p1, es)"
  proof (rule for_each_inv[OF p1(1)])
    fix i s t assume i: "i \<in> set [0..<length nb]" and s: "?P s" and t: "bnd (index_py hs i) (\<lambda>h. cache_one gid (nb ! i, h) s) = Inr t"
    obtain q e q' e' where [simp]: "s = (q, e)" "t = (q', e')" by (cases s; cases t)
    from t obtain h where "cache_one gid (nb ! i, h) (q, e) = Inr (q', e')" by auto
    with cache_one_Inr[of q xs "nb ! i"] s sub[of i] i pool_staticD(1)[of q p] show "?P t" by auto
  qed (use inv in simp)
  with p1(2) show ?thesis by (auto dest!: stored_event_Inr)
qed (use c inv in \<open>simp add: cache_full_blocks_def\<close>)

lemma cache_blocks_inv:
  assumes inv: "refs_inv c p [m] xs" and full: "is_full (st_spec m)" and c: "cache_blocks r n m p = Inr (m', p')"
  shows "refs_inv c p' [m'] xs \<and> pool_static p' = pool_static p \<and> st_spec m' = st_spec m"
proof -
  let ?rid = "request_id r"
  obtain nc nf where p': "cache_full_blocks p r (blocks_of m ?rid) nc (nat nf) (nat (st_block_size m)) (kv_cache_group_id m) = Inr p'"
    and m': "m' = (read_blocks ?rid m)\<lparr>num_cached_block := AList.update ?rid (nat nf) (num_cached_block m)\<rparr>"
    using c full by (cases "st_spec m") (auto simp: cache_blocks_def)
  have "r \<in> pool_refs (num_gpu_blocks p)" if "r \<in> set (blocks_of m ?rid)" for r
    using that refs_invD(2,3)[OF inv] full blocks_of_held[of m ?rid] by (auto simp: manager_ok_def in_pool_def)
  then have q: "pool_inv p' xs" "pool_static p' = pool_static p" "rc p' = rc p"
    using cache_full_blocks_Inr[OF refs_invD(1)[OF inv] _ p'] by auto
  have "refs_inv c p' [m] xs" using inv q in_pool_static[OF q(2)] by (simp add: refs_inv_def)
  from refs_inv_read_blocks[OF this, of ?rid] q(2) m' show ?thesis by (simp add: read_blocks_def set_blocks_def)
qed

lemma save_new_computed_blocks_inv:
  assumes inv: "refs_inv (\<lambda>r. c r + count_list bs r) p [m] xs" and s: "save_new_computed_blocks rid bs m = Inr m'"
    and bs: "distinct (filter (\<lambda>r. r \<noteq> Blk 0) bs)" "is_full (st_spec m) \<longrightarrow> Blk 0 \<notin> set bs" "\<forall>r\<in>set bs. in_pool p r"
  shows "refs_inv c p [m'] xs \<and> st_spec m' = st_spec m"
proof (cases "bs = [] \<and> m' = m")
  case True
  with inv show ?thesis by simp
next
  case False
  with s have e: "blocks_of m rid = []"
    "m' = (set_blocks rid bs m)\<lparr>num_cached_block := AList.update rid (length bs) (num_cached_block m)\<rparr>"
    by (auto simp: save_new_computed_blocks_def split: kv_cache_spec.splits option.splits)
  note d = refs_invD[OF inv]
  have mo: "manager_ok m" using d(2) by simp
  have "count_list (held (set_blocks rid bs m)) r = count_list (held m) r + count_list bs r" for r
    using count_held_set_blocks[OF mo, of rid bs r] e(1) by simp
  then have "rc p r = int (c r + count_list (held (set_blocks rid bs m)) r)" if "in_pool p r" "r \<noteq> Blk 0" for r
    using d(4)[OF that] by simp
  moreover have "\<forall>r\<in>set (held (set_blocks rid bs m)). in_pool p r" using held_set_blocks[of rid bs m] d(3) bs(3) by auto
  ultimately have "refs_inv c p [set_blocks rid bs m] xs"
    using d(1) manager_ok_set_blocks[OF mo bs(1,2)] by (simp add: refs_inv_def)
  then show ?thesis by (simp add: e(2)) (simp add: set_blocks_def)
qed

definition computed_ok :: "block_pool \<Rightarrow> st_manager list \<Rightarrow> block_ref list list \<Rightarrow> bool" where
  "computed_ok p ms computed \<longleftrightarrow> list_all2 (\<lambda>m bs. distinct (filter (\<lambda>r. r \<noteq> Blk 0) bs)
     \<and> (is_full (st_spec m) \<longrightarrow> Blk 0 \<notin> set bs) \<and> (\<forall>r\<in>set bs. in_pool p r)) ms computed"

lemma computed_ok_specs: "computed_ok p ms computed \<longleftrightarrow> list_all2 (\<lambda>s bs. distinct (filter (\<lambda>r. r \<noteq> Blk 0) bs)
     \<and> (is_full s \<longrightarrow> Blk 0 \<notin> set bs) \<and> (\<forall>r\<in>set bs. in_pool p r)) (map st_spec ms) computed"
  by (simp add: computed_ok_def list_all2_map1)

lemma computed_ok_cong:
  "map st_spec ms' = map st_spec ms \<Longrightarrow> in_pool p' = in_pool p \<Longrightarrow> computed_ok p' ms' bss = computed_ok p ms bss"
  by (simp only: computed_ok_specs)

lemma save_all_inv:
  assumes "refs_inv (\<lambda>r. c r + count_list (concat (drop i computed)) r) p ms xs" "save_all rid computed i ms = Inr ms'"
    and "computed_ok p ms (drop i computed)"
  shows "refs_inv c p ms' xs \<and> map st_spec ms' = map st_spec ms"
  using assms
proof (induction ms arbitrary: c i ms')
  case Nil
  then show ?case by (simp add: computed_ok_def)
next
  case (Cons m ms)
  have "drop i computed \<noteq> []" using Cons.prems(3) by (auto simp: computed_ok_def)
  then have "i < length computed" by simp
  then obtain bs where bs: "drop i computed = bs # drop (Suc i) computed" "i < length computed" "computed ! i = bs"
    using Cons_nth_drop_Suc by metis
  obtain m1 ms1 where m1: "save_new_computed_blocks rid bs m = Inr m1" "save_all rid computed (Suc i) ms = Inr ms1" "ms' = m1 # ms1"
    using Cons.prems(2) bs by (auto simp: index_py_def)
  have ok: "distinct (filter (\<lambda>r. r \<noteq> Blk 0) bs)" "is_full (st_spec m) \<longrightarrow> Blk 0 \<notin> set bs" "\<forall>r\<in>set bs. in_pool p r"
    "computed_ok p ms (drop (Suc i) computed)"
    using Cons.prems(3) by (simp_all add: bs(1) computed_ok_def)
  let ?k = "count_list (concat (drop (Suc i) computed))"
  have "refs_inv (\<lambda>r. (c r + ?k r + count_list (all_held ms) r) + count_list bs r) p [m] xs"
    and ms: "refs_inv (\<lambda>r. c r + count_list (concat (drop i computed)) r + count_list (held m) r) p ms xs"
    using Cons.prems(1) unfolding bs(1) refs_inv_Cons[of _ p m ms] by (simp_all add: add_ac)
  from save_new_computed_blocks_inv[OF this(1) m1(1) ok(1-3)]
  have s: "refs_inv (\<lambda>r. c r + ?k r + count_list (all_held ms) r) p [m1] xs" "st_spec m1 = st_spec m" by auto
  have "refs_inv (\<lambda>r. (c r + count_list (held m1) r) + ?k r) p ms xs"
    using s(1) ms by (auto simp: refs_inv_def add_ac)
  from Cons.IH[OF this m1(2) ok(4)] have i: "refs_inv (\<lambda>r. c r + count_list (held m1) r) p ms1 xs" "map st_spec ms1 = map st_spec ms" by auto
  have "refs_inv (\<lambda>r. c r + count_list (all_held ms1) r) p [m1] xs"
    using s(1) i(1) by (auto simp: refs_inv_def add_ac)
  with i(1) have "refs_inv c p (m1 # ms1) xs" using refs_inv_Cons[of c p m1 ms1 xs] by blast
  with i(2) s(2) m1(3) show ?case by simp
qed

section \<open>Loops over the managers\<close>

text \<open>A step on one manager that keeps the invariant whatever the others hold; \<open>post\<close> relates its
  result, the old and the new manager.\<close>

locale pool_step =
  fixes f :: "st_manager \<Rightarrow> block_pool \<Rightarrow> ('a \<times> st_manager \<times> block_pool) result"
    and ok :: "st_manager \<Rightarrow> bool"
    and post :: "'a \<Rightarrow> st_manager \<Rightarrow> st_manager \<Rightarrow> bool"
  assumes step: "ok m \<Longrightarrow> refs_inv c p [m] xs \<Longrightarrow> f m p = Inr (a, m', p') \<Longrightarrow>
      \<exists>ys. refs_inv c p' [m'] ys \<and> pool_static p' = pool_static p \<and> st_spec m' = st_spec m \<and> post a m m'"
begin

lemma thread_inv:
  assumes "thread f ms p = Inr (as, ms', p')" "\<forall>m\<in>set ms. ok m" "refs_inv c p ms xs"
  shows "\<exists>ys. refs_inv c p' ms' ys \<and> pool_static p' = pool_static p \<and> map st_spec ms' = map st_spec ms
    \<and> length as = length ms \<and> list_all2 (\<lambda>am m'. post (fst am) (snd am) m') (zip as ms) ms'"
  using assms
proof (induction ms arbitrary: p as ms' c xs)
  case (Cons m ms)
  obtain a m1 p1 as1 ms1 where t: "f m p = Inr (a, m1, p1)" "thread f ms p1 = Inr (as1, ms1, p')" "ms' = m1 # ms1" "as = a # as1"
    using Cons.prems(1) by auto
  have "refs_inv (\<lambda>r. c r + count_list (all_held ms) r) p [m] xs"
    using Cons.prems(3) unfolding refs_inv_Cons[of c p m ms] by blast
  from step[OF _ this t(1)] Cons.prems(2) obtain ys where
    m1: "refs_inv (\<lambda>r. c r + count_list (all_held ms) r) p1 [m1] ys" "pool_static p1 = pool_static p" "st_spec m1 = st_spec m"
    "post a m m1" by auto
  from Cons.IH[OF t(2) _ refs_inv_step(2)[OF Cons.prems(3) m1(1,2)]] Cons.prems(2) obtain zs where
    ms1: "refs_inv (\<lambda>r. c r + count_list (held m1) r) p' ms1 zs" "pool_static p' = pool_static p1" "map st_spec ms1 = map st_spec ms"
    "length as1 = length ms" "list_all2 (\<lambda>am m'. post (fst am) (snd am) m') (zip as1 ms) ms1" by auto
  have "rc p' r = int (c r + count_list (all_held (m1 # ms1)) r)" if "in_pool p' r" "r \<noteq> Blk 0" for r
    using refs_invD(4)[OF ms1(1) that] by simp
  moreover have "manager_ok m1" "\<forall>r\<in>set (held m1). in_pool p' r"
    using refs_invD(2,3)[OF m1(1)] in_pool_static[OF ms1(2)] by auto
  ultimately have "refs_inv c p' (m1 # ms1) zs"
    using refs_invD(1-3)[OF ms1(1)] by (auto simp: refs_inv_def)
  then show ?case using t(3,4) m1(2-4) ms1(2-5) by auto
qed auto

end

text \<open>A step that never raises.\<close>

locale total_step = pool_step +
  assumes total: "ok m \<Longrightarrow> refs_inv c p [m] xs \<Longrightarrow> \<exists>a m' p'. f m p = Inr (a, m', p')"
begin

lemma thread_total:
  assumes "\<forall>m\<in>set ms. ok m" "refs_inv c p ms xs"
  shows "\<exists>as ms' p'. thread f ms p = Inr (as, ms', p')"
  using assms
proof (induction ms arbitrary: p c xs)
  case (Cons m ms)
  have 1: "refs_inv (\<lambda>r. c r + count_list (all_held ms) r) p [m] xs"
    using Cons.prems(2) unfolding refs_inv_Cons[of c p m ms] by blast
  then obtain a m1 p1 where m1: "f m p = Inr (a, m1, p1)" using total Cons.prems(1) by fastforce
  from step[OF _ 1 m1] Cons.prems(1) obtain ys where
    "refs_inv (\<lambda>r. c r + count_list (all_held ms) r) p1 [m1] ys" "pool_static p1 = pool_static p" by auto
  from Cons.IH[OF _ refs_inv_step(2)[OF Cons.prems(2) this]] Cons.prems(1) m1 show ?case by auto
qed simp

end

definition as_step :: "(st_manager \<Rightarrow> block_pool \<Rightarrow> (st_manager \<times> block_pool) result) \<Rightarrow> st_manager \<Rightarrow> block_pool
    \<Rightarrow> (unit \<times> st_manager \<times> block_pool) result" where
  "as_step f m p = bnd (f m p) (\<lambda>(m', p'). Inr ((), m', p'))"

lemma remove_skipped_spec: "remove_skipped_blocks rid k m p = Inr (m', p') \<Longrightarrow> st_spec m' = st_spec m"
  by (auto simp: remove_skipped_blocks_def drop_blocks_def set_blocks_def Let_def split: kv_cache_spec.splits)

interpretation freeing: total_step "as_step (free_request rid)" "\<lambda>_. True"
  "\<lambda>_ m m'. blocks_of m' rid = [] \<and> (\<forall>rid'. rid' \<noteq> rid \<longrightarrow> blocks_of m' rid' = blocks_of m rid')" for rid
proof
  fix m c p xs assume inv: "refs_inv c p [m] xs"
  show "\<exists>a m' p'. as_step (free_request rid) m p = Inr (a, m', p')"
    using free_request_ok[OF inv, of rid] by (auto simp: as_step_def)
  fix a m' p' assume "as_step (free_request rid) m p = Inr (a, m', p')"
  with free_request_ok[OF inv, of rid]
  show "\<exists>ys. refs_inv c p' [m'] ys \<and> pool_static p' = pool_static p \<and> st_spec m' = st_spec m
    \<and> blocks_of m' rid = [] \<and> (\<forall>rid'. rid' \<noteq> rid \<longrightarrow> blocks_of m' rid' = blocks_of m rid')"
    by (auto simp: as_step_def)
qed

interpretation skipping: pool_step "as_step (remove_skipped_blocks rid k)" "\<lambda>_. True" "\<lambda>_ _ _. True" for rid k
proof
  fix m c p xs a m' p' assume a: "refs_inv c p [m] xs" "as_step (remove_skipped_blocks rid k) m p = Inr (a, m', p')"
  then have "remove_skipped_blocks rid k m p = Inr (m', p')" by (auto simp: as_step_def)
  with remove_skipped_blocks_inv[OF a(1)] remove_skipped_spec
  show "\<exists>ys. refs_inv c p' [m'] ys \<and> pool_static p' = pool_static p \<and> st_spec m' = st_spec m \<and> True" by blast
qed

interpretation caching: pool_step "as_step (cache_blocks r n)" "\<lambda>m. is_full (st_spec m)" "\<lambda>_ _ _. True" for r n
proof
  fix m c p xs a m' p' assume a: "is_full (st_spec m)" "refs_inv c p [m] xs" "as_step (cache_blocks r n) m p = Inr (a, m', p')"
  then have "cache_blocks r n m p = Inr (m', p')" by (auto simp: as_step_def)
  with cache_blocks_inv[OF a(2,1)]
  show "\<exists>ys. refs_inv c p' [m'] ys \<and> pool_static p' = pool_static p \<and> st_spec m' = st_spec m \<and> True" by blast
qed

interpretation allocating: pool_step "\<lambda>m p. allocate_new_blocks rid (if is_cross_manager m then enc else n) m p" "\<lambda>_. True"
  "\<lambda>new m m'. blocks_of m' rid = blocks_of m rid @ new \<and> (\<forall>rid'. rid' \<noteq> rid \<longrightarrow> blocks_of m' rid' = blocks_of m rid')"
  for rid enc n
proof
  fix m c p xs a m' p' assume a: "refs_inv c p [m] xs"
    "allocate_new_blocks rid (if is_cross_manager m then enc else n) m p = Inr (a, m', p')"
  then have "st_block_size m \<noteq> 0" by (auto simp: allocate_new_blocks_def cdiv_py_def split: if_splits)
  from allocate_new_blocks_ok[OF a(1) this, of "if is_cross_manager m then enc else n" rid] a(2)
  show "\<exists>ys. refs_inv c p' [m'] ys \<and> pool_static p' = pool_static p \<and> st_spec m' = st_spec m
    \<and> blocks_of m' rid = blocks_of m rid @ a \<and> (\<forall>rid'. rid' \<noteq> rid \<longrightarrow> blocks_of m' rid' = blocks_of m rid')"
    by (auto split: if_split_asm)
qed

lemma on_managers_thread: "on_managers f co = bnd (thread (as_step f) (single_type_managers co) (co_pool co)) (\<lambda>(_, ms, p).
    Inr (co\<lparr>single_type_managers := ms, co_pool := p\<rparr>))"
  by (simp add: on_managers_def as_step_def[abs_def])

section \<open>The whole KV cache\<close>

definition kv_inv :: "kv_cache_manager \<Rightarrow> bool" where
  "kv_inv km \<longleftrightarrow> (\<exists>xs. refs_inv (\<lambda>_. 0) (co_pool (coordinator km)) (single_type_managers (coordinator km)) xs)
     \<and> length (kv_cache_groups (co_config (coordinator km))) = length (single_type_managers (coordinator km))"

text \<open>A small system for the witnesses: block size 1, prefix caching off, three blocks.\<close>

definition demo_manager :: "kv_cache_spec \<Rightarrow> int \<Rightarrow> block_ref list \<Rightarrow> st_manager" where
  "demo_manager spec gid bs = \<lparr>st_spec = spec, st_block_size = 1, st_dcp_world_size = 1,
     req_to_blocks = [(request_id demo_req, bs)], num_cached_block = [(request_id demo_req, 0)], kv_cache_group_id = gid,
     st_null_block = Blk 0\<rparr>"

definition demo_km :: "block_pool \<Rightarrow> st_manager list \<Rightarrow> kv_cache_manager" where
  "demo_km p ms = \<lparr>km_max_model_len = 100, km_enable_caching = False, log_stats = False, prefix_stats = None,
     km_block_size = None, coordinator = \<lparr>co_config = \<lparr>cfg_num_blocks = 4, kv_cache_tensors = [],
       kv_cache_groups = map (\<lambda>m. \<lparr>layer_names = [], group_spec = st_spec m\<rparr>) ms\<rparr>, co_max_model_len = 100,
       co_enable_caching = False, co_pool = p, co_use_eagle = False, single_type_managers = ms, co_kind = No_Prefix_Cache\<rparr>,
     num_kv_cache_groups = length ms\<rparr>"

definition demo_attention :: attention_spec where
  "demo_attention = \<lparr>a_block_size = 1, num_kv_heads = 1, head_size = 1, a_dtype = ''half'', use_mla = False\<rparr>"

abbreviation demo_full :: "block_ref list \<Rightarrow> st_manager" where
  "demo_full bs \<equiv> demo_manager (FullAttentionSpec demo_attention None None) 0 bs"

abbreviation demo_cross :: "block_ref list \<Rightarrow> st_manager" where
  "demo_cross bs \<equiv> demo_manager (CrossAttentionSpec demo_attention) 1 bs"

lemma demo_manager_simps [simp]:
  "st_spec (demo_manager s g bs) = s" "st_block_size (demo_manager s g bs) = 1" "held (demo_manager s g bs) = bs"
  "blocks_of (demo_manager s g bs) (request_id demo_req) = bs" "num_cached_block (demo_manager s g bs) = [(request_id demo_req, 0)]"
  by (simp_all add: demo_manager_def held_def blocks_of_def)

lemma demo_km_simps [simp]:
  "single_type_managers (coordinator (demo_km p ms)) = ms" "co_pool (coordinator (demo_km p ms)) = p"
  "km_enable_caching (demo_km p ms) = False" "km_max_model_len (demo_km p ms) = 100"
  by (simp_all add: demo_km_def)

lemma demo_pool: "\<exists>p. pool_inv p [] \<and> num_gpu_blocks p = 4 \<and> (\<forall>r\<in>pool_refs 4. rc p r = 1)"
proof -
  obtain p where p: "pool_inv p []" "pool_static p = pool_static pool4"
    "\<forall>r. rc p r = rc pool4 r + (if r \<in> set [Blk 1, Blk 2, Blk 3] then 1 else 0)"
    using get_new_blocks_ok[OF pool4(2), of 3] by auto
  have "pool_refs 4 = {Blk 1, Blk 2, Blk 3}" by (auto simp: pool_refs_def image_iff)
  with p pool4(3,4) pool_staticD(1)[OF p(2)] show ?thesis by (intro exI[of _ p]) auto
qed

lemma demo_kv_inv:
  assumes "pool_inv p []" "num_gpu_blocks p = 4" "\<forall>r\<in>pool_refs 4. rc p r = 1"
    and ms: "all_held ms = [Blk 1, Blk 2, Blk 3]" "\<forall>m\<in>set ms. manager_ok m"
  shows "kv_inv (demo_km p ms)"
proof -
  have pr: "pool_refs 4 = {Blk 1, Blk 2, Blk 3}" by (auto simp: pool_refs_def image_iff)
  have "refs_inv (\<lambda>_. 0) p ms []"
    unfolding refs_inv_def ms(1)
  proof (intro conjI allI impI)
    show "\<forall>r\<in>set [Blk 1, Blk 2, Blk 3]. in_pool p r" using assms(2) by (simp add: in_pool_def)
    fix r assume "in_pool p r \<and> r \<noteq> Blk 0"
    then have "r \<in> pool_refs 4" using assms(2) by (auto simp: in_pool_def)
    then show "rc p r = int (0 + count_list [Blk 1, Blk 2, Blk 3] r)" using assms(3) unfolding pr by auto
  qed (use assms(1) ms(2) in auto)
  then show ?thesis unfolding kv_inv_def demo_km_simps by (intro conjI exI[of _ "[]"]) (simp_all add: demo_km_def)
qed

lemma demo_km_inv:
  assumes "pool_inv p []" "num_gpu_blocks p = 4" "\<forall>r\<in>pool_refs 4. rc p r = 1"
  shows "kv_inv (demo_km p [demo_full [Blk 1], demo_cross [Blk 2, Blk 3]])" "kv_inv (demo_km p [demo_full [Blk 1, Blk 2, Blk 3]])"
proof -
  have m: "manager_ok (demo_full [Blk 1])" "manager_ok (demo_cross [Blk 2, Blk 3])" "manager_ok (demo_full [Blk 1, Blk 2, Blk 3])"
    by (simp_all add: manager_ok_def) (simp_all add: demo_manager_def)
  show "kv_inv (demo_km p [demo_full [Blk 1], demo_cross [Blk 2, Blk 3]])" using m by (intro demo_kv_inv[OF assms]) simp_all
  show "kv_inv (demo_km p [demo_full [Blk 1, Blk 2, Blk 3]])" using m by (intro demo_kv_inv[OF assms]) simp_all
qed

lemma km_free_ok:
  assumes "kv_inv km"
  shows "\<exists>km'. km_free r km = Inr km' \<and> kv_inv km' \<and> list_all (\<lambda>bs. bs = []) (km_get_blocks (request_id r) km')
    \<and> (\<forall>rid. rid \<noteq> request_id r \<longrightarrow> km_get_blocks rid km' = km_get_blocks rid km)"
proof -
  let ?co = "coordinator km" and ?rid = "request_id r"
  obtain xs where xs: "refs_inv (\<lambda>_. 0) (co_pool ?co) (single_type_managers ?co) xs" using assms by (auto simp: kv_inv_def)
  obtain as ms p where t: "thread (as_step (free_request ?rid)) (single_type_managers ?co) (co_pool ?co) = Inr (as, ms, p)"
    using freeing.thread_total[OF _ xs, of ?rid] by auto
  from freeing.thread_inv[OF t _ xs] obtain ys where ys: "refs_inv (\<lambda>_. 0) p ms ys" "length as = length (single_type_managers ?co)"
    "list_all2 (\<lambda>am m'. blocks_of m' ?rid = [] \<and> (\<forall>rid'. rid' \<noteq> ?rid \<longrightarrow> blocks_of m' rid' = blocks_of (snd am) rid'))
       (zip as (single_type_managers ?co)) ms" by auto
  have len: "length ms = length (single_type_managers ?co)" using ys(2) list_all2_lengthD[OF ys(3)] by simp
  let ?km = "km\<lparr>coordinator := ?co\<lparr>single_type_managers := ms, co_pool := p\<rparr>\<rparr>"
  have "km_free r km = Inr ?km" using t by (simp add: km_free_def co_free_def on_managers_thread)
  moreover have "kv_inv ?km" using ys(1) len assms by (auto simp: kv_inv_def)
  moreover have "list_all (\<lambda>bs. bs = []) (km_get_blocks ?rid ?km)"
    using ys(2,3) len by (auto simp: km_get_blocks_def co_get_blocks_def list_all_length list_all2_conv_all_nth)
  moreover have "km_get_blocks rid ?km = km_get_blocks rid km" if "rid \<noteq> ?rid" for rid
    unfolding km_get_blocks_def co_get_blocks_def
    by (rule nth_equalityI) (use ys(2,3) len that in \<open>simp_all add: list_all2_conv_all_nth\<close>)
  ultimately show ?thesis by blast
qed

text \<open>C3: Freeing a request never raises, takes all its blocks from it in every group and nothing from
  any other request, and keeps every reference count equal to the number of holders.\<close>

theorem km_free_correct:
  assumes "kv_inv km"
  shows "\<exists>km'. km_free r km = Inr km' \<and> kv_inv km' \<and> list_all (\<lambda>bs. bs = []) (km_get_blocks (request_id r) km')
    \<and> (\<forall>rid. rid \<noteq> request_id r \<longrightarrow> km_get_blocks rid km' = km_get_blocks rid km)"
  by (rule km_free_ok[OF assms])

theorem km_free_correct_witness:
  "\<exists>km km'. kv_inv km \<and> km_get_blocks (request_id demo_req) km = [[Blk 1, Blk 2, Blk 3]]
     \<and> km_free demo_req km = Inr km' \<and> kv_inv km' \<and> list_all (\<lambda>bs. bs = []) (km_get_blocks (request_id demo_req) km')"
proof -
  obtain p where "pool_inv p []" "num_gpu_blocks p = 4" "\<forall>r\<in>pool_refs 4. rc p r = 1" using demo_pool by blast
  note k = demo_km_inv(2)[OF this]
  obtain km' where "km_free demo_req (demo_km p [demo_full [Blk 1, Blk 2, Blk 3]]) = Inr km'" "kv_inv km'"
    "list_all (\<lambda>bs. bs = []) (km_get_blocks (request_id demo_req) km')"
    using km_free_correct[OF k, of demo_req] by blast
  moreover have "km_get_blocks (request_id demo_req) (demo_km p [demo_full [Blk 1, Blk 2, Blk 3]]) = [[Blk 1, Blk 2, Blk 3]]"
    by (simp add: km_get_blocks_def co_get_blocks_def)
  ultimately show ?thesis using k by blast
qed

lemma sum_blocks_managers:
  "sum_blocks_to_allocate p rid n enc computed i ms = Inr (k, ms') \<Longrightarrow> ms' = map (read_blocks rid) ms"
  by (induction ms arbitrary: i k ms') (auto simp: get_num_blocks_to_allocate_def split: if_splits)

lemma read_blocks_simps [simp]: "st_spec (read_blocks rid m) = st_spec m" "blocks_of (read_blocks rid m) rid' = blocks_of m rid'"
  "st_block_size (read_blocks rid m) = st_block_size m" "num_cached_block (read_blocks rid m) = num_cached_block m"
  by (simp_all add: read_blocks_def) (simp_all add: set_blocks_def)

lemma refs_inv_read_all:
  "refs_inv c p ms xs \<Longrightarrow> refs_inv c p (map (read_blocks rid) ms) xs"
proof (induction ms arbitrary: c)
  case (Cons m ms)
  have 1: "refs_inv (\<lambda>r. c r + count_list (all_held ms) r) p [m] xs" "refs_inv (\<lambda>r. c r + count_list (held m) r) p ms xs"
    using Cons.prems unfolding refs_inv_Cons[of c p m ms] by blast+
  have e: "count_list (held (read_blocks rid m)) r = count_list (held m) r" for r
    using count_held_set_blocks[of m rid "blocks_of m rid" r] Cons.prems by (simp add: refs_inv_def read_blocks_def)
  have m1: "refs_inv (\<lambda>r. c r + count_list (all_held ms) r) p [read_blocks rid m] xs"
    by (rule refs_inv_read_blocks[OF 1(1)])
  have ms1: "refs_inv (\<lambda>r. c r + count_list (held (read_blocks rid m)) r) p (map (read_blocks rid) ms) xs"
    using Cons.IH[OF 1(2)] by (simp add: e)
  have "rc p r = int (c r + count_list (all_held (map (read_blocks rid) (m # ms))) r)" if "in_pool p r" "r \<noteq> Blk 0" for r
    using refs_invD(4)[OF ms1 that] by simp
  then show ?case using refs_invD(1-3)[OF m1] refs_invD(2,3)[OF ms1] by (auto simp: refs_inv_def)
qed simp

lemma co_allocate_inv:
  assumes "refs_inv c (co_pool co) (single_type_managers co) xs" "co_allocate_new_blocks rid n enc co = Inr (new, co')"
  shows "\<exists>ys. refs_inv c (co_pool co') (single_type_managers co') ys \<and> co_config co' = co_config co
    \<and> map st_spec (single_type_managers co') = map st_spec (single_type_managers co)
    \<and> length new = length (single_type_managers co)
    \<and> list_all2 (\<lambda>am m'. blocks_of m' rid = blocks_of (snd am) rid @ fst am) (zip new (single_type_managers co)) (single_type_managers co')"
proof -
  obtain ms p where t: "thread (\<lambda>m p. allocate_new_blocks rid (if is_cross_manager m then enc else n) m p)
      (single_type_managers co) (co_pool co) = Inr (new, ms, p)" "co' = co\<lparr>single_type_managers := ms, co_pool := p\<rparr>"
    using assms(2) by (auto simp: co_allocate_new_blocks_def)
  from allocating.thread_inv[OF t(1) _ assms(1)] show ?thesis
    by (fastforce simp: t(2) elim: list_all2_mono)
qed

lemma on_managers_inv:
  assumes "on_managers f co = Inr co'" "refs_inv c (co_pool co) (single_type_managers co) xs"
    and step: "\<And>as ms' p'. thread (as_step f) (single_type_managers co) (co_pool co) = Inr (as, ms', p') \<Longrightarrow>
      \<exists>ys. refs_inv c p' ms' ys \<and> pool_static p' = pool_static (co_pool co) \<and> map st_spec ms' = map st_spec (single_type_managers co)"
  shows "\<exists>ys. refs_inv c (co_pool co') (single_type_managers co') ys \<and> co_config co' = co_config co
    \<and> pool_static (co_pool co') = pool_static (co_pool co)
    \<and> map st_spec (single_type_managers co') = map st_spec (single_type_managers co)"
  using assms(1) unfolding on_managers_thread by (fastforce dest: step)

lemma commit_slots_inv:
  assumes inv: "refs_inv (\<lambda>_. 0) (co_pool co) (single_type_managers co) xs"
    and ok: "computed_ok (co_pool co) (single_type_managers co) computed"
    and full: "km_enable_caching km \<longrightarrow> (\<forall>m\<in>set (single_type_managers co). is_full (st_spec m))"
    and c: "commit_slots r nc nn need computed delay enc km co = Inr (res, co')"
  shows "\<exists>ys. refs_inv (\<lambda>_. 0) (co_pool co') (single_type_managers co') ys \<and> co_config co' = co_config co
    \<and> length (single_type_managers co') = length (single_type_managers co)"
proof -
  obtain p co1 co2 new where p: "(if km_enable_caching km then touch (co_pool co) computed
        else check (list_all (\<lambda>c. c = []) computed) AssertionError (Inr (co_pool co))) = Inr p"
    and s: "co_save_new_computed_blocks (request_id r) computed (co\<lparr>co_pool := p\<rparr>) = Inr co1"
    and a: "co_allocate_new_blocks (request_id r) need enc co1 = Inr (new, co2)"
    and f: "co' = co2 \<or> km_enable_caching km \<and> co_cache_blocks r (min (nc + nn) (num_tokens r)) co2 = Inr co'"
    using c by (auto simp: commit_slots_def split: if_splits)
  have ip: "\<forall>r\<in>set (concat computed). in_pool (co_pool co) r"
    using ok by (fastforce simp: computed_ok_def list_all2_conv_all_nth in_set_conv_nth)
  have "\<exists>ys. refs_inv (\<lambda>r. 0 + count_list (concat computed) r) p (single_type_managers co) ys \<and> in_pool p = in_pool (co_pool co)"
  proof (cases "km_enable_caching km")
    case True
    with p obtain ys where q: "pool_inv p ys" "pool_static p = pool_static (co_pool co)"
      "\<forall>r. rc p r = rc (co_pool co) r + int (count_list (concat computed) r)"
      using touch_ok[OF refs_invD(1)[OF inv] ip] by auto
    have "refs_inv (\<lambda>r. 0 + count_list (concat computed) r) p (single_type_managers co) ys"
      using inv q in_pool_static[OF q(2)] by (auto simp: refs_inv_def)
    with in_pool_static[OF q(2)] show ?thesis by blast
  next
    case False
    with p have q: "p = co_pool co" "\<forall>c\<in>set computed. c = []" by (auto simp: list_all_iff check_def split: if_splits)
    then have "concat computed = []" by (simp add: concat_eq_Nil_conv)
    then have "(\<lambda>r. 0 + count_list (concat computed) r) = (\<lambda>_. 0)" by (simp only: count_list.simps) simp
    with q(1) inv show ?thesis by metis
  qed
  then obtain ys where ys: "refs_inv (\<lambda>r. 0 + count_list (concat (drop 0 computed)) r) p (single_type_managers co) ys"
    "in_pool p = in_pool (co_pool co)" by auto
  obtain ms1 where ms1: "save_all (request_id r) computed 0 (single_type_managers co) = Inr ms1"
    "co1 = co\<lparr>co_pool := p, single_type_managers := ms1\<rparr>"
    using s by (auto simp: co_save_new_computed_blocks_def)
  have "computed_ok p (single_type_managers co) (drop 0 computed)" using ok ys(2) by (simp add: computed_ok_def)
  from save_all_inv[OF ys(1) ms1(1) this] have i1: "refs_inv (\<lambda>_. 0) (co_pool co1) (single_type_managers co1) ys"
    "map st_spec (single_type_managers co1) = map st_spec (single_type_managers co)" by (simp_all add: ms1(2))
  from co_allocate_inv[OF i1(1) a] i1(2) ms1(2) obtain zs where
    i2: "refs_inv (\<lambda>_. 0) (co_pool co2) (single_type_managers co2) zs" "co_config co2 = co_config co"
    "map st_spec (single_type_managers co2) = map st_spec (single_type_managers co)" by auto
  from f show ?thesis
  proof
    assume "co' = co2"
    with i2 show ?thesis by (metis length_map)
  next
    assume c: "km_enable_caching km \<and> co_cache_blocks r (min (nc + nn) (num_tokens r)) co2 = Inr co'"
    have "\<forall>s\<in>set (map st_spec (single_type_managers co2)). is_full s" unfolding i2(3) using full c by auto
    then have "\<forall>m\<in>set (single_type_managers co2). is_full (st_spec m)" by simp
    then show ?thesis
      using on_managers_inv[OF _ i2(1), of "cache_blocks r (min (nc + nn) (num_tokens r))" co'] c
        caching.thread_inv[OF _ _ i2(1)] i2(2,3) unfolding co_cache_blocks_def
      by (metis (no_types, lifting) length_map)
  qed
qed

lemma allocate_slots_inv:
  assumes inv: "kv_inv km"
    and ok: "\<forall>bss. computed = Some bss \<longrightarrow> computed_ok (co_pool (coordinator km)) (single_type_managers (coordinator km)) bss"
    and full: "km_enable_caching km \<longrightarrow> (\<forall>m\<in>set (single_type_managers (coordinator km)). is_full (st_spec m))"
    and a: "allocate_slots r nn nc computed lookahead delay enc km = Inr (res, km')"
  shows "kv_inv km'"
proof -
  let ?co = "coordinator km"
  obtain xs where xs: "refs_inv (\<lambda>_. 0) (co_pool ?co) (single_type_managers ?co) xs"
    and len: "length (kv_cache_groups (co_config ?co)) = length (single_type_managers ?co)"
    using inv by (auto simp: kv_inv_def)
  define bss where "bss = (case computed of Some bs \<Rightarrow> bs | None \<Rightarrow> map (\<lambda>_. []) (kv_cache_groups (co_config ?co)))"
  have ok': "computed_ok (co_pool ?co) (single_type_managers ?co) bss"
    using ok len by (cases computed) (auto simp: bss_def computed_ok_def list_all2_conv_all_nth)
  obtain co0 k co1 need where co0: "co_remove_skipped_blocks (request_id r) (num_computed_tokens r) ?co = Inr co0"
    and co1: "co_get_num_blocks_to_allocate (request_id r) need bss enc co0 = Inr (k, co1)"
    and res: "km' = km\<lparr>coordinator := co1\<rparr> \<or>
      (\<exists>co2. commit_slots r (num_computed_tokens r + nc) nn need bss delay enc km co1 = Inr (res, co2) \<and> km' = km\<lparr>coordinator := co2\<rparr>)"
    using a by (auto simp: allocate_slots_def Let_def bss_def split: if_splits)
  obtain ys where ys: "refs_inv (\<lambda>_. 0) (co_pool co0) (single_type_managers co0) ys" "co_config co0 = co_config ?co"
    "pool_static (co_pool co0) = pool_static (co_pool ?co)" "map st_spec (single_type_managers co0) = map st_spec (single_type_managers ?co)"
    using on_managers_inv[OF co0[unfolded co_remove_skipped_blocks_def] xs] skipping.thread_inv[OF _ _ xs] by blast
  have ms1: "co1 = co0\<lparr>single_type_managers := map (read_blocks (request_id r)) (single_type_managers co0)\<rparr>"
    using co1 by (auto simp: co_get_num_blocks_to_allocate_def dest: sum_blocks_managers)
  have i1: "refs_inv (\<lambda>_. 0) (co_pool co1) (single_type_managers co1) ys"
    using refs_inv_read_all[OF ys(1)] by (simp add: ms1)
  have sp: "map st_spec (single_type_managers co1) = map st_spec (single_type_managers ?co)"
    using ys(4) by (simp add: ms1 comp_def)
  then have len1: "length (single_type_managers co1) = length (single_type_managers ?co)" by (metis length_map)
  have "computed_ok (co_pool co1) (single_type_managers co1) bss"
    using ok' computed_ok_cong[OF sp, of "co_pool co1" "co_pool ?co" bss] in_pool_static[OF ys(3)] by (simp add: ms1)
  moreover have "km_enable_caching km \<longrightarrow> (\<forall>m\<in>set (single_type_managers co1). is_full (st_spec m))"
    using full sp by (metis (no_types, lifting) in_set_conv_nth length_map nth_map)
  ultimately have "\<exists>zs. refs_inv (\<lambda>_. 0) (co_pool co2) (single_type_managers co2) zs \<and> co_config co2 = co_config co1
      \<and> length (single_type_managers co2) = length (single_type_managers co1)"
    if "commit_slots r (num_computed_tokens r + nc) nn need bss delay enc km co1 = Inr (res, co2)" for co2
    using commit_slots_inv[OF i1 _ _ that] by blast
  note commit = this
  have cfg: "co_config co1 = co_config ?co" by (simp add: ms1 ys(2))
  have "kv_inv (km\<lparr>coordinator := co2\<rparr>)"
    if "refs_inv (\<lambda>_. 0) (co_pool co2) (single_type_managers co2) zs" "co_config co2 = co_config co1"
      "length (single_type_managers co2) = length (single_type_managers co1)" for co2 zs
    unfolding kv_inv_def using that len len1 cfg by (intro conjI exI[of _ zs]) simp_all
  with res i1 commit show ?thesis by blast
qed

text \<open>C2: Allocating slots keeps the ownership invariant, whether it succeeds or finds too few free
  blocks: every block's reference count stays the number of times the requests hold it, over all
  groups, and exactly the unreferenced blocks are free. With prefix caching this is shown for
  full-attention groups.\<close>

theorem allocate_slots_invariant:
  assumes inv: "kv_inv km"
    and ok: "\<forall>bss. computed = Some bss \<longrightarrow> computed_ok (co_pool (coordinator km)) (single_type_managers (coordinator km)) bss"
    and full: "km_enable_caching km \<longrightarrow> (\<forall>m\<in>set (single_type_managers (coordinator km)). is_full (st_spec m))"
    and a: "allocate_slots r nn nc computed lookahead delay enc km = Inr (res, km')"
  shows "kv_inv km'"
  by (rule allocate_slots_inv[OF assms])

text \<open>C39: Running short of memory is not always reported as such. For an encoder-decoder model, whose
  second group is cross attention, a running request (no new encoder tokens) makes the count of
  blocks to allocate negative for the cross-attention group, since its blocks are subtracted; the
  sum then stays within the free blocks although the decoder group alone needs more than are free,
  and instead of returning nothing, so that the scheduler can preempt, \<^verbatim>\<open>allocate_slots\<close> raises
  \<^verbatim>\<open>ValueError\<close>.\<close>

theorem cross_attention_allocation_raises:
  assumes inv: "kv_inv km" and ms: "single_type_managers (coordinator km) = [m0, m1]"
    and kind: "is_full (st_spec m0)" "is_cross (st_spec m1)" "st_block_size m0 > 0" "st_block_size m1 > 0"
    and nocache: "\<not> km_enable_caching km" and running: "map_of (num_cached_block m0) (request_id r) \<noteq> None" and new: "nn \<noteq> 0"
    and need: "need = cdiv (min (num_computed_tokens r + nn + lookahead) (km_max_model_len km)) (st_block_size m0)
                 - int (length (blocks_of m0 (request_id r)))"
    and short: "need > get_num_free_blocks (co_pool (coordinator km))"
      "need \<le> get_num_free_blocks (co_pool (coordinator km)) + int (length (blocks_of m1 (request_id r)))"
  shows "allocate_slots r nn 0 None lookahead False 0 km = Inl ValueError"
proof -
  let ?co = "coordinator km" and ?rid = "request_id r" and ?p = "co_pool (coordinator km)"
  let ?n = "min (num_computed_tokens r + nn + lookahead) (km_max_model_len km)"
  obtain xs where xs: "refs_inv (\<lambda>_. 0) ?p [m0, m1] xs" and len: "length (kv_cache_groups (co_config ?co)) = 2"
    using inv ms by (auto simp: kv_inv_def)
  have cr: "\<not> is_cross_manager m0" "is_cross_manager m1" using kind by (cases "st_spec m0"; simp add: is_cross_manager_def)+
  have sl: "slots_for m0 n = n" "slots_for m1 n = n" for n
    using kind by (cases "st_spec m0"; cases "st_spec m1"; simp add: slots_for_def)+
  have "remove_skipped_blocks ?rid k m0 p = Inr (m0, p)" "remove_skipped_blocks ?rid k m1 p = Inr (m1, p)" for k p
    using kind by (cases "st_spec m0"; cases "st_spec m1"; simp add: remove_skipped_blocks_def)+
  then have s1: "co_remove_skipped_blocks ?rid k ?co = Inr ?co" for k
    using ms by (simp add: co_remove_skipped_blocks_def on_managers_def)
  define co1 where "co1 = ?co\<lparr>single_type_managers := [read_blocks ?rid m0, read_blocks ?rid m1]\<rparr>"
  have two: "map (\<lambda>_. []) (kv_cache_groups (co_config ?co)) = ([[], []] :: block_ref list list)"
    using len by (auto simp: length_Suc_conv numeral_2_eq_2)
  have s2: "co_get_num_blocks_to_allocate ?rid ?n [[], []] 0 ?co = Inr (need - int (length (blocks_of m1 ?rid)), co1)"
    using ms cr kind(3,4) by (simp add: co_get_num_blocks_to_allocate_def get_num_blocks_to_allocate_def sl cdiv_py_def
        index_py_def num_evictable_def need co1_def) (simp add: cdiv_def)
  have s3: "co_save_new_computed_blocks ?rid [[], []] (co1\<lparr>co_pool := ?p\<rparr>) = Inr co1"
    using running kind(1,2) by (cases "st_spec m0"; cases "st_spec m1")
      (auto simp: co_save_new_computed_blocks_def co1_def save_new_computed_blocks_def index_py_def)
  have inv1: "refs_inv (\<lambda>_. 0) ?p [read_blocks ?rid m0, read_blocks ?rid m1] xs"
    using refs_inv_read_all[OF xs, of ?rid] by simp
  then have inv0: "refs_inv (\<lambda>r. 0 + count_list (all_held [read_blocks ?rid m1]) r) ?p [read_blocks ?rid m0] xs"
    unfolding refs_inv_Cons[of _ _ "read_blocks ?rid m0" "[read_blocks ?rid m1]"] by blast
  have free: "get_num_free_blocks ?p = int (length xs)" by (rule pool_invD(8)[OF refs_invD(1)[OF xs]])
  have "allocate_new_blocks ?rid ?n (read_blocks ?rid m0) ?p = Inl ValueError"
  proof -
    have "st_block_size (read_blocks ?rid m0) \<noteq> 0" using kind(3) by simp
    moreover have "slots_for (read_blocks ?rid m0) ?n = ?n" using sl(1)[of ?n] by (simp add: slots_for_def)
    moreover have "\<not> nat need \<le> length xs" using short(1) free by linarith
    ultimately show ?thesis
      using allocate_new_blocks_ok[OF inv0, of ?n ?rid] by (simp add: need[symmetric])
  qed
  moreover have "is_cross_manager (read_blocks ?rid m0) = False" using cr(1) by (simp add: is_cross_manager_def)
  ultimately have s4: "co_allocate_new_blocks ?rid ?n 0 co1 = Inl ValueError"
    by (simp add: co_allocate_new_blocks_def co1_def)
  have "commit_slots r (num_computed_tokens r + 0) nn ?n [[], []] False 0 km co1 = Inl ValueError"
    using nocache s3 s4 by (simp add: commit_slots_def co1_def)
  moreover have "\<not> need - int (length (blocks_of m1 ?rid)) > get_num_free_blocks (co_pool co1)" using short(2) by (simp add: co1_def)
  ultimately show ?thesis using new s1 s2 two by (simp add: allocate_slots_def Let_def)
qed

lemma demo_req_simps: "num_computed_tokens demo_req = 0"
  by (simp add: demo_req_def)

theorem cross_attention_allocation_raises_witness:
  "\<exists>km. kv_inv km \<and> get_num_free_blocks (co_pool (coordinator km)) = 0 \<and> allocate_slots demo_req 2 0 None 0 False 0 km = Inl ValueError"
proof -
  obtain p where p: "pool_inv p []" "num_gpu_blocks p = 4" "\<forall>r\<in>pool_refs 4. rc p r = 1" using demo_pool by blast
  note k = demo_km_inv(1)[OF p]
  have f: "get_num_free_blocks p = 0" using pool_invD(8)[OF p(1)] by simp
  have "allocate_slots demo_req 2 0 None 0 False 0 (demo_km p [demo_full [Blk 1], demo_cross [Blk 2, Blk 3]]) = Inl ValueError"
    by (rule cross_attention_allocation_raises[OF k demo_km_simps(1), where need = 1]) (simp_all add: f demo_req_simps cdiv_def)
  with k f show ?thesis by (intro exI[of _ "demo_km p [demo_full [Blk 1], demo_cross [Blk 2, Blk 3]]"]) simp
qed

lemma demo_alloc_none:
  assumes p: "pool_inv p []" "num_gpu_blocks p = 4" "\<forall>r\<in>pool_refs 4. rc p r = 1"
  shows "\<exists>km'. allocate_slots demo_req 4 0 None 0 False 0 (demo_km p [demo_full [Blk 1, Blk 2, Blk 3]]) = Inr (None, km')"
proof -
  let ?m = "demo_full [Blk 1, Blk 2, Blk 3]"
  have f: "get_num_free_blocks p = 0" using pool_invD(8)[OF p(1)] by simp
  have "co_remove_skipped_blocks (request_id demo_req) 0 (coordinator (demo_km p [?m])) = Inr (coordinator (demo_km p [?m]))"
    by (simp add: co_remove_skipped_blocks_def on_managers_def remove_skipped_blocks_def)
  then show ?thesis
    using f by (simp add: allocate_slots_def demo_req_simps co_get_num_blocks_to_allocate_def is_cross_manager_def
        get_num_blocks_to_allocate_def slots_for_def cdiv_py_def cdiv_def index_py_def num_evictable_def demo_km_def)
qed

theorem allocate_slots_invariant_witness:
  "\<exists>km km'. kv_inv km \<and> allocate_slots demo_req 4 0 None 0 False 0 km = Inr (None, km') \<and> kv_inv km'"
proof -
  obtain p where p: "pool_inv p []" "num_gpu_blocks p = 4" "\<forall>r\<in>pool_refs 4. rc p r = 1" using demo_pool by blast
  note k = demo_km_inv(2)[OF p]
  obtain km' where a: "allocate_slots demo_req 4 0 None 0 False 0 (demo_km p [demo_full [Blk 1, Blk 2, Blk 3]]) = Inr (None, km')"
    using demo_alloc_none[OF p] by blast
  have "kv_inv km'" by (rule allocate_slots_invariant[OF k _ _ a]) simp_all
  with a k show ?thesis by blast
qed

end
