(* ===== verification/Sched_State.thy ===== *)
theory Sched_State
  imports Kv_Coordinator Request_Queue Encoder_Cache
begin

text \<open>
  State and helpers of the scheduler (\<^verbatim>\<open>vllm/v1/core/sched/scheduler.py\<close>). Request objects are
  shared by the running list, the waiting queue and the dictionary of requests: they live in a
  store keyed by request id, and lists and queues hold ids. What the scheduler calls outside the
  modelled code (the KV connector, the grammar backend, the block hasher, the iteration order of
  sets, the clock) is a record of parameters.
\<close>

section \<open>Scheduler output\<close>

record new_request_data =
  nd_req_id :: string
  nd_prompt_token_ids :: "int list option"
  nd_mm_features :: "mm_feature list"
  nd_sampling_params :: "sampling_params option"
  nd_pooling_params :: "string option"
  nd_block_ids :: "int list list"
  nd_num_computed_tokens :: int
  nd_lora_request :: "lora_request option"
  nd_prompt_embeds :: "nat option"

definition from_request :: "request \<Rightarrow> int list list \<Rightarrow> new_request_data" where
  "from_request r ids =
     \<lparr>nd_req_id = request_id r, nd_prompt_token_ids = prompt_token_ids r, nd_mm_features = mm_features r,
      nd_sampling_params = sampling_params r, nd_pooling_params = pooling_params r, nd_block_ids = ids,
      nd_num_computed_tokens = num_computed_tokens r, nd_lora_request = lora_request r,
      nd_prompt_embeds = prompt_embeds r\<rparr>"

record cached_request_data =
  cd_req_ids :: "string list"
  resumed_from_preemption :: "bool list"
  new_token_ids :: "int list list"
  new_block_ids :: "int list list option list"
  cd_num_computed_tokens :: "int list"

record scheduler_output =
  so_new_reqs :: "new_request_data list"
  so_cached_reqs :: cached_request_data
  so_num_scheduled_tokens :: "(string \<times> int) list"
  total_num_scheduled_tokens :: int
  so_spec_decode_tokens :: "(string \<times> int list) list"
  so_encoder_inputs :: "(string \<times> nat list) list"
  so_num_common_prefix_blocks :: "int list"
  so_finished_req_ids :: "string set"
  free_encoder_mm_hashes :: "string list"
  structured_output_request_ids :: "(string \<times> nat) list"
  so_grammar_bitmask :: "nat option"
  kv_connector_metadata :: "string option"

section \<open>Parameters and configuration\<close>

text \<open>The KV connector, with its own state of type \<open>'c\<close>; the grammar backend (a compiled grammar is a
  handle that stands for its state); the iteration order of sets; the block hasher and the reasoning
  parser.\<close>

record kv_connector_output =
  finished_sending :: "string list"
  finished_recving :: "string list"
  kv_connector_stats :: "string option"

record 'c kv_connector =
  get_num_new_matched_tokens :: "request \<Rightarrow> int \<Rightarrow> 'c \<Rightarrow> (int option \<times> bool) \<times> 'c"
  update_state_after_alloc :: "request \<Rightarrow> block_ref list list \<Rightarrow> int \<Rightarrow> 'c \<Rightarrow> 'c"
  request_finished :: "request \<Rightarrow> int list \<Rightarrow> 'c \<Rightarrow> (bool \<times> string option) \<times> 'c"
  conn_take_events :: "'c \<Rightarrow> kv_event list \<times> 'c"
  build_connector_meta :: "scheduler_output \<Rightarrow> 'c \<Rightarrow> string \<times> 'c"
  update_connector_output :: "kv_connector_output \<Rightarrow> 'c \<Rightarrow> 'c"

record 'c sched_env =
  set_order :: "nat set \<Rightarrow> nat list"
  id_order :: "string set \<Rightarrow> string list"
  block_hasher_opt :: "block_hasher option"
  grammar_result :: "nat \<Rightarrow> nat option"
  accept_tokens :: "nat \<Rightarrow> string \<Rightarrow> int list \<Rightarrow> nat"
  validate_tokens :: "nat \<Rightarrow> int list \<Rightarrow> int list"
  fill_bitmask :: "(string \<Rightarrow> request) \<Rightarrow> (string \<times> nat) list \<Rightarrow> (string \<times> int list) list \<Rightarrow> nat"
  is_reasoning_end :: "(int list \<Rightarrow> bool) option"
  connector :: "'c kv_connector option"

record sched_config =
  policy :: scheduling_policy
  max_num_running_reqs :: nat
  max_num_scheduled_tokens :: int
  sched_max_model_len :: int
  long_prefill_token_threshold :: int
  chunked_prefill_enabled :: bool
  sc_disable_chunked_mm_input :: bool
  sc_max_num_encoder_input_tokens :: int
  encoder_compute_budget :: int
  max_loras :: "nat option"
  is_encoder_decoder :: bool
  num_lookahead_tokens :: int
  num_spec_tokens :: nat
  sched_log_stats :: bool
  use_pp :: bool
  sched_block_size :: int

record 'c scheduler =
  heap :: "string \<Rightarrow> request"
  requests :: "string set"
  waiting :: request_queue
  running :: "string list"
  finished_req_ids :: "string set"
  finished_req_ids_dict :: "(int \<times> string set) list option"
  finished_recving_kv_req_ids :: "string set"
  encoder_mgr :: encoder_cache
  kvm :: kv_cache_manager
  reasoning_ended :: "string set"
  conn :: 'c

definition scheduler_init :: "sched_config \<Rightarrow> bool \<Rightarrow> kv_cache_manager \<Rightarrow> int \<Rightarrow> (string \<Rightarrow> request) \<Rightarrow> 'c \<Rightarrow> 'c scheduler" where
  "scheduler_init cfg include_finished_set km encoder_size h c =
     \<lparr>heap = h, requests = {}, waiting = create_request_queue (policy cfg), running = [], finished_req_ids = {},
      finished_req_ids_dict = (if include_finished_set then Some [] else None),
      finished_recving_kv_req_ids = {}, encoder_mgr = encoder_cache_init encoder_size, kvm = km, reasoning_ended = {}, conn = c\<rparr>"

definition upd_req :: "string \<Rightarrow> (request \<Rightarrow> request) \<Rightarrow> 'c scheduler \<Rightarrow> 'c scheduler" where
  "upd_req rid f s = s\<lparr>heap := (heap s)(rid := f (heap s rid))\<rparr>"

definition queue_entry :: "'c scheduler \<Rightarrow> string \<Rightarrow> qreq" where
  "queue_entry s rid = (priority (heap s rid), arrival_time (heap s rid), rid)"

definition entry_id :: "qreq \<Rightarrow> string" where
  "entry_id e = snd (snd e)"

definition prepend_waiting :: "string \<Rightarrow> 'c scheduler \<Rightarrow> 'c scheduler result" where
  "prepend_waiting rid s = bnd (prepend_request (queue_entry s rid) (waiting s)) (\<lambda>q. Inr (s\<lparr>waiting := q\<rparr>))"

section \<open>Structured output\<close>

text \<open>Reading the property \<^verbatim>\<open>grammar\<close> stores the result of a finished compilation.\<close>

definition read_grammar :: "'c sched_env \<Rightarrow> string \<Rightarrow> 'c scheduler \<Rightarrow> nat option \<times> 'c scheduler" where
  "read_grammar env rid s =
     (case structured_output_request (heap s rid) of
        Some (Grammar g) \<Rightarrow> (Some g, s)
      | Some (Grammar_Future f) \<Rightarrow>
          (case grammar_result env f of
             None \<Rightarrow> (None, s)
           | Some g \<Rightarrow> (Some g, upd_req rid (\<lambda>r. r\<lparr>structured_output_request := Some (Grammar g)\<rparr>) s))
      | _ \<Rightarrow> (None, s))"

definition should_advance :: "'c sched_env \<Rightarrow> string \<Rightarrow> 'c scheduler \<Rightarrow> (bool \<times> 'c scheduler) result" where
  "should_advance env rid s =
     (if \<not> use_structured_output (heap s rid) then Inr (False, s)
      else case is_reasoning_end env of
          None \<Rightarrow> Inr (True, s)
        | Some ends \<Rightarrow>
            if structured_output_request (heap s rid) = None then Inl AttributeError
            else if rid \<in> reasoning_ended s then Inr (True, s)
            else if ends (all_token_ids (heap s rid))
            then Inr (False, s\<lparr>reasoning_ended := insert rid (reasoning_ended s)\<rparr>)
            else Inr (False, s))"

section \<open>Freeing\<close>

definition encoder_free :: "'c sched_env \<Rightarrow> string \<Rightarrow> 'c scheduler \<Rightarrow> 'c scheduler result" where
  "encoder_free env rid s =
     bnd (free_inputs (heap s rid) (set_order env (get_cached_input_ids (heap s rid) (encoder_mgr s))) (encoder_mgr s)) (\<lambda>c.
       Inr (s\<lparr>encoder_mgr := c\<rparr>))"

definition sched_km_free :: "string \<Rightarrow> 'c scheduler \<Rightarrow> 'c scheduler result" where
  "sched_km_free rid s = bnd (km_free (heap s rid) (kvm s)) (\<lambda>km. Inr (s\<lparr>kvm := km\<rparr>))"

definition free_request_blocks :: "string \<Rightarrow> 'c scheduler \<Rightarrow> 'c scheduler result" where
  "free_request_blocks rid s =
     check (is_finished (heap s rid)) AssertionError
       (bnd (sched_km_free rid s) (\<lambda>s1.
        check (rid \<in> requests s1) KeyError (Inr (s1\<lparr>requests := requests s1 - {rid}\<rparr>))))"

definition connector_finished :: "'c sched_env \<Rightarrow> string \<Rightarrow> 'c scheduler \<Rightarrow> ((bool \<times> string option) \<times> 'c scheduler) result" where
  "connector_finished env rid s =
     (case connector env of
        None \<Rightarrow> Inr ((False, None), s)
      | Some k \<Rightarrow>
          (case km_get_block_ids rid (kvm s) of
             [ids] \<Rightarrow> let (r, c) = request_finished k (heap s rid) ids (conn s) in Inr (r, s\<lparr>conn := c\<rparr>)
           | _ \<Rightarrow> Inl ValueError))"

definition add_finished :: "int \<Rightarrow> string \<Rightarrow> (int \<times> string set) list \<Rightarrow> (int \<times> string set) list" where
  "add_finished client rid d = AList.update client (insert rid (case map_of d client of None \<Rightarrow> {} | Some x \<Rightarrow> x)) d"

definition sched_free_request :: "'c sched_env \<Rightarrow> string \<Rightarrow> 'c scheduler \<Rightarrow> (string option \<times> 'c scheduler) result" where
  "sched_free_request env rid s =
     check (is_finished (heap s rid)) AssertionError
       (bnd (connector_finished env rid s) (\<lambda>((delay, params), s1).
        bnd (encoder_free env rid s1) (\<lambda>s2.
          let s3 = s2\<lparr>finished_req_ids := insert rid (finished_req_ids s2),
                 finished_req_ids_dict := map_option (add_finished (client_index (heap s2 rid)) rid) (finished_req_ids_dict s2)\<rparr>
          in if delay then Inr (params, s3)
             else bnd (free_request_blocks rid s3) (\<lambda>s4. Inr (params, s4)))))"

section \<open>Preemption\<close>

text \<open>Python's \<^verbatim>\<open>max\<close> returns the first of the maximal elements.\<close>

definition victim_key :: "'c scheduler \<Rightarrow> string \<Rightarrow> int \<times> rat" where
  "victim_key s rid = (priority (heap s rid), arrival_time (heap s rid))"

fun first_max :: "(string \<Rightarrow> int \<times> rat) \<Rightarrow> string \<Rightarrow> string list \<Rightarrow> string" where
  "first_max key best [] = best"
| "first_max key best (x # xs) = first_max key (if key x > key best then x else best) xs"

definition choose_victim :: "sched_config \<Rightarrow> 'c scheduler \<Rightarrow> (string \<times> 'c scheduler) result" where
  "choose_victim cfg s =
     (case policy cfg of
        PRIORITY \<Rightarrow>
          (case running s of
             [] \<Rightarrow> Inl ValueError
           | x # xs \<Rightarrow> let v = first_max (victim_key s) x xs in Inr (v, s\<lparr>running := remove1 v (running s)\<rparr>))
      | FCFS \<Rightarrow>
          if running s = [] then Inl IndexError
          else Inr (last (running s), s\<lparr>running := butlast (running s)\<rparr>))"

section \<open>Encoder inputs\<close>

text \<open>The loop over the multi-modal inputs; the result is the inputs to schedule, the number of new
  tokens, the remaining budget and the encoder cache.\<close>

fun encoder_loop :: "sched_config \<Rightarrow> request \<Rightarrow> int \<Rightarrow> (nat \<times> mm_feature) list \<Rightarrow> string set \<Rightarrow> int \<Rightarrow> nat list \<Rightarrow> int \<Rightarrow> int \<Rightarrow> encoder_cache
    \<Rightarrow> ((nat list \<times> int \<times> int) \<times> encoder_cache) result" where
  "encoder_loop cfg r num_computed [] hashes tokens inputs num_new budget c = Inr ((inputs, num_new, budget), c)"
| "encoder_loop cfg r num_computed ((i, f) # fs) hashes tokens inputs num_new budget c =
     (let start_pos = offset (mm_position f); n = mm_length (mm_position f);
          next = encoder_loop cfg r num_computed fs hashes tokens inputs num_new budget in
      if start_pos \<ge> num_computed + num_new then Inr ((inputs, num_new, budget), c)
      else if is_encoder_decoder cfg \<and> num_computed > 0 then check (start_pos = 0) AssertionError (next c)
      else if start_pos + n \<le> num_computed then next c
      else if \<not> is_encoder_decoder cfg \<and> mm_identifier f \<in> hashes then next c
      else bnd (if is_encoder_decoder cfg then Inr (False, c) else check_and_update_cache r i c) (\<lambda>(hit, c1).
        if hit then next c1
        else if sc_disable_chunked_mm_input cfg \<and> num_computed < start_pos \<and> num_computed + num_new < start_pos + n
        then Inr ((inputs, start_pos - num_computed, budget), c1)
        else bnd (can_allocate r i budget tokens c1) (\<lambda>(ok, c2).
          if \<not> ok
          then Inr ((inputs, if num_computed < start_pos then start_pos - num_computed else 0, budget), c2)
          else encoder_loop cfg r num_computed fs (insert (mm_identifier f) hashes) (tokens + n) (inputs @ [i]) num_new (budget - n) c2)))"

definition try_schedule_encoder_inputs :: "sched_config \<Rightarrow> request \<Rightarrow> int \<Rightarrow> int \<Rightarrow> int \<Rightarrow> encoder_cache
    \<Rightarrow> ((nat list \<times> int \<times> int) \<times> encoder_cache) result" where
  "try_schedule_encoder_inputs cfg r num_computed num_new budget c =
     (if num_new = 0 \<or> \<not> has_encoder_inputs r then Inr (([], num_new, budget), c)
      else encoder_loop cfg r num_computed (zip [0..<length (mm_features r)] (mm_features r)) {} 0 [] num_new budget c)"

definition free_encoder_inputs :: "sched_config \<Rightarrow> 'c sched_env \<Rightarrow> string \<Rightarrow> 'c scheduler \<Rightarrow> 'c scheduler result" where
  "free_encoder_inputs cfg env rid s =
     (let r = heap s rid; ids = set_order env (get_cached_input_ids r (encoder_mgr s)) in
      bnd (for_each (\<lambda>i c.
             bnd (index_py (mm_features r) i) (\<lambda>f.
               if (is_encoder_decoder cfg \<and> num_computed_tokens r > 0)
                  \<or> offset (mm_position f) + mm_length (mm_position f) \<le> num_computed_tokens r
               then free_encoder_input r i c else Inr c)) ids (encoder_mgr s)) (\<lambda>c.
        Inr (s\<lparr>encoder_mgr := c\<rparr>)))"

definition allocate_encoder_inputs :: "string \<Rightarrow> nat list \<Rightarrow> 'c scheduler \<Rightarrow> 'c scheduler result" where
  "allocate_encoder_inputs rid inputs s =
     bnd (for_each (allocate (heap s rid)) inputs (encoder_mgr s)) (\<lambda>c. Inr (s\<lparr>encoder_mgr := c\<rparr>))"

end
