(* ===== verification/Sched_Schedule.thy ===== *)
theory Sched_Schedule
  imports Sched_State
begin

text \<open>
  One scheduling step (\<^verbatim>\<open>Scheduler.schedule\<close> of \<^verbatim>\<open>vllm/v1/core/sched/scheduler.py\<close>): the loop over the
  running requests with its preemption loop, the loop over the waiting requests, the assertions on
  the result, the construction of the output and the advance of the computed tokens. The local
  variables of the method are the record \<open>sched_acc\<close>; dictionaries that are iterated are association
  lists in insertion order.
\<close>

section \<open>Local variables of a step\<close>

record sched_acc =
  scheduled_new_reqs :: "string list"
  scheduled_resumed_reqs :: "string list"
  scheduled_running_reqs :: "string list"
  preempted_reqs :: "string list"
  req_to_new_blocks :: "string \<rightharpoonup> block_ref list list"
  num_scheduled_tokens :: "(string \<times> int) list"
  token_budget :: int
  scheduled_encoder_inputs :: "(string \<times> nat list) list"
  enc_budget :: int
  scheduled_spec_decode_tokens :: "(string \<times> int list) list"
  scheduled_loras :: "int set"

definition acc_init :: "sched_config \<Rightarrow> sched_acc" where
  "acc_init cfg =
     \<lparr>scheduled_new_reqs = [], scheduled_resumed_reqs = [], scheduled_running_reqs = [], preempted_reqs = [],
      req_to_new_blocks = Map.empty, num_scheduled_tokens = [], token_budget = max_num_scheduled_tokens cfg,
      scheduled_encoder_inputs = [], enc_budget = encoder_compute_budget cfg,
      scheduled_spec_decode_tokens = [], scheduled_loras = {}\<rparr>"

definition clip_prefill :: "sched_config \<Rightarrow> int \<Rightarrow> int" where
  "clip_prefill cfg n =
     (if 0 < long_prefill_token_threshold cfg \<and> long_prefill_token_threshold cfg < n
      then long_prefill_token_threshold cfg else n)"

definition log_event :: "sched_config \<Rightarrow> event_type \<Rightarrow> rat \<Rightarrow> request \<Rightarrow> request" where
  "log_event cfg e now r = (if sched_log_stats cfg then record_event e now r else r)"

section \<open>Running requests\<close>

text \<open>The number of tokens a running request asks for, before encoder inputs are considered.\<close>

definition running_tokens :: "sched_config \<Rightarrow> int \<Rightarrow> request \<Rightarrow> int" where
  "running_tokens cfg budget r =
     min (min (clip_prefill cfg (num_tokens_with_spec r + num_output_placeholders r - num_computed_tokens r)) budget)
         (sched_max_model_len cfg - 1 - num_computed_tokens r)"

definition preempted :: "sched_config \<Rightarrow> rat \<Rightarrow> request \<Rightarrow> request" where
  "preempted cfg now r = log_event cfg EV_PREEMPTED now (r\<lparr>status := PREEMPTED, num_computed_tokens := 0\<rparr>)"

definition preempt_one :: "sched_config \<Rightarrow> 'c sched_env \<Rightarrow> rat \<Rightarrow> 'c scheduler \<Rightarrow> sched_acc \<Rightarrow> (string \<times> 'c scheduler \<times> sched_acc) result" where
  "preempt_one cfg env now s acc =
     bnd (choose_victim cfg s) (\<lambda>(v, s1).
     let acc1 = (if policy cfg = PRIORITY then acc\<lparr>scheduled_running_reqs := remove1 v (scheduled_running_reqs acc)\<rparr> else acc) in
     bnd (sched_km_free v s1) (\<lambda>s2.
     bnd (encoder_free env v s2) (\<lambda>s3.
     let s4 = upd_req v (preempted cfg now) s3 in
     bnd (prepend_waiting v s4) (\<lambda>s5.
       Inr (v, s5, acc1\<lparr>preempted_reqs := preempted_reqs acc1 @ [v]\<rparr>)))))"

definition running_alloc :: "sched_config \<Rightarrow> string \<Rightarrow> int \<Rightarrow> 'c scheduler \<Rightarrow> (block_ref list list option \<times> 'c scheduler) result" where
  "running_alloc cfg rid n s =
     bnd (allocate_slots (heap s rid) n 0 None (num_lookahead_tokens cfg) False 0 (kvm s)) (\<lambda>(res, km).
       Inr (res, s\<lparr>kvm := km\<rparr>))"

lemma first_max_in: "first_max k x xs \<in> set (x # xs)"
  by (induction xs arbitrary: x) auto

lemma choose_victimD:
  assumes "choose_victim cfg s = Inr (v, s')"
  shows "v \<in> set (running s)" "policy cfg = PRIORITY \<Longrightarrow> s' = s\<lparr>running := remove1 v (running s)\<rparr>"
    "policy cfg = FCFS \<Longrightarrow> running s \<noteq> [] \<and> v = last (running s) \<and> s' = s\<lparr>running := butlast (running s)\<rparr>"
  using assms first_max_in
  by (fastforce simp: choose_victim_def Let_def split: scheduling_policy.splits list.splits if_splits)+

lemma choose_victim_length:
  assumes "choose_victim cfg s = Inr (v, s')"
  shows "length (running s') < length (running s)"
proof (cases "policy cfg")
  case FCFS
  with choose_victimD(3)[OF assms] show ?thesis by simp
next
  case PRIORITY
  have "length (running s) > 0" using choose_victimD(1)[OF assms] by (cases "running s") auto
  with choose_victimD(1,2)[OF assms] PRIORITY show ?thesis by (simp add: length_remove1)
qed

lemma sched_frees_frame:
  "sched_km_free v s = Inr s' \<Longrightarrow> running s' = running s \<and> waiting s' = waiting s \<and> heap s' = heap s \<and> requests s' = requests s"
  "encoder_free env v s = Inr s' \<Longrightarrow> running s' = running s \<and> waiting s' = waiting s \<and> heap s' = heap s \<and> requests s' = requests s"
  by (auto simp: sched_km_free_def encoder_free_def)

lemma upd_req_simps [simp]:
  "running (upd_req v f s) = running s" "waiting (upd_req v f s) = waiting s" "kvm (upd_req v f s) = kvm s"
  "requests (upd_req v f s) = requests s" "encoder_mgr (upd_req v f s) = encoder_mgr s"
  "heap (upd_req v f s) = (heap s)(v := f (heap s v))" "conn (upd_req v f s) = conn s"
  by (simp_all add: upd_req_def)

lemma prepend_waiting_frame:
  "prepend_waiting v s = Inr s' \<Longrightarrow> running s' = running s \<and> heap s' = heap s \<and> kvm s' = kvm s \<and> requests s' = requests s"
  by (auto simp: prepend_waiting_def)

lemma preempt_one_running:
  assumes "preempt_one cfg env now s acc = Inr (v, s', acc')"
  shows "\<exists>s1. choose_victim cfg s = Inr (v, s1) \<and> running s' = running s1"
  using assms by (auto simp: preempt_one_def Let_def dest!: sched_frees_frame prepend_waiting_frame)

lemma running_alloc_frame:
  "running_alloc cfg rid n s = Inr (res, s') \<Longrightarrow> running s' = running s \<and> waiting s' = waiting s \<and> heap s' = heap s \<and> requests s' = requests s"
  by (auto simp: running_alloc_def)

text \<open>The \<^verbatim>\<open>while True\<close> loop: allocate, or preempt and try again. Each round without success removes a
  running request, so the loop ends.\<close>

lemma bnd_cong [fundef_cong]:
  "m = m' \<Longrightarrow> (\<And>x. m' = Inr x \<Longrightarrow> f x = g x) \<Longrightarrow> bnd m f = bnd m' g"
  by (cases m') auto

function alloc_loop :: "sched_config \<Rightarrow> 'c sched_env \<Rightarrow> rat \<Rightarrow> string \<Rightarrow> int \<Rightarrow> 'c scheduler \<Rightarrow> sched_acc
    \<Rightarrow> (block_ref list list option \<times> 'c scheduler \<times> sched_acc) result" where
  "alloc_loop cfg env now rid n s acc =
     bnd (running_alloc cfg rid n s) (\<lambda>(res, s1).
       case res of
         Some blocks \<Rightarrow> Inr (Some blocks, s1, acc)
       | None \<Rightarrow> bnd (preempt_one cfg env now s1 acc) (\<lambda>(v, s2, acc2).
           if v = rid then Inr (None, s2, acc2) else alloc_loop cfg env now rid n s2 acc2))"
  by pat_completeness auto
termination
  by (relation "measure (\<lambda>(_, _, _, _, _, s, _). length (running s))")
    (auto dest!: preempt_one_running choose_victim_length running_alloc_frame)

declare alloc_loop.simps [simp del]

definition record_encoder_inputs :: "string \<Rightarrow> nat list \<Rightarrow> int \<Rightarrow> 'c scheduler \<Rightarrow> sched_acc \<Rightarrow> ('c scheduler \<times> sched_acc) result" where
  "record_encoder_inputs rid inputs eb s acc =
     (if inputs = [] then Inr (s, acc)
      else bnd (allocate_encoder_inputs rid inputs s) (\<lambda>s1.
        Inr (s1, acc\<lparr>scheduled_encoder_inputs := AList.update rid inputs (scheduled_encoder_inputs acc), enc_budget := eb\<rparr>)))"

text \<open>Draft tokens that do not fit the scheduled tokens are cut off.\<close>

definition trim_spec_tokens :: "string \<Rightarrow> int \<Rightarrow> 'c scheduler \<Rightarrow> sched_acc \<Rightarrow> 'c scheduler \<times> sched_acc" where
  "trim_spec_tokens rid n s acc =
     (let r = heap s rid; k = n + num_computed_tokens r - num_tokens r; ts = take (nat k) (spec_token_ids r) in
      if spec_token_ids r \<noteq> [] \<and> k > 0
      then (upd_req rid (\<lambda>r. r\<lparr>spec_token_ids := ts\<rparr>) s,
            acc\<lparr>scheduled_spec_decode_tokens := AList.update rid ts (scheduled_spec_decode_tokens acc)\<rparr>)
      else (s, acc))"

definition commit_running :: "string \<Rightarrow> int \<Rightarrow> block_ref list list \<Rightarrow> nat list \<Rightarrow> int \<Rightarrow> 'c scheduler \<Rightarrow> sched_acc
    \<Rightarrow> ('c scheduler \<times> sched_acc) result" where
  "commit_running rid n blocks inputs eb s acc =
     (let acc1 = acc\<lparr>scheduled_running_reqs := scheduled_running_reqs acc @ [rid],
                     req_to_new_blocks := (req_to_new_blocks acc)(rid \<mapsto> blocks),
                     num_scheduled_tokens := AList.update rid n (num_scheduled_tokens acc),
                     token_budget := token_budget acc - n\<rparr>;
          (s2, acc2) = trim_spec_tokens rid n s acc1
      in record_encoder_inputs rid inputs eb s2 acc2)"

text \<open>One round of the loop; the flag is False where the source leaves the loop.\<close>

definition running_step :: "sched_config \<Rightarrow> 'c sched_env \<Rightarrow> rat \<Rightarrow> string \<Rightarrow> 'c scheduler \<Rightarrow> sched_acc
    \<Rightarrow> (bool \<times> 'c scheduler \<times> sched_acc) result" where
  "running_step cfg env now rid s acc =
     (let r = heap s rid in
      bnd (try_schedule_encoder_inputs cfg r (num_computed_tokens r) (running_tokens cfg (token_budget acc) r)
             (enc_budget acc) (encoder_mgr s)) (\<lambda>((inputs, n, eb), c).
        let s1 = s\<lparr>encoder_mgr := c\<rparr> in
        if n = 0 then Inr (True, s1, acc)
        else bnd (alloc_loop cfg env now rid n s1 acc) (\<lambda>(res, s2, acc2).
          case res of
            None \<Rightarrow> Inr (False, s2, acc2)
          | Some blocks \<Rightarrow> bnd (commit_running rid n blocks inputs eb s2 acc2) (\<lambda>(s3, acc3). Inr (True, s3, acc3)))))"

text \<open>An invariant \<open>P\<close> of the rounds of the loop; \<open>Q\<close> is what preempting the request itself leaves.\<close>

lemma alloc_loop_inv:
  assumes "alloc_loop cfg env now rid n s acc = Inr (res, s', acc')" "P s acc"
    and alloc: "\<And>s acc res s1. P s acc \<Longrightarrow> running_alloc cfg rid n s = Inr (res, s1) \<Longrightarrow> P s1 acc"
    and preempt: "\<And>s acc v s2 acc2. P s acc \<Longrightarrow> preempt_one cfg env now s acc = Inr (v, s2, acc2)
      \<Longrightarrow> if v = rid then Q s2 acc2 else P s2 acc2"
  shows "case res of None \<Rightarrow> Q s' acc' | Some _ \<Rightarrow> P s' acc'"
  using assms(1,2)
proof (induction "length (running s)" arbitrary: s acc rule: less_induct)
  case less
  from less.prems(1) obtain res1 s1 where a: "running_alloc cfg rid n s = Inr (res1, s1)"
    by (subst (asm) alloc_loop.simps) auto
  note P1 = alloc[OF less.prems(2) a]
  show ?case
  proof (cases res1)
    case None
    with less.prems(1) a obtain v s2 acc2 where p: "preempt_one cfg env now s1 acc = Inr (v, s2, acc2)"
      and c: "(if v = rid then Inr (None, s2, acc2) else alloc_loop cfg env now rid n s2 acc2) = Inr (res, s', acc')"
      by (subst (asm) alloc_loop.simps) auto
    have l: "length (running s2) < length (running s)"
      using preempt_one_running[OF p] choose_victim_length running_alloc_frame[OF a] by fastforce
    show ?thesis
    proof (cases "v = rid")
      case True
      with c preempt[OF P1 p] show ?thesis by auto
    next
      case False
      with preempt[OF P1 p] c less.hyps[OF l] show ?thesis by auto
    qed
  next
    case (Some blocks)
    with less.prems(1) a P1 show ?thesis by (subst (asm) alloc_loop.simps) auto
  qed
qed

lemma alloc_loop_length:
  assumes "alloc_loop cfg env now rid n s acc = Inr (res, s', acc')"
  shows "length (running s') \<le> length (running s)"
proof -
  have "case res of None \<Rightarrow> length (running s') \<le> length (running s) | Some _ \<Rightarrow> length (running s') \<le> length (running s)"
    using assms
    by (rule alloc_loop_inv[where P = "\<lambda>t _. length (running t) \<le> length (running s)"])
      (auto dest!: running_alloc_frame preempt_one_running dest: choose_victim_length)
  then show ?thesis by (cases res) auto
qed

lemma commit_running_frame:
  assumes "commit_running rid n blocks inputs eb s acc = Inr (s', acc')"
  shows "running s' = running s" "waiting s' = waiting s" "requests s' = requests s" "kvm s' = kvm s"
    "heap s' = (heap s)(rid := heap s' rid)" "num_computed_tokens (heap s' rid) = num_computed_tokens (heap s rid)"
    "scheduled_new_reqs acc' = scheduled_new_reqs acc" "scheduled_resumed_reqs acc' = scheduled_resumed_reqs acc"
    "scheduled_running_reqs acc' = scheduled_running_reqs acc @ [rid]" "preempted_reqs acc' = preempted_reqs acc"
    "num_scheduled_tokens acc' = AList.update rid n (num_scheduled_tokens acc)"
    "token_budget acc' = token_budget acc - n" "req_to_new_blocks acc' = (req_to_new_blocks acc)(rid \<mapsto> blocks)"
  using assms
  by (auto simp: commit_running_def trim_spec_tokens_def record_encoder_inputs_def allocate_encoder_inputs_def Let_def
      split: if_splits)

lemma running_step_length:
  "running_step cfg env now rid s acc = Inr (b, s', acc') \<Longrightarrow> length (running s') \<le> length (running s)"
  by (auto simp: running_step_def Let_def commit_running_frame split: if_splits option.splits dest!: alloc_loop_length)

function running_loop :: "sched_config \<Rightarrow> 'c sched_env \<Rightarrow> rat \<Rightarrow> nat \<Rightarrow> 'c scheduler \<Rightarrow> sched_acc \<Rightarrow> ('c scheduler \<times> sched_acc) result" where
  "running_loop cfg env now req_index s acc =
     (if req_index < length (running s) \<and> token_budget acc > 0
      then bnd (running_step cfg env now (running s ! req_index) s acc) (\<lambda>(continue, s1, acc1).
             if continue then running_loop cfg env now (Suc req_index) s1 acc1 else Inr (s1, acc1))
      else Inr (s, acc))"
  by pat_completeness auto
termination
  by (relation "measure (\<lambda>(_, _, _, i, s, _). length (running s) - i)")
    (auto dest!: running_step_length)

declare running_loop.simps [simp del]

lemma running_loop_rule:
  assumes "running_loop cfg env now i s acc = Inr (s', acc')" "P i s acc"
    and step: "\<And>i s acc b s1 acc1. P i s acc \<Longrightarrow> i < length (running s)
      \<Longrightarrow> running_step cfg env now (running s ! i) s acc = Inr (b, s1, acc1) \<Longrightarrow> P (if b then Suc i else i) s1 acc1"
  shows "\<exists>j. P j s' acc'"
  using assms(1,2)
proof (induction "length (running s) - i" arbitrary: i s acc rule: less_induct)
  case less
  show ?case
  proof (cases "i < length (running s) \<and> token_budget acc > 0")
    case True
    with less.prems(1)[unfolded running_loop.simps[of cfg env now i s acc]] obtain b s1 acc1 where
      st: "running_step cfg env now (running s ! i) s acc = Inr (b, s1, acc1)"
      and rest: "(if b then running_loop cfg env now (Suc i) s1 acc1 else Inr (s1, acc1)) = Inr (s', acc')"
      by auto
    have P1: "P (if b then Suc i else i) s1 acc1" using step[OF less.prems(2) _ st] True by simp
    have "length (running s1) - Suc i < length (running s) - i" using running_step_length[OF st] True by linarith
    from less.hyps[OF this] rest P1 show ?thesis by (cases b) auto
  next
    case False
    with less.prems show ?thesis by (auto simp: running_loop.simps[of cfg env now i s acc])
  qed
qed

section \<open>Waiting requests\<close>

definition update_waiting_for_remote_kv :: "sched_config \<Rightarrow> 'c sched_env \<Rightarrow> string \<Rightarrow> 'c scheduler \<Rightarrow> (bool \<times> 'c scheduler) result" where
  "update_waiting_for_remote_kv cfg env rid s =
     check (connector env \<noteq> None) AssertionError
       (if rid \<notin> finished_recving_kv_req_ids s then Inr (False, s)
        else case km_get_block_ids rid (kvm s) of
            [ids] \<Rightarrow>
              let r = heap s rid;
                  n0 = min (int (length ids) * sched_block_size cfg) (num_tokens r);
                  n = (if n0 = num_tokens r then n0 - 1 else n0)
              in bnd (km_cache_blocks r n (kvm s)) (\<lambda>km.
                   Inr (True, (upd_req rid (\<lambda>r. r\<lparr>num_computed_tokens := n\<rparr>) (s\<lparr>kvm := km\<rparr>))
                     \<lparr>finished_recving_kv_req_ids := finished_recving_kv_req_ids s - {rid}\<rparr>))
          | _ \<Rightarrow> Inl ValueError)"

definition lora_blocked :: "sched_config \<Rightarrow> sched_acc \<Rightarrow> request \<Rightarrow> bool" where
  "lora_blocked cfg acc r =
     (case max_loras cfg of
        None \<Rightarrow> False
      | Some k \<Rightarrow> (case lora_request r of
          None \<Rightarrow> False
        | Some l \<Rightarrow> card (scheduled_loras acc) = k \<and> lora_int_id l \<notin> scheduled_loras acc))"

definition set_status :: "request_status \<Rightarrow> string \<Rightarrow> 'c scheduler \<Rightarrow> 'c scheduler" where
  "set_status st rid s = upd_req rid (\<lambda>r. r\<lparr>status := st\<rparr>) s"

text \<open>The three checks that skip a request: remote KV still loading, grammar still compiling, too many
  LoRA adapters.\<close>

definition remote_ready :: "sched_config \<Rightarrow> 'c sched_env \<Rightarrow> string \<Rightarrow> 'c scheduler \<Rightarrow> (bool \<times> 'c scheduler) result" where
  "remote_ready cfg env rid s =
     (if status (heap s rid) = WAITING_FOR_REMOTE_KVS
      then bnd (update_waiting_for_remote_kv cfg env rid s) (\<lambda>(ok, s1). Inr (ok, if ok then set_status WAITING rid s1 else s1))
      else Inr (True, s))"

definition grammar_ready :: "'c sched_env \<Rightarrow> string \<Rightarrow> 'c scheduler \<Rightarrow> bool \<times> 'c scheduler" where
  "grammar_ready env rid s =
     (if status (heap s rid) = WAITING_FOR_FSM
      then let (g, s1) = read_grammar env rid s in if g = None then (False, s1) else (True, set_status WAITING rid s1)
      else (True, s))"

definition waiting_ready :: "sched_config \<Rightarrow> 'c sched_env \<Rightarrow> string \<Rightarrow> 'c scheduler \<Rightarrow> sched_acc \<Rightarrow> (bool \<times> 'c scheduler) result" where
  "waiting_ready cfg env rid s acc =
     bnd (remote_ready cfg env rid s) (\<lambda>(ok, s1).
       if \<not> ok then Inr (False, s1)
       else let (ok2, s2) = grammar_ready env rid s1 in Inr (ok2 \<and> \<not> lora_blocked cfg acc (heap s2 rid), s2))"

text \<open>What is already computed: the blocks of the local prefix cache, the numbers of locally and
  externally cached tokens, whether the external ones are loaded asynchronously, the total.\<close>

record computed_prefix =
  cp_blocks :: "block_ref list list"
  cp_local :: int
  cp_external :: int
  load_kv_async :: bool
  cp_total :: int

definition waiting_computed :: "'c sched_env \<Rightarrow> string \<Rightarrow> 'c scheduler \<Rightarrow> (computed_prefix option \<times> 'c scheduler) result" where
  "waiting_computed env rid s =
     (let r = heap s rid in
      if num_computed_tokens r = 0
      then bnd (get_computed_blocks r (kvm s)) (\<lambda>((blocks, nl), km).
        let s1 = s\<lparr>kvm := km\<rparr> in
        case connector env of
          None \<Rightarrow> Inr (Some \<lparr>cp_blocks = blocks, cp_local = nl, cp_external = 0, load_kv_async = False, cp_total = nl\<rparr>, s1)
        | Some k \<Rightarrow>
            let ((ext, is_async), c) = get_num_new_matched_tokens k r nl (conn s1) in
            (case ext of
               None \<Rightarrow> Inr (None, s1\<lparr>conn := c\<rparr>)
             | Some e \<Rightarrow> Inr (Some \<lparr>cp_blocks = blocks, cp_local = nl, cp_external = e, load_kv_async = is_async, cp_total = nl + e\<rparr>,
                            s1\<lparr>conn := c\<rparr>)))
      else Inr (Some \<lparr>cp_blocks = create_empty_block_list (kvm s), cp_local = 0, cp_external = 0, load_kv_async = False,
                     cp_total = num_computed_tokens r\<rparr>, s))"

definition waiting_demand :: "sched_config \<Rightarrow> request \<Rightarrow> computed_prefix \<Rightarrow> int" where
  "waiting_demand cfg r h = clip_prefill cfg (num_tokens r - cp_total h)"

definition waiting_tokens :: "sched_config \<Rightarrow> string \<Rightarrow> computed_prefix \<Rightarrow> 'c scheduler \<Rightarrow> sched_acc
    \<Rightarrow> ((nat list \<times> int \<times> int) \<times> 'c scheduler) result" where
  "waiting_tokens cfg rid h s acc =
     (let r = heap s rid; n = min (waiting_demand cfg r h) (token_budget acc) in
      if load_kv_async h then check (cp_external h > 0) AssertionError (Inr (([], 0, enc_budget acc), s))
      else check (n > 0) AssertionError
        (bnd (try_schedule_encoder_inputs cfg r (cp_total h) n (enc_budget acc) (encoder_mgr s)) (\<lambda>(res, c).
           Inr (res, s\<lparr>encoder_mgr := c\<rparr>))))"

definition waiting_alloc :: "sched_config \<Rightarrow> string \<Rightarrow> int \<Rightarrow> computed_prefix \<Rightarrow> 'c scheduler
    \<Rightarrow> (block_ref list list option \<times> 'c scheduler) result" where
  "waiting_alloc cfg rid n h s =
     (let r = heap s rid in
      bnd (allocate_slots r (n + cp_external h) (cp_local h) (Some (cp_blocks h))
             (if num_computed_tokens r = 0 then 0 else num_lookahead_tokens cfg) (load_kv_async h)
             (if is_encoder_decoder cfg \<and> has_encoder_inputs r then sc_max_num_encoder_input_tokens cfg else 0) (kvm s)) (\<lambda>(res, km).
        Inr (res, s\<lparr>kvm := km\<rparr>)))"

type_synonym 'c wait_state = "'c scheduler \<times> sched_acc \<times> request_queue"

datatype 'a loop_ctl = Continue 'a | Break 'a

definition skip_request :: "string \<Rightarrow> 'c wait_state \<Rightarrow> 'c wait_state loop_ctl result" where
  "skip_request rid st =
     (let (s, acc, skipped) = st in
      bnd (pop_request (waiting s)) (\<lambda>(_, q).
      bnd (prepend_request (queue_entry s rid) skipped) (\<lambda>sk. Inr (Continue (s\<lparr>waiting := q\<rparr>, acc, sk)))))"

definition note_lora :: "sched_config \<Rightarrow> request \<Rightarrow> sched_acc \<Rightarrow> sched_acc" where
  "note_lora cfg r acc =
     (if max_loras cfg = None then acc
      else case lora_request r of
          None \<Rightarrow> acc
        | Some l \<Rightarrow> acc\<lparr>scheduled_loras := insert (lora_int_id l) (scheduled_loras acc)\<rparr>)"

definition classify :: "request_status \<Rightarrow> string \<Rightarrow> sched_acc \<Rightarrow> sched_acc result" where
  "classify st rid acc =
     (if st = WAITING then Inr (acc\<lparr>scheduled_new_reqs := scheduled_new_reqs acc @ [rid]\<rparr>)
      else if st = PREEMPTED then Inr (acc\<lparr>scheduled_resumed_reqs := scheduled_resumed_reqs acc @ [rid]\<rparr>)
      else Inl RuntimeError)"

definition admit_waiting :: "sched_config \<Rightarrow> rat \<Rightarrow> string \<Rightarrow> int \<Rightarrow> nat list \<Rightarrow> int \<Rightarrow> computed_prefix \<Rightarrow> 'c scheduler \<Rightarrow> sched_acc
    \<Rightarrow> ('c scheduler \<times> sched_acc) result" where
  "admit_waiting cfg now rid n inputs eb h s acc =
     bnd (classify (status (heap s rid)) rid acc) (\<lambda>acc1.
       let acc2 = note_lora cfg (heap s rid) acc1;
           acc3 = acc2\<lparr>req_to_new_blocks := (req_to_new_blocks acc2)(rid \<mapsto> km_get_blocks rid (kvm s)),
                      num_scheduled_tokens := AList.update rid n (num_scheduled_tokens acc2),
                      token_budget := token_budget acc2 - n\<rparr>;
           s1 = upd_req rid (\<lambda>r. (log_event cfg SCHEDULED now r)\<lparr>status := RUNNING, num_computed_tokens := cp_total h,
                    num_cached_tokens := (if num_cached_tokens r < 0 then cp_total h else num_cached_tokens r)\<rparr>)
                  (s\<lparr>running := running s @ [rid]\<rparr>)
       in record_encoder_inputs rid inputs eb s1 acc3)"

definition notify_alloc :: "'c sched_env \<Rightarrow> string \<Rightarrow> computed_prefix \<Rightarrow> block_ref list list \<Rightarrow> 'c scheduler \<Rightarrow> 'c scheduler" where
  "notify_alloc env rid h new s =
     (case connector env of
        None \<Rightarrow> s
      | Some k \<Rightarrow> s\<lparr>conn := update_state_after_alloc k (heap s rid) (blocks_add (cp_blocks h) new) (cp_external h) (conn s)\<rparr>)"

text \<open>After the allocation the request is popped and either waits for its remote KV or runs.\<close>

definition place_waiting :: "sched_config \<Rightarrow> 'c sched_env \<Rightarrow> rat \<Rightarrow> int \<Rightarrow> nat list \<Rightarrow> int \<Rightarrow> computed_prefix \<Rightarrow> block_ref list list
    \<Rightarrow> string \<Rightarrow> 'c wait_state \<Rightarrow> 'c wait_state loop_ctl result" where
  "place_waiting cfg env now n inputs eb h new rid st =
     (let (s, acc, skipped) = st;
          s1 = notify_alloc env rid h new s
      in bnd (pop_request (waiting s1)) (\<lambda>(e, q).
           let rid = entry_id e; s2 = s1\<lparr>waiting := q\<rparr> in
           if load_kv_async h
           then bnd (prepend_request (queue_entry s2 rid) skipped) (\<lambda>sk.
                  Inr (Continue (set_status WAITING_FOR_REMOTE_KVS rid s2, acc, sk)))
           else bnd (admit_waiting cfg now rid n inputs eb h s2 acc) (\<lambda>(s3, acc3). Inr (Continue (s3, acc3, skipped)))))"

definition waiting_step :: "sched_config \<Rightarrow> 'c sched_env \<Rightarrow> rat \<Rightarrow> 'c wait_state \<Rightarrow> 'c wait_state loop_ctl result" where
  "waiting_step cfg env now st =
     (let (s, acc, skipped) = st in
      bnd (peek_request (waiting s)) (\<lambda>e.
      let rid = entry_id e in
      bnd (waiting_ready cfg env rid s acc) (\<lambda>(ok, s1).
      if \<not> ok then skip_request rid (s1, acc, skipped)
      else bnd (waiting_computed env rid s1) (\<lambda>(hit, s2).
        case hit of
          None \<Rightarrow> skip_request rid (s2, acc, skipped)
        | Some h \<Rightarrow>
            if \<not> load_kv_async h \<and> \<not> chunked_prefill_enabled cfg \<and> waiting_demand cfg (heap s2 rid) h > token_budget acc
            then skip_request rid (s2, acc, skipped)
            else bnd (waiting_tokens cfg rid h s2 acc) (\<lambda>((inputs, n, eb), s3).
              if \<not> load_kv_async h \<and> n = 0 then Inr (Break (s3, acc, skipped))
              else bnd (waiting_alloc cfg rid n h s3) (\<lambda>(res, s4).
                case res of
                  None \<Rightarrow> Inr (Break (s4, acc, skipped))
                | Some new \<Rightarrow> place_waiting cfg env now n inputs eb h new rid (s4, acc, skipped)))))))"

text \<open>What the steps before the pop leave unchanged.\<close>

definition same_queues :: "'c scheduler \<Rightarrow> 'c scheduler \<Rightarrow> bool" where
  "same_queues s s' \<longleftrightarrow> running s' = running s \<and> waiting s' = waiting s \<and> requests s' = requests s"

lemma set_status_simps [simp]:
  "running (set_status st rid s) = running s" "waiting (set_status st rid s) = waiting s"
  "requests (set_status st rid s) = requests s" "kvm (set_status st rid s) = kvm s"
  by (simp_all add: set_status_def)

lemma read_grammar_frame: "read_grammar env rid s = (g, s') \<Longrightarrow> same_queues s s'"
  by (auto simp: read_grammar_def same_queues_def split: option.splits grammar_slot.splits)

lemma update_waiting_frame: "update_waiting_for_remote_kv cfg env rid s = Inr (b, s') \<Longrightarrow> same_queues s s'"
  by (auto simp: update_waiting_for_remote_kv_def same_queues_def Let_def split: if_splits list.splits)

lemma remote_ready_frame: "remote_ready cfg env rid s = Inr (b, s') \<Longrightarrow> same_queues s s'"
  by (auto simp: remote_ready_def same_queues_def split: if_splits dest!: update_waiting_frame)

lemma grammar_ready_frame: "grammar_ready env rid s = (b, s') \<Longrightarrow> same_queues s s'"
  by (auto simp: grammar_ready_def same_queues_def split: if_splits prod.splits dest!: read_grammar_frame)

lemma waiting_ready_frame: "waiting_ready cfg env rid s acc = Inr (b, s') \<Longrightarrow> same_queues s s'"
  by (auto simp: waiting_ready_def split: if_splits prod.splits dest!: remote_ready_frame grammar_ready_frame)
    (auto simp: same_queues_def)

lemma waiting_computed_frame: "waiting_computed env rid s = Inr (h, s') \<Longrightarrow> same_queues s s' \<and> heap s' = heap s"
  by (auto simp: waiting_computed_def same_queues_def Let_def split: if_splits option.splits prod.splits)

lemma waiting_tokens_frame: "waiting_tokens cfg rid h s acc = Inr (x, s') \<Longrightarrow> same_queues s s' \<and> heap s' = heap s"
  by (auto simp: waiting_tokens_def same_queues_def Let_def split: if_splits)

lemma waiting_alloc_frame: "waiting_alloc cfg rid n h s = Inr (x, s') \<Longrightarrow> same_queues s s' \<and> heap s' = heap s"
  by (auto simp: waiting_alloc_def same_queues_def Let_def)

lemma same_queues_trans [trans]: "same_queues a b \<Longrightarrow> same_queues b c \<Longrightarrow> same_queues a c"
  by (simp add: same_queues_def)

lemma same_queues_refl [simp]: "same_queues s s"
  by (simp add: same_queues_def)

text \<open>The ways a round of the loop can end.\<close>

lemma waiting_stepE:
  assumes "waiting_step cfg env now (s, acc, skipped) = Inr ctl"
  obtains (skip) e s1 ok s0 where "peek_request (waiting s) = Inr e" "same_queues s s1"
      "skip_request (entry_id e) (s1, acc, skipped) = Inr ctl"
      "waiting_ready cfg env (entry_id e) s acc = Inr (ok, s0)" "heap s1 = heap s0"
    | (stop) s1 e ok s0 where "same_queues s s1" "ctl = Break (s1, acc, skipped)" "peek_request (waiting s) = Inr e"
      "waiting_ready cfg env (entry_id e) s acc = Inr (ok, s0)" "heap s1 = heap s0"
    | (place) e s2 s3 s4 h inputs n eb new ok s0 where "peek_request (waiting s) = Inr e" "same_queues s s4"
      "heap s4 = heap s2" "waiting_tokens cfg (entry_id e) h s2 acc = Inr ((inputs, n, eb), s3)"
      "waiting_alloc cfg (entry_id e) n h s3 = Inr (Some new, s4)"
      "place_waiting cfg env now n inputs eb h new (entry_id e) (s4, acc, skipped) = Inr ctl"
      "waiting_ready cfg env (entry_id e) s acc = Inr (ok, s0)" "heap s4 = heap s0"
proof -
  obtain e ok s1 where e: "peek_request (waiting s) = Inr e" and r: "waiting_ready cfg env (entry_id e) s acc = Inr (ok, s1)"
    using assms by (auto simp: waiting_step_def Let_def)
  note f1 = waiting_ready_frame[OF r]
  show thesis
  proof (cases ok)
    case False
    with assms e r have "skip_request (entry_id e) (s1, acc, skipped) = Inr ctl" by (simp add: waiting_step_def Let_def)
    from skip[OF e f1 this r refl] show thesis .
  next
    case True
    obtain hit s2 where c: "waiting_computed env (entry_id e) s1 = Inr (hit, s2)"
      using assms e r True by (auto simp: waiting_step_def Let_def)
    have f2: "same_queues s s2" using f1 waiting_computed_frame[OF c] same_queues_trans by blast
    have h2: "heap s2 = heap s1" using waiting_computed_frame[OF c] by simp
    note st = assms[unfolded waiting_step_def Let_def, simplified, unfolded e, simplified, unfolded r, simplified True c, simplified, simplified c, simplified]
    show thesis
    proof (cases hit)
      case None
      with st have "skip_request (entry_id e) (s2, acc, skipped) = Inr ctl" by auto
      from skip[OF e f2 this r h2] show thesis .
    next
      case (Some h)
      show thesis
      proof (cases "\<not> load_kv_async h \<and> \<not> chunked_prefill_enabled cfg \<and> waiting_demand cfg (heap s2 (entry_id e)) h > token_budget acc")
        case True
        with st Some have "skip_request (entry_id e) (s2, acc, skipped) = Inr ctl" by auto
        from skip[OF e f2 this r h2] show thesis .
      next
        case False
        with st Some obtain inputs n eb s3 where t: "waiting_tokens cfg (entry_id e) h s2 acc = Inr ((inputs, n, eb), s3)"
          and st2: "(if \<not> load_kv_async h \<and> n = 0 then Inr (Break (s3, acc, skipped))
              else bnd (waiting_alloc cfg (entry_id e) n h s3) (\<lambda>(res, s4). case res of
                  None \<Rightarrow> Inr (Break (s4, acc, skipped))
                | Some new \<Rightarrow> place_waiting cfg env now n inputs eb h new (entry_id e) (s4, acc, skipped))) = Inr ctl"
          by auto
        have f3: "same_queues s s3" using f2 waiting_tokens_frame[OF t] same_queues_trans by blast
        show thesis
        proof (cases "\<not> load_kv_async h \<and> n = 0")
          case True
          with st2 have "ctl = Break (s3, acc, skipped)" by simp
          from stop[OF f3 this e r] waiting_tokens_frame[OF t] h2 show thesis by simp
        next
          case False
          with st2 obtain res s4 where al: "waiting_alloc cfg (entry_id e) n h s3 = Inr (res, s4)"
            and st3: "(case res of None \<Rightarrow> Inr (Break (s4, acc, skipped))
                | Some new \<Rightarrow> place_waiting cfg env now n inputs eb h new (entry_id e) (s4, acc, skipped)) = Inr ctl" by auto
          have f4: "same_queues s s4" using f3 waiting_alloc_frame[OF al] same_queues_trans by blast
          show thesis
          proof (cases res)
            case None
            with st3 have "ctl = Break (s4, acc, skipped)" by simp
            from stop[OF f4 this e r] waiting_alloc_frame[OF al] waiting_tokens_frame[OF t] h2 show thesis by simp
          next
            case (Some new)
            with st3 have p: "place_waiting cfg env now n inputs eb h new (entry_id e) (s4, acc, skipped) = Inr ctl" by simp
            have h4: "heap s4 = heap s2" using waiting_alloc_frame[OF al] waiting_tokens_frame[OF t] by simp
            from place[OF e f4 h4 t al[unfolded Some] p r h4[unfolded h2]] show thesis .
          qed
        qed
      qed
    qed
  qed
qed

lemma record_encoder_inputs_frame:
  assumes "record_encoder_inputs rid inputs eb s acc = Inr (s', acc')"
  shows "same_queues s s'" "heap s' = heap s" "kvm s' = kvm s"
    "scheduled_new_reqs acc' = scheduled_new_reqs acc" "scheduled_resumed_reqs acc' = scheduled_resumed_reqs acc"
    "scheduled_running_reqs acc' = scheduled_running_reqs acc" "preempted_reqs acc' = preempted_reqs acc"
    "num_scheduled_tokens acc' = num_scheduled_tokens acc" "token_budget acc' = token_budget acc"
    "req_to_new_blocks acc' = req_to_new_blocks acc"
  using assms by (auto simp: record_encoder_inputs_def allocate_encoder_inputs_def same_queues_def split: if_splits)

lemma note_lora_simps [simp]:
  "scheduled_new_reqs (note_lora cfg r acc) = scheduled_new_reqs acc"
  "scheduled_resumed_reqs (note_lora cfg r acc) = scheduled_resumed_reqs acc"
  "scheduled_running_reqs (note_lora cfg r acc) = scheduled_running_reqs acc"
  "preempted_reqs (note_lora cfg r acc) = preempted_reqs acc"
  "num_scheduled_tokens (note_lora cfg r acc) = num_scheduled_tokens acc"
  "token_budget (note_lora cfg r acc) = token_budget acc"
  "req_to_new_blocks (note_lora cfg r acc) = req_to_new_blocks acc"
  by (auto simp: note_lora_def split: option.splits)

lemma classify_frame:
  assumes "classify st rid acc = Inr acc'"
  shows "scheduled_running_reqs acc' = scheduled_running_reqs acc" "preempted_reqs acc' = preempted_reqs acc"
    "num_scheduled_tokens acc' = num_scheduled_tokens acc" "token_budget acc' = token_budget acc"
    "req_to_new_blocks acc' = req_to_new_blocks acc" "st = WAITING \<or> st = PREEMPTED"
    "scheduled_new_reqs acc' = scheduled_new_reqs acc @ (if st = WAITING then [rid] else [])"
    "scheduled_resumed_reqs acc' = scheduled_resumed_reqs acc @ (if st = PREEMPTED then [rid] else [])"
  using assms by (auto simp: classify_def split: if_splits)

lemma admit_waiting_frame:
  assumes "admit_waiting cfg now rid n inputs eb h s acc = Inr (s', acc')"
  shows "running s' = running s @ [rid]" "waiting s' = waiting s" "requests s' = requests s"
    "scheduled_running_reqs acc' = scheduled_running_reqs acc" "preempted_reqs acc' = preempted_reqs acc"
    "num_scheduled_tokens acc' = AList.update rid n (num_scheduled_tokens acc)"
    "token_budget acc' = token_budget acc - n"
    "length (scheduled_new_reqs acc') + length (scheduled_resumed_reqs acc')
       = Suc (length (scheduled_new_reqs acc) + length (scheduled_resumed_reqs acc))"
    "set (scheduled_new_reqs acc') \<union> set (scheduled_resumed_reqs acc')
       = insert rid (set (scheduled_new_reqs acc) \<union> set (scheduled_resumed_reqs acc))"
    "status (heap s' rid) = RUNNING" "num_computed_tokens (heap s' rid) = cp_total h"
proof -
  obtain acc1 acc3 s1 where c: "classify (status (heap s rid)) rid acc = Inr acc1"
    and r: "record_encoder_inputs rid inputs eb s1 acc3 = Inr (s', acc')"
    and s1: "running s1 = running s @ [rid]" "waiting s1 = waiting s" "requests s1 = requests s"
      "status (heap s1 rid) = RUNNING" "num_computed_tokens (heap s1 rid) = cp_total h"
    and a3: "scheduled_new_reqs acc3 = scheduled_new_reqs acc1" "scheduled_resumed_reqs acc3 = scheduled_resumed_reqs acc1"
      "scheduled_running_reqs acc3 = scheduled_running_reqs acc1" "preempted_reqs acc3 = preempted_reqs acc1"
      "num_scheduled_tokens acc3 = AList.update rid n (num_scheduled_tokens acc1)" "token_budget acc3 = token_budget acc1 - n"
    using assms by (auto simp: admit_waiting_def Let_def)
  note fr = record_encoder_inputs_frame[OF r] and fc = classify_frame[OF c]
  show "running s' = running s @ [rid]" "waiting s' = waiting s" "requests s' = requests s"
    "status (heap s' rid) = RUNNING" "num_computed_tokens (heap s' rid) = cp_total h"
    using fr(1,2) s1 by (simp_all add: same_queues_def)
  show "scheduled_running_reqs acc' = scheduled_running_reqs acc" "preempted_reqs acc' = preempted_reqs acc"
    "num_scheduled_tokens acc' = AList.update rid n (num_scheduled_tokens acc)" "token_budget acc' = token_budget acc - n"
    by (simp_all add: fr fc a3)
  show "length (scheduled_new_reqs acc') + length (scheduled_resumed_reqs acc')
       = Suc (length (scheduled_new_reqs acc) + length (scheduled_resumed_reqs acc))"
    "set (scheduled_new_reqs acc') \<union> set (scheduled_resumed_reqs acc')
       = insert rid (set (scheduled_new_reqs acc) \<union> set (scheduled_resumed_reqs acc))"
    using fc(6) by (auto simp: fr a3 fc(1-5,7,8))
qed

lemma notify_alloc_simps [simp]:
  "running (notify_alloc env rid h new s) = running s" "waiting (notify_alloc env rid h new s) = waiting s"
  "requests (notify_alloc env rid h new s) = requests s" "heap (notify_alloc env rid h new s) = heap s"
  "kvm (notify_alloc env rid h new s) = kvm s"
  by (simp_all add: notify_alloc_def split: option.splits)

lemma place_waiting_pop:
  assumes "place_waiting cfg env now n inputs eb h new rid (s, acc, skipped) = Inr ctl"
  obtains (load) e q sk s' where "pop_request (waiting s) = Inr (e, q)" "load_kv_async h"
      "ctl = Continue (s', acc, sk)" "running s' = running s" "waiting s' = q" "requests s' = requests s"
    | (run) e q s1 s' acc' where "pop_request (waiting s) = Inr (e, q)" "\<not> load_kv_async h" "waiting s1 = q"
      "running s1 = running s" "requests s1 = requests s"
      "admit_waiting cfg now (entry_id e) n inputs eb h s1 acc = Inr (s', acc')" "ctl = Continue (s', acc', skipped)"
proof -
  obtain e q where p: "pop_request (waiting s) = Inr (e, q)"
    using assms by (auto simp: place_waiting_def Let_def)
  let ?s = "notify_alloc env rid h new s\<lparr>waiting := q\<rparr>"
  show thesis
  proof (cases "load_kv_async h")
    case True
    with assms p show thesis by (auto simp: place_waiting_def Let_def intro: load)
  next
    case False
    with assms p obtain s' acc' where "admit_waiting cfg now (entry_id e) n inputs eb h ?s acc = Inr (s', acc')"
      "ctl = Continue (s', acc', skipped)"
      by (auto simp: place_waiting_def Let_def)
    with run[OF p False, of ?s] show thesis by simp
  qed
qed

lemma waiting_step_length:
  assumes "waiting_step cfg env now (s, acc, skipped) = Inr (Continue (s', acc', skipped'))"
  shows "queue_len (waiting s') < queue_len (waiting s)"
  using assms
proof (cases rule: waiting_stepE)
  case (skip e s1 ok s0)
  then show ?thesis by (auto simp: skip_request_def same_queues_def dest!: pop_request_length)
next
  case (place e s2 s3 s4 h inputs n eb new ok s0)
  note sq = place(2)
  from place(6) show ?thesis
  proof (cases rule: place_waiting_pop)
    case (load e q sk s'')
    with sq show ?thesis by (auto simp: same_queues_def dest!: pop_request_length)
  next
    case (run e q s1 s'' acc'')
    with sq admit_waiting_frame(2)[OF run(6)] show ?thesis by (auto simp: same_queues_def dest!: pop_request_length)
  qed
qed simp

text \<open>Each round that goes on pops a request, so the loop ends.\<close>

function waiting_loop :: "sched_config \<Rightarrow> 'c sched_env \<Rightarrow> rat \<Rightarrow> 'c wait_state \<Rightarrow> 'c wait_state result" where
  "waiting_loop cfg env now st =
     (if queue_len (waiting (fst st)) > 0 \<and> token_budget (fst (snd st)) > 0
         \<and> length (running (fst st)) \<noteq> max_num_running_reqs cfg
      then bnd (waiting_step cfg env now st) (\<lambda>ctl. case ctl of
             Break st' \<Rightarrow> Inr st'
           | Continue st' \<Rightarrow> waiting_loop cfg env now st')
      else Inr st)"
  by pat_completeness auto
termination
  by (relation "measure (\<lambda>(_, _, _, st). queue_len (waiting (fst st)))") (auto dest!: waiting_step_length)

declare waiting_loop.simps [simp del]

lemma waiting_loop_inv:
  assumes "waiting_loop cfg env now st = Inr st'" "P st"
    and step: "\<And>st ctl. P st \<Longrightarrow> token_budget (fst (snd st)) > 0 \<Longrightarrow> length (running (fst st)) \<noteq> max_num_running_reqs cfg
      \<Longrightarrow> waiting_step cfg env now st = Inr ctl \<Longrightarrow> (case ctl of Break st' \<Rightarrow> P st' | Continue st' \<Rightarrow> P st')"
  shows "P st'"
  using assms(1,2)
proof (induction "queue_len (waiting (fst st))" arbitrary: st rule: less_induct)
  case less
  show ?case
  proof (cases "queue_len (waiting (fst st)) > 0 \<and> token_budget (fst (snd st)) > 0 \<and> length (running (fst st)) \<noteq> max_num_running_reqs cfg")
    case True
    with less.prems(1)[unfolded waiting_loop.simps[of cfg env now st]] obtain ctl where
      ctl: "waiting_step cfg env now st = Inr ctl"
      and rest: "(case ctl of Break st' \<Rightarrow> Inr st' | Continue st' \<Rightarrow> waiting_loop cfg env now st') = Inr st'"
      by auto
    note P = step[OF less.prems(2) _ _ ctl]
    show ?thesis
    proof (cases ctl)
      case (Continue st1)
      have "queue_len (waiting (fst st1)) < queue_len (waiting (fst st))"
        using waiting_step_length ctl Continue by (metis fst_conv surj_pair)
      from less.hyps[OF this] rest P True Continue show ?thesis by simp
    next
      case (Break st1)
      with rest P True show ?thesis by simp
    qed
  next
    case False
    with less.prems show ?thesis by (auto simp: waiting_loop.simps[of cfg env now st])
  qed
qed

section \<open>The step\<close>

definition collect_loras :: "sched_config \<Rightarrow> 'c scheduler \<Rightarrow> sched_acc \<Rightarrow> sched_acc result" where
  "collect_loras cfg s acc =
     (case max_loras cfg of
        None \<Rightarrow> Inr acc
      | Some k \<Rightarrow>
          let ids = set (concat (map (\<lambda>rid. case lora_request (heap s rid) of
                      None \<Rightarrow> [] | Some l \<Rightarrow> if lora_int_id l > 0 then [lora_int_id l] else []) (scheduled_running_reqs acc)))
          in check (card ids \<le> k) AssertionError (Inr (acc\<lparr>scheduled_loras := ids\<rparr>)))"

definition put_back_skipped :: "request_queue \<Rightarrow> 'c scheduler \<Rightarrow> 'c scheduler result" where
  "put_back_skipped skipped s =
     (if queue_len skipped = 0 then Inr s
      else bnd (prepend_requests skipped (waiting s)) (\<lambda>q. Inr (s\<lparr>waiting := q\<rparr>)))"

definition schedule_requests :: "sched_config \<Rightarrow> 'c sched_env \<Rightarrow> rat \<Rightarrow> 'c scheduler \<Rightarrow> ('c scheduler \<times> sched_acc) result" where
  "schedule_requests cfg env now s =
     bnd (running_loop cfg env now 0 s (acc_init cfg)) (\<lambda>(s1, acc1).
     bnd (collect_loras cfg s1 acc1) (\<lambda>acc2.
     bnd (if preempted_reqs acc2 = [] then waiting_loop cfg env now (s1, acc2, create_request_queue (policy cfg))
          else Inr (s1, acc2, create_request_queue (policy cfg))) (\<lambda>(s2, acc3, skipped).
     bnd (put_back_skipped skipped s2) (\<lambda>s3. Inr (s3, acc3)))))"

text \<open>The assertions on the result.\<close>

definition constraints_ok :: "sched_config \<Rightarrow> 'c scheduler \<Rightarrow> sched_acc \<Rightarrow> bool" where
  "constraints_ok cfg s acc \<longleftrightarrow>
     sum_list (map snd (num_scheduled_tokens acc)) \<le> max_num_scheduled_tokens cfg
   \<and> token_budget acc \<ge> 0
   \<and> length (running s) \<le> max_num_running_reqs cfg
   \<and> length (scheduled_new_reqs acc) + length (scheduled_resumed_reqs acc) + length (scheduled_running_reqs acc)
       \<le> length (running s)"

definition common_prefix :: "'c scheduler \<Rightarrow> (int list \<times> 'c scheduler) result" where
  "common_prefix s =
     (case running s of
        [] \<Rightarrow> Inr (map (\<lambda>_. 0) (kv_cache_groups (co_config (coordinator (kvm s)))), s)
      | rid # _ \<Rightarrow> bnd (km_get_num_common_prefix_blocks (heap s rid) (int (length (running s))) (kvm s)) (\<lambda>(ns, km).
          Inr (ns, s\<lparr>kvm := km\<rparr>)))"

text \<open>A slice \<^verbatim>\<open>xs[a:b]\<close>: negative bounds count from the end and bounds are clipped.\<close>

definition slice_index :: "nat \<Rightarrow> int \<Rightarrow> nat" where
  "slice_index len i = (if i < 0 then nat (int len + i) else min (nat i) len)"

definition py_slice :: "'a list \<Rightarrow> int \<Rightarrow> int \<Rightarrow> 'a list" where
  "py_slice xs a b =
     (let i = slice_index (length xs) a; j = slice_index (length xs) b in take (j - i) (drop i xs))"

definition cached_request :: "sched_config \<Rightarrow> 'c sched_env \<Rightarrow> 'c scheduler \<Rightarrow> sched_acc \<Rightarrow> string
    \<Rightarrow> (int list list \<times> int list list option \<times> int) result" where
  "cached_request cfg env s acc rid =
     bnd (lookup_py (map_of (num_scheduled_tokens acc)) rid) (\<lambda>n.
       let r = heap s rid;
           n' = n - int (length (case map_of (scheduled_spec_decode_tokens acc) rid of None \<Rightarrow> [] | Some ts \<Rightarrow> ts));
           toks = (if use_pp cfg
                   then [py_slice (all_token_ids r) (num_computed_tokens r) (num_computed_tokens r + n')]
                   else if connector env \<noteq> None then [[]] else [])
       in bnd (lookup_py (req_to_new_blocks acc) rid) (\<lambda>bs.
            Inr (toks, get_block_ids (co_pool (coordinator (kvm s))) True bs, num_computed_tokens r)))"

definition make_cached_request_data :: "sched_config \<Rightarrow> 'c sched_env \<Rightarrow> 'c scheduler \<Rightarrow> sched_acc \<Rightarrow> cached_request_data result" where
  "make_cached_request_data cfg env s acc =
     (let ids = scheduled_running_reqs acc @ scheduled_resumed_reqs acc in
      bnd (map_res (cached_request cfg env s acc) ids) (\<lambda>rows.
        Inr \<lparr>cd_req_ids = ids,
             resumed_from_preemption = replicate (length (scheduled_running_reqs acc)) False
               @ replicate (length (scheduled_resumed_reqs acc)) True,
             new_token_ids = concat (map fst rows), new_block_ids = map (fst \<circ> snd) rows,
             cd_num_computed_tokens = map (snd \<circ> snd) rows\<rparr>))"

definition new_requests_data :: "'c scheduler \<Rightarrow> sched_acc \<Rightarrow> new_request_data list result" where
  "new_requests_data s acc =
     map_res (\<lambda>rid. bnd (lookup_py (req_to_new_blocks acc) rid) (\<lambda>bs.
       Inr (from_request (heap s rid) (block_ids (co_pool (coordinator (kvm s))) bs)))) (scheduled_new_reqs acc)"

definition get_grammar_bitmask :: "'c sched_env \<Rightarrow> 'c scheduler \<Rightarrow> string list \<Rightarrow> (string \<times> int list) list
    \<Rightarrow> (string \<times> nat) list \<times> nat option" where
  "get_grammar_bitmask env s rids spec =
     (let ids = fold (\<lambda>(i, rid) d. if use_structured_output (heap s rid) then AList.update rid i d else d)
                  (zip [0..<length rids] rids) []
      in (ids, if ids = [] then None else Some (fill_bitmask env (heap s) ids spec)))"

definition make_output :: "sched_config \<Rightarrow> 'c sched_env \<Rightarrow> 'c scheduler \<Rightarrow> sched_acc \<Rightarrow> (scheduler_output \<times> 'c scheduler) result" where
  "make_output cfg env s acc =
     bnd (common_prefix s) (\<lambda>(ns, s1).
     bnd (new_requests_data s1 acc) (\<lambda>new.
     bnd (make_cached_request_data cfg env s1 acc) (\<lambda>cached.
       let (ids, bitmask) = get_grammar_bitmask env s1
              (scheduled_new_reqs acc @ scheduled_running_reqs acc @ scheduled_resumed_reqs acc) (scheduled_spec_decode_tokens acc);
           (hashes, em) = get_freed_mm_hashes (encoder_mgr s1)
       in Inr (\<lparr>so_new_reqs = new, so_cached_reqs = cached, so_num_scheduled_tokens = num_scheduled_tokens acc,
                total_num_scheduled_tokens = sum_list (map snd (num_scheduled_tokens acc)),
                so_spec_decode_tokens = scheduled_spec_decode_tokens acc,
                so_encoder_inputs = scheduled_encoder_inputs acc, so_num_common_prefix_blocks = ns,
                so_finished_req_ids = finished_req_ids s1, free_encoder_mm_hashes = hashes,
                structured_output_request_ids = ids, so_grammar_bitmask = bitmask, kv_connector_metadata = None\<rparr>,
               s1\<lparr>encoder_mgr := em\<rparr>))))"

text \<open>The connector adds its metadata; the events of the KV cache and of the connector are published.\<close>

definition attach_connector_meta :: "'c sched_env \<Rightarrow> scheduler_output \<Rightarrow> 'c scheduler \<Rightarrow> scheduler_output \<times> 'c scheduler" where
  "attach_connector_meta env out s =
     (case connector env of
        None \<Rightarrow> (out, s)
      | Some k \<Rightarrow> let (meta, c) = build_connector_meta k out (conn s)
                  in (out\<lparr>kv_connector_metadata := Some meta\<rparr>, s\<lparr>conn := c\<rparr>))"

definition collect_events :: "'c sched_env \<Rightarrow> 'c scheduler \<Rightarrow> kv_event list \<times> 'c scheduler" where
  "collect_events env s =
     (let (es, km) = km_take_events (kvm s); s1 = s\<lparr>kvm := km\<rparr> in
      case connector env of
        None \<Rightarrow> (es, s1)
      | Some k \<Rightarrow> let (ces, c) = conn_take_events k (conn s1) in (es @ ces, s1\<lparr>conn := c\<rparr>))"

definition advance_request :: "sched_config \<Rightarrow> 'c sched_env \<Rightarrow> string \<times> int \<Rightarrow> 'c scheduler \<Rightarrow> 'c scheduler result" where
  "advance_request cfg env kn s =
     (let (rid, n) = kn in
      check (rid \<in> requests s) KeyError
        (let s1 = upd_req rid (\<lambda>r. r\<lparr>num_computed_tokens := num_computed_tokens r + n\<rparr>) s
         in if has_encoder_inputs (heap s1 rid) then free_encoder_inputs cfg env rid s1 else Inr s1))"

definition update_after_schedule :: "sched_config \<Rightarrow> 'c sched_env \<Rightarrow> scheduler_output \<Rightarrow> 'c scheduler \<Rightarrow> 'c scheduler result" where
  "update_after_schedule cfg env out s =
     bnd (for_each (advance_request cfg env) (so_num_scheduled_tokens out) s) (\<lambda>s1.
       Inr (s1\<lparr>finished_req_ids := {}\<rparr>))"

text \<open>\<^verbatim>\<open>schedule\<close> returns the output; the published events are a second result. The method that advances
  the computed tokens is an argument, because the asynchronous scheduler overrides it.\<close>

definition schedule_with :: "(scheduler_output \<Rightarrow> 'c scheduler \<Rightarrow> 'c scheduler result) \<Rightarrow> sched_config \<Rightarrow> 'c sched_env \<Rightarrow> rat
    \<Rightarrow> 'c scheduler \<Rightarrow> (scheduler_output \<times> kv_event list \<times> 'c scheduler) result" where
  "schedule_with after cfg env now s =
     bnd (schedule_requests cfg env now s) (\<lambda>(s1, acc).
     check (constraints_ok cfg s1 acc) AssertionError
       (bnd (make_output cfg env s1 acc) (\<lambda>(out, s2).
        let (out1, s3) = attach_connector_meta env out s2;
            (events, s4) = collect_events env s3
        in bnd (after out1 s4) (\<lambda>s5. Inr (out1, events, s5)))))"

definition schedule :: "sched_config \<Rightarrow> 'c sched_env \<Rightarrow> rat \<Rightarrow> 'c scheduler \<Rightarrow> (scheduler_output \<times> kv_event list \<times> 'c scheduler) result" where
  "schedule cfg env = schedule_with (update_after_schedule cfg env) cfg env"

end
