(* ===== verification/Sched_Budget.thy ===== *)
theory Sched_Budget
  imports Sched_Schedule Kv_Invariant
begin

text \<open>
  Correctness of a scheduling step: the loops of \<open>schedule_requests\<close> keep the token budget, the limit on
  running requests and the bookkeeping lists consistent, so the assertions at the end of
  \<^verbatim>\<open>Scheduler.schedule\<close> hold.
\<close>

section \<open>Lists\<close>

lemma set_drop_remove1: "set (drop k (remove1 v xs)) \<subseteq> set (drop k xs)"
proof (induction xs arbitrary: k)
  case (Cons x xs)
  show ?case
  proof (cases k)
    case 0
    then show ?thesis by (metis drop0 set_remove1_subset)
  next
    case (Suc j)
    have "set (drop (Suc j) xs) \<subseteq> set (drop j xs)" by (simp add: set_drop_subset_set_drop)
    with Cons[of j] Suc show ?thesis by auto
  qed
qed simp

lemma set_take_remove1: "set (take k xs) - {v} \<subseteq> set (take k (remove1 v xs))"
proof (induction xs arbitrary: k)
  case (Cons x xs)
  show ?case
  proof (cases k)
    case (Suc j)
    have "set (take j xs) \<subseteq> set (take (Suc j) xs)" by (simp add: set_take_subset_set_take)
    with Cons[of j] Suc show ?thesis by auto
  qed simp
qed simp

lemma butlast_remove1: "distinct xs \<Longrightarrow> xs \<noteq> [] \<Longrightarrow> butlast xs = remove1 (last xs) xs"
  by (induction xs rule: rev_induct) (auto simp: remove1_append)

lemma last_notin_take: "distinct xs \<Longrightarrow> i < length xs \<Longrightarrow> last xs \<notin> set (take i xs)"
  by (metis append_take_drop_id distinct_append disjoint_iff drop_eq_Nil last_drop last_in_set not_less)

lemma sum_update_fresh:
  "k \<notin> fst ` set l \<Longrightarrow> sum_list (map snd (AList.update k (v :: int) l)) = sum_list (map snd l) + v"
  by (induction l) auto

section \<open>Encoder inputs never raise the number of tokens\<close>

lemma encoder_loop_tokens:
  "encoder_loop cfg r nc fs hashes tokens inputs n budget c = Inr ((inputs', n', budget'), c') \<Longrightarrow> n' \<le> n \<or> n' = 0"
proof (induction fs arbitrary: hashes tokens inputs n budget c)
  case (Cons a fs)
  obtain i f where a: "a = (i, f)" by (cases a)
  from Cons.prems show ?case
    unfolding a encoder_loop.simps Let_def
    by (auto split: if_splits dest!: Cons.IH)
qed simp

lemma try_schedule_tokens:
  "try_schedule_encoder_inputs cfg r nc n budget c = Inr ((inputs, n', budget'), c') \<Longrightarrow> n' \<le> n \<or> n' = 0"
  by (auto simp: try_schedule_encoder_inputs_def split: if_splits dest: encoder_loop_tokens)

lemma running_tokens_le: "running_tokens cfg b r \<le> b"
  by (simp add: running_tokens_def)

section \<open>The loop over the running requests\<close>

definition scheduled_ids :: "sched_acc \<Rightarrow> string set" where
  "scheduled_ids acc = fst ` set (num_scheduled_tokens acc)"

text \<open>The budget is what is left of the configured number of tokens.\<close>

definition budget_ok :: "sched_config \<Rightarrow> sched_acc \<Rightarrow> bool" where
  "budget_ok cfg acc \<longleftrightarrow> sum_list (map snd (num_scheduled_tokens acc)) = max_num_scheduled_tokens cfg - token_budget acc
     \<and> token_budget acc \<ge> 0"

text \<open>\<open>w\<close> and \<open>rs\<close> are the waiting queue and the running list at the start of the step; \<open>i\<close> is
  \<^verbatim>\<open>req_index\<close>.\<close>

definition running_inv :: "sched_config \<Rightarrow> request_queue \<Rightarrow> string list \<Rightarrow> nat \<Rightarrow> 'c scheduler \<Rightarrow> sched_acc \<Rightarrow> bool" where
  "running_inv cfg w rs i s acc \<longleftrightarrow>
     distinct (running s) \<and> length (running s) \<le> max_num_running_reqs cfg \<and> set (running s) \<subseteq> set rs
   \<and> budget_ok cfg acc
   \<and> scheduled_ids acc \<inter> set (drop i (running s)) = {} \<and> scheduled_ids acc \<subseteq> set rs
   \<and> distinct (scheduled_running_reqs acc) \<and> set (scheduled_running_reqs acc) \<subseteq> set (take i (running s))
   \<and> set (scheduled_running_reqs acc) \<subseteq> scheduled_ids acc
   \<and> (policy cfg = FCFS \<longrightarrow> scheduled_ids acc \<subseteq> set (scheduled_running_reqs acc))
   \<and> scheduled_new_reqs acc = [] \<and> scheduled_resumed_reqs acc = []
   \<and> (preempted_reqs acc = [] \<longrightarrow> waiting s = w \<and> running s = rs)"

text \<open>Within the allocation loop of the request \<open>rid\<close> at position \<open>i\<close>.\<close>

definition alloc_inv :: "sched_config \<Rightarrow> request_queue \<Rightarrow> string list \<Rightarrow> nat \<Rightarrow> string \<Rightarrow> 'c scheduler \<Rightarrow> sched_acc \<Rightarrow> bool" where
  "alloc_inv cfg w rs i rid s acc \<longleftrightarrow> running_inv cfg w rs i s acc \<and> rid \<in> set (take (Suc i) (running s))
     \<and> rid \<notin> scheduled_ids acc \<and> (policy cfg = FCFS \<longrightarrow> i < length (running s) \<and> running s ! i = rid)"

lemma preempt_one_shape:
  assumes "preempt_one cfg env now s acc = Inr (v, s', acc')" "distinct (running s)"
  shows "v \<in> set (running s)" "running s' = remove1 v (running s)"
    "acc' = acc\<lparr>scheduled_running_reqs := (if policy cfg = PRIORITY then remove1 v (scheduled_running_reqs acc)
        else scheduled_running_reqs acc), preempted_reqs := preempted_reqs acc @ [v]\<rparr>"
    "policy cfg = FCFS \<Longrightarrow> v = last (running s)"
proof -
  obtain s1 where c: "choose_victim cfg s = Inr (v, s1)" and r: "running s' = running s1"
    using preempt_one_running[OF assms(1)] by blast
  note d = choose_victimD[OF c]
  show "v \<in> set (running s)" using d(1) .
  show "policy cfg = FCFS \<Longrightarrow> v = last (running s)" using d(3) by simp
  show "running s' = remove1 v (running s)"
  proof (cases "policy cfg")
    case FCFS
    with d(3) butlast_remove1[OF assms(2)] r show ?thesis by auto
  next
    case PRIORITY
    with d(2) r show ?thesis by simp
  qed
  show "acc' = acc\<lparr>scheduled_running_reqs := (if policy cfg = PRIORITY then remove1 v (scheduled_running_reqs acc)
        else scheduled_running_reqs acc), preempted_reqs := preempted_reqs acc @ [v]\<rparr>"
    using assms(1) by (auto simp: preempt_one_def Let_def)
qed

lemma preempt_one_inv:
  assumes p: "preempt_one cfg env now s acc = Inr (v, s', acc')" and inv: "alloc_inv cfg w rs i rid s acc"
  shows "if v = rid then running_inv cfg w rs i s' acc' else alloc_inv cfg w rs i rid s' acc'"
proof -
  have d: "distinct (running s)" using inv by (simp add: alloc_inv_def running_inv_def)
  note sh = preempt_one_shape[OF p d]
  let ?r = "running s" and ?q = "scheduled_running_reqs acc"
  have sub: "set ?q \<subseteq> set (take i ?r)" "distinct ?q" using inv by (simp_all add: alloc_inv_def running_inv_def)
  have q: "distinct (scheduled_running_reqs acc') \<and> set (scheduled_running_reqs acc') \<subseteq> set (take i (running s'))
      \<and> set (scheduled_running_reqs acc') \<subseteq> set ?q
      \<and> (policy cfg = FCFS \<longrightarrow> scheduled_running_reqs acc' = ?q)"
  proof (cases "policy cfg")
    case FCFS
    then have "v \<notin> set (take i ?r)" using sh(4) last_notin_take[OF d] inv by (auto simp: alloc_inv_def)
    with sub set_take_remove1[of i ?r v] FCFS show ?thesis by (auto simp: sh(2,3))
  next
    case PRIORITY
    with sub set_take_remove1[of i ?r v] show ?thesis by (auto simp: sh(2,3))
  qed
  have acc: "scheduled_ids acc' = scheduled_ids acc" "budget_ok cfg acc' = budget_ok cfg acc" "preempted_reqs acc' \<noteq> []"
    "scheduled_new_reqs acc' = scheduled_new_reqs acc" "scheduled_resumed_reqs acc' = scheduled_resumed_reqs acc"
    by (simp_all add: sh(3) scheduled_ids_def budget_ok_def)
  have r: "distinct (running s')" "length (running s') \<le> length ?r" "set (running s') \<subseteq> set ?r"
    "set (drop i (running s')) \<subseteq> set (drop i ?r)"
    using d set_drop_remove1[of i v ?r] set_remove1_subset[of v ?r] by (simp_all add: sh(2) length_remove1)
  have base: "running_inv cfg w rs i s' acc'"
  proof -
    have I: "running_inv cfg w rs i s acc" using inv by (simp add: alloc_inv_def)
    then have 1: "length (running s') \<le> max_num_running_reqs cfg" "set (running s') \<subseteq> set rs"
      "scheduled_ids acc \<inter> set (drop i (running s')) = {}" "set (scheduled_running_reqs acc') \<subseteq> scheduled_ids acc"
      using r q unfolding running_inv_def by (linarith, blast, blast, blast)
    then show ?thesis using I q r(1) acc(3) unfolding running_inv_def acc(1,2,4,5) by simp
  qed
  have "alloc_inv cfg w rs i rid s' acc'" if ne: "v \<noteq> rid"
  proof -
    have "rid \<in> set (take (Suc i) (running s'))"
      using inv ne set_take_remove1[of "Suc i" ?r v] by (auto simp: alloc_inv_def sh(2))
    moreover have "i < length (running s') \<and> running s' ! i = rid" if f: "policy cfg = FCFS"
    proof -
      have i: "i < length ?r" "?r ! i = rid" using inv f by (auto simp: alloc_inv_def)
      have b: "running s' = butlast ?r" using sh(2,4) f butlast_remove1[OF d] i(1) by force
      have "?r ! i \<noteq> last ?r" using i ne sh(4) f by simp
      then have "i < length ?r - 1" using i(1) by (metis last_conv_nth length_greater_0_conv less_antisym
          less_nat_zero_code linorder_neqE_nat Suc_diff_1 not_less_eq)
      then show ?thesis using i b by (simp add: nth_butlast)
    qed
    ultimately show ?thesis using inv base by (auto simp: alloc_inv_def sh(3) scheduled_ids_def)
  qed
  with base show ?thesis by simp
qed

lemma alloc_inv_kvm [simp]: "alloc_inv cfg w rs i rid (s\<lparr>kvm := km\<rparr>) acc = alloc_inv cfg w rs i rid s acc"
  by (simp add: alloc_inv_def running_inv_def)

lemma running_inv_encoder [simp]: "running_inv cfg w rs i (s\<lparr>encoder_mgr := c\<rparr>) acc = running_inv cfg w rs i s acc"
  by (simp add: running_inv_def)

lemma running_inv_Suc:
  assumes "running_inv cfg w rs i s acc"
  shows "running_inv cfg w rs (Suc i) s acc"
  using assms set_drop_subset_set_drop[of i "Suc i" "running s"] set_take_subset_set_take[of i "Suc i" "running s"]
  unfolding running_inv_def by auto

lemma alloc_loop_alloc_inv:
  assumes "alloc_loop cfg env now rid n s acc = Inr (res, s', acc')" "alloc_inv cfg w rs i rid s acc"
  shows "case res of None \<Rightarrow> running_inv cfg w rs i s' acc' | Some _ \<Rightarrow> alloc_inv cfg w rs i rid s' acc'
    \<and> token_budget acc' = token_budget acc"
proof -
  have "case res of None \<Rightarrow> running_inv cfg w rs i s' acc'
    | Some _ \<Rightarrow> alloc_inv cfg w rs i rid s' acc' \<and> token_budget acc' = token_budget acc"
    using assms(1)
  proof (rule alloc_loop_inv[where P = "\<lambda>t a. alloc_inv cfg w rs i rid t a \<and> token_budget a = token_budget acc"])
    show "alloc_inv cfg w rs i rid s acc \<and> token_budget acc = token_budget acc" using assms(2) by simp
  next
    fix t a res t1
    assume "alloc_inv cfg w rs i rid t a \<and> token_budget a = token_budget acc" "running_alloc cfg rid n t = Inr (res, t1)"
    then show "alloc_inv cfg w rs i rid t1 a \<and> token_budget a = token_budget acc" by (auto simp: running_alloc_def)
  next
    fix t a v t2 a2
    assume P: "alloc_inv cfg w rs i rid t a \<and> token_budget a = token_budget acc"
      and p: "preempt_one cfg env now t a = Inr (v, t2, a2)"
    have "token_budget a2 = token_budget a" using p by (auto simp: preempt_one_def Let_def)
    with preempt_one_inv[OF p] P show "if v = rid then running_inv cfg w rs i t2 a2
        else alloc_inv cfg w rs i rid t2 a2 \<and> token_budget a2 = token_budget acc" by (auto split: if_splits)
  qed
  then show ?thesis .
qed

lemma budget_ok_schedule:
  assumes "budget_ok cfg acc" "rid \<notin> scheduled_ids acc" "n \<le> token_budget acc"
    and "num_scheduled_tokens acc' = AList.update rid n (num_scheduled_tokens acc)" "token_budget acc' = token_budget acc - n"
  shows "budget_ok cfg acc'" "scheduled_ids acc' = insert rid (scheduled_ids acc)"
proof -
  show "budget_ok cfg acc'"
    using assms sum_update_fresh[of rid "num_scheduled_tokens acc" n] by (simp add: budget_ok_def scheduled_ids_def)
  show "scheduled_ids acc' = insert rid (scheduled_ids acc)"
    using dom_update[of rid n "num_scheduled_tokens acc"] by (simp add: scheduled_ids_def assms(4) dom_map_of_conv_image_fst flip: dom_map_of_conv_image_fst)
qed

lemma commit_running_inv:
  assumes c: "commit_running rid n blocks inputs eb s acc = Inr (s', acc')" and inv: "alloc_inv cfg w rs i rid s acc"
    and n: "n \<le> token_budget acc"
  shows "running_inv cfg w rs (Suc i) s' acc'"
proof -
  note f = commit_running_frame[OF c]
  have b: "budget_ok cfg acc'" "scheduled_ids acc' = insert rid (scheduled_ids acc)"
    using budget_ok_schedule[OF _ _ n f(11,12), of cfg] inv by (auto simp: alloc_inv_def running_inv_def)
  have d: "distinct (running s)" and rid: "rid \<in> set (take (Suc i) (running s))" "rid \<notin> scheduled_ids acc"
    using inv by (simp_all add: alloc_inv_def running_inv_def)
  have nd: "rid \<notin> set (drop (Suc i) (running s))"
    using d rid by (metis append_take_drop_id disjoint_iff distinct_append)
  have "running_inv cfg w rs (Suc i) s acc" "rid \<in> set rs" "rid \<notin> set (scheduled_running_reqs acc)"
    using inv rid in_set_takeD[OF rid(1)] by (auto simp: alloc_inv_def running_inv_Suc) (auto simp: running_inv_def)
  then show ?thesis using b nd rid
    unfolding running_inv_def f(1,2,7-10) by (simp add: subset_insertI2)
qed

lemma running_step_inv:
  assumes st: "running_step cfg env now (running s ! i) s acc = Inr (b, s', acc')"
    and inv: "running_inv cfg w rs i s acc" and i: "i < length (running s)"
  shows "running_inv cfg w rs (if b then Suc i else i) s' acc'"
proof -
  let ?rid = "running s ! i" and ?r = "heap s (running s ! i)"
  obtain inputs n eb c where t: "try_schedule_encoder_inputs cfg ?r (num_computed_tokens ?r)
      (running_tokens cfg (token_budget acc) ?r) (enc_budget acc) (encoder_mgr s) = Inr ((inputs, n, eb), c)"
    using st by (auto simp: running_step_def Let_def)
  have "token_budget acc \<ge> 0" using inv by (simp add: running_inv_def budget_ok_def)
  then have n: "n \<le> token_budget acc"
    using try_schedule_tokens[OF t] running_tokens_le[of cfg "token_budget acc" ?r] by linarith
  have inv1: "running_inv cfg w rs i (s\<lparr>encoder_mgr := c\<rparr>) acc" using inv by simp
  have a: "alloc_inv cfg w rs i ?rid (s\<lparr>encoder_mgr := c\<rparr>) acc"
    using inv1 i inv unfolding alloc_inv_def
    by (auto simp: running_inv_def take_Suc_conv_app_nth Cons_nth_drop_Suc[symmetric])
  show ?thesis
  proof (cases "n = 0")
    case True
    with st t have "b" "s' = s\<lparr>encoder_mgr := c\<rparr>" "acc' = acc" by (auto simp: running_step_def Let_def)
    then show ?thesis using running_inv_Suc[OF inv1] by simp
  next
    case False
    with st t obtain res s2 acc2 where al: "alloc_loop cfg env now ?rid n (s\<lparr>encoder_mgr := c\<rparr>) acc = Inr (res, s2, acc2)"
      and rest: "(case res of None \<Rightarrow> Inr (False, s2, acc2)
          | Some blocks \<Rightarrow> bnd (commit_running ?rid n blocks inputs eb s2 acc2) (\<lambda>(s3, acc3). Inr (True, s3, acc3))) = Inr (b, s', acc')"
      by (auto simp: running_step_def Let_def)
    note ai = alloc_loop_alloc_inv[OF al a]
    show ?thesis
    proof (cases res)
      case None
      with ai rest show ?thesis by simp
    next
      case (Some blocks)
      with ai rest n show ?thesis by (auto dest: commit_running_inv)
    qed
  qed
qed

lemma running_loop_inv:
  assumes "running_loop cfg env now i s acc = Inr (s', acc')" "running_inv cfg w rs i s acc"
  shows "\<exists>j. running_inv cfg w rs j s' acc'"
  using running_loop_rule[OF assms(1), where P = "running_inv cfg w rs"] assms(2) running_step_inv by blast

section \<open>The loop over the waiting requests\<close>

definition waiting_ids :: "'c scheduler \<Rightarrow> string set" where
  "waiting_ids s = entry_id ` set (queue_seq (waiting s))"

definition wait_inv :: "sched_config \<Rightarrow> 'c wait_state \<Rightarrow> bool" where
  "wait_inv cfg st \<longleftrightarrow> (case st of (s, acc, _) \<Rightarrow>
     length (running s) \<le> max_num_running_reqs cfg \<and> budget_ok cfg acc
   \<and> length (scheduled_new_reqs acc) + length (scheduled_resumed_reqs acc) + length (scheduled_running_reqs acc)
       \<le> length (running s)
   \<and> set (scheduled_new_reqs acc) \<union> set (scheduled_resumed_reqs acc) \<union> set (scheduled_running_reqs acc)
       \<subseteq> set (running s) \<inter> scheduled_ids acc
   \<and> (policy cfg = FCFS \<longrightarrow> scheduled_ids acc
       \<subseteq> set (scheduled_new_reqs acc) \<union> set (scheduled_resumed_reqs acc) \<union> set (scheduled_running_reqs acc))
   \<and> rqueue_ok (waiting s) \<and> distinct (map entry_id (queue_seq (waiting s)))
   \<and> scheduled_ids acc \<inter> waiting_ids s = {})"

lemma pop_seq:
  assumes "pop_request q = Inr (e, q')" "rqueue_ok q"
  shows "queue_seq q = e # queue_seq q'" "rqueue_ok q'"
proof -
  show "queue_seq q = e # queue_seq q'"
    using assms rq.pop_Nil[OF assms(2)] rq.pop_Cons[OF assms(2)] by (cases "queue_seq q") fastforce+
  then show "rqueue_ok q'" using assms rq.pop_Cons[OF assms(2)] by fastforce
qed

lemma wait_inv_same_queues: "same_queues s s' \<Longrightarrow> wait_inv cfg (s, acc, sk) \<Longrightarrow> wait_inv cfg (s', acc, sk')"
  by (simp add: wait_inv_def same_queues_def waiting_ids_def)

lemma wait_inv_pop:
  assumes "wait_inv cfg (s, acc, sk)" "pop_request (waiting s) = Inr (e, q)" "waiting s' = q" "running s' = running s"
  shows "wait_inv cfg (s', acc, sk')" "entry_id e \<notin> scheduled_ids acc" "entry_id e \<notin> waiting_ids s'"
  using assms(1) pop_seq[OF assms(2)] by (auto simp: wait_inv_def waiting_ids_def assms(3,4))

lemma waiting_tokens_le:
  assumes "waiting_tokens cfg rid h s acc = Inr ((inputs, n, eb), s')" "token_budget acc \<ge> 0"
  shows "n \<le> token_budget acc"
  using assms by (auto simp: waiting_tokens_def Let_def split: if_splits dest!: try_schedule_tokens)

lemma admit_waiting_inv:
  assumes a: "admit_waiting cfg now rid n inputs eb h s acc = Inr (s', acc')" and inv: "wait_inv cfg (s, acc, sk)"
    and fresh: "rid \<notin> scheduled_ids acc" "rid \<notin> waiting_ids s" and n: "n \<le> token_budget acc"
    and len: "length (running s) \<noteq> max_num_running_reqs cfg"
  shows "wait_inv cfg (s', acc', sk')"
proof -
  note f = admit_waiting_frame[OF a]
  have b: "budget_ok cfg acc'" "scheduled_ids acc' = insert rid (scheduled_ids acc)"
    using budget_ok_schedule[OF _ fresh(1) n f(6,7), of cfg] inv by (auto simp: wait_inv_def)
  have w: "waiting_ids s' = waiting_ids s" by (simp add: waiting_ids_def f)
  have "set (scheduled_new_reqs acc') \<union> set (scheduled_resumed_reqs acc') \<union> set (scheduled_running_reqs acc')
      = insert rid (set (scheduled_new_reqs acc) \<union> set (scheduled_resumed_reqs acc) \<union> set (scheduled_running_reqs acc))"
    using f(9) by (auto simp: f(4))
  then show ?thesis
    using inv b w fresh f(8) len unfolding wait_inv_def prod.case f(1,2,4) by (simp add: le_infI1) blast
qed

lemma waiting_step_inv:
  assumes st: "waiting_step cfg env now (s, acc, sk) = Inr ctl" and inv: "wait_inv cfg (s, acc, sk)"
    and len: "length (running s) \<noteq> max_num_running_reqs cfg"
  shows "case ctl of Break st' \<Rightarrow> wait_inv cfg st' | Continue st' \<Rightarrow> wait_inv cfg st'"
  using st
proof (cases rule: waiting_stepE)
  case (skip e s1 ok s0)
  have "wait_inv cfg (s1, acc, sk)" using wait_inv_same_queues[OF skip(2) inv] .
  with skip(3) show ?thesis by (auto simp: skip_request_def intro!: wait_inv_pop(1)[of cfg s1 acc sk])
next
  case (stop s1 e ok s0)
  then show ?thesis using wait_inv_same_queues[OF _ inv] by simp
next
  case (place e s2 s3 s4 h inputs n eb new ok s0)
  have inv4: "wait_inv cfg (s4, acc, sk)" using wait_inv_same_queues[OF place(2) inv] .
  have n: "n \<le> token_budget acc" using waiting_tokens_le[OF place(4)] inv by (simp add: wait_inv_def budget_ok_def)
  from place(6) show ?thesis
  proof (cases rule: place_waiting_pop)
    case (load e q sk' s')
    with wait_inv_pop(1)[OF inv4 load(1,5,4)] show ?thesis by simp
  next
    case (run e' q s1 s' acc')
    note p = wait_inv_pop[OF inv4 run(1,3,4)]
    have "wait_inv cfg (s', acc', sk)"
      using admit_waiting_inv[OF run(6) p(1) p(2,3) n] len place(2) run(4) by (auto simp: same_queues_def)
    then show ?thesis using run(7) by simp
  qed
qed

lemma waiting_loop_wait_inv:
  assumes "waiting_loop cfg env now st = Inr st'" "wait_inv cfg st"
  shows "wait_inv cfg st'"
  using assms
proof (rule waiting_loop_inv)
  fix st ctl
  assume "wait_inv cfg st" "length (running (fst st)) \<noteq> max_num_running_reqs cfg" "waiting_step cfg env now st = Inr ctl"
  then show "case ctl of Break st' \<Rightarrow> wait_inv cfg st' | Continue st' \<Rightarrow> wait_inv cfg st'"
    using waiting_step_inv by (cases st) auto
qed

section \<open>The whole step\<close>

text \<open>What holds between steps: no request is queued twice, the waiting queue is a well-formed queue, and
  the limit on running requests is respected.\<close>

definition sched_wf :: "sched_config \<Rightarrow> 'c scheduler \<Rightarrow> bool" where
  "sched_wf cfg s \<longleftrightarrow> distinct (running s) \<and> length (running s) \<le> max_num_running_reqs cfg
     \<and> max_num_scheduled_tokens cfg \<ge> 0 \<and> rqueue_ok (waiting s)
     \<and> distinct (map entry_id (queue_seq (waiting s))) \<and> set (running s) \<inter> waiting_ids s = {}"

lemma running_inv_init:
  assumes "sched_wf cfg s"
  shows "running_inv cfg (waiting s) (running s) 0 s (acc_init cfg)"
  using assms by (simp add: running_inv_def sched_wf_def acc_init_def budget_ok_def scheduled_ids_def)

lemma collect_loras_frame:
  "collect_loras cfg s acc = Inr acc' \<Longrightarrow> \<exists>l. acc' = acc\<lparr>scheduled_loras := l\<rparr>"
  by (auto simp: collect_loras_def Let_def split: option.splits) (metis sched_acc.surjective sched_acc.update_convs(11))

lemma running_to_wait_inv:
  assumes "running_inv cfg (waiting s0) (running s0) j s acc" "sched_wf cfg s0" "preempted_reqs acc = []"
  shows "wait_inv cfg (s, acc\<lparr>scheduled_loras := l\<rparr>, sk)"
proof -
  have w: "waiting s = waiting s0" "running s = running s0" using assms by (auto simp: running_inv_def)
  have "set (scheduled_running_reqs acc) \<subseteq> set (running s)" "distinct (scheduled_running_reqs acc)"
    using assms(1) set_take_subset[of j "running s"] by (auto simp: running_inv_def)
  moreover from this have "length (scheduled_running_reqs acc) \<le> length (running s)"
    by (metis card_length card_mono distinct_card le_trans List.finite_set)
  moreover have "scheduled_ids acc \<inter> waiting_ids s = {}"
    using assms(1,2) w by (auto simp: running_inv_def sched_wf_def waiting_ids_def)
  ultimately show ?thesis
    using assms(1,2) w by (auto simp: wait_inv_def running_inv_def sched_wf_def budget_ok_def scheduled_ids_def)
qed

text \<open>The result of a step, with or without preemption.\<close>

definition step_ok :: "sched_config \<Rightarrow> 'c scheduler \<Rightarrow> sched_acc \<Rightarrow> bool" where
  "step_ok cfg s acc \<longleftrightarrow> constraints_ok cfg s acc \<and> budget_ok cfg acc
     \<and> set (scheduled_new_reqs acc) \<union> set (scheduled_resumed_reqs acc) \<union> set (scheduled_running_reqs acc)
         \<subseteq> set (running s) \<inter> scheduled_ids acc
     \<and> (policy cfg = FCFS \<longrightarrow> scheduled_ids acc
         = set (scheduled_new_reqs acc) \<union> set (scheduled_resumed_reqs acc) \<union> set (scheduled_running_reqs acc))"

lemma wait_inv_step_ok: "wait_inv cfg (s, acc, sk) \<Longrightarrow> step_ok cfg s acc"
  by (auto simp: wait_inv_def step_ok_def constraints_ok_def budget_ok_def)

lemma running_inv_step_ok:
  assumes "running_inv cfg w rs j s acc"
  shows "step_ok cfg s (acc\<lparr>scheduled_loras := l\<rparr>)"
proof -
  have "set (scheduled_running_reqs acc) \<subseteq> set (running s)" "distinct (scheduled_running_reqs acc)"
    using assms set_take_subset[of j "running s"] by (auto simp: running_inv_def)
  moreover from this have "length (scheduled_running_reqs acc) \<le> length (running s)"
    by (metis card_length card_mono distinct_card le_trans List.finite_set)
  ultimately show ?thesis
    using assms by (auto simp: running_inv_def step_ok_def constraints_ok_def budget_ok_def scheduled_ids_def)
qed

lemma schedule_requests_ok:
  assumes "sched_wf cfg s" "schedule_requests cfg env now s = Inr (s', acc)"
  shows "step_ok cfg s' acc"
proof -
  obtain s1 acc1 acc2 s2 skipped where r: "running_loop cfg env now 0 s (acc_init cfg) = Inr (s1, acc1)"
    and c: "collect_loras cfg s1 acc1 = Inr acc2"
    and w: "(if preempted_reqs acc2 = [] then waiting_loop cfg env now (s1, acc2, create_request_queue (policy cfg))
          else Inr (s1, acc2, create_request_queue (policy cfg))) = Inr (s2, acc, skipped)"
    and p: "put_back_skipped skipped s2 = Inr s'"
    using assms(2) by (auto simp: schedule_requests_def split: if_splits)
  obtain j where j: "running_inv cfg (waiting s) (running s) j s1 acc1"
    using running_loop_inv[OF r running_inv_init[OF assms(1)]] by blast
  obtain l where l: "acc2 = acc1\<lparr>scheduled_loras := l\<rparr>" using collect_loras_frame[OF c] by blast
  have "step_ok cfg s2 acc"
  proof (cases "preempted_reqs acc2 = []")
    case True
    then have "wait_inv cfg (s1, acc2, create_request_queue (policy cfg))"
      using running_to_wait_inv[OF j assms(1)] l by simp
    from waiting_loop_wait_inv[OF _ this, of env now "(s2, acc, skipped)"] w True
    show ?thesis by (intro wait_inv_step_ok) simp
  next
    case False
    with w running_inv_step_ok[OF j, of l] l show ?thesis by simp
  qed
  moreover have "running s' = running s2" using p by (auto simp: put_back_skipped_def split: if_splits)
  ultimately show ?thesis by (simp add: step_ok_def constraints_ok_def)
qed

lemma no_cached_inputs [simp]: "mm_features r = [] \<Longrightarrow> get_cached_input_ids r c = {}"
  by (simp add: get_cached_input_ids_def)

lemma free_no_inputs [simp]: "free_inputs r [] c = Inr c"
  by (simp add: free_inputs_def)

lemma log_event_simps [simp]:
  "priority (log_event cfg e now r) = priority r" "arrival_time (log_event cfg e now r) = arrival_time r"
  "mm_features (log_event cfg e now r) = mm_features r" "request_id (log_event cfg e now r) = request_id r"
  "status (log_event cfg e now r) = status r" "num_computed_tokens (log_event cfg e now r) = num_computed_tokens r"
  by (simp_all add: log_event_def record_event_def)

lemma encoder_free_text: "mm_features (heap s v) = [] \<Longrightarrow> set_order env {} = [] \<Longrightarrow> encoder_free env v s = Inr s"
  by (simp add: encoder_free_def)

text \<open>Preempting a text-only request succeeds when its blocks can be freed and the queue takes it.\<close>

lemma preempt_one_total:
  assumes c: "choose_victim cfg s = Inr (v, s\<lparr>running := rs\<rparr>)" and mm: "mm_features (heap s v) = []"
    and so: "set_order env {} = []" and km: "km_free (heap s v) (kvm s) = Inr km'"
    and q: "prepend_request (queue_entry s v) (waiting s) = Inr q'"
  shows "\<exists>acc'. preempt_one cfg env now s acc
    = Inr (v, s\<lparr>heap := (heap s)(v := preempted cfg now (heap s v)), running := rs, kvm := km', waiting := q'\<rparr>, acc')"
proof -
  let ?s2 = "s\<lparr>running := rs, kvm := km'\<rparr>"
  have 1: "sched_km_free v (s\<lparr>running := rs\<rparr>) = Inr ?s2" using km by (simp add: sched_km_free_def)
  have 2: "encoder_free env v ?s2 = Inr ?s2" using mm so by (intro encoder_free_text) simp_all
  have "queue_entry (upd_req v (preempted cfg now) ?s2) v = queue_entry s v"
    by (simp add: queue_entry_def preempted_def)
  then have 3: "prepend_waiting v (upd_req v (preempted cfg now) ?s2)
      = Inr (s\<lparr>heap := (heap s)(v := preempted cfg now (heap s v)), running := rs, kvm := km', waiting := q'\<rparr>)"
    using q by (simp add: prepend_waiting_def) (simp add: upd_req_def)
  show ?thesis
    unfolding preempt_one_def Let_def c bnd_simps prod.case 1 2 3 by (rule exI, rule refl)
qed

section \<open>A small scheduler\<close>

text \<open>One request whose blocks fill the pool, so that its next tokens do not fit.\<close>

definition demo_cfg :: "scheduling_policy \<Rightarrow> sched_config" where
  "demo_cfg p = \<lparr>policy = p, max_num_running_reqs = 4, max_num_scheduled_tokens = 8, sched_max_model_len = 100,
     long_prefill_token_threshold = 0, chunked_prefill_enabled = True, sc_disable_chunked_mm_input = False,
     sc_max_num_encoder_input_tokens = 0, encoder_compute_budget = 0, max_loras = None, is_encoder_decoder = False,
     num_lookahead_tokens = 0, num_spec_tokens = 0, sched_log_stats = False, use_pp = False, sched_block_size = 1\<rparr>"

definition demo_env :: "unit sched_env" where
  "demo_env = \<lparr>set_order = sorted_list_of_set, id_order = (\<lambda>_. []), block_hasher_opt = None, grammar_result = (\<lambda>_. None),
     accept_tokens = (\<lambda>g _ _. g), validate_tokens = (\<lambda>_ ts. ts), fill_bitmask = (\<lambda>_ _ _. 0), is_reasoning_end = None,
     connector = None\<rparr>"

abbreviation demo_rid :: string where
  "demo_rid \<equiv> request_id demo_req"

definition demo_sched :: "scheduling_policy \<Rightarrow> kv_cache_manager \<Rightarrow> unit scheduler" where
  "demo_sched pol km = (scheduler_init (demo_cfg pol) False km 0 (\<lambda>_. demo_req) ())\<lparr>running := [demo_rid], requests := {demo_rid}\<rparr>"

lemma demo_cfg_simps [simp]:
  "policy (demo_cfg p) = p" "max_num_running_reqs (demo_cfg p) = 4" "max_num_scheduled_tokens (demo_cfg p) = 8"
  "sched_max_model_len (demo_cfg p) = 100" "long_prefill_token_threshold (demo_cfg p) = 0"
  "max_loras (demo_cfg p) = None" "num_lookahead_tokens (demo_cfg p) = 0" "sched_log_stats (demo_cfg p) = False"
  "encoder_compute_budget (demo_cfg p) = 0"
  by (simp_all add: demo_cfg_def)

lemma demo_env_simps [simp]: "set_order demo_env {} = []" "connector demo_env = None"
  by (simp_all add: demo_env_def)

lemma demo_sched_simps [simp]:
  "running (demo_sched pol km) = [demo_rid]" "heap (demo_sched pol km) rid = demo_req" "kvm (demo_sched pol km) = km"
  "requests (demo_sched pol km) = {demo_rid}" "encoder_mgr (demo_sched pol km) = encoder_cache_init 0"
  by (simp_all add: demo_sched_def scheduler_init_def)

lemma demo_sched_waiting [simp]:
  "waiting (demo_sched FCFS km) = Fcfs_Queue []" "waiting (demo_sched PRIORITY km) = Prio_Queue []"
  by (simp_all add: demo_sched_def scheduler_init_def create_request_queue_def)

lemma demo_req_fields [simp]:
  "mm_features demo_req = []" "num_computed_tokens demo_req = 0" "num_tokens_with_spec demo_req = 4"
  "num_output_placeholders demo_req = 0" "spec_token_ids demo_req = []" "status demo_req = RUNNING"
  by (simp_all add: demo_req_def num_tokens_with_spec_def new_request_def demo_args_def)

lemma heappush_Nil: "heappush [] x = Inr [x]"
  using siftdown.simps[of "[x]" 0 0 x] by (simp add: heappush_def)

lemma demo_preempt:
  assumes "kv_inv km"
  shows "\<exists>s' acc'. preempt_one (demo_cfg pol) demo_env now (demo_sched pol km) acc = Inr (demo_rid, s', acc')"
proof -
  obtain km' where k: "km_free (heap (demo_sched pol km) demo_rid) (kvm (demo_sched pol km)) = Inr km'"
    using km_free_ok[OF assms] by fastforce
  have c: "choose_victim (demo_cfg pol) (demo_sched pol km) = Inr (demo_rid, demo_sched pol km\<lparr>running := []\<rparr>)"
    by (cases pol) (simp_all add: choose_victim_def Let_def)
  obtain q where q: "prepend_request (queue_entry (demo_sched pol km) demo_rid) (waiting (demo_sched pol km)) = Inr q"
    by (cases pol) (simp_all add: prepend_request_def lift_queue_def fcfs_prepend_def prio_prepend_def prio_add_def heappush_Nil)
  show ?thesis using preempt_one_total[OF c _ _ k q, of demo_env now acc] by auto
qed

lemma demo_schedule:
  "\<exists>km s' acc. kv_inv km \<and> schedule_requests (demo_cfg FCFS) demo_env now (demo_sched FCFS km) = Inr (s', acc) \<and> preempted_reqs acc = [demo_rid]"
proof -
  obtain p where p: "pool_inv p []" "num_gpu_blocks p = 4" "\<forall>r\<in>pool_refs 4. rc p r = 1" using demo_pool by blast
  define km where "km = demo_km p [demo_full [Blk 1, Blk 2, Blk 3]]"
  let ?km = km and ?acc = "acc_init (demo_cfg FCFS)"
  have k: "kv_inv ?km" unfolding km_def by (rule demo_km_inv(2)[OF p])
  obtain km' where a: "allocate_slots demo_req 4 0 None 0 False 0 ?km = Inr (None, km')" using demo_alloc_none[OF p] unfolding km_def by blast
  have k': "kv_inv km'" by (rule allocate_slots_inv[OF k _ _ a]) (simp_all add: km_def)
  have ra: "running_alloc (demo_cfg FCFS) demo_rid 4 (demo_sched FCFS ?km) = Inr (None, demo_sched FCFS km')"
    using a by (simp add: running_alloc_def) (simp add: demo_sched_def scheduler_init_def)
  obtain s2 acc2 where pr: "preempt_one (demo_cfg FCFS) demo_env now (demo_sched FCFS km') ?acc = Inr (demo_rid, s2, acc2)"
    using demo_preempt[OF k'] by blast
  have sh: "preempted_reqs acc2 = [demo_rid]"
    using preempt_one_shape(3)[OF pr] by (simp add: acc_init_def)
  have t: "running_tokens (demo_cfg FCFS) 8 demo_req = 4" by (simp add: running_tokens_def clip_prefill_def)
  have al: "alloc_loop (demo_cfg FCFS) demo_env now demo_rid 4 (demo_sched FCFS ?km) ?acc = Inr (None, s2, acc2)"
    by (simp add: alloc_loop.simps[of _ _ _ _ _ "demo_sched FCFS ?km"] ra pr)
  have st: "running_step (demo_cfg FCFS) demo_env now demo_rid (demo_sched FCFS ?km) ?acc = Inr (False, s2, acc2)"
  proof -
    have e: "demo_sched FCFS ?km\<lparr>encoder_mgr := encoder_cache_init 0\<rparr> = demo_sched FCFS ?km"
      by (simp add: demo_sched_def scheduler_init_def)
    have b: "token_budget ?acc = 8" by (simp add: acc_init_def)
    show ?thesis by (simp add: running_step_def try_schedule_encoder_inputs_def has_encoder_inputs_def Let_def b t e al)
  qed
  then have "running_loop (demo_cfg FCFS) demo_env now 0 (demo_sched FCFS ?km) ?acc = Inr (s2, acc2)"
    by (simp add: running_loop.simps[of _ _ _ _ "demo_sched FCFS ?km"] acc_init_def)
  then have "schedule_requests (demo_cfg FCFS) demo_env now (demo_sched FCFS ?km) = Inr (s2, acc2)"
    by (simp add: schedule_requests_def collect_loras_def sh create_request_queue_def put_back_skipped_def queue_len_def)
  with k sh show ?thesis by blast
qed

lemma demo_sched_wf: "sched_wf (demo_cfg FCFS) (demo_sched FCFS km)"
  by (simp add: sched_wf_def rqueue_ok_def queue_seq_def waiting_ids_def)

section \<open>Properties\<close>

text \<open>C5: The assertions at the end of a scheduling step never fail. Whatever is preempted, skipped or
  admitted on the way, the tokens scheduled add up to the configured maximum less the remaining
  budget, the budget is not negative, the running list stays within its limit and there are no more
  scheduled than running requests.\<close>

theorem schedule_constraints_hold:
  assumes "sched_wf cfg s" "schedule_requests cfg env now s = Inr (s', acc)"
  shows "constraints_ok cfg s' acc
    \<and> sum_list (map snd (num_scheduled_tokens acc)) = max_num_scheduled_tokens cfg - token_budget acc"
  using schedule_requests_ok[OF assms] by (simp add: step_ok_def budget_ok_def)

theorem schedule_constraints_hold_witness:
  "\<exists>km s' acc. schedule_requests (demo_cfg FCFS) demo_env 0 (demo_sched FCFS km) = Inr (s', acc) \<and> constraints_ok (demo_cfg FCFS) s' acc"
  using demo_schedule[of 0] schedule_constraints_hold[OF demo_sched_wf] by blast

text \<open>C13: Under first come, first served, exactly the requests in the three lists of scheduled
  requests get tokens, and all of them are running when the step ends: no preempted request keeps an
  entry.\<close>

theorem fcfs_schedules_running_only:
  assumes "sched_wf cfg s" "schedule_requests cfg env now s = Inr (s', acc)" "policy cfg = FCFS"
  shows "fst ` set (num_scheduled_tokens acc)
      = set (scheduled_new_reqs acc) \<union> set (scheduled_resumed_reqs acc) \<union> set (scheduled_running_reqs acc)
    \<and> fst ` set (num_scheduled_tokens acc) \<subseteq> set (running s')"
  using schedule_requests_ok[OF assms(1,2)] assms(3) unfolding step_ok_def scheduled_ids_def by auto

theorem fcfs_schedules_running_only_witness:
  "\<exists>km s' acc. schedule_requests (demo_cfg FCFS) demo_env 0 (demo_sched FCFS km) = Inr (s', acc)
     \<and> fst ` set (num_scheduled_tokens acc) \<subseteq> set (running s')"
  using demo_schedule[of 0] fcfs_schedules_running_only[OF demo_sched_wf] by (metis demo_cfg_simps(1))

end
