(* ===== verification/Sched_Progress.thy ===== *)
theory Sched_Progress
  imports Sched_Budget
begin

text \<open>
  Progress of the preemption loop. With a single full-attention group and without prefix caching,
  the number of free blocks is what the requests do not hold, so preempting from the end of the
  running list always lets the oldest request run. Under the priority policy the loop can preempt a
  request that already has tokens in this step, and leaves its entry behind.
\<close>

section \<open>One full-attention group\<close>

definition solo :: "kv_cache_manager \<Rightarrow> st_manager \<Rightarrow> bool" where
  "solo km m \<longleftrightarrow> single_type_managers (coordinator km) = [m] \<and> is_full (st_spec m) \<and> st_block_size m > 0
     \<and> \<not> km_enable_caching km"

definition blocks_needed :: "kv_cache_manager \<Rightarrow> st_manager \<Rightarrow> request \<Rightarrow> int \<Rightarrow> int \<Rightarrow> int" where
  "blocks_needed km m r n lookahead =
     cdiv (min (num_computed_tokens r + n + lookahead) (km_max_model_len km)) (st_block_size m)"

lemma alloc_solo:
  fixes la :: int
  assumes inv: "kv_inv km" and solo: "solo km m" and reg: "map_of (num_cached_block m) (request_id r) \<noteq> None" and n: "n \<noteq> 0"
  defines "need \<equiv> blocks_needed km m r n la - int (length (blocks_of m (request_id r)))"
  shows "if need \<le> get_num_free_blocks (co_pool (coordinator km))
    then \<exists>new km' m'. allocate_slots r n 0 None la False 0 km = Inr (Some new, km') \<and> solo km' m'
       \<and> st_block_size m' = st_block_size m \<and> num_cached_block m' = num_cached_block m
       \<and> int (length (blocks_of m' (request_id r))) = int (length (blocks_of m (request_id r))) + max 0 need
       \<and> (\<forall>rid. rid \<noteq> request_id r \<longrightarrow> blocks_of m' rid = blocks_of m rid)
       \<and> get_num_free_blocks (co_pool (coordinator km')) = get_num_free_blocks (co_pool (coordinator km)) - max 0 need
       \<and> km_max_model_len km' = km_max_model_len km
       \<and> num_gpu_blocks (co_pool (coordinator km')) = num_gpu_blocks (co_pool (coordinator km))
    else allocate_slots r n 0 None la False 0 km
      = Inr (None, km\<lparr>coordinator := (coordinator km)\<lparr>single_type_managers := [read_blocks (request_id r) m]\<rparr>\<rparr>)"
proof -
  let ?co = "coordinator km" and ?rid = "request_id r" and ?p = "co_pool (coordinator km)"
  let ?n = "min (num_computed_tokens r + n + la) (km_max_model_len km)"
  have ms: "single_type_managers ?co = [m]" and full: "is_full (st_spec m)" and bs: "st_block_size m > 0"
    and nocache: "\<not> km_enable_caching km" using solo by (auto simp: solo_def)
  obtain xs where xs: "refs_inv (\<lambda>_. 0) ?p [m] xs" and len: "length (kv_cache_groups (co_config ?co)) = 1"
    using inv ms by (auto simp: kv_inv_def)
  have cr: "\<not> is_cross_manager m" using full by (cases "st_spec m") (simp_all add: is_cross_manager_def)
  have sl: "slots_for m k = k" for k using full by (cases "st_spec m") (simp_all add: slots_for_def)
  have "remove_skipped_blocks ?rid k m p = Inr (m, p)" for k p
    using full by (cases "st_spec m") (simp_all add: remove_skipped_blocks_def)
  then have s1: "co_remove_skipped_blocks ?rid k ?co = Inr ?co" for k
    using ms by (simp add: co_remove_skipped_blocks_def on_managers_def)
  define co1 where "co1 = ?co\<lparr>single_type_managers := [read_blocks ?rid m]\<rparr>"
  have one: "map (\<lambda>_. []) (kv_cache_groups (co_config ?co)) = ([[]] :: block_ref list list)"
    using len by (auto simp: length_Suc_conv)
  have s2: "co_get_num_blocks_to_allocate ?rid ?n [[]] 0 ?co = Inr (need, co1)"
    using ms cr bs by (simp add: co_get_num_blocks_to_allocate_def get_num_blocks_to_allocate_def sl cdiv_py_def
        index_py_def num_evictable_def need_def blocks_needed_def co1_def)
  show ?thesis
  proof (cases "need \<le> get_num_free_blocks ?p")
    case True
    have free: "get_num_free_blocks ?p = int (length xs)" by (rule pool_invD(8)[OF refs_invD(1)[OF xs]])
    have s3: "co_save_new_computed_blocks ?rid [[]] (co1\<lparr>co_pool := ?p\<rparr>) = Inr co1"
      using reg full by (cases "st_spec m") (auto simp: co_save_new_computed_blocks_def co1_def save_new_computed_blocks_def index_py_def)
    have "refs_inv (\<lambda>_. 0) ?p [read_blocks ?rid m] xs" by (rule refs_inv_read_blocks[OF xs])
    note al = allocate_new_blocks_ok[OF this, of ?n ?rid]
    have "slots_for (read_blocks ?rid m) ?n = ?n" using sl[of ?n] by (simp add: slots_for_def)
    then have need: "cdiv (slots_for (read_blocks ?rid m) ?n) (st_block_size (read_blocks ?rid m))
        - int (length (blocks_of (read_blocks ?rid m) ?rid)) = need" by (simp add: need_def blocks_needed_def)
    have "nat need \<le> length xs" using True free by linarith
    with al[unfolded need] bs obtain m' p' where a: "allocate_new_blocks ?rid ?n (read_blocks ?rid m) ?p = Inr (take (nat need) xs, m', p')"
      and inv': "refs_inv (\<lambda>_. 0) p' [m'] (drop (nat need) xs)" "pool_static p' = pool_static ?p"
      and m': "blocks_of m' ?rid = blocks_of m ?rid @ take (nat need) xs" "\<forall>rid. rid \<noteq> ?rid \<longrightarrow> blocks_of m' rid = blocks_of m rid"
        "num_cached_block m' = num_cached_block m" "st_spec m' = st_spec m"
      by auto
    have bs': "st_block_size m' = st_block_size m"
      using a by (auto simp: allocate_new_blocks_def Let_def read_blocks_def set_blocks_def split: if_splits)
    let ?co2 = "co1\<lparr>single_type_managers := [m'], co_pool := p'\<rparr>"
    have "co_allocate_new_blocks ?rid ?n 0 co1 = Inr ([take (nat need) xs], ?co2)"
      using cr a by (simp add: co_allocate_new_blocks_def co1_def is_cross_manager_def)
    then have "commit_slots r (num_computed_tokens r + 0) n ?n [[]] False 0 km co1 = Inr (Some [take (nat need) xs], ?co2)"
      using nocache s3 by (simp add: commit_slots_def co1_def)
    then have "allocate_slots r n 0 None la False 0 km = Inr (Some [take (nat need) xs], km\<lparr>coordinator := ?co2\<rparr>)"
      using n s1 s2 one True by (simp add: allocate_slots_def Let_def co1_def)
    moreover have "solo (km\<lparr>coordinator := ?co2\<rparr>) m'" using m'(4) bs' full bs nocache by (simp add: solo_def)
    moreover have "get_num_free_blocks p' = int (length xs) - max 0 need"
      using pool_invD(8)[OF refs_invD(1)[OF inv'(1)]] \<open>nat need \<le> length xs\<close> by simp
    ultimately show ?thesis
      using True m' bs' free pool_staticD(1)[OF inv'(2)] \<open>nat need \<le> length xs\<close>
      by (simp, intro exI[of _ "[take (nat need) xs]"] exI[of _ "km\<lparr>coordinator := ?co2\<rparr>"] exI[of _ m']) simp
  next
    case False
    then show ?thesis using n s1 s2 one by (simp add: allocate_slots_def Let_def co1_def)
  qed
qed

lemma solo_free_union:
  assumes inv: "kv_inv km" and solo: "solo km m" and only: "\<And>rid. blocks_of m rid \<noteq> [] \<Longrightarrow> rid \<in> set ids"
  shows "get_num_free_blocks (co_pool (coordinator km))
    = int (num_gpu_blocks (co_pool (coordinator km))) - 1 - int (card (\<Union>x\<in>set ids. set (blocks_of m x)))"
proof -
  let ?p = "co_pool (coordinator km)" and ?N = "num_gpu_blocks (co_pool (coordinator km))"
  let ?U = "\<Union>x\<in>set ids. set (blocks_of m x)"
  obtain xs where xs: "refs_inv (\<lambda>_. 0) ?p [m] xs" using inv solo by (auto simp: kv_inv_def solo_def)
  note pi = refs_invD(1)[OF xs]
  have mo: "manager_ok m" "Blk 0 \<notin> set (held m)" using refs_invD(2)[OF xs] solo by (auto simp: manager_ok_def solo_def)
  have held: "set (held m) = ?U"
  proof
    show "?U \<subseteq> set (held m)" using blocks_of_held by blast
    show "set (held m) \<subseteq> ?U"
    proof
      fix r assume "r \<in> set (held m)"
      then obtain k bs where kb: "(k, bs) \<in> set (req_to_blocks m)" "r \<in> set bs" by (auto simp: held_def)
      then have "blocks_of m k = bs" using mo(1) by (simp add: blocks_of_def manager_ok_def)
      moreover from this kb have "k \<in> set ids" by (intro only) auto
      ultimately show "r \<in> ?U" using kb by blast
    qed
  qed
  have "set (held m) \<subseteq> pool_refs ?N" using refs_invD(3)[OF xs] mo(2) by (auto simp: in_pool_def)
  then have sub: "?U \<subseteq> pool_refs ?N" by (simp only: held)
  have "set xs = pool_refs ?N - ?U"
  proof (intro set_eqI iffI)
    fix r assume r: "r \<in> set xs"
    then have "r \<in> pool_refs ?N" using pool_invD(7)[OF pi] by blast
    moreover have "rc ?p r = 0" using pool_inv_rc[OF pi \<open>r \<in> pool_refs ?N\<close>] r by simp
    then have "r \<notin> set (held m)"
      using refs_invD(4)[OF xs, of r] \<open>r \<in> pool_refs ?N\<close> by (auto simp: in_pool_def pool_refs_def count_list_0_iff)
    ultimately show "r \<in> pool_refs ?N - ?U" using held by simp
  next
    fix r assume r: "r \<in> pool_refs ?N - ?U"
    then have "r \<notin> set (held m)" using held by simp
    then have "rc ?p r = 0"
      using r refs_invD(4)[OF xs, of r] by (auto simp: in_pool_def pool_refs_def count_list_0_iff)
    then show "r \<in> set xs" using pool_inv_rc[OF pi] r by blast
  qed
  then have "card (set xs) = card (pool_refs ?N) - card ?U" using card_Diff_subset[OF _ sub] by simp
  moreover have "card ?U \<le> card (pool_refs ?N)" by (rule card_mono[OF _ sub]) (simp add: pool_refs_def)
  ultimately have "int (length xs) = int (card (pool_refs ?N)) - int (card ?U)"
    using distinct_card[OF pool_invD(6)[OF pi]] by linarith
  moreover have "card (pool_refs ?N) = ?N - 1" by (simp add: pool_refs_def card_image inj_on_def)
  moreover have "?N > 0" by (rule pool_invD(5)[OF pi])
  ultimately show ?thesis using pool_invD(8)[OF pi] by linarith
qed

lemma solo_distinct_blocks:
  assumes "kv_inv km" "solo km m"
  shows "distinct (blocks_of m rid)"
proof -
  obtain xs where xs: "refs_inv (\<lambda>_. 0) (co_pool (coordinator km)) [m] xs" using assms by (auto simp: kv_inv_def solo_def)
  have mo: "manager_ok m" "Blk 0 \<notin> set (held m)" using refs_invD(2)[OF xs] assms(2) by (auto simp: manager_ok_def solo_def)
  have "filter (\<lambda>r. r \<noteq> Blk 0) (blocks_of m rid) = blocks_of m rid"
    using mo(2) blocks_of_held[of m rid] by (intro filter_True) auto
  with blocks_of_distinct[OF mo(1), of rid] show ?thesis by simp
qed

lemma solo_free_blocks:
  assumes "kv_inv km" "solo km m" "\<And>rid'. rid' \<noteq> rid \<Longrightarrow> blocks_of m rid' = []"
  shows "get_num_free_blocks (co_pool (coordinator km))
    = int (num_gpu_blocks (co_pool (coordinator km))) - 1 - int (length (blocks_of m rid))"
proof -
  have "x \<in> set [rid]" if "blocks_of m x \<noteq> []" for x using that assms(3)[of x] by auto
  from solo_free_union[OF assms(1,2) this] show ?thesis
    by (simp add: distinct_card[OF solo_distinct_blocks[OF assms(1,2)]])
qed

lemma km_free_solo:
  assumes inv: "kv_inv km" and solo: "solo km m"
  shows "\<exists>km' m'. km_free r km = Inr km' \<and> kv_inv km' \<and> solo km' m' \<and> st_block_size m' = st_block_size m
    \<and> (\<forall>rid. blocks_of m' rid = (if rid = request_id r then [] else blocks_of m rid))
    \<and> (\<forall>rid. rid \<noteq> request_id r \<longrightarrow> map_of (num_cached_block m') rid = map_of (num_cached_block m) rid)
    \<and> km_max_model_len km' = km_max_model_len km
    \<and> num_gpu_blocks (co_pool (coordinator km')) = num_gpu_blocks (co_pool (coordinator km))"
proof -
  let ?co = "coordinator km" and ?rid = "request_id r"
  have ms: "single_type_managers ?co = [m]" using solo by (simp add: solo_def)
  obtain xs where "refs_inv (\<lambda>_. 0) (co_pool ?co) [m] xs" using inv ms by (auto simp: kv_inv_def)
  from free_request_ok[OF this, of ?rid] obtain m' p' where f: "free_request ?rid m (co_pool ?co) = Inr (m', p')"
    and st: "pool_static p' = pool_static (co_pool ?co)" and b: "blocks_of m' ?rid = []"
    "\<forall>rid'. rid' \<noteq> ?rid \<longrightarrow> blocks_of m' rid' = blocks_of m rid'" by blast
  have m': "m' = m\<lparr>req_to_blocks := AList.delete ?rid (req_to_blocks m), num_cached_block := AList.delete ?rid (num_cached_block m)\<rparr>"
    using f by (auto simp: free_request_def)
  let ?km = "km\<lparr>coordinator := ?co\<lparr>single_type_managers := [m'], co_pool := p'\<rparr>\<rparr>"
  have k: "km_free r km = Inr ?km" using f ms by (simp add: km_free_def co_free_def on_managers_def)
  moreover obtain km' where "km_free r km = Inr km'" "kv_inv km'" using km_free_ok[OF inv] by blast
  moreover have "solo ?km m'" using solo by (simp add: solo_def m')
  moreover have "num_gpu_blocks p' = num_gpu_blocks (co_pool ?co)" using pool_staticD(1)[OF st] .
  moreover have "map_of (num_cached_block m') rid = map_of (num_cached_block m) rid" if "rid \<noteq> ?rid" for rid
    using that by (simp add: m' delete_conv')
  ultimately show ?thesis using b by (intro exI[of _ ?km] exI[of _ m']) (auto simp: m')
qed

section \<open>Preemption lets the oldest request run\<close>

text \<open>First come, first served, text-only requests, one full-attention group without prefix caching, and
  blocks held by running requests only.\<close>

definition text_fcfs :: "sched_config \<Rightarrow> 'c sched_env \<Rightarrow> st_manager \<Rightarrow> 'c scheduler \<Rightarrow> bool" where
  "text_fcfs cfg env m s \<longleftrightarrow> policy cfg = FCFS \<and> set_order env {} = [] \<and> (\<exists>q. waiting s = Fcfs_Queue q)
     \<and> distinct (running s) \<and> kv_inv (kvm s) \<and> solo (kvm s) m
     \<and> (\<forall>rid. blocks_of m rid \<noteq> [] \<longrightarrow> rid \<in> set (running s))
     \<and> (\<forall>rid\<in>set (running s). request_id (heap s rid) = rid \<and> mm_features (heap s rid) = [])"

text \<open>What the loop keeps: the oldest request and what it needs.\<close>

definition oldest_ok :: "sched_config \<Rightarrow> 'c sched_env \<Rightarrow> string \<Rightarrow> int \<Rightarrow> st_manager \<Rightarrow> 'c scheduler \<Rightarrow> bool" where
  "oldest_ok cfg env rid n m s \<longleftrightarrow> text_fcfs cfg env m s \<and> map_of (num_cached_block m) rid \<noteq> None
     \<and> blocks_needed (kvm s) m (heap s rid) n (num_lookahead_tokens cfg) \<le> int (num_gpu_blocks (co_pool (coordinator (kvm s)))) - 1"

text \<open>Whether the blocks that request \<open>r\<close> lacks for its next tokens are free when exactly the requests
  \<open>ids\<close> hold blocks. A block that two requests share counts once.\<close>

definition room_for :: "kv_cache_manager \<Rightarrow> st_manager \<Rightarrow> request \<Rightarrow> int \<Rightarrow> int \<Rightarrow> string list \<Rightarrow> bool" where
  "room_for km m r n lookahead ids \<longleftrightarrow> blocks_needed km m r n lookahead - int (length (blocks_of m (request_id r)))
     \<le> int (num_gpu_blocks (co_pool (coordinator km))) - 1 - int (card (\<Union>x\<in>set ids. set (blocks_of m x)))"

lemma room_for_cong:
  assumes "st_block_size m' = st_block_size m" "km_max_model_len km' = km_max_model_len km"
    "num_gpu_blocks (co_pool (coordinator km')) = num_gpu_blocks (co_pool (coordinator km))"
    "\<And>x. x \<in> insert (request_id r) (set ids) \<Longrightarrow> blocks_of m' x = blocks_of m x"
  shows "room_for km' m' r n la ids \<longleftrightarrow> room_for km m r n la ids"
proof -
  have "(\<Union>x\<in>set ids. set (blocks_of m' x)) = (\<Union>x\<in>set ids. set (blocks_of m x))" using assms(4) by auto
  then show ?thesis using assms by (simp add: room_for_def blocks_needed_def)
qed

lemma read_blocks_num_cached [simp]: "num_cached_block (read_blocks rid m) = num_cached_block m"
  "st_block_size (read_blocks rid m) = st_block_size m"
  by (simp_all add: read_blocks_def set_blocks_def)

lemma preempted_simps [simp]:
  "mm_features (preempted cfg now r) = mm_features r" "request_id (preempted cfg now r) = request_id r"
  "status (preempted cfg now r) = PREEMPTED" "num_computed_tokens (preempted cfg now r) = 0"
  by (simp_all add: preempted_def)

lemma preempt_last:
  assumes ok: "oldest_ok cfg env rid n m s" and run: "running s = rid # rest" "rest \<noteq> []"
  shows "\<exists>s' acc' m'. preempt_one cfg env now s acc = Inr (last rest, s', acc') \<and> last rest \<noteq> rid
    \<and> running s' = rid # butlast rest \<and> oldest_ok cfg env rid n m' s'
    \<and> (\<forall>ids. last rest \<notin> set ids \<longrightarrow> room_for (kvm s') m' (heap s' rid) n la ids = room_for (kvm s) m (heap s rid) n la ids)"
proof -
  let ?v = "last rest"
  have t: "text_fcfs cfg env m s" using ok by (simp add: oldest_ok_def)
  then have d: "distinct (rid # rest)" and id: "request_id (heap s ?v) = ?v" "mm_features (heap s ?v) = []"
    and so: "set_order env {} = []" and fc: "policy cfg = FCFS"
    using run by (auto simp: text_fcfs_def)
  obtain q where q: "waiting s = Fcfs_Queue q" using t by (auto simp: text_fcfs_def)
  have ne: "?v \<noteq> rid" using d run(2) by auto
  obtain km' m' where km': "km_free (heap s ?v) (kvm s) = Inr km'" "kv_inv km'" "solo km' m'" "st_block_size m' = st_block_size m"
    "\<forall>x. blocks_of m' x = (if x = ?v then [] else blocks_of m x)"
    "\<forall>x. x \<noteq> ?v \<longrightarrow> map_of (num_cached_block m') x = map_of (num_cached_block m) x"
    "km_max_model_len km' = km_max_model_len (kvm s)"
    "num_gpu_blocks (co_pool (coordinator km')) = num_gpu_blocks (co_pool (coordinator (kvm s)))"
    using km_free_solo[of "kvm s" m "heap s ?v"] t id(1) by (auto simp: text_fcfs_def)
  have c: "choose_victim cfg s = Inr (?v, s\<lparr>running := rid # butlast rest\<rparr>)"
    using fc run by (simp add: choose_victim_def)
  have pq: "prepend_request (queue_entry s ?v) (waiting s) = Inr (Fcfs_Queue (queue_entry s ?v # q))"
    by (simp add: q prepend_request_def lift_queue_def fcfs_prepend_def)
  let ?s = "s\<lparr>heap := (heap s)(?v := preempted cfg now (heap s ?v)), running := rid # butlast rest, kvm := km',
      waiting := Fcfs_Queue (queue_entry s ?v # q)\<rparr>"
  obtain acc' where p: "preempt_one cfg env now s acc = Inr (?v, ?s, acc')"
    using preempt_one_total[OF c id(2) so km'(1) pq] by blast
  have r: "rest = butlast rest @ [?v]" using run(2) by simp
  have "distinct (rid # butlast rest)" using d by (auto simp: distinct_butlast dest: in_set_butlastD)
  moreover have "x \<in> set (rid # butlast rest)" if "blocks_of m' x \<noteq> []" for x
  proof -
    have x: "x \<noteq> ?v" "blocks_of m x \<noteq> []" using that km'(5) by (auto split: if_splits)
    then have "x \<in> set (rid # rest)" using t run(1) by (auto simp: text_fcfs_def)
    with x(1) show ?thesis by (subst (asm) r) auto
  qed
  moreover have "request_id (heap ?s x) = x \<and> mm_features (heap ?s x) = []" if "x \<in> set (rid # butlast rest)" for x
    using that t run(1) in_set_butlastD[of x rest] by (auto simp: text_fcfs_def)
  ultimately have "text_fcfs cfg env m' ?s" using fc so km'(2,3) by (simp add: text_fcfs_def)
  then have "oldest_ok cfg env rid n m' ?s"
    using ok km'(4,6-8) ne by (simp add: oldest_ok_def blocks_needed_def)
  moreover have "room_for km' m' (heap ?s rid) n la ids = room_for (kvm s) m (heap s rid) n la ids" if "?v \<notin> set ids" for ids
  proof -
    have "request_id (heap s rid) = rid" using t run(1) by (simp add: text_fcfs_def)
    then have "room_for km' m' (heap s rid) n la ids = room_for (kvm s) m (heap s rid) n la ids"
      using that km'(4,5,7,8) ne by (intro room_for_cong) auto
    then show ?thesis using ne by simp
  qed
  ultimately show ?thesis using p ne by (intro exI[of _ ?s] exI[of _ acc'] exI[of _ m']) simp
qed

lemma alloc_round:
  assumes ok: "oldest_ok cfg env rid n m s" and run: "running s = rid # rest" and n: "n \<noteq> 0"
  defines "room \<equiv> \<lambda>s m ids. room_for (kvm s) m (heap s rid) n (num_lookahead_tokens cfg) ids"
  shows "(room s m (rid # rest) \<and> (\<exists>blocks km'. running_alloc cfg rid n s = Inr (Some blocks, s\<lparr>kvm := km'\<rparr>)))
    \<or> (\<not> room s m (rid # rest) \<and> rest \<noteq> [] \<and> (\<exists>s1 m1. running_alloc cfg rid n s = Inr (None, s1) \<and> running s1 = running s
        \<and> oldest_ok cfg env rid n m1 s1 \<and> (\<forall>ids. room s1 m1 ids = room s m ids)))"
proof -
  let ?r = "heap s rid" and ?co = "coordinator (kvm s)"
  have t: "text_fcfs cfg env m s" "map_of (num_cached_block m) rid \<noteq> None"
    "blocks_needed (kvm s) m ?r n (num_lookahead_tokens cfg) \<le> int (num_gpu_blocks (co_pool ?co)) - 1"
    using ok by (auto simp: oldest_ok_def)
  have id: "request_id ?r = rid" "kv_inv (kvm s)" "solo (kvm s) m" using t(1) run by (auto simp: text_fcfs_def)
  let ?need = "blocks_needed (kvm s) m ?r n (num_lookahead_tokens cfg) - int (length (blocks_of m rid))"
  note a = alloc_solo[OF id(2,3) _ n, of ?r "num_lookahead_tokens cfg", unfolded id(1), OF t(2)]
  have "x \<in> set (rid # rest)" if "blocks_of m x \<noteq> []" for x using t(1) run that by (simp add: text_fcfs_def)
  from solo_free_union[OF id(2,3) this]
  have room: "room s m (rid # rest) \<longleftrightarrow> ?need \<le> get_num_free_blocks (co_pool ?co)" by (simp add: room_def room_for_def id(1))
  show ?thesis
  proof (cases "?need \<le> get_num_free_blocks (co_pool ?co)")
    case True
    with a have "\<exists>blocks km'. running_alloc cfg rid n s = Inr (Some blocks, s\<lparr>kvm := km'\<rparr>)" by (auto simp: running_alloc_def)
    with True room show ?thesis by blast
  next
    case False
    let ?km = "kvm s\<lparr>coordinator := ?co\<lparr>single_type_managers := [read_blocks rid m]\<rparr>\<rparr>"
    have al: "allocate_slots ?r n 0 None (num_lookahead_tokens cfg) False 0 (kvm s) = Inr (None, ?km)" using a False by simp
    have "rest \<noteq> []"
    proof
      assume "rest = []"
      then have "blocks_of m x = []" if "x \<noteq> rid" for x using t(1) run that by (auto simp: text_fcfs_def)
      from solo_free_blocks[OF id(2,3) this] False t(3) show False by simp
    qed
    moreover have "running_alloc cfg rid n s = Inr (None, s\<lparr>kvm := ?km\<rparr>)" using al by (simp add: running_alloc_def)
    moreover have "oldest_ok cfg env rid n (read_blocks rid m) (s\<lparr>kvm := ?km\<rparr>)"
    proof -
      have "kv_inv ?km" by (rule allocate_slots_inv[OF id(2) _ _ al]) (use id(3) in \<open>simp_all add: solo_def\<close>)
      then have "text_fcfs cfg env (read_blocks rid m) (s\<lparr>kvm := ?km\<rparr>)"
        using t(1) by (auto simp: text_fcfs_def solo_def)
      then show ?thesis using t(2,3) by (simp add: oldest_ok_def blocks_needed_def)
    qed
    moreover have "room (s\<lparr>kvm := ?km\<rparr>) (read_blocks rid m) ids = room s m ids" for ids
      unfolding room_def by (simp, rule room_for_cong) simp_all
    moreover have "\<not> room s m (rid # rest)" using False room by simp
    ultimately show ?thesis by (intro disjI2 conjI exI[of _ "s\<lparr>kvm := ?km\<rparr>"] exI[of _ "read_blocks rid m"]) simp_all
  qed
qed

lemma alloc_loop_oldest:
  fixes cfg n rid
  defines "room \<equiv> \<lambda>(s :: 'c scheduler) m ids. room_for (kvm s) m (heap s rid) n (num_lookahead_tokens cfg) ids"
  assumes "oldest_ok cfg env rid n m s" "running s = rid # rest" "n \<noteq> 0"
  shows "\<exists>blocks s' acc' k. alloc_loop cfg env now rid n s acc = Inr (Some blocks, s', acc') \<and> running s' = rid # take k rest
    \<and> k \<le> length rest \<and> room s m (rid # take k rest) \<and> (\<forall>j. k < j \<and> j \<le> length rest \<longrightarrow> \<not> room s m (rid # take j rest))"
  using assms(2-)
proof (induction "length rest" arbitrary: rest s acc m)
  case 0
  with alloc_round[OF "0.prems"] show ?case
    by (auto simp: room_def alloc_loop.simps[of cfg env now rid n s acc])
next
  case (Suc j)
  from alloc_round[OF Suc.prems, folded room_def] consider (ok) blocks km' where "room s m (rid # rest)" "running_alloc cfg rid n s = Inr (Some blocks, s\<lparr>kvm := km'\<rparr>)"
    | (no) s1 m1 where "\<not> room s m (rid # rest)" "rest \<noteq> []" "running_alloc cfg rid n s = Inr (None, s1)" "running s1 = running s" "oldest_ok cfg env rid n m1 s1"
        "\<forall>ids. room s1 m1 ids = room s m ids"
    unfolding room_def by blast
  then show ?case
  proof cases
    case ok
    then have "alloc_loop cfg env now rid n s acc = Inr (Some blocks, s\<lparr>kvm := km'\<rparr>, acc)"
      by (simp add: alloc_loop.simps[of cfg env now rid n s acc])
    then show ?thesis using Suc.prems(2) ok(1)
      by (intro exI[of _ blocks] exI[of _ "s\<lparr>kvm := km'\<rparr>"] exI[of _ acc] exI[of _ "length rest"]) simp
  next
    case no
    have run1: "running s1 = rid # rest" using no(4) Suc.prems(2) by simp
    obtain s2 acc2 m2 where p: "preempt_one cfg env now s1 acc = Inr (last rest, s2, acc2)" "last rest \<noteq> rid"
      "running s2 = rid # butlast rest" "oldest_ok cfg env rid n m2 s2"
      "\<forall>ids. last rest \<notin> set ids \<longrightarrow> room s2 m2 ids = room s1 m1 ids"
      using preempt_last[OF no(5) run1 no(2), of now acc "num_lookahead_tokens cfg"] unfolding room_def by blast
    have "alloc_loop cfg env now rid n s acc = alloc_loop cfg env now rid n s2 acc2"
      using no(3) p(1,2) by (simp add: alloc_loop.simps[of cfg env now rid n s acc])
    moreover have "j = length (butlast rest)" using Suc.hyps(2) by simp
    ultimately obtain blocks s' acc' k where l: "alloc_loop cfg env now rid n s acc = Inr (Some blocks, s', acc')"
      "running s' = rid # take k (butlast rest)" "k \<le> length (butlast rest)" "room s2 m2 (rid # take k (butlast rest))"
      "\<forall>j. k < j \<and> j \<le> length (butlast rest) \<longrightarrow> \<not> room s2 m2 (rid # take j (butlast rest))"
      using Suc.hyps(1)[OF _ p(4,3) Suc.prems(3), of acc2] by metis
    have tk: "take i (butlast rest) = take i rest" if "i < length rest" for i using that by (cases rest) (auto simp: butlast_conv_take min_def)
    have d: "distinct rest" using Suc.prems(1,2) by (simp add: oldest_ok_def text_fcfs_def)
    have r: "room s2 m2 (rid # take i rest) = room s m (rid # take i rest)" if "i < length rest" for i
    proof -
      have "last rest \<notin> set (take i rest)" using d that no(2) by (metis append_butlast_last_id distinct_append disjoint_insert(2) in_set_takeD list.set(2) set_append tk)
      then show ?thesis using p(2,5) no(6) by simp
    qed
    have k: "k < length rest" using l(3) no(2) Suc.hyps(2) by (simp add: length_butlast)
    have "\<not> room s m (rid # take i rest)" if "k < i" "i \<le> length rest" for i
    proof (cases "i = length rest")
      case True
      then show ?thesis using no(1) by simp
    next
      case False
      then have "i < length rest" using that by simp
      then show ?thesis using l(5) that tk r by auto
    qed
    with l tk[OF k] r[OF k] k show ?thesis by (intro exI[of _ blocks] exI[of _ s'] exI[of _ acc'] exI[of _ k]) auto
  qed
qed

section \<open>Properties\<close>

text \<open>C4: The oldest running request makes progress. First come, first served, text-only requests,
  one full-attention group, no prefix caching, blocks held by running requests only, and the oldest
  request known to the block manager. If the request wants tokens (a number other than 0) and the
  blocks it needs for them fit into the whole pool, the step of the running loop for it succeeds and
  gives it exactly these tokens, however full the pool is. Requests are preempted from the end of the
  running list, and only as many as it takes: the \<open>k\<close> requests behind it that keep running are the
  longest prefix that leaves it the blocks it lacks, every longer one does not.\<close>

theorem oldest_request_progresses:
  assumes t: "text_fcfs cfg env m s" and run: "running s = rid # rest" and reg: "map_of (num_cached_block m) rid \<noteq> None"
    and n: "n = running_tokens cfg (token_budget acc) (heap s rid)" "n \<noteq> 0"
    and fits: "blocks_needed (kvm s) m (heap s rid) n (num_lookahead_tokens cfg) \<le> int (num_gpu_blocks (co_pool (coordinator (kvm s)))) - 1"
  shows "\<exists>s' acc' k. running_step cfg env now rid s acc = Inr (True, s', acc')
    \<and> map_of (num_scheduled_tokens acc') rid = Some n \<and> running s' = rid # take k rest \<and> k \<le> length rest
    \<and> room_for (kvm s) m (heap s rid) n (num_lookahead_tokens cfg) (rid # take k rest)
    \<and> (\<forall>j. k < j \<and> j \<le> length rest \<longrightarrow> \<not> room_for (kvm s) m (heap s rid) n (num_lookahead_tokens cfg) (rid # take j rest))"
proof -
  have mm: "mm_features (heap s rid) = []" using t run by (simp add: text_fcfs_def)
  have "oldest_ok cfg env rid n m s" using t reg fits by (simp add: oldest_ok_def)
  from alloc_loop_oldest[OF this run n(2)] obtain blocks s1 acc1 k where
    a: "alloc_loop cfg env now rid n s acc = Inr (Some blocks, s1, acc1)" "running s1 = rid # take k rest"
    and k: "k \<le> length rest" "room_for (kvm s) m (heap s rid) n (num_lookahead_tokens cfg) (rid # take k rest)"
      "\<forall>j. k < j \<and> j \<le> length rest \<longrightarrow> \<not> room_for (kvm s) m (heap s rid) n (num_lookahead_tokens cfg) (rid # take j rest)" by metis
  have "\<exists>x. commit_running rid n blocks [] (enc_budget acc) s1 acc1 = Inr x"
    by (simp add: commit_running_def record_encoder_inputs_def Let_def split: prod.splits)
  then obtain s' acc' where c: "commit_running rid n blocks [] (enc_budget acc) s1 acc1 = Inr (s', acc')" by auto
  have "try_schedule_encoder_inputs cfg (heap s rid) (num_computed_tokens (heap s rid)) n (enc_budget acc) (encoder_mgr s)
      = Inr (([], n, enc_budget acc), encoder_mgr s)"
    using mm by (simp add: try_schedule_encoder_inputs_def has_encoder_inputs_def)
  then have "running_step cfg env now rid s acc = Inr (True, s', acc')"
    using n a(1) c by (simp add: running_step_def Let_def)
  moreover have "map_of (num_scheduled_tokens acc') rid = Some n" using commit_running_frame(11)[OF c] by (simp add: update_conv')
  ultimately show ?thesis using commit_running_frame(1)[OF c] a(2) k
    by (intro exI[of _ s'] exI[of _ acc'] exI[of _ k]) simp
qed

text \<open>Two requests fill the pool; the older one needs a block that the younger one holds.\<close>

definition duo_manager :: st_manager where
  "duo_manager = (demo_full [Blk 1])\<lparr>req_to_blocks := [(''a'', [Blk 1]), (''b'', [Blk 2, Blk 3])],
     num_cached_block := [(''a'', 0), (''b'', 0)]\<rparr>"

definition duo_sched :: "kv_cache_manager \<Rightarrow> unit scheduler" where
  "duo_sched km = (scheduler_init (demo_cfg FCFS) False km 0 (\<lambda>rid. demo_req\<lparr>request_id := rid\<rparr>) ())\<lparr>running := [''a'', ''b'']\<rparr>"

lemma duo_manager_ok: "manager_ok duo_manager" "held duo_manager = [Blk 1, Blk 2, Blk 3]"
  by (simp_all add: duo_manager_def manager_ok_def held_def demo_manager_def)

lemma duo_simps [simp]:
  "st_block_size duo_manager = 1" "num_cached_block duo_manager = [(''a'', 0), (''b'', 0)]"
  by (simp_all add: duo_manager_def)

lemma duo_blocks: "blocks_of duo_manager rid = (if rid = ''a'' then [Blk 1] else if rid = ''b'' then [Blk 2, Blk 3] else [])"
  by (simp add: duo_manager_def blocks_of_def)

theorem oldest_request_progresses_witness:
  "\<exists>km s' acc'. running_step (demo_cfg FCFS) demo_env 0 ''a'' (duo_sched km) ((acc_init (demo_cfg FCFS))\<lparr>token_budget := 3\<rparr>) = Inr (True, s', acc')
     \<and> map_of (num_scheduled_tokens acc') ''a'' = Some 3 \<and> running s' = [''a'']"
proof -
  obtain p where p: "pool_inv p []" "num_gpu_blocks p = 4" "\<forall>r\<in>pool_refs 4. rc p r = 1" using demo_pool by blast
  define km where "km = demo_km p [duo_manager]"
  have k: "kv_inv km" unfolding km_def by (rule demo_kv_inv[OF p]) (simp_all add: duo_manager_ok)
  have so: "solo km duo_manager" by (simp add: solo_def km_def duo_manager_def demo_km_def demo_manager_def)
  have t: "text_fcfs (demo_cfg FCFS) demo_env duo_manager (duo_sched km)"
    using k so by (simp add: text_fcfs_def duo_sched_def scheduler_init_def create_request_queue_def duo_blocks)
  have h: "num_computed_tokens (heap (duo_sched km) ''a'') = 0" by (simp add: duo_sched_def scheduler_init_def)
  have n: "3 = running_tokens (demo_cfg FCFS) 3 (heap (duo_sched km) ''a'')"
    by (simp add: running_tokens_def clip_prefill_def duo_sched_def scheduler_init_def num_tokens_with_spec_def)
      (simp add: demo_req_def new_request_def demo_args_def)
  have f: "blocks_needed (kvm (duo_sched km)) duo_manager (heap (duo_sched km) ''a'') 3 (num_lookahead_tokens (demo_cfg FCFS))
      \<le> int (num_gpu_blocks (co_pool (coordinator (kvm (duo_sched km))))) - 1"
    unfolding blocks_needed_def h using p(2) by (simp add: duo_sched_def scheduler_init_def km_def demo_km_def duo_manager_def demo_manager_def cdiv_def)
  have run: "running (duo_sched km) = [''a'', ''b'']" by (simp add: duo_sched_def)
  have no: "\<not> room_for (kvm (duo_sched km)) duo_manager (heap (duo_sched km) ''a'') 3 (num_lookahead_tokens (demo_cfg FCFS)) [''a'', ''b'']"
    unfolding room_for_def blocks_needed_def h using p(2)
    by (simp add: duo_sched_def scheduler_init_def duo_blocks km_def demo_km_def cdiv_def)
  from oldest_request_progresses[OF t run _ _ _ f, of "(acc_init (demo_cfg FCFS))\<lparr>token_budget := 3\<rparr>" 0] n
  obtain s' acc' k where r: "running_step (demo_cfg FCFS) demo_env 0 ''a'' (duo_sched km) ((acc_init (demo_cfg FCFS))\<lparr>token_budget := 3\<rparr>) = Inr (True, s', acc')"
    "map_of (num_scheduled_tokens acc') ''a'' = Some 3" "running s' = ''a'' # take k [''b'']" "k \<le> length [''b'']"
    "room_for (kvm (duo_sched km)) duo_manager (heap (duo_sched km) ''a'') 3 (num_lookahead_tokens (demo_cfg FCFS)) (''a'' # take k [''b''])"
    by auto
  have "k = 0"
  proof (rule ccontr)
    assume "k \<noteq> 0"
    then have "take k [''b''] = [''b'']" using r(4) by (cases k) auto
    with r(5) no show False by simp
  qed
  with r(1-3) show ?thesis by (intro exI[of _ km] exI[of _ s'] exI[of _ acc']) simp
qed

section \<open>Preemption by priority\<close>

text \<open>Request \<open>a\<close> has the lower priority (the larger number) and runs first in the list; it needs no
  new block. Request \<open>b\<close> needs one more block than is free.\<close>

definition prio_heap :: "string \<Rightarrow> request" where
  "prio_heap rid = (if rid = ''a''
     then (new_request 0 (demo_args [5] None) 16 RUNNING False None 1)\<lparr>request_id := ''a'', priority := 5\<rparr>
     else (new_request 0 (demo_args [5, 6, 7] None) 16 RUNNING False None 3)\<lparr>request_id := rid\<rparr>)"

definition prio_sched :: "kv_cache_manager \<Rightarrow> unit scheduler" where
  "prio_sched km = (scheduler_init (demo_cfg PRIORITY) False km 0 prio_heap ())\<lparr>running := [''a'', ''b''], requests := {''a'', ''b''}\<rparr>"

lemma prio_heap_simps [simp]:
  "request_id (prio_heap rid) = rid" "mm_features (prio_heap rid) = []" "num_computed_tokens (prio_heap rid) = 0"
  "num_output_placeholders (prio_heap rid) = 0" "spec_token_ids (prio_heap rid) = []" "arrival_time (prio_heap rid) = 0"
  "num_tokens_with_spec (prio_heap rid) = (if rid = ''a'' then 1 else 3)" "priority (prio_heap rid) = (if rid = ''a'' then 5 else 0)"
  by (simp_all add: prio_heap_def num_tokens_with_spec_def new_request_def demo_args_def)

lemma prio_sched_simps [simp]:
  "running (prio_sched km) = [''a'', ''b'']" "heap (prio_sched km) = prio_heap" "kvm (prio_sched km) = km"
  "waiting (prio_sched km) = Prio_Queue []" "requests (prio_sched km) = {''a'', ''b''}"
  by (simp_all add: prio_sched_def scheduler_init_def create_request_queue_def)

text \<open>A step for a text-only request without draft tokens is its allocation loop.\<close>

lemma text_running_step:
  assumes "mm_features (heap s rid) = []" "n = running_tokens cfg (token_budget acc) (heap s rid)" "n \<noteq> 0"
    and "alloc_loop cfg env now rid n s acc = Inr (Some blocks, s', acc')" "spec_token_ids (heap s' rid) = []"
  shows "running_step cfg env now rid s acc = Inr (True, s', acc'\<lparr>scheduled_running_reqs := scheduled_running_reqs acc' @ [rid],
     req_to_new_blocks := (req_to_new_blocks acc')(rid \<mapsto> blocks),
     num_scheduled_tokens := AList.update rid n (num_scheduled_tokens acc'), token_budget := token_budget acc' - n\<rparr>)"
proof -
  have "try_schedule_encoder_inputs cfg (heap s rid) (num_computed_tokens (heap s rid)) n (enc_budget acc) (encoder_mgr s)
      = Inr (([], n, enc_budget acc), encoder_mgr s)"
    using assms(1) by (simp add: try_schedule_encoder_inputs_def has_encoder_inputs_def)
  then show ?thesis
    using assms(2-5) by (simp add: running_step_def commit_running_def trim_spec_tokens_def record_encoder_inputs_def Let_def)
qed

lemma prio_first:
  assumes "kv_inv km" "solo km m" "st_block_size m = 1" "map_of (num_cached_block m) ''a'' \<noteq> None"
    and "length (blocks_of m ''a'') = 1" "km_max_model_len km = 100" "get_num_free_blocks (co_pool (coordinator km)) = 0"
  shows "\<exists>km' m' blocks. running_alloc (demo_cfg PRIORITY) ''a'' 1 (prio_sched km) = Inr (Some blocks, prio_sched km')
    \<and> kv_inv km' \<and> solo km' m' \<and> st_block_size m' = 1 \<and> num_cached_block m' = num_cached_block m
    \<and> (\<forall>rid. length (blocks_of m' rid) = length (blocks_of m rid)) \<and> km_max_model_len km' = 100
    \<and> get_num_free_blocks (co_pool (coordinator km')) = 0
    \<and> num_gpu_blocks (co_pool (coordinator km')) = num_gpu_blocks (co_pool (coordinator km))"
proof -
  let ?r = "prio_heap ''a''"
  have need: "blocks_needed km m ?r 1 0 - int (length (blocks_of m ''a'')) = 0"
    using assms(3,5,6) by (simp add: blocks_needed_def cdiv_def)
  obtain new km' m' where a: "allocate_slots ?r 1 0 None 0 False 0 km = Inr (Some new, km')"
    and k: "solo km' m'" "st_block_size m' = st_block_size m" "num_cached_block m' = num_cached_block m"
      "int (length (blocks_of m' ''a'')) = int (length (blocks_of m ''a''))" "\<forall>rid. rid \<noteq> ''a'' \<longrightarrow> blocks_of m' rid = blocks_of m rid"
      "get_num_free_blocks (co_pool (coordinator km')) = 0" "km_max_model_len km' = 100"
      "num_gpu_blocks (co_pool (coordinator km')) = num_gpu_blocks (co_pool (coordinator km))"
    using alloc_solo[OF assms(1,2), of ?r 1 0] assms(4,6,7) unfolding prio_heap_simps(1) need by auto
  have "kv_inv km'" by (rule allocate_slots_inv[OF assms(1) _ _ a]) (use assms(2) in \<open>simp_all add: solo_def\<close>)
  moreover have "running_alloc (demo_cfg PRIORITY) ''a'' 1 (prio_sched km) = Inr (Some new, prio_sched km')"
    using a by (simp add: running_alloc_def) (simp add: prio_sched_def scheduler_init_def)
  moreover have "\<forall>rid. length (blocks_of m' rid) = length (blocks_of m rid)" using k(4,5) by (metis of_nat_eq_iff)
  ultimately show ?thesis using k assms(3) by metis
qed

definition prio_after :: "kv_cache_manager \<Rightarrow> unit scheduler" where
  "prio_after km = (prio_sched km)\<lparr>heap := prio_heap(''a'' := preempted (demo_cfg PRIORITY) 0 (prio_heap ''a'')), running := [''b''],
     kvm := km, waiting := Prio_Queue [(5, 0, ''a'')]\<rparr>"

lemma prio_after_kvm:
  "(prio_sched km)\<lparr>heap := prio_heap(''a'' := preempted (demo_cfg PRIORITY) 0 (prio_heap ''a'')), running := [''b''],
     kvm := km', waiting := Prio_Queue [(5, 0, ''a'')]\<rparr> = prio_after km'"
  by (simp add: prio_after_def prio_sched_def scheduler_init_def)

lemma prio_victim:
  assumes "kv_inv km" "solo km m"
  shows "\<exists>km' m' acc'. preempt_one (demo_cfg PRIORITY) demo_env 0 (prio_sched km) acc = Inr (''a'', prio_after km', acc')
    \<and> kv_inv km' \<and> solo km' m' \<and> st_block_size m' = st_block_size m \<and> km_max_model_len km' = km_max_model_len km
    \<and> (\<forall>rid. blocks_of m' rid = (if rid = ''a'' then [] else blocks_of m rid))
    \<and> map_of (num_cached_block m') ''b'' = map_of (num_cached_block m) ''b''
    \<and> num_gpu_blocks (co_pool (coordinator km')) = num_gpu_blocks (co_pool (coordinator km))"
proof -
  obtain km' m' where k: "km_free (heap (prio_sched km) ''a'') (kvm (prio_sched km)) = Inr km'" "kv_inv km'" "solo km' m'"
    "st_block_size m' = st_block_size m" "\<forall>rid. blocks_of m' rid = (if rid = ''a'' then [] else blocks_of m rid)"
    "\<forall>rid. rid \<noteq> ''a'' \<longrightarrow> map_of (num_cached_block m') rid = map_of (num_cached_block m) rid"
    "km_max_model_len km' = km_max_model_len km" "num_gpu_blocks (co_pool (coordinator km')) = num_gpu_blocks (co_pool (coordinator km))"
    using km_free_solo[OF assms, of "prio_heap ''a''"] by auto
  have c: "choose_victim (demo_cfg PRIORITY) (prio_sched km) = Inr (''a'', (prio_sched km)\<lparr>running := [''b'']\<rparr>)"
    by (simp add: choose_victim_def victim_key_def Let_def)
  have q: "prepend_request (queue_entry (prio_sched km) ''a'') (waiting (prio_sched km)) = Inr (Prio_Queue [(5, 0, ''a'')])"
    by (simp add: prepend_request_def lift_queue_def prio_prepend_def prio_add_def heappush_Nil queue_entry_def)
  obtain acc' where "preempt_one (demo_cfg PRIORITY) demo_env 0 (prio_sched km) acc = Inr (''a'', prio_after km', acc')"
    using preempt_one_total[OF c _ _ k(1) q, of demo_env 0 acc] by (auto simp: prio_after_kvm)
  with k(2-8) show ?thesis by (intro exI[of _ km'] exI[of _ m'] exI[of _ acc']) simp
qed

lemma prio_second:
  assumes inv: "kv_inv km" and so: "solo km m" and bs: "st_block_size m = 1" and reg: "map_of (num_cached_block m) ''b'' \<noteq> None"
    and len: "length (blocks_of m ''b'') = 2" and mx: "km_max_model_len km = 100"
    and free: "get_num_free_blocks (co_pool (coordinator km)) = 0" and N: "num_gpu_blocks (co_pool (coordinator km)) = 4"
    and only: "\<And>rid. rid \<noteq> ''a'' \<Longrightarrow> rid \<noteq> ''b'' \<Longrightarrow> blocks_of m rid = []"
  shows "\<exists>blocks km' acc'. alloc_loop (demo_cfg PRIORITY) demo_env 0 ''b'' 3 (prio_sched km) acc = Inr (Some blocks, prio_after km', acc')
    \<and> acc' = acc\<lparr>scheduled_running_reqs := remove1 ''a'' (scheduled_running_reqs acc), preempted_reqs := preempted_reqs acc @ [''a'']\<rparr>
    \<and> km_get_blocks ''a'' km' = [[]]"
proof -
  let ?r = "prio_heap ''b''" and ?cfg = "demo_cfg PRIORITY"
  have need: "blocks_needed km m ?r 3 0 - int (length (blocks_of m ''b'')) = 1" using bs len mx by (simp add: blocks_needed_def cdiv_def)
  let ?km2 = "km\<lparr>coordinator := (coordinator km)\<lparr>single_type_managers := [read_blocks ''b'' m]\<rparr>\<rparr>"
  have a: "allocate_slots ?r 3 0 None 0 False 0 km = Inr (None, ?km2)"
    using alloc_solo[OF inv so, of ?r 3 0] reg free unfolding prio_heap_simps(1) need by simp
  have inv2: "kv_inv ?km2" by (rule allocate_slots_inv[OF inv _ _ a]) (use so in \<open>simp_all add: solo_def\<close>)
  have so2: "solo ?km2 (read_blocks ''b'' m)" using so by (simp add: solo_def)
  have r1: "running_alloc ?cfg ''b'' 3 (prio_sched km) = Inr (None, prio_sched ?km2)"
    using a by (simp add: running_alloc_def) (simp add: prio_sched_def scheduler_init_def)
  obtain km3 m3 acc3 where p: "preempt_one ?cfg demo_env 0 (prio_sched ?km2) acc = Inr (''a'', prio_after km3, acc3)"
    and k3: "kv_inv km3" "solo km3 m3" "st_block_size m3 = 1" "km_max_model_len km3 = 100"
      "\<forall>rid. blocks_of m3 rid = (if rid = ''a'' then [] else blocks_of m rid)" "map_of (num_cached_block m3) ''b'' \<noteq> None"
      "num_gpu_blocks (co_pool (coordinator km3)) = 4"
    using prio_victim[OF inv2 so2, of acc] bs mx reg N by auto
  have f3: "get_num_free_blocks (co_pool (coordinator km3)) = 1"
    using solo_free_blocks[OF k3(1,2), of "''b''"] k3(5,7) only len by auto
  have need3: "blocks_needed km3 m3 ?r 3 0 - int (length (blocks_of m3 ''b'')) = 1"
    using k3(3-5) len by (simp add: blocks_needed_def cdiv_def)
  obtain new km4 m4 where al4: "allocate_slots ?r 3 0 None 0 False 0 km3 = Inr (Some new, km4)"
    and k4: "solo km4 m4" "\<forall>rid. rid \<noteq> ''b'' \<longrightarrow> blocks_of m4 rid = blocks_of m3 rid"
    using alloc_solo[OF k3(1,2), of ?r 3 0] k3(6) f3 unfolding prio_heap_simps(1) need3 by auto
  have "km_get_blocks ''a'' km4 = [[]]" using k4 k3(5) by (simp add: km_get_blocks_def co_get_blocks_def solo_def)
  moreover from al4 have r2: "running_alloc ?cfg ''b'' 3 (prio_after km3) = Inr (Some new, prio_after km4)"
    by (simp add: running_alloc_def prio_after_def) (simp add: prio_sched_def scheduler_init_def)
  moreover have "alloc_loop ?cfg demo_env 0 ''b'' 3 (prio_sched km) acc = Inr (Some new, prio_after km4, acc3)"
    by (simp add: alloc_loop.simps[of _ _ _ _ _ "prio_sched km"] alloc_loop.simps[of _ _ _ _ _ "prio_after km3"] r1 \<open>running_alloc ?cfg ''b'' 3 (prio_after km3) = Inr (Some new, prio_after km4)\<close> p)
  moreover have "acc3 = acc\<lparr>scheduled_running_reqs := remove1 ''a'' (scheduled_running_reqs acc), preempted_reqs := preempted_reqs acc @ [''a'']\<rparr>"
    using preempt_one_shape(3)[OF p] by simp
  ultimately show ?thesis by blast
qed

text \<open>C27: Under the priority policy a preempted request can keep its tokens. There is a well-formed
  state in which one scheduling step gives tokens to a request, then preempts the same request to
  make room for another: the request ends in the waiting queue with status \<^verbatim>\<open>PREEMPTED\<close> and no
  computed tokens, but its entry stays in \<^verbatim>\<open>num_scheduled_tokens\<close>, its tokens are not returned to the
  budget, and the bookkeeping after the step counts them as computed, although the request holds no
  block.\<close>

theorem priority_preemption_keeps_tokens:
  "\<exists>(s :: unit scheduler) s' acc. sched_wf (demo_cfg PRIORITY) s \<and> kv_inv (kvm s)
     \<and> schedule_requests (demo_cfg PRIORITY) demo_env 0 s = Inr (s', acc)
     \<and> ''a'' \<in> set (preempted_reqs acc) \<and> map_of (num_scheduled_tokens acc) ''a'' = Some 1 \<and> token_budget acc = 8 - 1 - 3
     \<and> running s' = [''b''] \<and> waiting s' = Prio_Queue [(5, 0, ''a'')] \<and> status (heap s' ''a'') = PREEMPTED
     \<and> num_computed_tokens (heap s' ''a'') = 0 \<and> km_get_blocks ''a'' (kvm s') = [[]]
     \<and> (\<exists>s''. advance_request (demo_cfg PRIORITY) demo_env (''a'', 1) s' = Inr s'' \<and> num_computed_tokens (heap s'' ''a'') = 1)"
proof -
  obtain p where p: "pool_inv p []" "num_gpu_blocks p = 4" "\<forall>r\<in>pool_refs 4. rc p r = 1" using demo_pool by blast
  define km where "km = demo_km p [duo_manager]"
  let ?cfg = "demo_cfg PRIORITY" and ?m = duo_manager and ?acc = "acc_init (demo_cfg PRIORITY)"
  have k: "kv_inv km" unfolding km_def by (rule demo_kv_inv[OF p]) (simp_all add: duo_manager_ok)
  have so: "solo km ?m" by (simp add: solo_def km_def duo_manager_def demo_km_def demo_manager_def)
  have pool: "get_num_free_blocks (co_pool (coordinator km)) = 0" "num_gpu_blocks (co_pool (coordinator km)) = 4"
    using pool_invD(8)[OF p(1)] p(2) by (simp_all add: km_def)
  have "length (blocks_of ?m ''a'') = 1" "km_max_model_len km = 100" by (simp_all add: duo_blocks km_def)
  then obtain km1 m1 blocks1 where a1: "running_alloc ?cfg ''a'' 1 (prio_sched km) = Inr (Some blocks1, prio_sched km1)"
    and k1: "kv_inv km1" "solo km1 m1" "st_block_size m1 = 1" "num_cached_block m1 = num_cached_block ?m"
      "\<forall>rid. length (blocks_of m1 rid) = length (blocks_of ?m rid)" "km_max_model_len km1 = 100"
      "get_num_free_blocks (co_pool (coordinator km1)) = 0" "num_gpu_blocks (co_pool (coordinator km1)) = 4"
    using prio_first[OF k so] pool by (simp del: One_nat_def) blast
  define acc1 where "acc1 = ?acc\<lparr>scheduled_running_reqs := [''a''], req_to_new_blocks := [''a'' \<mapsto> blocks1],
     num_scheduled_tokens := [(''a'', 1)], token_budget := 7\<rparr>"
  have st1: "running_step ?cfg demo_env 0 ''a'' (prio_sched km) ?acc = Inr (True, prio_sched km1, acc1)"
    using text_running_step[of "prio_sched km" "''a''" 1 ?cfg ?acc demo_env 0 blocks1 "prio_sched km1" ?acc] a1
    by (simp add: alloc_loop.simps[of _ _ _ _ _ "prio_sched km"] running_tokens_def clip_prefill_def acc1_def) (simp add: acc_init_def)
  have b: "length (blocks_of m1 ''b'') = 2" "\<And>rid. rid \<noteq> ''a'' \<Longrightarrow> rid \<noteq> ''b'' \<Longrightarrow> blocks_of m1 rid = []"
    using k1(5) by (simp_all add: duo_blocks flip: length_0_conv)
  obtain blocks2 km2 acc2 where a2: "alloc_loop ?cfg demo_env 0 ''b'' 3 (prio_sched km1) acc1 = Inr (Some blocks2, prio_after km2, acc2)"
    and nob: "km_get_blocks ''a'' km2 = [[]]" and acc2: "acc2 = acc1\<lparr>scheduled_running_reqs := [], preempted_reqs := [''a'']\<rparr>"
    using prio_second[OF k1(1-3) _ b(1) k1(6-8) b(2), of acc1] k1(4) by (auto simp: acc1_def acc_init_def)
  define acc3 where "acc3 = acc2\<lparr>scheduled_running_reqs := [''b''], req_to_new_blocks := (req_to_new_blocks acc2)(''b'' \<mapsto> blocks2),
     num_scheduled_tokens := [(''a'', 1), (''b'', 3)], token_budget := 4\<rparr>"
  have st2: "running_step ?cfg demo_env 0 ''b'' (prio_sched km1) acc1 = Inr (True, prio_after km2, acc3)"
    using text_running_step[of "prio_sched km1" "''b''" 3 ?cfg acc1 demo_env 0 blocks2 "prio_after km2" acc2] a2
    by (simp add: running_tokens_def clip_prefill_def acc1_def acc2 acc3_def prio_after_def)
  have "token_budget ?acc = 8" "token_budget acc1 = 7" "running (prio_after km2) = [''b'']"
    by (simp_all add: acc_init_def acc1_def prio_after_def)
  then have "running_loop ?cfg demo_env 0 0 (prio_sched km) ?acc = Inr (prio_after km2, acc3)"
    using st1 st2 by (simp add: running_loop.simps[of _ _ _ _ "prio_sched km"] running_loop.simps[of _ _ _ _ "prio_sched km1"]
        running_loop.simps[of _ _ _ _ "prio_after km2"])
  then have "schedule_requests ?cfg demo_env 0 (prio_sched km) = Inr (prio_after km2, acc3)"
    by (simp add: schedule_requests_def collect_loras_def acc3_def acc2 create_request_queue_def put_back_skipped_def queue_len_def)
  moreover have "sched_wf ?cfg (prio_sched km)"
    by (simp add: sched_wf_def rqueue_ok_def queue_seq_def waiting_ids_def prio_seq_def prio_ok_def heap_from_def no_ties_def)
  ultimately show ?thesis
    using k by (intro exI[of _ "prio_sched km"] exI[of _ "prio_after km2"] exI[of _ acc3])
      (simp add: acc3_def acc2 prio_after_def advance_request_def has_encoder_inputs_def nob)
qed

end
