(* ===== verification/Sched_Update.thy ===== *)
theory Sched_Update
  imports Sched_Budget
begin

text \<open>
  The other operations of the scheduler: processing the output of the model runner
  (\<^verbatim>\<open>Scheduler.update_from_output\<close>), draft tokens, adding and finishing requests, KV transfers, statistics,
  and the overrides of \<^verbatim>\<open>vllm/v1/core/sched/async_scheduler.py\<close>. Tensors (prompt log-probabilities,
  pooler outputs) are handles; lists of ids stand for sets in the order in which they are iterated.
\<close>

section \<open>Model runner output\<close>

record logprobs_lists =
  logprob_token_ids :: "int list list"
  lp_logprobs :: "rat list list"
  sampled_token_ranks :: "int list"

definition logprobs_slice :: "logprobs_lists \<Rightarrow> int \<Rightarrow> int \<Rightarrow> logprobs_lists" where
  "logprobs_slice l a b = \<lparr>logprob_token_ids = py_slice (logprob_token_ids l) a b, lp_logprobs = py_slice (lp_logprobs l) a b,
     sampled_token_ranks = py_slice (sampled_token_ranks l) a b\<rparr>"

record model_runner_output =
  req_id_to_index :: "string \<rightharpoonup> nat"
  sampled_token_ids :: "int list list"
  mr_logprobs :: "logprobs_lists option"
  prompt_logprobs_dict :: "string \<rightharpoonup> nat option"
  pooler_output :: "nat option list"
  kv_output :: "kv_connector_output option"
  mr_num_nans :: "(string \<rightharpoonup> int) option"

record engine_core_output =
  eo_request_id :: string
  eo_new_token_ids :: "int list"
  eo_finish_reason :: "finish_reason option"
  eo_new_logprobs :: "logprobs_lists option"
  eo_prompt_logprobs :: "nat option"
  eo_pooling_output :: "nat option"
  eo_stop_reason :: "int option"
  eo_events :: "(event_type \<times> rat) list option"
  eo_kv_transfer_params :: "string option"
  eo_num_cached_tokens :: int

section \<open>Statistics\<close>

record spec_decoding_stats =
  sd_num_spec_tokens :: nat
  num_drafts :: int
  num_draft_tokens :: int
  num_accepted_tokens :: int
  num_accepted_tokens_per_pos :: "int list"

definition spec_stats_new :: "nat \<Rightarrow> spec_decoding_stats" where
  "spec_stats_new k = \<lparr>sd_num_spec_tokens = k, num_drafts = 0, num_draft_tokens = 0, num_accepted_tokens = 0,
     num_accepted_tokens_per_pos = replicate k 0\<rparr>"

definition observe_draft :: "int \<Rightarrow> int \<Rightarrow> spec_decoding_stats \<Rightarrow> spec_decoding_stats result" where
  "observe_draft draft accepted st =
     check (accepted \<le> int (sd_num_spec_tokens st)) AssertionError
       (bnd (for_each (\<lambda>i l. bnd (index_py l i) (\<lambda>x. Inr (l[i := x + 1]))) [0..<nat accepted] (num_accepted_tokens_per_pos st)) (\<lambda>l.
          Inr (st\<lparr>num_drafts := num_drafts st + 1, num_draft_tokens := num_draft_tokens st + draft,
                 num_accepted_tokens := num_accepted_tokens st + accepted, num_accepted_tokens_per_pos := l\<rparr>)))"

definition make_spec_decoding_stats :: "sched_config \<Rightarrow> spec_decoding_stats option \<Rightarrow> int \<Rightarrow> int \<Rightarrow> spec_decoding_stats option result" where
  "make_spec_decoding_stats cfg stats draft accepted =
     (if \<not> sched_log_stats cfg then Inr None
      else bnd (observe_draft draft accepted (case stats of None \<Rightarrow> spec_stats_new (num_spec_tokens cfg) | Some st \<Rightarrow> st)) (\<lambda>st.
        Inr (Some st)))"

record scheduler_stats =
  ss_num_running_reqs :: nat
  ss_num_waiting_reqs :: nat
  kv_cache_usage :: rat
  ss_prefix_cache_stats :: prefix_cache_stats
  ss_spec_decoding_stats :: "spec_decoding_stats option"
  num_corrupted_reqs :: nat
  ss_kv_connector_stats :: "string option"

definition make_stats :: "sched_config \<Rightarrow> spec_decoding_stats option \<Rightarrow> string option \<Rightarrow> 'c scheduler \<Rightarrow> (scheduler_stats option \<times> 'c scheduler) result" where
  "make_stats cfg spec kv s =
     (if \<not> sched_log_stats cfg then Inr (None, s)
      else let (ps, km) = make_prefix_cache_stats (kvm s); s1 = s\<lparr>kvm := km\<rparr> in
        case ps of
          None \<Rightarrow> Inl AssertionError
        | Some p \<Rightarrow> Inr (Some \<lparr>ss_num_running_reqs = length (running s), ss_num_waiting_reqs = queue_len (waiting s),
            kv_cache_usage = usage (kvm s1), ss_prefix_cache_stats = p, ss_spec_decoding_stats = spec,
            num_corrupted_reqs = length (filter (\<lambda>rid. is_output_corrupted (heap s rid)) (running s)),
            ss_kv_connector_stats = kv\<rparr>, s1))"

record engine_core_outputs =
  ec_outputs :: "engine_core_output list"
  ec_finished_requests :: "string set option"
  ec_scheduler_stats :: "scheduler_stats option"

section \<open>Sampled tokens\<close>

text \<open>Tokens after a stop are cut off.\<close>

fun append_loop :: "sched_config \<Rightarrow> 'c sched_env \<Rightarrow> int list \<Rightarrow> int list \<Rightarrow> request \<Rightarrow> ((int list \<times> bool) \<times> request) result" where
  "append_loop cfg env seen [] r = Inr ((seen, False), r)"
| "append_loop cfg env seen (t # ts) r =
     bnd (append_output_token_ids (block_hasher_opt env) [t] r) (\<lambda>r1.
     bnd (check_stop r1 (sched_max_model_len cfg) False) (\<lambda>(r2, stopped).
       if stopped then Inr ((seen @ [t], True), r2) else append_loop cfg env (seen @ [t]) ts r2))"

definition update_request_with_output :: "sched_config \<Rightarrow> 'c sched_env \<Rightarrow> string \<Rightarrow> int list \<Rightarrow> 'c scheduler
    \<Rightarrow> ((int list \<times> bool) \<times> 'c scheduler) result" where
  "update_request_with_output cfg env rid ts s =
     bnd (append_loop cfg env [] ts (heap s rid)) (\<lambda>(res, r). Inr (res, upd_req rid (\<lambda>_. r) s))"

text \<open>\<^verbatim>\<open>AsyncScheduler\<close>: output placeholders stand for tokens that are scheduled but not yet known.\<close>

definition async_update_request_with_output :: "sched_config \<Rightarrow> 'c sched_env \<Rightarrow> string \<Rightarrow> int list \<Rightarrow> 'c scheduler
    \<Rightarrow> ((int list \<times> bool) \<times> 'c scheduler) result" where
  "async_update_request_with_output cfg env rid ts s =
     bnd (update_request_with_output cfg env rid ts s) (\<lambda>((new, stopped), s1).
       let s2 = upd_req rid (\<lambda>r. r\<lparr>num_output_placeholders := num_output_placeholders r - int (length new)\<rparr>) s1;
           r2 = heap s2 rid
       in check (num_output_placeholders r2 \<ge> 0) AssertionError
            (if status (heap s rid) = RUNNING
             then bnd (km_cache_blocks r2 (num_computed_tokens r2 - num_output_placeholders r2) (kvm s2)) (\<lambda>km.
                    Inr ((new, stopped), s2\<lparr>kvm := km\<rparr>))
             else Inr ((new, stopped), s2)))"

definition reserve_placeholder :: "string \<Rightarrow> 'c scheduler \<Rightarrow> 'c scheduler result" where
  "reserve_placeholder rid s =
     check (rid \<in> requests s) KeyError
       (Inr (upd_req rid (\<lambda>r. if num_computed_tokens r = num_tokens r + num_output_placeholders r
                              then r\<lparr>num_output_placeholders := num_output_placeholders r + 1\<rparr> else r) s))"

definition async_update_after_schedule :: "sched_config \<Rightarrow> 'c sched_env \<Rightarrow> scheduler_output \<Rightarrow> 'c scheduler \<Rightarrow> 'c scheduler result" where
  "async_update_after_schedule cfg env out s =
     bnd (update_after_schedule cfg env out s) (\<lambda>s1. for_each reserve_placeholder (map fst (so_num_scheduled_tokens out)) s1)"

definition async_schedule :: "sched_config \<Rightarrow> 'c sched_env \<Rightarrow> rat \<Rightarrow> 'c scheduler \<Rightarrow> (scheduler_output \<times> kv_event list \<times> 'c scheduler) result" where
  "async_schedule cfg env = schedule_with (async_update_after_schedule cfg env) cfg env"

section \<open>Processing an output\<close>

record upd_acc =
  ua_outputs :: "(int \<times> engine_core_output list) list"
  ua_spec_stats :: "spec_decoding_stats option"
  stopped_running_reqs :: "string list"
  stopped_preempted_reqs :: "string list"

type_synonym 'c upd_method = "string \<Rightarrow> int list \<Rightarrow> 'c scheduler \<Rightarrow> ((int list \<times> bool) \<times> 'c scheduler) result"

text \<open>Rejected draft tokens are taken back from the computed ones.\<close>

definition count_drafts :: "sched_config \<Rightarrow> string \<Rightarrow> int list option \<Rightarrow> int list \<Rightarrow> 'c scheduler \<Rightarrow> upd_acc \<Rightarrow> ('c scheduler \<times> upd_acc) result" where
  "count_drafts cfg rid drafts generated s a =
     (case drafts of
        None \<Rightarrow> Inr (s, a)
      | Some ds \<Rightarrow>
          if ds = [] then Inr (s, a)
          else let draft = int (length ds); accepted = int (length generated) - 1; rejected = draft - accepted;
                   s1 = upd_req rid (\<lambda>r. r\<lparr>num_computed_tokens := num_computed_tokens r - rejected\<rparr>) s
            in bnd (make_spec_decoding_stats cfg (ua_spec_stats a) draft accepted) (\<lambda>st. Inr (s1, a\<lparr>ua_spec_stats := st\<rparr>)))"

definition pooler_check :: "sched_config \<Rightarrow> model_runner_output \<Rightarrow> string \<Rightarrow> nat \<Rightarrow> bool \<Rightarrow> 'c scheduler
    \<Rightarrow> ((nat option \<times> bool) \<times> 'c scheduler) result" where
  "pooler_check cfg mro rid i stopped s =
     (if pooler_output mro = [] then Inr ((None, stopped), s)
      else bnd (index_py (pooler_output mro) i) (\<lambda>po.
        bnd (check_stop (heap s rid) (sched_max_model_len cfg) (po \<noteq> None)) (\<lambda>(r, st).
          Inr ((po, st), upd_req rid (\<lambda>_. r) s))))"

definition free_stopped :: "'c sched_env \<Rightarrow> string \<Rightarrow> request_status \<Rightarrow> bool \<Rightarrow> 'c scheduler \<Rightarrow> upd_acc
    \<Rightarrow> (string option \<times> 'c scheduler \<times> upd_acc) result" where
  "free_stopped env rid before stopped s a =
     (if \<not> stopped then Inr (None, s, a)
      else bnd (sched_free_request env rid s) (\<lambda>(params, s1).
        Inr (params, s1, if before = RUNNING then a\<lparr>stopped_running_reqs := stopped_running_reqs a @ [rid]\<rparr>
                         else a\<lparr>stopped_preempted_reqs := stopped_preempted_reqs a @ [rid]\<rparr>)))"

definition new_logprobs :: "model_runner_output \<Rightarrow> request \<Rightarrow> nat \<Rightarrow> logprobs_lists option" where
  "new_logprobs mro r i =
     (case sampling_params r of
        None \<Rightarrow> None
      | Some sp \<Rightarrow> if logprobs sp = None then None
          else map_option (\<lambda>l. logprobs_slice l (int i) (int i + 1)) (mr_logprobs mro))"

definition advance_grammar :: "'c sched_env \<Rightarrow> string \<Rightarrow> int list \<Rightarrow> 'c scheduler \<Rightarrow> 'c scheduler result" where
  "advance_grammar env rid ts s =
     (if ts = [] then Inr s
      else bnd (should_advance env rid s) (\<lambda>(adv, s1).
        if \<not> adv then Inr s1
        else let (g, s2) = read_grammar env rid s1 in
          case g of
            None \<Rightarrow> Inl AttributeError
          | Some g \<Rightarrow> Inr (upd_req rid (\<lambda>r. r\<lparr>structured_output_request := Some (Grammar (accept_tokens env g rid ts))\<rparr>) s2)))"

definition record_nans :: "model_runner_output \<Rightarrow> string \<Rightarrow> 'c scheduler \<Rightarrow> 'c scheduler" where
  "record_nans mro rid s =
     (case mr_num_nans mro of
        None \<Rightarrow> s
      | Some d \<Rightarrow> (case d rid of None \<Rightarrow> s | Some n \<Rightarrow> upd_req rid (\<lambda>r. r\<lparr>num_nans_in_logits := n\<rparr>) s))"

text \<open>A request with nothing to report produces no output; it must then have no prompt
  log-probabilities either.\<close>

definition emit_output :: "model_runner_output \<Rightarrow> string \<Rightarrow> nat \<Rightarrow> int list \<Rightarrow> nat option \<Rightarrow> string option \<Rightarrow> logprobs_lists option \<Rightarrow> 'c scheduler \<Rightarrow> upd_acc
    \<Rightarrow> ('c scheduler \<times> upd_acc) result" where
  "emit_output mro rid i ts po params lps s a =
     (let plp = Option.bind (prompt_logprobs_dict mro rid) id in
      if ts \<noteq> [] \<or> po \<noteq> None \<or> (params \<noteq> None \<and> params \<noteq> Some [])
      then let (evs, r1) = take_events (heap s rid); r = heap s rid; c = client_index r;
               out = \<lparr>eo_request_id = rid, eo_new_token_ids = ts, eo_finish_reason = get_finished_reason r,
                      eo_new_logprobs = lps, eo_prompt_logprobs = plp, eo_pooling_output = po,
                      eo_stop_reason = stop_reason r, eo_events = evs, eo_kv_transfer_params = params,
                      eo_num_cached_tokens = num_cached_tokens r\<rparr>
           in Inr (upd_req rid (\<lambda>_. r1) s,
                   a\<lparr>ua_outputs := AList.update c ((case map_of (ua_outputs a) c of None \<Rightarrow> [] | Some l \<Rightarrow> l) @ [out]) (ua_outputs a)\<rparr>)
      else check (plp = None) AssertionError (Inr (s, a)))"

definition update_one :: "'c upd_method \<Rightarrow> sched_config \<Rightarrow> 'c sched_env \<Rightarrow> scheduler_output \<Rightarrow> model_runner_output
    \<Rightarrow> string \<times> int \<Rightarrow> 'c scheduler \<times> upd_acc \<Rightarrow> ('c scheduler \<times> upd_acc) result" where
  "update_one method cfg env out mro kn st =
     (let (rid, n) = kn; (s, a) = st in
      check (n > 0) AssertionError
        (if rid \<notin> requests s then Inr (s, a)
         else bnd (lookup_py (req_id_to_index mro) rid) (\<lambda>i.
           bnd (if sampled_token_ids mro = [] then Inr [] else index_py (sampled_token_ids mro) i) (\<lambda>generated.
           bnd (count_drafts cfg rid (map_of (so_spec_decode_tokens out) rid) generated s a) (\<lambda>(s1, a1).
           let before = status (heap s1 rid) in
           bnd (if generated = [] then Inr (([], False), s1) else method rid generated s1) (\<lambda>((ts, stopped), s2).
           bnd (pooler_check cfg mro rid i stopped s2) (\<lambda>((po, stopped2), s3).
           bnd (free_stopped env rid before stopped2 s3 a1) (\<lambda>(params, s4, a4).
           let lps = new_logprobs mro (heap s4 rid) i in
           bnd (advance_grammar env rid ts s4) (\<lambda>s5.
             emit_output mro rid i ts po params lps (record_nans mro rid s5) a4)))))))))"

definition update_from_kv_xfer_finished :: "'c sched_env \<Rightarrow> kv_connector_output \<Rightarrow> 'c scheduler \<Rightarrow> 'c scheduler result" where
  "update_from_kv_xfer_finished env ko s =
     (let s1 = (case connector env of None \<Rightarrow> s | Some k \<Rightarrow> s\<lparr>conn := update_connector_output k ko (conn s)\<rparr>);
          s2 = s1\<lparr>finished_recving_kv_req_ids := finished_recving_kv_req_ids s1 \<union> set (finished_recving ko)\<rparr>
      in for_each (\<lambda>rid s. check (rid \<in> requests s) KeyError (free_request_blocks rid s)) (finished_sending ko) s2)"

definition remove_stopped :: "upd_acc \<Rightarrow> 'c scheduler \<Rightarrow> 'c scheduler result" where
  "remove_stopped a s =
     (let s1 = (if stopped_running_reqs a = [] then s
                else s\<lparr>running := remove_all (running s) (set (stopped_running_reqs a))\<rparr>)
      in if stopped_preempted_reqs a = [] then Inr s1
         else bnd (remove_requests (map (queue_entry s1) (stopped_preempted_reqs a)) (waiting s1)) (\<lambda>q. Inr (s1\<lparr>waiting := q\<rparr>)))"

definition report_finished :: "'c scheduler \<Rightarrow> (int \<times> engine_core_outputs) list \<Rightarrow> (int \<times> engine_core_outputs) list \<times> 'c scheduler" where
  "report_finished s outs =
     (case finished_req_ids_dict s of
        None \<Rightarrow> (outs, s)
      | Some d \<Rightarrow>
          (fold (\<lambda>(c, ids) outs. AList.update c (case map_of outs c of
              Some eco \<Rightarrow> eco\<lparr>ec_finished_requests := Some ids\<rparr>
            | None \<Rightarrow> \<lparr>ec_outputs = [], ec_finished_requests = Some ids, ec_scheduler_stats = None\<rparr>) outs) d outs,
           s\<lparr>finished_req_ids_dict := Some []\<rparr>))"

text \<open>The statistics go to the first client with an output.\<close>

definition attach_stats :: "scheduler_stats option \<Rightarrow> (int \<times> engine_core_outputs) list \<Rightarrow> (int \<times> engine_core_outputs) list" where
  "attach_stats stats outs =
     (case stats of
        None \<Rightarrow> outs
      | Some _ \<Rightarrow> (case outs of
          [] \<Rightarrow> [(0, \<lparr>ec_outputs = [], ec_finished_requests = None, ec_scheduler_stats = stats\<rparr>)]
        | (c, eco) # rest \<Rightarrow> (c, eco\<lparr>ec_scheduler_stats := stats\<rparr>) # rest))"

definition update_from_output_with :: "'c upd_method \<Rightarrow> sched_config \<Rightarrow> 'c sched_env \<Rightarrow> scheduler_output \<Rightarrow> model_runner_output \<Rightarrow> 'c scheduler
    \<Rightarrow> ((int \<times> engine_core_outputs) list \<times> 'c scheduler) result" where
  "update_from_output_with method cfg env out mro s =
     bnd (for_each (update_one method cfg env out mro) (so_num_scheduled_tokens out)
            (s, \<lparr>ua_outputs = [], ua_spec_stats = None, stopped_running_reqs = [], stopped_preempted_reqs = []\<rparr>)) (\<lambda>(s1, a).
     bnd (remove_stopped a s1) (\<lambda>s2.
     bnd (case kv_output mro of None \<Rightarrow> Inr s2 | Some ko \<Rightarrow> update_from_kv_xfer_finished env ko s2) (\<lambda>s3.
     let (outs, s4) = report_finished s3 (map (\<lambda>(c, os). (c, \<lparr>ec_outputs = os, ec_finished_requests = None, ec_scheduler_stats = None\<rparr>)) (ua_outputs a)) in
     bnd (make_stats cfg (ua_spec_stats a) (Option.bind (kv_output mro) kv_connector_stats) s4) (\<lambda>(stats, s5).
       Inr (attach_stats stats outs, s5)))))"

definition update_from_output :: "sched_config \<Rightarrow> 'c sched_env \<Rightarrow> scheduler_output \<Rightarrow> model_runner_output \<Rightarrow> 'c scheduler
    \<Rightarrow> ((int \<times> engine_core_outputs) list \<times> 'c scheduler) result" where
  "update_from_output cfg env = update_from_output_with (update_request_with_output cfg env) cfg env"

definition async_update_from_output :: "sched_config \<Rightarrow> 'c sched_env \<Rightarrow> scheduler_output \<Rightarrow> model_runner_output \<Rightarrow> 'c scheduler
    \<Rightarrow> ((int \<times> engine_core_outputs) list \<times> 'c scheduler) result" where
  "async_update_from_output cfg env = update_from_output_with (async_update_request_with_output cfg env) cfg env"

section \<open>Other operations\<close>

definition update_draft_one :: "'c sched_env \<Rightarrow> string \<times> int list \<Rightarrow> 'c scheduler \<Rightarrow> 'c scheduler result" where
  "update_draft_one env kd s =
     (let (rid, ts) = kd in
      if rid \<notin> requests s \<or> is_finished (heap s rid) then Inr s
      else if ts = [] then Inr (upd_req rid (\<lambda>r. r\<lparr>spec_token_ids := []\<rparr>) s)
      else bnd (should_advance env rid s) (\<lambda>(adv, s1).
        if adv
        then let (g, s2) = read_grammar env rid s1 in
          (case g of
             None \<Rightarrow> Inl AttributeError
           | Some g \<Rightarrow> Inr (upd_req rid (\<lambda>r. r\<lparr>spec_token_ids := validate_tokens env g ts\<rparr>) s2))
        else Inr (upd_req rid (\<lambda>r. r\<lparr>spec_token_ids := ts\<rparr>) s1)))"

definition update_draft_token_ids :: "'c sched_env \<Rightarrow> string list \<Rightarrow> int list list \<Rightarrow> 'c scheduler \<Rightarrow> 'c scheduler result" where
  "update_draft_token_ids env rids drafts s = for_each (update_draft_one env) (zip rids drafts) s"

definition sched_add_request :: "sched_config \<Rightarrow> rat \<Rightarrow> request \<Rightarrow> 'c scheduler \<Rightarrow> 'c scheduler result" where
  "sched_add_request cfg now r s =
     (let rid = request_id r; s1 = s\<lparr>heap := (heap s)(rid := r)\<rparr> in
      bnd (add_request (queue_entry s1 rid) (waiting s1)) (\<lambda>q.
        Inr (upd_req rid (log_event cfg QUEUED now) (s1\<lparr>waiting := q, requests := insert rid (requests s1)\<rparr>))))"

definition finish_one :: "'c sched_env \<Rightarrow> request_status \<Rightarrow> string \<Rightarrow> 'c scheduler \<Rightarrow> 'c scheduler result" where
  "finish_one env st rid s = bnd (sched_free_request env rid (set_status st rid s)) (\<lambda>(_, s1). Inr s1)"

definition finish_requests :: "'c sched_env \<Rightarrow> string list \<Rightarrow> request_status \<Rightarrow> 'c scheduler \<Rightarrow> 'c scheduler result" where
  "finish_requests env rids st s =
     check (status_is_finished st) AssertionError
       (let valid = filter (\<lambda>rid. rid \<in> requests s) rids;
            to_run = filter (\<lambda>rid. status (heap s rid) = RUNNING) valid;
            to_wait = filter (\<lambda>rid. status (heap s rid) \<noteq> RUNNING) valid;
            s1 = (if to_run = [] then s else s\<lparr>running := remove_all (running s) (set to_run)\<rparr>)
        in bnd (if to_wait = [] then Inr s1
                else bnd (remove_requests (map (queue_entry s1) to_wait) (waiting s1)) (\<lambda>q. Inr (s1\<lparr>waiting := q\<rparr>))) (\<lambda>s2.
             for_each (finish_one env st) valid s2))"

definition get_request_counts :: "'c scheduler \<Rightarrow> nat \<times> nat" where
  "get_request_counts s = (length (running s), queue_len (waiting s))"

definition get_num_unfinished_requests :: "'c scheduler \<Rightarrow> nat" where
  "get_num_unfinished_requests s = queue_len (waiting s) + length (running s)"

definition has_finished_requests :: "'c scheduler \<Rightarrow> bool" where
  "has_finished_requests s \<longleftrightarrow> card (finished_req_ids s) > 0"

definition sched_reset_prefix_cache :: "'c scheduler \<Rightarrow> (bool \<times> 'c scheduler) result" where
  "sched_reset_prefix_cache s = bnd (km_reset_prefix_cache (kvm s)) (\<lambda>(b, km). Inr (b, s\<lparr>kvm := km\<rparr>))"

end
