(* ===== verification/Sched_Lifecycle.thy ===== *)
theory Sched_Lifecycle
  imports Sched_Update
begin

text \<open>
  The life of a request after it is scheduled: sampled tokens are appended up to the first stop,
  generation ends, and finishing a request removes it from every part of the scheduler.
\<close>

section \<open>Appending sampled tokens\<close>

definition is_stop_token :: "request \<Rightarrow> int \<Rightarrow> bool" where
  "is_stop_token r t = (case sampling_params r of
     None \<Rightarrow> False
   | Some sp \<Rightarrow> (\<not> ignore_eos sp \<and> eos_token_id r = Some t) \<or> (\<exists>ts. stop_token_ids sp = Some ts \<and> t \<in> set ts))"

text \<open>The request stops with the first \<open>j\<close> of the sampled tokens.\<close>

definition stop_at :: "sched_config \<Rightarrow> request \<Rightarrow> int list \<Rightarrow> nat \<Rightarrow> bool" where
  "stop_at cfg r ts j \<longleftrightarrow> num_tokens r + int j \<ge> sched_max_model_len cfg \<or> num_output_tokens r + int j \<ge> max_tokens r
     \<or> is_stop_token r (ts ! (j - 1))"

definition stops_first :: "sched_config \<Rightarrow> request \<Rightarrow> int list \<Rightarrow> nat \<Rightarrow> bool" where
  "stops_first cfg r ts k \<longleftrightarrow> 0 < k \<and> k \<le> length ts \<and> stop_at cfg r ts k \<and> (\<forall>j. 0 < j \<and> j < k \<longrightarrow> \<not> stop_at cfg r ts j)"

definition never_stops :: "sched_config \<Rightarrow> request \<Rightarrow> int list \<Rightarrow> bool" where
  "never_stops cfg r ts \<longleftrightarrow> (\<forall>j. 0 < j \<and> j \<le> length ts \<longrightarrow> \<not> stop_at cfg r ts j)"

text \<open>A generation request whose block hasher does not raise.\<close>

definition generating :: "'c sched_env \<Rightarrow> request \<Rightarrow> bool" where
  "generating env r \<longleftrightarrow> pooling_params r = None \<and> sampling_params r \<noteq> None \<and> \<not> is_finished r
     \<and> (\<forall>h r'. block_hasher_opt env = Some h \<longrightarrow> (\<exists>hs. h r' = Inr hs))"

lemma append_total:
  assumes "generating env r"
  shows "\<exists>hs. append_output_token_ids (block_hasher_opt env) ts r = Inr (r\<lparr>output_token_ids := output_token_ids r @ ts,
     all_token_ids := all_token_ids r @ ts, block_hashes := hs\<rparr>)"
proof (cases "block_hasher_opt env")
  case None
  have "r\<lparr>output_token_ids := output_token_ids r @ ts, all_token_ids := all_token_ids r @ ts\<rparr>
      = r\<lparr>output_token_ids := output_token_ids r @ ts, all_token_ids := all_token_ids r @ ts, block_hashes := block_hashes r\<rparr>" by simp
  with None show ?thesis unfolding append_output_token_ids_def by (metis Let_def option.simps(4))
next
  case (Some h)
  then obtain hs where "h (r\<lparr>output_token_ids := output_token_ids r @ ts, all_token_ids := all_token_ids r @ ts\<rparr>) = Inr hs"
    using assms unfolding generating_def by blast
  with Some show ?thesis by (auto simp: append_output_token_ids_def Let_def)
qed

lemma check_stop_generating:
  fixes len :: int
  assumes "pooling_params r = None" "sampling_params r \<noteq> None" "output_token_ids r \<noteq> []" "\<not> is_finished r"
  defines "stops \<equiv> num_tokens r \<ge> len \<or> num_output_tokens r \<ge> max_tokens r \<or> is_stop_token r (last (output_token_ids r))"
  shows "\<exists>r'. check_stop r len False = Inr (r', stops) \<and> (\<not> stops \<longrightarrow> r' = r)
    \<and> is_finished r' = stops \<and> output_token_ids r' = output_token_ids r \<and> all_token_ids r' = all_token_ids r"
proof -
  obtain sp where sp: "sampling_params r = Some sp" using assms(2) by blast
  show ?thesis
    using assms(1,3,4) sp
    by (cases "stop_token_ids sp") (auto simp: check_stop_def stops_def is_stop_token_def is_finished_def Let_def)
qed

lemma append_loop_spec:
  assumes "generating env r"
  shows "\<exists>k stopped r'. append_loop cfg env seen ts r = Inr ((seen @ take k ts, stopped), r')
    \<and> (if stopped then stops_first cfg r ts k else k = length ts \<and> never_stops cfg r ts)
    \<and> is_finished r' = stopped \<and> output_token_ids r' = output_token_ids r @ take k ts
    \<and> all_token_ids r' = all_token_ids r @ take k ts"
  using assms
proof (induction ts arbitrary: r seen)
  case Nil
  then show ?case by (auto simp: never_stops_def generating_def)
next
  case (Cons t ts)
  obtain hs where a: "append_output_token_ids (block_hasher_opt env) [t] r = Inr (r\<lparr>output_token_ids := output_token_ids r @ [t],
     all_token_ids := all_token_ids r @ [t], block_hashes := hs\<rparr>)" (is "_ = Inr ?r")
    using append_total[OF Cons.prems] by blast
  define r1 where "r1 = ?r"
  have f: "output_token_ids r1 = output_token_ids r @ [t]" "all_token_ids r1 = all_token_ids r @ [t]"
    "pooling_params r1 = None" "sampling_params r1 \<noteq> None" "\<not> is_finished r1" "generating env r1"
    "is_stop_token r1 x = is_stop_token r x" "max_tokens r1 = max_tokens r" for x
    using Cons.prems by (auto simp: r1_def generating_def is_finished_def is_stop_token_def)
  have n: "num_tokens r1 = num_tokens r + 1" "num_output_tokens r1 = num_output_tokens r + 1"
    by (simp_all add: num_tokens_def num_output_tokens_def f)
  have one: "stop_at cfg r (t # ts) (Suc 0) \<longleftrightarrow> num_tokens r1 \<ge> sched_max_model_len cfg \<or> num_output_tokens r1 \<ge> max_tokens r1
      \<or> is_stop_token r1 (last (output_token_ids r1))"
    by (simp add: stop_at_def f n)
  have shift: "stop_at cfg r (t # ts) (Suc j) = stop_at cfg r1 ts j" if "0 < j" for j
    using that by (simp add: stop_at_def f n) (simp add: algebra_simps)
  obtain r2 where c: "check_stop r1 (sched_max_model_len cfg) False = Inr (r2, stop_at cfg r (t # ts) (Suc 0))"
    "\<not> stop_at cfg r (t # ts) (Suc 0) \<longrightarrow> r2 = r1" "is_finished r2 = stop_at cfg r (t # ts) (Suc 0)"
    "output_token_ids r2 = output_token_ids r1" "all_token_ids r2 = all_token_ids r1"
    using check_stop_generating[OF f(3,4) _ f(5), of "sched_max_model_len cfg"] f(1) unfolding one by auto
  show ?case
  proof (cases "stop_at cfg r (t # ts) (Suc 0)")
    case True
    then have "append_loop cfg env seen (t # ts) r = Inr ((seen @ take 1 (t # ts), True), r2)"
      using a c(1) by (simp add: r1_def)
    moreover have "stops_first cfg r (t # ts) 1" using True by (simp add: stops_first_def)
    ultimately show ?thesis using c(3-5) f(1,2) True
      by (intro exI[of _ 1] exI[of _ True] exI[of _ r2]) simp
  next
    case False
    obtain k stopped r' where IH: "append_loop cfg env (seen @ [t]) ts r1 = Inr (((seen @ [t]) @ take k ts, stopped), r')"
      "if stopped then stops_first cfg r1 ts k else k = length ts \<and> never_stops cfg r1 ts"
      "is_finished r' = stopped" "output_token_ids r' = output_token_ids r1 @ take k ts" "all_token_ids r' = all_token_ids r1 @ take k ts"
      using Cons.IH[OF f(6), of "seen @ [t]"] by blast
    have "append_loop cfg env seen (t # ts) r = Inr ((seen @ take (Suc k) (t # ts), stopped), r')"
      using a c(1,2) False IH(1) by (simp add: r1_def)
    moreover have "if stopped then stops_first cfg r (t # ts) (Suc k) else Suc k = length (t # ts) \<and> never_stops cfg r (t # ts)"
    proof -
      have "\<not> stop_at cfg r (t # ts) j" if "0 < j" "\<forall>i. 0 < i \<and> Suc i = j \<longrightarrow> \<not> stop_at cfg r1 ts i" for j
        using that False shift by (cases j; cases "j = Suc 0") auto
      then show ?thesis using IH(2) shift[of k] by (auto simp: stops_first_def never_stops_def split: if_splits)
    qed
    ultimately show ?thesis using IH(3-5) f(1,2) by (intro exI[of _ "Suc k"] exI[of _ stopped] exI[of _ r']) simp
  qed
qed

section \<open>Properties of generation\<close>

text \<open>C12: Appending sampled tokens to a generation request never raises; it takes the tokens up to and
  including the first one at which the length limit, the token limit or a stop token is reached, and
  all of them if there is none; the request is finished exactly in the first case. Generation ends:
  a request that is given as many tokens as it may still produce stops.\<close>

theorem generation_ends:
  assumes "generating env (heap s rid)"
  shows "\<exists>k stopped s'. update_request_with_output cfg env rid ts s = Inr ((take k ts, stopped), s')
    \<and> (if stopped then stops_first cfg (heap s rid) ts k else k = length ts \<and> never_stops cfg (heap s rid) ts)
    \<and> is_finished (heap s' rid) = stopped \<and> output_token_ids (heap s' rid) = output_token_ids (heap s rid) @ take k ts
    \<and> (ts \<noteq> [] \<and> max_tokens (heap s rid) - num_output_tokens (heap s rid) \<le> int (length ts) \<longrightarrow> stopped)"
proof -
  let ?r = "heap s rid"
  obtain k stopped r' where a: "append_loop cfg env [] ts ?r = Inr (([] @ take k ts, stopped), r')"
    "if stopped then stops_first cfg ?r ts k else k = length ts \<and> never_stops cfg ?r ts"
    "is_finished r' = stopped" "output_token_ids r' = output_token_ids ?r @ take k ts"
    using append_loop_spec[OF assms, of cfg "[]" ts] by blast
  have "stopped" if "ts \<noteq> []" "max_tokens ?r - num_output_tokens ?r \<le> int (length ts)"
  proof (rule ccontr)
    assume "\<not> stopped"
    then have "\<not> stop_at cfg ?r ts (length ts)" using a(2) that(1) by (simp add: never_stops_def)
    with that(2) show False by (simp add: stop_at_def)
  qed
  with a show ?thesis
    by (intro exI[of _ k] exI[of _ stopped] exI[of _ "upd_req rid (\<lambda>_. r') s"]) (simp add: update_request_with_output_def)
qed

theorem generation_ends_witness:
  "\<exists>(s :: unit scheduler) k s'. heap s ''r'' = stop_demo
     \<and> update_request_with_output (demo_cfg FCFS) demo_env ''r'' [7, 9, 3] s = Inr ((take k [7, 9, 3], True), s') \<and> is_finished (heap s' ''r'')"
proof -
  obtain s :: "unit scheduler" where s: "heap s ''r'' = stop_demo"
    by (rule that[of "(demo_sched FCFS undefined)\<lparr>heap := \<lambda>_. stop_demo\<rparr>"]) simp
  have g: "generating demo_env (heap s ''r'')" by (simp add: s generating_def stop_demo_def is_finished_def demo_env_def)
  have "\<not> never_stops (demo_cfg FCFS) stop_demo [7, 9, 3]"
    unfolding never_stops_def not_all by (intro exI[of _ 2]) (simp add: stop_at_def is_stop_token_def stop_demo_def)
  with generation_ends[OF g, of "demo_cfg FCFS" "[7, 9, 3]"] s show ?thesis by (force split: if_splits)
qed

section \<open>Finishing requests\<close>

text \<open>Where a live request is and what status it has there.\<close>

definition waiting_status :: "request_status \<Rightarrow> bool" where
  "waiting_status st \<longleftrightarrow> st \<in> {WAITING, WAITING_FOR_FSM, WAITING_FOR_REMOTE_KVS, PREEMPTED}"

definition placed :: "'c scheduler \<Rightarrow> bool" where
  "placed s \<longleftrightarrow> (\<forall>rid\<in>set (running s). rid \<in> requests s \<and> status (heap s rid) = RUNNING)
     \<and> (\<forall>e\<in>set (queue_seq (waiting s)). entry_id e \<in> requests s \<and> e = queue_entry s (entry_id e)
          \<and> waiting_status (status (heap s (entry_id e))))
     \<and> (\<forall>rid\<in>requests s. request_id (heap s rid) = rid)"

text \<open>Without a connector and without encoder inputs, freeing a finished request succeeds.\<close>

lemma sched_free_request_total:
  assumes "connector env = None" "set_order env {} = []" "kv_inv (kvm s)" "rid \<in> requests s" "is_finished (heap s rid)"
    and "mm_features (heap s rid) = []" "request_id (heap s rid) = rid"
  shows "\<exists>s'. sched_free_request env rid s = Inr (None, s') \<and> requests s' = requests s - {rid} \<and> running s' = running s
    \<and> waiting s' = waiting s \<and> heap s' = heap s \<and> finished_req_ids s' = insert rid (finished_req_ids s) \<and> kv_inv (kvm s')
    \<and> list_all (\<lambda>bs. bs = []) (km_get_blocks rid (kvm s'))
    \<and> (\<forall>x. x \<noteq> rid \<longrightarrow> km_get_blocks x (kvm s') = km_get_blocks x (kvm s))"
proof -
  obtain km' where k: "km_free (heap s rid) (kvm s) = Inr km'" "kv_inv km'" "list_all (\<lambda>bs. bs = []) (km_get_blocks rid km')"
    "\<forall>x. x \<noteq> rid \<longrightarrow> km_get_blocks x km' = km_get_blocks x (kvm s)"
    using km_free_ok[OF assms(3), of "heap s rid"] assms(7) by auto
  have e: "encoder_free env rid s = Inr s" by (rule encoder_free_text[OF assms(6,2)])
  show ?thesis
    using assms(1,4,5) k
    by (simp add: sched_free_request_def connector_finished_def e free_request_blocks_def sched_km_free_def Let_def)
qed

lemma finish_all:
  assumes "connector env = None" "set_order env {} = []" "status_is_finished st" "distinct rids" "kv_inv (kvm s)"
    and "set rids \<subseteq> requests s" "\<forall>rid\<in>set rids. mm_features (heap s rid) = [] \<and> request_id (heap s rid) = rid"
  shows "\<exists>s'. for_each (finish_one env st) rids s = Inr s' \<and> requests s' = requests s - set rids \<and> running s' = running s
    \<and> waiting s' = waiting s \<and> (\<forall>x. heap s' x = (if x \<in> set rids then (heap s x)\<lparr>status := st\<rparr> else heap s x))
    \<and> finished_req_ids s' = finished_req_ids s \<union> set rids \<and> kv_inv (kvm s')
    \<and> (\<forall>x. if x \<in> set rids then list_all (\<lambda>bs. bs = []) (km_get_blocks x (kvm s')) else km_get_blocks x (kvm s') = km_get_blocks x (kvm s))"
  using assms(4-7)
proof (induction rids arbitrary: s)
  case (Cons rid rids)
  let ?s = "set_status st rid s"
  have h: "heap ?s = (heap s)(rid := (heap s rid)\<lparr>status := st\<rparr>)" by (simp add: set_status_def)
  have fin: "is_finished (heap ?s rid)" using assms(3) by (simp add: h is_finished_def)
  have ff: "finished_req_ids ?s = finished_req_ids s" by (simp add: set_status_def upd_req_def)
  obtain s1 where f1: "sched_free_request env rid ?s = Inr (None, s1)" and s1: "requests s1 = requests s - {rid}"
    "running s1 = running s" "waiting s1 = waiting s" "heap s1 = heap ?s" "finished_req_ids s1 = insert rid (finished_req_ids s)"
    "kv_inv (kvm s1)" "list_all (\<lambda>bs. bs = []) (km_get_blocks rid (kvm s1))"
    "\<forall>x. x \<noteq> rid \<longrightarrow> km_get_blocks x (kvm s1) = km_get_blocks x (kvm s)"
    using sched_free_request_total[OF assms(1,2), of ?s rid] fin Cons.prems ff by (auto simp: h)
  have "set rids \<subseteq> requests s1" "\<forall>x\<in>set rids. mm_features (heap s1 x) = [] \<and> request_id (heap s1 x) = x" "distinct rids"
    using Cons.prems by (auto simp: s1 h)
  from Cons.IH[OF this(3) s1(6) this(1,2)] obtain s' where s': "for_each (finish_one env st) rids s1 = Inr s'"
    "requests s' = requests s1 - set rids" "running s' = running s1" "waiting s' = waiting s1"
    "\<forall>x. heap s' x = (if x \<in> set rids then (heap s1 x)\<lparr>status := st\<rparr> else heap s1 x)"
    "finished_req_ids s' = finished_req_ids s1 \<union> set rids" "kv_inv (kvm s')"
    "\<forall>x. if x \<in> set rids then list_all (\<lambda>bs. bs = []) (km_get_blocks x (kvm s')) else km_get_blocks x (kvm s') = km_get_blocks x (kvm s1)"
    by blast
  have "for_each (finish_one env st) (rid # rids) s = Inr s'" using f1 s'(1) by (simp add: finish_one_def)
  moreover have "if x \<in> set (rid # rids) then list_all (\<lambda>bs. bs = []) (km_get_blocks x (kvm s')) else km_get_blocks x (kvm s') = km_get_blocks x (kvm s)" for x
    using s'(8)[rule_format, of x] s1(7,8) Cons.prems(1) by (cases "x = rid") auto
  ultimately show ?case using s' s1 Cons.prems(1) by (intro exI[of _ s']) (auto simp: h)
qed simp

lemma entry_id_queue_entry [simp]: "entry_id (queue_entry s rid) = rid"
  by (simp add: entry_id_def queue_entry_def)

text \<open>Taking a set of requests out of the running list and the waiting queue.\<close>

lemma unqueue_ok:
  assumes run_ok: "distinct (running s)" and ok: "rqueue_ok (waiting s)" and pl: "placed s" and valid: "valid = filter (\<lambda>rid. rid \<in> requests s) rids"
  defines "to_run \<equiv> filter (\<lambda>rid. status (heap s rid) = RUNNING) valid"
    and "to_wait \<equiv> filter (\<lambda>rid. status (heap s rid) \<noteq> RUNNING) valid"
  defines "s1 \<equiv> (if to_run = [] then s else s\<lparr>running := remove_all (running s) (set to_run)\<rparr>)"
  shows "\<exists>q. (if to_wait = [] then Inr s1 else bnd (remove_requests (map (queue_entry s1) to_wait) (waiting s1)) (\<lambda>q. Inr (s1\<lparr>waiting := q\<rparr>)))
      = Inr (s\<lparr>running := filter (\<lambda>rid. rid \<notin> set rids) (running s), waiting := q\<rparr>)
    \<and> rqueue_ok q \<and> queue_seq q = filter (\<lambda>e. entry_id e \<notin> set rids) (queue_seq (waiting s))
    \<and> (waiting s = Fcfs_Queue l \<longrightarrow> (\<exists>l'. q = Fcfs_Queue l'))"
proof -
  have run: "rid \<in> set to_run \<longleftrightarrow> rid \<in> set rids" if "rid \<in> set (running s)" for rid
    using that pl by (auto simp: to_run_def valid placed_def)
  have "s1 = s\<lparr>running := filter (\<lambda>rid. rid \<notin> set to_run) (running s)\<rparr>"
    using run_ok by (simp add: s1_def remove_all_filter)
  moreover have "filter (\<lambda>rid. rid \<notin> set to_run) (running s) = filter (\<lambda>rid. rid \<notin> set rids) (running s)"
    by (rule filter_cong) (simp_all add: run)
  ultimately have s1: "s1 = s\<lparr>running := filter (\<lambda>rid. rid \<notin> set rids) (running s)\<rparr>" by simp
  have qe: "queue_entry s1 = queue_entry s" by (simp add: s1 queue_entry_def fun_eq_iff)
  have w: "e \<in> set (map (queue_entry s) to_wait) \<longleftrightarrow> entry_id e \<in> set rids" if "e \<in> set (queue_seq (waiting s))" for e
  proof -
    have e: "entry_id e \<in> requests s" "e = queue_entry s (entry_id e)" "status (heap s (entry_id e)) \<noteq> RUNNING"
      using that pl by (auto simp: placed_def waiting_status_def)
    then show ?thesis by (auto simp: to_wait_def valid)
  qed
  show ?thesis
  proof (cases "to_wait = []")
    case True
    then have "filter (\<lambda>e. entry_id e \<notin> set rids) (queue_seq (waiting s)) = queue_seq (waiting s)"
      using w by (intro filter_True) auto
    with True ok show ?thesis by (intro exI[of _ "waiting s"]) (simp add: s1)
  next
    case False
    obtain q where q: "remove_requests (map (queue_entry s) to_wait) (waiting s) = Inr q" "rqueue_ok q"
      "queue_seq q = filter (\<lambda>e. e \<notin> set (map (queue_entry s) to_wait)) (queue_seq (waiting s))"
      using remove_requests_ok[OF ok] by blast
    have "queue_seq q = filter (\<lambda>e. entry_id e \<notin> set rids) (queue_seq (waiting s))"
      unfolding q(3) by (rule filter_cong) (simp_all only: w)
    moreover have "waiting s = Fcfs_Queue l \<longrightarrow> (\<exists>l'. q = Fcfs_Queue l')"
      using q(1) by (auto simp: remove_requests_def lift_queue_def fcfs_remove_all_def)
    ultimately show ?thesis using q(1,2) False by (intro exI[of _ q]) (simp add: qe, simp add: s1)
  qed
qed

lemma placed_remove:
  assumes "sched_wf cfg s" "placed s" "requests s' = requests s - R" "\<forall>x. x \<notin> R \<longrightarrow> heap s' x = heap s x"
    and "running s' = filter (\<lambda>rid. rid \<notin> R') (running s)" "queue_seq (waiting s') = filter (\<lambda>e. entry_id e \<notin> R') (queue_seq (waiting s))"
    and "R \<subseteq> R'" "rqueue_ok (waiting s')"
  shows "sched_wf cfg s'" "placed s'"
proof -
  have "length (running s') \<le> length (running s)" by (simp add: assms(5))
  moreover have "distinct (map entry_id (queue_seq (waiting s')))"
    using assms(1) by (simp add: assms(6) sched_wf_def distinct_map_filter)
  moreover have "set (running s') \<subseteq> set (running s)" "waiting_ids s' \<subseteq> waiting_ids s"
    by (auto simp: assms(5,6) waiting_ids_def)
  moreover have "distinct (running s')" using assms(1) by (simp add: assms(5) sched_wf_def)
  ultimately show "sched_wf cfg s'" using assms(1,8) unfolding sched_wf_def by auto
  have "queue_entry s' x = queue_entry s x" if "x \<notin> R" for x using assms(4) that by (simp add: queue_entry_def)
  then show "placed s'"
    using assms(2-4,7) by (auto simp: placed_def assms(5,6)) (metis subsetD)+
qed

text \<open>C6: Finishing requests (text-only requests, no connector) never raises. Every known request among
  the ids leaves the dictionary, the running list and the waiting queue, gets the given status, gives
  back all its blocks and is reported as finished; unknown ids are ignored, all other requests keep
  their place and their blocks, and the scheduler stays well-formed.\<close>

theorem finish_requests_correct:
  assumes env: "connector env = None" "set_order env {} = []" and st: "status_is_finished st" and d: "distinct rids"
    and wf: "sched_wf cfg s" and pl: "placed s" and kv: "kv_inv (kvm s)" and tx: "\<forall>rid\<in>requests s. mm_features (heap s rid) = []"
  shows "\<exists>s'. finish_requests env rids st s = Inr s' \<and> requests s' = requests s - set rids
    \<and> running s' = filter (\<lambda>rid. rid \<notin> set rids) (running s)
    \<and> queue_seq (waiting s') = filter (\<lambda>e. entry_id e \<notin> set rids) (queue_seq (waiting s))
    \<and> finished_req_ids s' = finished_req_ids s \<union> (set rids \<inter> requests s)
    \<and> sched_wf cfg s' \<and> placed s' \<and> kv_inv (kvm s')
    \<and> (\<forall>rid. if rid \<in> set rids \<inter> requests s then status (heap s' rid) = st \<and> list_all (\<lambda>bs. bs = []) (km_get_blocks rid (kvm s'))
         else heap s' rid = heap s rid \<and> km_get_blocks rid (kvm s') = km_get_blocks rid (kvm s))"
proof -
  define valid where "valid = filter (\<lambda>rid. rid \<in> requests s) rids"
  obtain q where q: "(let to_run = filter (\<lambda>rid. status (heap s rid) = RUNNING) valid;
            to_wait = filter (\<lambda>rid. status (heap s rid) \<noteq> RUNNING) valid;
            s1 = (if to_run = [] then s else s\<lparr>running := remove_all (running s) (set to_run)\<rparr>)
        in if to_wait = [] then Inr s1 else bnd (remove_requests (map (queue_entry s1) to_wait) (waiting s1)) (\<lambda>q. Inr (s1\<lparr>waiting := q\<rparr>)))
      = Inr (s\<lparr>running := filter (\<lambda>rid. rid \<notin> set rids) (running s), waiting := q\<rparr>)"
    "rqueue_ok q" "queue_seq q = filter (\<lambda>e. entry_id e \<notin> set rids) (queue_seq (waiting s))"
    using unqueue_ok[OF _ _ pl valid_def] wf unfolding Let_def sched_wf_def by blast
  let ?s2 = "s\<lparr>running := filter (\<lambda>rid. rid \<notin> set rids) (running s), waiting := q\<rparr>"
  have v: "set valid = set rids \<inter> requests s" "distinct valid" using d by (auto simp: valid_def)
  have "set valid \<subseteq> requests ?s2" "\<forall>rid\<in>set valid. mm_features (heap ?s2 rid) = [] \<and> request_id (heap ?s2 rid) = rid" "kv_inv (kvm ?s2)"
    using kv tx pl v(1) by (auto simp: placed_def)
  from finish_all[OF env st v(2) this(3,1,2)]
  obtain s' where s': "for_each (finish_one env st) valid ?s2 = Inr s'" "requests s' = requests s - set valid"
    "running s' = running ?s2" "waiting s' = q" "\<forall>x. heap s' x = (if x \<in> set valid then (heap s x)\<lparr>status := st\<rparr> else heap s x)"
    "finished_req_ids s' = finished_req_ids s \<union> set valid" "kv_inv (kvm s')"
    "\<forall>x. if x \<in> set valid then list_all (\<lambda>bs. bs = []) (km_get_blocks x (kvm s')) else km_get_blocks x (kvm s') = km_get_blocks x (kvm s)"
    by auto
  have "finish_requests env rids st s = Inr s'"
    using st q(1) s'(1) by (simp add: finish_requests_def valid_def[symmetric] Let_def)
  moreover have "requests s' = requests s - set rids" using s'(2) v(1) by auto
  moreover have "sched_wf cfg s'" "placed s'"
  proof -
    have "\<forall>x. x \<notin> set valid \<longrightarrow> heap s' x = heap s x" using s'(5) by simp
    moreover have "running s' = filter (\<lambda>rid. rid \<notin> set rids) (running s)" using s'(3) by simp
    moreover have "queue_seq (waiting s') = filter (\<lambda>e. entry_id e \<notin> set rids) (queue_seq (waiting s))" using s'(4) q(3) by simp
    moreover have "set valid \<subseteq> set rids" "rqueue_ok (waiting s')" using v(1) s'(4) q(2) by simp_all
    ultimately show "sched_wf cfg s'" "placed s'" using placed_remove[OF wf pl s'(2)] by metis+
  qed
  ultimately show ?thesis using s'(3-8) q(3) v(1) by (intro exI[of _ s']) (simp add: if_split_mem1)
qed

lemma demo_placed: "placed (demo_sched FCFS km)"
  by (simp add: placed_def queue_seq_def)

theorem finish_requests_correct_witness:
  "\<exists>km s'. kv_inv km \<and> finish_requests demo_env [demo_rid] FINISHED_ABORTED (demo_sched FCFS km) = Inr s'
     \<and> requests s' = {} \<and> running s' = [] \<and> list_all (\<lambda>bs. bs = []) (km_get_blocks demo_rid (kvm s'))"
proof -
  obtain p where p: "pool_inv p []" "num_gpu_blocks p = 4" "\<forall>r\<in>pool_refs 4. rc p r = 1" using demo_pool by blast
  define km where "km = demo_km p [demo_full [Blk 1, Blk 2, Blk 3]]"
  have k: "kv_inv km" unfolding km_def by (rule demo_km_inv(2)[OF p])
  have "kv_inv (kvm (demo_sched FCFS km))" "\<forall>rid\<in>requests (demo_sched FCFS km). mm_features (heap (demo_sched FCFS km) rid) = []"
    using k by simp_all
  note f = finish_requests_correct[OF _ _ _ _ demo_sched_wf demo_placed this, of demo_env FINISHED_ABORTED "[demo_rid]"]
  then obtain s' where "finish_requests demo_env [demo_rid] FINISHED_ABORTED (demo_sched FCFS km) = Inr s'"
    "requests s' = {} \<and> running s' = []"
    "\<forall>rid. if rid \<in> set [demo_rid] \<inter> requests (demo_sched FCFS km) then status (heap s' rid) = FINISHED_ABORTED
       \<and> list_all (\<lambda>bs. bs = []) (km_get_blocks rid (kvm s')) else heap s' rid = heap (demo_sched FCFS km) rid
       \<and> km_get_blocks rid (kvm s') = km_get_blocks rid (kvm (demo_sched FCFS km))"
    by auto
  then show ?thesis using k by (intro exI[of _ km] exI[of _ s']) (auto dest: spec[of _ demo_rid])
qed

end
