(* ===== verification/Sched_Reach.thy ===== *)
theory Sched_Reach
  imports Sched_Lifecycle
begin

text \<open>
  The scheduler as a state machine under the first-come-first-served policy: its operations are the
  steps, and in every reachable state each live request is in exactly one place, with a status that
  fits the place.
\<close>

section \<open>Requests at their place\<close>

text \<open>\<open>rs\<close> are running, \<open>es\<close> are queued; every request that is not finished has one of these places,
  except those in \<open>D\<close>, which are about to be finished.\<close>

definition at_home_but :: "string set \<Rightarrow> 'c scheduler \<Rightarrow> string list \<Rightarrow> qreq list \<Rightarrow> bool" where
  "at_home_but D s rs es \<longleftrightarrow> distinct (rs @ map entry_id es)
     \<and> (\<forall>rid\<in>set rs. rid \<in> requests s \<and> status (heap s rid) = RUNNING)
     \<and> (\<forall>e\<in>set es. entry_id e \<in> requests s \<and> e = queue_entry s (entry_id e) \<and> waiting_status (status (heap s (entry_id e))))
     \<and> (\<forall>rid\<in>requests s. request_id (heap s rid) = rid)
     \<and> (\<forall>rid\<in>requests s - D. \<not> is_finished (heap s rid) \<longrightarrow> rid \<in> set rs \<union> entry_id ` set es)"

abbreviation at_home :: "'c scheduler \<Rightarrow> string list \<Rightarrow> qreq list \<Rightarrow> bool" where
  "at_home \<equiv> at_home_but {}"

definition same_life :: "'c scheduler \<Rightarrow> 'c scheduler \<Rightarrow> bool" where
  "same_life s s' \<longleftrightarrow> requests s' = requests s \<and> (\<forall>x. status (heap s' x) = status (heap s x)
     \<and> priority (heap s' x) = priority (heap s x) \<and> arrival_time (heap s' x) = arrival_time (heap s x)
     \<and> request_id (heap s' x) = request_id (heap s x))"

lemma same_life_refl [simp]: "same_life s s"
  by (simp add: same_life_def)

lemma same_life_trans [trans]: "same_life a b \<Longrightarrow> same_life b c \<Longrightarrow> same_life a c"
  by (simp add: same_life_def)

lemma same_life_heap: "heap s' = heap s \<Longrightarrow> requests s' = requests s \<Longrightarrow> same_life s s'"
  by (simp add: same_life_def)

lemma same_life_upd:
  assumes "\<And>r. status (f r) = status r" "\<And>r. priority (f r) = priority r" "\<And>r. arrival_time (f r) = arrival_time r"
    "\<And>r. request_id (f r) = request_id r"
  shows "same_life s (upd_req rid f s)"
  using assms by (simp add: same_life_def)

lemma at_home_same: "same_life s s' \<Longrightarrow> at_home_but D s rs es \<Longrightarrow> at_home_but D s' rs es"
  by (auto simp: at_home_but_def is_finished_def same_life_def queue_entry_def)

section \<open>Single changes of place\<close>

lemma at_home_requeue:
  assumes "at_home s (rs @ [v]) es" and h: "heap s' = (heap s)(v := preempted cfg now (heap s v))" and r: "requests s' = requests s"
  shows "at_home s' rs (queue_entry s v # es)"
proof -
  have q: "queue_entry s' x = queue_entry s x" for x
    by (simp add: queue_entry_def h preempted_def)
  have i: "request_id (preempted cfg now (heap s v)) = request_id (heap s v)" "status (preempted cfg now (heap s v)) = PREEMPTED"
    by (simp_all add: preempted_def)
  show ?thesis using assms(1) by (auto simp: at_home_but_def is_finished_def h r q i waiting_status_def)
qed

lemma at_home_status:
  assumes "at_home s rs es" "e \<in> set es" "waiting_status st"
  shows "at_home (set_status st (entry_id e) s) rs es"
proof -
  have "queue_entry (set_status st (entry_id e) s) x = queue_entry s x" for x by (simp add: queue_entry_def set_status_def)
  moreover have "entry_id e \<notin> set rs" using assms(1,2) by (auto simp: at_home_but_def is_finished_def)
  ultimately show ?thesis using assms by (auto simp: at_home_but_def is_finished_def set_status_def)
qed

lemma at_home_admit:
  assumes "at_home s rs (k @ e # l)" and "status (heap s' (entry_id e)) = RUNNING" "requests s' = requests s"
    and "\<And>x. priority (heap s' x) = priority (heap s x)" "\<And>x. arrival_time (heap s' x) = arrival_time (heap s x)"
      "\<And>x. request_id (heap s' x) = request_id (heap s x)" "\<And>x. x \<noteq> entry_id e \<Longrightarrow> status (heap s' x) = status (heap s x)"
  shows "at_home s' (rs @ [entry_id e]) (k @ l)"
proof -
  have "queue_entry s' x = queue_entry s x" for x using assms(4,5) by (simp add: queue_entry_def)
  moreover have "\<forall>x\<in>set rs \<union> entry_id ` (set k \<union> set l). x \<noteq> entry_id e" using assms(1) by (auto simp: at_home_but_def is_finished_def)
  ultimately show ?thesis
    using assms(1-3,6,7) unfolding at_home_but_def is_finished_def by simp metis
qed

lemma at_home_mset:
  assumes "mset es = mset es'"
  shows "at_home s rs es = at_home s rs es'"
proof -
  have "set es = set es'" by (rule mset_eq_setD[OF assms])
  moreover have "distinct (rs @ map entry_id es) = distinct (rs @ map entry_id es')"
    by (rule mset_eq_imp_distinct_iff) (simp add: assms)
  ultimately show ?thesis by (simp only: at_home_but_def is_finished_def)
qed

section \<open>A scheduling step\<close>

definition home :: "'c scheduler \<Rightarrow> bool" where
  "home s \<longleftrightarrow> (\<exists>l. waiting s = Fcfs_Queue l \<and> at_home s (running s) l)"

lemma home_same: "same_life s s' \<Longrightarrow> same_queues s s' \<Longrightarrow> home s \<Longrightarrow> home s'"
  by (auto simp: home_def same_queues_def at_home_same)

lemma preempt_one_home:
  assumes "policy cfg = FCFS" "preempt_one cfg env now s acc = Inr (v, s', acc')" "home s"
  shows "home s'"
proof -
  obtain l where l: "waiting s = Fcfs_Queue l" "at_home s (running s) l" using assms(3) by (auto simp: home_def)
  obtain s1 s2 s3 where c: "choose_victim cfg s = Inr (v, s1)" and k: "sched_km_free v s1 = Inr s2"
    and e: "encoder_free env v s2 = Inr s3" and p: "prepend_waiting v (upd_req v (preempted cfg now) s3) = Inr s'"
    using assms(2) by (auto simp: preempt_one_def Let_def)
  have v: "running s \<noteq> []" "v = last (running s)" "s1 = s\<lparr>running := butlast (running s)\<rparr>"
    using choose_victimD(3)[OF c assms(1)] by auto
  have s3: "heap s3 = heap s" "waiting s3 = Fcfs_Queue l" "requests s3 = requests s" "running s3 = butlast (running s)"
    using sched_frees_frame(1)[OF k] sched_frees_frame(2)[OF e] v(3) l(1) by simp_all
  have "queue_entry (upd_req v (preempted cfg now) s3) v = queue_entry s v"
    by (simp add: queue_entry_def s3 preempted_def)
  then have s': "waiting s' = Fcfs_Queue (queue_entry s v # l)" "heap s' = (heap s)(v := preempted cfg now (heap s v))"
    "requests s' = requests s" "running s' = butlast (running s)"
    using p by (auto simp: prepend_waiting_def prepend_request_def lift_queue_def fcfs_prepend_def s3)
  have "at_home s (butlast (running s) @ [v]) l" using l(2) v(1,2) by simp
  from at_home_requeue[OF this s'(2,3)] s'(1,4) show ?thesis by (simp add: home_def)
qed

lemma alloc_loop_home:
  assumes "policy cfg = FCFS" "alloc_loop cfg env now rid n s acc = Inr (res, s', acc')" "home s"
  shows "home s'"
proof -
  have "case res of None \<Rightarrow> home s' | Some _ \<Rightarrow> home s'"
    using assms(2)
  proof (rule alloc_loop_inv[where P = "\<lambda>t _. home t"])
    fix t acc res t1 assume "home t" "running_alloc cfg rid n t = Inr (res, t1)"
    then show "home t1"
      using running_alloc_frame[of cfg rid n t res t1] by (auto intro!: home_same[of t] same_life_heap simp: same_queues_def)
  next
    fix t acc v t2 acc2 assume "home t" "preempt_one cfg env now t acc = Inr (v, t2, acc2)"
    then show "if v = rid then home t2 else home t2" using preempt_one_home[OF assms(1)] by simp
  qed (rule assms(3))
  then show ?thesis by (cases res) auto
qed

lemma record_encoder_inputs_same:
  "record_encoder_inputs rid inputs eb s acc = Inr (s', acc') \<Longrightarrow> same_life s s' \<and> same_queues s s'"
  using record_encoder_inputs_frame(1,2)[of rid inputs eb s acc s' acc'] by (auto simp: same_queues_def intro: same_life_heap)

lemma commit_running_same:
  assumes "commit_running rid n blocks inputs eb s acc = Inr (s', acc')"
  shows "same_life s s'" "same_queues s s'"
proof -
  obtain s2 acc1 acc2 where t: "trim_spec_tokens rid n s acc1 = (s2, acc2)" and r: "record_encoder_inputs rid inputs eb s2 acc2 = Inr (s', acc')"
    using assms by (auto simp: commit_running_def Let_def split: prod.splits)
  have "same_life s s2 \<and> same_queues s s2"
    using t by (auto simp: trim_spec_tokens_def Let_def same_queues_def intro!: same_life_upd split: if_splits)
  then show "same_life s s'" "same_queues s s'"
    using record_encoder_inputs_same[OF r] same_life_trans same_queues_trans by blast+
qed

lemma running_step_home:
  assumes "policy cfg = FCFS" "running_step cfg env now rid s acc = Inr (b, s', acc')" "home s"
  shows "home s'"
proof -
  obtain inputs n eb c where t: "try_schedule_encoder_inputs cfg (heap s rid) (num_computed_tokens (heap s rid))
      (running_tokens cfg (token_budget acc) (heap s rid)) (enc_budget acc) (encoder_mgr s) = Inr ((inputs, n, eb), c)"
    using assms(2) by (auto simp: running_step_def Let_def)
  let ?s = "s\<lparr>encoder_mgr := c\<rparr>"
  have h: "home ?s" by (rule home_same[OF _ _ assms(3)]) (simp_all add: same_queues_def same_life_def)
  show ?thesis
  proof (cases "n = 0")
    case True
    with assms(2) t h show ?thesis by (auto simp: running_step_def Let_def)
  next
    case False
    with assms(2) t obtain res s2 acc2 where al: "alloc_loop cfg env now rid n ?s acc = Inr (res, s2, acc2)"
      and rest: "(case res of None \<Rightarrow> Inr (False, s2, acc2)
          | Some blocks \<Rightarrow> bnd (commit_running rid n blocks inputs eb s2 acc2) (\<lambda>(s3, acc3). Inr (True, s3, acc3))) = Inr (b, s', acc')"
      by (auto simp: running_step_def Let_def)
    have "home s2" by (rule alloc_loop_home[OF assms(1) al h])
    with rest show ?thesis by (cases res) (auto dest: commit_running_same intro: home_same)
  qed
qed

lemma running_loop_home:
  assumes "policy cfg = FCFS" "running_loop cfg env now i s acc = Inr (s', acc')" "home s"
  shows "home s'"
  using running_loop_rule[OF assms(2), where P = "\<lambda>_ t _. home t"] assms(3) running_step_home[OF assms(1)] by blast

lemma set_status_same:
  assumes "same_life s s'" "at_home s rs es" "e \<in> set es" "waiting_status st"
  shows "at_home (set_status st (entry_id e) s') rs es"
  by (rule at_home_status[OF at_home_same[OF assms(1,2)] assms(3,4)])

lemma at_home_ready:
  assumes "waiting_ready cfg env (entry_id e) s acc = Inr (ok, s0)" "at_home s rs es" "e \<in> set es"
  shows "at_home s0 rs es"
proof -
  have W: "waiting_status WAITING" by (simp add: waiting_status_def)
  obtain ok1 s1 where r: "remote_ready cfg env (entry_id e) s = Inr (ok1, s1)" using assms(1) by (auto simp: waiting_ready_def)
  have "at_home s1 rs es"
  proof (cases "status (heap s (entry_id e)) = WAITING_FOR_REMOTE_KVS")
    case True
    with r obtain s2 where u: "update_waiting_for_remote_kv cfg env (entry_id e) s = Inr (ok1, s2)"
      and s1: "s1 = (if ok1 then set_status WAITING (entry_id e) s2 else s2)" by (auto simp: remote_ready_def)
    have "same_life s s2"
      using u by (auto simp: update_waiting_for_remote_kv_def same_life_def Let_def split: if_splits list.splits)
    then show ?thesis using s1 set_status_same[OF _ assms(2,3) W] at_home_same[OF _ assms(2)] by simp
  next
    case False
    with r assms(2) show ?thesis by (simp add: remote_ready_def)
  qed
  moreover have "at_home s2 rs es" if g: "grammar_ready env (entry_id e) s1 = (b, s2)" and h: "at_home s1 rs es" for b s2
  proof (cases "status (heap s1 (entry_id e)) = WAITING_FOR_FSM")
    case True
    obtain gr s3 where rg: "read_grammar env (entry_id e) s1 = (gr, s3)" by fastforce
    have "same_life s1 s3"
      using rg by (auto simp: read_grammar_def same_life_def split: option.splits grammar_slot.splits)
    then show ?thesis using g rg True set_status_same[OF _ h assms(3) W] at_home_same[OF _ h] by (auto simp: grammar_ready_def split: if_splits)
  next
    case False
    with g h show ?thesis by (simp add: grammar_ready_def)
  qed
  ultimately show ?thesis using assms(1) r by (auto simp: waiting_ready_def split: if_splits prod.splits)
qed

definition wait_home :: "'c wait_state \<Rightarrow> bool" where
  "wait_home st \<longleftrightarrow> (case st of (s, acc, sk) \<Rightarrow> \<exists>l k. waiting s = Fcfs_Queue l \<and> sk = Fcfs_Queue k \<and> at_home s (running s) (k @ l))"

lemma peek_fcfs: "peek_request (Fcfs_Queue l) = Inr e \<Longrightarrow> \<exists>l'. l = e # l'"
  by (cases l) (auto simp: peek_request_def fcfs_peek_def)

lemma pop_fcfs: "pop_request (Fcfs_Queue l) = Inr (e, q) \<Longrightarrow> \<exists>l'. l = e # l' \<and> q = Fcfs_Queue l'"
  by (cases l) (auto simp: pop_request_def fcfs_pop_def)

lemma prepend_fcfs: "prepend_request e (Fcfs_Queue l) = Inr q \<Longrightarrow> q = Fcfs_Queue (e # l)"
  by (auto simp: prepend_request_def lift_queue_def fcfs_prepend_def)

lemma at_home_entry: "at_home s rs es \<Longrightarrow> e \<in> set es \<Longrightarrow> queue_entry s (entry_id e) = e"
  by (simp add: at_home_but_def is_finished_def)

lemma at_home_rotate: "at_home s rs (k @ e # l) = at_home s rs ((e # k) @ l)"
  by (rule at_home_mset) simp

lemma skip_request_home:
  assumes "skip_request (entry_id e) (s, acc, Fcfs_Queue k) = Inr ctl" "waiting s = Fcfs_Queue (e # l)"
    and "at_home s (running s) (k @ e # l)"
  shows "\<exists>st. ctl = Continue st \<and> wait_home st"
proof -
  have "queue_entry s (entry_id e) = e" using at_home_entry[OF assms(3)] by simp
  then have ctl: "ctl = Continue (s\<lparr>waiting := Fcfs_Queue l\<rparr>, acc, Fcfs_Queue (e # k))"
    using assms(1,2) by (auto simp: skip_request_def dest!: pop_fcfs prepend_fcfs)
  have "same_life s (s\<lparr>waiting := Fcfs_Queue l\<rparr>)" by (simp add: same_life_def)
  then have "at_home (s\<lparr>waiting := Fcfs_Queue l\<rparr>) (running s) ((e # k) @ l)"
    using assms(3) at_home_rotate at_home_same by blast
  then show ?thesis using ctl by (simp add: wait_home_def)
qed

lemma log_event_life [simp]:
  "status (log_event cfg ev now r) = status r" "priority (log_event cfg ev now r) = priority r"
  "arrival_time (log_event cfg ev now r) = arrival_time r" "request_id (log_event cfg ev now r) = request_id r"
  by (simp_all add: log_event_def record_event_def)

lemma admit_waiting_life:
  assumes "admit_waiting cfg now rid n inputs eb h s acc = Inr (s', acc')"
  shows "priority (heap s' x) = priority (heap s x)" "arrival_time (heap s' x) = arrival_time (heap s x)"
    "request_id (heap s' x) = request_id (heap s x)" "x \<noteq> rid \<Longrightarrow> status (heap s' x) = status (heap s x)"
proof -
  obtain acc1 acc3 s1 where r: "record_encoder_inputs rid inputs eb s1 acc3 = Inr (s', acc')"
    and s1: "heap s1 = (heap s)(rid := (log_event cfg SCHEDULED now (heap s rid))\<lparr>status := RUNNING, num_computed_tokens := cp_total h,
               num_cached_tokens := (if num_cached_tokens (heap s rid) < 0 then cp_total h else num_cached_tokens (heap s rid))\<rparr>)"
    using assms by (auto simp: admit_waiting_def Let_def)
  have "heap s' = heap s1" by (rule record_encoder_inputs_frame(2)[OF r])
  then show "priority (heap s' x) = priority (heap s x)" "arrival_time (heap s' x) = arrival_time (heap s x)"
    "request_id (heap s' x) = request_id (heap s x)" "x \<noteq> rid \<Longrightarrow> status (heap s' x) = status (heap s x)"
    by (simp_all add: s1)
qed

lemma place_waiting_home:
  assumes "place_waiting cfg env now n inputs eb h new (entry_id e) (s, acc, Fcfs_Queue k) = Inr ctl"
    and "waiting s = Fcfs_Queue (e # l)" "at_home s (running s) (k @ e # l)"
  shows "\<exists>st. ctl = Continue st \<and> wait_home st"
proof -
  let ?s = "notify_alloc env (entry_id e) h new s\<lparr>waiting := Fcfs_Queue l\<rparr>"
  have pop: "pop_request (Fcfs_Queue (e # l)) = Inr (e, Fcfs_Queue l)" by (simp add: pop_request_def fcfs_pop_def)
  have s2: "at_home ?s (running s) (k @ e # l)"
    by (rule at_home_same[OF _ assms(3)]) (simp add: same_life_def)
  have W: "waiting_status WAITING_FOR_REMOTE_KVS" by (simp add: waiting_status_def)
  show ?thesis
  proof (cases "load_kv_async h")
    case True
    have "queue_entry ?s (entry_id e) = e" by (rule at_home_entry[OF s2]) simp
    then have ctl: "ctl = Continue (set_status WAITING_FOR_REMOTE_KVS (entry_id e) ?s, acc, Fcfs_Queue (e # k))"
      using assms(1,2) True pop by (auto simp: place_waiting_def Let_def dest!: prepend_fcfs)
    have "at_home (set_status WAITING_FOR_REMOTE_KVS (entry_id e) ?s) (running s) (k @ e # l)"
      by (rule at_home_status[OF s2 _ W]) simp
    then show ?thesis using ctl by (simp add: wait_home_def at_home_rotate)
  next
    case False
    with assms(1,2) pop obtain s' acc' where a: "admit_waiting cfg now (entry_id e) n inputs eb h ?s acc = Inr (s', acc')"
      and ctl: "ctl = Continue (s', acc', Fcfs_Queue k)" by (auto simp: place_waiting_def Let_def)
    note f = admit_waiting_frame[OF a] and g = admit_waiting_life[OF a]
    have "at_home s' (running s @ [entry_id e]) (k @ l)" by (rule at_home_admit[OF s2 f(10,3) g])
    then show ?thesis using ctl f(1,2) by (simp add: wait_home_def)
  qed
qed

lemma waiting_step_home:
  assumes "waiting_step cfg env now (s, acc, Fcfs_Queue k) = Inr ctl" "waiting s = Fcfs_Queue l" "at_home s (running s) (k @ l)"
  shows "case ctl of Break st \<Rightarrow> wait_home st | Continue st \<Rightarrow> wait_home st"
proof -
  have ready: "\<exists>l'. l = e # l' \<and> waiting s1 = Fcfs_Queue (e # l') \<and> at_home s1 (running s1) (k @ e # l')"
    if pk: "peek_request (waiting s) = Inr e" and "same_queues s s1" "waiting_ready cfg env (entry_id e) s acc = Inr (ok, s0)" "heap s1 = heap s0"
    for e s1 ok s0
  proof -
    obtain l' where l: "l = e # l'" using peek_fcfs[of l e] pk assms(2) by auto
    have "at_home s0 (running s) (k @ e # l')" using at_home_ready[OF that(3)] assms(3) l by simp
    moreover have "same_life s0 s1" using that(2,4) waiting_ready_frame[OF that(3)] by (auto intro: same_life_heap simp: same_queues_def)
    ultimately have "at_home s1 (running s) (k @ e # l')" using at_home_same by blast
    with that(2) assms(2) l show ?thesis by (simp add: same_queues_def)
  qed
  from assms(1) show ?thesis
  proof (cases rule: waiting_stepE)
    case (skip e s1 ok s0)
    from ready[OF skip(1,2,4,5)] skip_request_home[OF skip(3)] show ?thesis by fastforce
  next
    case (stop s1 e ok s0)
    from ready[OF stop(3,1,4,5)] stop(2) show ?thesis by (auto simp: wait_home_def)
  next
    case (place e s2 s3 s4 h inputs n eb new ok s0)
    from ready[OF place(1,2,7,8)] place_waiting_home[OF place(6)] show ?thesis by fastforce
  qed
qed

lemma waiting_loop_home:
  assumes "waiting_loop cfg env now st = Inr st'" "wait_home st"
  shows "wait_home st'"
  using assms
proof (rule waiting_loop_inv)
  fix st ctl assume "wait_home st" and step: "waiting_step cfg env now st = Inr ctl"
  then obtain s acc k l where "st = (s, acc, Fcfs_Queue k)" "waiting s = Fcfs_Queue l" "at_home s (running s) (k @ l)"
    by (auto simp: wait_home_def)
  with waiting_step_home step show "case ctl of Break st' \<Rightarrow> wait_home st' | Continue st' \<Rightarrow> wait_home st'" by blast
qed

lemma put_back_home:
  assumes "put_back_skipped sk s = Inr s'" "wait_home (s, acc, sk)"
  shows "home s'"
proof -
  obtain k l where w: "waiting s = Fcfs_Queue l" "sk = Fcfs_Queue k" "at_home s (running s) (k @ l)"
    using assms(2) by (auto simp: wait_home_def)
  have "s' = s\<lparr>waiting := Fcfs_Queue (k @ l)\<rparr> \<or> (k = [] \<and> s' = s)"
    using assms(1) w by (auto simp: put_back_skipped_def prepend_requests_def lift_queue_def fcfs_prepend_all_def iter_requests_def fcfs_iter_def
        queue_len_def fold_Cons_rev split: if_splits)
  moreover have "at_home (s\<lparr>waiting := Fcfs_Queue (k @ l)\<rparr>) (running s) (k @ l)"
    by (rule at_home_same[OF _ w(3)]) (simp add: same_life_def)
  ultimately show ?thesis using w by (auto simp: home_def)
qed

lemma schedule_requests_home:
  assumes "policy cfg = FCFS" "schedule_requests cfg env now s = Inr (s', acc)" "home s"
  shows "home s'"
proof -
  obtain s1 acc1 acc2 s2 acc3 sk where r: "running_loop cfg env now 0 s (acc_init cfg) = Inr (s1, acc1)"
    and w: "(if preempted_reqs acc2 = [] then waiting_loop cfg env now (s1, acc2, create_request_queue (policy cfg))
          else Inr (s1, acc2, create_request_queue (policy cfg))) = Inr (s2, acc3, sk)"
    and p: "put_back_skipped sk s2 = Inr s'"
    using assms(2) by (auto simp: schedule_requests_def)
  have "home s1" by (rule running_loop_home[OF assms(1) r assms(3)])
  then have "wait_home (s1, acc2, create_request_queue (policy cfg))"
    by (auto simp: home_def wait_home_def create_request_queue_def assms(1))
  then have "wait_home (s2, acc3, sk)" using w waiting_loop_home by (auto split: if_splits)
  with p show ?thesis by (rule put_back_home)
qed

definition quiet :: "'c scheduler \<Rightarrow> 'c scheduler \<Rightarrow> bool" where
  "quiet s s' \<longleftrightarrow> same_life s s' \<and> same_queues s s'"

lemma quiet_refl [simp]: "quiet s s"
  by (simp add: quiet_def)

lemma quiet_trans [trans]: "quiet a b \<Longrightarrow> quiet b c \<Longrightarrow> quiet a c"
  using same_life_trans same_queues_trans by (auto simp: quiet_def)

lemma quiet_home: "quiet s s' \<Longrightarrow> home s \<Longrightarrow> home s'"
  using home_same by (auto simp: quiet_def)

lemma quiet_frame: "heap s' = heap s \<Longrightarrow> running s' = running s \<Longrightarrow> waiting s' = waiting s \<Longrightarrow> requests s' = requests s \<Longrightarrow> quiet s s'"
  by (simp add: quiet_def same_life_def same_queues_def)

lemma quiet_upd:
  assumes "\<And>r. status (f r) = status r" "\<And>r. priority (f r) = priority r" "\<And>r. arrival_time (f r) = arrival_time r"
    "\<And>r. request_id (f r) = request_id r"
  shows "quiet s (upd_req rid f s)"
  using same_life_upd[of f, OF assms] by (simp add: quiet_def same_queues_def)

lemma advance_request_quiet: "advance_request cfg env kn s = Inr s' \<Longrightarrow> quiet s s'"
  by (auto simp: advance_request_def free_encoder_inputs_def quiet_def same_life_def same_queues_def Let_def split: prod.splits if_splits)

lemma update_after_schedule_quiet:
  assumes "update_after_schedule cfg env out s = Inr s'"
  shows "quiet s s'"
proof -
  obtain s1 where f: "for_each (advance_request cfg env) (so_num_scheduled_tokens out) s = Inr s1" and s': "s' = s1\<lparr>finished_req_ids := {}\<rparr>"
    using assms by (auto simp: update_after_schedule_def)
  have "quiet s s1" by (rule for_each_inv[OF f]) (auto intro: quiet_trans dest: advance_request_quiet)
  also have "quiet s1 s'" by (simp add: s' quiet_frame)
  finally show ?thesis .
qed

lemma async_update_after_schedule_quiet:
  assumes "async_update_after_schedule cfg env out s = Inr s'"
  shows "quiet s s'"
proof -
  obtain s1 where u: "update_after_schedule cfg env out s = Inr s1" and f: "for_each reserve_placeholder (map fst (so_num_scheduled_tokens out)) s1 = Inr s'"
    using assms by (auto simp: async_update_after_schedule_def)
  have one: "quiet t t'" if "reserve_placeholder rid t = Inr t'" for rid t t'
    using that by (auto simp: reserve_placeholder_def intro!: quiet_upd)
  have "quiet s1 s'" by (rule for_each_inv[OF f]) (auto intro: quiet_trans dest: one)
  with update_after_schedule_quiet[OF u] show ?thesis by (rule quiet_trans)
qed

lemma make_output_quiet: "make_output cfg env s acc = Inr (out, s') \<Longrightarrow> quiet s s'"
  by (auto simp: make_output_def common_prefix_def Let_def split: prod.splits list.splits intro!: quiet_frame)

lemma publish_quiet:
  "attach_connector_meta env out s = (out', s') \<Longrightarrow> quiet s s'" "collect_events env s = (es, s') \<Longrightarrow> quiet s s'"
  by (auto simp: attach_connector_meta_def collect_events_def Let_def split: option.splits prod.splits intro!: quiet_frame)

lemma schedule_with_home:
  assumes "policy cfg = FCFS" "schedule_with after cfg env now s = Inr (out, es, s')" "home s"
    and after: "\<And>out s s'. after out s = Inr s' \<Longrightarrow> quiet s s'"
  shows "home s'" "length (running s') \<le> max_num_running_reqs cfg"
proof -
  obtain s1 acc where q: "schedule_requests cfg env now s = Inr (s1, acc)" and c: "constraints_ok cfg s1 acc"
    and rest: "bnd (make_output cfg env s1 acc) (\<lambda>(out, s2).
        let (out1, s3) = attach_connector_meta env out s2; (events, s4) = collect_events env s3
        in bnd (after out1 s4) (\<lambda>s5. Inr (out1, events, s5))) = Inr (out, es, s')"
    using assms(2) by (auto simp: schedule_with_def)
  obtain out0 s2 s3 s4 where m: "make_output cfg env s1 acc = Inr (out0, s2)" and p: "attach_connector_meta env out0 s2 = (out, s3)"
    "collect_events env s3 = (es, s4)" "after out s4 = Inr s'"
    using rest by (auto split: prod.splits)
  have "quiet s1 s'"
    using make_output_quiet[OF m] publish_quiet(1)[OF p(1)] publish_quiet(2)[OF p(2)] after[OF p(3)] quiet_trans by blast
  moreover have "home s1" by (rule schedule_requests_home[OF assms(1) q assms(3)])
  ultimately show "home s'" "length (running s') \<le> max_num_running_reqs cfg"
    using c quiet_home by (auto simp: constraints_ok_def quiet_def same_queues_def)
qed

section \<open>Requests that finish\<close>

lemma at_home_drop:
  assumes "at_home_but D s rs es" "is_finished (heap s rid)" "heap s' = heap s" "requests s' = requests s - {rid}"
  shows "at_home_but D s' rs es"
proof -
  have "rid \<notin> set rs \<union> entry_id ` set es"
    using assms(1,2) by (auto simp: at_home_but_def is_finished_def waiting_status_def)
  moreover have "queue_entry s' x = queue_entry s x" for x by (simp add: queue_entry_def assms(3))
  ultimately show ?thesis using assms(1) by (auto simp: at_home_but_def assms(3,4))
qed

lemma at_home_finish:
  assumes "at_home_but D s rs es" "requests s' = requests s" "is_finished (heap s' rid)" "\<forall>x. x \<noteq> rid \<longrightarrow> heap s' x = heap s x"
    and "request_id (heap s' rid) = request_id (heap s rid)"
  shows "at_home_but (D - {rid}) s' (filter (\<lambda>x. x \<noteq> rid) rs) (filter (\<lambda>e. entry_id e \<noteq> rid) es)"
proof -
  have "queue_entry s' x = queue_entry s x" if "x \<noteq> rid" for x using assms(4) that by (simp add: queue_entry_def)
  moreover have "distinct (filter (\<lambda>x. x \<noteq> rid) rs @ map entry_id (filter (\<lambda>e. entry_id e \<noteq> rid) es))"
    using assms(1) by (auto simp: at_home_but_def distinct_map_filter)
  moreover have "request_id (heap s' x) = request_id (heap s x)" for x using assms(4,5) by (cases "x = rid") auto
  moreover have "x \<in> set (filter (\<lambda>x. x \<noteq> rid) rs) \<union> entry_id ` set (filter (\<lambda>e. entry_id e \<noteq> rid) es)"
    if "x \<in> requests s' - (D - {rid})" "\<not> is_finished (heap s' x)" for x
  proof -
    have "x \<noteq> rid" using that(2) assms(3) by blast
    with that assms(1,2,4) have "x \<in> set rs \<union> entry_id ` set es" by (auto simp: at_home_but_def)
    with \<open>x \<noteq> rid\<close> show ?thesis by auto
  qed
  ultimately show ?thesis using assms(1,2,4) unfolding at_home_but_def by auto
qed

lemma free_request_blocks_frame:
  assumes "free_request_blocks rid s = Inr s'"
  shows "is_finished (heap s rid)" "heap s' = heap s" "running s' = running s" "waiting s' = waiting s" "requests s' = requests s - {rid}"
proof -
  obtain s1 where k: "sched_km_free rid s = Inr s1" and fin: "is_finished (heap s rid)" and s': "s' = s1\<lparr>requests := requests s1 - {rid}\<rparr>"
    using assms by (auto simp: free_request_blocks_def)
  show "is_finished (heap s rid)" by (rule fin)
  show "heap s' = heap s" "running s' = running s" "waiting s' = waiting s" "requests s' = requests s - {rid}"
    using sched_frees_frame(1)[OF k] unfolding s' by simp_all
qed

lemma sched_free_request_frame:
  assumes "sched_free_request env rid s = Inr (params, s')"
  shows "is_finished (heap s rid)" "heap s' = heap s" "running s' = running s" "waiting s' = waiting s"
    "requests s' = requests s \<or> requests s' = requests s - {rid}"
proof -
  obtain d p s1 s2 where fin: "is_finished (heap s rid)" and c: "connector_finished env rid s = Inr ((d, p), s1)"
    and e: "encoder_free env rid s1 = Inr s2" and r: "(let s3 = s2\<lparr>finished_req_ids := insert rid (finished_req_ids s2),
                 finished_req_ids_dict := map_option (add_finished (client_index (heap s2 rid)) rid) (finished_req_ids_dict s2)\<rparr>
          in if d then Inr (p, s3) else bnd (free_request_blocks rid s3) (\<lambda>s4. Inr (p, s4))) = Inr (params, s')"
    using assms by (auto simp: sched_free_request_def)
  have s1: "heap s1 = heap s" "running s1 = running s" "waiting s1 = waiting s" "requests s1 = requests s"
    using c by (auto simp: connector_finished_def split: option.splits list.splits prod.splits)
  note s2 = sched_frees_frame(2)[OF e]
  show "is_finished (heap s rid)" by (rule fin)
  define s3 where "s3 = s2\<lparr>finished_req_ids := insert rid (finished_req_ids s2),
                 finished_req_ids_dict := map_option (add_finished (client_index (heap s2 rid)) rid) (finished_req_ids_dict s2)\<rparr>"
  have s3: "heap s3 = heap s" "running s3 = running s" "waiting s3 = waiting s" "requests s3 = requests s"
    using s1 s2 by (simp_all add: s3_def)
  have "s' = s3 \<or> free_request_blocks rid s3 = Inr s'" using r unfolding s3_def[symmetric] Let_def by (auto split: if_splits)
  then show "heap s' = heap s" "running s' = running s" "waiting s' = waiting s"
    "requests s' = requests s \<or> requests s' = requests s - {rid}"
    using s3 free_request_blocks_frame[of rid s3 s'] by metis+
qed

lemma sched_free_request_home:
  assumes "sched_free_request env rid s = Inr (params, s')" "at_home_but D s rs es"
  shows "at_home_but D s' rs es"
  using sched_free_request_frame(5)[OF assms(1)]
proof
  assume "requests s' = requests s"
  then have "same_life s s'" using sched_free_request_frame(2)[OF assms(1)] by (intro same_life_heap)
  then show ?thesis using assms(2) at_home_same by blast
next
  assume "requests s' = requests s - {rid}"
  then show ?thesis using at_home_drop[OF assms(2)] sched_free_request_frame[OF assms(1)] by blast
qed

section \<open>Processing an output\<close>

text \<open>\<open>s'\<close> differs from \<open>s\<close> in one request, which is finished if the flag is set and keeps its status otherwise.\<close>

definition stop_life :: "bool \<Rightarrow> request \<Rightarrow> request \<Rightarrow> bool" where
  "stop_life st r r' \<longleftrightarrow> request_id r' = request_id r \<and> priority r' = priority r \<and> arrival_time r' = arrival_time r
     \<and> (if st then is_finished r' else status r' = status r)"

definition stop_frame :: "string \<Rightarrow> bool \<Rightarrow> 'c scheduler \<Rightarrow> 'c scheduler \<Rightarrow> bool" where
  "stop_frame rid st s s' \<longleftrightarrow> same_queues s s' \<and> (\<forall>x. x \<noteq> rid \<longrightarrow> heap s' x = heap s x) \<and> stop_life st (heap s rid) (heap s' rid)"

lemma check_stop_life: "check_stop r len po = Inr (r', st) \<Longrightarrow> stop_life st r r'"
  by (auto simp: check_stop_def stop_life_def is_finished_def Let_def split: if_splits option.splits)

lemma append_output_life:
  "append_output_token_ids h ts r = Inr r' \<Longrightarrow> stop_life False r r'"
  by (auto simp: append_output_token_ids_def stop_life_def Let_def split: option.splits)

lemma stop_life_trans: "stop_life False a b \<Longrightarrow> stop_life st b c \<Longrightarrow> stop_life st a c"
  by (auto simp: stop_life_def)

lemma append_loop_life: "append_loop cfg env seen ts r = Inr ((new, st), r') \<Longrightarrow> stop_life st r r'"
proof (induction ts arbitrary: seen r)
  case (Cons t ts)
  obtain r1 r2 b where a: "append_output_token_ids (block_hasher_opt env) [t] r = Inr r1"
    and c: "check_stop r1 (sched_max_model_len cfg) False = Inr (r2, b)"
    and rest: "(if b then Inr ((seen @ [t], True), r2) else append_loop cfg env (seen @ [t]) ts r2) = Inr ((new, st), r')"
    using Cons.prems by auto
  have r2: "stop_life b r r2" using append_output_life[OF a] check_stop_life[OF c] by (rule stop_life_trans)
  show ?case
  proof (cases b)
    case True
    with rest r2 show ?thesis by auto
  next
    case False
    with rest Cons.IH have "stop_life st r2 r'" by auto
    with r2 False show ?thesis using stop_life_trans[of r r2 st r'] by simp
  qed
qed (auto simp: stop_life_def)

definition sound_method :: "'c upd_method \<Rightarrow> bool" where
  "sound_method m \<longleftrightarrow> (\<forall>rid ts s new st s'. m rid ts s = Inr ((new, st), s') \<longrightarrow> stop_frame rid st s s')"

lemma sound_methods: "sound_method (update_request_with_output cfg env)" "sound_method (async_update_request_with_output cfg env)"
proof -
  have upd: "stop_frame rid st s s'" if "update_request_with_output cfg env rid ts s = Inr ((new, st), s')" for rid ts s new st s'
    using that by (auto simp: update_request_with_output_def stop_frame_def same_queues_def dest!: append_loop_life)
  then show "sound_method (update_request_with_output cfg env)" by (simp add: sound_method_def)
  have "stop_frame rid st s s'" if a: "async_update_request_with_output cfg env rid ts s = Inr ((new, st), s')" for rid ts s new st s'
  proof -
    obtain s1 where u: "update_request_with_output cfg env rid ts s = Inr ((new, st), s1)"
      and s': "running s' = running s1" "waiting s' = waiting s1" "requests s' = requests s1"
        "heap s' = (heap s1)(rid := (heap s1 rid)\<lparr>num_output_placeholders := num_output_placeholders (heap s1 rid) - int (length new)\<rparr>)"
      using a by (auto simp: async_update_request_with_output_def Let_def split: if_splits)
    from upd[OF u] s' show ?thesis by (simp add: stop_frame_def same_queues_def stop_life_def is_finished_def split: if_splits)
  qed
  then show "sound_method (async_update_request_with_output cfg env)" by (simp add: sound_method_def)
qed

text \<open>The queues and running list do not change while the outputs are processed; requests in \<open>U\<close> and
  \<open>V\<close> have stopped.\<close>

definition upd_home :: "string list \<Rightarrow> qreq list \<Rightarrow> string set \<Rightarrow> string set \<Rightarrow> 'c scheduler \<Rightarrow> bool" where
  "upd_home rs l U V s \<longleftrightarrow> running s = rs \<and> waiting s = Fcfs_Queue l \<and> distinct rs \<and> (\<forall>e\<in>set l. e = queue_entry s (entry_id e))
     \<and> at_home s (filter (\<lambda>x. x \<notin> U) rs) (filter (\<lambda>e. entry_id e \<notin> V) l)"

lemma upd_home_quiet: "quiet s s' \<Longrightarrow> upd_home rs l U V s \<Longrightarrow> upd_home rs l U V s'"
proof -
  assume a: "quiet s s'" and b: "upd_home rs l U V s"
  have "queue_entry s' x = queue_entry s x" for x using a by (simp add: quiet_def same_life_def queue_entry_def)
  moreover have "at_home s' (filter (\<lambda>x. x \<notin> U) rs) (filter (\<lambda>e. entry_id e \<notin> V) l)"
    using at_home_same[of s s'] a b by (simp add: quiet_def upd_home_def)
  ultimately show ?thesis using a b by (simp add: upd_home_def quiet_def same_queues_def)
qed

lemma stop_frame_quiet: "stop_frame rid False s s' \<Longrightarrow> quiet s s'"
proof -
  assume a: "stop_frame rid False s s'"
  have "status (heap s' x) = status (heap s x) \<and> priority (heap s' x) = priority (heap s x)
      \<and> arrival_time (heap s' x) = arrival_time (heap s x) \<and> request_id (heap s' x) = request_id (heap s x)" for x
    using a by (cases "x = rid") (auto simp: stop_frame_def stop_life_def)
  with a show ?thesis by (simp add: stop_frame_def quiet_def same_life_def same_queues_def)
qed

lemma upd_home_stop:
  assumes "upd_home rs l U V s" "stop_frame rid True s s'"
  shows "if status (heap s rid) = RUNNING then upd_home rs l (insert rid U) V s' else upd_home rs l U (insert rid V) s'"
proof -
  let ?rs = "filter (\<lambda>x. x \<notin> U) rs" and ?es = "filter (\<lambda>e. entry_id e \<notin> V) l"
  have h: "at_home s ?rs ?es" using assms(1) by (simp add: upd_home_def)
  have f: "at_home s' (filter (\<lambda>x. x \<noteq> rid) ?rs) (filter (\<lambda>e. entry_id e \<noteq> rid) ?es)"
    using at_home_finish[OF h, of s' rid] assms(2) by (auto simp: stop_frame_def stop_life_def same_queues_def)
  have q: "queue_entry s' x = queue_entry s x" for x
    using assms(2) by (cases "x = rid") (auto simp: stop_frame_def stop_life_def queue_entry_def)
  have r: "filter (\<lambda>x. x \<noteq> rid) ?rs = filter (\<lambda>x. x \<notin> insert rid U) rs"
    "filter (\<lambda>e. entry_id e \<noteq> rid) ?es = filter (\<lambda>e. entry_id e \<notin> insert rid V) l" by (auto intro: filter_cong)
  have out: "status (heap s rid) = RUNNING \<Longrightarrow> filter (\<lambda>e. entry_id e \<noteq> rid) ?es = ?es"
    "status (heap s rid) \<noteq> RUNNING \<Longrightarrow> filter (\<lambda>x. x \<noteq> rid) ?rs = ?rs"
  proof -
    have "waiting_status (status (heap s (entry_id e)))" if "e \<in> set ?es" for e using h that unfolding at_home_but_def by blast
    moreover have "\<not> waiting_status RUNNING" by (simp add: waiting_status_def)
    ultimately show "filter (\<lambda>e. entry_id e \<noteq> rid) ?es = ?es" if "status (heap s rid) = RUNNING"
      using that by (intro filter_True) metis
    show "filter (\<lambda>x. x \<noteq> rid) ?rs = ?rs" if "status (heap s rid) \<noteq> RUNNING"
      using h that by (intro filter_True) (auto simp: at_home_but_def)
  qed
  have "running s' = rs" "waiting s' = Fcfs_Queue l" "distinct rs" "\<forall>e\<in>set l. e = queue_entry s' (entry_id e)"
    using assms by (simp_all add: upd_home_def stop_frame_def same_queues_def q)
  then show ?thesis using f[unfolded r] out[unfolded r]
    by (cases "status (heap s rid) = RUNNING") (simp_all add: upd_home_def)
qed


lemma grammar_quiet:
  "read_grammar env rid s = (g, s') \<Longrightarrow> quiet s s'" "should_advance env rid s = Inr (b, s') \<Longrightarrow> quiet s s'"
  by (auto simp: read_grammar_def should_advance_def quiet_def same_life_def same_queues_def
      split: option.splits grammar_slot.splits if_splits)

lemma advance_grammar_quiet:
  assumes "advance_grammar env rid ts s = Inr s'"
  shows "quiet s s'"
proof (cases "ts = []")
  case False
  with assms obtain adv s1 where a: "should_advance env rid s = Inr (adv, s1)"
    and r: "(if \<not> adv then Inr s1 else let (g, s2) = read_grammar env rid s1 in case g of None \<Rightarrow> Inl AttributeError
      | Some g \<Rightarrow> Inr (upd_req rid (\<lambda>r. r\<lparr>structured_output_request := Some (Grammar (accept_tokens env g rid ts))\<rparr>) s2)) = Inr s'"
    by (auto simp: advance_grammar_def)
  obtain g s2 where g: "read_grammar env rid s1 = (g, s2)" by fastforce
  have u: "quiet s2 (upd_req rid (\<lambda>r. r\<lparr>structured_output_request := so\<rparr>) s2)" for so by (rule quiet_upd) simp_all
  note q = grammar_quiet(2)[OF a] grammar_quiet(1)[OF g]
  show ?thesis using r g q u quiet_trans by (auto split: if_splits option.splits) blast
qed (use assms in \<open>simp add: advance_grammar_def\<close>)

lemma record_nans_quiet: "quiet s (record_nans mro rid s)"
  by (auto simp: record_nans_def split: option.splits intro!: quiet_upd)

lemma emit_output_quiet:
  assumes "emit_output mro rid i ts po params lps s a = Inr (s', a')"
  shows "quiet s s'" "stopped_running_reqs a' = stopped_running_reqs a" "stopped_preempted_reqs a' = stopped_preempted_reqs a"
proof -
  have "s' = s \<or> s' = upd_req rid (\<lambda>_. snd (take_events (heap s rid))) s"
    using assms by (auto simp: emit_output_def Let_def split: prod.splits if_splits)
  then show "quiet s s'" by (auto simp: quiet_def same_life_def same_queues_def take_events_def)
  show "stopped_running_reqs a' = stopped_running_reqs a" "stopped_preempted_reqs a' = stopped_preempted_reqs a"
    using assms by (auto simp: emit_output_def Let_def split: prod.splits if_splits)
qed

lemma count_drafts_quiet:
  assumes "count_drafts cfg rid ds generated s a = Inr (s', a')"
  shows "quiet s s'" "stopped_running_reqs a' = stopped_running_reqs a" "stopped_preempted_reqs a' = stopped_preempted_reqs a"
proof -
  have "s' = s \<or> (\<exists>k. s' = upd_req rid (\<lambda>r. r\<lparr>num_computed_tokens := num_computed_tokens r - k\<rparr>) s)"
    using assms by (auto simp: count_drafts_def Let_def split: option.splits if_splits)
  then show "quiet s s'" by (auto intro!: quiet_upd)
  show "stopped_running_reqs a' = stopped_running_reqs a" "stopped_preempted_reqs a' = stopped_preempted_reqs a"
    using assms by (auto simp: count_drafts_def Let_def split: option.splits if_splits)
qed

text \<open>A model runner either samples tokens or returns pooled outputs.\<close>

definition one_kind :: "model_runner_output \<Rightarrow> bool" where
  "one_kind mro \<longleftrightarrow> sampled_token_ids mro = [] \<or> pooler_output mro = []"

lemma pooler_check_stop:
  assumes "pooler_check cfg mro rid i st s = Inr ((po, st'), s')"
  shows "if pooler_output mro = [] then st' = st \<and> s' = s else stop_frame rid st' s s'"
  using assms by (auto simp: pooler_check_def stop_frame_def same_queues_def dest!: check_stop_life)

lemma stop_frame_refl: "stop_frame rid False s s"
  by (simp add: stop_frame_def stop_life_def)

lemma free_stopped_home:
  assumes "free_stopped env rid before st s' a = Inr (params, s'', a')" "stop_frame rid st s s'" "before = status (heap s rid)"
    and "upd_home rs l (set (stopped_running_reqs a)) (set (stopped_preempted_reqs a)) s"
  shows "upd_home rs l (set (stopped_running_reqs a')) (set (stopped_preempted_reqs a')) s''"
proof (cases st)
  case True
  let ?U = "set (stopped_running_reqs a')" and ?V = "set (stopped_preempted_reqs a')"
  obtain f: "sched_free_request env rid s' = Inr (params, s'')"
    and a': "a' = (if before = RUNNING then a\<lparr>stopped_running_reqs := stopped_running_reqs a @ [rid]\<rparr>
                         else a\<lparr>stopped_preempted_reqs := stopped_preempted_reqs a @ [rid]\<rparr>)"
    using assms(1) True by (auto simp: free_stopped_def)
  have "upd_home rs l ?U ?V s'"
    using upd_home_stop[OF assms(4)] assms(2,3) True a' by (auto split: if_splits)
  moreover have "queue_entry s'' x = queue_entry s' x" for x
    by (simp add: queue_entry_def sched_free_request_frame(2)[OF f])
  ultimately show ?thesis
    using sched_free_request_home[OF f] sched_free_request_frame(3,4)[OF f] by (simp add: upd_home_def)
next
  case False
  with assms upd_home_quiet[OF stop_frame_quiet] show ?thesis by (auto simp: free_stopped_def)
qed

lemma update_one_home:
  assumes "update_one m cfg env out mro kn (s, a) = Inr (s', a')" "sound_method m" "one_kind mro"
    and inv: "upd_home rs l (set (stopped_running_reqs a)) (set (stopped_preempted_reqs a)) s"
  shows "upd_home rs l (set (stopped_running_reqs a')) (set (stopped_preempted_reqs a')) s'"
proof -
  obtain rid n where kn: "kn = (rid, n)" by fastforce
  show ?thesis
  proof (cases "rid \<in> requests s")
    case False
    with assms(1) inv show ?thesis by (auto simp: update_one_def kn)
  next
    case True
    with assms(1) obtain i generated s1 a1 ts st s2 po st2 s3 params s4 a4 s5 where
      g: "(if sampled_token_ids mro = [] then Inr [] else index_py (sampled_token_ids mro) i) = Inr generated"
      and c: "count_drafts cfg rid (map_of (so_spec_decode_tokens out) rid) generated s a = Inr (s1, a1)"
      and u: "(if generated = [] then Inr (([], False), s1) else m rid generated s1) = Inr ((ts, st), s2)"
      and p: "pooler_check cfg mro rid i st s2 = Inr ((po, st2), s3)"
      and f: "free_stopped env rid (status (heap s1 rid)) st2 s3 a1 = Inr (params, s4, a4)"
      and gr: "advance_grammar env rid ts s4 = Inr s5"
      and e: "emit_output mro rid i ts po params (new_logprobs mro (heap s4 rid) i) (record_nans mro rid s5) a4 = Inr (s', a')"
      unfolding kn update_one_def Let_def by auto
    have s2: "stop_frame rid st s1 s2" using u assms(2) stop_frame_refl by (auto simp: sound_method_def split: if_splits)
    have "stop_frame rid st2 s1 s3"
    proof (cases "pooler_output mro = []")
      case True
      with s2 pooler_check_stop[OF p] show ?thesis by simp
    next
      case False
      with assms(3) g u have "s2 = s1" by (auto simp: one_kind_def)
      with False pooler_check_stop[OF p] show ?thesis by simp
    qed
    from free_stopped_home[OF f this refl] upd_home_quiet[OF count_drafts_quiet(1)[OF c] inv] count_drafts_quiet(2,3)[OF c]
    have s4: "upd_home rs l (set (stopped_running_reqs a4)) (set (stopped_preempted_reqs a4)) s4" by simp
    have "quiet s4 s'" using advance_grammar_quiet[OF gr] record_nans_quiet emit_output_quiet(1)[OF e] quiet_trans by blast
    from upd_home_quiet[OF this s4] emit_output_quiet(2,3)[OF e] show ?thesis by simp
  qed
qed


lemma remove_fcfs: "remove_requests rs (Fcfs_Queue l) = Inr (Fcfs_Queue (filter (\<lambda>e. e \<notin> set rs) l))"
  by (simp add: remove_requests_def lift_queue_def fcfs_remove_all_def)

lemma remove_stopped_home:
  assumes "remove_stopped a s = Inr s'" "upd_home rs l (set (stopped_running_reqs a)) (set (stopped_preempted_reqs a)) s"
  shows "home s'" "length (running s') \<le> length rs"
proof -
  let ?U = "set (stopped_running_reqs a)" and ?V = "set (stopped_preempted_reqs a)"
  note h = assms(2)[unfolded upd_home_def]
  have "remove_all (running s) ?U = filter (\<lambda>x. x \<notin> ?U) rs" using h by (simp add: remove_all_filter)
  moreover have "filter (\<lambda>e. e \<notin> queue_entry s ` ?V) l = filter (\<lambda>e. entry_id e \<notin> ?V) l"
  proof (rule filter_cong[OF refl])
    fix e assume "e \<in> set l"
    then have "e = queue_entry s (entry_id e)" using h by blast
    then show "(e \<notin> queue_entry s ` ?V) = (entry_id e \<notin> ?V)" by (metis entry_id_queue_entry image_iff)
  qed
  ultimately have s': "running s' = filter (\<lambda>x. x \<notin> ?U) rs" "waiting s' = Fcfs_Queue (filter (\<lambda>e. entry_id e \<notin> ?V) l)"
    "heap s' = heap s" "requests s' = requests s"
    using assms(1) h by (auto simp: remove_stopped_def remove_fcfs queue_entry_def[abs_def] Let_def split: if_splits)
  have "same_life s s'" by (rule same_life_heap) (simp_all add: s')
  with h s' show "home s'" "length (running s') \<le> length rs" using at_home_same by (auto simp: home_def)
qed

lemma kv_xfer_home:
  assumes "update_from_kv_xfer_finished env ko s = Inr s'" "home s"
  shows "home s'" "running s' = running s"
proof -
  define s1 where "s1 = (case connector env of None \<Rightarrow> s | Some k \<Rightarrow> s\<lparr>conn := update_connector_output k ko (conn s)\<rparr>)"
  define s2 where "s2 = s1\<lparr>finished_recving_kv_req_ids := finished_recving_kv_req_ids s1 \<union> set (finished_recving ko)\<rparr>"
  have "quiet s s1" by (auto simp: s1_def quiet_frame split: option.splits)
  also have "quiet s1 s2" by (simp add: s2_def quiet_frame)
  finally have s2: "quiet s s2" .
  have f: "for_each (\<lambda>rid s. check (rid \<in> requests s) KeyError (free_request_blocks rid s)) (finished_sending ko) s2 = Inr s'"
    using assms(1) unfolding update_from_kv_xfer_finished_def Let_def s1_def[symmetric] s2_def[symmetric] .
  have "home s' \<and> running s' = running s2"
    using f
  proof (rule for_each_inv)
    show "home s2 \<and> running s2 = running s2" using quiet_home[OF s2 assms(2)] by simp
    fix rid t t' assume "home t \<and> running t = running s2" "check (rid \<in> requests t) KeyError (free_request_blocks rid t) = Inr t'"
    then have b: "free_request_blocks rid t = Inr t'" and h: "home t" "running t = running s2" by (auto split: if_splits)
    from h obtain l where "waiting t = Fcfs_Queue l" "at_home t (running t) l" by (auto simp: home_def)
    with at_home_drop[of "{}" t "running t" l rid t'] free_request_blocks_frame[OF b] h(2)
    show "home t' \<and> running t' = running s2" by (simp add: home_def)
  qed
  with s2 show "home s'" "running s' = running s" by (auto simp: quiet_def same_queues_def)
qed

lemma update_from_output_home:
  assumes "update_from_output_with m cfg env out mro s = Inr (outs, s')" "sound_method m" "one_kind mro" "home s"
  shows "home s'" "length (running s') \<le> length (running s)"
proof -
  let ?a0 = "\<lparr>ua_outputs = [], ua_spec_stats = None, stopped_running_reqs = [], stopped_preempted_reqs = []\<rparr>"
  obtain s1 a s2 s3 outs0 outs1 s4 stats where
    f: "for_each (update_one m cfg env out mro) (so_num_scheduled_tokens out) (s, ?a0) = Inr (s1, a)"
    and r: "remove_stopped a s1 = Inr s2"
    and k: "(case kv_output mro of None \<Rightarrow> Inr s2 | Some ko \<Rightarrow> update_from_kv_xfer_finished env ko s2) = Inr s3"
    and o4: "report_finished s3 outs0 = (outs1, s4)" and m: "make_stats cfg (ua_spec_stats a) (Option.bind (kv_output mro) kv_connector_stats) s4 = Inr (stats, s')"
    using assms(1) by (auto simp: update_from_output_with_def Let_def split: prod.splits)
  obtain l where l: "waiting s = Fcfs_Queue l" "at_home s (running s) l" using assms(4) by (auto simp: home_def)
  have "case (s1, a) of (t, b) \<Rightarrow> upd_home (running s) l (set (stopped_running_reqs b)) (set (stopped_preempted_reqs b)) t"
    using f
  proof (rule for_each_inv)
    show "case (s, ?a0) of (t, b) \<Rightarrow> upd_home (running s) l (set (stopped_running_reqs b)) (set (stopped_preempted_reqs b)) t"
      using l by (auto simp: upd_home_def at_home_but_def)
  qed (use update_one_home[OF _ assms(2,3)] in \<open>auto split: prod.splits\<close>)
  then have s2: "home s2" "length (running s2) \<le> length (running s)" using remove_stopped_home[OF r] by auto
  have s3: "home s3" "running s3 = running s2" using k s2(1) kv_xfer_home by (auto split: option.splits)
  have "quiet s3 s4" using o4 by (auto simp: report_finished_def quiet_frame split: option.splits)
  moreover have "quiet s4 s'" using m by (auto simp: make_stats_def Let_def quiet_frame split: if_splits option.splits prod.splits)
  ultimately have q: "quiet s3 s'" by (rule quiet_trans)
  show "home s'" by (rule quiet_home[OF q s3(1)])
  show "length (running s') \<le> length (running s)" using q s2(2) s3(2) by (simp add: quiet_def same_queues_def)
qed


section \<open>Adding and finishing requests\<close>

lemma sched_add_request_home:
  assumes "sched_add_request cfg now r s = Inr s'" "home s" "request_id r \<notin> requests s" "waiting_status (status r)"
  shows "home s'" "running s' = running s"
proof -
  let ?rid = "request_id r"
  obtain l where l: "waiting s = Fcfs_Queue l" "at_home s (running s) l" using assms(2) by (auto simp: home_def)
  let ?e = "queue_entry (s\<lparr>heap := (heap s)(?rid := r)\<rparr>) ?rid"
  have s': "running s' = running s" "waiting s' = Fcfs_Queue (l @ [?e])" "requests s' = insert ?rid (requests s)"
    "heap s' = (heap s)(?rid := log_event cfg QUEUED now r)"
    using assms(1) l(1) by (auto simp: sched_add_request_def add_request_def lift_queue_def fcfs_add_def Let_def)
  have new: "?rid \<notin> set (running s)" "?rid \<notin> entry_id ` set l" using l(2) assms(3) by (auto simp: at_home_but_def)
  have q: "queue_entry s' x = (if x = ?rid then ?e else queue_entry s x)" for x by (simp add: queue_entry_def s')
  have fin: "\<not> is_finished r" using assms(4) by (auto simp: waiting_status_def is_finished_def)
  have "\<forall>x\<in>set (running s). x \<noteq> ?rid" "\<forall>e\<in>set l. entry_id e \<noteq> ?rid" using new by (metis image_eqI)+
  then have "at_home s' (running s) (l @ [?e])"
    using l(2) new assms(4) unfolding at_home_but_def by (auto simp: s' q is_finished_def)
  then show "home s'" "running s' = running s" using s' by (simp_all add: home_def)
qed

lemma finish_one_home:
  assumes "finish_one env st rid s = Inr s'" "status_is_finished st" "at_home_but D s rs es" "rid \<notin> set rs" "rid \<notin> entry_id ` set es"
  shows "at_home_but (D - {rid}) s' rs es" "running s' = running s" "waiting s' = waiting s"
proof -
  let ?s = "set_status st rid s"
  obtain params where f: "sched_free_request env rid ?s = Inr (params, s')" using assms(1) by (auto simp: finish_one_def)
  have "at_home_but (D - {rid}) ?s (filter (\<lambda>x. x \<noteq> rid) rs) (filter (\<lambda>e. entry_id e \<noteq> rid) es)"
    by (rule at_home_finish[OF assms(3)]) (simp_all add: set_status_def is_finished_def assms(2))
  moreover have "filter (\<lambda>x. x \<noteq> rid) rs = rs" "filter (\<lambda>e. entry_id e \<noteq> rid) es = es"
    using assms(4,5) by (auto intro: filter_True)
  ultimately show "at_home_but (D - {rid}) s' rs es" using sched_free_request_home[OF f] by simp
  show "running s' = running s" "waiting s' = waiting s" using sched_free_request_frame(3,4)[OF f] by simp_all
qed

lemma finish_all_home:
  assumes "for_each (finish_one env st) rids s = Inr s'" "status_is_finished st" "at_home_but (set rids) s rs es"
    and "set rids \<inter> (set rs \<union> entry_id ` set es) = {}"
  shows "at_home s' rs es \<and> running s' = running s \<and> waiting s' = waiting s"
  using assms(1,3,4)
proof (induction rids arbitrary: s)
  case (Cons rid rids)
  then obtain s1 where f: "finish_one env st rid s = Inr s1" and r: "for_each (finish_one env st) rids s1 = Inr s'" by auto
  note s1 = finish_one_home[OF f assms(2) Cons.prems(2)]
  have "at_home_but (set (rid # rids) - {rid}) s1 rs es" using s1(1) Cons.prems(3) by auto
  then have "at_home_but (set rids) s1 rs es" by (auto simp: at_home_but_def)
  from Cons.IH[OF r this] Cons.prems(3) s1(2,3) show ?case by auto
qed simp

lemma finish_requests_home:
  assumes "finish_requests env rids st s = Inr s'" "home s"
  shows "home s'" "length (running s') \<le> length (running s)"
proof -
  define valid where "valid = filter (\<lambda>rid. rid \<in> requests s) rids"
  obtain l where l: "waiting s = Fcfs_Queue l" "at_home s (running s) l" using assms(2) by (auto simp: home_def)
  define rs where "rs = filter (\<lambda>x. x \<notin> set rids) (running s)"
  define es where "es = filter (\<lambda>e. entry_id e \<notin> set rids) l"
  have pl: "distinct (running s)" "rqueue_ok (waiting s)" "placed s"
    using l by (auto simp: at_home_but_def placed_def rqueue_ok_def queue_seq_def distinct_map)
  obtain q where q: "(let to_run = filter (\<lambda>rid. status (heap s rid) = RUNNING) valid;
            to_wait = filter (\<lambda>rid. status (heap s rid) \<noteq> RUNNING) valid;
            s1 = (if to_run = [] then s else s\<lparr>running := remove_all (running s) (set to_run)\<rparr>)
        in if to_wait = [] then Inr s1 else bnd (remove_requests (map (queue_entry s1) to_wait) (waiting s1)) (\<lambda>q. Inr (s1\<lparr>waiting := q\<rparr>)))
      = Inr (s\<lparr>running := rs, waiting := q\<rparr>)" "queue_seq q = filter (\<lambda>e. entry_id e \<notin> set rids) (queue_seq (waiting s))"
      "waiting s = Fcfs_Queue l \<longrightarrow> (\<exists>l'. q = Fcfs_Queue l')"
    using unqueue_ok[OF pl valid_def, of l] unfolding Let_def rs_def by blast
  have qes: "q = Fcfs_Queue es" using q(2,3) l(1) by (auto simp: queue_seq_def es_def)
  define s2 where "s2 = s\<lparr>running := rs, waiting := Fcfs_Queue es\<rparr>"
  have s2: "running s2 = rs" "waiting s2 = Fcfs_Queue es" "heap s2 = heap s" "requests s2 = requests s" by (simp_all add: s2_def)
  have st: "status_is_finished st" using assms(1) by (simp add: finish_requests_def split: if_splits)
  then have f: "for_each (finish_one env st) valid s2 = Inr s'"
    using assms(1) q(1) unfolding qes s2_def[symmetric] finish_requests_def valid_def[symmetric] Let_def by simp
  have "at_home_but (set valid) s2 rs es"
  proof -
    have q: "queue_entry s2 x = queue_entry s x" for x by (simp add: queue_entry_def s2)
    have "distinct (rs @ map entry_id es)" using l(2) by (auto simp: at_home_but_def rs_def es_def distinct_map_filter)
    moreover have "x \<in> set rs \<union> entry_id ` set es" if "x \<in> requests s - set valid" "\<not> is_finished (heap s x)" for x
      using that l(2) by (auto simp: at_home_but_def rs_def es_def valid_def)
    ultimately show ?thesis using l(2) unfolding at_home_but_def s2 q by (auto simp: rs_def es_def)
  qed
  moreover have "set valid \<inter> (set rs \<union> entry_id ` set es) = {}" by (auto simp: valid_def rs_def es_def)
  ultimately have "at_home s' rs es \<and> running s' = rs \<and> waiting s' = Fcfs_Queue es"
    using finish_all_home[OF f st] s2(1,2) by simp
  then show "home s'" "length (running s') \<le> length (running s)" by (auto simp: home_def rs_def)
qed

lemma update_draft_one_quiet:
  assumes "update_draft_one env kd s = Inr s'"
  shows "quiet s s'"
proof -
  obtain rid ts where kd: "kd = (rid, ts)" by fastforce
  have u: "quiet t (upd_req rid (\<lambda>r. r\<lparr>spec_token_ids := x\<rparr>) t)" for t :: "'a scheduler" and x by (rule quiet_upd) simp_all
  show ?thesis
  proof (cases "rid \<notin> requests s \<or> is_finished (heap s rid) \<or> ts = []")
    case True
    with assms u show ?thesis by (auto simp: update_draft_one_def kd split: if_splits)
  next
    case False
    with assms obtain adv s1 where a: "should_advance env rid s = Inr (adv, s1)"
      and r: "(if adv then let (g, s2) = read_grammar env rid s1 in
          (case g of None \<Rightarrow> Inl AttributeError | Some g \<Rightarrow> Inr (upd_req rid (\<lambda>r. r\<lparr>spec_token_ids := validate_tokens env g ts\<rparr>) s2))
        else Inr (upd_req rid (\<lambda>r. r\<lparr>spec_token_ids := ts\<rparr>) s1)) = Inr s'"
      by (auto simp: update_draft_one_def kd)
    obtain g s2 where g: "read_grammar env rid s1 = (g, s2)" by fastforce
    have "(\<exists>x. s' = upd_req rid (\<lambda>r. r\<lparr>spec_token_ids := x\<rparr>) s2) \<or> (\<exists>x. s' = upd_req rid (\<lambda>r. r\<lparr>spec_token_ids := x\<rparr>) s1)"
      using r g by (auto split: if_splits option.splits)
    then show ?thesis using grammar_quiet(2)[OF a] grammar_quiet(1)[OF g] u quiet_trans by blast
  qed
qed


section \<open>The scheduler as a state machine\<close>

text \<open>A request that is added has a fresh id and a waiting status, as \<^verbatim>\<open>Request.__init__\<close> gives it; the model
  runner returns sampled tokens or pooled outputs.\<close>

inductive sched_step :: "sched_config \<Rightarrow> 'c sched_env \<Rightarrow> 'c scheduler \<Rightarrow> 'c scheduler \<Rightarrow> bool" for cfg env where
  step_schedule: "schedule cfg env now s = Inr (out, es, s') \<Longrightarrow> sched_step cfg env s s'"
| step_async_schedule: "async_schedule cfg env now s = Inr (out, es, s') \<Longrightarrow> sched_step cfg env s s'"
| step_output: "update_from_output cfg env out mro s = Inr (outs, s') \<Longrightarrow> one_kind mro \<Longrightarrow> sched_step cfg env s s'"
| step_async_output: "async_update_from_output cfg env out mro s = Inr (outs, s') \<Longrightarrow> one_kind mro \<Longrightarrow> sched_step cfg env s s'"
| step_draft: "update_draft_token_ids env rids drafts s = Inr s' \<Longrightarrow> sched_step cfg env s s'"
| step_add: "sched_add_request cfg now r s = Inr s' \<Longrightarrow> request_id r \<notin> requests s \<Longrightarrow> waiting_status (status r) \<Longrightarrow> sched_step cfg env s s'"
| step_finish: "finish_requests env rids st s = Inr s' \<Longrightarrow> sched_step cfg env s s'"
| step_reset: "sched_reset_prefix_cache s = Inr (b, s') \<Longrightarrow> sched_step cfg env s s'"

inductive sched_reachable :: "sched_config \<Rightarrow> 'c sched_env \<Rightarrow> 'c scheduler \<Rightarrow> bool" for cfg env where
  reach_init: "sched_reachable cfg env (scheduler_init cfg include_finished km n h c)"
| reach_step: "sched_reachable cfg env s \<Longrightarrow> sched_step cfg env s s' \<Longrightarrow> sched_reachable cfg env s'"

definition machine_inv :: "sched_config \<Rightarrow> 'c scheduler \<Rightarrow> bool" where
  "machine_inv cfg s \<longleftrightarrow> home s \<and> length (running s) \<le> max_num_running_reqs cfg"

lemma machine_inv_quiet: "quiet s s' \<Longrightarrow> machine_inv cfg s \<Longrightarrow> machine_inv cfg s'"
  using quiet_home by (auto simp: machine_inv_def quiet_def same_queues_def)

lemma sched_step_inv:
  assumes "policy cfg = FCFS" "sched_step cfg env s s'" "machine_inv cfg s"
  shows "machine_inv cfg s'"
proof -
  have home: "home s" using assms(3) by (simp add: machine_inv_def)
  from assms(2) show ?thesis
  proof (cases rule: sched_step.cases)
    case (step_schedule now out es)
    note h = schedule_with_home[OF assms(1) step_schedule[unfolded schedule_def] home]
    show ?thesis unfolding machine_inv_def by (intro conjI h; erule update_after_schedule_quiet)
  next
    case (step_async_schedule now out es)
    note h = schedule_with_home[OF assms(1) step_async_schedule[unfolded async_schedule_def] home]
    show ?thesis unfolding machine_inv_def by (intro conjI h; erule async_update_after_schedule_quiet)
  next
    case (step_output out mro outs)
    then show ?thesis
      using update_from_output_home[OF _ sound_methods(1)] assms(3) unfolding update_from_output_def machine_inv_def by (meson order_trans)
  next
    case (step_async_output out mro outs)
    then show ?thesis
      using update_from_output_home[OF _ sound_methods(2)] assms(3) unfolding async_update_from_output_def machine_inv_def by (meson order_trans)
  next
    case (step_draft rids drafts)
    then have "quiet s s'"
      unfolding update_draft_token_ids_def by (rule for_each_inv) (auto intro: quiet_trans dest: update_draft_one_quiet)
    then show ?thesis using assms(3) by (rule machine_inv_quiet)
  next
    case (step_add now r)
    then show ?thesis using sched_add_request_home assms(3) unfolding machine_inv_def by metis
  next
    case (step_finish rids st)
    then show ?thesis using finish_requests_home assms(3) unfolding machine_inv_def by (meson order_trans)
  next
    case (step_reset b)
    then have "quiet s s'" by (auto simp: sched_reset_prefix_cache_def quiet_frame)
    then show ?thesis using assms(3) by (rule machine_inv_quiet)
  qed
qed

lemma sched_reachable_inv:
  assumes "sched_reachable cfg env s" "policy cfg = FCFS"
  shows "machine_inv cfg s"
  using assms(1)
proof (induction rule: sched_reachable.induct)
  case (reach_init include_finished km n h c)
  then show ?case
    by (simp add: machine_inv_def home_def scheduler_init_def create_request_queue_def assms(2) at_home_but_def)
next
  case (reach_step s s')
  then show ?case using sched_step_inv[OF assms(2)] by blast
qed

text \<open>C1: In every state the scheduler reaches from its initial state under the first-come-first-served
  policy, by any sequence of its operations, synchronous or asynchronous, with any connector and any
  outputs of the model runner: no request is twice in the running list or the waiting queue or in
  both, at most the allowed number is running, running requests have status \<^verbatim>\<open>RUNNING\<close> and queued
  ones a waiting status, every request that is not finished has its place (none is lost), and the
  assertions at the end of the next scheduling step cannot fail.\<close>

theorem reachable_requests_placed:
  assumes "sched_reachable cfg env s" "policy cfg = FCFS" "max_num_scheduled_tokens cfg \<ge> 0"
  shows "sched_wf cfg s \<and> placed s
    \<and> (\<forall>rid\<in>requests s. is_finished (heap s rid) \<or> rid \<in> set (running s) \<or> rid \<in> waiting_ids s)
    \<and> (\<forall>now s' acc. schedule_requests cfg env now s = Inr (s', acc) \<longrightarrow> constraints_ok cfg s' acc)"
proof -
  obtain l where l: "waiting s = Fcfs_Queue l" "at_home s (running s) l" "length (running s) \<le> max_num_running_reqs cfg"
    using sched_reachable_inv[OF assms(1,2)] by (auto simp: machine_inv_def home_def)
  then have wf: "sched_wf cfg s" and pl: "placed s"
    using assms(3) by (auto simp: at_home_but_def sched_wf_def placed_def rqueue_ok_def queue_seq_def waiting_ids_def distinct_map)
  moreover have "\<forall>rid\<in>requests s. is_finished (heap s rid) \<or> rid \<in> set (running s) \<or> rid \<in> waiting_ids s"
    using l(1,2) by (auto simp: at_home_but_def waiting_ids_def queue_seq_def)
  ultimately show ?thesis using schedule_requests_ok[OF wf] by (auto simp: step_ok_def)
qed

definition queued_demo :: "kv_cache_manager \<Rightarrow> unit scheduler" where
  "queued_demo km = (let r = demo_req\<lparr>status := WAITING\<rparr>; s = scheduler_init (demo_cfg FCFS) False km 0 (\<lambda>_. demo_req) () in
     s\<lparr>heap := (heap s)(demo_rid := r), requests := {demo_rid}, waiting := Fcfs_Queue [(priority r, arrival_time r, demo_rid)]\<rparr>)"

theorem reachable_requests_placed_witness:
  "\<forall>km. sched_reachable (demo_cfg FCFS) demo_env (queued_demo km) \<and> sched_wf (demo_cfg FCFS) (queued_demo km)
     \<and> placed (queued_demo km) \<and> requests (queued_demo km) = {demo_rid}"
proof
  fix km
  let ?s = "scheduler_init (demo_cfg FCFS) False km 0 (\<lambda>_. demo_req) ()"
  let ?r = "demo_req\<lparr>status := WAITING\<rparr>"
  have "sched_add_request (demo_cfg FCFS) 0 ?r ?s = Inr (queued_demo km)"
    by (simp add: sched_add_request_def add_request_def lift_queue_def fcfs_add_def queue_entry_def queued_demo_def
        scheduler_init_def create_request_queue_def upd_req_def log_event_def Let_def)
  then have "sched_step (demo_cfg FCFS) demo_env ?s (queued_demo km)"
    by (rule step_add) (simp_all add: scheduler_init_def waiting_status_def)
  then have r: "sched_reachable (demo_cfg FCFS) demo_env (queued_demo km)" by (rule reach_step[OF reach_init])
  then show "sched_reachable (demo_cfg FCFS) demo_env (queued_demo km) \<and> sched_wf (demo_cfg FCFS) (queued_demo km)
     \<and> placed (queued_demo km) \<and> requests (queued_demo km) = {demo_rid}"
    using reachable_requests_placed[OF r] by (simp add: queued_demo_def Let_def)
qed

end
