(* ===== verification/Mma_Emu.thy ===== *)
theory Mma_Emu
  imports Prelude Kv_Specs
begin

text \<open>
  The emulated matrix multiplications: the environment variables that select them
  (\<^verbatim>\<open>vllm/envs.py\<close>), the wrappers that resolve and check their parameters (\<^verbatim>\<open>vllm/_custom_ops.py\<close>), and
  the linear layers that choose between a native kernel and the emulation (\<^verbatim>\<open>Fp8LinearOp\<close> of
  \<^verbatim>\<open>quantization/utils/w8a8_utils.py\<close>, \<^verbatim>\<open>ModelOptNvFp4LinearMethod\<close>, \<^verbatim>\<open>CompressedTensorsW4A4Fp4\<close>). A tensor is a
  handle with its shape and data type; the kernels are not modelled, so a layer yields the operation
  it launches together with the shape of the output.
\<close>

section \<open>Integers as strings\<close>

text \<open>\<^verbatim>\<open>str\<close> of an integer and \<^verbatim>\<open>int\<close> of a string: white space around the number, a sign, and single
  underscores between digits are accepted.\<close>

definition digit_char :: "nat \<Rightarrow> char" where
  "digit_char d = ''0123456789'' ! d"

fun str_nat :: "nat \<Rightarrow> string" where
  "str_nat n = (if n < 10 then [digit_char n] else str_nat (n div 10) @ [digit_char (n mod 10)])"

definition str_int :: "int \<Rightarrow> string" where
  "str_int i = (if i < 0 then CHR ''-'' # str_nat (nat (- i)) else str_nat (nat i))"

definition digit_val :: "char \<Rightarrow> nat option" where
  "digit_val c = map_of (zip ''0123456789'' [0..<10]) c"

fun digits_val :: "nat option \<Rightarrow> string \<Rightarrow> nat option" where
  "digits_val acc [] = acc"
| "digits_val acc [c] = (case digit_val c of None \<Rightarrow> None | Some d \<Rightarrow> Some (10 * (case acc of None \<Rightarrow> 0 | Some n \<Rightarrow> n) + d))"
| "digits_val acc (c # c' # cs) =
     (case digit_val c of
        None \<Rightarrow> None
      | Some d \<Rightarrow> digits_val (Some (10 * (case acc of None \<Rightarrow> 0 | Some n \<Rightarrow> n) + d)) (if c' = CHR ''_'' \<and> cs \<noteq> [] then cs else c' # cs))"

definition is_space :: "char \<Rightarrow> bool" where
  "is_space c \<longleftrightarrow> c \<in> {CHR '' '', CHR 0x09, CHR 0x0A, CHR 0x0B, CHR 0x0C, CHR 0x0D}"

definition strip :: "string \<Rightarrow> string" where
  "strip s = rev (dropWhile is_space (rev (dropWhile is_space s)))"

definition int_of_str :: "string \<Rightarrow> int result" where
  "int_of_str s =
     (let t = strip s;
          (neg, ds) = (case t of [] \<Rightarrow> (False, []) | c # cs \<Rightarrow> if c = CHR ''-'' then (True, cs) else if c = CHR ''+'' then (False, cs) else (False, t))
      in case digits_val None ds of None \<Rightarrow> Inl ValueError | Some n \<Rightarrow> Inr (if neg then - int n else int n))"

definition lower_char :: "char \<Rightarrow> char" where
  "lower_char c = (case map_of (zip ''ABCDEFGHIJKLMNOPQRSTUVWXYZ'' ''abcdefghijklmnopqrstuvwxyz'') c of None \<Rightarrow> c | Some d \<Rightarrow> d)"

definition lower :: "string \<Rightarrow> string" where
  "lower s = map lower_char s"

section \<open>Environment variables\<close>

type_synonym environ = "string \<rightharpoonup> string"

definition getenv :: "environ \<Rightarrow> string \<Rightarrow> string \<Rightarrow> string" where
  "getenv env k d = (case env k of None \<Rightarrow> d | Some v \<Rightarrow> v)"

definition env_int :: "environ \<Rightarrow> string \<Rightarrow> string \<Rightarrow> int result" where
  "env_int env k d = int_of_str (getenv env k d)"

definition env_flag :: "environ \<Rightarrow> string \<Rightarrow> string \<Rightarrow> bool result" where
  "env_flag env k d = bnd (env_int env k d) (\<lambda>n. Inr (n \<noteq> 0))"

definition use_fp8 :: "environ \<Rightarrow> bool result" where
  "use_fp8 env = env_flag env ''VLLM_USE_MMAEMU_GEMM_FP8'' ''0''"

definition use_nvfp4 :: "environ \<Rightarrow> bool result" where
  "use_nvfp4 env = env_flag env ''VLLM_USE_MMAEMU_GEMM_NVFP4'' ''0''"

text \<open>The parameters of an emulation; the four-bit formats do not have all of them.\<close>

record emu_params =
  algorithm :: string
  f_bits :: int
  g_bits :: int
  group_size :: int
  chunk_size :: int

definition fp8_env :: "environ \<Rightarrow> emu_params result" where
  "fp8_env env =
     bnd (env_int env ''VLLM_MMAEMU_FP8_F_BITS'' ''25'') (\<lambda>f.
     bnd (env_int env ''VLLM_MMAEMU_FP8_G_BITS'' ''32'') (\<lambda>g.
     bnd (env_int env ''VLLM_MMAEMU_FP8_GROUP_SIZE'' ''16'') (\<lambda>gs.
     bnd (env_int env ''VLLM_MMAEMU_FP8_CHUNK_SIZE'' ''32'') (\<lambda>cs.
       Inr \<lparr>algorithm = getenv env ''VLLM_MMAEMU_FP8_ALGORITHM'' [], f_bits = f, g_bits = g, group_size = gs, chunk_size = cs\<rparr>))))"

record fp4_params =
  fp4_algorithm :: string
  fp4_f_bits :: int
  fp4_g_bits :: int

definition nvfp4_env :: "environ \<Rightarrow> fp4_params result" where
  "nvfp4_env env =
     bnd (env_int env ''VLLM_MMAEMU_NVFP4_F_BITS'' ''25'') (\<lambda>f.
     bnd (env_int env ''VLLM_MMAEMU_NVFP4_G_BITS'' ''6'') (\<lambda>g.
       Inr \<lparr>fp4_algorithm = getenv env ''VLLM_MMAEMU_NVFP4_ALGORITHM'' [], fp4_f_bits = f, fp4_g_bits = g\<rparr>))"

section \<open>The wrappers\<close>

record tensor =
  handle :: nat
  shape :: "nat list"
  tdtype :: dtype

definition numel :: "tensor \<Rightarrow> nat" where
  "numel t = prod_list (shape t)"

definition half_type :: "dtype \<Rightarrow> bool" where
  "half_type d \<longleftrightarrow> d = ''bfloat16'' \<or> d = ''float16''"

definition dim :: "tensor \<Rightarrow> nat \<Rightarrow> nat result" where
  "dim t i = index_py (shape t) i"

text \<open>\<^verbatim>\<open>t.view(-1, t.shape[-1])\<close>\<close>

definition view_2d :: "tensor \<Rightarrow> tensor result" where
  "view_2d t =
     (if shape t = [] then Inl IndexError
      else if last (shape t) = 0 then Inl RuntimeError
      else Inr (t\<lparr>shape := [prod_list (butlast (shape t)), last (shape t)]\<rparr>))"

text \<open>A launched kernel of the emulation: operands, number of the algorithm, parameters.\<close>

record emu_call =
  operands :: "tensor list"
  out_type :: dtype
  call_bias :: "tensor option"
  algo_val :: nat
  call_params :: "int list"

definition fp8_algorithm_map :: "string \<rightharpoonup> nat" where
  "fp8_algorithm_map = map_of [(''gdfs'', 1), (''cofda'', 2), (''cofda_decoupled'', 3)]"

definition fp4_algorithm_map :: "string \<rightharpoonup> nat" where
  "fp4_algorithm_map = map_of [(''gdfs'', 1), (''cofda'', 2)]"

text \<open>The check of the parameters for an algorithm of the FP8 wrapper.\<close>

definition fp8_valid :: "string \<Rightarrow> emu_params \<Rightarrow> bool" where
  "fp8_valid alg p \<longleftrightarrow>
     (if alg = ''gdfs'' then 7 \<le> f_bits p \<and> f_bits p \<le> 35 \<and> g_bits p \<in> {3, 4, 5, 6, 8, 10, 13, 17, 25, 32} \<and> group_size p \<in> {8, 16}
      else if alg = ''cofda'' then 3 \<le> f_bits p \<and> f_bits p \<le> 25 \<and> chunk_size p \<in> {4, 8, 16, 32}
      else if alg = ''cofda_decoupled'' then 3 \<le> f_bits p \<and> f_bits p \<le> 25 \<and> chunk_size p \<in> {8, 16, 32}
      else True)"

text \<open>Arguments that are \<^verbatim>\<open>None\<close> are read from the environment; an argument that is given is not.\<close>

definition arg_or_env :: "int option \<Rightarrow> int result \<Rightarrow> int result" where
  "arg_or_env a e = (case a of None \<Rightarrow> e | Some x \<Rightarrow> Inr x)"

record emu_args =
  a_algorithm :: "string option"
  a_f_bits :: "int option"
  a_g_bits :: "int option"
  a_group_size :: "int option"
  a_chunk_size :: "int option"

definition resolve_fp8 :: "environ \<Rightarrow> emu_args \<Rightarrow> (nat \<times> emu_params) result" where
  "resolve_fp8 env args =
     (let alg = (case a_algorithm args of None \<Rightarrow> getenv env ''VLLM_MMAEMU_FP8_ALGORITHM'' [] | Some a \<Rightarrow> a); algo_str = lower alg in
      if algo_str = [] then Inl ValueError
      else case fp8_algorithm_map algo_str of
        None \<Rightarrow> Inl ValueError
      | Some v \<Rightarrow>
          bnd (arg_or_env (a_f_bits args) (env_int env ''VLLM_MMAEMU_FP8_F_BITS'' ''25'')) (\<lambda>f.
          bnd (arg_or_env (a_g_bits args) (env_int env ''VLLM_MMAEMU_FP8_G_BITS'' ''32'')) (\<lambda>g.
          bnd (arg_or_env (a_group_size args) (env_int env ''VLLM_MMAEMU_FP8_GROUP_SIZE'' ''16'')) (\<lambda>gs.
          bnd (arg_or_env (a_chunk_size args) (env_int env ''VLLM_MMAEMU_FP8_CHUNK_SIZE'' ''32'')) (\<lambda>cs.
            let p = \<lparr>algorithm = algo_str, f_bits = f, g_bits = g, group_size = gs, chunk_size = cs\<rparr>
            in check (fp8_valid algo_str p) ValueError (Inr (v, p)))))))"

definition mma_emu_scaled_fp8_mm :: "environ \<Rightarrow> tensor \<Rightarrow> tensor \<Rightarrow> tensor \<Rightarrow> tensor \<Rightarrow> dtype \<Rightarrow> tensor option \<Rightarrow> emu_args
    \<Rightarrow> (emu_call \<times> nat list) result" where
  "mma_emu_scaled_fp8_mm env a b scale_a scale_b out_dtype bias args =
     check (half_type out_dtype) AssertionError
     (bnd (case bias of None \<Rightarrow> Inr True | Some t \<Rightarrow> bnd (dim b 1) (\<lambda>n. Inr (numel t = n \<and> tdtype t = out_dtype))) (\<lambda>bias_ok.
      check bias_ok AssertionError
      (check (numel scale_a = 1) AssertionError
      (check (numel scale_b = 1) AssertionError
      (bnd (resolve_fp8 env args) (\<lambda>(v, p).
       bnd (dim b 1) (\<lambda>n.
       bnd (view_2d a) (\<lambda>a2.
         Inr (\<lparr>operands = [a2, b, scale_a, scale_b], out_type = out_dtype, call_bias = bias, algo_val = v,
               call_params = [f_bits p, g_bits p, group_size p, chunk_size p]\<rparr>,
              butlast (shape a) @ [n])))))))))"

text \<open>The four-bit wrappers look the algorithm up as it is written. Their last branch, for
  \<^verbatim>\<open>cofda_decoupled\<close>, comes after a lookup that has no such entry.\<close>

definition nvfp4_valid :: "string \<Rightarrow> int \<Rightarrow> int \<Rightarrow> bool" where
  "nvfp4_valid alg f g \<longleftrightarrow>
     (if alg = ''gdfs'' then 5 \<le> f \<and> f \<le> 35 \<and> g \<in> {2, 3, 4, 5, 6, 32}
      else if alg = ''cofda'' then 3 \<le> f \<and> f \<le> 25
      else if alg = ''cofda_decoupled'' then 3 \<le> f \<and> f \<le> 25
      else True)"

definition mma_emu_scaled_nvfp4_mm :: "environ \<Rightarrow> tensor \<Rightarrow> tensor \<Rightarrow> tensor \<Rightarrow> tensor \<Rightarrow> tensor \<Rightarrow> dtype \<Rightarrow> emu_args
    \<Rightarrow> (emu_call \<times> nat list) result" where
  "mma_emu_scaled_nvfp4_mm env a b block_scale_a block_scale_b alpha out_dtype args =
     check (length (shape a) = 2 \<and> length (shape b) = 2) AssertionError
     (check (half_type out_dtype) AssertionError
      (let alg = (case a_algorithm args of None \<Rightarrow> getenv env ''VLLM_MMAEMU_NVFP4_ALGORITHM'' [] | Some x \<Rightarrow> x) in
       if alg = [] then Inl ValueError
       else case fp4_algorithm_map alg of
         None \<Rightarrow> Inl ValueError
       | Some v \<Rightarrow>
           bnd (arg_or_env (a_f_bits args) (env_int env ''VLLM_MMAEMU_NVFP4_F_BITS'' ''25'')) (\<lambda>f.
           bnd (arg_or_env (a_g_bits args) (env_int env ''VLLM_MMAEMU_NVFP4_G_BITS'' ''6'')) (\<lambda>g.
             check (nvfp4_valid alg f g) ValueError
               (Inr (\<lparr>operands = [a, b, block_scale_a, block_scale_b, alpha], out_type = out_dtype, call_bias = None, algo_val = v,
                      call_params = [f, g]\<rparr>,
                     [shape a ! 0, shape b ! 0]))))))"

definition mxfp4_valid :: "string \<Rightarrow> int \<Rightarrow> int \<Rightarrow> int \<Rightarrow> int \<Rightarrow> bool" where
  "mxfp4_valid alg f g gs cs \<longleftrightarrow>
     (if alg = ''gdfs'' then 5 \<le> f \<and> f \<le> 35 \<and> g \<in> {2, 3, 4, 5, 6} \<and> gs \<in> {4, 8, 16, 32}
      else if alg = ''cofda'' then 3 \<le> f \<and> f \<le> 25 \<and> cs \<in> {4, 8, 16, 32}
      else if alg = ''cofda_decoupled'' then 3 \<le> f \<and> f \<le> 25 \<and> cs \<in> {16, 32}
      else True)"

definition mma_emu_scaled_mxfp4_mm :: "environ \<Rightarrow> tensor \<Rightarrow> tensor \<Rightarrow> tensor \<Rightarrow> tensor \<Rightarrow> dtype \<Rightarrow> emu_args
    \<Rightarrow> (emu_call \<times> nat list) result" where
  "mma_emu_scaled_mxfp4_mm env a b block_scale_a block_scale_b out_dtype args =
     check (length (shape a) = 2 \<and> length (shape b) = 2) AssertionError
     (check (half_type out_dtype) AssertionError
      (let alg = (case a_algorithm args of None \<Rightarrow> getenv env ''VLLM_MMAEMU_MXFP4_ALGORITHM'' [] | Some x \<Rightarrow> x) in
       if alg = [] then Inl ValueError
       else case fp4_algorithm_map alg of
         None \<Rightarrow> Inl ValueError
       | Some v \<Rightarrow>
           bnd (arg_or_env (a_f_bits args) (env_int env ''VLLM_MMAEMU_MXFP4_F_BITS'' ''25'')) (\<lambda>f.
           bnd (arg_or_env (a_g_bits args) (env_int env ''VLLM_MMAEMU_MXFP4_G_BITS'' ''6'')) (\<lambda>g.
           bnd (arg_or_env (a_group_size args) (env_int env ''VLLM_MMAEMU_MXFP4_GROUP_SIZE'' ''16'')) (\<lambda>gs.
           bnd (arg_or_env (a_chunk_size args) (env_int env ''VLLM_MMAEMU_MXFP4_CHUNK_SIZE'' ''16'')) (\<lambda>cs.
             check (mxfp4_valid alg f g gs cs) ValueError
               (Inr (\<lparr>operands = [a, b, block_scale_a, block_scale_b], out_type = out_dtype, call_bias = None, algo_val = v,
                      call_params = [f, g, gs, cs]\<rparr>,
                     [shape a ! 0, shape b ! 0]))))))))"

section \<open>Linear layers\<close>

text \<open>What the layers ask of the platform and of other packages.\<close>

record platform =
  is_rocm :: bool
  is_cuda :: bool
  device_capability :: "int option"
  supports_fp8 :: "int \<Rightarrow> bool"
  has_flashinfer :: bool
  fp8_dtype :: dtype
  rowwise_scaled_mm :: bool
  cutlass_fp4 :: bool
  fp4_marlin :: bool
  has_fbgemm :: bool

definition has_device_capability :: "platform \<Rightarrow> int \<Rightarrow> bool" where
  "has_device_capability pf n = (case device_capability pf of None \<Rightarrow> False | Some c \<Rightarrow> c \<ge> n)"

definition cutlass_fp8_supported :: "platform \<Rightarrow> bool" where
  "cutlass_fp8_supported pf =
     (is_cuda pf \<and> supports_fp8 pf (case device_capability pf of None \<Rightarrow> -1 | Some c \<Rightarrow> c))"

datatype mm_func =
    rocm_per_tensor_w8a8_scaled_mm | flashinfer_w8a8_scaled_mm | cutlass_w8a8_scaled_mm | mma_emu_w8a8_scaled_mm
  | torch_per_tensor_w8a8_scaled_mm | torch_per_token_w8a8_scaled_mm | torch_channelwise_w8a8_scaled_mm

definition dispatch_w8a8_scaled_mm :: "platform \<Rightarrow> string \<Rightarrow> bool \<Rightarrow> bool \<Rightarrow> mm_func result" where
  "dispatch_w8a8_scaled_mm pf preferred_backend per_tensor_weights per_tensor_activations =
     (if per_tensor_weights \<and> per_tensor_activations
      then if preferred_backend = ''rocm'' then Inr rocm_per_tensor_w8a8_scaled_mm
           else if preferred_backend = ''flashinfer'' then Inr flashinfer_w8a8_scaled_mm
           else if preferred_backend = ''cutlass'' then Inr cutlass_w8a8_scaled_mm
           else if preferred_backend = ''mma_emu'' then Inr mma_emu_w8a8_scaled_mm
           else Inr torch_per_tensor_w8a8_scaled_mm
      else if preferred_backend = ''mma_emu'' then Inl ValueError
      else if preferred_backend = ''cutlass'' \<or> preferred_backend = ''flashinfer'' then Inr cutlass_w8a8_scaled_mm
      else if \<not> per_tensor_weights \<and> \<not> per_tensor_activations \<and> rowwise_scaled_mm pf then Inr torch_per_token_w8a8_scaled_mm
      else Inr torch_channelwise_w8a8_scaled_mm)"

record fp8_linear_op =
  preferred_backend :: string
  op_params :: "emu_params option"
  output_padding :: "int option"

text \<open>\<open>low_level\<close>: the compilation level is below piecewise.\<close>

definition fp8_linear_init :: "platform \<Rightarrow> environ \<Rightarrow> bool \<Rightarrow> bool option \<Rightarrow> fp8_linear_op result" where
  "fp8_linear_init pf env low_level pad_output =
     (let native = (if is_rocm pf then ''rocm''
                    else if is_cuda pf \<and> cutlass_fp8_supported pf
                    then if has_flashinfer pf \<and> has_device_capability pf 100 then ''flashinfer'' else ''cutlass''
                    else ''torch'') in
      bnd (use_fp8 env) (\<lambda>emulate.
      bnd (if emulate
           then check (is_cuda pf \<and> has_device_capability pf 89) ValueError (bnd (fp8_env env) (\<lambda>p. Inr (''mma_emu'', Some p)))
           else Inr (native, None)) (\<lambda>(backend, params).
        let pad = (case pad_output of Some b \<Rightarrow> b | None \<Rightarrow> low_level \<and> backend = ''torch'')
        in Inr \<lparr>preferred_backend = backend, op_params = params, output_padding = (if pad then Some 17 else None)\<rparr>)))"

text \<open>The launched multiplication: the emulation, or a native function with its operands.\<close>

datatype gemm = Emulated emu_call | Native mm_func "tensor list" dtype "tensor option"

definition emu_kwargs :: "fp8_linear_op \<Rightarrow> emu_args" where
  "emu_kwargs lin =
     (case op_params lin of
        None \<Rightarrow> \<lparr>a_algorithm = None, a_f_bits = None, a_g_bits = None, a_group_size = None, a_chunk_size = None\<rparr>
      | Some p \<Rightarrow> \<lparr>a_algorithm = Some (algorithm p), a_f_bits = Some (f_bits p), a_g_bits = Some (g_bits p),
                   a_group_size = Some (group_size p), a_chunk_size = Some (chunk_size p)\<rparr>)"

definition fp8_linear_apply :: "platform \<Rightarrow> environ \<Rightarrow> (int option \<Rightarrow> tensor \<Rightarrow> tensor option \<Rightarrow> tensor option \<Rightarrow> tensor \<times> tensor)
    \<Rightarrow> fp8_linear_op \<Rightarrow> tensor \<Rightarrow> tensor \<Rightarrow> tensor \<Rightarrow> dtype option \<Rightarrow> tensor option \<Rightarrow> tensor option \<Rightarrow> tensor option
    \<Rightarrow> (gemm \<times> nat list) result" where
  "fp8_linear_apply pf env quant_fp8 lin input weight weight_scale out_dtype input_scale input_scale_ub bias =
     bnd (view_2d input) (\<lambda>input_2d.
     bnd (dim weight 1) (\<lambda>n.
     let output_shape = butlast (shape input) @ [n];
         out_dtype = (case out_dtype of None \<Rightarrow> tdtype input | Some d \<Rightarrow> d) in
     bnd (if tdtype input \<noteq> fp8_dtype pf
          then Inr (quant_fp8 (output_padding lin) input_2d input_scale input_scale_ub)
          else case input_scale of None \<Rightarrow> Inl AttributeError | Some s \<Rightarrow> Inr (input_2d, s)) (\<lambda>(qinput, x_scale).
     bnd (dispatch_w8a8_scaled_mm pf (preferred_backend lin) (numel weight_scale = 1) (numel x_scale = 1)) (\<lambda>func.
       if func = mma_emu_w8a8_scaled_mm
       then bnd (mma_emu_scaled_fp8_mm env qinput weight x_scale weight_scale out_dtype bias (emu_kwargs lin)) (\<lambda>(call, _).
              Inr (Emulated call, output_shape))
       else Inr (Native func [qinput, weight, x_scale, weight_scale] out_dtype bias, output_shape)))))"

section \<open>NVFP4 layers\<close>

record nvfp4_method =
  backend :: string
  nvfp4_params :: "fp4_params option"

text \<open>Both classes start with the emulation; \<open>flag\<close> reads the other variables of the environment.\<close>

definition modelopt_nvfp4_init :: "platform \<Rightarrow> environ \<Rightarrow> nvfp4_method result" where
  "modelopt_nvfp4_init pf env =
     bnd (use_nvfp4 env) (\<lambda>emulate.
       if emulate then bnd (nvfp4_env env) (\<lambda>p. Inr \<lparr>backend = ''mma_emu'', nvfp4_params = Some p\<rparr>)
       else bnd (env_flag env ''VLLM_USE_TRTLLM_FP4_GEMM'' ''0'') (\<lambda>trtllm.
         if trtllm then check (has_flashinfer pf) AssertionError (Inr \<lparr>backend = ''flashinfer-trtllm'', nvfp4_params = None\<rparr>)
         else if has_flashinfer pf then Inr \<lparr>backend = ''flashinfer-cutlass'', nvfp4_params = None\<rparr>
         else if cutlass_fp4 pf then Inr \<lparr>backend = ''cutlass'', nvfp4_params = None\<rparr>
         else if fp4_marlin pf then Inr \<lparr>backend = ''marlin'', nvfp4_params = None\<rparr>
         else Inl ValueError))"


definition ct_nvfp4_init :: "platform \<Rightarrow> environ \<Rightarrow> nvfp4_method result" where
  "ct_nvfp4_init pf env =
     bnd (use_nvfp4 env) (\<lambda>emulate.
       if emulate then bnd (nvfp4_env env) (\<lambda>p. Inr \<lparr>backend = ''mma_emu'', nvfp4_params = Some p\<rparr>)
       else bnd (env_flag env ''VLLM_USE_TRTLLM_FP4_GEMM'' ''0'') (\<lambda>trtllm.
         if trtllm then check (has_flashinfer pf) AssertionError (Inr \<lparr>backend = ''flashinfer-trtllm'', nvfp4_params = None\<rparr>)
         else bnd (env_flag env ''VLLM_USE_FBGEMM'' ''0'') (\<lambda>fbgemm.
           if fbgemm then check (has_fbgemm pf) ImportError (Inr \<lparr>backend = ''fbgemm'', nvfp4_params = None\<rparr>)
           else if has_flashinfer pf then Inr \<lparr>backend = ''flashinfer-cutlass'', nvfp4_params = None\<rparr>
           else Inr \<lparr>backend = ''cutlass'', nvfp4_params = None\<rparr>)))"

record fp4_layer =
  weight :: tensor
  weight_scale :: tensor
  alpha :: tensor
  input_scale_inv :: tensor

text \<open>\<open>Software\<close> is the emulation of compressed-tensors, which is not the one of the kernels.\<close>

datatype fp4_gemm = Fp4_Emulated emu_call | Fp4_Native string "tensor list" dtype | Software tensor

definition nvfp4_args :: "nvfp4_method \<Rightarrow> emu_args" where
  "nvfp4_args m =
     (case nvfp4_params m of
        None \<Rightarrow> \<lparr>a_algorithm = None, a_f_bits = None, a_g_bits = None, a_group_size = None, a_chunk_size = None\<rparr>
      | Some p \<Rightarrow> \<lparr>a_algorithm = Some (fp4_algorithm p), a_f_bits = Some (fp4_f_bits p), a_g_bits = Some (fp4_g_bits p),
                   a_group_size = None, a_chunk_size = None\<rparr>)"

definition nvfp4_mm :: "environ \<Rightarrow> nvfp4_method \<Rightarrow> tensor \<Rightarrow> tensor \<Rightarrow> fp4_layer \<Rightarrow> dtype \<Rightarrow> fp4_gemm result" where
  "nvfp4_mm env m x_fp4 x_blockscale layer out_dtype =
     (if backend m = ''mma_emu''
      then bnd (mma_emu_scaled_nvfp4_mm env x_fp4 (weight layer) x_blockscale (weight_scale layer) (alpha layer) out_dtype (nvfp4_args m))
             (\<lambda>(call, _). Inr (Fp4_Emulated call))
      else Inr (Fp4_Native (backend m) [x_fp4, weight layer, x_blockscale, weight_scale layer, alpha layer] out_dtype))"

text \<open>The result is the launched operation, the bias that is added to its output, and the shape.\<close>

definition modelopt_nvfp4_apply :: "environ \<Rightarrow> (tensor \<Rightarrow> tensor \<Rightarrow> tensor \<times> tensor) \<Rightarrow> nvfp4_method \<Rightarrow> fp4_layer \<Rightarrow> tensor \<Rightarrow> tensor option
    \<Rightarrow> (fp4_gemm \<times> tensor option \<times> nat list) result" where
  "modelopt_nvfp4_apply env scaled_fp4_quant m layer x bias =
     (if backend m = ''marlin'' then Inr (Fp4_Native ''marlin'' [x, weight layer, weight_scale layer] (tdtype x), bias, shape x)
      else bnd (dim x 0) (\<lambda>rows. bnd (dim (weight layer) 0) (\<lambda>n.
        let (x_fp4, x_blockscale) = scaled_fp4_quant x (input_scale_inv layer) in
        check (tdtype x_fp4 = ''uint8'' \<and> tdtype (weight layer) = ''uint8'' \<and> tdtype x_blockscale = ''float8_e4m3fn''
             \<and> tdtype (weight_scale layer) = ''float8_e4m3fn'' \<and> tdtype (alpha layer) = ''float32'') AssertionError
          (bnd (nvfp4_mm env m x_fp4 x_blockscale layer (tdtype x)) (\<lambda>g. Inr (g, bias, [rows, n]))))))"

definition ct_nvfp4_apply :: "environ \<Rightarrow> (tensor \<Rightarrow> tensor \<Rightarrow> tensor \<times> tensor) \<Rightarrow> nvfp4_method \<Rightarrow> fp4_layer \<Rightarrow> tensor \<Rightarrow> tensor option
    \<Rightarrow> (fp4_gemm \<times> tensor option \<times> nat list) result" where
  "ct_nvfp4_apply env scaled_fp4_quant m layer x bias =
     bnd (env_flag env ''VLLM_USE_NVFP4_CT_EMULATIONS'' ''0'') (\<lambda>software.
       if software then Inr (Software x, bias, shape x)
       else bnd (dim x 0) (\<lambda>rows. bnd (dim (weight layer) 0) (\<lambda>n.
         let (x_fp4, x_blockscale) = scaled_fp4_quant x (input_scale_inv layer)
         in bnd (nvfp4_mm env m x_fp4 x_blockscale layer (tdtype x)) (\<lambda>g. Inr (g, bias, [rows, n])))))"

section \<open>Reading back a printed integer\<close>

lemma digit_val_char: "d < 10 \<Longrightarrow> digit_val (digit_char d) = Some d"
proof -
  assume "d < 10"
  then have "d \<in> {0, 1, 2, 3, 4, 5, 6, 7, 8, 9}" by auto
  then show ?thesis by (auto simp: digit_val_def digit_char_def upt_rec)
qed

lemma digit_char_plain:
  assumes "d < 10"
  shows "digit_char d \<noteq> CHR ''_''" "digit_char d \<noteq> CHR ''-''" "digit_char d \<noteq> CHR ''+''" "\<not> is_space (digit_char d)"
proof -
  have "d \<in> {0, 1, 2, 3, 4, 5, 6, 7, 8, 9}" using assms by auto
  then show "digit_char d \<noteq> CHR ''_''" "digit_char d \<noteq> CHR ''-''" "digit_char d \<noteq> CHR ''+''" "\<not> is_space (digit_char d)"
    by (auto simp: digit_char_def is_space_def)
qed

declare str_nat.simps [simp del]

definition plain_digits :: "string \<Rightarrow> bool" where
  "plain_digits s \<longleftrightarrow> (\<forall>c\<in>set s. \<exists>d<10. c = digit_char d)"

lemma str_nat_nonempty: "str_nat n \<noteq> []"
  by (simp add: str_nat.simps[of n])

lemma str_nat_plain: "plain_digits (str_nat n)"
proof (induction n rule: str_nat.induct)
  case (1 n)
  show ?case
  proof (cases "n < 10")
    case True
    then show ?thesis by (auto simp: str_nat.simps[of n] plain_digits_def)
  next
    case False
    moreover have "\<exists>d<10. digit_char (n mod 10) = digit_char d" by (rule exI[of _ "n mod 10"]) simp
    ultimately show ?thesis using 1 unfolding str_nat.simps[of n] plain_digits_def by auto
  qed
qed

lemma digits_val_snoc:
  assumes "plain_digits s" "s \<noteq> []" "d < 10"
  shows "digits_val acc (s @ [digit_char d]) = map_option (\<lambda>n. 10 * n + d) (digits_val acc s)"
  using assms
proof (induction acc s rule: digits_val.induct)
  case (2 acc c)
  then show ?case by (auto simp: digit_val_char digit_char_plain split: option.splits)
next
  case (3 acc c c' cs)
  obtain k where k: "c = digit_char k" "k < 10" using 3(2) by (auto simp: plain_digits_def)
  obtain k' where k': "c' = digit_char k'" "k' < 10" using 3(2) by (auto simp: plain_digits_def)
  have "plain_digits (c' # cs)" using 3(2) by (simp add: plain_digits_def)
  with 3(1)[of k] 3(4) show ?case by (simp add: k k' digit_val_char digit_char_plain)
qed simp

lemma digits_val_str_nat: "digits_val None (str_nat n) = Some n"
proof (induction n rule: str_nat.induct)
  case (1 n)
  show ?case
  proof (cases "n < 10")
    case True
    then show ?thesis by (simp add: str_nat.simps[of n] digit_val_char)
  next
    case False
    then have "digits_val None (str_nat n) = Some (10 * (n div 10) + n mod 10)"
      using 1 by (simp add: str_nat.simps[of n] digits_val_snoc str_nat_plain str_nat_nonempty)
    then show ?thesis by simp
  qed
qed

lemma int_of_str_int [simp]: "int_of_str (str_int i) = Inr i"
proof -
  have sp: "\<not> is_space CHR ''-''" by (simp add: is_space_def)
  have no: "dropWhile is_space s = s" "dropWhile is_space (rev s) = rev s" if "\<forall>c\<in>set s. \<not> is_space c" for s
    using that by (cases s, auto) (cases "rev s", auto simp: dropWhile_eq_self_iff hd_rev)
  have strip: "strip s = s" if "\<forall>c\<in>set s. \<not> is_space c" for s using no[OF that] by (simp add: strip_def)
  have pl: "\<not> is_space c" "c \<noteq> CHR ''-''" "c \<noteq> CHR ''+''" if "c \<in> set (str_nat n)" for c n
  proof -
    obtain d where "d < 10" "c = digit_char d" using str_nat_plain[of n] \<open>c \<in> set (str_nat n)\<close> by (auto simp: plain_digits_def)
    then show "\<not> is_space c" "c \<noteq> CHR ''-''" "c \<noteq> CHR ''+''" by (simp_all add: digit_char_plain)
  qed
  obtain c cs where cs: "str_nat (nat i) = c # cs" using str_nat_nonempty[of "nat i"] by (cases "str_nat (nat i)") auto
  then have "c \<noteq> CHR ''-''" "c \<noteq> CHR ''+''" "strip (c # cs) = c # cs" using pl[of _ "nat i"] strip[of "c # cs"] by auto
  then show ?thesis
    using digits_val_str_nat[of "nat i"] cs digits_val_str_nat[of "nat (- i)"]
    by (auto simp: int_of_str_def str_int_def strip pl sp)
qed


section \<open>No silent fallback\<close>

lemma resolve_fp8_given:
  assumes "resolve_fp8 env \<lparr>a_algorithm = Some a, a_f_bits = Some f, a_g_bits = Some g, a_group_size = Some gs, a_chunk_size = Some cs\<rparr> = Inr (v, p)"
  shows "fp8_algorithm_map (lower a) = Some v" "fp8_valid (lower a) p" "[f_bits p, g_bits p, group_size p, chunk_size p] = [f, g, gs, cs]"
  using assms by (auto simp: resolve_fp8_def arg_or_env_def Let_def split: if_splits option.splits)

lemma fp8_valid_cong:
  "f_bits q = f_bits p \<Longrightarrow> g_bits q = g_bits p \<Longrightarrow> group_size q = group_size p \<Longrightarrow> chunk_size q = chunk_size p \<Longrightarrow> fp8_valid a q = fp8_valid a p"
  by (simp add: fp8_valid_def)

lemma mma_emu_scaled_fp8_mm_call:
  assumes "mma_emu_scaled_fp8_mm env a b sa sb d bias args = Inr (call, sh)"
  shows "\<exists>v p a2. resolve_fp8 env args = Inr (v, p) \<and> algo_val call = v \<and> call_params call = [f_bits p, g_bits p, group_size p, chunk_size p]
    \<and> view_2d a = Inr a2 \<and> operands call = [a2, b, sa, sb]
    \<and> numel sa = 1 \<and> numel sb = 1 \<and> out_type call = d \<and> call_bias call = bias"
  using assms by (auto simp: mma_emu_scaled_fp8_mm_def split: option.splits)

lemma fp8_linear_init_params:
  assumes "fp8_linear_init pf env low pad = Inr lin" "use_fp8 env = Inr e"
  shows "if e then preferred_backend lin = ''mma_emu'' \<and> (\<exists>p. fp8_env env = Inr p \<and> op_params lin = Some p)
    else preferred_backend lin \<in> {''rocm'', ''flashinfer'', ''cutlass'', ''torch''} \<and> op_params lin = None"
  using assms by (auto simp: fp8_linear_init_def Let_def split: if_splits)

lemma dispatch_emu: "dispatch_w8a8_scaled_mm pf b w a = Inr func \<Longrightarrow> func = mma_emu_w8a8_scaled_mm \<longleftrightarrow> b = ''mma_emu''"
  by (auto simp: dispatch_w8a8_scaled_mm_def split: if_splits)

text \<open>The activation and its scale as a layer passes them on: quantised, or given with a scale.\<close>

definition quantized_activation :: "platform \<Rightarrow> (int option \<Rightarrow> tensor \<Rightarrow> tensor option \<Rightarrow> tensor option \<Rightarrow> tensor \<times> tensor)
    \<Rightarrow> fp8_linear_op \<Rightarrow> tensor \<Rightarrow> tensor option \<Rightarrow> tensor option \<Rightarrow> (tensor \<times> tensor) result" where
  "quantized_activation pf quant_fp8 lin input input_scale input_scale_ub =
     bnd (view_2d input) (\<lambda>input_2d.
       if tdtype input \<noteq> fp8_dtype pf then Inr (quant_fp8 (output_padding lin) input_2d input_scale input_scale_ub)
       else case input_scale of None \<Rightarrow> Inl AttributeError | Some s \<Rightarrow> Inr (input_2d, s))"

lemma fp8_layer_runs:
  assumes "fp8_linear_init pf env low pad = Inr lin" "use_fp8 env = Inr emulate"
    and "fp8_linear_apply pf env' quant_fp8 lin input w ws out_dtype input_scale ub bias = Inr (g, sh)"
  shows "if emulate
    then \<exists>call p. g = Emulated call \<and> fp8_env env = Inr p \<and> fp8_algorithm_map (lower (algorithm p)) = Some (algo_val call)
        \<and> call_params call = [f_bits p, g_bits p, group_size p, chunk_size p] \<and> fp8_valid (lower (algorithm p)) p
        \<and> (\<exists>q x_scale a2. quantized_activation pf quant_fp8 lin input input_scale ub = Inr (q, x_scale) \<and> view_2d q = Inr a2
             \<and> operands call = [a2, w, x_scale, ws] \<and> numel x_scale = 1 \<and> numel ws = 1)
    else \<exists>func args d. g = Native func args d bias \<and> func \<noteq> mma_emu_w8a8_scaled_mm"
proof -
  obtain n qinput x_scale d func where disp: "dispatch_w8a8_scaled_mm pf (preferred_backend lin) (numel ws = 1) (numel x_scale = 1) = Inr func"
    and run: "(if func = mma_emu_w8a8_scaled_mm
       then bnd (mma_emu_scaled_fp8_mm env' qinput w x_scale ws d bias (emu_kwargs lin)) (\<lambda>(call, _). Inr (Emulated call, butlast (shape input) @ [n]))
       else Inr (Native func [qinput, w, x_scale, ws] d bias, butlast (shape input) @ [n])) = Inr (g, sh)"
    and qa: "quantized_activation pf quant_fp8 lin input input_scale ub = Inr (qinput, x_scale)"
    using assms(3) by (auto simp: fp8_linear_apply_def quantized_activation_def Let_def split: if_splits option.splits)
  note lin = fp8_linear_init_params[OF assms(1,2)]
  show ?thesis
  proof (cases emulate)
    case True
    then obtain p where p: "fp8_env env = Inr p" "op_params lin = Some p" and em: "func = mma_emu_w8a8_scaled_mm"
      using lin dispatch_emu[OF disp] by auto
    from run em obtain call sh' where c: "mma_emu_scaled_fp8_mm env' qinput w x_scale ws d bias (emu_kwargs lin) = Inr (call, sh')"
      and g: "g = Emulated call" by auto
    obtain v q a2 where r: "resolve_fp8 env' (emu_kwargs lin) = Inr (v, q)" and cp: "algo_val call = v"
      "call_params call = [f_bits q, g_bits q, group_size q, chunk_size q]" "view_2d qinput = Inr a2" "operands call = [a2, w, x_scale, ws]"
      "numel x_scale = 1" "numel ws = 1"
      using mma_emu_scaled_fp8_mm_call[OF c] by blast
    note q = resolve_fp8_given[OF r[unfolded emu_kwargs_def p(2) option.simps]]
    have "fp8_valid (lower (algorithm p)) p" using q(2) fp8_valid_cong[of q p] q(3) by simp
    with True p g cp q qa show ?thesis by auto
  next
    case False
    then have "preferred_backend lin \<noteq> ''mma_emu''" using lin by auto
    with False run dispatch_emu[OF disp] show ?thesis by auto
  qed
qed

text \<open>C36: An FP8 linear layer launches the emulated multiplication exactly when the layer was built with
  the emulation switched on: it never falls back to a native kernel, and a native layer never
  emulates. The emulation runs with the parameters the environment had when the layer was built,
  whatever the environment is when it is applied, and they are in the ranges that the code checks for
  its algorithm (\<open>fp8_valid\<close>: 7 to 35 fractional bits and group size 8 or 16 for GDFS, 3 to 25 bits and
  chunk size 4, 8, 16 or 32 for CoFDA; these are not the ranges of the docstring of the function). It
  gets the layer's own activation, weight and scales, and both scales are per-tensor ones: an
  application with any other activation scale or weight scale raises.\<close>

theorem fp8_emulation_faithful:
  assumes "fp8_linear_init pf env low pad = Inr lin" "use_fp8 env = Inr emulate"
    and "fp8_linear_apply pf env' quant_fp8 lin input w ws out_dtype input_scale ub bias = Inr (g, sh)"
  shows "if emulate
    then \<exists>call p. g = Emulated call \<and> fp8_env env = Inr p \<and> fp8_algorithm_map (lower (algorithm p)) = Some (algo_val call)
        \<and> call_params call = [f_bits p, g_bits p, group_size p, chunk_size p] \<and> fp8_valid (lower (algorithm p)) p
        \<and> (\<exists>q x_scale a2. quantized_activation pf quant_fp8 lin input input_scale ub = Inr (q, x_scale) \<and> view_2d q = Inr a2
             \<and> operands call = [a2, w, x_scale, ws] \<and> numel x_scale = 1 \<and> numel ws = 1)
    else \<exists>func args d. g = Native func args d bias \<and> func \<noteq> mma_emu_w8a8_scaled_mm"
  by (rule fp8_layer_runs[OF assms])

definition demo_platform :: platform where
  "demo_platform = \<lparr>is_rocm = False, is_cuda = True, device_capability = Some 120, supports_fp8 = (\<lambda>c. c \<ge> 89), has_flashinfer = False,
     fp8_dtype = ''float8_e4m3fn'', rowwise_scaled_mm = False, cutlass_fp4 = True, fp4_marlin = False, has_fbgemm = False\<rparr>"

definition hopper_env :: environ where
  "hopper_env = [''VLLM_USE_MMAEMU_GEMM_FP8'' \<mapsto> ''1'', ''VLLM_MMAEMU_FP8_ALGORITHM'' \<mapsto> ''cofda'', ''VLLM_MMAEMU_FP8_F_BITS'' \<mapsto> ''13'']"

definition demo_tensor :: "nat list \<Rightarrow> dtype \<Rightarrow> tensor" where
  "demo_tensor sh d = \<lparr>handle = 0, shape = sh, tdtype = d\<rparr>"

lemma int_of_str_demo: "int_of_str ''1'' = Inr 1" "int_of_str ''13'' = Inr 13" "int_of_str ''25'' = Inr 25" "int_of_str ''32'' = Inr 32"
    "int_of_str ''16'' = Inr 16" "int_of_str ''0'' = Inr 0" "int_of_str ''6'' = Inr 6"
  by (simp_all add: int_of_str_def strip_def is_space_def digit_val_def upt_rec)

lemmas fp8_eval = env_flag_def env_int_def getenv_def int_of_str_demo

lemma demo_apply:
  "\<exists>g. fp8_linear_apply demo_platform env (\<lambda>_ t s _. (t, demo_tensor [] ''float32''))
      \<lparr>preferred_backend = ''mma_emu'', op_params = Some \<lparr>algorithm = ''cofda'', f_bits = 13, g_bits = gb, group_size = gs, chunk_size = 32\<rparr>, output_padding = None\<rparr>
      (demo_tensor [2, 4, 8] ''bfloat16'') (demo_tensor [8, 16] ''float8_e4m3fn'') (demo_tensor [1] ''float32'') None None None None = Inr (g, [2, 4, 16])"
  by (simp add: fp8_linear_apply_def view_2d_def dim_def index_py_def demo_tensor_def demo_platform_def dispatch_w8a8_scaled_mm_def numel_def
      mma_emu_scaled_fp8_mm_def resolve_fp8_def emu_kwargs_def arg_or_env_def half_type_def lower_def lower_char_def fp8_algorithm_map_def
      fp8_valid_def)

theorem fp8_emulation_faithful_witness:
  "\<exists>lin call. fp8_linear_init demo_platform hopper_env True None = Inr lin
    \<and> fp8_linear_apply demo_platform Map.empty (\<lambda>_ t s _. (t, demo_tensor [] ''float32'')) lin (demo_tensor [2, 4, 8] ''bfloat16'')
        (demo_tensor [8, 16] ''float8_e4m3fn'') (demo_tensor [1] ''float32'') None None None None = Inr (Emulated call, [2, 4, 16])
    \<and> call_params call = [13, 32, 16, 32]"
proof -
  have i: "fp8_linear_init demo_platform hopper_env True None
      = Inr \<lparr>preferred_backend = ''mma_emu'', op_params = Some \<lparr>algorithm = ''cofda'', f_bits = 13, g_bits = 32, group_size = 16, chunk_size = 32\<rparr>,
             output_padding = None\<rparr>" (is "_ = Inr ?lin")
    by (simp add: fp8_linear_init_def use_fp8_def fp8_env_def fp8_eval hopper_env_def demo_platform_def has_device_capability_def)
  have u: "use_fp8 hopper_env = Inr True" by (simp add: use_fp8_def fp8_eval hopper_env_def)
  obtain g where a: "fp8_linear_apply demo_platform Map.empty (\<lambda>_ t s _. (t, demo_tensor [] ''float32'')) ?lin (demo_tensor [2, 4, 8] ''bfloat16'')
        (demo_tensor [8, 16] ''float8_e4m3fn'') (demo_tensor [1] ''float32'') None None None None = Inr (g, [2, 4, 16])"
    using demo_apply by blast
  have p: "fp8_env hopper_env = Inr \<lparr>algorithm = ''cofda'', f_bits = 13, g_bits = 32, group_size = 16, chunk_size = 32\<rparr>"
    by (simp add: fp8_env_def fp8_eval hopper_env_def)
  from fp8_emulation_faithful[OF i u a] p obtain call where "g = Emulated call" "call_params call = [13, 32, 16, 32]" by auto
  with i a show ?thesis by blast
qed

text \<open>The same for the NVFP4 layers, where the other software emulation has precedence in one class.\<close>

lemma nvfp4_mm_emulates:
  assumes "nvfp4_mm env m x xs layer d = Inr g" "backend m = ''mma_emu''" "nvfp4_params m = Some p"
  shows "\<exists>call. g = Fp4_Emulated call \<and> fp4_algorithm_map (fp4_algorithm p) = Some (algo_val call)
    \<and> call_params call = [fp4_f_bits p, fp4_g_bits p] \<and> nvfp4_valid (fp4_algorithm p) (fp4_f_bits p) (fp4_g_bits p)"
  using assms
  by (auto simp: nvfp4_mm_def nvfp4_args_def mma_emu_scaled_nvfp4_mm_def arg_or_env_def Let_def split: if_splits option.splits)

lemma nvfp4_init_params:
  assumes "use_nvfp4 env = Inr True" "modelopt_nvfp4_init pf env = Inr m \<or> ct_nvfp4_init pf env = Inr m"
  shows "backend m = ''mma_emu'' \<and> (\<exists>p. nvfp4_env env = Inr p \<and> nvfp4_params m = Some p)"
  using assms by (auto simp: modelopt_nvfp4_init_def ct_nvfp4_init_def)

theorem nvfp4_emulation_faithful:
  assumes "use_nvfp4 env = Inr True" "modelopt_nvfp4_init pf env = Inr m \<or> ct_nvfp4_init pf env = Inr m"
    and "modelopt_nvfp4_apply env' quant m layer x bias = Inr (g, bias', sh)
      \<or> ct_nvfp4_apply env' quant m layer x bias = Inr (g, bias', sh) \<and> env_flag env' ''VLLM_USE_NVFP4_CT_EMULATIONS'' ''0'' \<noteq> Inr True"
  shows "\<exists>call p. g = Fp4_Emulated call \<and> nvfp4_env env = Inr p \<and> fp4_algorithm_map (fp4_algorithm p) = Some (algo_val call)
    \<and> call_params call = [fp4_f_bits p, fp4_g_bits p] \<and> nvfp4_valid (fp4_algorithm p) (fp4_f_bits p) (fp4_g_bits p)"
proof -
  obtain p where p: "nvfp4_env env = Inr p" "nvfp4_params m = Some p" "backend m = ''mma_emu''" using nvfp4_init_params[OF assms(1,2)] by blast
  obtain x4 xs d where "nvfp4_mm env' m x4 xs layer d = Inr g"
    using assms(3) p(3) by (auto simp: modelopt_nvfp4_apply_def ct_nvfp4_apply_def Let_def split: prod.splits if_splits)
  from nvfp4_mm_emulates[OF this p(3,2)] p(1) show ?thesis by blast
qed

section \<open>Decoupled accumulation\<close>

text \<open>The four-bit wrappers reject the algorithm for which they have a branch.\<close>

theorem fp4_decoupled_rejected:
  "a_algorithm args = Some ''cofda_decoupled'' \<Longrightarrow> half_type d \<Longrightarrow> length (shape a) = 2 \<Longrightarrow> length (shape b) = 2
    \<Longrightarrow> mma_emu_scaled_nvfp4_mm env a b sa sb al d args = Inl ValueError \<and> mma_emu_scaled_mxfp4_mm env a b sa sb d args = Inl ValueError"
  by (simp add: mma_emu_scaled_nvfp4_mm_def mma_emu_scaled_mxfp4_mm_def fp4_algorithm_map_def)

end
