(* ===== verification/Experiment.thy ===== *)
theory Experiment
  imports Complex_Main Mma_Emu "HOL-Library.AList"
begin

text \<open>
  The experiment runner (\<^verbatim>\<open>artifact/scripts/run_experiment.py\<close> and \<^verbatim>\<open>tasks.py\<close>): sweeps, run names, resuming,
  the settings exported to the environment, evaluation of the tasks, and the result files. Loading a
  model and evaluating a task are parameters; console output, times and the release of the GPU are
  left out. A dictionary is an association list in insertion order. Results are written and read
  back as JSON without loss, so a file holds the value itself.
\<close>

section \<open>Values\<close>

datatype scalar = SNone | SBool bool | SInt int | SStr string

fun py_str :: "scalar \<Rightarrow> string" where
  "py_str SNone = ''None''"
| "py_str (SBool b) = (if b then ''True'' else ''False'')"
| "py_str (SInt i) = str_int i"
| "py_str (SStr s) = s"

fun truthy :: "scalar \<Rightarrow> bool" where
  "truthy SNone = False"
| "truthy (SBool b) = b"
| "truthy (SInt i) = (i \<noteq> 0)"
| "truthy (SStr s) = (s \<noteq> [])"

text \<open>Python compares Booleans with integers by their value.\<close>

fun scalar_eq :: "scalar \<Rightarrow> scalar \<Rightarrow> bool" where
  "scalar_eq (SBool a) (SInt i) = (i = (if a then 1 else 0))"
| "scalar_eq (SInt i) (SBool a) = (i = (if a then 1 else 0))"
| "scalar_eq a b = (a = b)"

type_synonym 'v dict = "(string \<times> 'v) list"

definition dict_eq :: "scalar dict \<Rightarrow> scalar dict \<Rightarrow> bool" where
  "dict_eq a b \<longleftrightarrow> length a = length b \<and> list_all (\<lambda>(k, v). case map_of b k of None \<Rightarrow> False | Some w \<Rightarrow> scalar_eq v w) a"

definition get_or :: "'v dict \<Rightarrow> string \<Rightarrow> 'v \<Rightarrow> 'v" where
  "get_or d k x = (case map_of d k of None \<Rightarrow> x | Some v \<Rightarrow> v)"

section \<open>Tasks\<close>

record task_config =
  task_name :: string
  metrics :: "string list"
  short_name :: string
  num_fewshot :: "int option"
  limit :: "nat option"
  unsafe_code :: bool

definition mk_task :: "string \<Rightarrow> string \<Rightarrow> string \<Rightarrow> int option \<Rightarrow> bool \<Rightarrow> string \<times> task_config" where
  "mk_task k m s n u = (k, \<lparr>task_name = k, metrics = [m], short_name = s, num_fewshot = n, limit = None, unsafe_code = u\<rparr>)"

definition TASKS :: "task_config dict" where
  "TASKS =
     [mk_task ''wikitext'' ''word_perplexity'' ''WikiText-2'' None False,
      mk_task ''lambada_openai'' ''acc'' ''LAMBADA'' None False,
      mk_task ''arc_challenge'' ''acc_norm'' ''ARC-Challenge'' None False,
      mk_task ''arc_easy'' ''acc_norm'' ''ARC-Easy'' None False,
      mk_task ''piqa'' ''acc_norm'' ''PIQA'' None False,
      mk_task ''winogrande'' ''acc'' ''WinoGrande'' None False,
      mk_task ''gsm8k_cot'' ''exact_match,strict-match'' ''GSM8K-CoT'' (Some 8) False,
      mk_task ''humaneval_instruct'' ''pass@1,create_test'' ''HumanEval'' (Some 0) True]"

text \<open>\<^verbatim>\<open>re.fullmatch(r"(.+)-(\d+)", key)\<close>: the digits at the end, before them a hyphen, before it the base.\<close>

definition is_digit :: "char \<Rightarrow> bool" where
  "is_digit c \<longleftrightarrow> digit_val c \<noteq> None"

definition split_limit :: "string \<Rightarrow> (string \<times> string) option" where
  "split_limit key =
     (let r = rev key; ds = rev (takeWhile is_digit r); rest = dropWhile is_digit r in
      case rest of
        [] \<Rightarrow> None
      | c # base \<Rightarrow> if c = CHR ''-'' \<and> ds \<noteq> [] \<and> base \<noteq> [] then Some (rev base, ds) else None)"

definition resolve_task_config :: "string \<Rightarrow> task_config option" where
  "resolve_task_config key =
     (case map_of TASKS key of
        Some t \<Rightarrow> Some t
      | None \<Rightarrow>
          (case split_limit key of
             None \<Rightarrow> None
           | Some (base, ds) \<Rightarrow>
               (case map_of TASKS base of
                  None \<Rightarrow> None
                | Some t \<Rightarrow> (case digits_val None ds of
                    None \<Rightarrow> None
                  | Some n \<Rightarrow> Some (t\<lparr>short_name := short_name t @ ''-'' @ str_nat n, limit := Some n\<rparr>)))))"

section \<open>Configuration\<close>

record precision_config =
  default_model :: string
  env_vars :: "string \<rightharpoonup> string"
  has_kv_cache_dtype :: bool
  has_chunk_size :: bool
  has_group_size :: bool

definition PRECISION_CONFIG :: "precision_config dict" where
  "PRECISION_CONFIG =
     [(''fp8'', \<lparr>default_model = ''nvidia/Llama-3.1-8B-Instruct-FP8'',
        env_vars = [''enabled'' \<mapsto> ''VLLM_USE_MMAEMU_GEMM_FP8'', ''algorithm'' \<mapsto> ''VLLM_MMAEMU_FP8_ALGORITHM'',
          ''chunk_size'' \<mapsto> ''VLLM_MMAEMU_FP8_CHUNK_SIZE'', ''f_bits'' \<mapsto> ''VLLM_MMAEMU_FP8_F_BITS'',
          ''g_bits'' \<mapsto> ''VLLM_MMAEMU_FP8_G_BITS'', ''group_size'' \<mapsto> ''VLLM_MMAEMU_FP8_GROUP_SIZE''],
        has_kv_cache_dtype = True, has_chunk_size = True, has_group_size = True\<rparr>),
      (''nvfp4'', \<lparr>default_model = ''nvidia/Llama-3.1-8B-Instruct-NVFP4'',
        env_vars = [''enabled'' \<mapsto> ''VLLM_USE_MMAEMU_GEMM_NVFP4'', ''algorithm'' \<mapsto> ''VLLM_MMAEMU_NVFP4_ALGORITHM'',
          ''f_bits'' \<mapsto> ''VLLM_MMAEMU_NVFP4_F_BITS'', ''g_bits'' \<mapsto> ''VLLM_MMAEMU_NVFP4_G_BITS''],
        has_kv_cache_dtype = False, has_chunk_size = False, has_group_size = False\<rparr>)]"

datatype sweep_entry = Many "scalar list" | One scalar

datatype vval = VNone | VInt int | VRat rat | VBool bool | VStr string

record exp_config =
  sweep :: "sweep_entry dict"
  run_name_opt :: "string option"
  mma_emu :: "scalar dict"
  eval_tasks :: "string list option"
  eval_model :: "string option"
  log_samples :: bool
  vllm :: "vval dict"

definition VLLM_CONFIG :: "vval dict" where
  "VLLM_CONFIG =
     [(''max_model_len'', VInt 16384), (''gpu_memory_utilization'', VRat (7 / 10)), (''tensor_parallel_size'', VInt 1),
      (''enforce_eager'', VBool False), (''kv_cache_dtype'', VStr ''auto''), (''batch_size'', VStr ''auto''), (''max_num_seqs'', VNone)]"

definition task_keys :: "exp_config \<Rightarrow> string list" where
  "task_keys cfg = (case eval_tasks cfg of None \<Rightarrow> [''wikitext''] | Some ts \<Rightarrow> ts)"

definition generate_sweep_combinations :: "exp_config \<Rightarrow> scalar dict list" where
  "generate_sweep_combinations cfg =
     (if sweep cfg = [] then [[]]
      else let param_names = map fst (sweep cfg);
               param_values = map (\<lambda>(_, e). case e of Many vs \<Rightarrow> vs | One v \<Rightarrow> [v]) (sweep cfg)
           in map (zip param_names) (product_lists param_values))"

definition name_part :: "string \<times> scalar \<Rightarrow> string" where
  "name_part kv =
     (let (k, v) = kv in
      if k = ''f_bits'' then ''f'' @ py_str v
      else if k = ''g_bits'' then ''g'' @ py_str v
      else if k = ''group_size'' then ''gs'' @ py_str v
      else if k = ''chunk_size'' then ''cs'' @ py_str v
      else if k = ''algorithm'' then py_str v
      else k @ ''_'' @ py_str v)"

fun join :: "string \<Rightarrow> string list \<Rightarrow> string" where
  "join sep [] = []"
| "join sep [s] = s"
| "join sep (s # t # ss) = s @ sep @ join sep (t # ss)"

definition get_run_name :: "scalar dict \<Rightarrow> exp_config \<Rightarrow> string" where
  "get_run_name combo cfg =
     (if combo = []
      then case run_name_opt cfg of
          Some n \<Rightarrow> n
        | None \<Rightarrow> if \<not> truthy (get_or (mma_emu cfg) ''enabled'' (SBool False)) then ''cutlass''
                  else ''emulated_'' @ py_str (get_or (mma_emu cfg) ''algorithm'' (SStr ''unknown''))
      else join ''_'' (map name_part combo))"

section \<open>Result files\<close>

text \<open>The metrics and samples of a task are opaque values.\<close>

datatype task_record = Task_Done string string "(string \<times> nat) list" int "nat option" | Task_Error string string

record run_result =
  rr_precision :: string
  rr_sweep_params :: "scalar dict"
  rr_tasks :: "task_record dict"
  rr_model :: string
  rr_run_name :: string
  rr_mma_emu :: "scalar dict"

datatype content = Result run_result | Samples "(string \<times> nat) list" | Unreadable

type_synonym files = "string \<rightharpoonup> content"

definition output_path :: "string \<Rightarrow> string" where
  "output_path run_name = run_name @ ''.json''"

definition samples_path :: "string \<Rightarrow> string" where
  "samples_path run_name = run_name @ ''_samples.json''"

datatype problem = No_Result | Unreadable_Result | Other_Precision | Other_Params | Missing "string list" | Failed "string list" | No_Samples

definition is_error :: "task_record \<Rightarrow> bool" where
  "is_error t = (case t of Task_Error _ _ \<Rightarrow> True | Task_Done _ _ _ _ _ \<Rightarrow> False)"

text \<open>Why an existing result cannot be reused; None if it is complete.\<close>

definition completed_result_status :: "string \<Rightarrow> exp_config \<Rightarrow> files \<Rightarrow> string \<Rightarrow> scalar dict \<Rightarrow> problem option" where
  "completed_result_status precision cfg fs run_name combo =
     (case fs (output_path run_name) of
        None \<Rightarrow> Some No_Result
      | Some Unreadable \<Rightarrow> Some Unreadable_Result
      | Some (Samples _) \<Rightarrow> Some Other_Precision
      | Some (Result r) \<Rightarrow>
          if rr_precision r \<noteq> precision then Some Other_Precision
          else if \<not> dict_eq (rr_sweep_params r) combo then Some Other_Params
          else let wanted = filter (\<lambda>k. resolve_task_config k \<noteq> None) (task_keys cfg);
                   missing = filter (\<lambda>k. map_of (rr_tasks r) k = None) wanted;
                   failed = filter (\<lambda>k. case map_of (rr_tasks r) k of None \<Rightarrow> False | Some t \<Rightarrow> is_error t) wanted
            in if missing \<noteq> [] then Some (Missing missing)
               else if failed \<noteq> [] then Some (Failed failed)
               else if log_samples cfg \<and> fs (samples_path run_name) = None then Some No_Samples
               else None)"

section \<open>Settings\<close>

text \<open>The environment stays changed when a later step raises.\<close>

definition then_env :: "unit result \<times> environ \<Rightarrow> (environ \<Rightarrow> unit result \<times> environ) \<Rightarrow> unit result \<times> environ" where
  "then_env m f = (case m of (Inl e, env) \<Rightarrow> (Inl e, env) | (Inr _, env) \<Rightarrow> f env)"

definition set_var :: "precision_config \<Rightarrow> string \<Rightarrow> string \<Rightarrow> environ \<Rightarrow> unit result \<times> environ" where
  "set_var pc k v env = (case env_vars pc k of None \<Rightarrow> (Inl KeyError, env) | Some name \<Rightarrow> (Inr (), env(name \<mapsto> v)))"

definition set_if :: "bool \<Rightarrow> precision_config \<Rightarrow> scalar dict \<Rightarrow> string \<Rightarrow> environ \<Rightarrow> unit result \<times> environ" where
  "set_if b pc emu k env =
     (case map_of emu k of None \<Rightarrow> (Inr (), env) | Some v \<Rightarrow> if b then set_var pc k (py_str v) env else (Inr (), env))"

definition export_mma_emu_to_env :: "precision_config \<Rightarrow> scalar dict \<Rightarrow> environ \<Rightarrow> unit result \<times> environ" where
  "export_mma_emu_to_env pc emu env =
     (let enabled = truthy (get_or emu ''enabled'' (SBool False)) in
      then_env (set_var pc ''enabled'' (if enabled then ''1'' else ''0'') env) (\<lambda>env1.
      if \<not> enabled then (Inr (), env1)
      else case map_of emu ''algorithm'' of
        None \<Rightarrow> (Inl ValueError, env1)
      | Some a \<Rightarrow>
          then_env (set_var pc ''algorithm'' (py_str a) env1) (\<lambda>env2.
          then_env (set_if (has_chunk_size pc) pc emu ''chunk_size'' env2) (\<lambda>env3.
          then_env (set_if True pc emu ''f_bits'' env3) (\<lambda>env4.
          then_env (set_if True pc emu ''g_bits'' env4) (\<lambda>env5.
            set_if (has_group_size pc) pc emu ''group_size'' env5))))))"

section \<open>Evaluation\<close>

record eval_request =
  rq_task :: string
  rq_fewshot :: int
  rq_limit :: "nat option"
  rq_log_samples :: bool
  rq_unsafe :: bool

record eval_results =
  er_results :: "string \<rightharpoonup> (string \<rightharpoonup> nat)"
  er_samples :: "(string \<rightharpoonup> nat) option"

text \<open>The evaluation harness: loading a model reads the environment and may raise; so may evaluating a
  task, with a message.\<close>

record 'lm harness =
  load_model :: "environ \<Rightarrow> vval dict \<Rightarrow> 'lm option"
  simple_evaluate :: "environ \<Rightarrow> 'lm \<Rightarrow> eval_request \<Rightarrow> string + eval_results"
  empty_samples :: nat

definition merge :: "'v dict \<Rightarrow> 'v dict \<Rightarrow> 'v dict" where
  "merge base over = fold (\<lambda>(k, v) d. AList.update k v d) over base"

definition build_vllm_kwargs :: "precision_config \<Rightarrow> string \<Rightarrow> vval dict \<Rightarrow> vval dict result" where
  "build_vllm_kwargs pc model config =
     bnd (map_res (\<lambda>k. bnd (lookup_py (map_of config) k) (\<lambda>v. Inr (k, v)))
            [''tensor_parallel_size'', ''gpu_memory_utilization'', ''max_model_len'', ''enforce_eager'', ''batch_size'']) (\<lambda>kvs.
     bnd (if has_kv_cache_dtype pc then bnd (lookup_py (map_of config) ''kv_cache_dtype'') (\<lambda>v. Inr [(''kv_cache_dtype'', v)]) else Inr []) (\<lambda>kv.
       Inr ([(''pretrained'', VStr model), (''dtype'', VStr ''auto'')] @ kvs @ [(''seed'', VInt 42)] @ kv
            @ (case map_of config ''max_num_seqs'' of None \<Rightarrow> [] | Some v \<Rightarrow> if v = VNone then [] else [(''max_num_seqs'', v)]))))"

definition metric_key :: "string \<Rightarrow> string" where
  "metric_key m = (if CHR '','' \<in> set m then m else m @ '',none'')"

definition metric_name :: "string \<Rightarrow> string" where
  "metric_name m = takeWhile (\<lambda>c. c \<noteq> CHR '','') m"

definition collect_task_metrics :: "string list \<Rightarrow> (string \<rightharpoonup> nat) \<Rightarrow> (string \<times> nat) list" where
  "collect_task_metrics ms results =
     fold (\<lambda>m d. case results (metric_key m) of None \<Rightarrow> d | Some v \<Rightarrow> AList.update (metric_name m) v d) ms []"

definition evaluate_task :: "'lm harness \<Rightarrow> 'lm \<Rightarrow> string \<Rightarrow> int \<Rightarrow> bool \<Rightarrow> environ \<Rightarrow> task_record option \<times> environ" where
  "evaluate_task h lm key fewshot logs env =
     (case resolve_task_config key of
        None \<Rightarrow> (None, env)
      | Some t \<Rightarrow>
          let shots = (case num_fewshot t of None \<Rightarrow> fewshot | Some n \<Rightarrow> n);
              env1 = env(''HF_ALLOW_CODE_EVAL'' := (if unsafe_code t then Some ''1'' else None))
          in case simple_evaluate h env1 lm \<lparr>rq_task = task_name t, rq_fewshot = shots, rq_limit = limit t, rq_log_samples = logs,
                     rq_unsafe = unsafe_code t\<rparr> of
               Inl msg \<Rightarrow> (Some (Task_Error (task_name t) msg), env1)
             | Inr er \<Rightarrow>
                 let ms = collect_task_metrics (metrics t) (case er_results er (task_name t) of None \<Rightarrow> Map.empty | Some m \<Rightarrow> m);
                     sam = (if logs then map_option (\<lambda>m. case m (task_name t) of None \<Rightarrow> empty_samples h | Some x \<Rightarrow> x) (er_samples er) else None)
                 in (Some (Task_Done (task_name t) (short_name t) ms shots sam), env1))"

fun evaluate_tasks :: "'lm harness \<Rightarrow> 'lm \<Rightarrow> bool \<Rightarrow> string list \<Rightarrow> task_record dict \<Rightarrow> environ \<Rightarrow> task_record dict \<times> environ" where
  "evaluate_tasks h lm logs [] d env = (d, env)"
| "evaluate_tasks h lm logs (k # ks) d env =
     (let (r, env1) = evaluate_task h lm k 0 logs env
      in evaluate_tasks h lm logs ks (case r of None \<Rightarrow> d | Some t \<Rightarrow> AList.update k t d) env1)"

text \<open>None stands for an exception.\<close>

definition run_benchmark :: "'lm harness \<Rightarrow> precision_config \<Rightarrow> string \<Rightarrow> string list \<Rightarrow> vval dict \<Rightarrow> bool \<Rightarrow> environ
    \<Rightarrow> task_record dict option \<times> environ" where
  "run_benchmark h pc model keys over logs env =
     (case build_vllm_kwargs pc model (merge VLLM_CONFIG over) of
        Inl _ \<Rightarrow> (None, env)
      | Inr kwargs \<Rightarrow>
          (case load_model h env kwargs of
             None \<Rightarrow> (None, env)
           | Some lm \<Rightarrow> let (d, env1) = evaluate_tasks h lm logs keys [] env in (Some d, env1)))"

section \<open>Writing results\<close>

datatype file_op = Write string content | Rename string string

fun do_op :: "file_op \<Rightarrow> files \<Rightarrow> files" where
  "do_op (Write p c) fs = fs(p \<mapsto> c)"
| "do_op (Rename p q) fs = (fs(q := fs p))(p := None)"

text \<open>A temporary file is opened, written, and renamed over the result.\<close>

definition write_json_atomic :: "string \<Rightarrow> content \<Rightarrow> file_op list" where
  "write_json_atomic p c = [Write (p @ ''.tmp'') Unreadable, Write (p @ ''.tmp'') c, Rename (p @ ''.tmp'') p]"

definition strip_samples :: "task_record \<Rightarrow> task_record" where
  "strip_samples t = (case t of Task_Done n s ms f _ \<Rightarrow> Task_Done n s ms f None | Task_Error n e \<Rightarrow> Task_Error n e)"

definition samples_data :: "task_record dict \<Rightarrow> (string \<times> nat) list" where
  "samples_data d = concat (map (\<lambda>(k, t). case t of Task_Done _ _ _ _ (Some x) \<Rightarrow> [(k, x)] | _ \<Rightarrow> []) d)"

definition save_ops :: "bool \<Rightarrow> string \<Rightarrow> run_result \<Rightarrow> file_op list" where
  "save_ops logs run_name r =
     (if logs
      then (if samples_data (rr_tasks r) = [] then [] else write_json_atomic (samples_path run_name) (Samples (samples_data (rr_tasks r))))
           @ write_json_atomic (output_path run_name) (Result (r\<lparr>rr_tasks := map (\<lambda>(k, t). (k, strip_samples t)) (rr_tasks r)\<rparr>))
      else write_json_atomic (output_path run_name) (Result r))"

section \<open>Runs\<close>

text \<open>The result of a run: an exception, False, or True.\<close>

definition run_single_combination :: "'lm harness \<Rightarrow> string \<Rightarrow> precision_config \<Rightarrow> exp_config \<Rightarrow> scalar dict \<Rightarrow> string \<Rightarrow> environ \<times> files
    \<Rightarrow> bool result \<times> environ \<times> files" where
  "run_single_combination h precision pc cfg combo run_name st =
     (let (env, fs) = st; emu = merge (mma_emu cfg) combo; (ok, env1) = export_mma_emu_to_env pc emu env in
      case ok of
        Inl e \<Rightarrow> (Inl e, env1, fs)
      | Inr _ \<Rightarrow>
          let model = (case eval_model cfg of None \<Rightarrow> default_model pc | Some m \<Rightarrow> m);
              (d, env2) = run_benchmark h pc model (task_keys cfg) (vllm cfg) (log_samples cfg) env1
          in case d of
               None \<Rightarrow> (Inr False, env2, fs)
             | Some d \<Rightarrow>
                 let r = \<lparr>rr_precision = precision, rr_sweep_params = combo, rr_tasks = d, rr_model = model, rr_run_name = run_name, rr_mma_emu = emu\<rparr>
                 in (Inr True, env2, fold do_op (save_ops (log_samples cfg) run_name r) fs))"

datatype run_status = OK | FAILED | SKIPPED

definition run_one :: "'lm harness \<Rightarrow> string \<Rightarrow> precision_config \<Rightarrow> exp_config \<Rightarrow> scalar dict \<times> string \<times> bool \<Rightarrow> environ \<times> files
    \<Rightarrow> run_status \<times> environ \<times> files" where
  "run_one h precision pc cfg job st =
     (let (combo, run_name, skip) = job in
      if skip then (SKIPPED, st)
      else let (res, env1, fs1) = run_single_combination h precision pc cfg combo run_name st in
        case res of
          Inl _ \<Rightarrow> (FAILED, env1, fs1)
        | Inr ok \<Rightarrow> (if ok \<and> completed_result_status precision cfg fs1 run_name combo = None then OK else FAILED, env1, fs1))"

fun run_all :: "'lm harness \<Rightarrow> string \<Rightarrow> precision_config \<Rightarrow> exp_config \<Rightarrow> (scalar dict \<times> string \<times> bool) list \<Rightarrow> environ \<times> files
    \<Rightarrow> run_status list \<times> environ \<times> files" where
  "run_all h precision pc cfg [] st = ([], st)"
| "run_all h precision pc cfg (j # js) st =
     (let (s, st1) = run_one h precision pc cfg j st; (ss, st2) = run_all h precision pc cfg js st1 in (s # ss, st2))"

definition plan :: "string \<Rightarrow> exp_config \<Rightarrow> bool \<Rightarrow> files \<Rightarrow> (scalar dict \<times> string \<times> bool) list" where
  "plan precision cfg overwrite fs =
     map (\<lambda>combo. let n = get_run_name combo cfg
                  in (combo, n, \<not> overwrite \<and> completed_result_status precision cfg fs n combo = None))
       (generate_sweep_combinations cfg)"

text \<open>The whole program; the result includes the exit status.\<close>

definition run_experiment :: "'lm harness \<Rightarrow> string \<Rightarrow> precision_config \<Rightarrow> exp_config \<Rightarrow> bool \<Rightarrow> environ \<times> files
    \<Rightarrow> nat \<times> run_status list \<times> environ \<times> files" where
  "run_experiment h precision pc cfg overwrite st =
     (let (ss, st1) = run_all h precision pc cfg (plan precision cfg overwrite (snd st)) st
      in (if FAILED \<in> set ss then 1 else 0, ss, st1))"

section \<open>Frames\<close>

definition paths_of :: "string \<Rightarrow> string set" where
  "paths_of n = {output_path n, samples_path n, output_path n @ ''.tmp'', samples_path n @ ''.tmp''}"

definition same_files :: "string set \<Rightarrow> files \<Rightarrow> files \<Rightarrow> bool" where
  "same_files P fs fs' \<longleftrightarrow> (\<forall>p. p \<notin> P \<longrightarrow> fs' p = fs p)"

lemma write_json_atomic_fold: "fold do_op (write_json_atomic p c) fs = (fs(p \<mapsto> c))(p @ ''.tmp'' := None)"
  by (auto simp: write_json_atomic_def fun_eq_iff)

lemma suffix_neq [simp]:
  "output_path n \<noteq> m @ ''.tmp''" "samples_path n \<noteq> m @ ''.tmp''" "output_path n \<noteq> samples_path n"
  "output_path n = output_path m \<longleftrightarrow> n = m" "samples_path n = samples_path m \<longleftrightarrow> n = m"
proof -
  have "rev (output_path n) \<noteq> rev (m @ ''.tmp'')" "rev (samples_path n) \<noteq> rev (m @ ''.tmp'')"
    by (simp_all add: output_path_def samples_path_def)
  then show "output_path n \<noteq> m @ ''.tmp''" "samples_path n \<noteq> m @ ''.tmp''" by auto
qed (auto simp: output_path_def samples_path_def)

lemma save_ops_frame: "same_files (paths_of n) fs (fold do_op (save_ops logs n r) fs)"
  by (auto simp: same_files_def save_ops_def paths_of_def write_json_atomic_fold Let_def)

lemma run_single_frame:
  assumes "run_single_combination h precision pc cfg combo n (env, fs) = (res, env', fs')"
  shows "same_files (paths_of n) fs fs'"
proof -
  have "fs' = fs \<or> (\<exists>logs r. fs' = fold do_op (save_ops logs n r) fs)"
    using assms by (auto simp: run_single_combination_def Let_def split: prod.splits sum.splits option.splits)
  then show ?thesis using save_ops_frame by (auto simp: same_files_def)
qed

lemma run_one_frame:
  assumes "run_one h precision pc cfg (combo, n, skip) (env, fs) = (s, env', fs')"
  shows "same_files (paths_of n) fs fs'"
proof -
  have "fs' = fs \<or> (\<exists>res env1. run_single_combination h precision pc cfg combo n (env, fs) = (res, env1, fs'))"
    using assms by (auto simp: run_one_def split: if_splits prod.splits sum.splits)
  then show ?thesis
  proof
    assume "fs' = fs"
    then show ?thesis by (simp add: same_files_def)
  next
    assume "\<exists>res env1. run_single_combination h precision pc cfg combo n (env, fs) = (res, env1, fs')"
    then show ?thesis using run_single_frame by blast
  qed
qed

text \<open>Whether a result is complete depends on two files only.\<close>

lemma status_frame:
  assumes "same_files P fs fs'" "output_path n \<notin> P" "samples_path n \<notin> P"
  shows "completed_result_status precision cfg fs' n combo = completed_result_status precision cfg fs n combo"
proof -
  have "fs' (output_path n) = fs (output_path n)" "fs' (samples_path n) = fs (samples_path n)"
    using assms by (simp_all add: same_files_def)
  then show ?thesis by (simp only: completed_result_status_def)
qed

text \<open>No run writes the files of another.\<close>

definition separate :: "string list \<Rightarrow> bool" where
  "separate names \<longleftrightarrow> distinct names \<and> (\<forall>n\<in>set names. \<forall>m\<in>set names. m \<noteq> n @ ''_samples'')"

lemma samples_is_output: "samples_path n = output_path m \<longleftrightarrow> m = n @ ''_samples''"
  by (auto simp: samples_path_def output_path_def)

lemma separate_paths:
  assumes "separate names" "n \<in> set names" "m \<in> set names" "n \<noteq> m"
  shows "output_path m \<notin> paths_of n" "samples_path m \<notin> paths_of n"
  using assms samples_is_output[of n m] samples_is_output[of m n] by (auto simp: separate_def paths_of_def)

lemma run_all_complete:
  assumes "run_all h precision pc cfg jobs (env, fs) = (ss, env', fs')" "FAILED \<notin> set ss"
    and "separate (map (\<lambda>(_, n, _). n) jobs)"
    and "\<forall>(combo, n, skip)\<in>set jobs. skip \<longrightarrow> completed_result_status precision cfg fs n combo = None"
  shows "(\<forall>(combo, n, skip)\<in>set jobs. completed_result_status precision cfg fs' n combo = None)
    \<and> same_files (\<Union>(_, n, _)\<in>set jobs. paths_of n) fs fs'"
  using assms
proof (induction jobs arbitrary: env fs ss)
  case Nil
  then show ?case by (simp add: same_files_def)
next
  case (Cons j jobs)
  obtain combo n skip where j: "j = (combo, n, skip)" by (cases j) auto
  obtain s env1 fs1 ss' where one: "run_one h precision pc cfg (combo, n, skip) (env, fs) = (s, env1, fs1)"
    and all: "run_all h precision pc cfg jobs (env1, fs1) = (ss', env', fs')" and ss: "ss = s # ss'"
    using Cons.prems(1) by (auto simp: j split: prod.splits)
  have sep: "separate (map (\<lambda>(_, n, _). n) jobs)" using Cons.prems(3) by (auto simp: separate_def j)
  note fr = run_one_frame[OF one]
  have other: "completed_result_status precision cfg fs1 m c = completed_result_status precision cfg fs m c" if "(c, m, b) \<in> set jobs" for c m b
  proof (rule status_frame[OF fr])
    have m: "m \<in> set (map (\<lambda>(_, n, _). n) (j # jobs))" "n \<in> set (map (\<lambda>(_, n, _). n) (j # jobs))" "n \<noteq> m"
      using that Cons.prems(3) by (force simp: separate_def j)+
    from separate_paths[OF Cons.prems(3) m(2,1,3)] show "output_path m \<notin> paths_of n" "samples_path m \<notin> paths_of n" .
  qed
  have "\<forall>(c, m, b)\<in>set jobs. b \<longrightarrow> completed_result_status precision cfg fs1 m c = None" using Cons.prems(4) other by fastforce
  from Cons.IH[OF all _ sep this] Cons.prems(2) ss
  have IH: "\<forall>(c, m, b)\<in>set jobs. completed_result_status precision cfg fs' m c = None"
    "same_files (\<Union>(_, n, _)\<in>set jobs. paths_of n) fs1 fs'" by auto
  have "completed_result_status precision cfg fs1 n combo = None"
    using one Cons.prems(2,4) ss by (auto simp: run_one_def j split: if_splits prod.splits sum.splits)
  moreover have "completed_result_status precision cfg fs' n combo = completed_result_status precision cfg fs1 n combo"
  proof (rule status_frame[OF IH(2)])
    have "output_path n \<notin> paths_of m \<and> samples_path n \<notin> paths_of m" if "(c, m, b) \<in> set jobs" for c m b
    proof -
      have m: "m \<in> set (map (\<lambda>(_, n, _). n) (j # jobs))" "n \<in> set (map (\<lambda>(_, n, _). n) (j # jobs))" "m \<noteq> n"
        using that Cons.prems(3) by (force simp: separate_def j)+
      from separate_paths[OF Cons.prems(3) m] show ?thesis by blast
    qed
    then show "output_path n \<notin> (\<Union>(_, n, _)\<in>set jobs. paths_of n)" "samples_path n \<notin> (\<Union>(_, n, _)\<in>set jobs. paths_of n)" by auto
  qed
  moreover have "same_files (\<Union>(_, n, _)\<in>set (j # jobs). paths_of n) fs fs'"
    using fr IH(2) by (auto simp: same_files_def j)
  ultimately show ?case using IH(1) by (auto simp: j)
qed


section \<open>Properties\<close>

text \<open>C8: A sweep that ends without a failed run is complete: running the experiment again, in any
  environment and with any harness, skips every combination, changes no file and exits with 0,
  provided that no two combinations share a result or samples file.\<close>

theorem completed_sweep_is_skipped:
  assumes "run_experiment h precision pc cfg overwrite (env, fs) = (0, ss, env1, fs1)"
    and "separate (map (\<lambda>combo. get_run_name combo cfg) (generate_sweep_combinations cfg))"
  shows "run_experiment h' precision pc cfg False (env', fs1)
    = (0, replicate (length (generate_sweep_combinations cfg)) SKIPPED, env', fs1)"
proof -
  let ?jobs = "plan precision cfg overwrite fs"
  have run: "run_all h precision pc cfg ?jobs (env, fs) = (ss, env1, fs1)" "FAILED \<notin> set ss"
    using assms(1) by (auto simp: run_experiment_def split: prod.splits if_splits)
  have "separate (map (\<lambda>(_, n, _). n) ?jobs)" using assms(2) by (simp add: plan_def Let_def comp_def)
  moreover have "\<forall>(combo, n, skip)\<in>set ?jobs. skip \<longrightarrow> completed_result_status precision cfg fs n combo = None"
    by (auto simp: plan_def Let_def)
  ultimately have fin: "\<forall>(combo, n, skip)\<in>set ?jobs. completed_result_status precision cfg fs1 n combo = None"
    using run_all_complete[OF run] by blast
  have "plan precision cfg False fs1 = map (\<lambda>combo. (combo, get_run_name combo cfg, True)) (generate_sweep_combinations cfg)"
    using fin by (auto simp: plan_def Let_def)
  moreover have "run_all h' precision pc cfg (map (\<lambda>combo. (combo, get_run_name combo cfg, True)) cs) (env', fs1)
      = (replicate (length cs) SKIPPED, env', fs1)" for cs
    by (induction cs) (auto simp: run_one_def)
  ultimately show ?thesis by (simp add: run_experiment_def)
qed

text \<open>C37: When a run is cut short while it saves its results, at any of its file operations, its result
  file is the one from before or the whole save is done; the result file is never a partial one, the
  samples are in place before it, and no file of another run has changed.\<close>

theorem saving_is_atomic:
  assumes "fs' = fold do_op (take k (save_ops logs n r)) fs"
  shows "(fs' (output_path n) = fs (output_path n) \<or> fs' = fold do_op (save_ops logs n r) fs)
    \<and> same_files (paths_of n) fs fs'
    \<and> (fs' (output_path n) \<noteq> fs (output_path n) \<longrightarrow> (\<exists>r'. fs' (output_path n) = Some (Result r') \<and> rr_sweep_params r' = rr_sweep_params r)
         \<and> (logs \<and> samples_data (rr_tasks r) \<noteq> [] \<longrightarrow> fs' (samples_path n) = Some (Samples (samples_data (rr_tasks r)))))"
proof -
  have tk: "take k (a # b # c # xs) = (if k = 0 then [] else if k = 1 then [a] else if k = 2 then [a, b] else a # b # c # take (k - 3) xs)" for a b c :: file_op and xs k
    by (cases k; cases "k - 1"; cases "k - 2") (auto simp: numeral_3_eq_3 numeral_2_eq_2)
  show ?thesis
    unfolding assms save_ops_def
    by (auto simp: write_json_atomic_def tk same_files_def paths_of_def Let_def suffix_neq(3)[symmetric])
qed

text \<open>What a number of the emulation comes from: the configuration of the run if it sets the number,
  otherwise the variable of the process environment, otherwise the default of the engine.\<close>

definition effective_number :: "scalar dict \<Rightarrow> environ \<Rightarrow> string \<Rightarrow> string \<Rightarrow> string \<Rightarrow> int result" where
  "effective_number emu env0 k var d =
     (case map_of emu k of
        None \<Rightarrow> env_int env0 var d
      | Some (SInt v) \<Rightarrow> Inr v
      | Some v \<Rightarrow> int_of_str (py_str v))"

text \<open>The value of a variable after the export of a setting.\<close>

definition exported_var :: "scalar dict \<Rightarrow> string \<Rightarrow> string option \<Rightarrow> string option" where
  "exported_var emu k old = (case map_of emu k of None \<Rightarrow> old | Some v \<Rightarrow> Some (py_str v))"

lemma effective_number_exported:
  assumes "env var = exported_var emu k (env0 var)"
  shows "env_int env var d = effective_number emu env0 k var d"
  using assms by (auto simp: exported_var_def effective_number_def env_int_def getenv_def split: option.splits scalar.splits)

lemma set_if_named:
  assumes "env_vars pc k = Some name"
  shows "set_if True pc emu k env = (Inr (), env(name := exported_var emu k (env name)))"
  using assms by (auto simp: set_if_def set_var_def exported_var_def split: option.splits)

text \<open>The variables the runner leaves for an FP8 emulation.\<close>

lemma fp8_export_vars:
  assumes "map_of PRECISION_CONFIG ''fp8'' = Some pc" "export_mma_emu_to_env pc emu env0 = (Inr (), env)"
    and "truthy (get_or emu ''enabled'' (SBool False))" "map_of emu ''algorithm'' = Some a"
  shows "env ''VLLM_USE_MMAEMU_GEMM_FP8'' = Some ''1''" "env ''VLLM_MMAEMU_FP8_ALGORITHM'' = Some (py_str a)"
    "env ''VLLM_MMAEMU_FP8_F_BITS'' = exported_var emu ''f_bits'' (env0 ''VLLM_MMAEMU_FP8_F_BITS'')"
    "env ''VLLM_MMAEMU_FP8_G_BITS'' = exported_var emu ''g_bits'' (env0 ''VLLM_MMAEMU_FP8_G_BITS'')"
    "env ''VLLM_MMAEMU_FP8_GROUP_SIZE'' = exported_var emu ''group_size'' (env0 ''VLLM_MMAEMU_FP8_GROUP_SIZE'')"
    "env ''VLLM_MMAEMU_FP8_CHUNK_SIZE'' = exported_var emu ''chunk_size'' (env0 ''VLLM_MMAEMU_FP8_CHUNK_SIZE'')"
proof -
  have v: "env_vars pc ''enabled'' = Some ''VLLM_USE_MMAEMU_GEMM_FP8''" "env_vars pc ''algorithm'' = Some ''VLLM_MMAEMU_FP8_ALGORITHM''"
    "env_vars pc ''f_bits'' = Some ''VLLM_MMAEMU_FP8_F_BITS''" "env_vars pc ''g_bits'' = Some ''VLLM_MMAEMU_FP8_G_BITS''"
    "env_vars pc ''group_size'' = Some ''VLLM_MMAEMU_FP8_GROUP_SIZE''" "env_vars pc ''chunk_size'' = Some ''VLLM_MMAEMU_FP8_CHUNK_SIZE''"
    "has_chunk_size pc" "has_group_size pc" using assms(1) by (auto simp: PRECISION_CONFIG_def)
  have "env = snd (export_mma_emu_to_env pc emu env0)" using assms(2) by simp
  also have "\<dots> = env0(''VLLM_USE_MMAEMU_GEMM_FP8'' \<mapsto> ''1'', ''VLLM_MMAEMU_FP8_ALGORITHM'' \<mapsto> py_str a,
      ''VLLM_MMAEMU_FP8_CHUNK_SIZE'' := exported_var emu ''chunk_size'' (env0 ''VLLM_MMAEMU_FP8_CHUNK_SIZE''),
      ''VLLM_MMAEMU_FP8_F_BITS'' := exported_var emu ''f_bits'' (env0 ''VLLM_MMAEMU_FP8_F_BITS''),
      ''VLLM_MMAEMU_FP8_G_BITS'' := exported_var emu ''g_bits'' (env0 ''VLLM_MMAEMU_FP8_G_BITS''),
      ''VLLM_MMAEMU_FP8_GROUP_SIZE'' := exported_var emu ''group_size'' (env0 ''VLLM_MMAEMU_FP8_GROUP_SIZE''))"
    using assms(3,4) v by (simp add: export_mma_emu_to_env_def then_env_def set_if_named set_var_def)
  finally have env: "env = \<dots>" .
  show "env ''VLLM_USE_MMAEMU_GEMM_FP8'' = Some ''1''" "env ''VLLM_MMAEMU_FP8_ALGORITHM'' = Some (py_str a)"
    "env ''VLLM_MMAEMU_FP8_F_BITS'' = exported_var emu ''f_bits'' (env0 ''VLLM_MMAEMU_FP8_F_BITS'')"
    "env ''VLLM_MMAEMU_FP8_G_BITS'' = exported_var emu ''g_bits'' (env0 ''VLLM_MMAEMU_FP8_G_BITS'')"
    "env ''VLLM_MMAEMU_FP8_GROUP_SIZE'' = exported_var emu ''group_size'' (env0 ''VLLM_MMAEMU_FP8_GROUP_SIZE'')"
    "env ''VLLM_MMAEMU_FP8_CHUNK_SIZE'' = exported_var emu ''chunk_size'' (env0 ''VLLM_MMAEMU_FP8_CHUNK_SIZE'')"
    unfolding env by simp_all
qed

text \<open>C7: The settings of an experiment reach the kernel. A layer that is built in the environment the
  runner exports for an FP8 emulation launches the emulation with the algorithm of the configuration.
  Each of the four numbers (\<^verbatim>\<open>f_bits\<close>, \<^verbatim>\<open>g_bits\<close>, \<^verbatim>\<open>group_size\<close>, \<^verbatim>\<open>chunk_size\<close>) is the one of the
  configuration if the configuration sets it; a number it does not set is the one the environment held
  before the export, and the default of the engine only if that was unset. The environment can
  therefore change a run only through numbers that its configuration leaves out.\<close>

theorem experiment_settings_reach_kernel:
  assumes "map_of PRECISION_CONFIG ''fp8'' = Some pc" "export_mma_emu_to_env pc emu env0 = (Inr (), env)"
    and "truthy (get_or emu ''enabled'' (SBool False))" "map_of emu ''algorithm'' = Some a"
    and "fp8_linear_init pf env low pad = Inr lin"
    and "fp8_linear_apply pf env' quant_fp8 lin input w ws out_dtype input_scale ub bias = Inr (op, sh)"
  shows "\<exists>call f g gs cs. op = Emulated call \<and> fp8_algorithm_map (lower (py_str a)) = Some (algo_val call)
    \<and> call_params call = [f, g, gs, cs]
    \<and> effective_number emu env0 ''f_bits'' ''VLLM_MMAEMU_FP8_F_BITS'' ''25'' = Inr f
    \<and> effective_number emu env0 ''g_bits'' ''VLLM_MMAEMU_FP8_G_BITS'' ''32'' = Inr g
    \<and> effective_number emu env0 ''group_size'' ''VLLM_MMAEMU_FP8_GROUP_SIZE'' ''16'' = Inr gs
    \<and> effective_number emu env0 ''chunk_size'' ''VLLM_MMAEMU_FP8_CHUNK_SIZE'' ''32'' = Inr cs"
proof -
  note env = fp8_export_vars[OF assms(1-4)]
  have u: "use_fp8 env = Inr True" by (simp add: use_fp8_def env_flag_def env_int_def getenv_def env(1) int_of_str_demo)
  have f: "env_int env ''VLLM_MMAEMU_FP8_F_BITS'' ''25'' = effective_number emu env0 ''f_bits'' ''VLLM_MMAEMU_FP8_F_BITS'' ''25''"
    by (rule effective_number_exported) (rule env(3))
  have g: "env_int env ''VLLM_MMAEMU_FP8_G_BITS'' ''32'' = effective_number emu env0 ''g_bits'' ''VLLM_MMAEMU_FP8_G_BITS'' ''32''"
    by (rule effective_number_exported) (rule env(4))
  have gs: "env_int env ''VLLM_MMAEMU_FP8_GROUP_SIZE'' ''16'' = effective_number emu env0 ''group_size'' ''VLLM_MMAEMU_FP8_GROUP_SIZE'' ''16''"
    by (rule effective_number_exported) (rule env(5))
  have cs: "env_int env ''VLLM_MMAEMU_FP8_CHUNK_SIZE'' ''32'' = effective_number emu env0 ''chunk_size'' ''VLLM_MMAEMU_FP8_CHUNK_SIZE'' ''32''"
    by (rule effective_number_exported) (rule env(6))
  obtain call p where l: "op = Emulated call" "fp8_env env = Inr p" "fp8_algorithm_map (lower (algorithm p)) = Some (algo_val call)"
    "call_params call = [f_bits p, g_bits p, group_size p, chunk_size p]"
    using fp8_layer_runs[OF assms(5) u assms(6)] by auto
  have "algorithm p = py_str a" using l(2) by (auto simp: fp8_env_def getenv_def env(2))
  with l show ?thesis by (auto simp: fp8_env_def f g gs cs)
qed

section \<open>Instances\<close>

definition demo_config :: exp_config where
  "demo_config = \<lparr>sweep = [(''f_bits'', Many [SInt 25, SInt 3])], run_name_opt = None,
     mma_emu = [(''enabled'', SBool True), (''algorithm'', SStr ''cofda''), (''chunk_size'', SInt 32)],
     eval_tasks = None, eval_model = None, log_samples = False, vllm = []\<rparr>"

definition demo_harness :: "unit harness" where
  "demo_harness = \<lparr>load_model = (\<lambda>_ _. Some ()), simple_evaluate = (\<lambda>_ _ _. Inr \<lparr>er_results = Map.empty, er_samples = None\<rparr>), empty_samples = 0\<rparr>"

definition fp8_config :: precision_config where
  "fp8_config = snd (PRECISION_CONFIG ! 0)"

lemma demo_sweep: "generate_sweep_combinations demo_config = [[(''f_bits'', SInt 25)], [(''f_bits'', SInt 3)]]"
  by (simp add: generate_sweep_combinations_def demo_config_def)

lemma demo_names: "get_run_name [(''f_bits'', SInt 25)] demo_config = ''f25''" "get_run_name [(''f_bits'', SInt 3)] demo_config = ''f3''"
  by (simp_all add: get_run_name_def name_part_def str_int_def str_nat.simps digit_char_def)

lemma demo_task: "resolve_task_config ''wikitext'' \<noteq> None"
  by (simp add: resolve_task_config_def TASKS_def mk_task_def)

lemma demo_tasks: "task_keys demo_config = [''wikitext'']"
  by (simp add: task_keys_def demo_config_def)

lemma demo_evaluate:
  "\<exists>t env'. evaluate_tasks demo_harness () False [''wikitext''] [] env = ([(''wikitext'', t)], env') \<and> \<not> is_error t"
  by (simp add: evaluate_task_def resolve_task_config_def TASKS_def mk_task_def demo_harness_def is_error_def)

lemma fp8_config_simps:
  "map_of PRECISION_CONFIG ''fp8'' = Some fp8_config" "has_kv_cache_dtype fp8_config" "env_vars fp8_config = env_vars (snd (PRECISION_CONFIG ! 0))"
  "has_chunk_size fp8_config" "has_group_size fp8_config"
  by (simp_all add: fp8_config_def PRECISION_CONFIG_def)

lemma demo_export:
  "\<exists>env'. export_mma_emu_to_env fp8_config (merge (mma_emu demo_config) [(''f_bits'', SInt n)]) env = (Inr (), env')"
  by (simp add: export_mma_emu_to_env_def merge_def demo_config_def then_env_def set_var_def set_if_def fp8_config_def PRECISION_CONFIG_def get_or_def)

lemma demo_run:
  assumes "combo = [(''f_bits'', SInt n)]"
  shows "\<exists>env' fs'. run_one demo_harness ''fp8'' fp8_config demo_config (combo, nm, False) (env, fs) = (OK, env', fs')"
proof -
  obtain env1 where e: "export_mma_emu_to_env fp8_config (merge (mma_emu demo_config) combo) env = (Inr (), env1)"
    using demo_export assms by blast
  obtain t env2 where t: "evaluate_tasks demo_harness () False [''wikitext''] [] env1 = ([(''wikitext'', t)], env2)" "\<not> is_error t"
    using demo_evaluate by blast
  have b: "\<exists>kw. build_vllm_kwargs fp8_config m (merge VLLM_CONFIG (vllm demo_config)) = Inr kw" for m
    by (simp add: build_vllm_kwargs_def merge_def demo_config_def VLLM_CONFIG_def fp8_config_simps lookup_py_def)
  have r: "run_benchmark demo_harness fp8_config m [''wikitext''] (vllm demo_config) False env1 = (Some [(''wikitext'', t)], env2)" for m
    using b[of m] t(1) by (auto simp: run_benchmark_def) (simp add: demo_harness_def)
  have s: "\<not> log_samples demo_config" by (simp add: demo_config_def)
  show ?thesis
    using e r s t(2) demo_task
    by (auto simp: run_one_def run_single_combination_def demo_tasks save_ops_def write_json_atomic_fold completed_result_status_def
        Let_def dict_eq_def assms split: option.splits)
qed

theorem completed_sweep_is_skipped_witness:
  "\<exists>env1 fs1. run_experiment demo_harness ''fp8'' fp8_config demo_config False (Map.empty, Map.empty) = (0, [OK, OK], env1, fs1)
    \<and> run_experiment demo_harness ''fp8'' fp8_config demo_config False (Map.empty, fs1) = (0, [SKIPPED, SKIPPED], Map.empty, fs1)"
proof -
  have plan: "plan ''fp8'' demo_config False Map.empty = [([(''f_bits'', SInt 25)], ''f25'', False), ([(''f_bits'', SInt 3)], ''f3'', False)]"
    by (simp add: plan_def demo_sweep demo_names completed_result_status_def)
  obtain env1 fs1 where r1: "run_one demo_harness ''fp8'' fp8_config demo_config ([(''f_bits'', SInt 25)], ''f25'', False) (Map.empty, Map.empty) = (OK, env1, fs1)"
    using demo_run by blast
  obtain env2 fs2 where r2: "run_one demo_harness ''fp8'' fp8_config demo_config ([(''f_bits'', SInt 3)], ''f3'', False) (env1, fs1) = (OK, env2, fs2)"
    using demo_run by blast
  have e: "run_experiment demo_harness ''fp8'' fp8_config demo_config False (Map.empty, Map.empty) = (0, [OK, OK], env2, fs2)"
    by (simp add: run_experiment_def plan r1 r2)
  have s: "separate (map (\<lambda>combo. get_run_name combo demo_config) (generate_sweep_combinations demo_config))"
    by (simp add: demo_sweep demo_names separate_def)
  from completed_sweep_is_skipped[OF e s, of demo_harness Map.empty] e show ?thesis by (auto simp: demo_sweep numeral_2_eq_2)
qed

theorem saving_is_atomic_witness:
  "\<exists>fs'. fs' = fold do_op (take 2 (save_ops False ''f25'' \<lparr>rr_precision = ''fp8'', rr_sweep_params = [], rr_tasks = [], rr_model = [], rr_run_name = ''f25'', rr_mma_emu = []\<rparr>)) Map.empty
    \<and> fs' (output_path ''f25'') = None \<and> fs' \<noteq> Map.empty"
proof -
  let ?r = "\<lparr>rr_precision = ''fp8'', rr_sweep_params = [], rr_tasks = [], rr_model = [], rr_run_name = ''f25'', rr_mma_emu = []\<rparr>"
  let ?fs = "fold do_op (take 2 (save_ops False ''f25'' ?r)) Map.empty"
  have a: "?fs (output_path ''f25'' @ ''.tmp'') = Some (Result ?r)" by (simp add: save_ops_def write_json_atomic_def numeral_2_eq_2)
  have "fold do_op (save_ops False ''f25'' ?r) Map.empty (output_path ''f25'' @ ''.tmp'') = None"
    by (simp add: save_ops_def write_json_atomic_fold)
  with a have "?fs \<noteq> fold do_op (save_ops False ''f25'' ?r) Map.empty" by (metis option.distinct(1))
  with saving_is_atomic[of ?fs 2 False "''f25''" ?r Map.empty] have "?fs (output_path ''f25'') = None" by auto
  with a show ?thesis by (metis option.distinct(1))
qed

text \<open>A design point of the FP8 sweep, which sets the algorithm, the chunk size and the mantissa bits, in
  an environment with a stale group size.\<close>

theorem experiment_settings_reach_kernel_witness:
  "\<exists>env lin call. export_mma_emu_to_env fp8_config [(''enabled'', SBool True), (''algorithm'', SStr ''cofda''), (''chunk_size'', SInt 32), (''f_bits'', SInt 13)]
        [''VLLM_MMAEMU_FP8_GROUP_SIZE'' \<mapsto> str_int 8] = (Inr (), env)
    \<and> fp8_linear_init demo_platform env True None = Inr lin
    \<and> fp8_linear_apply demo_platform env (\<lambda>_ t s _. (t, demo_tensor [] ''float32'')) lin (demo_tensor [2, 4, 8] ''bfloat16'')
        (demo_tensor [8, 16] ''float8_e4m3fn'') (demo_tensor [1] ''float32'') None None None None = Inr (Emulated call, [2, 4, 16])
    \<and> algo_val call = 2 \<and> call_params call = [13, 32, 8, 32]"
proof -
  let ?emu = "[(''enabled'', SBool True), (''algorithm'', SStr ''cofda''), (''chunk_size'', SInt 32), (''f_bits'', SInt 13)]"
  let ?env0 = "[''VLLM_MMAEMU_FP8_GROUP_SIZE'' \<mapsto> str_int 8]"
  define env where "env = snd (export_mma_emu_to_env fp8_config ?emu ?env0)"
  have x: "export_mma_emu_to_env fp8_config ?emu ?env0 = (Inr (), env)" unfolding env_def
    by (simp add: export_mma_emu_to_env_def then_env_def set_var_def set_if_def fp8_config_def PRECISION_CONFIG_def get_or_def)
  have h: "truthy (get_or ?emu ''enabled'' (SBool False))" "map_of ?emu ''algorithm'' = Some (SStr ''cofda'')"
    by (simp_all add: get_or_def)
  note e = fp8_export_vars[OF fp8_config_simps(1) x h]
  have i: "fp8_linear_init demo_platform env True None
      = Inr \<lparr>preferred_backend = ''mma_emu'', op_params = Some \<lparr>algorithm = ''cofda'', f_bits = 13, g_bits = 32, group_size = 8, chunk_size = 32\<rparr>,
             output_padding = None\<rparr>" (is "_ = Inr ?lin")
    by (simp add: fp8_linear_init_def use_fp8_def fp8_env_def fp8_eval e exported_var_def demo_platform_def has_device_capability_def)
  obtain g where a: "fp8_linear_apply demo_platform env (\<lambda>_ t s _. (t, demo_tensor [] ''float32'')) ?lin (demo_tensor [2, 4, 8] ''bfloat16'')
        (demo_tensor [8, 16] ''float8_e4m3fn'') (demo_tensor [1] ''float32'') None None None None = Inr (g, [2, 4, 16])"
    using demo_apply[of env 32 8] by blast
  from experiment_settings_reach_kernel[OF fp8_config_simps(1) x h i a] x i a show ?thesis
    by (auto simp: effective_number_def fp8_eval fp8_algorithm_map_def lower_def lower_char_def)
qed


section \<open>Sweeps and truncated tasks\<close>

lemma is_digit_plain: "is_digit (digit_char d)" if "d < 10"
  using that by (simp add: is_digit_def digit_val_char)

lemma split_limit_print: "k \<noteq> [] \<Longrightarrow> split_limit (k @ CHR ''-'' # str_nat n) = Some (k, str_nat n)"
proof -
  assume k: "k \<noteq> []"
  have d: "\<forall>c\<in>set (rev (str_nat n)). is_digit c" using str_nat_plain[of n] is_digit_plain by (auto simp: plain_digits_def)
  have h: "\<not> is_digit CHR ''-''" by (simp add: is_digit_def digit_val_def upt_rec)
  have "takeWhile is_digit (rev (str_nat n) @ CHR ''-'' # rev k) = rev (str_nat n)"
    "dropWhile is_digit (rev (str_nat n) @ CHR ''-'' # rev k) = CHR ''-'' # rev k"
    using takeWhile_append2[of "rev (str_nat n)" is_digit] dropWhile_append2[of "rev (str_nat n)" is_digit] d h by auto
  then show ?thesis using k str_nat_nonempty by (simp add: split_limit_def)
qed

text \<open>The key \<^verbatim>\<open><task>-<N>\<close> of a known task resolves to the task with its limit set to \<^verbatim>\<open>N\<close>.\<close>

theorem truncated_task_resolves:
  assumes "map_of TASKS k = Some t"
  shows "\<exists>t'. resolve_task_config (k @ ''-'' @ str_nat n) = Some t' \<and> limit t' = Some n \<and> task_name t' = task_name t \<and> metrics t' = metrics t"
proof -
  have "\<forall>k'\<in>fst ` set TASKS. CHR ''-'' \<notin> set k'" by (simp add: TASKS_def mk_task_def)
  then have "map_of TASKS (k @ ''-'' @ str_nat n) = None" by (force simp: map_of_eq_None_iff)
  moreover have "k \<noteq> []" using assms by (auto simp: TASKS_def mk_task_def)
  ultimately show ?thesis using assms by (simp add: resolve_task_config_def split_limit_print digits_val_str_nat)
qed

theorem truncated_task_resolves_witness: "\<exists>t. resolve_task_config (''arc_easy'' @ ''-'' @ str_nat 100) = Some t \<and> limit t = Some 100"
  using truncated_task_resolves[of "''arc_easy''" _ 100] by (auto simp: TASKS_def mk_task_def)

text \<open>A sweep runs the whole grid: its combinations are exactly the choices of one value per
  parameter, in the order of the parameters, and their number is the product of the numbers of
  values.\<close>

theorem sweep_covers_grid:
  assumes "sweep cfg \<noteq> []"
  defines "vals \<equiv> \<lambda>e. case e of Many vs \<Rightarrow> vs | One v \<Rightarrow> [v]"
  shows "(combo \<in> set (generate_sweep_combinations cfg)) = list_all2 (\<lambda>(k, v) (k', e). k = k' \<and> v \<in> set (vals e)) combo (sweep cfg)
    \<and> length (generate_sweep_combinations cfg) = prod_list (map (\<lambda>(_, e). length (vals e)) (sweep cfg))"
proof -
  have g: "generate_sweep_combinations cfg = map (zip (map fst (sweep cfg))) (product_lists (map (vals \<circ> snd) (sweep cfg)))"
  proof -
    have "map (\<lambda>(_, e). case e of Many vs \<Rightarrow> vs | One v \<Rightarrow> [v]) (sweep cfg) = map (vals \<circ> snd) (sweep cfg)" by (auto simp: vals_def)
    then show ?thesis using assms(1) unfolding generate_sweep_combinations_def Let_def by (simp only: if_False)
  qed
  have len: "length (product_lists xss) = prod_list (map length xss)" for xss :: "scalar list list"
    by (induction xss) (auto simp: length_concat comp_def sum_list_triv)
  have mem: "(combo \<in> (\<lambda>xs. zip (map fst sw) xs) ` {xs. list_all2 (\<lambda>x ys. x \<in> set ys) xs (map (vals \<circ> snd) sw)})
      = list_all2 (\<lambda>(k, v) (k', e). k = k' \<and> v \<in> set (vals e)) combo sw" for combo sw
  proof
    assume "combo \<in> (\<lambda>xs. zip (map fst sw) xs) ` {xs. list_all2 (\<lambda>x ys. x \<in> set ys) xs (map (vals \<circ> snd) sw)}"
    then show "list_all2 (\<lambda>(k, v) (k', e). k = k' \<and> v \<in> set (vals e)) combo sw"
      by (auto simp: list_all2_conv_all_nth case_prod_beta)
  next
    assume L: "list_all2 (\<lambda>(k, v) (k', e). k = k' \<and> v \<in> set (vals e)) combo sw"
    then have "combo = zip (map fst sw) (map snd combo)"
      by (intro nth_equalityI) (auto simp: list_all2_conv_all_nth case_prod_beta prod_eq_iff)
    moreover have "list_all2 (\<lambda>x ys. x \<in> set ys) (map snd combo) (map (vals \<circ> snd) sw)"
      using L by (auto simp: list_all2_conv_all_nth case_prod_beta)
    ultimately show "combo \<in> (\<lambda>xs. zip (map fst sw) xs) ` {xs. list_all2 (\<lambda>x ys. x \<in> set ys) xs (map (vals \<circ> snd) sw)}" by blast
  qed
  have "set (generate_sweep_combinations cfg)
      = (\<lambda>xs. zip (map fst (sweep cfg)) xs) ` {xs. list_all2 (\<lambda>x ys. x \<in> set ys) xs (map (vals \<circ> snd) (sweep cfg))}"
    by (simp only: g set_map product_lists_set)
  moreover have "map (length \<circ> (vals \<circ> snd)) (sweep cfg) = map (\<lambda>(_, e). length (vals e)) (sweep cfg)" by auto
  ultimately show ?thesis using mem by (simp only: g length_map len map_map simp_thms)
qed

theorem sweep_covers_grid_witness: "[(''f_bits'', SInt 3)] \<in> set (generate_sweep_combinations demo_config)"
  using sweep_covers_grid[of demo_config "[(''f_bits'', SInt 3)]"] by (simp add: demo_config_def)

end
