(* ===== verification/Compare.thy ===== *)
theory Compare
  imports Complex_Main Prelude "HOL-Library.AList"
begin

text \<open>
  The comparison of the two machines (\<^verbatim>\<open>artifact/scripts/compare.py\<close>): it loads the newest result and
  the newest per-sample log of both sides, compares scores and log-probabilities for equality and
  returns an exit status. The printed table is left out. Numbers are the values of Python floats; a
  value that is not a number is \<open>None\<close>. Sets of tasks and documents are lists without repetition, since
  their order only affects the printed table.
\<close>

section \<open>Data\<close>

datatype pyfloat = Fl rat | PInf | NInf | NaN

definition feq :: "pyfloat \<Rightarrow> pyfloat \<Rightarrow> bool" where
  "feq a b \<longleftrightarrow> a = b \<and> a \<noteq> NaN"

record cmp_task =
  ct_name :: "string option"
  ct_metrics :: "(string \<times> pyfloat option) list"

record device =
  dev_sm :: "int option"
  dev_arch :: "string option"

record cmp_result =
  cr_timestamp :: string
  cr_device :: "device option"
  cr_tasks :: "(string \<times> cmp_task) list"

text \<open>The entries of \<^verbatim>\<open>filtered_resps\<close>: a non-empty list that starts with a number, a number, a non-empty
  list that starts with something else, anything else.\<close>

datatype resp = Choice pyfloat | Bare pyfloat | Bad_Choice | Other_Resp

record sample =
  doc_id :: int
  prompt_hash :: "string option"
  filtered_resps :: "resp list"

type_synonym samples = "(string \<times> sample list) list"

record side =
  heading :: string
  expected_arch :: string
  result_files :: "(string \<times> cmp_result option) list"
  samples_files :: "(int \<times> samples option) list"

section \<open>Loading\<close>

fun str_le :: "string \<Rightarrow> string \<Rightarrow> bool" where
  "str_le [] _ = True"
| "str_le (x # xs) [] = False"
| "str_le (x # xs) (y # ys) = ((of_char x :: nat) < of_char y \<or> x = y \<and> str_le xs ys)"

definition is_samples_stem :: "string \<Rightarrow> bool" where
  "is_samples_stem stem \<longleftrightarrow> drop (length stem - 8) stem = ''_samples'' \<and> length stem \<ge> 8"

definition newer :: "cmp_result option \<Rightarrow> cmp_result option \<Rightarrow> cmp_result option" where
  "newer best data =
     (case data of
        None \<Rightarrow> best
      | Some d \<Rightarrow> (case best of None \<Rightarrow> Some d | Some b \<Rightarrow> if str_le (cr_timestamp b) (cr_timestamp d) then Some d else Some b))"

definition load_result :: "(string \<times> cmp_result option) list \<Rightarrow> cmp_result option" where
  "load_result files = fold (\<lambda>(_, data) best. newer best data) (filter (\<lambda>(stem, _). \<not> is_samples_stem stem) files) None"

text \<open>\<^verbatim>\<open>max\<close> returns the first file with the largest modification time.\<close>

fun newest :: "int \<times> 'a \<Rightarrow> (int \<times> 'a) list \<Rightarrow> 'a" where
  "newest b [] = snd b"
| "newest b (f # fs) = newest (if fst f > fst b then f else b) fs"

definition load_samples :: "(int \<times> samples option) list \<Rightarrow> samples option" where
  "load_samples files = (case files of [] \<Rightarrow> None | f # fs \<Rightarrow> newest f fs)"

definition arch_names :: "int \<rightharpoonup> string" where
  "arch_names = [90 \<mapsto> ''hopper'', 100 \<mapsto> ''blackwell'', 120 \<mapsto> ''blackwell'']"

definition arch_of :: "cmp_result \<Rightarrow> string" where
  "arch_of r =
     (case Option.bind (Option.bind (cr_device r) dev_sm) arch_names of
        Some a \<Rightarrow> a
      | None \<Rightarrow> (case Option.bind (cr_device r) dev_arch of
          Some a \<Rightarrow> if a = [] then ''unknown'' else a
        | None \<Rightarrow> ''unknown''))"

section \<open>Scores\<close>

definition collect_metrics :: "cmp_result \<Rightarrow> ((string \<times> string) \<times> pyfloat) list" where
  "collect_metrics r =
     fold (\<lambda>(_, t) out. fold (\<lambda>(m, v) out. case v of None \<Rightarrow> out
              | Some x \<Rightarrow> AList.update (case ct_name t of None \<Rightarrow> ''?'' | Some n \<Rightarrow> n, m) x out) (ct_metrics t) out)
       (cr_tasks r) []"

definition opt_feq :: "pyfloat option \<Rightarrow> pyfloat option \<Rightarrow> bool" where
  "opt_feq a b = (case (a, b) of (Some x, Some y) \<Rightarrow> feq x y | (None, None) \<Rightarrow> True | _ \<Rightarrow> False)"

type_synonym scores = "((string \<times> string) \<times> pyfloat) list"

definition tasks_of :: "scores \<Rightarrow> scores \<Rightarrow> string list" where
  "tasks_of lm rm = remdups (map (fst \<circ> fst) lm @ map (fst \<circ> fst) rm)"

definition metrics_of :: "string \<Rightarrow> scores \<Rightarrow> scores \<Rightarrow> string list" where
  "metrics_of task lm rm = remdups (map (snd \<circ> fst) (filter (\<lambda>((t, _), _). t = task) (lm @ rm)))"

definition score_ok :: "scores \<Rightarrow> scores \<Rightarrow> string \<Rightarrow> bool" where
  "score_ok lm rm task = list_all (\<lambda>m. opt_feq (map_of lm (task, m)) (map_of rm (task, m))) (metrics_of task lm rm)"

section \<open>Log-probabilities\<close>

fun sample_logprobs :: "resp list \<Rightarrow> pyfloat list result" where
  "sample_logprobs [] = Inr []"
| "sample_logprobs (Choice x # rs) = bnd (sample_logprobs rs) (\<lambda>xs. Inr (x # xs))"
| "sample_logprobs (Bare x # rs) = bnd (sample_logprobs rs) (\<lambda>xs. Inr (x # xs))"
| "sample_logprobs (Bad_Choice # rs) = Inl ValueError"
| "sample_logprobs (Other_Resp # rs) = sample_logprobs rs"

definition by_doc :: "sample list \<Rightarrow> (int \<times> sample) list" where
  "by_doc ss = fold (\<lambda>s d. AList.update (doc_id s) s d) ss []"

record lp_stats =
  lp_total :: nat
  lp_identical :: nat
  hash_mismatches :: nat
  unmatched :: nat

definition count_doc :: "(int \<times> sample) list \<Rightarrow> (int \<times> sample) list \<Rightarrow> int \<Rightarrow> lp_stats \<Rightarrow> lp_stats result" where
  "count_doc left right i st =
     bnd (lookup_py (map_of left) i) (\<lambda>a. bnd (lookup_py (map_of right) i) (\<lambda>b.
     bnd (sample_logprobs (filtered_resps a)) (\<lambda>xs. bnd (sample_logprobs (filtered_resps b)) (\<lambda>ys.
       Inr (st\<lparr>hash_mismatches := hash_mismatches st + (if prompt_hash a \<noteq> prompt_hash b then 1 else 0),
               lp_total := lp_total st + length (zip xs ys),
               lp_identical := lp_identical st + length (filter (\<lambda>(x, y). feq x y) (zip xs ys))\<rparr>)))))"

definition logprob_task_stats :: "sample list \<Rightarrow> sample list \<Rightarrow> lp_stats result" where
  "logprob_task_stats left_list right_list =
     (let left = by_doc left_list; right = by_doc right_list;
          ids = filter (\<lambda>i. i \<in> fst ` set right) (map fst left);
          only = filter (\<lambda>i. i \<notin> fst ` set right) (map fst left) @ filter (\<lambda>i. i \<notin> fst ` set left) (map fst right)
      in for_each (count_doc left right) ids \<lparr>lp_total = 0, lp_identical = 0, hash_mismatches = 0, unmatched = length only\<rparr>)"

definition lp_ok :: "lp_stats \<Rightarrow> bool" where
  "lp_ok st \<longleftrightarrow> lp_identical st = lp_total st \<and> hash_mismatches st = 0 \<and> unmatched st = 0"

section \<open>The verdict\<close>

datatype reason = Result_Missing string | Wrong_Arch string | Log_Missing string | No_Scores | One_Sided_Log string

definition EXIT_MATCH :: nat where "EXIT_MATCH = 0"
definition EXIT_MISMATCH :: nat where "EXIT_MISMATCH = 1"
definition EXIT_INCOMPLETE :: nat where "EXIT_INCOMPLETE = 2"

definition verdict :: "bool \<Rightarrow> reason list \<Rightarrow> nat" where
  "verdict mismatch incomplete = (if mismatch then EXIT_MISMATCH else if incomplete \<noteq> [] then EXIT_INCOMPLETE else EXIT_MATCH)"

definition side_problems :: "side \<Rightarrow> reason list" where
  "side_problems s =
     (case load_result (result_files s) of
        None \<Rightarrow> [Result_Missing (heading s)]
      | Some r \<Rightarrow> if arch_of r = expected_arch s then [] else [Wrong_Arch (heading s)])"

text \<open>One row of the table: whether the task agrees, and whether its log is on one side only.\<close>

definition compare_task :: "scores \<Rightarrow> scores \<Rightarrow> (samples \<times> samples) option \<Rightarrow> string \<Rightarrow> (bool \<times> reason list) result" where
  "compare_task lm rm logs task =
     (case logs of
        None \<Rightarrow> Inr (score_ok lm rm task, [])
      | Some (ls, rs) \<Rightarrow>
          (case (map_of ls task, map_of rs task) of
             (Some l, Some r) \<Rightarrow> bnd (logprob_task_stats l r) (\<lambda>st. Inr (score_ok lm rm task \<and> lp_ok st, []))
           | _ \<Rightarrow> Inr (score_ok lm rm task, [One_Sided_Log task])))"

definition compare :: "side \<Rightarrow> side \<Rightarrow> nat result" where
  "compare l r =
     (let incomplete = side_problems l @ side_problems r in
      case (load_result (result_files l), load_result (result_files r)) of
        (Some lres, Some rres) \<Rightarrow>
          let lsamp = load_samples (samples_files l); rsamp = load_samples (samples_files r);
              logs = (case (lsamp, rsamp) of (Some a, Some b) \<Rightarrow> Some (a, b) | _ \<Rightarrow> None);
              inc2 = (if logs = None then [Log_Missing (if lsamp = None then heading l else heading r)] else []);
              lm = collect_metrics lres; rm = collect_metrics rres;
              tasks = tasks_of lm rm;
              inc3 = (if tasks = [] then [No_Scores] else [])
          in bnd (map_res (compare_task lm rm logs) tasks) (\<lambda>rows.
               Inr (verdict (\<not> list_all fst rows) (incomplete @ inc2 @ inc3 @ concat (map snd rows))))
      | _ \<Rightarrow> Inr (verdict False incomplete))"

section \<open>What a match means\<close>

definition doc_ok :: "(int \<times> sample) list \<Rightarrow> (int \<times> sample) list \<Rightarrow> int \<Rightarrow> bool" where
  "doc_ok left right i \<longleftrightarrow> (\<exists>a b xs ys. map_of left i = Some a \<and> map_of right i = Some b \<and> prompt_hash a = prompt_hash b
     \<and> sample_logprobs (filtered_resps a) = Inr xs \<and> sample_logprobs (filtered_resps b) = Inr ys \<and> list_all (\<lambda>(x, y). feq x y) (zip xs ys))"

text \<open>The same documents on both sides, with the same prompts and, as far as both lists reach, the
  same log-probabilities.\<close>

definition same_log :: "sample list \<Rightarrow> sample list \<Rightarrow> bool" where
  "same_log l r \<longleftrightarrow> fst ` set (by_doc l) = fst ` set (by_doc r) \<and> (\<forall>i\<in>fst ` set (by_doc l). doc_ok (by_doc l) (by_doc r) i)"

lemma filter_all_length: "length (filter P xs) = length xs \<longleftrightarrow> list_all P xs"
  by (metis length_filter_less less_irrefl list_all_iff filter_True)

lemma count_docD:
  assumes "count_doc left right i st = Inr st'"
  shows "lp_identical st \<le> lp_total st \<Longrightarrow> lp_identical st' \<le> lp_total st'"
    and "lp_identical st \<le> lp_total st \<Longrightarrow> lp_ok st' \<longleftrightarrow> lp_ok st \<and> doc_ok left right i"
proof -
  obtain a b xs ys where d: "map_of left i = Some a" "map_of right i = Some b" "sample_logprobs (filtered_resps a) = Inr xs"
    "sample_logprobs (filtered_resps b) = Inr ys"
    and st': "st' = st\<lparr>hash_mismatches := hash_mismatches st + (if prompt_hash a \<noteq> prompt_hash b then 1 else 0),
               lp_total := lp_total st + length (zip xs ys),
               lp_identical := lp_identical st + length (filter (\<lambda>(x, y). feq x y) (zip xs ys))\<rparr>"
    using assms by (auto simp: count_doc_def lookup_py_def split: option.splits)
  have le: "length (filter (\<lambda>(x, y). feq x y) (zip xs ys)) \<le> length (zip xs ys)" by (rule length_filter_le)
  show "lp_identical st' \<le> lp_total st'" if "lp_identical st \<le> lp_total st"
    using that le by (simp add: st' add_mono del: length_zip)
  show "lp_ok st' \<longleftrightarrow> lp_ok st \<and> doc_ok left right i" if "lp_identical st \<le> lp_total st"
  proof -
    have "doc_ok left right i \<longleftrightarrow> prompt_hash a = prompt_hash b \<and> length (filter (\<lambda>(x, y). feq x y) (zip xs ys)) = length (zip xs ys)"
      using d by (simp add: doc_ok_def filter_all_length del: length_zip)
    moreover have "lp_identical st + x = lp_total st + y \<longleftrightarrow> lp_identical st = lp_total st \<and> x = y" if "x \<le> y" for x y
      using that \<open>lp_identical st \<le> lp_total st\<close> by linarith
    ultimately show ?thesis using le by (auto simp: lp_ok_def st' simp del: length_zip)
  qed
qed

lemma count_doc_total: "doc_ok left right i \<Longrightarrow> \<exists>st'. count_doc left right i st = Inr st'"
  by (auto simp: doc_ok_def count_doc_def lookup_py_def)

lemma count_docs_ok:
  assumes "lp_identical st \<le> lp_total st"
  shows "(\<exists>st'. for_each (count_doc left right) ids st = Inr st' \<and> lp_ok st') \<longleftrightarrow> lp_ok st \<and> (\<forall>i\<in>set ids. doc_ok left right i)"
  using assms
proof (induction ids arbitrary: st)
  case (Cons i ids)
  show ?case
  proof (cases "count_doc left right i st")
    case (Inl e)
    then show ?thesis using count_doc_total[of left right i st] by auto
  next
    case (Inr st1)
    note s1 = count_docD[OF Inr]
    from Cons.IH[OF s1(1)[OF Cons.prems]] s1(2)[OF Cons.prems] Inr show ?thesis by auto
  qed
qed simp

lemma stats_ok_iff: "(\<exists>st. logprob_task_stats l r = Inr st \<and> lp_ok st) \<longleftrightarrow> same_log l r"
proof -
  let ?l = "by_doc l" and ?r = "by_doc r"
  let ?only = "filter (\<lambda>i. i \<notin> fst ` set ?r) (map fst ?l) @ filter (\<lambda>i. i \<notin> fst ` set ?l) (map fst ?r)"
  let ?ids = "filter (\<lambda>i. i \<in> fst ` set ?r) (map fst ?l)"
  have o: "?only = [] \<longleftrightarrow> fst ` set ?l = fst ` set ?r" by (auto simp: filter_empty_conv)
  have "(\<exists>st. logprob_task_stats l r = Inr st \<and> lp_ok st) \<longleftrightarrow> ?only = [] \<and> (\<forall>i\<in>set ?ids. doc_ok ?l ?r i)"
    unfolding logprob_task_stats_def Let_def by (subst count_docs_ok, simp) (simp only: lp_ok_def lp_stats.simps length_0_conv simp_thms)
  also have "\<dots> \<longleftrightarrow> same_log l r" unfolding o same_log_def by auto
  finally show ?thesis .
qed

lemma opt_feq_None: "opt_feq None None" by (simp add: opt_feq_def)

lemma scores_ok_iff: "(\<forall>task\<in>set (tasks_of lm rm). score_ok lm rm task) \<longleftrightarrow> (\<forall>k. opt_feq (map_of lm k) (map_of rm k))"
proof
  assume a: "\<forall>task\<in>set (tasks_of lm rm). score_ok lm rm task"
  show "\<forall>k. opt_feq (map_of lm k) (map_of rm k)"
  proof
    fix k :: "string \<times> string"
    obtain t m where k: "k = (t, m)" by fastforce
    show "opt_feq (map_of lm k) (map_of rm k)"
    proof (cases "map_of lm k = None \<and> map_of rm k = None")
      case True
      then show ?thesis by (simp add: opt_feq_None)
    next
      case False
      then obtain v where v: "(k, v) \<in> set (lm @ rm)" by (auto dest: map_of_SomeD)
      then have "(fst \<circ> fst) (k, v) \<in> (fst \<circ> fst) ` set (lm @ rm)" by (rule imageI)
      then have "t \<in> set (tasks_of lm rm)" by (simp add: tasks_of_def k image_Un)
      moreover have "(k, v) \<in> set (filter (\<lambda>((t', _), _). t' = t) (lm @ rm))" using v by (simp add: k)
      then have "(snd \<circ> fst) (k, v) \<in> (snd \<circ> fst) ` set (filter (\<lambda>((t', _), _). t' = t) (lm @ rm))" by (rule imageI)
      then have "m \<in> set (metrics_of t lm rm)" by (simp only: metrics_of_def set_remdups set_map) (simp add: k)
      ultimately show ?thesis using a unfolding score_ok_def list_all_iff k by blast
    qed
  qed
qed (simp add: score_ok_def list_all_iff)

definition task_ok :: "scores \<Rightarrow> scores \<Rightarrow> samples \<Rightarrow> samples \<Rightarrow> string \<Rightarrow> bool" where
  "task_ok lm rm ls rs task \<longleftrightarrow> score_ok lm rm task \<and> (\<exists>a b. map_of ls task = Some a \<and> map_of rs task = Some b \<and> same_log a b)"

lemma compare_task_ok: "compare_task lm rm (Some (ls, rs)) task = Inr (True, []) \<longleftrightarrow> task_ok lm rm ls rs task"
  unfolding compare_task_def task_ok_def stats_ok_iff[symmetric]
  by (cases "map_of ls task"; cases "map_of rs task") (auto simp: bnd_def split: sum.splits)

lemma map_res_all: "(\<exists>ys. map_res f xs = Inr ys \<and> list_all P ys) \<longleftrightarrow> (\<forall>x\<in>set xs. \<exists>y. f x = Inr y \<and> P y)"
proof (induction xs)
  case (Cons x xs)
  then show ?case by (cases "f x"; cases "map_res f xs") auto
qed simp

lemma row_ok: "(\<exists>p. f = Inr p \<and> fst p \<and> snd p = []) \<longleftrightarrow> f = Inr (True, [])"
  by (cases f) (auto simp: prod_eq_iff)

text \<open>C10: The comparison reports a match exactly when both results exist, ran on the expected
  architectures and have scores, both logs exist, every score is on both sides with the same value, and
  for every task both logs have the same documents with the same prompts and equal log-probabilities on
  the common prefix of the two lists of each document. The rest of a longer list is not looked at, so a
  log that was cut short still matches, although the documentation of the script promises that every
  log-probability is bit-identical; of several samples with one document id only the last counts.\<close>

theorem compare_match_iff:
  "compare l r = Inr EXIT_MATCH \<longleftrightarrow>
     (\<exists>lres rres ls rs. load_result (result_files l) = Some lres \<and> load_result (result_files r) = Some rres
        \<and> arch_of lres = expected_arch l \<and> arch_of rres = expected_arch r
        \<and> load_samples (samples_files l) = Some ls \<and> load_samples (samples_files r) = Some rs
        \<and> tasks_of (collect_metrics lres) (collect_metrics rres) \<noteq> []
        \<and> (\<forall>k. opt_feq (map_of (collect_metrics lres) k) (map_of (collect_metrics rres) k))
        \<and> (\<forall>task\<in>set (tasks_of (collect_metrics lres) (collect_metrics rres)).
             \<exists>a b. map_of ls task = Some a \<and> map_of rs task = Some b \<and> same_log a b))"
proof (cases "load_result (result_files l) = None \<or> load_result (result_files r) = None")
  case True
  then have "side_problems l @ side_problems r \<noteq> []" by (auto simp: side_problems_def)
  with True show ?thesis by (auto simp: compare_def verdict_def EXIT_MATCH_def EXIT_INCOMPLETE_def Let_def split: option.splits)
next
  case False
  then obtain lres rres where res: "load_result (result_files l) = Some lres" "load_result (result_files r) = Some rres" by auto
  define lm where "lm = collect_metrics lres"
  define rm where "rm = collect_metrics rres"
  define logs where "logs = (case (load_samples (samples_files l), load_samples (samples_files r)) of (Some a, Some b) \<Rightarrow> Some (a, b) | _ \<Rightarrow> None)"
  have sp: "side_problems l @ side_problems r = [] \<longleftrightarrow> arch_of lres = expected_arch l \<and> arch_of rres = expected_arch r"
    by (simp add: side_problems_def res)
  have c: "compare l r = bnd (map_res (compare_task lm rm logs) (tasks_of lm rm)) (\<lambda>rows.
      Inr (verdict (\<not> list_all fst rows) ((side_problems l @ side_problems r)
        @ (if logs = None then [Log_Missing (if load_samples (samples_files l) = None then heading l else heading r)] else [])
        @ (if tasks_of lm rm = [] then [No_Scores] else []) @ concat (map snd rows))))"
    by (simp only: compare_def res Let_def lm_def rm_def logs_def prod.case option.case)
  have "compare l r = Inr EXIT_MATCH \<longleftrightarrow> side_problems l @ side_problems r = [] \<and> logs \<noteq> None \<and> tasks_of lm rm \<noteq> []
      \<and> (\<exists>rows. map_res (compare_task lm rm logs) (tasks_of lm rm) = Inr rows \<and> list_all (\<lambda>p. fst p \<and> snd p = []) rows)"
    unfolding c
    by (cases "map_res (compare_task lm rm logs) (tasks_of lm rm)")
      (auto simp: verdict_def EXIT_MATCH_def EXIT_MISMATCH_def EXIT_INCOMPLETE_def list_all_iff)
  also have "\<dots> \<longleftrightarrow> side_problems l @ side_problems r = [] \<and> tasks_of lm rm \<noteq> []
      \<and> (\<exists>ls rs. logs = Some (ls, rs) \<and> (\<forall>task\<in>set (tasks_of lm rm). task_ok lm rm ls rs task))"
    unfolding map_res_all compare_task_ok[symmetric] row_ok by (cases logs) auto
  also have "\<dots> \<longleftrightarrow> side_problems l @ side_problems r = [] \<and> tasks_of lm rm \<noteq> [] \<and> (\<forall>k. opt_feq (map_of lm k) (map_of rm k))
      \<and> (\<exists>ls rs. logs = Some (ls, rs) \<and> (\<forall>task\<in>set (tasks_of lm rm). \<exists>a b. map_of ls task = Some a \<and> map_of rs task = Some b \<and> same_log a b))"
    unfolding scores_ok_iff[symmetric] task_ok_def by blast
  finally show ?thesis unfolding sp res
    by (auto simp: lm_def rm_def logs_def split: option.splits)
qed

section \<open>Lists of different length\<close>

text \<open>Only the common prefix of two lists of log-probabilities is compared.\<close>

definition short_sample :: "resp list \<Rightarrow> sample" where
  "short_sample rs = \<lparr>doc_id = 0, prompt_hash = None, filtered_resps = rs\<rparr>"

theorem truncated_log_matches:
  "logprob_task_stats [short_sample [Choice (Fl 1), Choice (Fl 2)]] [short_sample [Choice (Fl 1)]]
    = Inr \<lparr>lp_total = 1, lp_identical = 1, hash_mismatches = 0, unmatched = 0\<rparr>"
  by (simp add: logprob_task_stats_def by_doc_def short_sample_def count_doc_def lookup_py_def feq_def)

definition demo_side :: "string \<Rightarrow> int \<Rightarrow> string \<Rightarrow> side" where
  "demo_side h sm arch = \<lparr>heading = h, expected_arch = arch,
     result_files = [(''native'', Some \<lparr>cr_timestamp = ''2026'', cr_device = Some \<lparr>dev_sm = Some sm, dev_arch = None\<rparr>,
        cr_tasks = [(''piqa'', \<lparr>ct_name = Some ''piqa'', ct_metrics = [(''acc_norm'', Some (Fl (4 / 5)))]\<rparr>)]\<rparr>)],
     samples_files = [(0, Some [(''piqa'', [short_sample [Choice (Fl (- 3)), Choice (Fl (- 1))]])])]\<rparr>"

theorem compare_match_iff_witness: "compare (demo_side ''emulate_hopper'' 120 ''blackwell'') (demo_side ''h100 native'' 90 ''hopper'') = Inr EXIT_MATCH"
proof -
  have s: "same_log [short_sample rs] [short_sample rs]" if "sample_logprobs rs = Inr [Fl (- 3), Fl (- 1)]" for rs
    using that by (simp add: same_log_def doc_ok_def by_doc_def short_sample_def feq_def)
  have lr: "load_result (result_files (demo_side h sm a)) = Some \<lparr>cr_timestamp = ''2026'', cr_device = Some \<lparr>dev_sm = Some sm, dev_arch = None\<rparr>,
        cr_tasks = [(''piqa'', \<lparr>ct_name = Some ''piqa'', ct_metrics = [(''acc_norm'', Some (Fl (4 / 5)))]\<rparr>)]\<rparr>" for h sm a
    by (simp add: load_result_def demo_side_def is_samples_stem_def newer_def)
  have ls: "load_samples (samples_files (demo_side h sm a)) = Some [(''piqa'', [short_sample [Choice (Fl (- 3)), Choice (Fl (- 1))]])]" for h sm a
    by (simp add: load_samples_def demo_side_def)
  have ea: "expected_arch (demo_side h sm a) = a" for h sm a by (simp add: demo_side_def)
  show ?thesis
    by (subst compare_match_iff)
      (simp add: lr ls ea arch_of_def arch_names_def collect_metrics_def tasks_of_def opt_feq_def feq_def s)
qed

end
