(* ===== verification/Ngram.thy ===== *)
theory Ngram
  imports Prelude
begin

text \<open>
  The n-gram proposer of \<^verbatim>\<open>vllm/v1/spec_decode/ngram_proposer.py\<close>: draft tokens are what followed the
  earliest earlier occurrence of the longest n-gram at the end of the context. The search is the
  Knuth-Morris-Pratt failure function on the reversed context, capped at the maximal n-gram; here it is
  shown equal to the direct search. The batch version writes its results into buffers that live as long as
  the proposer.
\<close>

section \<open>The search\<close>

record ngram_state =
  lps :: "nat list"
  longest_ngram :: nat
  position :: nat
  prev_lps :: nat
  idx :: nat

text \<open>One round of the \<^verbatim>\<open>while\<close> loop; indices out of range are errors here, although the compiled code does
  not check them.\<close>

definition ngram_step :: "int list \<Rightarrow> nat \<Rightarrow> ngram_state \<Rightarrow> ngram_state result" where
  "ngram_step tokens max_ngram s =
     bnd (index_py tokens (prev_lps s)) (\<lambda>a.
     bnd (index_py tokens (idx s)) (\<lambda>b.
     if a = b then
       let p = prev_lps s + 1;
           s1 = (if longest_ngram s \<le> p then s\<lparr>longest_ngram := p, position := idx s\<rparr> else s);
           s2 = (if idx s < max_ngram then s1\<lparr>lps := (lps s1)[idx s := p]\<rparr> else s1)
       in if p = max_ngram
          then bnd (index_py (lps s2) (max_ngram - 1)) (\<lambda>q. Inr (s2\<lparr>prev_lps := q, idx := idx s + 1\<rparr>))
          else Inr (s2\<lparr>prev_lps := p, idx := idx s + 1\<rparr>)
     else if prev_lps s \<noteq> 0 then
       bnd (index_py (lps s) (prev_lps s - 1)) (\<lambda>q. Inr (s\<lparr>prev_lps := q\<rparr>))
     else Inr (s\<lparr>idx := idx s + 1\<rparr>)))"

partial_function (option) ngram_loop :: "int list \<Rightarrow> nat \<Rightarrow> ngram_state \<Rightarrow> ngram_state result option" where
  "ngram_loop tokens max_ngram s =
     (if idx s < length tokens then
        (case ngram_step tokens max_ngram s of
           Inl e \<Rightarrow> Some (Inl e)
         | Inr s' \<Rightarrow> ngram_loop tokens max_ngram s')
      else Some (Inr s))"

definition find_longest_matched_ngram ::
  "int list \<Rightarrow> nat \<Rightarrow> nat \<Rightarrow> int \<Rightarrow> int \<Rightarrow> int list result option" where
  "find_longest_matched_ngram origin min_ngram max_ngram max_model_len k =
     (let total_token = length origin in
      if total_token < min_ngram then Some (Inr [])
      else
        let k1 = min k (max_model_len - int total_token) in
        if k1 \<le> 0 then Some (Inr [])
        else
          let s0 = \<lparr>lps = replicate max_ngram 0, longest_ngram = 0, position = 0, prev_lps = 0, idx = 1\<rparr> in
          case ngram_loop (rev origin) max_ngram s0 of
            None \<Rightarrow> None
          | Some (Inl e) \<Rightarrow> Some (Inl e)
          | Some (Inr s) \<Rightarrow>
              if longest_ngram s < min_ngram then Some (Inr [])
              else
                let start = total_token - 1 - position s + longest_ngram s;
                    k2 = min k1 (int total_token - int start)
                in Some (Inr (take (nat k2) (drop start origin))))"

section \<open>The reference: direct search\<close>

text \<open>The last \<open>n\<close> tokens also occur at \<open>p\<close>, strictly before the end.\<close>

definition ngram_at :: "int list \<Rightarrow> nat \<Rightarrow> nat \<Rightarrow> bool" where
  "ngram_at ts n p \<longleftrightarrow> p + n < length ts \<and> take n (drop p ts) = drop (length ts - n) ts"

definition ngram_matches :: "int list \<Rightarrow> nat \<Rightarrow> nat \<Rightarrow> (nat \<times> nat) list" where
  "ngram_matches ts min_n max_n =
     [(n, p). n \<leftarrow> rev [min_n..<Suc max_n], p \<leftarrow> filter (ngram_at ts n) [0..<length ts]]"

definition ngram_draft :: "int list \<Rightarrow> nat \<Rightarrow> nat \<Rightarrow> int \<Rightarrow> int \<Rightarrow> int list" where
  "ngram_draft ts min_n max_n max_model_len k =
     (case ngram_matches ts min_n max_n of
        [] \<Rightarrow> []
      | (n, p) # _ \<Rightarrow> take (nat (min k (max_model_len - int (length ts)))) (drop (p + n) ts))"

section \<open>Borders\<close>

text \<open>The prefix of length \<open>v\<close> ends at \<open>i\<close> as well.\<close>

definition border :: "int list \<Rightarrow> nat \<Rightarrow> nat \<Rightarrow> bool" where
  "border t i v \<longleftrightarrow> v \<le> i \<and> i \<le> length t \<and> (\<forall>j<v. t ! j = t ! (i - v + j))"

lemma border_0 [simp]: "border t i 0 \<longleftrightarrow> i \<le> length t"
  by (simp add: border_def)

lemma border_Suc:
  assumes "i < length t"
  shows "border t (Suc i) (Suc v) \<longleftrightarrow> border t i v \<and> t ! v = t ! i"
  using assms by (auto simp: border_def less_Suc_eq)

lemma border_trans:
  assumes "border t i v" "border t v w"
  shows "border t i w"
proof -
  have "t ! j = t ! (i - w + j)" if "j < w" for j
  proof -
    have "t ! j = t ! (v - w + j)" "v - w + j < v" using assms(2) that by (auto simp: border_def)
    moreover have "t ! (v - w + j) = t ! (i - v + (v - w + j))"
      using assms(1) \<open>v - w + j < v\<close> by (simp add: border_def)
    moreover have "i - v + (v - w + j) = i - w + j" using assms by (simp add: border_def)
    ultimately show ?thesis by simp
  qed
  then show ?thesis using assms by (simp add: border_def)
qed

lemma border_mid:
  assumes "border t i v" "border t i w" "w \<le> v"
  shows "border t v w"
proof -
  have "t ! j = t ! (v - w + j)" if "j < w" for j
  proof -
    have "t ! j = t ! (i - w + j)" using assms(2) that by (simp add: border_def)
    moreover have "t ! (v - w + j) = t ! (i - v + (v - w + j))"
      using assms(1,3) that by (simp add: border_def)
    moreover have "i - v + (v - w + j) = i - w + j" using assms by (simp add: border_def)
    ultimately show ?thesis by simp
  qed
  then show ?thesis using assms by (simp add: border_def)
qed

section \<open>The invariant of the search\<close>

definition longest_border :: "int list \<Rightarrow> nat \<Rightarrow> nat \<Rightarrow> bool" where
  "longest_border t j w \<longleftrightarrow> w \<le> j \<and> border t (Suc j) w \<and> (\<forall>v. w < v \<and> v \<le> j \<longrightarrow> \<not> border t (Suc j) v)"

definition match_at :: "int list \<Rightarrow> nat \<Rightarrow> nat \<Rightarrow> nat \<Rightarrow> bool" where
  "match_at t m j v \<longleftrightarrow> 0 < v \<and> v \<le> m \<and> v \<le> j \<and> border t (Suc j) v"

definition best_match :: "int list \<Rightarrow> nat \<Rightarrow> nat \<Rightarrow> nat \<Rightarrow> nat \<Rightarrow> bool" where
  "best_match t m i n q \<longleftrightarrow>
     (\<forall>j<i. \<forall>v. match_at t m j v \<longrightarrow> v < n \<or> v = n \<and> j \<le> q) \<and> (0 < n \<longrightarrow> q < i \<and> match_at t m q n)"

definition lps_ok :: "int list \<Rightarrow> nat \<Rightarrow> nat \<Rightarrow> nat list \<Rightarrow> bool" where
  "lps_ok t m i l \<longleftrightarrow> length l = m \<and> (\<forall>j<m. if j < i then longest_border t j (l ! j) else l ! j = 0)"

text \<open>Every border of \<open>t\<close> up to \<open>i\<close> that is longer than the candidate \<open>p\<close> fails at the next token.\<close>

definition candidate :: "int list \<Rightarrow> nat \<Rightarrow> nat \<Rightarrow> nat \<Rightarrow> bool" where
  "candidate t m i p \<longleftrightarrow> p < i \<and> p < m \<and> border t i p \<and>
     (\<forall>v. p < v \<and> v < i \<and> v < m \<and> border t i v \<longrightarrow> i < length t \<longrightarrow> t ! v \<noteq> t ! i)"

definition ngram_inv :: "int list \<Rightarrow> nat \<Rightarrow> ngram_state \<Rightarrow> bool" where
  "ngram_inv t m s \<longleftrightarrow> 0 < idx s \<and> idx s \<le> length t \<and> candidate t m (idx s) (prev_lps s) \<and>
     lps_ok t m (idx s) (lps s) \<and> best_match t m (idx s) (longest_ngram s) (position s)"

lemma match_extends:
  assumes c: "candidate t m i p" and i: "i < length t" and v: "match_at t m i v"
  shows "v \<le> Suc p" "v = Suc p \<Longrightarrow> t ! p = t ! i" "t ! (v - 1) = t ! i"
proof -
  obtain u where u: "v = Suc u" using v by (cases v) (auto simp: match_at_def)
  have b: "border t i u" and e: "t ! u = t ! i"
    using v border_Suc[OF i, of u] unfolding u match_at_def by auto
  have "u < m" "u < i" using v unfolding u match_at_def by auto
  show "v \<le> Suc p"
  proof (rule ccontr)
    assume "\<not> v \<le> Suc p"
    then have "p < u" by (simp add: u)
    with c i b e \<open>u < m\<close> \<open>u < i\<close> show False by (auto simp: candidate_def)
  qed
  show "v = Suc p \<Longrightarrow> t ! p = t ! i" using e u by simp
  show "t ! (v - 1) = t ! i" using e u by simp
qed

lemma match_new:
  assumes c: "candidate t m i p" and i: "i < length t" and eq: "t ! p = t ! i"
  shows "match_at t m i (Suc p)"
  using c eq border_Suc[OF i, of p] by (auto simp: candidate_def match_at_def)

lemma best_match_found:
  assumes b: "best_match t m i n q" and c: "candidate t m i p" and i: "i < length t" and eq: "t ! p = t ! i"
  shows "best_match t m (Suc i) (if n \<le> Suc p then Suc p else n) (if n \<le> Suc p then i else q)"
proof -
  have up: "v \<le> Suc p" if "match_at t m i v" for v using match_extends(1)[OF c i that] .
  have old: "v < n \<or> v = n \<and> j \<le> q" if "j < i" "match_at t m j v" for j v
    using b that by (simp add: best_match_def)
  have q: "0 < n \<Longrightarrow> q < i \<and> match_at t m q n" using b by (simp add: best_match_def)
  show ?thesis
  proof (cases "n \<le> Suc p")
    case True
    then show ?thesis using match_new[OF c i eq] up old
      by (fastforce simp: best_match_def less_Suc_eq dest: le_neq_implies_less)
  next
    case False
    then show ?thesis using q up old by (fastforce simp: best_match_def less_Suc_eq)
  qed
qed

lemma best_match_none:
  assumes b: "best_match t m i n q" and none: "\<And>v. \<not> match_at t m i v"
  shows "best_match t m (Suc i) n q"
  using assms by (auto simp: best_match_def less_Suc_eq)

lemma longest_border_of_match:
  assumes mt: "match_at t m i w" and up: "\<And>v. match_at t m i v \<Longrightarrow> v \<le> w" and "i < m"
  shows "longest_border t i w"
proof -
  have "\<not> border t (Suc i) v" if "w < v" "v \<le> i" for v
  proof
    assume "border t (Suc i) v"
    with that \<open>i < m\<close> have "match_at t m i v" by (simp add: match_at_def)
    with up that(1) show False by fastforce
  qed
  with mt show ?thesis by (auto simp: longest_border_def match_at_def)
qed

lemma candidate_of_match:
  assumes mt: "match_at t m i w" and up: "\<And>v. match_at t m i v \<Longrightarrow> v \<le> w" and "w < m"
  shows "candidate t m (Suc i) w"
proof -
  have "t ! v \<noteq> t ! Suc i" if "w < v" "v < Suc i" "v < m" "border t (Suc i) v" for v
  proof -
    have "match_at t m i v" using that by (simp add: match_at_def)
    with up that(1) have False by fastforce
    then show ?thesis ..
  qed
  with mt \<open>w < m\<close> show ?thesis by (auto simp: candidate_def match_at_def)
qed

text \<open>Falling back to the longest border of a matched prefix: after the longest allowed n-gram, and on a
  mismatch.\<close>

lemma candidate_capped:
  assumes mt: "match_at t m i m" and lb: "longest_border t (m - 1) w" and "i < length t"
  shows "candidate t m (Suc i) w"
proof -
  have m: "0 < m" "m \<le> i" and b: "border t (Suc i) m" using mt by (auto simp: match_at_def)
  have w: "w \<le> m - 1" "border t m w" and mx: "\<And>v. w < v \<Longrightarrow> v \<le> m - 1 \<Longrightarrow> \<not> border t m v"
    using lb m by (auto simp: longest_border_def)
  have "\<not> border t (Suc i) v" if "w < v" "v < m" for v
  proof
    assume "border t (Suc i) v"
    then have "border t m v" using border_mid[OF b] that by simp
    with mx that show False by simp
  qed
  with w m border_trans[OF b w(2)] show ?thesis by (auto simp: candidate_def)
qed

lemma candidate_mismatch:
  assumes c: "candidate t m i p" and "p \<noteq> 0" and neq: "t ! p \<noteq> t ! i" and lb: "longest_border t (p - 1) w"
  shows "candidate t m i w" "w < p"
proof -
  have p: "p < i" "p < m" "border t i p" using c by (auto simp: candidate_def)
  have w: "w \<le> p - 1" "border t p w" and mx: "\<And>v. w < v \<Longrightarrow> v \<le> p - 1 \<Longrightarrow> \<not> border t p v"
    using lb \<open>p \<noteq> 0\<close> by (auto simp: longest_border_def)
  show "w < p" using w \<open>p \<noteq> 0\<close> by simp
  have "t ! v \<noteq> t ! i" if "w < v" "v < i" "v < m" "border t i v" "i < length t" for v
  proof (cases v p rule: linorder_cases)
    case less
    then have "border t p v" using border_mid[OF p(3) that(4)] by simp
    with mx that(1) less show ?thesis by fastforce
  next
    case equal
    then show ?thesis using neq by simp
  next
    case greater
    then show ?thesis using c that by (auto simp: candidate_def)
  qed
  with p w border_trans[OF p(3) w(2)] show "candidate t m i w" by (auto simp: candidate_def)
qed

lemma lps_ok_update:
  assumes "lps_ok t m i l" and "i < m \<Longrightarrow> longest_border t i w"
  shows "lps_ok t m (Suc i) (if i < m then l[i := w] else l)"
  using assms by (auto simp: lps_ok_def nth_list_update less_Suc_eq)

lemma lps_ok_zero:
  assumes "lps_ok t m i l" and "i < m \<Longrightarrow> longest_border t i 0"
  shows "lps_ok t m (Suc i) l"
  using assms by (auto simp: lps_ok_def less_Suc_eq)

lemma ngram_step_match:
  assumes inv: "ngram_inv t m s" and i: "idx s < length t" and eq: "t ! prev_lps s = t ! idx s"
  obtains s' where "ngram_step t m s = Inr s'" "ngram_inv t m s'" "idx s' = Suc (idx s)"
proof -
  let ?i = "idx s" and ?p = "Suc (prev_lps s)"
  let ?l = "if ?i < m then (lps s)[?i := ?p] else lps s"
  have c: "candidate t m ?i (prev_lps s)" and l: "lps_ok t m ?i (lps s)"
    and b: "best_match t m ?i (longest_ngram s) (position s)" and i0: "0 < ?i"
    using inv by (auto simp: ngram_inv_def)
  have pm: "prev_lps s < length t" "prev_lps s < m" "prev_lps s < ?i" using c i by (auto simp: candidate_def)
  have mt: "match_at t m ?i ?p" using match_new[OF c i eq] .
  have up: "\<And>v. match_at t m ?i v \<Longrightarrow> v \<le> ?p" using match_extends(1)[OF c i] .
  have l': "lps_ok t m (Suc ?i) ?l" by (rule lps_ok_update[OF l longest_border_of_match[OF mt up]])
  let ?q = "if ?p = m then ?l ! (m - 1) else ?p"
  have len: "length ?l = m" using l' by (simp add: lps_ok_def)
  have cand: "candidate t m (Suc ?i) ?q"
  proof (cases "?p = m")
    case True
    then have "longest_border t (m - 1) (?l ! (m - 1))"
      using l' pm by (auto simp: lps_ok_def)
    with candidate_capped[OF _ _ i] mt True show ?thesis by simp
  next
    case False
    then show ?thesis using candidate_of_match[OF mt up] pm by simp
  qed
  define s' where "s' = \<lparr>lps = ?l, longest_ngram = (if longest_ngram s \<le> ?p then ?p else longest_ngram s),
      position = (if longest_ngram s \<le> ?p then ?i else position s), prev_lps = ?q, idx = Suc ?i\<rparr>"
  have "ngram_step t m s = Inr s'"
    using pm i eq len by (cases s) (auto simp: ngram_step_def index_py_def s'_def Let_def)
  moreover have "ngram_inv t m s'"
    using cand l' best_match_found[OF b c i eq] i by (simp add: ngram_inv_def s'_def)
  ultimately show thesis using that by (simp add: s'_def)
qed

lemma ngram_step_mismatch:
  assumes inv: "ngram_inv t m s" and i: "idx s < length t" and neq: "t ! prev_lps s \<noteq> t ! idx s"
  obtains s' where "ngram_step t m s = Inr s'" "ngram_inv t m s'"
    "idx s' = Suc (idx s) \<or> idx s' = idx s \<and> prev_lps s' < prev_lps s"
proof -
  have c: "candidate t m (idx s) (prev_lps s)" and l: "lps_ok t m (idx s) (lps s)"
    and b: "best_match t m (idx s) (longest_ngram s) (position s)" and i0: "0 < idx s"
    using inv by (auto simp: ngram_inv_def)
  have pm: "prev_lps s < length t" "prev_lps s < m" "prev_lps s < idx s" using c i by (auto simp: candidate_def)
  show thesis
  proof (cases "prev_lps s = 0")
    case True
    have none: "\<not> match_at t m (idx s) v" for v
    proof
      assume v: "match_at t m (idx s) v"
      then have "v = Suc 0" using match_extends(1)[OF c i v] True by (auto simp: match_at_def)
      with match_extends(2)[OF c i v] neq True show False by simp
    qed
    have "longest_border t (idx s) 0" if "idx s < m"
      using none that i by (auto simp: longest_border_def match_at_def)
    then have "lps_ok t m (Suc (idx s)) (lps s)" by (rule lps_ok_zero[OF l])
    moreover have "\<not> border t (Suc (idx s)) v" if "0 < v" "v < Suc (idx s)" "v < m" for v
      using none[of v] that by (simp add: match_at_def)
    then have "candidate t m (Suc (idx s)) 0" using pm i by (auto simp: candidate_def)
    ultimately have "ngram_inv t m (s\<lparr>idx := Suc (idx s)\<rparr>)"
      using best_match_none[OF b none] i True by (simp add: ngram_inv_def)
    then show thesis using that pm i neq True by (simp add: ngram_step_def index_py_def)
  next
    case False
    have lb: "longest_border t (prev_lps s - 1) (lps s ! (prev_lps s - 1))"
      using l pm False by (auto simp: lps_ok_def)
    have "ngram_inv t m (s\<lparr>prev_lps := lps s ! (prev_lps s - 1)\<rparr>)"
      using candidate_mismatch(1)[OF c False neq lb] l b i i0 by (simp add: ngram_inv_def)
    moreover have "ngram_step t m s = Inr (s\<lparr>prev_lps := lps s ! (prev_lps s - 1)\<rparr>)"
      using pm i neq False l by (simp add: ngram_step_def index_py_def lps_ok_def less_imp_diff_less)
    ultimately show thesis using that candidate_mismatch(2)[OF c False neq lb] by simp
  qed
qed

text \<open>The loop ends, never leaves the arrays, and has found the best match of the whole context.\<close>

lemma ngram_loop_total:
  assumes "ngram_inv t m s"
  shows "\<exists>s'. ngram_loop t m s = Some (Inr s') \<and> ngram_inv t m s' \<and> idx s' = length t"
  using assms
proof (induction s rule: wf_induct_rule[OF wf_measures[of "[\<lambda>s. length t - idx s, prev_lps]"]])
  case (1 s)
  show ?case
  proof (cases "idx s < length t")
    case False
    then show ?thesis using "1.prems" by (subst ngram_loop.simps) (auto simp: ngram_inv_def)
  next
    case True
    obtain s' where s': "ngram_step t m s = Inr s'" "ngram_inv t m s'"
      "idx s' = Suc (idx s) \<or> idx s' = idx s \<and> prev_lps s' < prev_lps s"
      using ngram_step_match[OF "1.prems" True] ngram_step_mismatch[OF "1.prems" True] by metis
    then have "(s', s) \<in> measures [\<lambda>s. length t - idx s, prev_lps]" using True by auto
    from "1.IH"[OF this s'(2)] s'(1) True show ?thesis by (subst ngram_loop.simps) simp
  qed
qed

section \<open>Back to the context\<close>

lemma match_at_rev:
  assumes "j < length ts"
  shows "match_at (rev ts) m j v \<longleftrightarrow> 0 < v \<and> v \<le> m \<and> ngram_at ts v (length ts - 1 - j)"
proof -
  let ?L = "length ts" and ?p = "length ts - 1 - j"
  have "border (rev ts) (Suc j) v \<longleftrightarrow> take v (drop ?p ts) = drop (?L - v) ts" if "v \<le> j"
  proof
    assume b: "border (rev ts) (Suc j) v"
    show "take v (drop ?p ts) = drop (?L - v) ts"
    proof (rule nth_equalityI)
      fix x assume "x < length (take v (drop ?p ts))"
      then have x: "x < v" by simp
      then have "rev ts ! (v - 1 - x) = rev ts ! (Suc j - v + (v - 1 - x))"
        using b by (simp add: border_def)
      with x that assms show "take v (drop ?p ts) ! x = drop (?L - v) ts ! x"
        by (simp add: rev_nth algebra_simps)
    qed (use that assms in simp)
  next
    assume e: "take v (drop ?p ts) = drop (?L - v) ts"
    have "rev ts ! y = rev ts ! (Suc j - v + y)" if y: "y < v" for y
    proof -
      have "take v (drop ?p ts) ! (v - 1 - y) = drop (?L - v) ts ! (v - 1 - y)" using e by simp
      with y \<open>v \<le> j\<close> assms show ?thesis by (simp add: rev_nth algebra_simps)
    qed
    then show "border (rev ts) (Suc j) v" using that assms by (simp add: border_def)
  qed
  then show ?thesis using assms by (auto simp: match_at_def ngram_at_def)
qed

lemma upt_split: "i \<le> n \<Longrightarrow> n < j \<Longrightarrow> [i..<j] = [i..<n] @ n # [Suc n..<j]"
  using upt_add_eq_append[of i n "j - n"] by (simp add: upt_conv_Cons)

lemma ngram_matches_empty:
  assumes "\<And>n p. min_n \<le> n \<Longrightarrow> n \<le> max_n \<Longrightarrow> \<not> ngram_at ts n p"
  shows "ngram_matches ts min_n max_n = []"
  using assms by (auto simp: ngram_matches_def)

lemma ngram_matches_head:
  assumes n: "min_n \<le> n" "n \<le> max_n" and p: "ngram_at ts n p"
    and longer: "\<And>n' p'. n < n' \<Longrightarrow> n' \<le> max_n \<Longrightarrow> \<not> ngram_at ts n' p'"
    and earlier: "\<And>p'. p' < p \<Longrightarrow> \<not> ngram_at ts n p'"
  shows "\<exists>xs. ngram_matches ts min_n max_n = (n, p) # xs"
proof -
  have "[min_n..<Suc max_n] = [min_n..<n] @ n # [Suc n..<Suc max_n]"
    using n upt_split[of min_n n "Suc max_n"] by simp
  then have r: "rev [min_n..<Suc max_n] = rev [Suc n..<Suc max_n] @ n # rev [min_n..<n]" by simp
  have "p < length ts" using p by (simp add: ngram_at_def)
  then have "[0..<length ts] = [0..<p] @ p # [Suc p..<length ts]"
    using upt_split[of 0 p "length ts"] by simp
  then have f: "filter (ngram_at ts n) [0..<length ts] = p # filter (ngram_at ts n) [Suc p..<length ts]"
    using p earlier by (simp add: filter_empty_conv)
  have e: "filter (ngram_at ts n') [0..<length ts] = []" if "n' \<in> set [Suc n..<Suc max_n]" for n'
    using longer[of n'] that by (auto simp: filter_empty_conv)
  have c: "concat (map (\<lambda>n. map (Pair n) (filter (ngram_at ts n) [0..<length ts])) (rev [Suc n..<Suc max_n])) = []"
    using e by (auto simp del: upt_Suc)
  show ?thesis unfolding ngram_matches_def r by (simp add: f c del: upt_Suc)
qed

lemma ngram_search_total:
  assumes "0 < min_ngram" "min_ngram \<le> max_ngram"
  shows "find_longest_matched_ngram ts min_ngram max_ngram max_model_len k =
    Some (Inr (ngram_draft ts min_ngram max_ngram max_model_len k))"
proof (cases "length ts < min_ngram \<or> min k (max_model_len - int (length ts)) \<le> 0")
  case True
  then have "ngram_draft ts min_ngram max_ngram max_model_len k = []"
  proof
    assume "length ts < min_ngram"
    then have "ngram_matches ts min_ngram max_ngram = []"
      by (intro ngram_matches_empty) (simp add: ngram_at_def)
    then show ?thesis by (simp add: ngram_draft_def)
  qed (simp add: ngram_draft_def split: list.split)
  with True show ?thesis by (auto simp: find_longest_matched_ngram_def Let_def)
next
  case False
  let ?L = "length ts" and ?s = "\<lparr>lps = replicate max_ngram 0, longest_ngram = 0, position = 0, prev_lps = 0, idx = 1\<rparr>"
  have "ngram_inv (rev ts) max_ngram ?s"
    using assms False by (auto simp: ngram_inv_def candidate_def lps_ok_def best_match_def match_at_def longest_border_def)
  from ngram_loop_total[OF this] obtain s where s: "ngram_loop (rev ts) max_ngram ?s = Some (Inr s)"
    and best: "best_match (rev ts) max_ngram ?L (longest_ngram s) (position s)"
    by (auto simp: ngram_inv_def)
  let ?n = "longest_ngram s" and ?p = "?L - 1 - position s"
  have lower: "n < ?n \<or> n = ?n \<and> ?p \<le> p" if "ngram_at ts n p" "0 < n" "n \<le> max_ngram" for n p
  proof -
    have "p < ?L" using that by (simp add: ngram_at_def)
    then have "match_at (rev ts) max_ngram (?L - 1 - p) n" using that match_at_rev[of "?L - 1 - p" ts] by simp
    with best \<open>p < ?L\<close> have "n < ?n \<or> n = ?n \<and> ?L - 1 - p \<le> position s" by (simp add: best_match_def)
    then show ?thesis by auto
  qed
  show ?thesis
  proof (cases "?n < min_ngram")
    case True
    have "ngram_matches ts min_ngram max_ngram = []"
      using lower assms True by (intro ngram_matches_empty) fastforce
    with s True False assms show ?thesis by (simp add: find_longest_matched_ngram_def ngram_draft_def Let_def)
  next
    case n: False
    then have q: "position s < ?L" "match_at (rev ts) max_ngram (position s) ?n"
      using best assms by (auto simp: best_match_def)
    then have at: "ngram_at ts ?n ?p" "?n \<le> max_ngram" using match_at_rev[of "position s" ts] by auto
    then obtain xs where xs: "ngram_matches ts min_ngram max_ngram = (?n, ?p) # xs"
      using ngram_matches_head[of min_ngram ?n max_ngram ts ?p] lower n assms by fastforce
    have "?p + ?n \<le> ?L" using at by (simp add: ngram_at_def)
    then show ?thesis using s n False
      by (auto simp: find_longest_matched_ngram_def ngram_draft_def xs Let_def min_def)
  qed
qed

section \<open>The proposer\<close>

text \<open>The buffers \<^verbatim>\<open>valid_ngram_draft\<close> and \<^verbatim>\<open>valid_ngram_num_drafts\<close> keep their contents from one step to the next.
  The number of threads changes only the speed and is left out; the rounds of the parallel loop write
  different rows.\<close>

record ngram_proposer =
  min_n :: nat
  max_n :: nat
  np_k :: nat
  np_max_model_len :: int
  valid_ngram_draft :: "int list list"
  valid_ngram_num_drafts :: "nat list"

definition ngram_proposer_init :: "nat \<Rightarrow> nat \<Rightarrow> nat \<Rightarrow> int \<Rightarrow> nat \<Rightarrow> ngram_proposer" where
  "ngram_proposer_init prompt_lookup_min prompt_lookup_max num_speculative_tokens max_model_len max_num_seqs =
     \<lparr>min_n = prompt_lookup_min, max_n = prompt_lookup_max, np_k = num_speculative_tokens,
      np_max_model_len = max_model_len,
      valid_ngram_draft = replicate max_num_seqs (replicate num_speculative_tokens 0),
      valid_ngram_num_drafts = replicate max_num_seqs 0\<rparr>"

text \<open>Round \<open>i\<close> of \<^verbatim>\<open>batch_propose_numba\<close>, for the request \<open>req\<close>.\<close>

definition propose_round :: "nat list \<Rightarrow> int list list \<Rightarrow> nat \<times> nat \<Rightarrow> ngram_proposer \<Rightarrow> ngram_proposer result" where
  "propose_round num_tokens_no_spec token_ids_cpu = (\<lambda>(i, req) np.
     bnd (index_py num_tokens_no_spec req) (\<lambda>num_tokens.
     bnd (index_py token_ids_cpu req) (\<lambda>row.
     bnd (case find_longest_matched_ngram (take num_tokens row) (min_n np) (max_n np) (np_max_model_len np) (int (np_k np))
          of None \<Rightarrow> Inl Diverges | Some r \<Rightarrow> r) (\<lambda>drafter_output.
     bnd (index_py (valid_ngram_num_drafts np) i) (\<lambda>_.
     bnd (index_py (valid_ngram_draft np) i) (\<lambda>old.
     let d = length drafter_output;
         np1 = np\<lparr>valid_ngram_num_drafts := (valid_ngram_num_drafts np)[i := d]\<rparr>
     in if d \<noteq> 0
        then check (d \<le> length old) ValueError
          (Inr (np1\<lparr>valid_ngram_draft := (valid_ngram_draft np)[i := drafter_output @ drop d old]\<rparr>))
        else Inr np1))))))"

definition batch_propose_numba :: "nat list \<Rightarrow> nat list \<Rightarrow> int list list \<Rightarrow> ngram_proposer \<Rightarrow> ngram_proposer result" where
  "batch_propose_numba valid num_tokens_no_spec token_ids_cpu =
     for_each (propose_round num_tokens_no_spec token_ids_cpu) (enumerate 0 valid)"

definition read_draft :: "nat list \<Rightarrow> ngram_proposer \<Rightarrow> nat \<Rightarrow> int list result" where
  "read_draft valid np i =
     (if i \<in> set valid then
        bnd (index_py (valid_ngram_num_drafts np) i) (\<lambda>d.
        if 0 < d then bnd (index_py (valid_ngram_draft np) i) (\<lambda>row. Inr (take d row)) else Inr [])
      else Inr [])"

definition batch_propose :: "nat \<Rightarrow> nat list \<Rightarrow> nat list \<Rightarrow> int list list \<Rightarrow> ngram_proposer
    \<Rightarrow> (int list list \<times> ngram_proposer) result" where
  "batch_propose num_requests valid num_tokens_no_spec token_ids_cpu np =
     bnd (if valid \<noteq> [] then batch_propose_numba valid num_tokens_no_spec token_ids_cpu np else Inr np) (\<lambda>np'.
     bnd (map_res (read_draft valid np') [0..<num_requests]) (\<lambda>drafts. Inr (drafts, np')))"

definition select_requests :: "int list list \<Rightarrow> string list \<Rightarrow> nat list \<Rightarrow> string list \<Rightarrow> ngram_proposer \<Rightarrow> nat list result" where
  "select_requests sampled_token_ids req_ids num_tokens_no_spec unsupported np =
     for_each (\<lambda>(i, sampled_ids) valid.
       if sampled_ids = [] then Inr valid
       else bnd (index_py req_ids i) (\<lambda>req_id.
         if req_id \<in> set unsupported then Inr valid
         else bnd (index_py num_tokens_no_spec i) (\<lambda>num_tokens.
           if np_max_model_len np \<le> int num_tokens then Inr valid else Inr (valid @ [i]))))
       (enumerate 0 sampled_token_ids) []"

definition propose :: "int list list \<Rightarrow> string list \<Rightarrow> nat list \<Rightarrow> int list list \<Rightarrow> string list \<Rightarrow> ngram_proposer
    \<Rightarrow> (int list list \<times> ngram_proposer) result" where
  "propose sampled_token_ids req_ids num_tokens_no_spec token_ids_cpu unsupported np =
     bnd (select_requests sampled_token_ids req_ids num_tokens_no_spec unsupported np) (\<lambda>valid.
     batch_propose (length sampled_token_ids) valid num_tokens_no_spec token_ids_cpu np)"

definition proposer_ok :: "ngram_proposer \<Rightarrow> bool" where
  "proposer_ok np \<longleftrightarrow> 0 < min_n np \<and> min_n np \<le> max_n np \<and>
     length (valid_ngram_num_drafts np) = length (valid_ngram_draft np) \<and>
     (\<forall>row \<in> set (valid_ngram_draft np). length row = np_k np)"

text \<open>What the request should get.\<close>

definition draft_of :: "ngram_proposer \<Rightarrow> nat list \<Rightarrow> int list list \<Rightarrow> nat \<Rightarrow> int list" where
  "draft_of np num_tokens_no_spec token_ids_cpu req =
     ngram_draft (take (num_tokens_no_spec ! req) (token_ids_cpu ! req)) (min_n np) (max_n np)
       (np_max_model_len np) (int (np_k np))"

definition put_draft :: "nat \<Rightarrow> int list \<Rightarrow> ngram_proposer \<Rightarrow> ngram_proposer" where
  "put_draft i d np = np\<lparr>valid_ngram_num_drafts := (valid_ngram_num_drafts np)[i := length d],
     valid_ngram_draft := (valid_ngram_draft np)[i := d @ drop (length d) (valid_ngram_draft np ! i)]\<rparr>"

lemma length_ngram_draft: "length (ngram_draft ts a b M k) \<le> nat k"
  by (auto simp: ngram_draft_def split: list.split)

lemma length_draft_of: "length (draft_of np nums rows r) \<le> np_k np"
  using length_ngram_draft by (metis draft_of_def nat_int)

lemma put_draft_params [simp]:
  "min_n (put_draft i d np) = min_n np" "max_n (put_draft i d np) = max_n np" "np_k (put_draft i d np) = np_k np"
  "np_max_model_len (put_draft i d np) = np_max_model_len np"
  "length (valid_ngram_draft (put_draft i d np)) = length (valid_ngram_draft np)"
  by (simp_all add: put_draft_def)

lemma draft_of_put [simp]: "draft_of (put_draft i d np) = draft_of np"
  by (intro ext) (simp add: draft_of_def)

lemma put_draft_ok:
  assumes "proposer_ok np" "length d \<le> np_k np" "i < length (valid_ngram_draft np)"
  shows "proposer_ok (put_draft i d np)"
  using assms by (auto simp: proposer_ok_def put_draft_def dest!: set_update_subset_insert[THEN subsetD])

lemma propose_round_eq:
  assumes ok: "proposer_ok np" and r: "req < length nums" "req < length rows" and i: "i < length (valid_ngram_draft np)"
  shows "propose_round nums rows (i, req) np = Inr (put_draft i (draft_of np nums rows req) np)"
proof -
  let ?d = "draft_of np nums rows req"
  have f: "find_longest_matched_ngram (take (nums ! req) (rows ! req)) (min_n np) (max_n np) (np_max_model_len np)
      (int (np_k np)) = Some (Inr ?d)"
    using ngram_search_total ok by (simp add: draft_of_def proposer_ok_def)
  have row: "length (valid_ngram_draft np ! i) = np_k np" using ok i by (simp add: proposer_ok_def)
  have "length (valid_ngram_num_drafts np) = length (valid_ngram_draft np)" using ok by (simp add: proposer_ok_def)
  with f r i row length_draft_of[of np nums rows req] show ?thesis
    by (auto simp: propose_round_def index_py_def put_draft_def Let_def)
qed

text \<open>The batch stores the draft of the \<open>j\<close>-th selected request in row \<open>j\<close>, and leaves the other rows as they were.\<close>

lemma batch_rows:
  assumes "proposer_ok np" "\<forall>r \<in> set valid. r < length nums \<and> r < length rows"
    and "n + length valid \<le> length (valid_ngram_draft np)"
  shows "\<exists>np'. for_each (propose_round nums rows) (enumerate n valid) np = Inr np' \<and> proposer_ok np' \<and>
    length (valid_ngram_draft np') = length (valid_ngram_draft np) \<and>
    (\<forall>j < length (valid_ngram_draft np). take (valid_ngram_num_drafts np' ! j) (valid_ngram_draft np' ! j) =
       (if n \<le> j \<and> j < n + length valid then draft_of np nums rows (valid ! (j - n))
        else take (valid_ngram_num_drafts np ! j) (valid_ngram_draft np ! j)))"
  using assms
proof (induction valid arbitrary: n np)
  case Nil
  then show ?case by auto
next
  case (Cons r valid)
  let ?d = "draft_of np nums rows r" and ?B = "length (valid_ngram_draft np)"
  let ?np = "put_draft n ?d np"
  have n: "n < ?B" and len: "length (valid_ngram_num_drafts np) = ?B" using Cons.prems by (auto simp: proposer_ok_def)
  have round: "propose_round nums rows (n, r) np = Inr ?np"
    by (rule propose_round_eq) (use Cons.prems n in auto)
  have ok: "proposer_ok ?np" by (rule put_draft_ok) (use Cons.prems n length_draft_of in auto)
  have "Suc n + length valid \<le> length (valid_ngram_draft ?np)" using Cons.prems by simp
  from Cons.IH[OF ok _ this] Cons.prems(2) obtain np' where
    np': "for_each (propose_round nums rows) (enumerate (Suc n) valid) ?np = Inr np'" "proposer_ok np'"
      "length (valid_ngram_draft np') = ?B"
      "\<And>j. j < ?B \<Longrightarrow> take (valid_ngram_num_drafts np' ! j) (valid_ngram_draft np' ! j) =
         (if Suc n \<le> j \<and> j < Suc n + length valid then draft_of np nums rows (valid ! (j - Suc n))
          else take (valid_ngram_num_drafts ?np ! j) (valid_ngram_draft ?np ! j))"
    by auto
  have "take (valid_ngram_num_drafts np' ! j) (valid_ngram_draft np' ! j) =
      (if n \<le> j \<and> j < n + length (r # valid) then draft_of np nums rows ((r # valid) ! (j - n))
       else take (valid_ngram_num_drafts np ! j) (valid_ngram_draft np ! j))" if "j < ?B" for j
    using np'(4)[OF that] that len by (cases "j = n") (auto simp: put_draft_def nth_Cons' Suc_le_eq)
  with np' round show ?case by auto
qed

lemma read_draft_eq:
  assumes "proposer_ok np" "i \<in> set valid \<Longrightarrow> i < length (valid_ngram_draft np)"
  shows "read_draft valid np i =
    Inr (if i \<in> set valid then take (valid_ngram_num_drafts np ! i) (valid_ngram_draft np ! i) else [])"
  using assms by (auto simp: read_draft_def proposer_ok_def index_py_def)

lemma batch_propose_eq:
  assumes "proposer_ok np" "\<forall>r \<in> set valid. r < length nums \<and> r < length rows"
    and "\<forall>r \<in> set valid. r < length (valid_ngram_draft np)" "length valid \<le> length (valid_ngram_draft np)"
  shows "\<exists>np'. batch_propose n valid nums rows np = Inr (map (\<lambda>i.
      if i \<in> set valid then if i < length valid then draft_of np nums rows (valid ! i)
        else take (valid_ngram_num_drafts np ! i) (valid_ngram_draft np ! i) else []) [0..<n], np') \<and> proposer_ok np'"
proof -
  obtain np' where np': "batch_propose_numba valid nums rows np = Inr np'" "proposer_ok np'"
    "length (valid_ngram_draft np') = length (valid_ngram_draft np)"
    "\<And>j. j < length (valid_ngram_draft np) \<Longrightarrow> take (valid_ngram_num_drafts np' ! j) (valid_ngram_draft np' ! j) =
       (if j < length valid then draft_of np nums rows (valid ! j)
        else take (valid_ngram_num_drafts np ! j) (valid_ngram_draft np ! j))"
    using batch_rows[of np valid nums rows 0] assms by (auto simp: batch_propose_numba_def)
  have run: "(if valid \<noteq> [] then batch_propose_numba valid nums rows np else Inr np) = Inr np'"
    using np'(1) by (auto simp: batch_propose_numba_def)
  have "map_res (read_draft valid np') [0..<n] = Inr (map (\<lambda>i.
      if i \<in> set valid then if i < length valid then draft_of np nums rows (valid ! i)
        else take (valid_ngram_num_drafts np ! i) (valid_ngram_draft np ! i) else []) [0..<n])"
    by (rule map_res_eq) (use read_draft_eq[OF np'(2)] np'(3,4) assms(3) in auto)
  with run np'(2) show ?thesis by (simp add: batch_propose_def)
qed

section \<open>Properties\<close>

definition eligible :: "int list list \<Rightarrow> string list \<Rightarrow> nat list \<Rightarrow> string list \<Rightarrow> ngram_proposer \<Rightarrow> nat \<Rightarrow> bool" where
  "eligible sampled req_ids nums unsupported np i \<longleftrightarrow>
     sampled ! i \<noteq> [] \<and> req_ids ! i \<notin> set unsupported \<and> int (nums ! i) < np_max_model_len np"

lemma select_requests_eq:
  assumes "length sampled \<le> length req_ids" "length sampled \<le> length nums"
  shows "select_requests sampled req_ids nums unsupported np =
    Inr (filter (eligible sampled req_ids nums unsupported np) [0..<length sampled])"
proof -
  let ?f = "\<lambda>(i, ids) valid. if ids = [] then Inr valid
       else bnd (index_py req_ids i) (\<lambda>req_id. if req_id \<in> set unsupported then Inr valid
         else bnd (index_py nums i) (\<lambda>k. if np_max_model_len np \<le> int k then Inr valid else Inr (valid @ [i])))"
  let ?E = "eligible sampled req_ids nums unsupported np"
  have "for_each ?f (enumerate i ss) v = Inr (v @ filter ?E [i..<length sampled])"
    if "ss = drop i sampled" for i ss v
    using that
  proof (induction ss arbitrary: i v)
    case Nil
    then show ?case by simp
  next
    case (Cons s ss)
    have i: "i < length sampled"
    proof (rule ccontr)
      assume "\<not> i < length sampled"
      with Cons.prems show False by simp
    qed
    have s: "s = sampled ! i" "ss = drop (Suc i) sampled"
      using Cons.prems i by (simp_all add: Cons_nth_drop_Suc[symmetric])
    have "?f (i, s) v = Inr (if ?E i then v @ [i] else v)"
      using i assms by (auto simp: eligible_def s(1) index_py_def)
    moreover have "[i..<length sampled] = i # [Suc i..<length sampled]" using i by (simp add: upt_conv_Cons)
    ultimately show ?case using Cons.IH[OF s(2)] by simp
  qed
  from this[of sampled 0 "[]"] show ?thesis by (simp add: select_requests_def)
qed

text \<open>C15: The drafts of the n-gram proposer are those of the direct search: for any context and any bounds
  \<open>1 \<le> min_ngram \<le> max_ngram\<close>, the search of \<^verbatim>\<open>_find_longest_matched_ngram_and_propose_tokens\<close> ends without leaving its
  arrays, and returns the tokens that follow the earliest earlier occurrence of the longest n-gram ending the context
  whose length is within the bounds, at most \<open>k\<close> of them and none beyond the maximal model length; it
  returns nothing when there is no such n-gram.\<close>

theorem ngram_search_correct:
  assumes "0 < min_ngram" "min_ngram \<le> max_ngram"
  shows "find_longest_matched_ngram ts min_ngram max_ngram max_model_len k =
    Some (Inr (ngram_draft ts min_ngram max_ngram max_model_len k))"
  using assms by (rule ngram_search_total)

theorem ngram_search_correct_witness:
  "find_longest_matched_ngram [1, 2, 3, 4, 1, 2, 3, 5, 2, 3] 1 3 20 3 = Some (Inr [4, 1, 2])
   \<and> ngram_draft [1, 2, 3, 4, 1, 2, 3, 5, 2, 3] 1 3 20 3 = [4, 1, 2]"
proof -
  have e: "ngram_draft [1, 2, 3, 4, 1, 2, 3, 5, 2, 3] 1 3 20 3 = [4, 1, 2]" by code_simp
  from ngram_search_correct[of 1 3 "[1, 2, 3, 4, 1, 2, 3, 5, 2, 3]" 20 3] e show ?thesis by simp
qed

text \<open>C26: What a step of the proposer returns, for any batch whose buffers are large enough: requests without
  new tokens, with unsupported sampling parameters or at the maximal length get no drafts, and an eligible request \<open>i\<close>
  gets the drafts of the \<open>i\<close>-th eligible request, or what an earlier step left in row \<open>i\<close> of the buffer when there are
  not that many. The drafts are those of request \<open>i\<close> itself only while no earlier request of the batch is skipped: in
  the witness the second request gets the drafts of the third, and the third gets none.\<close>

theorem propose_result:
  fixes sampled req_ids nums unsupported np
  defines "E \<equiv> eligible sampled req_ids nums unsupported np"
  defines "valid \<equiv> filter E [0..<length sampled]"
  assumes ok: "proposer_ok np"
    and n: "length sampled \<le> length (valid_ngram_draft np)" "length sampled \<le> length req_ids"
      "length sampled \<le> length nums" "length sampled \<le> length rows"
  shows "\<exists>np'. proposer_ok np' \<and> propose sampled req_ids nums rows unsupported np = Inr (map (\<lambda>i.
      if \<not> E i then []
      else if i < length valid then draft_of np nums rows (valid ! i)
      else take (valid_ngram_num_drafts np ! i) (valid_ngram_draft np ! i)) [0..<length sampled], np')"
proof -
  have v: "\<forall>r \<in> set valid. r < length sampled" by (auto simp: valid_def)
  have "length valid \<le> length (valid_ngram_draft np)"
    using n(1) length_filter_le[of E "[0..<length sampled]"] by (simp add: valid_def)
  then obtain np' where np': "proposer_ok np'"
    and b: "batch_propose (length sampled) valid nums rows np = Inr (map (\<lambda>i.
      if i \<in> set valid then if i < length valid then draft_of np nums rows (valid ! i)
        else take (valid_ngram_num_drafts np ! i) (valid_ngram_draft np ! i) else []) [0..<length sampled], np')"
    using batch_propose_eq[OF ok, of valid nums rows] v n by fastforce
  have "propose sampled req_ids nums rows unsupported np = batch_propose (length sampled) valid nums rows np"
    using select_requests_eq[OF n(2,3)] by (simp add: propose_def valid_def E_def)
  with np' b show ?thesis by (auto simp: valid_def)
qed

theorem propose_result_witness:
  "let np = ngram_proposer_init 1 2 2 10 3;
       sampled = [[], [7], [3]]; nums = [3, 3, 3]; rows = [[5, 5, 5], [7, 8, 7], [3, 4, 3]]
   in (\<exists>np'. propose sampled [''a'', ''b'', ''c''] nums rows [] np = Inr ([[], [4, 3], []], np'))
      \<and> draft_of np nums rows 1 = [8, 7] \<and> draft_of np nums rows 2 = [4, 3]"
proof -
  let ?np = "ngram_proposer_init 1 2 2 10 3" and ?rows = "[[5, 5, 5], [7, 8, 7], [3, 4, 3]]"
  let ?s = "[[], [7], [3]] :: int list list" and ?ids = "[''a'', ''b'', ''c'']" and ?nums = "[3, 3, 3]"
  let ?E = "eligible ?s ?ids ?nums [] ?np"
  let ?v = "filter ?E [0..<length ?s]"
  have ok: "proposer_ok ?np" and len: "length (valid_ngram_draft ?np) = 3" by code_simp+
  have d: "draft_of ?np ?nums ?rows 1 = [8, 7]" "draft_of ?np ?nums ?rows 2 = [4, 3]" by code_simp+
  have l: "map (\<lambda>i. if \<not> ?E i then []
      else if i < length ?v then draft_of ?np ?nums ?rows (?v ! i)
      else take (valid_ngram_num_drafts ?np ! i) (valid_ngram_draft ?np ! i)) [0..<length ?s] = [[], [4, 3], []]"
    by code_simp
  have "\<exists>np'. proposer_ok np' \<and> propose ?s ?ids ?nums ?rows [] ?np = Inr (map (\<lambda>i. if \<not> ?E i then []
      else if i < length ?v then draft_of ?np ?nums ?rows (?v ! i)
      else take (valid_ngram_num_drafts ?np ! i) (valid_ngram_draft ?np ! i)) [0..<length ?s], np')"
    by (rule propose_result) (use ok len in simp_all)
  then show ?thesis using d unfolding Let_def l by blast
qed

text \<open>When every request of the batch is eligible, each gets its own drafts.\<close>

theorem propose_all_eligible:
  assumes "proposer_ok np" "\<forall>i<length sampled. eligible sampled req_ids nums unsupported np i"
    "length sampled \<le> length (valid_ngram_draft np)" "length sampled \<le> length req_ids"
    "length sampled \<le> length nums" "length sampled \<le> length rows"
  shows "\<exists>np'. proposer_ok np' \<and> propose sampled req_ids nums rows unsupported np =
    Inr (map (draft_of np nums rows) [0..<length sampled], np')"
proof -
  let ?n = "length sampled" and ?E = "eligible sampled req_ids nums unsupported np"
  have v: "filter ?E [0..<?n] = [0..<?n]" using assms(2) by (simp add: filter_id_conv)
  obtain np' where "proposer_ok np'" "batch_propose ?n [0..<?n] nums rows np = Inr (map (\<lambda>i.
      if i \<in> set [0..<?n] then if i < length [0..<?n] then draft_of np nums rows ([0..<?n] ! i)
        else take (valid_ngram_num_drafts np ! i) (valid_ngram_draft np ! i) else []) [0..<?n], np')"
    using batch_propose_eq[OF assms(1), of "[0..<?n]" nums rows ?n] assms(3-6) by fastforce
  moreover have "map (\<lambda>i. if i \<in> set [0..<?n] then if i < length [0..<?n] then draft_of np nums rows ([0..<?n] ! i)
        else take (valid_ngram_num_drafts np ! i) (valid_ngram_draft np ! i) else []) [0..<?n] =
      map (draft_of np nums rows) [0..<?n]" by (rule map_cong) auto
  ultimately show ?thesis using select_requests_eq[OF assms(4,5)] by (simp add: propose_def v)
qed

text \<open>The constructor ends with a call of \<^verbatim>\<open>propose\<close> on requests without tokens. It selects no request, so it neither
  changes the buffers nor reaches \<^verbatim>\<open>batch_propose_numba\<close>.\<close>

theorem warm_up_selects_nothing:
  "select_requests (replicate n []) req_ids nums unsupported np = Inr []
   \<and> propose (replicate n []) req_ids nums rows unsupported np = Inr (replicate n [], np)"
proof -
  have "for_each (\<lambda>(i, sampled_ids) valid.
       if sampled_ids = [] then Inr valid
       else bnd (index_py req_ids i) (\<lambda>req_id.
         if req_id \<in> set unsupported then Inr valid
         else bnd (index_py nums i) (\<lambda>num_tokens.
           if np_max_model_len np \<le> int num_tokens then Inr valid else Inr (valid @ [i]))))
       (enumerate i (replicate n [])) v = Inr v" for i v
    by (induction n arbitrary: i) auto
  then have "select_requests (replicate n []) req_ids nums unsupported np = Inr []" by (simp add: select_requests_def)
  moreover have "map_res (read_draft [] np) [0..<n] = Inr (map (\<lambda>_. []) [0..<n])"
    by (rule map_res_eq) (simp add: read_draft_def)
  ultimately show ?thesis by (simp add: propose_def batch_propose_def map_replicate_const)
qed

end
