(* ===== verification/Spec_Decode.thy ===== *)
theory Spec_Decode
  imports Prelude Complex_Main
begin

text \<open>
  Verification of draft tokens: the index arithmetic that selects the logits of a speculative step
  (\<^verbatim>\<open>_calc_spec_decode_metadata\<close> of \<^verbatim>\<open>vllm/v1/worker/gpu_model_runner.py\<close>) and the rejection sampler with its
  Triton kernels (\<^verbatim>\<open>vllm/v1/sample/rejection_sampler.py\<close>). Tensors are lists, two-dimensional ones lists of rows,
  and the pointers of the kernels are indices into the flattened list; probabilities are rationals.
\<close>

section \<open>Loads, stores and array operations\<close>

definition tl_load :: "'a list \<Rightarrow> int \<Rightarrow> 'a result" where
  "tl_load xs i = (if 0 \<le> i \<and> i < int (length xs) then Inr (xs ! nat i) else Inl IndexError)"

definition tl_store :: "'a list \<Rightarrow> nat \<Rightarrow> 'a \<Rightarrow> 'a list result" where
  "tl_store xs i v = (if i < length xs then Inr (xs[i := v]) else Inl IndexError)"

text \<open>Indexing a tensor by a tensor of indices; a negative index counts from the end.\<close>

definition gather_at :: "'a list \<Rightarrow> int \<Rightarrow> 'a result" where
  "gather_at xs i = tl_load xs (if i < 0 then i + int (length xs) else i)"

definition gather :: "'a list \<Rightarrow> int list \<Rightarrow> 'a list result" where
  "gather xs = map_res (gather_at xs)"

fun cumsum_from :: "nat \<Rightarrow> nat list \<Rightarrow> nat list" where
  "cumsum_from a [] = []"
| "cumsum_from a (n # ns) = (a + n) # cumsum_from (a + n) ns"

definition np_repeat :: "'a list \<Rightarrow> nat list \<Rightarrow> 'a list" where
  "np_repeat xs ns = concat (map2 (\<lambda>x n. replicate n x) xs ns)"

definition argmax :: "rat list \<Rightarrow> nat" where
  "argmax xs = length (takeWhile (\<lambda>x. x \<noteq> Max (set xs)) xs)"

section \<open>The metadata of a speculative step\<close>

definition get_cumsum_and_arange :: "nat \<Rightarrow> nat list \<Rightarrow> (nat list \<times> int list) result" where
  "get_cumsum_and_arange arange_len num_tokens =
     (let cu = cumsum_from 0 num_tokens in
      if cu = [] then Inl IndexError
      else
        let offsets = np_repeat (map2 (\<lambda>c n. int c - int n) cu num_tokens) num_tokens;
            arange = take (last cu) (map int [0..<arange_len])
        in check (length arange = length offsets) ValueError (Inr (cu, map2 (-) arange offsets)))"

record spec_decode_metadata =
  draft_token_ids :: "int list"
  num_draft_tokens :: "nat list"
  cu_num_draft_tokens :: "nat list"
  target_logits_indices :: "int list"
  bonus_logits_indices :: "int list"
  logits_indices :: "int list"
  max_spec_len :: nat

definition spec_decode_metadata_init ::
  "int list \<Rightarrow> nat list \<Rightarrow> nat list \<Rightarrow> int list \<Rightarrow> int list \<Rightarrow> int list \<Rightarrow> spec_decode_metadata result" where
  "spec_decode_metadata_init drafts nums cu target bonus logits =
     check (nums \<noteq> []) ValueError (Inr
       \<lparr>draft_token_ids = drafts, num_draft_tokens = nums, cu_num_draft_tokens = cu,
        target_logits_indices = target, bonus_logits_indices = bonus, logits_indices = logits,
        max_spec_len = Max (set nums)\<rparr>)"

definition calc_spec_decode_metadata ::
  "nat \<Rightarrow> int list \<Rightarrow> nat list \<Rightarrow> nat list \<Rightarrow> spec_decode_metadata result" where
  "calc_spec_decode_metadata arange_len input_ids num_draft cu_num_scheduled_tokens =
     (let num_sampled = map (\<lambda>n. n + 1) num_draft in
      bnd (get_cumsum_and_arange arange_len num_sampled) (\<lambda>(cu_sampled, arange).
      let logits0 = np_repeat (map2 (\<lambda>c n. int c - int n) cu_num_scheduled_tokens num_sampled) num_sampled;
          logits_idx = map2 (+) logits0 arange;
          bonus = map (\<lambda>c. int c - 1) cu_sampled in
      bnd (get_cumsum_and_arange arange_len num_draft) (\<lambda>(cu_draft, arange').
      let target = map2 (+) (np_repeat (map2 (\<lambda>c n. int c - int n) cu_sampled num_sampled) num_draft) arange' in
      bnd (gather input_ids logits_idx) (\<lambda>ids.
      bnd (gather ids (map (\<lambda>i. i + 1) target)) (\<lambda>drafts.
      spec_decode_metadata_init drafts num_draft cu_draft target bonus logits_idx)))))"

section \<open>The kernels of the rejection sampler\<close>

definition PLACEHOLDER_TOKEN_ID :: int where "PLACEHOLDER_TOKEN_ID = -1"
definition GREEDY_TEMPERATURE :: rat where "GREEDY_TEMPERATURE = -1"

text \<open>The range of a request in the flattened tensors.\<close>

definition segment :: "nat list \<Rightarrow> nat \<Rightarrow> (nat \<times> nat) result" where
  "segment cu req =
     bnd (if req = 0 then Inr 0 else index_py cu (req - 1)) (\<lambda>start.
     bnd (index_py cu req) (\<lambda>stop. Inr (start, stop - start)))"

text \<open>The loop shared by both kernels: \<open>pick\<close> gives the token for a position and whether the draft is rejected;
  the row of the request starts at \<open>base\<close>. After a rejection the remaining positions are skipped; without one
  the bonus token follows.\<close>

definition sample_pos :: "(nat \<Rightarrow> (int \<times> bool) result) \<Rightarrow> nat \<Rightarrow> nat \<Rightarrow> bool \<times> int list \<Rightarrow> (bool \<times> int list) result" where
  "sample_pos pick base pos = (\<lambda>(rejected, out).
     if rejected then Inr (rejected, out)
     else bnd (pick pos) (\<lambda>(token_id, reject).
       bnd (tl_store out (base + pos) token_id) (\<lambda>out'. Inr (reject, out'))))"

definition sample_row :: "(nat \<Rightarrow> (int \<times> bool) result) \<Rightarrow> int list \<Rightarrow> nat \<Rightarrow> nat \<Rightarrow> nat \<Rightarrow> int list \<Rightarrow> int list result" where
  "sample_row pick bonus_token_ids req base num_draft out =
     bnd (for_each (sample_pos pick base) [0..<num_draft] (False, out)) (\<lambda>(rejected, out').
     if rejected then Inr out'
     else bnd (index_py bonus_token_ids req) (\<lambda>bonus. tl_store out' (base + num_draft) bonus))"

definition choose_greedy :: "int list \<Rightarrow> int list \<Rightarrow> nat \<Rightarrow> nat \<Rightarrow> (int \<times> bool) result" where
  "choose_greedy drafts target_argmax start pos =
     bnd (index_py drafts (start + pos)) (\<lambda>draft_token_id.
     bnd (index_py target_argmax (start + pos)) (\<lambda>target_argmax_id.
     Inr (target_argmax_id, draft_token_id \<noteq> target_argmax_id)))"

definition rejection_greedy_sample_kernel ::
  "nat list \<Rightarrow> int list \<Rightarrow> int list \<Rightarrow> int list \<Rightarrow> bool list option \<Rightarrow> nat \<Rightarrow> nat \<Rightarrow> int list \<Rightarrow> int list result" where
  "rejection_greedy_sample_kernel cu drafts target_argmax bonus is_greedy max_len req out =
     bnd (case is_greedy of None \<Rightarrow> Inr True | Some gs \<Rightarrow> index_py gs req) (\<lambda>greedy.
     if \<not> greedy then Inr out
     else bnd (segment cu req) (\<lambda>(start, num).
       sample_row (choose_greedy drafts target_argmax start) bonus req (req * (max_len + 1)) num out))"

definition choose_random ::
  "nat \<Rightarrow> int list \<Rightarrow> rat list list option \<Rightarrow> rat list list \<Rightarrow> int list \<Rightarrow> rat list \<Rightarrow> nat \<Rightarrow> nat \<Rightarrow> (int \<times> bool) result" where
  "choose_random vocab drafts draft_probs target_probs recovered uniform start pos =
     bnd (index_py drafts (start + pos)) (\<lambda>draft_token_id.
     let loc = int ((start + pos) * vocab) + draft_token_id in
     bnd (case draft_probs of None \<Rightarrow> Inr 1 | Some ps \<Rightarrow> tl_load (concat ps) loc) (\<lambda>draft_prob.
     bnd (tl_load (concat target_probs) loc) (\<lambda>target_prob.
     bnd (index_py uniform (start + pos)) (\<lambda>uniform_prob.
     if draft_prob > 0 \<and> target_prob / draft_prob \<ge> uniform_prob then Inr (draft_token_id, False)
     else bnd (index_py recovered (start + pos)) (\<lambda>token_id. Inr (token_id, True))))))"

definition rejection_random_sample_kernel ::
  "nat \<Rightarrow> nat list \<Rightarrow> int list \<Rightarrow> rat list list option \<Rightarrow> rat list list \<Rightarrow> int list \<Rightarrow> int list \<Rightarrow> rat list \<Rightarrow> bool list
    \<Rightarrow> nat \<Rightarrow> nat \<Rightarrow> int list \<Rightarrow> int list result" where
  "rejection_random_sample_kernel vocab cu drafts draft_probs target_probs bonus recovered uniform is_greedy max_len req out =
     bnd (index_py is_greedy req) (\<lambda>greedy.
     if greedy then Inr out
     else bnd (segment cu req) (\<lambda>(start, num).
       sample_row (choose_random vocab drafts draft_probs target_probs recovered uniform start) bonus req
         (req * (max_len + 1)) num out))"

section \<open>Random numbers and recovered tokens\<close>

text \<open>A generator is a value from which \<open>draw\<close> takes numbers; requests with a seed have their own.\<close>

definition generate_uniform_probs ::
  "('g \<Rightarrow> nat \<Rightarrow> rat list \<times> 'g) \<Rightarrow> rat list \<Rightarrow> nat list \<Rightarrow> (nat \<rightharpoonup> 'g) \<Rightarrow> rat list \<times> (nat \<rightharpoonup> 'g)" where
  "generate_uniform_probs draw_uniform rand num_draft generators =
     (let (probs, gens, _) = fold (\<lambda>(req, n) (probs, gens, start).
        if n = 0 then (probs, gens, start)
        else case gens req of
            None \<Rightarrow> (probs, gens, start + n)
          | Some g \<Rightarrow> let (us, g') = draw_uniform g n
                     in (take start probs @ us @ drop (start + n) probs, gens(req \<mapsto> g'), start + n))
        (enumerate 0 num_draft) (rand, generators, 0)
      in (probs, gens))"

function pow2_from :: "nat \<Rightarrow> nat \<Rightarrow> nat" where
  "pow2_from p n = (if 0 < p \<and> p < n then pow2_from (2 * p) n else p)"
  by pat_completeness auto
termination by (relation "measure (\<lambda>(p, n). n - p)") auto

declare pow2_from.simps [simp del]

definition next_power_of_2 :: "nat \<Rightarrow> nat" where
  "next_power_of_2 n = pow2_from 1 n"

text \<open>The adjusted probability at a vocabulary offset: without draft probabilities, the target probability of every
  token but the draft.\<close>

definition recovered_prob ::
  "nat \<Rightarrow> int list \<Rightarrow> rat list list option \<Rightarrow> rat list list \<Rightarrow> nat \<Rightarrow> nat \<Rightarrow> rat result" where
  "recovered_prob vocab drafts draft_probs target_probs p v =
     (if vocab \<le> v then Inr 0
      else case draft_probs of
          None \<Rightarrow> bnd (index_py drafts p) (\<lambda>d. if int v = d then Inr 0 else tl_load (concat target_probs) (int (p * vocab + v)))
        | Some ps \<Rightarrow>
            bnd (tl_load (concat ps) (int (p * vocab + v))) (\<lambda>dp.
            bnd (tl_load (concat target_probs) (int (p * vocab + v))) (\<lambda>tp. Inr (max (tp - dp) 0))))"

text \<open>The quotient of the adjusted probability and the exponential noise; past the vocabulary the noise is loaded as minus
  infinity and the quotient is zero.\<close>

definition recovered_score ::
  "nat \<Rightarrow> int list \<Rightarrow> rat list list option \<Rightarrow> rat list list \<Rightarrow> rat list list \<Rightarrow> nat \<Rightarrow> nat \<Rightarrow> nat \<Rightarrow> rat result" where
  "recovered_score vocab drafts draft_probs target_probs q req p v =
     bnd (recovered_prob vocab drafts draft_probs target_probs p v) (\<lambda>prob.
     if vocab \<le> v then Inr 0 else bnd (tl_load (concat q) (int (req * vocab + v))) (\<lambda>noise. Inr (prob / noise)))"

definition sample_recovered_tokens_kernel ::
  "nat \<Rightarrow> nat list \<Rightarrow> int list \<Rightarrow> rat list list option \<Rightarrow> rat list list \<Rightarrow> rat list list \<Rightarrow> nat \<times> nat \<Rightarrow> int list \<Rightarrow> int list result" where
  "sample_recovered_tokens_kernel vocab cu drafts draft_probs target_probs q = (\<lambda>(req, pos) out.
     bnd (segment cu req) (\<lambda>(start, num).
     if num \<le> pos then Inr out
     else bnd (map_res (recovered_score vocab drafts draft_probs target_probs q req (start + pos)) [0..<next_power_of_2 vocab])
       (\<lambda>scores. tl_store out (start + pos) (int (argmax scores)))))"

text \<open>The noise of all requests, with the rows of seeded requests that have drafts drawn from their generators.\<close>

definition exponential_noise ::
  "('g \<Rightarrow> nat \<Rightarrow> rat list \<times> 'g) \<Rightarrow> rat list list \<Rightarrow> nat \<Rightarrow> nat list \<Rightarrow> nat list \<Rightarrow> (nat \<rightharpoonup> 'g) \<Rightarrow> (rat list list \<times> (nat \<rightharpoonup> 'g)) result" where
  "exponential_noise draw_exp q0 vocab num_draft seeded generators =
     for_each (\<lambda>i (q, gens).
       bnd (lookup_py gens i) (\<lambda>g. bnd (index_py num_draft i) (\<lambda>n.
       if 0 < n then bnd (index_py q i) (\<lambda>_. let (es, g') = draw_exp g vocab in Inr (q[i := es], gens(i \<mapsto> g')))
       else Inr (q, gens)))) seeded (q0, generators)"

definition sample_recovered_tokens ::
  "nat \<Rightarrow> nat \<Rightarrow> nat \<Rightarrow> nat list \<Rightarrow> int list \<Rightarrow> rat list list option \<Rightarrow> rat list list \<Rightarrow> rat list list \<Rightarrow> int list result" where
  "sample_recovered_tokens max_len batch vocab cu drafts draft_probs target_probs q =
     for_each (sample_recovered_tokens_kernel vocab cu drafts draft_probs target_probs q)
       (List.product [0..<batch] [0..<max_len]) (replicate (length drafts) 0)"

section \<open>The sampler\<close>

record 'g sampling_metadata =
  all_greedy :: bool
  all_random :: bool
  temperature :: "rat list"
  generators :: "nat \<rightharpoonup> 'g"
  seeded_reqs :: "nat list"

text \<open>The sources of random numbers: the draws of a generator, and the unseeded numbers of this call.\<close>

record 'g randomness =
  uniform_draw :: "'g \<Rightarrow> nat \<Rightarrow> rat list \<times> 'g"
  exponential_draw :: "'g \<Rightarrow> nat \<Rightarrow> rat list \<times> 'g"
  unseeded_uniform :: "rat list"
  unseeded_exponential :: "rat list list"

definition unflatten :: "nat \<Rightarrow> nat \<Rightarrow> 'a list \<Rightarrow> 'a list list" where
  "unflatten rows width xs = map (\<lambda>i. take width (drop (i * width) xs)) [0..<rows]"

definition random_pass ::
  "'g randomness \<Rightarrow> int list \<Rightarrow> nat list \<Rightarrow> nat \<Rightarrow> nat list \<Rightarrow> rat list list option \<Rightarrow> rat list list \<Rightarrow> nat \<Rightarrow> int list
    \<Rightarrow> 'g sampling_metadata \<Rightarrow> bool list option \<Rightarrow> int list \<Rightarrow> int list result" where
  "random_pass rnd drafts nums max_len cu draft_probs target_probs vocab bonus sm is_greedy out =
     (let (uniform, gens) = generate_uniform_probs (uniform_draw rnd) (unseeded_uniform rnd) nums (generators sm) in
      bnd (exponential_noise (exponential_draw rnd) (unseeded_exponential rnd) vocab nums (seeded_reqs sm) gens) (\<lambda>(q, _).
      bnd (sample_recovered_tokens max_len (length nums) vocab cu drafts draft_probs target_probs q) (\<lambda>recovered.
      bnd (case is_greedy of None \<Rightarrow> Inl TypeError | Some gs \<Rightarrow> Inr gs) (\<lambda>gs.
      for_each (rejection_random_sample_kernel vocab cu drafts draft_probs target_probs bonus recovered uniform gs max_len)
        [0..<length nums] out))))"

definition rejection_sample ::
  "'g randomness \<Rightarrow> int list \<Rightarrow> nat list \<Rightarrow> nat \<Rightarrow> nat list \<Rightarrow> rat list list option \<Rightarrow> rat list list \<Rightarrow> nat \<Rightarrow> int list
    \<Rightarrow> 'g sampling_metadata \<Rightarrow> int list list result" where
  "rejection_sample rnd drafts nums max_len cu draft_probs target_probs vocab bonus sm =
     check (length target_probs = length drafts \<and> (\<forall>row \<in> set target_probs. length row = vocab)) AssertionError
     (let batch = length nums;
          out0 = replicate (batch * (max_len + 1)) PLACEHOLDER_TOKEN_ID;
          is_greedy = (if all_greedy sm then None else Some (map (\<lambda>t. t = GREEDY_TEMPERATURE) (temperature sm)))
      in bnd (if all_random sm then Inr out0
              else for_each (rejection_greedy_sample_kernel cu drafts (map (int \<circ> argmax) target_probs) bonus is_greedy max_len)
                     [0..<batch] out0) (\<lambda>out1.
         bnd (if \<not> all_random sm \<and> all_greedy sm then Inr out1
              else random_pass rnd drafts nums max_len cu draft_probs target_probs vocab bonus sm is_greedy out1) (\<lambda>out2.
         Inr (unflatten batch (max_len + 1) out2))))"

definition parse_output :: "int list list \<Rightarrow> nat \<Rightarrow> int list list" where
  "parse_output output_token_ids vocab_size =
     map (filter (\<lambda>t. t \<noteq> PLACEHOLDER_TOKEN_ID \<and> t < int vocab_size)) output_token_ids"

section \<open>Expanding per-request values\<close>

text \<open>Uninitialised memory (\<^verbatim>\<open>new_empty\<close>, \<^verbatim>\<open>empty_like\<close>) is filled with an arbitrary value.\<close>

definition MAX_SPEC_LEN :: nat where "MAX_SPEC_LEN = 128"

definition expand_kernel :: "nat list \<Rightarrow> 'a list \<Rightarrow> 'a \<Rightarrow> 'a \<Rightarrow> nat \<Rightarrow> nat \<Rightarrow> 'a list \<Rightarrow> 'a list result" where
  "expand_kernel cu xs replace_from replace_to max_num_tokens req out =
     bnd (segment cu req) (\<lambda>(start, num).
     bnd (index_py xs req) (\<lambda>src.
     let val = (if src = replace_from then replace_to else src) in
     for_each (\<lambda>offset out. if offset < num then tl_store out (start + offset) val else Inr out) [0..<max_num_tokens] out))"

definition expand_batch_to_tokens :: "'a list \<Rightarrow> nat list \<Rightarrow> nat \<Rightarrow> 'a \<Rightarrow> 'a \<Rightarrow> 'a list result" where
  "expand_batch_to_tokens xs cu num_tokens replace_from replace_to =
     check (length cu = length xs) AssertionError
       (for_each (expand_kernel cu xs replace_from replace_to MAX_SPEC_LEN) [0..<length xs]
         (replicate num_tokens replace_to))"

section \<open>One speculative step\<close>

text \<open>The sampler module on the logits of a step: greedy batches use the logits as they are, other batches the
  probabilities \<open>probs_of\<close> computes from them. The bonus tokens come from the ordinary sampler, a parameter that is
  \<open>greedy_sample\<close> for a greedy batch.\<close>

definition greedy_sample :: "rat list list \<Rightarrow> int list" where
  "greedy_sample logits = map (int \<circ> argmax) logits"

definition rejection_forward ::
  "'g randomness \<Rightarrow> (rat list list \<Rightarrow> rat list list) \<Rightarrow> spec_decode_metadata \<Rightarrow> rat list list option \<Rightarrow> rat list list \<Rightarrow> nat
    \<Rightarrow> int list \<Rightarrow> 'g sampling_metadata \<Rightarrow> int list list result" where
  "rejection_forward rnd probs_of md draft_probs target_logits vocab bonus sm =
     check (max_spec_len md \<le> MAX_SPEC_LEN) AssertionError
       (rejection_sample rnd (draft_token_ids md) (num_draft_tokens md) (max_spec_len md) (cu_num_draft_tokens md)
          draft_probs (if all_greedy sm then target_logits else probs_of target_logits) vocab bonus sm)"

definition sample_speculative ::
  "'g randomness \<Rightarrow> (rat list list \<Rightarrow> rat list list) \<Rightarrow> (rat list list \<Rightarrow> int list) \<Rightarrow> spec_decode_metadata \<Rightarrow> rat list list
    \<Rightarrow> nat \<Rightarrow> 'g sampling_metadata \<Rightarrow> int list list result" where
  "sample_speculative rnd probs_of sampler md logits vocab sm =
     bnd (gather logits (bonus_logits_indices md)) (\<lambda>bonus_logits.
     bnd (gather logits (target_logits_indices md)) (\<lambda>target_logits.
     rejection_forward rnd probs_of md None target_logits vocab (sampler bonus_logits) sm))"

section \<open>Cumulative sums and ranges\<close>

fun starts :: "nat \<Rightarrow> nat list \<Rightarrow> nat list" where
  "starts a [] = []"
| "starts a (n # ns) = a # starts (a + n) ns"

lemma length_cumsum [simp]: "length (cumsum_from a ns) = length ns"
  by (induction ns arbitrary: a) auto

lemma length_starts [simp]: "length (starts a ns) = length ns"
  by (induction ns arbitrary: a) auto

lemma cumsum_eq_Nil [simp]: "cumsum_from a ns = [] \<longleftrightarrow> ns = []"
  by (cases ns) auto

lemma nth_cumsum: "i < length ns \<Longrightarrow> cumsum_from a ns ! i = a + sum_list (take (Suc i) ns)"
  by (induction ns arbitrary: a i) (auto simp: nth_Cons' add.assoc gr0_conv_Suc)

lemma last_cumsum: "ns \<noteq> [] \<Longrightarrow> last (cumsum_from a ns) = a + sum_list ns"
  by (simp add: last_conv_nth nth_cumsum)

lemma cumsum_minus: "map2 (\<lambda>c n. int c - int n) (cumsum_from a ns) ns = map int (starts a ns)"
  by (induction ns arbitrary: a) auto

lemma np_repeat_Cons [simp]: "np_repeat (x # xs) (n # ns) = replicate n x @ np_repeat xs ns"
  by (simp add: np_repeat_def)

lemma np_repeat_Nil [simp]: "np_repeat [] ns = []" "np_repeat xs [] = []"
  by (simp_all add: np_repeat_def)

lemma length_np_repeat: "length xs = length ns \<Longrightarrow> length (np_repeat xs ns) = sum_list ns"
  by (induction xs ns rule: list_induct2) auto

definition ranges :: "nat list \<Rightarrow> int list" where
  "ranges ns = concat (map (\<lambda>n. map int [0..<n]) ns)"

lemma map2_append:
  "length xs = length ys \<Longrightarrow> map2 f (xs @ xs') (ys @ ys') = map2 f xs ys @ map2 f xs' ys'"
  by simp

lemma length_ranges [simp]: "length (ranges ns) = sum_list ns"
  by (induction ns) (auto simp: ranges_def)

lemma arange_minus_starts:
  "map2 (-) (map int [a..<a + sum_list ns]) (np_repeat (map int (starts a ns)) ns) = ranges ns"
proof (induction ns arbitrary: a)
  case (Cons n ns)
  have "[a..<a + sum_list (n # ns)] = [a..<a + n] @ [a + n..<a + n + sum_list ns]"
    using upt_add_eq_append[of a "a + n" "sum_list ns"] by (simp add: add.assoc)
  moreover have "map2 (-) (map int [a..<a + n]) (replicate n (int a)) = map int [0..<n]"
    by (rule nth_equalityI) auto
  ultimately show ?case using Cons.IH[of "a + n"] by (simp add: ranges_def)
qed (simp add: ranges_def)

text \<open>The batched range is, as the source says, the concatenation of one range per request.\<close>

lemma cumsum_and_arange_eq:
  assumes "ns \<noteq> []" "sum_list ns \<le> arange_len"
  shows "get_cumsum_and_arange arange_len ns = Inr (cumsum_from 0 ns, ranges ns)"
proof -
  have t: "take (sum_list ns) (map int [0..<arange_len]) = map int [0..<0 + sum_list ns]"
    using assms(2) by (simp add: take_map take_upt)
  show ?thesis using assms arange_minus_starts[of 0 ns]
    by (simp add: get_cumsum_and_arange_def Let_def last_cumsum cumsum_minus t length_np_repeat del: add_0)
qed

lemma repeat_plus_ranges:
  "length xs = length ns \<Longrightarrow>
    map2 (+) (np_repeat xs ns) (ranges ns) = concat (map2 (\<lambda>x n. map (\<lambda>k. x + int k) [0..<n]) xs ns)"
proof (induction xs ns rule: list_induct2)
  case (Cons x xs n ns)
  have "map2 (+) (replicate n x) (map int [0..<n]) = map (\<lambda>k. x + int k) [0..<n]"
    by (rule nth_equalityI) auto
  with Cons.IH show ?case by (simp add: ranges_def)
qed (simp add: ranges_def)

section \<open>Gathering segments\<close>

lemma gather_append: "gather xs (is @ js) = bnd (gather xs is) (\<lambda>ys. bnd (gather xs js) (\<lambda>zs. Inr (ys @ zs)))"
  unfolding gather_def by (induction "is") (auto simp: bnd_def split: sum.splits)

lemma gather_slice:
  assumes "lo + n \<le> length xs"
  shows "gather (pre @ xs @ post) (map (\<lambda>k. int (length pre + lo) + int k) [0..<n]) = Inr (take n (drop lo xs))"
proof -
  let ?is = "map (\<lambda>k. int (length pre + lo) + int k) [0..<n]"
  have "list_all2 (\<lambda>i y. gather_at (pre @ xs @ post) i = Inr y) ?is (take n (drop lo xs))"
    using assms by (auto simp: list_all2_conv_all_nth gather_at_def tl_load_def nth_append nat_add_distrib)
  then show ?thesis by (simp add: gather_def map_res_Inr_iff)
qed

text \<open>From segment \<open>t\<close>, \<open>n\<close> elements from \<open>lo\<close> on.\<close>

lemma gather_segments:
  assumes "\<forall>(t, lo, n) \<in> set rs. lo + n \<le> length t"
  shows "gather (pre @ concat (map fst rs) @ post)
      (concat (map2 (\<lambda>s (t, lo, n). map (\<lambda>k. int (s + lo) + int k) [0..<n]) (starts (length pre) (map (length \<circ> fst) rs)) rs))
    = Inr (concat (map (\<lambda>(t, lo, n). take n (drop lo t)) rs))"
  using assms
proof (induction rs arbitrary: pre)
  case Nil
  then show ?case by (simp add: gather_def)
next
  case (Cons r rs)
  obtain t lo n where r: "r = (t, lo, n)" by (cases r)
  have "lo + n \<le> length t" using Cons.prems by (simp add: r)
  from gather_slice[OF this, of pre "concat (map fst rs) @ post"] Cons.IH[of "pre @ t"] Cons.prems
  show ?case by (simp add: r gather_append)
qed

lemma gather_tails:
  assumes "list_all2 (\<lambda>x n. n \<le> length x) xs ns"
  shows "gather (concat xs @ post) (concat (map2 (\<lambda>x n. map (\<lambda>k. x + int k) [0..<n])
      (map2 (\<lambda>c n. int c - int n) (cumsum_from 0 (map length xs)) ns) ns))
    = Inr (concat (map2 (\<lambda>x n. drop (length x - n) x) xs ns))"
proof -
  let ?rs = "map2 (\<lambda>x n. (x, length x - n, n)) xs ns"
  have "map2 (\<lambda>x n. map (\<lambda>k. x + int k) [0..<n]) (map2 (\<lambda>c n. int c - int n) (cumsum_from a (map length xs)) ns) ns =
      map2 (\<lambda>s (t, lo, n). map (\<lambda>k. int (s + lo) + int k) [0..<n]) (starts a (map (length \<circ> fst) ?rs)) ?rs" for a
    using assms by (induction xs ns arbitrary: a rule: list_all2_induct) (auto simp: of_nat_diff)
  note ix = this[of 0]
  have "map fst ?rs = xs" using assms by (induction xs ns rule: list_all2_induct) auto
  moreover have "concat (map (\<lambda>(t, lo, n). take n (drop lo t)) ?rs) = concat (map2 (\<lambda>x n. drop (length x - n) x) xs ns)"
    using assms by (induction xs ns rule: list_all2_induct) auto
  moreover have "\<forall>(t, lo, n) \<in> set ?rs. lo + n \<le> length t"
    using assms by (induction xs ns rule: list_all2_induct) auto
  ultimately show ?thesis using gather_segments[of ?rs "[]" post] by (simp add: ix)
qed

lemma gather_rows:
  assumes "list_all2 (\<lambda>r n. length r = Suc n) rs ns" "lo \<le> 1"
  shows "gather (concat rs) (concat (map2 (\<lambda>x n. map (\<lambda>k. x + int lo + int k) [0..<n]) (map int (starts 0 (map Suc ns))) ns))
    = Inr (concat (map2 (\<lambda>r n. take n (drop lo r)) rs ns))"
proof -
  let ?rs = "map2 (\<lambda>r n. (r, lo, n)) rs ns"
  have "map2 (\<lambda>x n. map (\<lambda>k. x + int lo + int k) [0..<n]) (map int (starts a (map Suc ns))) ns =
      map2 (\<lambda>s (t, lo, n). map (\<lambda>k. int (s + lo) + int k) [0..<n]) (starts a (map (length \<circ> fst) ?rs)) ?rs" for a
    using assms(1) by (induction rs ns arbitrary: a rule: list_all2_induct) auto
  note ix = this[of 0]
  have "map fst ?rs = rs" using assms(1) by (induction rs ns rule: list_all2_induct) auto
  moreover have "concat (map (\<lambda>(t, lo, n). take n (drop lo t)) ?rs) = concat (map2 (\<lambda>r n. take n (drop lo r)) rs ns)"
    using assms(1) by (induction rs ns rule: list_all2_induct) auto
  moreover have "\<forall>(t, lo, n) \<in> set ?rs. lo + n \<le> length t"
    using assms by (induction rs ns rule: list_all2_induct) auto
  ultimately show ?thesis using gather_segments[of ?rs "[]" "[]"] by (simp add: ix)
qed

lemma gather_lasts:
  assumes "list_all2 (\<lambda>r n. length r = Suc n) rs ns"
  shows "gather (concat rs) (map (\<lambda>c. int c - 1) (cumsum_from 0 (map Suc ns))) = Inr (map last rs)"
proof -
  let ?rs = "map2 (\<lambda>r n. (r, n, Suc 0)) rs ns"
  have "map (\<lambda>c. int c - 1) (cumsum_from a (map Suc ns)) =
      concat (map2 (\<lambda>s (t, lo, n). map (\<lambda>k. int (s + lo) + int k) [0..<n]) (starts a (map (length \<circ> fst) ?rs)) ?rs)" for a
    using assms by (induction rs ns arbitrary: a rule: list_all2_induct) auto
  note ix = this[of 0]
  have "map fst ?rs = rs" using assms by (induction rs ns rule: list_all2_induct) auto
  moreover have "concat (map (\<lambda>(t, lo, n). take n (drop lo t)) ?rs) = map last rs"
    using assms
  proof (induction rs ns rule: list_all2_induct)
    case (Cons r rs n ns)
    then have "take 1 (drop n r) = [last r]" by (cases r rule: rev_cases) auto
    with Cons show ?case by simp
  qed simp
  moreover have "\<forall>(t, lo, n) \<in> set ?rs. lo + n \<le> length t"
    using assms by (induction rs ns rule: list_all2_induct) auto
  ultimately show ?thesis using gather_segments[of ?rs "[]" "[]"] by (simp add: ix)
qed

text \<open>The metadata of a batch whose requests have the scheduled tokens \<open>segs\<close>, the last \<open>d\<close> of each being drafts: the draft
  tokens are those, the logits indices select the last \<open>d + 1\<close> positions of each request, and among these the target
  indices select all but the last and the bonus indices the last.\<close>

lemma metadata_ok:
  assumes segs: "list_all2 (\<lambda>s n. n < length s) segs ds" "segs \<noteq> []" and len: "sum_list (map Suc ds) \<le> arange_len"
  obtains md where "calc_spec_decode_metadata arange_len (concat segs @ pad) ds (cumsum_from 0 (map length segs)) = Inr md"
    "draft_token_ids md = concat (map2 (\<lambda>s n. drop (length s - n) s) segs ds)"
    "num_draft_tokens md = ds" "cu_num_draft_tokens md = cumsum_from 0 ds" "max_spec_len md = Max (set ds)"
    "\<And>(xs :: 'a list list) post. map length xs = map length segs \<Longrightarrow>
       gather (concat xs @ post) (logits_indices md) = Inr (concat (map2 (\<lambda>x n. drop (length x - Suc n) x) xs ds))"
    "\<And>rs :: 'a list list. list_all2 (\<lambda>r n. length r = Suc n) rs ds \<Longrightarrow>
       gather (concat rs) (target_logits_indices md) = Inr (concat (map butlast rs))"
    "\<And>rs :: 'a list list. list_all2 (\<lambda>r n. length r = Suc n) rs ds \<Longrightarrow>
       gather (concat rs) (bonus_logits_indices md) = Inr (map last rs)"
proof -
  let ?L = "concat (map2 (\<lambda>x n. map (\<lambda>k. x + int k) [0..<n])
      (map2 (\<lambda>c n. int c - int n) (cumsum_from 0 (map length segs)) (map Suc ds)) (map Suc ds))"
  let ?T = "concat (map2 (\<lambda>x n. map (\<lambda>k. x + int k) [0..<n]) (map int (starts 0 (map Suc ds))) ds)"
  let ?B = "map (\<lambda>c. int c - 1) (cumsum_from 0 (map Suc ds))"
  let ?md = "\<lparr>draft_token_ids = concat (map2 (\<lambda>s n. drop (length s - n) s) segs ds), num_draft_tokens = ds,
     cu_num_draft_tokens = cumsum_from 0 ds, target_logits_indices = ?T, bonus_logits_indices = ?B,
     logits_indices = ?L, max_spec_len = Max (set ds)\<rparr>"
  have l: "length ds = length segs" and ne: "ds \<noteq> []" using segs by (auto dest: list_all2_lengthD)
  have "sum_list ds \<le> sum_list (map Suc ds)" by (induction ds) auto
  then have len': "sum_list ds \<le> arange_len" using len by simp
  have logits: "gather (concat xs @ post) ?L = Inr (concat (map2 (\<lambda>x n. drop (length x - Suc n) x) xs ds))"
    if "map length xs = map length segs" for xs :: "'b list list" and post
  proof -
    have lx: "length xs = length segs" using that by (rule map_eq_imp_length_eq)
    have "length (xs ! i) = length (segs ! i)" if "i < length segs" for i
      using arg_cong[OF \<open>map length xs = map length segs\<close>, of "\<lambda>l. l ! i"] lx that by simp
    then have "list_all2 (\<lambda>x n. n \<le> length x) xs (map Suc ds)"
      using segs(1) lx by (simp add: list_all2_conv_all_nth Suc_le_eq)
    from gather_tails[OF this, of post] that show ?thesis by (simp add: zip_map2 split_def comp_def)
  qed
  have target: "gather (concat rs) ?T = Inr (concat (map butlast rs))"
    if "list_all2 (\<lambda>r n. length r = Suc n) rs ds" for rs :: "'b list list"
  proof -
    have "map2 (\<lambda>r n. take n (drop 0 r)) rs ds = map butlast rs"
      using that by (induction rs ds rule: list_all2_induct) (auto simp: butlast_conv_take)
    with gather_rows[OF that, of 0] show ?thesis by simp
  qed
  let ?tails = "map2 (\<lambda>x n. drop (length x - Suc n) x) segs ds"
  have tl: "list_all2 (\<lambda>r n. length r = Suc n) ?tails ds"
    using segs(1) by (auto simp: list_all2_conv_all_nth)
  have "map (\<lambda>i. i + 1) ?T = concat (map2 (\<lambda>x n. map (\<lambda>k. x + int 1 + int k) [0..<n]) (map int (starts 0 (map Suc ds))) ds)"
    by (simp add: map_concat split_def comp_def algebra_simps)
  moreover have "map2 (\<lambda>r n. take n (drop 1 r)) ?tails ds = map2 (\<lambda>s n. drop (length s - n) s) segs ds"
    using segs(1) by (induction segs ds rule: list_all2_induct) (auto simp: Suc_diff_Suc)
  ultimately have drafts: "gather (concat ?tails) (map (\<lambda>i. i + 1) ?T) = Inr (draft_token_ids ?md)"
    using gather_rows[OF tl, of 1] by simp
  have "calc_spec_decode_metadata arange_len (concat segs @ pad) ds (cumsum_from 0 (map length segs)) = Inr ?md"
    using cumsum_and_arange_eq[of "map Suc ds" arange_len] cumsum_and_arange_eq[OF ne len'] ne len l
      repeat_plus_ranges[of "map2 (\<lambda>c n. int c - int n) (cumsum_from 0 (map length segs)) (map Suc ds)" "map Suc ds"]
      repeat_plus_ranges[of "map int (starts 0 (map Suc ds))" ds] logits[of segs pad] drafts
    by (simp add: calc_spec_decode_metadata_def spec_decode_metadata_init_def Let_def cumsum_minus del: map_map)
  then show thesis
    by (rule that) (use logits target gather_lasts in simp_all)
qed

end
