(* ===== verification/Spec_Sampling.thy ===== *)
theory Spec_Sampling
  imports Spec_Decode
begin

text \<open>
  Correctness of the rejection sampler: the rows its kernels write, losslessness of speculation for greedy batches,
  the support of sampled batches, and the expansion of per-request values to tokens.
\<close>

section \<open>The rows the kernels write\<close>

text \<open>The tokens for a request whose positions have the choices \<open>cs\<close>: up to the first rejection, or all and the bonus.\<close>

fun emit :: "(int \<times> bool) list \<Rightarrow> int \<Rightarrow> int list" where
  "emit [] bonus = [bonus]"
| "emit ((t, rejected) # cs) bonus = t # (if rejected then [] else emit cs bonus)"

lemma length_emit: "length (emit cs bonus) \<le> Suc (length cs)"
  by (induction cs) auto

lemma emit_nonempty [simp]: "emit cs bonus \<noteq> []"
  by (cases cs rule: list.exhaust) auto

lemma sample_pos_rejected: "for_each (sample_pos pick base) ps (True, out) = Inr (True, out)"
  by (induction ps) (auto simp: sample_pos_def)

lemma sample_row_from:
  assumes "\<And>p. p < length cs \<Longrightarrow> pick (i + p) = Inr (cs ! p)" "base + i + length cs < length out"
    and "index_py bonus_ids req = Inr bonus"
  shows "bnd (for_each (sample_pos pick base) [i..<i + length cs] (False, out)) (\<lambda>(rejected, out').
      if rejected then Inr out' else bnd (index_py bonus_ids req) (\<lambda>b. tl_store out' (base + (i + length cs)) b))
    = Inr (take (base + i) out @ emit cs bonus @ drop (base + i + length (emit cs bonus)) out)"
  using assms(1,2)
proof (induction cs arbitrary: i out)
  case Nil
  then show ?case using assms(3) by (simp add: index_py_def tl_store_def upd_conv_take_nth_drop split: if_splits)
next
  case (Cons c cs)
  obtain t rej where c: "c = (t, rej)" by (cases c)
  let ?out = "out[base + i := t]"
  have u: "[i..<i + length (c # cs)] = i # [Suc i..<Suc i + length cs]"
    using upt_conv_Cons[of i "i + length (c # cs)"] by (simp del: upt_Suc)
  have s: "sample_pos pick base i (False, out) = Inr (rej, ?out)"
    using Cons.prems by (force simp: sample_pos_def tl_store_def c)
  have tk: "take (Suc (base + i)) ?out = take (base + i) out @ [t]"
    using Cons.prems(2) by (simp add: take_Suc_conv_app_nth)
  have dr: "drop (base + Suc i + n) ?out = drop (base + Suc i + n) out" for n by simp
  show ?case
  proof (cases rej)
    case True
    then show ?thesis unfolding u using Cons.prems(2)
      by (simp add: s c sample_pos_rejected upd_conv_take_nth_drop del: upt_Suc)
  next
    case False
    have "pick (Suc i + p) = Inr (cs ! p)" if "p < length cs" for p
      using Cons.prems(1)[of "Suc p"] that by simp
    from Cons.IH[OF this, of ?out] Cons.prems(2) False tk dr show ?thesis
      unfolding u by (simp add: s c del: upt_Suc cong del: if_weak_cong)
  qed
qed

lemma sample_row_eq:
  assumes "\<And>p. p < length cs \<Longrightarrow> pick p = Inr (cs ! p)" "base + length cs < length out" "req < length bonus_ids"
  shows "sample_row pick bonus_ids req base (length cs) out =
    Inr (take base out @ emit cs (bonus_ids ! req) @ drop (base + length (emit cs (bonus_ids ! req))) out)"
  using sample_row_from[of cs pick 0 base out bonus_ids req] assms
  by (simp add: sample_row_def index_py_def cong del: if_weak_cong)

text \<open>The output buffer as a list of rows of equal width.\<close>

definition put_row :: "int list \<Rightarrow> int list \<Rightarrow> int list" where
  "put_row new old = new @ drop (length new) old"

lemma length_put_row [simp]: "length new \<le> length old \<Longrightarrow> length (put_row new old) = length old"
  by (simp add: put_row_def)

lemma length_concat_rows: "\<forall>r \<in> set rows. length r = w \<Longrightarrow> length (concat rows) = length rows * w"
  by (induction rows) auto

lemma concat_rows_split:
  assumes "\<forall>r \<in> set rows. length r = w" "b < length rows"
  shows "take (b * w) (concat rows) = concat (take b rows)"
    "drop (b * w + n) (concat rows) = drop n (rows ! b @ concat (drop (Suc b) rows))"
proof -
  have c: "concat rows = concat (take b rows) @ rows ! b @ concat (drop (Suc b) rows)"
    using assms(2) by (metis concat.simps(2) concat_append id_take_nth_drop)
  have l: "length (concat (take b rows)) = b * w"
    using length_concat_rows[of "take b rows" w] assms by (auto dest: in_set_takeD)
  show "take (b * w) (concat rows) = concat (take b rows)" by (subst c) (simp add: l)
  show "drop (b * w + n) (concat rows) = drop n (rows ! b @ concat (drop (Suc b) rows))"
    by (subst c) (simp add: l)
qed

lemma sample_row_rows:
  assumes rows: "\<forall>r \<in> set rows. length r = w" "req < length rows" and n: "length cs < w"
    and pick: "\<And>p. p < length cs \<Longrightarrow> pick p = Inr (cs ! p)" and bonus: "req < length bonus_ids"
  shows "sample_row pick bonus_ids req (req * w) (length cs) (concat rows) =
    Inr (concat (rows[req := put_row (emit cs (bonus_ids ! req)) (rows ! req)]))"
proof -
  let ?e = "emit cs (bonus_ids ! req)"
  have w: "length (rows ! req) = w" using rows by simp
  have "req * w + w \<le> length rows * w" using rows(2) by (metis add.commute mult_Suc mult_le_mono1 Suc_leI)
  then have "req * w + length cs < length (concat rows)" using length_concat_rows[OF rows(1)] n by simp
  from sample_row_eq[OF pick this bonus] have "sample_row pick bonus_ids req (req * w) (length cs) (concat rows) =
      Inr (take (req * w) (concat rows) @ ?e @ drop (req * w + length ?e) (concat rows))" .
  also have "take (req * w) (concat rows) @ ?e @ drop (req * w + length ?e) (concat rows) =
      concat (take req rows) @ put_row ?e (rows ! req) @ concat (drop (Suc req) rows)"
    using concat_rows_split[OF rows] length_emit[of cs "bonus_ids ! req"] n w by (simp add: put_row_def)
  also have "\<dots> = concat (rows[req := put_row ?e (rows ! req)])"
    using rows(2) by (simp add: upd_conv_take_nth_drop)
  finally show ?thesis .
qed

text \<open>A grid of programs, each of which rewrites its own row.\<close>

lemma grid_rows:
  assumes "\<And>b rows. b < n \<Longrightarrow> length rows = n \<Longrightarrow> \<forall>r \<in> set rows. length r = w \<Longrightarrow>
      prog b (concat rows) = Inr (concat (rows[b := f b (rows ! b)]))"
    and "\<And>b r. b < n \<Longrightarrow> length r = w \<Longrightarrow> length (f b r) = w"
    and "length rows = n" "\<forall>r \<in> set rows. length r = w"
  shows "for_each prog [0..<n] (concat rows) = Inr (concat (map (\<lambda>b. f b (rows ! b)) [0..<n]))"
proof -
  have "m \<le> n \<Longrightarrow> for_each prog [0..<m] (concat rows) =
      Inr (concat (map (\<lambda>b. f b (rows ! b)) [0..<m] @ drop m rows))" for m
  proof (induction m)
    case (Suc m)
    let ?rows = "map (\<lambda>b. f b (rows ! b)) [0..<m] @ drop m rows"
    have l: "length ?rows = n" using Suc.prems assms(3) by simp
    have "\<forall>r \<in> set ?rows. length r = w"
      using assms(2-4) Suc.prems by (auto dest: in_set_dropD)
    from assms(1)[OF _ l this, of m] Suc.prems
    have "prog m (concat ?rows) = Inr (concat (?rows[m := f m (?rows ! m)]))" by simp
    moreover have "?rows[m := f m (?rows ! m)] = map (\<lambda>b. f b (rows ! b)) [0..<Suc m] @ drop (Suc m) rows"
      using Suc.prems assms(3) by (simp add: nth_append list_update_append Cons_nth_drop_Suc[symmetric])
    ultimately show ?case using Suc by (simp add: for_each_append)
  qed simp
  from this[of n] assms(3) show ?thesis by simp
qed

lemma unflatten_concat:
  assumes "length rows = n" "\<forall>r \<in> set rows. length r = w"
  shows "unflatten n w (concat rows) = rows"
proof (rule nth_equalityI)
  fix i assume "i < length (unflatten n w (concat rows))"
  then have i: "i < length rows" using assms by (simp add: unflatten_def)
  from concat_rows_split(2)[OF assms(2) i, of 0] assms i show "unflatten n w (concat rows) ! i = rows ! i"
    by (simp add: unflatten_def)
qed (simp add: unflatten_def assms)

section \<open>The choices of a request\<close>

lemma nth_starts: "i < length ns \<Longrightarrow> starts a ns ! i = a + sum_list (take i ns)"
  by (induction ns arbitrary: a i) (auto simp: nth_Cons' add.assoc gr0_conv_Suc)

lemma sum_list_take_Suc: "i < length ns \<Longrightarrow> sum_list (take (Suc i) ns) = sum_list (take i ns) + (ns ! i :: nat)"
  by (simp add: take_Suc_conv_app_nth)

lemma segment_cumsum:
  assumes "req < length ns"
  shows "segment (cumsum_from 0 ns) req = Inr (starts 0 ns ! req, ns ! req)"
  using assms by (cases req) (auto simp: segment_def index_py_def nth_cumsum nth_starts sum_list_take_Suc)

lemma segment_le:
  assumes "req < length ns"
  shows "starts 0 ns ! req + ns ! req \<le> sum_list ns"
proof -
  have "sum_list ns = sum_list (take (Suc req) ns) + sum_list (drop (Suc req) ns)"
    by (metis append_take_drop_id sum_list_append)
  with assms show ?thesis by (simp add: nth_starts sum_list_take_Suc)
qed

lemma start_in_range:
  assumes "req < length ns" "k < ns ! req"
  shows "starts 0 ns ! req + k < sum_list ns"
  using segment_le[OF assms(1)] assms(2) by linarith

definition greedy_choices :: "int list \<Rightarrow> int list \<Rightarrow> nat list \<Rightarrow> nat \<Rightarrow> (int \<times> bool) list" where
  "greedy_choices drafts targets ns req =
     map (\<lambda>p. let i = starts 0 ns ! req + p in (targets ! i, drafts ! i \<noteq> targets ! i)) [0..<ns ! req]"

definition random_choices ::
  "int list \<Rightarrow> rat list list option \<Rightarrow> rat list list \<Rightarrow> int list \<Rightarrow> rat list \<Rightarrow> nat list \<Rightarrow> nat \<Rightarrow> (int \<times> bool) list" where
  "random_choices drafts draft_probs target_probs recovered uniform ns req =
     map (\<lambda>p. let i = starts 0 ns ! req + p; d = drafts ! i;
                  dp = (case draft_probs of None \<Rightarrow> 1 | Some ps \<Rightarrow> ps ! i ! nat d)
              in if dp > 0 \<and> target_probs ! i ! nat d / dp \<ge> uniform ! i then (d, False) else (recovered ! i, True))
       [0..<ns ! req]"

lemma length_choices [simp]:
  "length (greedy_choices drafts targets ns req) = ns ! req"
  "length (random_choices drafts dps tps recovered uniform ns req) = ns ! req"
  by (simp_all add: greedy_choices_def random_choices_def)

lemma tl_load_int: "tl_load xs (int k) = index_py xs k"
  by (simp add: tl_load_def index_py_def)

lemma flat_load:
  assumes "\<forall>r \<in> set rows. length r = w" "i < length rows" "0 \<le> d" "d < int w"
  shows "tl_load (concat rows) (int (i * w) + d) = Inr (rows ! i ! nat d)"
proof -
  have "nat d < w" using assms(3,4) by linarith
  have "i * w + w \<le> length rows * w" using assms(2) by (metis add.commute mult_Suc mult_le_mono1 Suc_leI)
  then have len: "i * w + nat d < length (concat rows)"
    using length_concat_rows[OF assms(1)] \<open>nat d < w\<close> by simp
  have "concat rows ! (i * w + nat d) = drop (i * w + 0) (concat rows) ! nat d" using len by simp
  also have "\<dots> = rows ! i ! nat d"
    using concat_rows_split(2)[OF assms(1,2), of 0] \<open>nat d < w\<close> assms(1,2) by (simp add: nth_append)
  finally have "index_py (concat rows) (i * w + nat d) = Inr (rows ! i ! nat d)" using len by simp
  moreover have "int (i * w) + d = int (i * w + nat d)" using assms(3) by simp
  ultimately show ?thesis by (simp only: tl_load_int)
qed

definition sampler_input :: "int list \<Rightarrow> nat list \<Rightarrow> nat \<Rightarrow> nat \<Rightarrow> rat list list \<Rightarrow> int list \<Rightarrow> bool" where
  "sampler_input drafts nums max_len vocab target_probs bonus \<longleftrightarrow>
     length drafts = sum_list nums \<and> length target_probs = sum_list nums \<and>
     (\<forall>row \<in> set target_probs. length row = vocab) \<and> length bonus = length nums \<and>
     (\<forall>d \<in> set drafts. 0 \<le> d \<and> d < int vocab) \<and> (\<forall>n \<in> set nums. n \<le> max_len)"

lemma sampler_inputD:
  assumes "sampler_input drafts nums max_len vocab target_probs bonus"
  shows "length target_probs = length drafts" "\<forall>row \<in> set target_probs. length row = vocab" "length bonus = length nums"
    "req < length nums \<Longrightarrow> nums ! req < Suc max_len"
  using assms by (auto simp: sampler_input_def less_Suc_eq_le)

lemma at_draft:
  assumes "sampler_input drafts nums max_len vocab target_probs bonus" "req < length nums" "k < nums ! req"
  shows "starts 0 nums ! req + k < length drafts" "starts 0 nums ! req + k < length target_probs"
    "0 \<le> drafts ! (starts 0 nums ! req + k)" "drafts ! (starts 0 nums ! req + k) < int vocab"
  using start_in_range[OF assms(2,3)] assms(1) by (auto simp: sampler_input_def)

lemma greedy_kernel_rows:
  assumes si: "sampler_input drafts nums max_len vocab target_probs bonus" and req: "req < length nums" and rows: "length rows = length nums" "\<forall>r \<in> set rows. length r = Suc max_len"
    and gs: "case gs of None \<Rightarrow> g | Some l \<Rightarrow> req < length l \<and> (l ! req \<longleftrightarrow> g)" and t: "length targets = length drafts"
  shows "rejection_greedy_sample_kernel (cumsum_from 0 nums) drafts targets bonus gs max_len req (concat rows) =
    Inr (concat (rows[req := if g then put_row (emit (greedy_choices drafts targets nums req) (bonus ! req)) (rows ! req)
      else rows ! req]))"
proof -
  have g: "(case gs of None \<Rightarrow> Inr True | Some l \<Rightarrow> index_py l req) = Inr g"
    using gs by (auto simp: index_py_def split: option.splits)
  show ?thesis
  proof (cases g)
    case True
    have "choose_greedy drafts targets (starts 0 nums ! req) p = Inr (greedy_choices drafts targets nums req ! p)"
      if "p < nums ! req" for p
      using at_draft[OF si req that] that t by (simp add: choose_greedy_def greedy_choices_def index_py_def Let_def)
    with sample_row_rows[OF rows(2), of req "greedy_choices drafts targets nums req"
        "choose_greedy drafts targets (starts 0 nums ! req)" bonus] True g rows req sampler_inputD(3,4)[OF si]
    show ?thesis by (simp add: rejection_greedy_sample_kernel_def segment_cumsum)
  next
    case False
    with g show ?thesis by (simp add: rejection_greedy_sample_kernel_def)
  qed
qed

lemma random_kernel_rows:
  assumes si: "sampler_input drafts nums max_len vocab target_probs bonus" and req: "req < length nums" and rows: "length rows = length nums" "\<forall>r \<in> set rows. length r = Suc max_len"
    and gs: "req < length gs" and u: "length uniform = length drafts" and rc: "length recovered = length drafts"
    and dps: "\<And>ps. dps = Some ps \<Longrightarrow> length ps = length drafts \<and> (\<forall>row \<in> set ps. length row = vocab)"
  shows "rejection_random_sample_kernel vocab (cumsum_from 0 nums) drafts dps target_probs bonus recovered uniform gs max_len
      req (concat rows) =
    Inr (concat (rows[req := if gs ! req then rows ! req else
      put_row (emit (random_choices drafts dps target_probs recovered uniform nums req) (bonus ! req)) (rows ! req)]))"
proof (cases "gs ! req")
  case True
  then show ?thesis using gs by (simp add: rejection_random_sample_kernel_def index_py_def)
next
  case False
  let ?cs = "random_choices drafts dps target_probs recovered uniform nums req"
  let ?pick = "choose_random vocab drafts dps target_probs recovered uniform (starts 0 nums ! req)"
  have "?pick p = Inr (?cs ! p)" if p: "p < nums ! req" for p
  proof -
    let ?i = "starts 0 nums ! req + p"
    note i = at_draft[OF si req p]
    have t: "tl_load (concat target_probs) (int (?i * vocab) + drafts ! ?i) = Inr (target_probs ! ?i ! nat (drafts ! ?i))"
      using flat_load[OF sampler_inputD(2)[OF si] i(2-4)] .
    have d: "(case dps of None \<Rightarrow> Inr 1 | Some ps \<Rightarrow> tl_load (concat ps) (int (?i * vocab) + drafts ! ?i)) =
        Inr (case dps of None \<Rightarrow> 1 | Some ps \<Rightarrow> ps ! ?i ! nat (drafts ! ?i))"
    proof (cases dps)
      case (Some ps)
      with flat_load[of ps vocab ?i "drafts ! ?i"] dps[OF Some] i show ?thesis by simp
    qed simp
    have "index_py drafts ?i = Inr (drafts ! ?i)" "index_py uniform ?i = Inr (uniform ! ?i)"
      "index_py recovered ?i = Inr (recovered ! ?i)" using i(1) u rc by simp_all
    note loads = this
    show ?thesis unfolding choose_random_def Let_def loads bnd_simps t d
      using p by (simp add: random_choices_def Let_def split: option.split)
  qed
  with sample_row_rows[OF rows(2), of req ?cs ?pick bonus] False gs rows req sampler_inputD(3,4)[OF si]
  show ?thesis by (simp add: rejection_random_sample_kernel_def segment_cumsum index_py_def)
qed

section \<open>Greedy batches\<close>

lemma argmax_less: "xs \<noteq> [] \<Longrightarrow> argmax xs < length xs"
proof -
  assume "xs \<noteq> []"
  then have "Max (set xs) \<in> set xs" by simp
  then have "takeWhile (\<lambda>x. x \<noteq> Max (set xs)) xs \<noteq> xs" by (metis set_takeWhileD)
  then show ?thesis unfolding argmax_def
    by (metis length_takeWhile_le nat_less_le takeWhile_eq_take take_all_iff order_refl)
qed

lemma argmax_nth: "xs \<noteq> [] \<Longrightarrow> xs ! argmax xs = Max (set xs)"
  using argmax_less[of xs] nth_length_takeWhile[of "\<lambda>x. x \<noteq> Max (set xs)" xs] by (simp add: argmax_def)

lemma filter_put_row:
  assumes "\<forall>t \<in> set new. 0 \<le> t \<and> t < int vocab" "length new \<le> w"
  shows "filter (\<lambda>t. t \<noteq> PLACEHOLDER_TOKEN_ID \<and> t < int vocab) (put_row new (replicate w PLACEHOLDER_TOKEN_ID)) = new"
proof -
  have "filter (\<lambda>t. t \<noteq> PLACEHOLDER_TOKEN_ID \<and> t < int vocab) new = new"
    using assms(1) by (fastforce simp: filter_id_conv PLACEHOLDER_TOKEN_ID_def)
  then show ?thesis by (simp add: put_row_def)
qed

lemma emit_in_vocab:
  assumes "\<forall>(t, r) \<in> set cs. P t" "P bonus"
  shows "\<forall>t \<in> set (emit cs bonus). P t"
  using assms by (induction cs) (auto split: if_splits)

lemma concat_replicate_rows: "replicate (n * w) x = concat (replicate n (replicate w x))"
  by (induction n) (simp_all add: replicate_add)

lemma greedy_rows:
  assumes si: "sampler_input drafts nums max_len vocab target_probs bonus"
    and sm: "all_greedy sm" "\<not> all_random sm"
  shows "rejection_sample rnd drafts nums max_len (cumsum_from 0 nums) dps target_probs vocab bonus sm =
    Inr (map (\<lambda>b. put_row (emit (greedy_choices drafts (map (int \<circ> argmax) target_probs) nums b) (bonus ! b))
      (replicate (Suc max_len) PLACEHOLDER_TOKEN_ID)) [0..<length nums])"
proof -
  let ?n = "length nums" and ?row = "replicate (Suc max_len) PLACEHOLDER_TOKEN_ID"
  let ?t = "map (int \<circ> argmax) target_probs"
  let ?f = "\<lambda>b. put_row (emit (greedy_choices drafts ?t nums b) (bonus ! b))"
  have flat: "replicate (?n * Suc max_len) PLACEHOLDER_TOKEN_ID = concat (replicate ?n ?row)"
    by (rule concat_replicate_rows)
  have f: "length (?f b r) = Suc max_len" if "b < ?n" "length r = Suc max_len" for b r
    using length_emit[of "greedy_choices drafts ?t nums b" "bonus ! b"] sampler_inputD(4)[OF si that(1)] that(2) by simp
  have "for_each (rejection_greedy_sample_kernel (cumsum_from 0 nums) drafts ?t bonus None max_len) [0..<?n]
      (concat (replicate ?n ?row)) = Inr (concat (map (\<lambda>b. ?f b (replicate ?n ?row ! b)) [0..<?n]))"
    using greedy_kernel_rows[OF si, where gs = None and g = True and targets = ?t] sampler_inputD(1)[OF si]
    by (intro grid_rows[where w = "Suc max_len"] f) (auto simp: comp_def)
  also have "map (\<lambda>b. ?f b (replicate ?n ?row ! b)) [0..<?n] = map (\<lambda>b. ?f b ?row) [0..<?n]" by simp
  finally have "for_each (rejection_greedy_sample_kernel (cumsum_from 0 nums) drafts ?t bonus None max_len) [0..<?n]
      (concat (replicate ?n ?row)) = Inr (concat (map (\<lambda>b. ?f b ?row) [0..<?n]))" .
  moreover have "unflatten ?n (Suc max_len) (concat (map (\<lambda>b. ?f b ?row) [0..<?n])) = map (\<lambda>b. ?f b ?row) [0..<?n]"
    by (rule unflatten_concat) (use f in auto)
  ultimately show ?thesis
    using sm sampler_inputD(1,2)[OF si] flat by (simp add: rejection_sample_def Let_def)
qed

text \<open>Generation by the model alone.\<close>

fun generate :: "(int list \<Rightarrow> int) \<Rightarrow> int list \<Rightarrow> nat \<Rightarrow> int list" where
  "generate next ctx 0 = []"
| "generate next ctx (Suc n) = next ctx # generate next (ctx @ [next ctx]) n"

lemma emit_generates:
  assumes "length ts = length ds" "\<And>j. j < length ds \<Longrightarrow> ts ! j = next (ctx @ take j ds)" "bonus = next (ctx @ ds)"
  shows "emit (map2 (\<lambda>d t. (t, d \<noteq> t)) ds ts) bonus =
    generate next ctx (length (emit (map2 (\<lambda>d t. (t, d \<noteq> t)) ds ts) bonus))"
  using assms
proof (induction ds ts arbitrary: ctx rule: list_induct2')
  case (4 d ds t ts)
  have t: "t = next ctx" using "4.prems"(2)[of 0] by simp
  have step: "ts ! j = next ((ctx @ [d]) @ take j ds)" if "j < length ds" for j
    using "4.prems"(2)[of "Suc j"] that by simp
  show ?case using "4.IH"[of "ctx @ [d]"] step "4.prems" t by auto
qed auto

lemma slice_concat:
  assumes "b < length xs"
  shows "take (length (xs ! b)) (drop (starts 0 (map length xs) ! b) (concat xs)) = xs ! b"
proof -
  have "sum_list (map length (take b xs)) = length (concat (take b xs))" by (simp add: length_concat)
  moreover have "concat xs = concat (take b xs) @ xs ! b @ concat (drop (Suc b) xs)"
    using assms by (metis concat.simps(2) concat_append id_take_nth_drop)
  ultimately show ?thesis using assms by (simp add: nth_starts take_map)
qed

lemma greedy_choices_slices:
  assumes "starts 0 ns ! b + ns ! b \<le> length drafts" "length targets = length drafts"
  shows "greedy_choices drafts targets ns b =
    map2 (\<lambda>d t. (t, d \<noteq> t)) (take (ns ! b) (drop (starts 0 ns ! b) drafts)) (take (ns ! b) (drop (starts 0 ns ! b) targets))"
  using assms by (intro nth_equalityI) (auto simp: greedy_choices_def Let_def)

lemma generate_length [simp]: "length (generate next ctx n) = n"
  by (induction n arbitrary: ctx) auto

text \<open>What one greedy request gets, from the tokens of its segment and the logits of its last positions.\<close>

lemma greedy_request:
  assumes d: "d < length seg" and rows: "length rows = length seg"
    and causal: "\<And>k. k < length seg \<Longrightarrow> int (argmax (rows ! k)) = next (ctx @ take (Suc k) seg)"
    and ds: "ds = drop (length seg - d) seg" and R: "R = drop (length seg - Suc d) rows"
  shows "emit (map2 (\<lambda>d t. (t, d \<noteq> t)) ds (map (int \<circ> argmax) (butlast R))) (int (argmax (last R))) =
    generate next (ctx @ take (length seg - d) seg)
      (length (emit (map2 (\<lambda>d t. (t, d \<noteq> t)) ds (map (int \<circ> argmax) (butlast R))) (int (argmax (last R)))))"
proof (rule emit_generates)
  have len: "length ds = d" "length R = Suc d" using d rows by (auto simp: ds R)
  then show "length (map (int \<circ> argmax) (butlast R)) = length ds" by simp
  have R_nth: "R ! j = rows ! (length seg - Suc d + j)" if "j \<le> d" for j using that d rows by (simp add: R)
  show "map (int \<circ> argmax) (butlast R) ! j = next ((ctx @ take (length seg - d) seg) @ take j ds)" if "j < length ds" for j
  proof -
    have j: "j < d" using that len by simp
    have "length seg - d + j = Suc (length seg - Suc d + j)" using d by simp
    then have "take (Suc (length seg - Suc d + j)) seg = take (length seg - d) seg @ take j ds"
      by (metis ds take_add)
    with causal[of "length seg - Suc d + j"] j d len R_nth[of j] show ?thesis by (simp add: nth_butlast)
  qed
  have "R \<noteq> []" using len by auto
  then have "last R = rows ! (length seg - 1)" using R_nth[of d] len d by (simp add: last_conv_nth)
  moreover have "take (length seg - d) seg @ ds = seg" by (simp add: ds)
  moreover have "Suc (length seg - 1) = length seg" using d by simp
  ultimately show "int (argmax (last R)) = next ((ctx @ take (length seg - d) seg) @ ds)"
    using causal[of "length seg - 1"] d by simp
qed

lemma greedy_batch:
  assumes Ds: "list_all2 (\<lambda>x n. length x = n) Ds ds" and R: "list_all2 (\<lambda>r n. length r = Suc n) R ds"
    and vocab: "0 < vocab" "\<forall>rs \<in> set R. \<forall>r \<in> set rs. length r = vocab"
    and tokens: "\<forall>x \<in> set Ds. \<forall>t \<in> set x. 0 \<le> t \<and> t < int vocab" and sm: "all_greedy sm" "\<not> all_random sm"
  obtains out where "rejection_sample rnd (concat Ds) ds (Max (set ds)) (cumsum_from 0 ds) dps (concat (map butlast R)) vocab
      (greedy_sample (map last R)) sm = Inr out" "length out = length ds"
    "\<And>b. b < length ds \<Longrightarrow> parse_output out vocab ! b =
      emit (map2 (\<lambda>d t. (t, d \<noteq> t)) (Ds ! b) (map (int \<circ> argmax) (butlast (R ! b)))) (int (argmax (last (R ! b))))"
proof -
  let ?t = "concat (map butlast R)" and ?b = "greedy_sample (map last R)"
  have n: "length Ds = length ds" "length R = length ds" using Ds R by (auto dest: list_all2_lengthD)
  have lens: "map length Ds = ds" "map length (map butlast R) = ds"
    using Ds R by (auto simp: list_all2_conv_all_nth intro!: nth_equalityI)
  have sums: "length (concat Ds) = sum_list ds" "length ?t = sum_list ds" by (simp_all only: length_concat lens)
  have "\<forall>row \<in> set ?t. length row = vocab" using vocab(2) by (auto dest: in_set_butlastD)
  moreover have "\<forall>d \<in> set (concat Ds). 0 \<le> d \<and> d < int vocab" using tokens by auto
  ultimately have si: "sampler_input (concat Ds) ds (Max (set ds)) vocab ?t ?b"
    using n sums by (simp add: sampler_input_def greedy_sample_def)
  let ?out = "map (\<lambda>b. put_row (emit (greedy_choices (concat Ds) (map (int \<circ> argmax) ?t) ds b) (?b ! b))
      (replicate (Suc (Max (set ds))) PLACEHOLDER_TOKEN_ID)) [0..<length ds]"
  have "parse_output ?out vocab ! b =
      emit (map2 (\<lambda>d t. (t, d \<noteq> t)) (Ds ! b) (map (int \<circ> argmax) (butlast (R ! b)))) (int (argmax (last (R ! b))))"
    (is "_ = ?e") if b: "b < length ds" for b
  proof -
    have Rb: "R ! b \<in> set R" "R ! b \<noteq> []" "length (Ds ! b) = ds ! b" "length (R ! b) = Suc (ds ! b)"
      using Ds R b n by (auto simp: list_all2_conv_all_nth)
    have "starts 0 ds ! b + ds ! b \<le> sum_list ds" using segment_le[OF b] .
    moreover have "take (ds ! b) (drop (starts 0 ds ! b) (concat Ds)) = Ds ! b"
      using slice_concat[of b Ds] b n Rb(3) unfolding lens by simp
    moreover have "take (ds ! b) (drop (starts 0 ds ! b) ?t) = butlast (R ! b)"
      using slice_concat[of b "map butlast R"] b n Rb(4) unfolding lens by simp
    ultimately have cs: "greedy_choices (concat Ds) (map (int \<circ> argmax) ?t) ds b =
        map2 (\<lambda>d t. (t, d \<noteq> t)) (Ds ! b) (map (int \<circ> argmax) (butlast (R ! b)))"
      using sums by (subst greedy_choices_slices) (simp_all only: drop_map take_map length_map)
    have bonus: "?b ! b = int (argmax (last (R ! b)))" using b n by (simp add: greedy_sample_def)
    have am: "0 \<le> int (argmax r) \<and> int (argmax r) < int vocab" if "r \<in> set (R ! b)" for r
      using argmax_less[of r] vocab Rb(1) that by fastforce
    have "\<forall>t \<in> set ?e. 0 \<le> t \<and> t < int vocab"
      by (rule emit_in_vocab) (use am Rb in \<open>auto dest!: set_zip_rightD in_set_butlastD\<close>)
    moreover have "length ?e \<le> Suc (Max (set ds))"
    proof -
      have "length ?e \<le> Suc (ds ! b)"
        using length_emit[of "map2 (\<lambda>d t. (t, d \<noteq> t)) (Ds ! b) (map (int \<circ> argmax) (butlast (R ! b)))" "int (argmax (last (R ! b)))"]
          Rb(3,4) by simp
      moreover have "ds ! b \<le> Max (set ds)" using b by simp
      ultimately show ?thesis by linarith
    qed
    ultimately show ?thesis
      using b cs bonus filter_put_row[of ?e vocab "Suc (Max (set ds))"] by (simp add: parse_output_def)
  qed
  then show thesis using that[of ?out] greedy_rows[OF si sm, of rnd dps] by simp
qed

text \<open>C11: Speculative decoding is lossless for greedy requests. For any batch of requests with scheduled tokens \<open>segs\<close>, the
  last \<open>ds\<close> of which are drafts, and logits that are causal (the greedy token at a position is the next token of the
  model for the context up to that position), the metadata computation, the selection of logits, the rejection sampler
  and the parsing of its output return for each request a non-empty list of at most one token more than it has
  drafts, and this list is exactly what the model generates by itself from the context without the drafts.\<close>

theorem greedy_speculation_lossless:
  assumes segs: "segs \<noteq> []" "list_all2 (\<lambda>s n. n < length s) segs ds"
    and sizes: "sum_list (map Suc ds) \<le> arange_len" "\<forall>d \<in> set ds. d \<le> MAX_SPEC_LEN" "0 < vocab"
    and tokens: "\<forall>s \<in> set segs. \<forall>t \<in> set s. 0 \<le> t \<and> t < int vocab"
    and rows: "map length rows = map length segs" "\<forall>rs \<in> set rows. \<forall>r \<in> set rs. length r = vocab"
    and causal: "\<forall>b < length segs. \<forall>k < length (segs ! b).
      int (argmax (rows ! b ! k)) = next (ctxs ! b @ take (Suc k) (segs ! b))"
    and sm: "all_greedy sm" "\<not> all_random sm"
  shows "\<exists>md logits out.
    calc_spec_decode_metadata arange_len (concat segs @ pad) ds (cumsum_from 0 (map length segs)) = Inr md \<and>
    gather (concat rows @ post) (logits_indices md) = Inr logits \<and>
    sample_speculative rnd probs_of greedy_sample md logits vocab sm = Inr out \<and>
    length (parse_output out vocab) = length segs \<and>
    (\<forall>b < length segs. \<exists>m. 0 < m \<and> m \<le> Suc (ds ! b) \<and>
      parse_output out vocab ! b = generate next (ctxs ! b @ take (length (segs ! b) - ds ! b) (segs ! b)) m)"
proof -
  let ?n = "length segs"
  have n: "length ds = ?n" "length rows = ?n" and d: "\<And>b. b < ?n \<Longrightarrow> ds ! b < length (segs ! b)"
    using segs(2) map_eq_imp_length_eq[OF rows(1)] by (auto simp: list_all2_conv_all_nth)
  have lr: "length (rows ! b) = length (segs ! b)" if "b < ?n" for b
    using arg_cong[OF rows(1), of "\<lambda>l. l ! b"] n that by simp
  obtain md where md: "calc_spec_decode_metadata arange_len (concat segs @ pad) ds (cumsum_from 0 (map length segs)) = Inr md"
    "draft_token_ids md = concat (map2 (\<lambda>s n. drop (length s - n) s) segs ds)"
    "num_draft_tokens md = ds" "cu_num_draft_tokens md = cumsum_from 0 ds" "max_spec_len md = Max (set ds)"
    "\<And>(xs :: rat list list list) post. map length xs = map length segs \<Longrightarrow>
       gather (concat xs @ post) (logits_indices md) = Inr (concat (map2 (\<lambda>x n. drop (length x - Suc n) x) xs ds))"
    "\<And>rs :: rat list list list. list_all2 (\<lambda>r n. length r = Suc n) rs ds \<Longrightarrow>
       gather (concat rs) (target_logits_indices md) = Inr (concat (map butlast rs))"
    "\<And>rs :: rat list list list. list_all2 (\<lambda>r n. length r = Suc n) rs ds \<Longrightarrow>
       gather (concat rs) (bonus_logits_indices md) = Inr (map last rs)"
    by (rule metadata_ok[OF segs(2,1) sizes(1), where 'a = "rat list" and pad = pad]) (rule that; assumption)
  define Ds where "Ds = map2 (\<lambda>s n. drop (length s - n) s) segs ds"
  define R where "R = map2 (\<lambda>x n. drop (length x - Suc n) x) rows ds"
  have Ds: "length Ds = ?n" "\<And>b. b < ?n \<Longrightarrow> Ds ! b = drop (length (segs ! b) - ds ! b) (segs ! b)"
    and R: "length R = ?n" "\<And>b. b < ?n \<Longrightarrow> R ! b = drop (length (segs ! b) - Suc (ds ! b)) (rows ! b)"
    using n lr by (auto simp: Ds_def R_def)
  have lb: "length (Ds ! b) = ds ! b" "length (R ! b) = Suc (ds ! b)" if "b < ?n" for b
    using Ds(2)[OF that] R(2)[OF that] d[OF that] lr[OF that] by simp_all
  have DS: "list_all2 (\<lambda>x n. length x = n) Ds ds" and RS: "list_all2 (\<lambda>r n. length r = Suc n) R ds"
    using Ds(1) R(1) n lb by (simp_all add: list_all2_conv_all_nth)
  have "\<forall>rs \<in> set R. \<forall>r \<in> set rs. length r = vocab" unfolding R_def
    using rows(2) by (auto dest!: set_zip_leftD in_set_dropD)
  moreover have "\<forall>x \<in> set Ds. \<forall>t \<in> set x. 0 \<le> t \<and> t < int vocab" unfolding Ds_def
    using tokens by (auto dest!: set_zip_leftD in_set_dropD)
  ultimately obtain out where out: "rejection_sample rnd (concat Ds) ds (Max (set ds)) (cumsum_from 0 ds) None
      (concat (map butlast R)) vocab (greedy_sample (map last R)) sm = Inr out" "length out = length ds"
    "\<And>b. b < length ds \<Longrightarrow> parse_output out vocab ! b =
      emit (map2 (\<lambda>d t. (t, d \<noteq> t)) (Ds ! b) (map (int \<circ> argmax) (butlast (R ! b)))) (int (argmax (last (R ! b))))"
    by (rule greedy_batch[OF DS RS sizes(3) _ _ sm, of rnd None]) (rule that; assumption)
  have max: "Max (set ds) \<le> MAX_SPEC_LEN" using sizes(2) segs(1) n by (metis Max_in List.finite_set length_0_conv set_empty)
  have step: "sample_speculative rnd probs_of greedy_sample md (concat R) vocab sm = Inr out"
    using out(1) md(2-5) md(7,8)[OF RS] sm max by (simp add: sample_speculative_def rejection_forward_def Ds_def)
  have row: "\<exists>m. 0 < m \<and> m \<le> Suc (ds ! b) \<and>
      parse_output out vocab ! b = generate next (ctxs ! b @ take (length (segs ! b) - ds ! b) (segs ! b)) m"
    if b: "b < ?n" for b
  proof -
    let ?cs = "map2 (\<lambda>d t. (t, d \<noteq> t)) (Ds ! b) (map (int \<circ> argmax) (butlast (R ! b)))"
    let ?e = "emit ?cs (int (argmax (last (R ! b))))"
    have "?e = generate next (ctxs ! b @ take (length (segs ! b) - ds ! b) (segs ! b)) (length ?e)"
      by (rule greedy_request[OF d[OF b] lr[OF b] _ Ds(2)[OF b] R(2)[OF b]]) (use causal b in simp)
    moreover have "parse_output out vocab ! b = ?e" using out(3) b n by simp
    moreover have "length ?e \<le> Suc (ds ! b)" "0 < length ?e"
      using length_emit[of ?cs "int (argmax (last (R ! b)))"] lb[OF b] by simp_all
    ultimately show ?thesis by metis
  qed
  have "length (parse_output out vocab) = ?n" using n out(2) by (simp add: parse_output_def)
  then show ?thesis using md(1) md(6)[OF rows(1), of post] step row unfolding R_def[symmetric] by blast
qed

definition no_randomness :: "unit randomness" where
  "no_randomness = \<lparr>uniform_draw = (\<lambda>g n. (replicate n (1/2), g)), exponential_draw = (\<lambda>g n. (replicate n 1, g)),
     unseeded_uniform = [], unseeded_exponential = []\<rparr>"

definition greedy_metadata :: "unit sampling_metadata" where
  "greedy_metadata = \<lparr>all_greedy = True, all_random = False, temperature = [], generators = Map.empty, seeded_reqs = []\<rparr>"

theorem greedy_speculation_lossless_witness:
  "let segs = [[0, 1, 1], [2]]; ds = [2, 0]; next = (\<lambda>ctx. (last ctx + 1) mod 3);
       rows = [[[0, 1, 0], [0, 0, 1], [0, 0, 1]], [[1, 0, 0]]]
   in \<exists>md logits out.
    calc_spec_decode_metadata 16 (concat segs @ [0]) ds (cumsum_from 0 (map length segs)) = Inr md \<and>
    gather (concat rows @ []) (logits_indices md) = Inr logits \<and>
    sample_speculative no_randomness id greedy_sample md logits 3 greedy_metadata = Inr out \<and>
    length (parse_output out 3) = length segs \<and>
    (\<forall>b < length segs. \<exists>m. 0 < m \<and> m \<le> Suc (ds ! b) \<and>
      parse_output out 3 ! b = generate next ([[], []] ! b @ take (length (segs ! b) - ds ! b) (segs ! b)) m)"
proof -
  let ?segs = "[[0, 1, 1], [2]] :: int list list" and ?ds = "[2, 0] :: nat list"
  let ?rows = "[[[0, 1, 0], [0, 0, 1], [0, 0, 1]], [[1, 0, 0]]] :: rat list list list"
  have c: "\<forall>b < length ?segs. \<forall>k < length (?segs ! b).
      int (argmax (?rows ! b ! k)) = (last (([[], []] :: int list list) ! b @ take (Suc k) (?segs ! b)) + 1) mod 3"
    by code_simp
  have "all_greedy greedy_metadata" "\<not> all_random greedy_metadata" by (simp_all add: greedy_metadata_def)
  then show ?thesis unfolding Let_def
    by (intro greedy_speculation_lossless c) (auto simp: MAX_SPEC_LEN_def)
qed

section \<open>Random batches\<close>

text \<open>What the sources of random numbers promise: draws of the requested size, uniform numbers strictly between 0 and 1, positive
  noise.\<close>

definition randomness_ok :: "'g randomness \<Rightarrow> nat \<Rightarrow> nat \<Rightarrow> nat \<Rightarrow> bool" where
  "randomness_ok rnd num_tokens batch vocab \<longleftrightarrow>
     length (unseeded_uniform rnd) = num_tokens \<and> (\<forall>u \<in> set (unseeded_uniform rnd). 0 \<le> u \<and> u < 1) \<and>
     (\<forall>g n. length (fst (uniform_draw rnd g n)) = n \<and> (\<forall>u \<in> set (fst (uniform_draw rnd g n)). 0 \<le> u \<and> u < 1)) \<and>
     length (unseeded_exponential rnd) = batch \<and>
     (\<forall>row \<in> set (unseeded_exponential rnd). length row = vocab \<and> (\<forall>e \<in> set row. 0 < e)) \<and>
     (\<forall>g n. length (fst (exponential_draw rnd g n)) = n \<and> (\<forall>e \<in> set (fst (exponential_draw rnd g n)). 0 < e))"

lemma uniform_probs_ok:
  assumes "length rand = N" "\<forall>u \<in> set rand. P u" "sum_list ns \<le> N"
    and draw: "\<And>g n. length (fst (draw g n)) = n" "\<And>g n u. u \<in> set (fst (draw g n)) \<Longrightarrow> P u"
    and gen: "generate_uniform_probs draw rand ns gens = (probs, gens')"
  shows "length probs = N \<and> (\<forall>u \<in> set probs. P u) \<and> (\<forall>j. gens' j = None \<longleftrightarrow> gens j = None)"
proof -
  let ?f = "\<lambda>(req, n) (probs, gens, start).
        if n = 0 then (probs, gens, start)
        else case gens req of
            None \<Rightarrow> (probs, gens, start + n)
          | Some g \<Rightarrow> let (us, g') = draw g n
                     in (take start probs @ us @ drop (start + n) probs, gens(req \<mapsto> g'), start + n)"
  have "\<forall>probs gens' start'. fold ?f (enumerate i ns) (rand, gens, start) = (probs, gens', start') \<longrightarrow>
      length probs = N \<and> (\<forall>u \<in> set probs. P u) \<and> (\<forall>j. gens' j = None \<longleftrightarrow> gens j = None)"
    if "length rand = N" "\<forall>u \<in> set rand. P u" "start + sum_list ns \<le> N" for i rand gens start
    using that
  proof (induction ns arbitrary: i rand gens start)
    case (Cons n ns)
    show ?case
    proof (cases "n = 0 \<or> gens i = None")
      case True
      then show ?thesis using Cons.IH[of rand "start + n" "Suc i" gens] Cons.prems by (auto simp: fun_upd_def)
    next
      case False
      then obtain g us g' where g: "gens i = Some g" "draw g n = (us, g')" by (metis option.exhaust surj_pair)
      let ?r = "take start rand @ us @ drop (start + n) rand"
      have us: "length us = n" "\<And>u. u \<in> set us \<Longrightarrow> P u" using draw(1)[of g n] draw(2)[of _ g n] g(2) by auto
      have "length ?r = N" "\<forall>u \<in> set ?r. P u"
        using us Cons.prems by (auto dest: in_set_takeD in_set_dropD)
      note ih = Cons.IH[OF this, of "start + n" "Suc i" "gens(i \<mapsto> g')"]
      have le: "start + n + sum_list ns \<le> N" using Cons.prems(3) by simp
      have step: "?f (i, n) (rand, gens, start) = (?r, gens(i \<mapsto> g'), start + n)" using g False by simp
      show ?thesis
      proof (intro allI impI)
        fix probs gens2 start'
        assume "fold ?f (enumerate i (n # ns)) (rand, gens, start) = (probs, gens2, start')"
        then have "fold ?f (enumerate (Suc i) ns) (?r, gens(i \<mapsto> g'), start + n) = (probs, gens2, start')"
          by (simp only: enumerate_simps fold_simps comp_apply step)
        with ih[OF le] have "length probs = N \<and> (\<forall>u \<in> set probs. P u)
            \<and> (\<forall>j. gens2 j = None \<longleftrightarrow> (gens(i \<mapsto> g')) j = None)" by blast
        moreover have "(gens(i \<mapsto> g')) j = None \<longleftrightarrow> gens j = None" for j using g(1) by simp
        ultimately show "length probs = N \<and> (\<forall>u \<in> set probs. P u) \<and> (\<forall>j. gens2 j = None \<longleftrightarrow> gens j = None)" by simp
      qed
    qed
  qed simp
  from this[of rand 0 0 gens] assms show ?thesis
    by (auto simp: generate_uniform_probs_def split: prod.splits)
qed

lemma exponential_noise_ok:
  assumes "length q0 = length ns" "\<forall>row \<in> set q0. P row" "\<forall>i \<in> set seeded. i < length ns \<and> gens i \<noteq> None"
    and draw: "\<And>g. P (fst (draw g vocab))"
  shows "\<exists>q gens'. exponential_noise draw q0 vocab ns seeded gens = Inr (q, gens') \<and> length q = length ns \<and>
    (\<forall>row \<in> set q. P row)"
proof -
  let ?P = "\<lambda>(q, gs). length q = length ns \<and> (\<forall>row \<in> set q. P row) \<and> (\<forall>j. gs j = None \<longleftrightarrow> gens j = None)"
  have "\<exists>t. exponential_noise draw q0 vocab ns seeded gens = Inr t \<and> ?P t"
    unfolding exponential_noise_def
  proof (rule for_each_total)
    fix i and s :: "rat list list \<times> (nat \<rightharpoonup> 'a)" assume i: "i \<in> set seeded" and s: "?P s"
    obtain q gs where q: "s = (q, gs)" "length q = length ns" "\<forall>row \<in> set q. P row" "\<forall>j. gs j = None \<longleftrightarrow> gens j = None"
      using s by (cases s) auto
    have "gens i \<noteq> None" "gs i \<noteq> None" "i < length ns" using assms(3) i q(4) by auto
    then obtain g where g: "gs i = Some g" "i < length ns" and gi: "gens i \<noteq> None" by blast
    have P: "P es" if "draw g vocab = (es, g')" for es g' using draw[of g] that by simp
    show "\<exists>t. (case s of (q, gens) \<Rightarrow> bnd (lookup_py gens i) (\<lambda>g. bnd (index_py ns i) (\<lambda>n.
       if 0 < n then bnd (index_py q i) (\<lambda>_. let (es, g') = draw g vocab in Inr (q[i := es], gens(i \<mapsto> g')))
       else Inr (q, gens)))) = Inr t \<and> ?P t"
      using g gi q P by (auto simp: lookup_py_def index_py_def split: prod.splits
          dest!: set_update_subset_insert[THEN subsetD])
  qed (use assms in auto)
  then show ?thesis by (auto simp: split_paired_Ex)
qed

lemma pow2_from_ge: "0 < p \<Longrightarrow> n \<le> pow2_from p n"
  by (induction p n rule: pow2_from.induct) (subst pow2_from.simps, auto)

lemma next_power_of_2_ge: "n \<le> next_power_of_2 n"
  by (simp add: next_power_of_2_def pow2_from_ge)

text \<open>The scores of all vocabulary entries at flat position \<open>x\<close>, with the noise of request \<open>req\<close> and without draft
  probabilities.\<close>

definition adjusted :: "int list \<Rightarrow> rat list list \<Rightarrow> nat \<Rightarrow> nat \<Rightarrow> rat" where
  "adjusted drafts target_probs x v = (if int v = drafts ! x then 0 else target_probs ! x ! v)"

definition scores_at :: "int list \<Rightarrow> rat list list \<Rightarrow> nat \<Rightarrow> rat list list \<Rightarrow> nat \<Rightarrow> nat \<Rightarrow> rat list" where
  "scores_at drafts target_probs vocab q req x =
     map (\<lambda>v. if vocab \<le> v then 0 else adjusted drafts target_probs x v / (q ! req ! v)) [0..<next_power_of_2 vocab]"

lemma recovered_scores:
  assumes x: "x < length drafts" "x < length target_probs" and r: "req < length q"
    and t: "\<forall>row \<in> set target_probs. length row = vocab" and q: "\<forall>row \<in> set q. length row = vocab"
  shows "map_res (recovered_score vocab drafts None target_probs q req x) [0..<next_power_of_2 vocab] =
    Inr (scores_at drafts target_probs vocab q req x)"
  unfolding scores_at_def
proof (rule map_res_eq)
  fix v
  have t': "tl_load (concat target_probs) (int (x * vocab + v)) = Inr (target_probs ! x ! v)" if "v < vocab"
    using flat_load[OF t x(2), of "int v"] that by simp
  have q': "tl_load (concat q) (int (req * vocab + v)) = Inr (q ! req ! v)" if "v < vocab"
    using flat_load[OF q r, of "int v"] that by simp
  have d: "index_py drafts x = Inr (drafts ! x)" using x(1) by simp
  show "recovered_score vocab drafts None target_probs q req x v =
      Inr (if vocab \<le> v then 0 else adjusted drafts target_probs x v / (q ! req ! v))"
  proof (cases "vocab \<le> v")
    case False
    then have v: "v < vocab" by simp
    show ?thesis unfolding recovered_score_def recovered_prob_def option.case d t'[OF v] q'[OF v]
      using v by (simp add: adjusted_def)
  qed (simp add: recovered_score_def recovered_prob_def)
qed

lemma argmax_supported:
  assumes v: "v < vocab" "0 < adjusted drafts target_probs x v" and q: "\<forall>u < vocab. 0 < q ! req ! u"
  shows "argmax (scores_at drafts target_probs vocab q req x) < vocab"
    "0 < adjusted drafts target_probs x (argmax (scores_at drafts target_probs vocab q req x))"
proof -
  let ?s = "scores_at drafts target_probs vocab q req x"
  let ?m = "argmax ?s"
  have l: "length ?s = next_power_of_2 vocab" and lv: "v < length ?s"
    using v(1) next_power_of_2_ge[of vocab] by (auto simp: scores_at_def)
  then have ne: "?s \<noteq> []" by auto
  have "?s ! v = adjusted drafts target_probs x v / (q ! req ! v)"
    using v(1) lv by (simp add: scores_at_def)
  then have "0 < ?s ! v" using v q by simp
  moreover have "?s ! v \<le> Max (set ?s)" using lv by simp
  ultimately have pos: "0 < ?s ! ?m" using argmax_nth[OF ne] by simp
  have m: "?m < next_power_of_2 vocab" using argmax_less[OF ne] l by simp
  have eq: "?s ! ?m = (if vocab \<le> ?m then 0 else adjusted drafts target_probs x ?m / (q ! req ! ?m))"
    using m by (simp add: scores_at_def)
  then show "?m < vocab" using pos by (auto split: if_splits)
  with eq pos have "0 < adjusted drafts target_probs x ?m / (q ! req ! ?m)" by simp
  then show "0 < adjusted drafts target_probs x ?m" using q \<open>?m < vocab\<close> by (simp add: zero_less_divide_iff) force
qed

text \<open>Every draft position gets the best-scoring token at that position.\<close>

lemma recovered_tokens:
  assumes si: "sampler_input drafts nums max_len vocab target_probs bonus"
    and q: "length q = length nums" "\<forall>row \<in> set q. length row = vocab"
  shows "\<exists>rec. sample_recovered_tokens max_len (length nums) vocab (cumsum_from 0 nums) drafts None target_probs q = Inr rec \<and>
    length rec = length drafts \<and> (\<forall>b < length nums. \<forall>k < nums ! b. \<exists>req < length nums.
      rec ! (starts 0 nums ! b + k) = int (argmax (scores_at drafts target_probs vocab q req (starts 0 nums ! b + k))))"
proof -
  let ?good = "\<lambda>out x. \<exists>req < length nums. out ! x = int (argmax (scores_at drafts target_probs vocab q req x))"
  let ?K = "sample_recovered_tokens_kernel vocab (cumsum_from 0 nums) drafts None target_probs q"
  have K: "?K (req, pos) out = Inr (if nums ! req \<le> pos then out else
      out[starts 0 nums ! req + pos := int (argmax (scores_at drafts target_probs vocab q req (starts 0 nums ! req + pos)))])"
    if "req < length nums" "length out = length drafts" for req pos out
    using that at_draft[OF si that(1)] q sampler_inputD(2)[OF si]
    by (auto simp: sample_recovered_tokens_kernel_def segment_cumsum recovered_scores tl_store_def)
  have "\<exists>out'. for_each ?K ps out = Inr out' \<and> length out' = length drafts \<and> (\<forall>x. ?good out x \<longrightarrow> ?good out' x) \<and>
      (\<forall>(req, pos) \<in> set ps. pos < nums ! req \<longrightarrow> ?good out' (starts 0 nums ! req + pos))"
    if "\<forall>(req, pos) \<in> set ps. req < length nums" "length out = length drafts" for ps out
    using that
  proof (induction ps arbitrary: out)
    case (Cons p ps)
    obtain req pos where p: "p = (req, pos)" by (cases p)
    define x where "x = starts 0 nums ! req + pos"
    define out1 where "out1 = (if nums ! req \<le> pos then out else
      out[x := int (argmax (scores_at drafts target_probs vocab q req x))])"
    have req: "req < length nums" using Cons.prems(1) p by simp
    have s: "?K p out = Inr out1" using K[OF req Cons.prems(2)] by (simp add: p out1_def x_def)
    have l1: "length out1 = length drafts" using Cons.prems(2) by (simp add: out1_def)
    have keep: "?good out1 y" if "?good out y" for y
      using that req by (cases "y = x \<and> pos < nums ! req \<and> y < length out") (auto simp: out1_def nth_list_update list_update_beyond not_le not_less)
    have new: "?good out1 x" if "pos < nums ! req"
      using that req at_draft(1)[OF si req that] Cons.prems(2) by (auto simp: out1_def x_def)
    have "\<forall>(req, pos) \<in> set ps. req < length nums" using Cons.prems(1) by auto
    from Cons.IH[OF this l1] obtain out' where out': "for_each ?K ps out1 = Inr out'" "length out' = length drafts"
      "\<forall>y. ?good out1 y \<longrightarrow> ?good out' y" "\<forall>(req, pos) \<in> set ps. pos < nums ! req \<longrightarrow> ?good out' (starts 0 nums ! req + pos)"
      by blast
    have "for_each ?K (p # ps) out = Inr out'" using s out'(1) by simp
    moreover have "\<forall>y. ?good out y \<longrightarrow> ?good out' y" using keep out'(3) by blast
    moreover have "\<forall>(req, pos) \<in> set (p # ps). pos < nums ! req \<longrightarrow> ?good out' (starts 0 nums ! req + pos)"
      using new out'(3,4) by (auto simp: p x_def)
    ultimately show ?case using out'(2) by blast
  qed auto
  from this[of "List.product [0..<length nums] [0..<max_len]" "replicate (length drafts) 0"]
  obtain rec where rec: "sample_recovered_tokens max_len (length nums) vocab (cumsum_from 0 nums) drafts None target_probs q = Inr rec"
    "length rec = length drafts" "\<forall>(req, pos) \<in> set (List.product [0..<length nums] [0..<max_len]).
      pos < nums ! req \<longrightarrow> ?good rec (starts 0 nums ! req + pos)"
    unfolding sample_recovered_tokens_def by force
  have "?good rec (starts 0 nums ! b + k)" if "b < length nums" "k < nums ! b" for b k
    using rec(3) that sampler_inputD(4)[OF si that(1)] by (auto simp: less_Suc_eq_le)
  with rec show ?thesis by blast
qed

lemma emit_cases:
  obtains m where "m \<le> length cs" "\<forall>k < m. \<not> snd (cs ! k)"
    "m = length cs \<and> emit cs bonus = map fst cs @ [bonus] \<or>
     m < length cs \<and> snd (cs ! m) \<and> emit cs bonus = map fst (take m cs) @ [fst (cs ! m)]"
proof (induction cs arbitrary: thesis)
  case (Cons c cs)
  obtain t rej where c: "c = (t, rej)" by (cases c)
  show ?case
  proof (cases rej)
    case True
    then show ?thesis using Cons.prems[of 0] by (simp add: c)
  next
    case False
    obtain m where m: "m \<le> length cs" "\<forall>k < m. \<not> snd (cs ! k)"
      "m = length cs \<and> emit cs bonus = map fst cs @ [bonus] \<or>
       m < length cs \<and> snd (cs ! m) \<and> emit cs bonus = map fst (take m cs) @ [fst (cs ! m)]"
      using Cons.IH .
    have "\<forall>k < Suc m. \<not> snd ((c # cs) ! k)" using m(2) False by (auto simp: c nth_Cons')
    then show ?thesis using Cons.prems[of "Suc m"] m(1,3) False by (auto simp: c)
  qed
qed simp

lemma random_rows:
  assumes si: "sampler_input drafts nums max_len vocab target_probs bonus"
    and sm: "\<not> all_greedy sm" "length (temperature sm) = length nums" "\<forall>t \<in> set (temperature sm). t \<noteq> GREEDY_TEMPERATURE"
      "\<forall>i \<in> set (seeded_reqs sm). i < length nums \<and> generators sm i \<noteq> None"
    and rnd: "randomness_ok rnd (length drafts) (length nums) vocab"
  obtains uniform q rec where
    "rejection_sample rnd drafts nums max_len (cumsum_from 0 nums) None target_probs vocab bonus sm =
      Inr (map (\<lambda>b. put_row (emit (random_choices drafts None target_probs rec uniform nums b) (bonus ! b))
        (replicate (Suc max_len) PLACEHOLDER_TOKEN_ID)) [0..<length nums])"
    "uniform = fst (generate_uniform_probs (uniform_draw rnd) (unseeded_uniform rnd) nums (generators sm))"
    "length uniform = length drafts" "\<forall>u \<in> set uniform. 0 \<le> u \<and> u < 1"
    "length q = length nums" "\<forall>row \<in> set q. length row = vocab \<and> (\<forall>e \<in> set row. 0 < e)"
    "\<And>b k. b < length nums \<Longrightarrow> k < nums ! b \<Longrightarrow> \<exists>req < length nums.
      rec ! (starts 0 nums ! b + k) = int (argmax (scores_at drafts target_probs vocab q req (starts 0 nums ! b + k)))"
proof -
  let ?n = "length nums" and ?row = "replicate (Suc max_len) PLACEHOLDER_TOKEN_ID"
  let ?gs = "map (\<lambda>t. t = GREEDY_TEMPERATURE) (temperature sm)"
  obtain uniform gens where g: "generate_uniform_probs (uniform_draw rnd) (unseeded_uniform rnd) nums (generators sm) = (uniform, gens)"
    by (metis surj_pair)
  have u: "length uniform = length drafts \<and> (\<forall>u \<in> set uniform. 0 \<le> u \<and> u < 1) \<and> (\<forall>j. gens j = None \<longleftrightarrow> generators sm j = None)"
    by (rule uniform_probs_ok[OF _ _ _ _ _ g])
      (use rnd si in \<open>auto simp: randomness_ok_def sampler_input_def\<close>)
  obtain q gens' where q: "exponential_noise (exponential_draw rnd) (unseeded_exponential rnd) vocab nums (seeded_reqs sm) gens = Inr (q, gens')"
    "length q = ?n" "\<forall>row \<in> set q. length row = vocab \<and> (\<forall>e \<in> set row. 0 < e)"
    using exponential_noise_ok[of "unseeded_exponential rnd" nums "\<lambda>row. length row = vocab \<and> (\<forall>e \<in> set row. 0 < e)"
        "seeded_reqs sm" gens "exponential_draw rnd" vocab] rnd sm(4) u by (auto simp: randomness_ok_def)
  obtain rec where rec: "sample_recovered_tokens max_len ?n vocab (cumsum_from 0 nums) drafts None target_probs q = Inr rec"
    "length rec = length drafts" "\<forall>b < ?n. \<forall>k < nums ! b. \<exists>req < ?n.
      rec ! (starts 0 nums ! b + k) = int (argmax (scores_at drafts target_probs vocab q req (starts 0 nums ! b + k)))"
    using recovered_tokens[OF si q(2)] q(3) by blast
  let ?f = "\<lambda>b. put_row (emit (random_choices drafts None target_probs rec uniform nums b) (bonus ! b))"
  have f: "length (?f b r) = Suc max_len" if "b < ?n" "length r = Suc max_len" for b r
    using length_emit[of "random_choices drafts None target_probs rec uniform nums b" "bonus ! b"]
      sampler_inputD(4)[OF si that(1)] that(2) by simp
  have gs: "\<not> ?gs ! b" "b < length ?gs" if "b < ?n" for b using sm(2,3) that by auto
  let ?rows0 = "replicate ?n ?row"
  have greedy: "for_each (rejection_greedy_sample_kernel (cumsum_from 0 nums) drafts (map (int \<circ> argmax) target_probs) bonus
      (Some ?gs) max_len) [0..<?n] (concat ?rows0) = Inr (concat (map (\<lambda>b. (\<lambda>_ r. r) b (?rows0 ! b)) [0..<?n]))"
    by (rule grid_rows[where w = "Suc max_len"])
      (use greedy_kernel_rows[OF si, where gs = "Some ?gs" and g = False and targets = "map (int \<circ> argmax) target_probs"]
        gs sampler_inputD(1)[OF si] in auto)
  have rows0: "map (\<lambda>b. (\<lambda>_ r. r) b (?rows0 ! b)) [0..<?n] = ?rows0" by (intro nth_equalityI) auto
  have random: "for_each (rejection_random_sample_kernel vocab (cumsum_from 0 nums) drafts None target_probs bonus rec uniform ?gs max_len)
      [0..<?n] (concat ?rows0) = Inr (concat (map (\<lambda>b. ?f b (?rows0 ! b)) [0..<?n]))"
    by (rule grid_rows[where w = "Suc max_len"])
      (use random_kernel_rows[OF si, where gs = ?gs and dps = None and uniform = uniform and recovered = rec] gs u rec(2) f in auto)
  have rows1: "map (\<lambda>b. ?f b (?rows0 ! b)) [0..<?n] = map (\<lambda>b. ?f b ?row) [0..<?n]" by simp
  have un: "unflatten ?n (Suc max_len) (concat (map (\<lambda>b. ?f b ?row) [0..<?n])) = map (\<lambda>b. ?f b ?row) [0..<?n]"
    by (rule unflatten_concat) (use f in auto)
  have "random_pass rnd drafts nums max_len (cumsum_from 0 nums) None target_probs vocab bonus sm (Some ?gs) (concat ?rows0) =
      Inr (concat (map (\<lambda>b. ?f b ?row) [0..<?n]))"
    using g q(1) rec(1) random unfolding rows1 by (simp add: random_pass_def)
  with greedy un have "rejection_sample rnd drafts nums max_len (cumsum_from 0 nums) None target_probs vocab bonus sm =
      Inr (map (\<lambda>b. ?f b ?row) [0..<?n])"
    using sm(1) sampler_inputD(1,2)[OF si] concat_replicate_rows[of ?n "Suc max_len" PLACEHOLDER_TOKEN_ID]
    unfolding rows0 by (simp add: rejection_sample_def Let_def)
  moreover have "uniform = fst (generate_uniform_probs (uniform_draw rnd) (unseeded_uniform rnd) nums (generators sm))" by (simp add: g)
  ultimately show thesis using that u q rec(3) by blast
qed

lemma other_token:
  fixes row :: "rat list"
  assumes "\<forall>p \<in> set row. 0 \<le> p" "sum_list row = 1" "d < length row" "row ! d < 1"
  shows "\<exists>v < length row. v \<noteq> d \<and> 0 < row ! v"
proof (rule ccontr)
  assume "\<not> ?thesis"
  then have z: "row ! v = 0" if "v < length row" "v \<noteq> d" for v
    using assms(1) that by (metis nth_mem order_le_less)
  have "sum_list row = (\<Sum>v\<in>{0..<length row}. row ! v)" by (rule sum_list_sum_nth)
  also have "\<dots> = (\<Sum>v\<in>{d}. row ! v)"
    using z assms(3) by (intro sum.mono_neutral_right) auto
  finally show False using assms(2,4) by simp
qed

text \<open>The tokens of one request, from its choices.\<close>

lemma random_request:
  assumes si: "sampler_input drafts nums max_len vocab target_probs bonus" and b: "b < length nums"
    and probs: "\<forall>row \<in> set target_probs. (\<forall>p \<in> set row. 0 \<le> p) \<and> sum_list row = 1"
    and u: "length uniform = length drafts" "\<forall>u \<in> set uniform. 0 \<le> u \<and> u < 1"
    and q: "length q = length nums" "\<forall>row \<in> set q. length row = vocab \<and> (\<forall>e \<in> set row. 0 < e)"
    and rec: "\<And>k. k < nums ! b \<Longrightarrow> \<exists>req < length nums.
      rec ! (starts 0 nums ! b + k) = int (argmax (scores_at drafts target_probs vocab q req (starts 0 nums ! b + k)))"
  shows "\<exists>m \<le> nums ! b. \<exists>x. emit (random_choices drafts None target_probs rec uniform nums b) (bonus ! b) =
      take m (drop (starts 0 nums ! b) drafts) @ [x] \<and>
    (\<forall>k < m. uniform ! (starts 0 nums ! b + k) \<le> target_probs ! (starts 0 nums ! b + k) ! nat (drafts ! (starts 0 nums ! b + k))) \<and>
    (if m = nums ! b then x = bonus ! b
     else target_probs ! (starts 0 nums ! b + m) ! nat (drafts ! (starts 0 nums ! b + m)) < uniform ! (starts 0 nums ! b + m) \<and> 0 \<le> x \<and> x < int vocab \<and> x \<noteq> drafts ! (starts 0 nums ! b + m) \<and> 0 < target_probs ! (starts 0 nums ! b + m) ! nat x)"
proof -
  let ?s = "starts 0 nums ! b" and ?n = "nums ! b"
  let ?cs = "random_choices drafts None target_probs rec uniform nums b"
  have cs: "?cs ! k = (if uniform ! (?s + k) \<le> target_probs ! (?s + k) ! nat (drafts ! (?s + k))
      then (drafts ! (?s + k), False) else (rec ! (?s + k), True))" if "k < ?n" for k
    using that by (simp add: random_choices_def Let_def)
  have uk: "uniform ! (?s + k) < 1" if "k < ?n" for k
    using at_draft(1)[OF si b that] u by auto
  have accepted: "map fst (take m ?cs) = take m (drop ?s drafts)" if "m \<le> ?n" "\<forall>k < m. \<not> snd (?cs ! k)" for m
  proof (rule nth_equalityI)
    show "length (map fst (take m ?cs)) = length (take m (drop ?s drafts))"
      using that(1) segment_le[OF b] si by (simp add: sampler_input_def)
    fix k assume "k < length (map fst (take m ?cs))"
    then have "k < m" "k < ?n" by auto
    moreover have "drop ?s drafts ! k = drafts ! (?s + k)" using at_draft(1)[OF si b \<open>k < ?n\<close>] by simp
    ultimately show "map fst (take m ?cs) ! k = take m (drop ?s drafts) ! k"
      using that cs[of k] by (auto split: if_splits)
  qed
  have pos: "uniform ! (?s + k) \<le> target_probs ! (?s + k) ! nat (drafts ! (?s + k))" if "k < ?n" "\<not> snd (?cs ! k)" for k
    using cs[OF that(1)] that(2) by (auto split: if_splits)
  have recovered: "target_probs ! (?s + m) ! nat (drafts ! (?s + m)) < uniform ! (?s + m) \<and> 0 \<le> rec ! (?s + m) \<and> rec ! (?s + m) < int vocab \<and> rec ! (?s + m) \<noteq> drafts ! (?s + m) \<and>
      0 < target_probs ! (?s + m) ! nat (rec ! (?s + m))" if m: "m < ?n" "snd (?cs ! m)" for m
  proof -
    let ?x = "?s + m"
    note x = at_draft[OF si b m(1)]
    have row: "target_probs ! ?x \<in> set target_probs" "length (target_probs ! ?x) = vocab"
      using x(2) sampler_inputD(2)[OF si] by auto
    have "target_probs ! ?x ! nat (drafts ! ?x) < 1" using cs[OF m(1)] m(2) uk[OF m(1)] by (auto split: if_splits)
    moreover have "nat (drafts ! ?x) < vocab" using x(3,4) by (simp add: nat_less_iff)
    ultimately obtain v where v: "v < vocab" "v \<noteq> nat (drafts ! ?x)" "0 < target_probs ! ?x ! v"
      using other_token[of "target_probs ! ?x" "nat (drafts ! ?x)"] row probs by auto
    then have adj: "0 < adjusted drafts target_probs ?x v" using x(3) by (auto simp: adjusted_def)
    obtain req where req: "req < length nums" "rec ! ?x = int (argmax (scores_at drafts target_probs vocab q req ?x))"
      using rec[OF m(1)] by blast
    have "\<forall>e < vocab. 0 < q ! req ! e" using q req(1) by (metis nth_mem)
    from argmax_supported[OF v(1) adj this] req(2) cs[OF m(1)] m(2) show ?thesis by (auto simp: adjusted_def split: if_splits)
  qed
  obtain m where m: "m \<le> ?n" "\<forall>k < m. \<not> snd (?cs ! k)"
    "m = ?n \<and> emit ?cs (bonus ! b) = map fst ?cs @ [bonus ! b] \<or>
     m < ?n \<and> snd (?cs ! m) \<and> emit ?cs (bonus ! b) = map fst (take m ?cs) @ [fst (?cs ! m)]"
    using emit_cases[of ?cs "bonus ! b"] by (metis length_choices(2))
  have P: "\<forall>k < m. uniform ! (?s + k) \<le> target_probs ! (?s + k) ! nat (drafts ! (?s + k))" using pos m(1,2) by auto
  from m(3) show ?thesis
  proof
    assume a: "m = ?n \<and> emit ?cs (bonus ! b) = map fst ?cs @ [bonus ! b]"
    then have "map fst ?cs = take m (drop ?s drafts)" using accepted[OF m(1,2)] by simp
    with a P show ?thesis by (intro exI[of _ m]) auto
  next
    assume a: "m < ?n \<and> snd (?cs ! m) \<and> emit ?cs (bonus ! b) = map fst (take m ?cs) @ [fst (?cs ! m)]"
    then have "fst (?cs ! m) = rec ! (?s + m)" using cs[of m] by (auto split: if_splits)
    with a accepted[OF m(1,2)] recovered[of m] P show ?thesis by (intro exI[of _ m]) auto
  qed
qed


definition sample_randomness :: "unit randomness" where
  "sample_randomness = no_randomness\<lparr>unseeded_uniform := [0, 1/2], unseeded_exponential := [[1, 1], [1, 1]]\<rparr>"

definition mixed_metadata :: "unit sampling_metadata" where
  "mixed_metadata = greedy_metadata\<lparr>all_greedy := False, temperature := [0, 1]\<rparr>"


section \<open>Expansion\<close>

lemma masked_store:
  assumes "s + n \<le> length out"
  shows "for_each (\<lambda>off out. if off < n then tl_store out (s + off) v else Inr out) [0..<m] out =
    Inr (take s out @ replicate (min m n) v @ drop (s + min m n) out)"
proof (induction m)
  case (Suc m)
  show ?case
  proof (cases "m < n")
    case True
    have "drop (s + m) out = out ! (s + m) # drop (Suc (s + m)) out" using True assms by (simp add: Cons_nth_drop_Suc)
    with True assms Suc.IH show ?thesis
      by (simp add: for_each_append tl_store_def list_update_append replicate_append_same[symmetric])
  next
    case False
    with Suc.IH show ?thesis by (simp add: for_each_append)
  qed
qed simp

text \<open>Every token gets the value of its request, as long as no request has more than \<^verbatim>\<open>MAX_SPEC_LEN\<close> tokens.\<close>

theorem expand_batch_correct:
  assumes "length xs = length ns" "\<forall>n \<in> set ns. n \<le> MAX_SPEC_LEN"
  shows "expand_batch_to_tokens xs (cumsum_from 0 ns) (sum_list ns) from to =
    Inr (np_repeat (map (\<lambda>x. if x = from then to else x) xs) ns)"
proof -
  let ?val = "\<lambda>x. if x = from then to else x"
  have K: "expand_kernel (cumsum_from 0 ns) xs from to MAX_SPEC_LEN b out =
      Inr (take (starts 0 ns ! b) out @ replicate (ns ! b) (?val (xs ! b)) @ drop (starts 0 ns ! b + ns ! b) out)"
    if b: "b < length ns" and l: "length out = sum_list ns" for b out
    using masked_store[of "starts 0 ns ! b" "ns ! b" out "?val (xs ! b)" MAX_SPEC_LEN] segment_le[OF b] assms b l
    by (auto simp: expand_kernel_def segment_cumsum index_py_def Let_def min_absorb2 cong del: if_weak_cong)
  have "for_each (expand_kernel (cumsum_from 0 ns) xs from to MAX_SPEC_LEN) [0..<m] out =
      Inr (np_repeat (map ?val (take m xs)) (take m ns) @ drop (sum_list (take m ns)) out)"
    if "m \<le> length ns" "length out = sum_list ns" for m out
    using that
  proof (induction m)
    case (Suc m)
    let ?o = "np_repeat (map ?val (take m xs)) (take m ns) @ drop (sum_list (take m ns)) out"
    have l: "length (np_repeat (map ?val (take m xs)) (take m ns)) = sum_list (take m ns)"
      using assms(1) Suc.prems by (intro length_np_repeat) simp
    have le: "sum_list (take m ns) \<le> sum_list ns" using segment_le[of m ns] Suc.prems by (simp add: nth_starts)
    have lo: "length ?o = sum_list ns" using l le Suc.prems by simp
    have sp: "np_repeat (map ?val (take (Suc m) xs)) (take (Suc m) ns) =
        np_repeat (map ?val (take m xs)) (take m ns) @ replicate (ns ! m) (?val (xs ! m))"
      using Suc.prems assms(1) by (simp add: take_Suc_conv_app_nth np_repeat_def)
    show ?case using Suc K[of m ?o] lo l
      by (simp add: for_each_append nth_starts sp sum_list_take_Suc add.commute)
  qed (simp add: np_repeat_def)
  from this[of "length ns" "replicate (sum_list ns) to"] assms(1) show ?thesis
    by (simp add: expand_batch_to_tokens_def)
qed

end
