(* ===== verification/Block_Table.thy ===== *)
theory Block_Table
  imports Prelude
begin

text \<open>
  The block tables of the model runner (\<^verbatim>\<open>vllm/v1/worker/block_table.py\<close>): one row of block numbers per request of the
  batch and KV cache group, and the mapping from tokens to slots of the KV cache computed from them. With decode
  context parallelism the tokens of a request are spread over the ranks.
\<close>

section \<open>Rows\<close>

record block_table =
  bt_block_size :: nat
  max_num_blocks_per_req :: nat
  bt_rows :: "int list list"
  num_blocks_per_row :: "nat list"
  slot_mapping :: "int list"
  dcp_world_size :: nat
  dcp_rank :: nat
  bt_rows_gpu :: "int list list"
  slot_mapping_gpu :: "int list"

definition block_table_init :: "nat \<Rightarrow> nat \<Rightarrow> nat \<Rightarrow> nat \<Rightarrow> nat \<Rightarrow> nat \<Rightarrow> block_table" where
  "block_table_init block_size max_num_reqs max_blocks max_num_batched_tokens world_size rank =
     \<lparr>bt_block_size = block_size, max_num_blocks_per_req = max_blocks,
      bt_rows = replicate max_num_reqs (replicate max_blocks 0), num_blocks_per_row = replicate max_num_reqs 0,
      slot_mapping = replicate max_num_batched_tokens 0, dcp_world_size = world_size, dcp_rank = rank,
      bt_rows_gpu = replicate max_num_reqs (replicate max_blocks 0), slot_mapping_gpu = replicate max_num_batched_tokens 0\<rparr>"

text \<open>Assignment to a slice of a row. The slice is cut off at the end of the row; the lengths must agree, except that a
  single value is broadcast to a slice that has been cut off to nothing.\<close>

definition put_slice :: "'a list \<Rightarrow> nat \<Rightarrow> 'a list \<Rightarrow> 'a list result" where
  "put_slice row start xs =
     (if xs = [] \<or> start + length xs \<le> length row then Inr (take start row @ xs @ drop (start + length xs) row)
      else if length xs = 1 then Inr row else Inl ValueError)"

definition append_row :: "int list \<Rightarrow> nat \<Rightarrow> block_table \<Rightarrow> block_table result" where
  "append_row block_ids row_idx bt =
     (if block_ids = [] then Inr bt
      else bnd (index_py (num_blocks_per_row bt) row_idx) (\<lambda>start.
        bnd (index_py (bt_rows bt) row_idx) (\<lambda>row.
        bnd (put_slice row start block_ids) (\<lambda>row'.
        Inr (bt\<lparr>num_blocks_per_row := (num_blocks_per_row bt)[row_idx := start + length block_ids],
                bt_rows := (bt_rows bt)[row_idx := row']\<rparr>)))))"

definition add_row :: "int list \<Rightarrow> nat \<Rightarrow> block_table \<Rightarrow> block_table result" where
  "add_row block_ids row_idx bt =
     bnd (index_py (num_blocks_per_row bt) row_idx) (\<lambda>_.
     append_row block_ids row_idx (bt\<lparr>num_blocks_per_row := (num_blocks_per_row bt)[row_idx := 0]\<rparr>))"

definition move_row :: "nat \<Rightarrow> nat \<Rightarrow> block_table \<Rightarrow> block_table result" where
  "move_row src tgt bt =
     bnd (index_py (num_blocks_per_row bt) src) (\<lambda>num_blocks.
     bnd (index_py (bt_rows bt) src) (\<lambda>src_row.
     bnd (index_py (bt_rows bt) tgt) (\<lambda>tgt_row.
     Inr (bt\<lparr>bt_rows := (bt_rows bt)[tgt := take num_blocks src_row @ drop num_blocks tgt_row],
             num_blocks_per_row := (num_blocks_per_row bt)[tgt := num_blocks]\<rparr>))))"

definition swap_row :: "nat \<Rightarrow> nat \<Rightarrow> block_table \<Rightarrow> block_table result" where
  "swap_row src tgt bt =
     bnd (index_py (num_blocks_per_row bt) src) (\<lambda>n1.
     bnd (index_py (num_blocks_per_row bt) tgt) (\<lambda>n2.
     bnd (index_py (bt_rows bt) src) (\<lambda>r1.
     bnd (index_py (bt_rows bt) tgt) (\<lambda>r2.
     Inr (bt\<lparr>num_blocks_per_row := (num_blocks_per_row bt)[src := n2, tgt := n1],
             bt_rows := (bt_rows bt)[src := r2, tgt := r1]\<rparr>)))))"

section \<open>Slots\<close>

text \<open>The block numbers are 32-bit integers, and so is their product with the block size.\<close>

definition int32 :: "int \<Rightarrow> int" where
  "int32 x = sint (word_of_int x :: 32 word)"

definition slot_of :: "block_table \<Rightarrow> nat \<times> nat \<Rightarrow> int result" where
  "slot_of bt = (\<lambda>(req_idx, position).
     if dcp_world_size bt > 1 then
       let virtual_block_size = bt_block_size bt * dcp_world_size bt in
       check (virtual_block_size \<noteq> 0) ZeroDivisionError
       (bnd (index_py (concat (bt_rows bt)) (req_idx * max_num_blocks_per_req bt + position div virtual_block_size)) (\<lambda>block_number.
        let virtual_block_offset = position mod virtual_block_size;
            block_offset = virtual_block_offset div dcp_world_size bt
        in Inr (if virtual_block_offset mod dcp_world_size bt = dcp_rank bt
                then int32 (block_number * int (bt_block_size bt)) + int block_offset else -1)))
     else
       check (bt_block_size bt \<noteq> 0) ZeroDivisionError
       (bnd (index_py (concat (bt_rows bt)) (req_idx * max_num_blocks_per_req bt + position div bt_block_size bt)) (\<lambda>block_number.
        Inr (int32 (block_number * int (bt_block_size bt)) + int (position mod bt_block_size bt)))))"

definition compute_slot_mapping :: "nat list \<Rightarrow> nat list \<Rightarrow> block_table \<Rightarrow> block_table result" where
  "compute_slot_mapping req_indices positions bt =
     check (length req_indices = length positions) ValueError
     (bnd (map_res (slot_of bt) (zip req_indices positions)) (\<lambda>slots.
      bnd (put_slice (slot_mapping bt) 0 slots) (\<lambda>sm. Inr (bt\<lparr>slot_mapping := sm\<rparr>))))"

section \<open>Device copies\<close>

definition copy_to_gpu :: "nat \<Rightarrow> 'a list \<Rightarrow> 'a list \<Rightarrow> 'a list" where
  "copy_to_gpu n cpu gpu = take n cpu @ drop n gpu"

definition commit_block_table :: "nat \<Rightarrow> block_table \<Rightarrow> block_table" where
  "commit_block_table num_reqs bt = bt\<lparr>bt_rows_gpu := copy_to_gpu num_reqs (bt_rows bt) (bt_rows_gpu bt)\<rparr>"

definition commit_slot_mapping :: "nat \<Rightarrow> block_table \<Rightarrow> block_table" where
  "commit_slot_mapping num_tokens bt = bt\<lparr>slot_mapping_gpu := copy_to_gpu num_tokens (slot_mapping bt) (slot_mapping_gpu bt)\<rparr>"

definition clear_block_table :: "block_table \<Rightarrow> block_table" where
  "clear_block_table bt =
     bt\<lparr>bt_rows_gpu := map (map (\<lambda>_. 0)) (bt_rows_gpu bt), bt_rows := map (map (\<lambda>_. 0)) (bt_rows bt)\<rparr>"

definition get_device_tensor :: "nat \<Rightarrow> block_table \<Rightarrow> int list list" where
  "get_device_tensor num_reqs bt = take num_reqs (bt_rows_gpu bt)"

section \<open>Several groups\<close>

type_synonym multi_group_block_table = "block_table list"

definition multi_group_init :: "nat \<Rightarrow> int \<Rightarrow> nat \<Rightarrow> nat list \<Rightarrow> nat \<Rightarrow> nat \<Rightarrow> nat \<Rightarrow> multi_group_block_table" where
  "multi_group_init max_num_reqs max_model_len max_num_batched_tokens block_sizes num_speculative_tokens world_size rank =
     map (\<lambda>bs. block_table_init bs max_num_reqs
            (nat (max (cdiv max_model_len (int bs * int world_size)) (1 + int num_speculative_tokens)))
            max_num_batched_tokens world_size rank) block_sizes"

definition for_groups :: "(nat \<Rightarrow> block_table \<Rightarrow> block_table result) \<Rightarrow> multi_group_block_table \<Rightarrow> multi_group_block_table result" where
  "for_groups f bts = map_res (\<lambda>(i, bt). f i bt) (enumerate 0 bts)"

definition mg_append_row :: "int list list \<Rightarrow> nat \<Rightarrow> multi_group_block_table \<Rightarrow> multi_group_block_table result" where
  "mg_append_row block_ids row_idx = for_groups (\<lambda>i bt. bnd (index_py block_ids i) (\<lambda>ids. append_row ids row_idx bt))"

definition mg_add_row :: "int list list \<Rightarrow> nat \<Rightarrow> multi_group_block_table \<Rightarrow> multi_group_block_table result" where
  "mg_add_row block_ids row_idx = for_groups (\<lambda>i bt. bnd (index_py block_ids i) (\<lambda>ids. add_row ids row_idx bt))"

definition mg_move_row :: "nat \<Rightarrow> nat \<Rightarrow> multi_group_block_table \<Rightarrow> multi_group_block_table result" where
  "mg_move_row src tgt = for_groups (\<lambda>_. move_row src tgt)"

definition mg_swap_row :: "nat \<Rightarrow> nat \<Rightarrow> multi_group_block_table \<Rightarrow> multi_group_block_table result" where
  "mg_swap_row src tgt = for_groups (\<lambda>_. swap_row src tgt)"

definition mg_compute_slot_mapping :: "nat list \<Rightarrow> nat list \<Rightarrow> multi_group_block_table \<Rightarrow> multi_group_block_table result" where
  "mg_compute_slot_mapping req_indices positions = for_groups (\<lambda>_. compute_slot_mapping req_indices positions)"

definition mg_commit_block_table :: "nat \<Rightarrow> multi_group_block_table \<Rightarrow> multi_group_block_table" where
  "mg_commit_block_table num_reqs = map (commit_block_table num_reqs)"

definition mg_commit_slot_mapping :: "nat \<Rightarrow> multi_group_block_table \<Rightarrow> multi_group_block_table" where
  "mg_commit_slot_mapping num_tokens = map (commit_slot_mapping num_tokens)"

definition mg_clear :: "multi_group_block_table \<Rightarrow> multi_group_block_table" where
  "mg_clear = map clear_block_table"

section \<open>Stores of rows\<close>

text \<open>What the batch relies on when it moves requests: a store of one row per request, of which moving copies a row and swapping
  exchanges two.\<close>

locale row_store =
  fixes ok :: "nat \<Rightarrow> 't \<Rightarrow> bool" and view :: "'t \<Rightarrow> nat \<Rightarrow> 'v"
    and mv :: "nat \<Rightarrow> nat \<Rightarrow> 't \<Rightarrow> 't result" and sw :: "nat \<Rightarrow> nat \<Rightarrow> 't \<Rightarrow> 't result"
  assumes move_law: "ok n t \<Longrightarrow> src < n \<Longrightarrow> tgt < n \<Longrightarrow>
      \<exists>t'. mv src tgt t = Inr t' \<and> ok n t' \<and> (\<forall>i<n. view t' i = (if i = tgt then view t src else view t i))"
    and swap_law: "ok n t \<Longrightarrow> src < n \<Longrightarrow> tgt < n \<Longrightarrow>
      \<exists>t'. sw src tgt t = Inr t' \<and> ok n t' \<and>
        (\<forall>i<n. view t' i = (if i = tgt then view t src else if i = src then view t tgt else view t i))"
begin

text \<open>A list of stores moves and swaps rows in all of them.\<close>

lemma lift_step:
  assumes "\<And>t. ok n t \<Longrightarrow> \<exists>t'. f t = Inr t' \<and> ok n t' \<and> (\<forall>i<n. view t' i = view t (g i))" "\<forall>t \<in> set ts. ok n t"
  shows "\<exists>ts'. map_res f ts = Inr ts' \<and> (\<forall>t \<in> set ts'. ok n t) \<and> (\<forall>i<n. map (\<lambda>t. view t i) ts' = map (\<lambda>t. view t (g i)) ts)"
  using assms(2)
proof (induction ts)
  case (Cons t ts)
  from assms(1)[of t] Cons.prems obtain t' where t': "f t = Inr t'" "ok n t'" "\<forall>i<n. view t' i = view t (g i)" by auto
  from Cons obtain ts' where "map_res f ts = Inr ts'" "\<forall>t \<in> set ts'. ok n t"
    "\<forall>i<n. map (\<lambda>t. view t i) ts' = map (\<lambda>t. view t (g i)) ts" by auto
  with t' show ?case by auto
qed simp

lemma lift_move:
  assumes "\<forall>t \<in> set ts. ok n t" "src < n" "tgt < n"
  shows "\<exists>ts'. map_res (mv src tgt) ts = Inr ts' \<and> (\<forall>t \<in> set ts'. ok n t) \<and>
    (\<forall>i<n. map (\<lambda>t. view t i) ts' = (if i = tgt then map (\<lambda>t. view t src) ts else map (\<lambda>t. view t i) ts))"
proof -
  have "\<exists>t'. mv src tgt t = Inr t' \<and> ok n t' \<and> (\<forall>i<n. view t' i = view t (if i = tgt then src else i))" if "ok n t" for t
    using move_law[OF that assms(2,3)] by fastforce
  from lift_step[OF this assms(1)] obtain ts' where "map_res (mv src tgt) ts = Inr ts'" "\<forall>t \<in> set ts'. ok n t"
    "\<forall>i<n. map (\<lambda>t. view t i) ts' = map (\<lambda>t. view t (if i = tgt then src else i)) ts" by blast
  then show ?thesis by (intro exI[of _ ts'] conjI) simp_all
qed

lemma lift_swap:
  assumes "\<forall>t \<in> set ts. ok n t" "src < n" "tgt < n"
  shows "\<exists>ts'. map_res (sw src tgt) ts = Inr ts' \<and> (\<forall>t \<in> set ts'. ok n t) \<and>
    (\<forall>i<n. map (\<lambda>t. view t i) ts' =
      (if i = tgt then map (\<lambda>t. view t src) ts else if i = src then map (\<lambda>t. view t tgt) ts else map (\<lambda>t. view t i) ts))"
proof -
  have "\<exists>t'. sw src tgt t = Inr t' \<and> ok n t' \<and> (\<forall>i<n. view t' i = view t (if i = tgt then src else if i = src then tgt else i))"
    if "ok n t" for t
    using swap_law[OF that assms(2,3)] by fastforce
  from lift_step[OF this assms(1)] obtain ts' where "map_res (sw src tgt) ts = Inr ts'" "\<forall>t \<in> set ts'. ok n t"
    "\<forall>i<n. map (\<lambda>t. view t i) ts' = map (\<lambda>t. view t (if i = tgt then src else if i = src then tgt else i)) ts" by blast
  then show ?thesis by (intro exI[of _ ts'] conjI) simp_all
qed

end

definition table_ok :: "nat \<Rightarrow> block_table \<Rightarrow> bool" where
  "table_ok n bt \<longleftrightarrow> 0 < bt_block_size bt \<and> 0 < dcp_world_size bt \<and> dcp_rank bt < dcp_world_size bt \<and>
     length (bt_rows bt) = n \<and> length (num_blocks_per_row bt) = n \<and>
     (\<forall>i<n. length (bt_rows bt ! i) = max_num_blocks_per_req bt \<and> num_blocks_per_row bt ! i \<le> max_num_blocks_per_req bt)"

definition row_blocks :: "block_table \<Rightarrow> nat \<Rightarrow> int list" where
  "row_blocks bt i = take (num_blocks_per_row bt ! i) (bt_rows bt ! i)"

lemma table_okD:
  assumes "table_ok n bt" "i < n"
  shows "length (bt_rows bt ! i) = max_num_blocks_per_req bt" "num_blocks_per_row bt ! i \<le> max_num_blocks_per_req bt"
    "i < length (bt_rows bt)" "i < length (num_blocks_per_row bt)"
  using assms by (auto simp: table_ok_def)

lemma append_row_ok:
  assumes ok: "table_ok n bt" and i: "i < n" and fits: "num_blocks_per_row bt ! i + length ids \<le> max_num_blocks_per_req bt"
  shows "\<exists>bt'. append_row ids i bt = Inr bt' \<and> table_ok n bt' \<and>
    (\<forall>j<n. row_blocks bt' j = (if j = i then row_blocks bt i @ ids else row_blocks bt j))"
proof (cases "ids = []")
  case False
  note d = table_okD[OF ok i]
  let ?row = "take (num_blocks_per_row bt ! i) (bt_rows bt ! i) @ ids
      @ drop (num_blocks_per_row bt ! i + length ids) (bt_rows bt ! i)"
  let ?bt = "bt\<lparr>num_blocks_per_row := (num_blocks_per_row bt)[i := num_blocks_per_row bt ! i + length ids],
                bt_rows := (bt_rows bt)[i := ?row]\<rparr>"
  have "append_row ids i bt = Inr ?bt" using False d fits by (simp add: append_row_def index_py_def put_slice_def)
  moreover have "table_ok n ?bt" using ok d fits by (auto simp: table_ok_def nth_list_update)
  moreover have "row_blocks ?bt j = (if j = i then row_blocks bt i @ ids else row_blocks bt j)" if "j < n" for j
    using d fits by (auto simp: row_blocks_def nth_list_update)
  ultimately show ?thesis by blast
qed (use assms in \<open>simp add: append_row_def\<close>)

lemma add_row_ok:
  assumes ok: "table_ok n bt" and i: "i < n" and fits: "length ids \<le> max_num_blocks_per_req bt"
  shows "\<exists>bt'. add_row ids i bt = Inr bt' \<and> table_ok n bt' \<and> (\<forall>j<n. row_blocks bt' j = (if j = i then ids else row_blocks bt j))"
proof -
  let ?bt = "bt\<lparr>num_blocks_per_row := (num_blocks_per_row bt)[i := 0]\<rparr>"
  have "table_ok n ?bt" using ok i by (auto simp: table_ok_def nth_list_update)
  from append_row_ok[OF this i, of ids] fits table_okD[OF ok i] obtain bt' where
    bt': "append_row ids i ?bt = Inr bt'" "table_ok n bt'"
      "\<forall>j<n. row_blocks bt' j = (if j = i then row_blocks ?bt i @ ids else row_blocks ?bt j)" by auto
  have "row_blocks ?bt j = (if j = i then [] else row_blocks bt j)" for j
    using table_okD[OF ok i] by (simp add: row_blocks_def)
  with bt' table_okD(4)[OF ok i] show ?thesis by (auto simp: add_row_def index_py_def)
qed

interpretation bt: row_store table_ok row_blocks move_row swap_row
proof
  fix n bt src tgt assume ok: "table_ok n bt" and s: "src < n" and t: "tgt < n"
  note ds = table_okD[OF ok s] and dt = table_okD[OF ok t]
  let ?k = "num_blocks_per_row bt ! src"
  let ?bt = "bt\<lparr>bt_rows := (bt_rows bt)[tgt := take ?k (bt_rows bt ! src) @ drop ?k (bt_rows bt ! tgt)],
             num_blocks_per_row := (num_blocks_per_row bt)[tgt := ?k]\<rparr>"
  have "move_row src tgt bt = Inr ?bt" using ds dt by (simp add: move_row_def index_py_def)
  moreover have "table_ok n ?bt" using ok ds dt by (auto simp: table_ok_def nth_list_update)
  moreover have "row_blocks ?bt i = (if i = tgt then row_blocks bt src else row_blocks bt i)" for i
    using ds dt by (auto simp: row_blocks_def)
  ultimately show "\<exists>bt'. move_row src tgt bt = Inr bt' \<and> table_ok n bt' \<and>
      (\<forall>i<n. row_blocks bt' i = (if i = tgt then row_blocks bt src else row_blocks bt i))" by blast
  let ?sw = "bt\<lparr>num_blocks_per_row := (num_blocks_per_row bt)[src := num_blocks_per_row bt ! tgt, tgt := num_blocks_per_row bt ! src],
             bt_rows := (bt_rows bt)[src := bt_rows bt ! tgt, tgt := bt_rows bt ! src]\<rparr>"
  have "swap_row src tgt bt = Inr ?sw" using ds dt by (simp add: swap_row_def index_py_def)
  moreover have "table_ok n ?sw" using ok ds dt by (auto simp: table_ok_def nth_list_update)
  moreover have "row_blocks ?sw i = (if i = tgt then row_blocks bt src else if i = src then row_blocks bt tgt else row_blocks bt i)" for i
    using ds dt by (auto simp: row_blocks_def nth_list_update)
  ultimately show "\<exists>bt'. swap_row src tgt bt = Inr bt' \<and> table_ok n bt' \<and> (\<forall>i<n. row_blocks bt' i =
      (if i = tgt then row_blocks bt src else if i = src then row_blocks bt tgt else row_blocks bt i))" by blast
qed

lemma for_groups_const: "for_groups (\<lambda>_. f) bts = map_res f bts"
proof -
  have "map_res (\<lambda>(i, bt). f bt) (enumerate k bts) = map_res f bts" for k
    by (induction bts arbitrary: k) auto
  then show ?thesis by (simp add: for_groups_def)
qed

abbreviation tables_ok :: "nat \<Rightarrow> multi_group_block_table \<Rightarrow> bool" where
  "tables_ok n bts \<equiv> \<forall>bt \<in> set bts. table_ok n bt"

definition group_blocks :: "multi_group_block_table \<Rightarrow> nat \<Rightarrow> int list list" where
  "group_blocks bts i = map (\<lambda>bt. row_blocks bt i) bts"

interpretation mg: row_store tables_ok group_blocks mg_move_row mg_swap_row
  by unfold_locales
    (auto simp: mg_move_row_def mg_swap_row_def for_groups_const group_blocks_def dest: bt.lift_move bt.lift_swap)

lemma for_groups_ok:
  assumes "\<And>i. i < length bts \<Longrightarrow> \<exists>bt'. f i (bts ! i) = Inr bt' \<and> P i bt'"
  shows "\<exists>bts'. for_groups f bts = Inr bts' \<and> length bts' = length bts \<and> (\<forall>i < length bts. P i (bts' ! i))"
proof -
  have "\<exists>bts'. map_res (\<lambda>(i, bt). f i bt) (enumerate k bts) = Inr bts' \<and> length bts' = length bts \<and> (\<forall>i < length bts. P (k + i) (bts' ! i))"
    if "\<And>i. i < length bts \<Longrightarrow> \<exists>bt'. f (k + i) (bts ! i) = Inr bt' \<and> P (k + i) bt'" for k
    using that
  proof (induction bts arbitrary: k)
    case (Cons b bts)
    from Cons.prems[of 0] obtain b' where b': "f k b = Inr b'" "P k b'" by auto
    have "\<exists>bt'. f (Suc k + i) (bts ! i) = Inr bt' \<and> P (Suc k + i) bt'" if "i < length bts" for i
      using Cons.prems[of "Suc i"] that by simp
    from Cons.IH[OF this] obtain bts' where "map_res (\<lambda>(i, bt). f i bt) (enumerate (Suc k) bts) = Inr bts'"
      "length bts' = length bts" "\<forall>i < length bts. P (Suc k + i) (bts' ! i)" by blast
    with b' show ?case
      by (intro exI[of _ "b' # bts'"]) (auto simp: nth_Cons split: nat.split)
  qed simp
  from this[of 0] assms show ?thesis by (auto simp: for_groups_def)
qed

lemma mg_add_row_ok:
  assumes ok: "tables_ok n bts" and i: "i < n" and len: "length ids = length bts"
    and fits: "\<forall>g < length bts. length (ids ! g) \<le> max_num_blocks_per_req (bts ! g)"
  shows "\<exists>bts'. mg_add_row ids i bts = Inr bts' \<and> tables_ok n bts' \<and> length bts' = length bts \<and>
    (\<forall>j<n. group_blocks bts' j = (if j = i then ids else group_blocks bts j))"
proof -
  have "\<exists>bt'. bnd (index_py ids g) (\<lambda>x. add_row x i (bts ! g)) = Inr bt' \<and>
      (table_ok n bt' \<and> (\<forall>j<n. row_blocks bt' j = (if j = i then ids ! g else row_blocks (bts ! g) j)))" if "g < length bts" for g
    using add_row_ok[of n "bts ! g" i "ids ! g"] ok i len fits that by (auto simp: index_py_def)
  from for_groups_ok[where f = "\<lambda>g bt. bnd (index_py ids g) (\<lambda>x. add_row x i bt)", OF this] obtain bts' where b: "mg_add_row ids i bts = Inr bts'" "length bts' = length bts"
    "\<forall>g < length bts. table_ok n (bts' ! g) \<and> (\<forall>j<n. row_blocks (bts' ! g) j = (if j = i then ids ! g else row_blocks (bts ! g) j))"
    unfolding mg_add_row_def by blast
  have "tables_ok n bts'" using b by (auto simp: all_set_conv_all_nth)
  moreover have "group_blocks bts' j = (if j = i then ids else group_blocks bts j)" if "j < n" for j
    using b that len by (auto simp: group_blocks_def intro!: nth_equalityI)
  ultimately show ?thesis using b by blast
qed

text \<open>No operation changes the width of a table.\<close>

lemma for_groups_width:
  assumes "for_groups f bts = Inr bts'" "\<And>i bt bt'. f i bt = Inr bt' \<Longrightarrow> max_num_blocks_per_req bt' = max_num_blocks_per_req bt"
  shows "map max_num_blocks_per_req bts' = map max_num_blocks_per_req bts"
proof -
  have "map max_num_blocks_per_req bts' = map max_num_blocks_per_req bts"
    if "map_res (\<lambda>(i, bt). f i bt) (enumerate k bts) = Inr bts'" for k
    using that by (induction bts arbitrary: k bts') (auto dest: assms(2))
  with assms(1) show ?thesis by (simp add: for_groups_def)
qed

lemma row_op_width:
  "append_row ids i bt = Inr bt' \<Longrightarrow> max_num_blocks_per_req bt' = max_num_blocks_per_req bt"
  "add_row ids i bt = Inr bt' \<Longrightarrow> max_num_blocks_per_req bt' = max_num_blocks_per_req bt"
  "move_row i j bt = Inr bt' \<Longrightarrow> max_num_blocks_per_req bt' = max_num_blocks_per_req bt"
  "swap_row i j bt = Inr bt' \<Longrightarrow> max_num_blocks_per_req bt' = max_num_blocks_per_req bt"
  by (auto simp: append_row_def add_row_def move_row_def swap_row_def split: if_splits)

lemma mg_op_width:
  "mg_add_row ids' i bts = Inr bts' \<Longrightarrow> map max_num_blocks_per_req bts' = map max_num_blocks_per_req bts"
  "mg_move_row i j bts = Inr bts' \<Longrightarrow> map max_num_blocks_per_req bts' = map max_num_blocks_per_req bts"
  "mg_swap_row i j bts = Inr bts' \<Longrightarrow> map max_num_blocks_per_req bts' = map max_num_blocks_per_req bts"
  unfolding mg_add_row_def mg_move_row_def mg_swap_row_def
  by (auto elim!: for_groups_width dest: row_op_width)

section \<open>The slot mapping\<close>

text \<open>Where a token is stored: in its block, at its offset, on one rank.\<close>

definition expected_slot :: "block_table \<Rightarrow> nat \<times> nat \<Rightarrow> int" where
  "expected_slot bt = (\<lambda>(req, pos).
     let v = bt_block_size bt * dcp_world_size bt in
     if pos mod v mod dcp_world_size bt = dcp_rank bt
     then row_blocks bt req ! (pos div v) * int (bt_block_size bt) + int (pos mod v div dcp_world_size bt) else -1)"

definition token_ok :: "nat \<Rightarrow> block_table \<Rightarrow> nat \<times> nat \<Rightarrow> bool" where
  "token_ok n bt = (\<lambda>(req, pos). req < n \<and>
     pos div (bt_block_size bt * dcp_world_size bt) < num_blocks_per_row bt ! req)"

text \<open>The KV cache is small enough for its slots to be 32-bit integers.\<close>

definition block_small :: "block_table \<Rightarrow> int \<Rightarrow> bool" where
  "block_small bt b \<longleftrightarrow> 0 \<le> b \<and> b * int (bt_block_size bt) < 2 ^ 31"

lemma int32_small: "0 \<le> x \<Longrightarrow> x < 2 ^ 31 \<Longrightarrow> int32 x = x"
  unfolding int32_def by (subst sint_sbintrunc', subst signed_take_bit_int_eq_self) simp_all

lemma nth_concat_rows:
  assumes "\<forall>i < length rows. length (rows ! i) = w" "r < length rows" "c < w"
  shows "r * w + c < length (concat rows)" "concat rows ! (r * w + c) = rows ! r ! c"
proof -
  have len: "length (concat (take r rows)) = r * w" if "r \<le> length rows" for r
    using that assms(1) by (induction r) (auto simp: take_Suc_conv_app_nth)
  have c: "concat rows = concat (take r rows) @ rows ! r @ concat (drop (Suc r) rows)"
    using assms(2) by (metis concat.simps(2) concat_append id_take_nth_drop)
  show "r * w + c < length (concat rows)" by (subst c) (use len[of r] assms in simp)
  show "concat rows ! (r * w + c) = rows ! r ! c" by (subst c) (use len[of r] assms in \<open>simp add: nth_append\<close>)
qed

lemma slot_of_eq:
  assumes ok: "table_ok n bt" and t: "token_ok n bt tk"
    and small: "block_small bt (row_blocks bt (fst tk) ! (snd tk div (bt_block_size bt * dcp_world_size bt)))"
  shows "slot_of bt tk = Inr (expected_slot bt tk)"
proof -
  obtain req pos where tk: "tk = (req, pos)" by (cases tk)
  let ?v = "bt_block_size bt * dcp_world_size bt"
  have r: "req < n" and b: "pos div ?v < num_blocks_per_row bt ! req" using t by (auto simp: token_ok_def tk)
  note d = table_okD[OF ok r]
  have w: "\<forall>i < length (bt_rows bt). length (bt_rows bt ! i) = max_num_blocks_per_req bt"
    using ok by (auto simp: table_ok_def)
  have c: "pos div ?v < max_num_blocks_per_req bt" using b d(2) by simp
  have ix: "index_py (concat (bt_rows bt)) (req * max_num_blocks_per_req bt + pos div ?v) = Inr (row_blocks bt req ! (pos div ?v))"
    using nth_concat_rows[OF w d(3) c] b by (simp add: row_blocks_def)
  have i32: "int32 (row_blocks bt req ! (pos div ?v) * int (bt_block_size bt)) = row_blocks bt req ! (pos div ?v) * int (bt_block_size bt)"
    using small by (intro int32_small) (auto simp: block_small_def tk)
  have p: "bt_block_size bt \<noteq> 0" "dcp_world_size bt \<noteq> 0" "dcp_rank bt < dcp_world_size bt" using ok by (auto simp: table_ok_def)
  show ?thesis
  proof (cases "dcp_world_size bt > 1")
    case True
    then show ?thesis using p by (simp add: slot_of_def expected_slot_def tk Let_def ix i32)
  next
    case False
    then have "dcp_world_size bt = 1" using p by simp
    with p show ?thesis using ix i32 by (simp add: slot_of_def expected_slot_def tk Let_def index_py_def split: if_splits)
  qed
qed

lemma slots_differ:
  assumes bs: "0 < bt_block_size bt" "0 < dcp_world_size bt"
    and own: "row_blocks bt r1 ! (p1 div (bt_block_size bt * dcp_world_size bt)) =
        row_blocks bt r2 ! (p2 div (bt_block_size bt * dcp_world_size bt)) \<Longrightarrow>
      r1 = r2 \<and> p1 div (bt_block_size bt * dcp_world_size bt) = p2 div (bt_block_size bt * dcp_world_size bt)"
    and local: "expected_slot bt (r1, p1) \<noteq> -1" "expected_slot bt (r1, p1) = expected_slot bt (r2, p2)"
  shows "(r1, p1) = (r2, p2)"
proof -
  let ?v = "bt_block_size bt * dcp_world_size bt" and ?W = "dcp_world_size bt" and ?B = "bt_block_size bt"
  have off: "p mod ?v div ?W < ?B" for p using bs by (simp add: less_mult_imp_div_less)
  let ?b = "\<lambda>r p. row_blocks bt r ! (p div ?v)" and ?o = "\<lambda>p. p mod ?v div ?W"
  have m: "p1 mod ?v mod ?W = dcp_rank bt" "p2 mod ?v mod ?W = dcp_rank bt"
    using local by (auto simp: expected_slot_def Let_def split: if_splits)
  then have e: "?b r1 p1 * int ?B + int (?o p1) = ?b r2 p2 * int ?B + int (?o p2)"
    using local(2) by (simp add: expected_slot_def Let_def)
  have "(?b r1 p1 * int ?B + int (?o p1)) div int ?B = ?b r1 p1" "(?b r2 p2 * int ?B + int (?o p2)) div int ?B = ?b r2 p2"
    using off[of p1] off[of p2] bs by (simp_all add: div_add1_eq[symmetric])
  with e have b: "?b r1 p1 = ?b r2 p2" by metis
  with e have o: "?o p1 = ?o p2" by simp
  from own[OF b] have r: "r1 = r2" and d: "p1 div ?v = p2 div ?v" by auto
  have "p1 mod ?v = p2 mod ?v" using o m by (metis div_mult_mod_eq)
  with d have "p1 = p2" by (metis div_mult_mod_eq)
  with r show ?thesis by simp
qed

text \<open>C16: The slots of a step. For a batch of different tokens, each within the blocks of its request, where no two tokens of
  different requests or block columns lie in the same block and the slots are 32-bit integers, the slot mapping gives every token the slot at its offset in
  its block; a token has no slot (-1) exactly on the ranks that do not hold it, and no two tokens of the batch share a
  slot, so no token overwrites the keys and values of another.\<close>

theorem slot_mapping_correct:
  fixes bt rs ps
  defines "v \<equiv> bt_block_size bt * dcp_world_size bt"
  assumes ok: "table_ok n bt" and len: "length rs = length ps" "length ps \<le> length (slot_mapping bt)"
    and tokens: "\<forall>tk \<in> set (zip rs ps). token_ok n bt tk" "distinct (zip rs ps)"
    and own: "\<forall>(r1, p1) \<in> set (zip rs ps). \<forall>(r2, p2) \<in> set (zip rs ps).
      row_blocks bt r1 ! (p1 div v) = row_blocks bt r2 ! (p2 div v) \<longrightarrow> r1 = r2 \<and> p1 div v = p2 div v"
    and blocks: "\<forall>(r, p) \<in> set (zip rs ps). block_small bt (row_blocks bt r ! (p div v))"
  shows "\<exists>bt'. compute_slot_mapping rs ps bt = Inr bt' \<and> bt_rows bt' = bt_rows bt \<and>
    (\<forall>i < length ps. slot_mapping bt' ! i = expected_slot bt (rs ! i, ps ! i) \<and>
      (slot_mapping bt' ! i = -1 \<longleftrightarrow> ps ! i mod v mod dcp_world_size bt \<noteq> dcp_rank bt)) \<and>
    (\<forall>i < length ps. \<forall>j < length ps. i \<noteq> j \<longrightarrow> slot_mapping bt' ! i = slot_mapping bt' ! j \<longrightarrow> slot_mapping bt' ! i = -1)"
proof -
  let ?slots = "map (expected_slot bt) (zip rs ps)"
  let ?bt = "bt\<lparr>slot_mapping := ?slots @ drop (length ps) (slot_mapping bt)\<rparr>"
  have z: "length (zip rs ps) = length ps" "\<And>i. i < length ps \<Longrightarrow> zip rs ps ! i = (rs ! i, ps ! i)" using len(1) by simp_all
  have in_z: "(rs ! i, ps ! i) \<in> set (zip rs ps)" if "i < length ps" for i using z nth_mem that by metis
  have "map_res (slot_of bt) (zip rs ps) = Inr ?slots"
    using slot_of_eq[OF ok] tokens(1) blocks unfolding v_def by (intro map_res_eq) fastforce
  then have run: "compute_slot_mapping rs ps bt = Inr ?bt"
    using len by (simp add: compute_slot_mapping_def put_slice_def)
  have slot: "slot_mapping ?bt ! i = expected_slot bt (rs ! i, ps ! i)" if "i < length ps" for i
    using that z by (simp add: nth_append)
  have pos: "0 < bt_block_size bt" "0 < dcp_world_size bt" using ok by (auto simp: table_ok_def)
  have local: "expected_slot bt (rs ! i, ps ! i) = -1 \<longleftrightarrow> ps ! i mod v mod dcp_world_size bt \<noteq> dcp_rank bt" if "i < length ps" for i
  proof -
    have "0 \<le> row_blocks bt (rs ! i) ! (ps ! i div v)" using blocks in_z[OF that] by (auto simp: block_small_def)
    then have "0 \<le> row_blocks bt (rs ! i) ! (ps ! i div v) * int (bt_block_size bt) + int (ps ! i mod v div dcp_world_size bt)"
      by simp
    then show ?thesis by (auto simp: expected_slot_def v_def[symmetric] Let_def)
  qed
  have differ: "expected_slot bt (rs ! i, ps ! i) = -1"
    if ij: "i < length ps" "j < length ps" "i \<noteq> j" and e: "expected_slot bt (rs ! i, ps ! i) = expected_slot bt (rs ! j, ps ! j)" for i j
  proof (rule ccontr)
    assume "expected_slot bt (rs ! i, ps ! i) \<noteq> -1"
    moreover have "row_blocks bt (rs ! i) ! (ps ! i div v) = row_blocks bt (rs ! j) ! (ps ! j div v) \<Longrightarrow>
        rs ! i = rs ! j \<and> ps ! i div v = ps ! j div v" using own in_z[OF ij(1)] in_z[OF ij(2)] by fast
    ultimately have "(rs ! i, ps ! i) = (rs ! j, ps ! j)"
      using slots_differ[OF pos _ _ e] unfolding v_def by blast
    then have "zip rs ps ! i = zip rs ps ! j" using z ij by simp
    then have "i = j" using nth_eq_iff_index_eq[OF tokens(2)] unfolding z(1) using ij by blast
    with ij(3) show False ..
  qed
  show ?thesis
    by (intro exI[of _ ?bt] conjI run allI impI) (use slot local differ in auto)
qed

theorem slot_mapping_correct_witness:
  "let bt = \<lparr>bt_block_size = 2, max_num_blocks_per_req = 2, bt_rows = [[7, 3], [5, 0]], num_blocks_per_row = [2, 1],
       slot_mapping = [0, 0, 0, 0], dcp_world_size = 1, dcp_rank = 0,
       bt_rows_gpu = [[0, 0], [0, 0]], slot_mapping_gpu = [0, 0, 0, 0]\<rparr>
   in \<exists>bt'. compute_slot_mapping [0, 0, 1] [2, 3, 0] bt = Inr bt' \<and> slot_mapping bt' ! 0 = 6 \<and> slot_mapping bt' ! 1 = 7
      \<and> slot_mapping bt' ! 2 = 10"
proof -
  let ?bt = "\<lparr>bt_block_size = 2, max_num_blocks_per_req = 2, bt_rows = [[7, 3], [5, 0]], num_blocks_per_row = [2, 1],
       slot_mapping = [0, 0, 0, 0], dcp_world_size = 1, dcp_rank = 0,
       bt_rows_gpu = [[0, 0], [0, 0]], slot_mapping_gpu = [0, 0, 0, 0]\<rparr> :: block_table"
  have "\<exists>bt'. compute_slot_mapping [0, 0, 1] [2, 3, 0] ?bt = Inr bt' \<and> bt_rows bt' = bt_rows ?bt \<and>
    (\<forall>i < length [2, 3, 0 :: nat]. slot_mapping bt' ! i = expected_slot ?bt ([0, 0, 1] ! i, [2, 3, 0] ! i) \<and>
      (slot_mapping bt' ! i = -1 \<longleftrightarrow> [2, 3, 0] ! i mod (bt_block_size ?bt * dcp_world_size ?bt) mod dcp_world_size ?bt \<noteq> dcp_rank ?bt)) \<and>
    (\<forall>i < length [2, 3, 0 :: nat]. \<forall>j < length [2, 3, 0 :: nat]. i \<noteq> j \<longrightarrow>
      slot_mapping bt' ! i = slot_mapping bt' ! j \<longrightarrow> slot_mapping bt' ! i = -1)"
    by (rule slot_mapping_correct[where n = 2])
      (simp_all add: table_ok_def token_ok_def block_small_def row_blocks_def All_less_Suc2 numeral_2_eq_2[symmetric] nth_Cons')
  then obtain bt' where bt': "compute_slot_mapping [0, 0, 1] [2, 3, 0] ?bt = Inr bt'"
    and s: "\<And>i. i < length [2, 3, 0 :: nat] \<Longrightarrow> slot_mapping bt' ! i = expected_slot ?bt ([0, 0, 1] ! i, [2, 3, 0] ! i)" by blast
  have e: "expected_slot ?bt (0, 2) = 6" "expected_slot ?bt (0, 3) = 7" "expected_slot ?bt (1, 0) = 10" by code_simp+
  have "slot_mapping bt' ! 0 = 6" "slot_mapping bt' ! 1 = 7" "slot_mapping bt' ! 2 = 10"
    using s[of 0] s[of 1] s[of 2] e by simp_all
  with bt' show ?thesis unfolding Let_def by blast
qed

end
