(* ===== verification/Input_Batch.thy ===== *)
theory Input_Batch
  imports Request_Model Block_Table "HOL-Library.AList"
begin

text \<open>
  The persistent batch of the model runner (\<^verbatim>\<open>vllm/v1/worker/gpu_input_batch.py\<close>) with the builder that records its changes
  (\<^verbatim>\<open>vllm/v1/sample/logits_processor/state.py\<close>). Every request of the batch has an index, under which its tokens, counters,
  blocks and sampling parameters lie in arrays. Removing a request leaves a gap, which the next added request fills;
  \<^verbatim>\<open>condense\<close> closes the remaining gaps by moving requests down.
\<close>

section \<open>Sampling parameters\<close>

definition SAMPLING_EPS :: rat where "SAMPLING_EPS = 1 / 100000"

datatype sampling_type = GREEDY | RANDOM | RANDOM_SEED

record batch_sampling_params =
  bp_temperature :: rat
  bp_top_p :: rat
  bp_top_k :: int
  bp_min_p :: rat
  bp_frequency_penalty :: rat
  bp_presence_penalty :: rat
  bp_repetition_penalty :: rat
  bp_seed :: "int option"
  bp_logprobs :: "int option"
  bp_prompt_logprobs :: "int option"
  bp_allowed_token_ids :: "int list option"
  bp_bad_words_token_ids :: "int list list option"

definition sampling_type_of :: "batch_sampling_params \<Rightarrow> sampling_type" where
  "sampling_type_of p =
     (if bp_temperature p < SAMPLING_EPS then GREEDY else if bp_seed p \<noteq> None then RANDOM_SEED else RANDOM)"

definition is_spec_decode_unsupported :: "batch_sampling_params \<Rightarrow> bool" where
  "is_spec_decode_unsupported p \<longleftrightarrow> bp_frequency_penalty p \<noteq> 0 \<or> bp_presence_penalty p \<noteq> 0 \<or> bp_repetition_penalty p \<noteq> 1
     \<or> bp_min_p p > SAMPLING_EPS \<or> bp_logprobs p \<noteq> None"

section \<open>The batch update builder\<close>

datatype move_directionality = UNIDIRECTIONAL | SWAP

text \<open>An added request: its index, sampling parameters, prompt, and the reference to its output tokens (its id).\<close>

type_synonym added_request = "nat \<times> batch_sampling_params \<times> int list option \<times> string"

record batch_update_builder =
  bu_removed :: "nat list"
  is_removed_sorted :: bool
  bu_added :: "added_request list"
  bu_moved :: "(nat \<times> nat \<times> move_directionality) list"
  batch_changed :: bool

definition builder_init :: batch_update_builder where
  "builder_init = \<lparr>bu_removed = [], is_removed_sorted = False, bu_added = [], bu_moved = [], batch_changed = False\<rparr>"

definition ensure_removed_sorted :: "batch_update_builder \<Rightarrow> batch_update_builder" where
  "ensure_removed_sorted b =
     (if is_removed_sorted b then b else b\<lparr>bu_removed := rev (sort (bu_removed b)), is_removed_sorted := True\<rparr>)"

definition removed_append :: "nat \<Rightarrow> batch_update_builder \<Rightarrow> batch_update_builder result" where
  "removed_append index b =
     check (\<not> is_removed_sorted b) RuntimeError
       (Inr (b\<lparr>bu_removed := bu_removed b @ [index], batch_changed := True\<rparr>))"

definition has_removed :: "batch_update_builder \<Rightarrow> bool" where
  "has_removed b \<longleftrightarrow> bu_removed b \<noteq> []"

definition peek_removed :: "batch_update_builder \<Rightarrow> nat option \<times> batch_update_builder" where
  "peek_removed b =
     (if has_removed b then let b' = ensure_removed_sorted b in (Some (last (bu_removed b')), b') else (None, b))"

definition pop_removed :: "batch_update_builder \<Rightarrow> nat option \<times> batch_update_builder" where
  "pop_removed b =
     (if has_removed b
      then let b' = ensure_removed_sorted b in (Some (last (bu_removed b')), b'\<lparr>bu_removed := butlast (bu_removed b')\<rparr>)
      else (None, b))"

definition removed_list :: "batch_update_builder \<Rightarrow> nat list \<times> batch_update_builder" where
  "removed_list b = (let b' = ensure_removed_sorted b in (bu_removed b', b'))"

definition builder_reset :: "batch_update_builder \<Rightarrow> bool \<times> batch_update_builder" where
  "builder_reset b = (batch_changed b, builder_init)"

record batch_update =
  batch_size :: nat
  upd_removed :: "nat list"
  upd_moved :: "(nat \<times> nat \<times> move_directionality) list"
  upd_added :: "added_request list"

definition get_and_reset :: "nat \<Rightarrow> batch_update_builder \<Rightarrow> batch_update option \<times> batch_update_builder" where
  "get_and_reset n b =
     (let b1 = b\<lparr>is_removed_sorted := False, batch_changed := False\<rparr> in
      if bu_removed b = [] \<and> bu_moved b = [] \<and> bu_added b = [] then (None, b1)
      else (Some \<lparr>batch_size = n, upd_removed = bu_removed b, upd_moved = bu_moved b, upd_added = bu_added b\<rparr>,
            b1\<lparr>bu_removed := [], bu_moved := [], bu_added := []\<rparr>))"

section \<open>Requests and the state of the batch\<close>

text \<open>Generators and prompt embeddings are handles; the second component of an embedding is its length.\<close>

record cached_request_state =
  cr_req_id :: string
  cr_prompt_token_ids :: "int list option"
  cr_sampling_params :: "batch_sampling_params option"
  cr_pooling_params :: "bool option"
  cr_generator :: "nat option"
  cr_block_ids :: "int list list"
  cr_num_computed_tokens :: nat
  cr_output_token_ids :: "int list"
  cr_lora_request :: "lora_request option"
  cr_prompt_embeds :: "(nat \<times> nat) option"

definition cr_num_prompt_tokens :: "cached_request_state \<Rightarrow> nat result" where
  "cr_num_prompt_tokens r = length_from_prompt_token_ids_or_embeds (cr_prompt_token_ids r) (map_option snd (cr_prompt_embeds r))"

definition cr_get_token_id :: "cached_request_state \<Rightarrow> nat \<Rightarrow> int result" where
  "cr_get_token_id r i =
     bnd (cr_num_prompt_tokens r) (\<lambda>n.
     if i < n then (case cr_prompt_token_ids r of None \<Rightarrow> Inl ValueError | Some ts \<Rightarrow> index_py ts i)
     else if i - n < length (cr_output_token_ids r) then Inr (cr_output_token_ids r ! (i - n))
     else Inr (-1))"

text \<open>The arrays indexed by the position of a request in the batch, and the dictionaries keyed by it.\<close>

record input_rows =
  token_ids_cpu :: "int list list"
  is_token_ids :: "bool list list"
  req_prompt_embeds :: "nat \<rightharpoonup> nat \<times> nat"
  rw_num_tokens :: "nat list"
  num_tokens_no_spec :: "nat list"
  rw_num_prompt_tokens :: "nat list"
  num_computed_tokens_cpu :: "nat list"
  rw_block_table :: multi_group_block_table
  request_lora_mapping :: "int list"
  temperature_cpu :: "rat list"
  top_p_cpu :: "rat list"
  top_k_cpu :: "int list"
  frequency_penalties_cpu :: "rat list"
  presence_penalties_cpu :: "rat list"
  repetition_penalties_cpu :: "rat list"
  num_accepted_tokens_cpu :: "nat list"
  rw_generators :: "nat \<rightharpoonup> nat"
  allowed_token_ids_mask :: "bool list list option"
  rw_bad_words_token_ids :: "nat \<rightharpoonup> int list list"
  needs_token_ids :: "bool list"

text \<open>The sets and dictionaries keyed by request id.\<close>

record batch_sets =
  greedy_reqs :: "string set"
  random_reqs :: "string set"
  top_p_reqs :: "string set"
  top_k_reqs :: "string set"
  spec_decode_unsupported_reqs :: "string set"
  frequency_penalties_reqs :: "string set"
  presence_penalties_reqs :: "string set"
  repetition_penalties_reqs :: "string set"
  has_allowed_token_ids :: "string set"
  num_logprobs :: "(string \<times> int) list"
  num_prompt_logprobs :: "string \<rightharpoonup> int"
  in_progress_prompt_logprobs :: "string \<rightharpoonup> nat"
  batch_pooling_params :: "(string \<times> bool) list"
  lora_id_to_request_ids :: "int \<rightharpoonup> string set"
  lora_id_to_lora_request :: "(int \<times> lora_request) list"

text \<open>The device tensors of the sampling parameters, and the metadata for the sampler. The dictionaries of the metadata
  (generators, bad words) and the list of output tokens are the batch's own objects; the model records their contents when the
  metadata is built, which is after every change of the batch.\<close>

record batch_device =
  temperature_gpu :: "rat list"
  top_p_gpu :: "rat list"
  top_k_gpu :: "int list"
  frequency_penalties_gpu :: "rat list"
  presence_penalties_gpu :: "rat list"
  repetition_penalties_gpu :: "rat list"
  allowed_token_ids_mask_gpu :: "bool list list option"

record batch_sampling_metadata =
  sm_temperature :: "rat list option"
  sm_all_greedy :: bool
  sm_all_random :: bool
  sm_top_p :: "rat list option"
  sm_top_k :: "int list option"
  sm_generators :: "nat \<rightharpoonup> nat"
  sm_max_num_logprobs :: "int option"
  sm_prompt_token_ids :: "int list list option"
  sm_frequency_penalties :: "rat list"
  sm_presence_penalties :: "rat list"
  sm_repetition_penalties :: "rat list"
  sm_output_token_ids :: "string option list"
  sm_no_penalties :: bool
  sm_allowed_token_ids_mask :: "bool list list option"
  sm_bad_words_token_ids :: "nat \<rightharpoonup> int list list"

text \<open>The output tokens are a reference to the list of the request: here, its id.\<close>

record input_batch =
  is_pooling_model :: bool
  is_spec_decode :: bool
  max_num_reqs :: nat
  ib_max_model_len :: nat
  vocab_size :: nat
  req_ids :: "string option list"
  req_output_token_ids :: "string option list"
  req_id_to_index :: "(string \<times> nat) list"
  ib_rows :: input_rows
  ib_sets :: batch_sets
  ib_device :: batch_device
  builder :: batch_update_builder
  ib_sampling_metadata :: "batch_sampling_metadata option"

definition num_reqs :: "input_batch \<Rightarrow> nat" where
  "num_reqs s = length (req_id_to_index s)"

definition all_greedy_batch :: "input_batch \<Rightarrow> bool" where
  "all_greedy_batch s \<longleftrightarrow> random_reqs (ib_sets s) = {}"

definition all_random_batch :: "input_batch \<Rightarrow> bool" where
  "all_random_batch s \<longleftrightarrow> greedy_reqs (ib_sets s) = {}"

definition no_top_p :: "input_batch \<Rightarrow> bool" where
  "no_top_p s \<longleftrightarrow> top_p_reqs (ib_sets s) = {}"

definition no_top_k :: "input_batch \<Rightarrow> bool" where
  "no_top_k s \<longleftrightarrow> top_k_reqs (ib_sets s) = {}"

definition no_penalties :: "input_batch \<Rightarrow> bool" where
  "no_penalties s \<longleftrightarrow> presence_penalties_reqs (ib_sets s) = {} \<and> frequency_penalties_reqs (ib_sets s) = {}
     \<and> repetition_penalties_reqs (ib_sets s) = {}"

definition max_num_logprobs :: "input_batch \<Rightarrow> int option" where
  "max_num_logprobs s = (case map snd (num_logprobs (ib_sets s)) of [] \<Rightarrow> None | x # xs \<Rightarrow> Some (fold max xs x))"

definition no_allowed_token_ids :: "input_batch \<Rightarrow> bool" where
  "no_allowed_token_ids s \<longleftrightarrow> has_allowed_token_ids (ib_sets s) = {}"

text \<open>\<^verbatim>\<open>torch.empty\<close> leaves the contents of a tensor open: they are arguments here.\<close>

definition input_batch_init ::
  "nat \<Rightarrow> nat \<Rightarrow> nat \<Rightarrow> nat \<Rightarrow> nat list \<Rightarrow> bool \<Rightarrow> bool \<Rightarrow> nat \<Rightarrow> nat \<Rightarrow> nat \<Rightarrow> rat list \<Rightarrow> int list \<Rightarrow> input_batch" where
  "input_batch_init n max_len max_batched vocab block_sizes spec pooling num_spec world_size rank floats ints =
     \<lparr>is_pooling_model = pooling, is_spec_decode = spec, max_num_reqs = n, ib_max_model_len = max_len, vocab_size = vocab,
      req_ids = [], req_output_token_ids = [], req_id_to_index = [],
      ib_rows = \<lparr>token_ids_cpu = replicate n (replicate max_len 0), is_token_ids = replicate n (replicate max_len False),
        req_prompt_embeds = Map.empty, rw_num_tokens = replicate n 0, num_tokens_no_spec = replicate n 0,
        rw_num_prompt_tokens = replicate n 0, num_computed_tokens_cpu = replicate n 0,
        rw_block_table = multi_group_init n (int max_len) max_batched block_sizes num_spec world_size rank,
        request_lora_mapping = replicate n 0, temperature_cpu = floats, top_p_cpu = floats, top_k_cpu = ints,
        frequency_penalties_cpu = floats, presence_penalties_cpu = floats, repetition_penalties_cpu = floats,
        num_accepted_tokens_cpu = replicate n 1, rw_generators = Map.empty, allowed_token_ids_mask = None,
        rw_bad_words_token_ids = Map.empty, needs_token_ids = replicate n False\<rparr>,
      ib_sets = \<lparr>greedy_reqs = {}, random_reqs = {}, top_p_reqs = {}, top_k_reqs = {}, spec_decode_unsupported_reqs = {},
        frequency_penalties_reqs = {}, presence_penalties_reqs = {}, repetition_penalties_reqs = {},
        has_allowed_token_ids = {}, num_logprobs = [], num_prompt_logprobs = Map.empty, in_progress_prompt_logprobs = Map.empty,
        batch_pooling_params = [], lora_id_to_request_ids = Map.empty, lora_id_to_lora_request = []\<rparr>,
      ib_device = \<lparr>temperature_gpu = floats, top_p_gpu = floats, top_k_gpu = ints, frequency_penalties_gpu = floats,
        presence_penalties_gpu = floats, repetition_penalties_gpu = floats, allowed_token_ids_mask_gpu = None\<rparr>,
      builder = builder_init, ib_sampling_metadata = None\<rparr>"

section \<open>Adding a request\<close>

definition register_add_request :: "cached_request_state \<Rightarrow> input_batch \<Rightarrow> (nat \<times> input_batch) result" where
  "register_add_request r s =
     (let (popped, b) = pop_removed (builder s);
          new_req_index = (case popped of Some i \<Rightarrow> i | None \<Rightarrow> num_reqs s)
      in check (new_req_index < max_num_reqs s) AssertionError
         (Inr (new_req_index, s\<lparr>builder := b\<lparr>batch_changed := True, bu_added := bu_added b @
            (case cr_sampling_params r of None \<Rightarrow> []
             | Some p \<Rightarrow> [(new_req_index, p, cr_prompt_token_ids r, cr_req_id r)])\<rparr>\<rparr>)))"

text \<open>Filling a slice of a tensor; the slice is cut off at the end.\<close>

definition fill_slice :: "nat \<Rightarrow> nat \<Rightarrow> 'a \<Rightarrow> 'a list \<Rightarrow> 'a list" where
  "fill_slice start stop v row = take start row @ replicate (min stop (length row) - start) v @ drop (max start stop) row"

definition add_tokens :: "nat \<Rightarrow> cached_request_state \<Rightarrow> input_rows \<Rightarrow> input_rows result" where
  "add_tokens i r rw =
     bnd (length_from_prompt_token_ids_or_embeds (cr_prompt_token_ids r) (map_option snd (cr_prompt_embeds r))) (\<lambda>n.
     let outs = cr_output_token_ids r;
         flags = fill_slice 0 n (cr_prompt_token_ids r \<noteq> None) (is_token_ids rw ! i)
     in
     bnd (case cr_prompt_token_ids r of None \<Rightarrow> Inr (token_ids_cpu rw ! i) | Some ts \<Rightarrow> put_slice (token_ids_cpu rw ! i) 0 ts) (\<lambda>row.
     bnd (put_slice row n outs) (\<lambda>row'.
     bnd (mg_add_row (cr_block_ids r) i (rw_block_table rw)) (\<lambda>bts.
     Inr (rw\<lparr>rw_num_prompt_tokens := (rw_num_prompt_tokens rw)[i := n],
             token_ids_cpu := (token_ids_cpu rw)[i := row'],
             is_token_ids := (is_token_ids rw)[i := fill_slice n (n + length outs) True flags],
             req_prompt_embeds := (case cr_prompt_embeds r of None \<Rightarrow> req_prompt_embeds rw
                                   | Some e \<Rightarrow> (req_prompt_embeds rw)(i \<mapsto> e)),
             rw_num_tokens := (rw_num_tokens rw)[i := n + length outs],
             num_tokens_no_spec := (num_tokens_no_spec rw)[i := n + length outs],
             num_computed_tokens_cpu := (num_computed_tokens_cpu rw)[i := cr_num_computed_tokens r],
             rw_block_table := bts\<rparr>)))))"

definition add_sampling_rows :: "nat \<Rightarrow> nat \<Rightarrow> batch_sampling_params \<Rightarrow> nat option \<Rightarrow> input_rows \<Rightarrow> input_rows" where
  "add_sampling_rows vocab i p gen rw =
     rw\<lparr>temperature_cpu := (temperature_cpu rw)[i := if sampling_type_of p = GREEDY then 0 else bp_temperature p],
        top_p_cpu := (top_p_cpu rw)[i := bp_top_p p],
        top_k_cpu := (top_k_cpu rw)[i := if 0 < bp_top_k p \<and> bp_top_k p < int vocab then bp_top_k p else int vocab],
        frequency_penalties_cpu := (frequency_penalties_cpu rw)[i := bp_frequency_penalty p],
        presence_penalties_cpu := (presence_penalties_cpu rw)[i := bp_presence_penalty p],
        repetition_penalties_cpu := (repetition_penalties_cpu rw)[i := bp_repetition_penalty p],
        rw_generators := (case gen of None \<Rightarrow> rw_generators rw | Some g \<Rightarrow> (rw_generators rw)(i \<mapsto> g)),
        rw_bad_words_token_ids := (case bp_bad_words_token_ids p of
            Some (w # ws) \<Rightarrow> (rw_bad_words_token_ids rw)(i \<mapsto> w # ws) | _ \<Rightarrow> rw_bad_words_token_ids rw)\<rparr>"

definition insert_if :: "bool \<Rightarrow> 'a \<Rightarrow> 'a set \<Rightarrow> 'a set" where
  "insert_if b x A = (if b then insert x A else A)"

definition wants_allowed :: "batch_sampling_params \<Rightarrow> bool" where
  "wants_allowed p \<longleftrightarrow> bp_allowed_token_ids p \<noteq> None \<and> bp_allowed_token_ids p \<noteq> Some []"

definition add_sampling_sets :: "bool \<Rightarrow> nat \<Rightarrow> string \<Rightarrow> batch_sampling_params \<Rightarrow> batch_sets \<Rightarrow> batch_sets" where
  "add_sampling_sets spec vocab req_id p st =
     st\<lparr>spec_decode_unsupported_reqs := insert_if (spec \<and> is_spec_decode_unsupported p) req_id (spec_decode_unsupported_reqs st),
        greedy_reqs := insert_if (sampling_type_of p = GREEDY) req_id (greedy_reqs st),
        random_reqs := insert_if (sampling_type_of p \<noteq> GREEDY) req_id (random_reqs st),
        top_p_reqs := insert_if (bp_top_p p < 1) req_id (top_p_reqs st),
        top_k_reqs := insert_if (0 < bp_top_k p \<and> bp_top_k p < int vocab) req_id (top_k_reqs st),
        frequency_penalties_reqs := insert_if (bp_frequency_penalty p \<noteq> 0) req_id (frequency_penalties_reqs st),
        presence_penalties_reqs := insert_if (bp_presence_penalty p \<noteq> 0) req_id (presence_penalties_reqs st),
        repetition_penalties_reqs := insert_if (bp_repetition_penalty p \<noteq> 1) req_id (repetition_penalties_reqs st),
        num_logprobs := (case bp_logprobs p of None \<Rightarrow> num_logprobs st
           | Some k \<Rightarrow> AList.update req_id (if k = -1 then int vocab else k) (num_logprobs st)),
        num_prompt_logprobs := (case bp_prompt_logprobs p of None \<Rightarrow> num_prompt_logprobs st
           | Some k \<Rightarrow> (num_prompt_logprobs st)(req_id \<mapsto> (if k = -1 then int vocab else k))),
        has_allowed_token_ids := insert_if (wants_allowed p) req_id (has_allowed_token_ids st)\<rparr>"

text \<open>The mask row of a request: \<^verbatim>\<open>True\<close> marks the tokens that are not allowed. Negative indices count from the end.\<close>

definition allowed_row :: "nat \<Rightarrow> int list \<Rightarrow> bool list result" where
  "allowed_row vocab ids =
     check (\<forall>t \<in> set ids. - int vocab \<le> t \<and> t < int vocab) IndexError
       (Inr (map (\<lambda>k. int k \<notin> (\<lambda>t. t mod int vocab) ` set ids) [0..<vocab]))"

definition add_allowed :: "nat \<Rightarrow> batch_sampling_params \<Rightarrow> input_batch \<Rightarrow> input_batch result" where
  "add_allowed i p s =
     (if wants_allowed p
      then let zeros = replicate (max_num_reqs s) (replicate (vocab_size s) False);
               s1 = (case allowed_token_ids_mask (ib_rows s) of Some _ \<Rightarrow> s
                     | None \<Rightarrow> s\<lparr>ib_rows := (ib_rows s)\<lparr>allowed_token_ids_mask := Some zeros\<rparr>,
                                ib_device := (ib_device s)\<lparr>allowed_token_ids_mask_gpu := Some zeros\<rparr>\<rparr>)
           in bnd (allowed_row (vocab_size s) (the (bp_allowed_token_ids p))) (\<lambda>row.
              Inr (s1\<lparr>ib_rows := (ib_rows s1)\<lparr>allowed_token_ids_mask :=
                     map_option (\<lambda>m. m[i := row]) (allowed_token_ids_mask (ib_rows s1))\<rparr>\<rparr>))
      else Inr s)"

definition add_params :: "nat \<Rightarrow> cached_request_state \<Rightarrow> input_batch \<Rightarrow> input_batch result" where
  "add_params i r s = (case cr_sampling_params r of
     Some p \<Rightarrow> add_allowed i p (s\<lparr>ib_rows := add_sampling_rows (vocab_size s) i p (cr_generator r) (ib_rows s),
                 ib_sets := add_sampling_sets (is_spec_decode s) (vocab_size s) (cr_req_id r) p (ib_sets s)\<rparr>)
   | None \<Rightarrow> (case cr_pooling_params r of
       Some needs \<Rightarrow> Inr (s\<lparr>ib_sets := (ib_sets s)\<lparr>batch_pooling_params := AList.update (cr_req_id r) needs (batch_pooling_params (ib_sets s))\<rparr>,
                            ib_rows := (ib_rows s)\<lparr>needs_token_ids := (needs_token_ids (ib_rows s))[i := needs]\<rparr>\<rparr>)
     | None \<Rightarrow> Inl NotImplementedError))"

definition add_lora :: "nat \<Rightarrow> cached_request_state \<Rightarrow> input_batch \<Rightarrow> input_batch" where
  "add_lora i r s = (case cr_lora_request r of
     Some l \<Rightarrow> let lora_id = lora_int_id l; st = ib_sets s; ids = (case lora_id_to_request_ids st lora_id of None \<Rightarrow> {} | Some A \<Rightarrow> A) in
       s\<lparr>ib_rows := (ib_rows s)\<lparr>request_lora_mapping := (request_lora_mapping (ib_rows s))[i := lora_id]\<rparr>,
         ib_sets := st\<lparr>lora_id_to_request_ids := (lora_id_to_request_ids st)(lora_id \<mapsto> insert (cr_req_id r) ids),
                       lora_id_to_lora_request := AList.update lora_id l (lora_id_to_lora_request st)\<rparr>\<rparr>
   | None \<Rightarrow> s\<lparr>ib_rows := (ib_rows s)\<lparr>request_lora_mapping := (request_lora_mapping (ib_rows s))[i := 0]\<rparr>\<rparr>)"

definition place_id :: "nat \<Rightarrow> string \<Rightarrow> input_batch \<Rightarrow> input_batch result" where
  "place_id i req_id s =
     (if i = length (req_ids s)
      then Inr (s\<lparr>req_ids := req_ids s @ [Some req_id], req_output_token_ids := req_output_token_ids s @ [Some req_id],
                 req_id_to_index := AList.update req_id i (req_id_to_index s)\<rparr>)
      else check (i < length (req_ids s)) IndexError
        (Inr (s\<lparr>req_ids := (req_ids s)[i := Some req_id], req_output_token_ids := (req_output_token_ids s)[i := Some req_id],
                req_id_to_index := AList.update req_id i (req_id_to_index s)\<rparr>)))"

definition ib_add_request :: "cached_request_state \<Rightarrow> input_batch \<Rightarrow> (nat \<times> input_batch) result" where
  "ib_add_request r s =
     bnd (register_add_request r s) (\<lambda>(i, s1).
     bnd (place_id i (cr_req_id r) s1) (\<lambda>s2.
     bnd (add_tokens i r (ib_rows s2)) (\<lambda>rw.
     bnd (add_params i r (s2\<lparr>ib_rows := rw\<rparr>)) (\<lambda>s3.
     Inr (i, add_lora i r (s3\<lparr>ib_rows := (ib_rows s3)\<lparr>num_accepted_tokens_cpu := (num_accepted_tokens_cpu (ib_rows s3))[i := 1]\<rparr>\<rparr>))))))"

section \<open>Removing a request\<close>

definition remove_lora :: "nat \<Rightarrow> string \<Rightarrow> input_batch \<Rightarrow> input_batch result" where
  "remove_lora i req_id s =
     (let lora_id = request_lora_mapping (ib_rows s) ! i; st = ib_sets s in
      if lora_id = 0 then Inr s
      else bnd (lookup_py (lora_id_to_request_ids st) lora_id) (\<lambda>ids.
        let ids' = ids - {req_id};
            s1 = s\<lparr>ib_rows := (ib_rows s)\<lparr>request_lora_mapping := (request_lora_mapping (ib_rows s))[i := 0]\<rparr>\<rparr>
        in if ids' = {}
           then check (map_of (lora_id_to_lora_request st) lora_id \<noteq> None) KeyError
             (Inr (s1\<lparr>ib_sets := st\<lparr>lora_id_to_request_ids := (lora_id_to_request_ids st)(lora_id := None),
                                   lora_id_to_lora_request := AList.delete lora_id (lora_id_to_lora_request st)\<rparr>\<rparr>))
           else Inr (s1\<lparr>ib_sets := st\<lparr>lora_id_to_request_ids := (lora_id_to_request_ids st)(lora_id \<mapsto> ids')\<rparr>\<rparr>)))"

definition discard_sampling_sets :: "string \<Rightarrow> batch_sets \<Rightarrow> batch_sets" where
  "discard_sampling_sets req_id st =
     st\<lparr>greedy_reqs := greedy_reqs st - {req_id}, random_reqs := random_reqs st - {req_id},
        top_p_reqs := top_p_reqs st - {req_id}, top_k_reqs := top_k_reqs st - {req_id},
        spec_decode_unsupported_reqs := spec_decode_unsupported_reqs st - {req_id},
        frequency_penalties_reqs := frequency_penalties_reqs st - {req_id},
        presence_penalties_reqs := presence_penalties_reqs st - {req_id},
        repetition_penalties_reqs := repetition_penalties_reqs st - {req_id},
        num_logprobs := AList.delete req_id (num_logprobs st),
        num_prompt_logprobs := (num_prompt_logprobs st)(req_id := None),
        in_progress_prompt_logprobs := (in_progress_prompt_logprobs st)(req_id := None),
        has_allowed_token_ids := has_allowed_token_ids st - {req_id}\<rparr>"

definition discard_sampling_rows :: "nat \<Rightarrow> input_rows \<Rightarrow> input_rows" where
  "discard_sampling_rows i rw =
     rw\<lparr>rw_generators := (rw_generators rw)(i := None),
        allowed_token_ids_mask := map_option (\<lambda>m. m[i := map (\<lambda>_. False) (m ! i)]) (allowed_token_ids_mask rw),
        rw_bad_words_token_ids := (rw_bad_words_token_ids rw)(i := None)\<rparr>"

definition ib_remove_request :: "string \<Rightarrow> input_batch \<Rightarrow> (nat option \<times> input_batch) result" where
  "ib_remove_request req_id s = (case map_of (req_id_to_index s) req_id of
     None \<Rightarrow> Inr (None, s)
   | Some i \<Rightarrow>
       bnd (removed_append i (builder s)) (\<lambda>b.
       check (i < length (req_ids s)) IndexError
       (bnd (remove_lora i req_id (s\<lparr>req_id_to_index := AList.delete req_id (req_id_to_index s), builder := b,
               req_ids := (req_ids s)[i := None], req_output_token_ids := (req_output_token_ids s)[i := None]\<rparr>)) (\<lambda>s1.
        if is_pooling_model s1
        then Inr (Some i, s1\<lparr>ib_sets := (ib_sets s1)\<lparr>batch_pooling_params := AList.delete req_id (batch_pooling_params (ib_sets s1))\<rparr>\<rparr>)
        else Inr (Some i, s1\<lparr>ib_sets := discard_sampling_sets req_id (ib_sets s1), ib_rows := discard_sampling_rows i (ib_rows s1)\<rparr>)))))"

section \<open>Exchanging two requests\<close>

definition swap_at :: "nat \<Rightarrow> nat \<Rightarrow> 'a list \<Rightarrow> 'a list" where
  "swap_at i j xs = xs[i := xs ! j, j := xs ! i]"

definition swap_dict_values :: "nat \<Rightarrow> nat \<Rightarrow> (nat \<rightharpoonup> 'v) \<Rightarrow> nat \<rightharpoonup> 'v" where
  "swap_dict_values k1 k2 d = (let d' = (case d k1 of Some v \<Rightarrow> d(k2 \<mapsto> v) | None \<Rightarrow> d(k2 := None))
                               in (case d k2 of Some v \<Rightarrow> d'(k1 \<mapsto> v) | None \<Rightarrow> d'(k1 := None)))"

text \<open>The rows of the mask tensor are exchanged by a tuple assignment whose right-hand side are views: the first assignment
  changes what the second one reads.\<close>

definition swap_mask_rows :: "nat \<Rightarrow> nat \<Rightarrow> bool list list \<Rightarrow> bool list list" where
  "swap_mask_rows i j m = (let m' = m[i := m ! j] in m'[j := m' ! i])"

definition swap_token_rows :: "nat \<Rightarrow> nat \<Rightarrow> input_rows \<Rightarrow> input_rows result" where
  "swap_token_rows i j rw =
     bnd (mg_swap_row i j (rw_block_table rw)) (\<lambda>bts.
     Inr (rw\<lparr>rw_num_tokens := swap_at i j (rw_num_tokens rw), num_tokens_no_spec := swap_at i j (num_tokens_no_spec rw),
             rw_num_prompt_tokens := swap_at i j (rw_num_prompt_tokens rw),
             num_computed_tokens_cpu := swap_at i j (num_computed_tokens_cpu rw),
             token_ids_cpu := swap_at i j (token_ids_cpu rw), is_token_ids := swap_at i j (is_token_ids rw),
             req_prompt_embeds := swap_dict_values i j (req_prompt_embeds rw), rw_block_table := bts,
             request_lora_mapping := swap_at i j (request_lora_mapping rw)\<rparr>))"

definition swap_sampling_rows :: "nat \<Rightarrow> nat \<Rightarrow> input_rows \<Rightarrow> input_rows" where
  "swap_sampling_rows i j rw =
     rw\<lparr>temperature_cpu := swap_at i j (temperature_cpu rw), top_p_cpu := swap_at i j (top_p_cpu rw),
        top_k_cpu := swap_at i j (top_k_cpu rw), frequency_penalties_cpu := swap_at i j (frequency_penalties_cpu rw),
        presence_penalties_cpu := swap_at i j (presence_penalties_cpu rw),
        repetition_penalties_cpu := swap_at i j (repetition_penalties_cpu rw),
        num_accepted_tokens_cpu := swap_at i j (num_accepted_tokens_cpu rw),
        rw_generators := swap_dict_values i j (rw_generators rw),
        rw_bad_words_token_ids := swap_dict_values i j (rw_bad_words_token_ids rw),
        allowed_token_ids_mask := map_option (swap_mask_rows i j) (allowed_token_ids_mask rw)\<rparr>"

definition swap_states :: "nat \<Rightarrow> nat \<Rightarrow> input_batch \<Rightarrow> input_batch result" where
  "swap_states i j s =
     bnd (index_py (req_ids s) i) (\<lambda>old_i.
     bnd (index_py (req_ids s) j) (\<lambda>old_j.
     case (old_i, old_j) of
       (Some a, Some b) \<Rightarrow>
         bnd (lookup_py (map_of (req_id_to_index s)) b) (\<lambda>ib.
         bnd (lookup_py (map_of (req_id_to_index s)) a) (\<lambda>ia.
         bnd (swap_token_rows i j (ib_rows s)) (\<lambda>rw.
         let s1 = s\<lparr>req_ids := swap_at i j (req_ids s), req_output_token_ids := swap_at i j (req_output_token_ids s),
                    req_id_to_index := AList.update b ia (AList.update a ib (req_id_to_index s)), ib_rows := rw\<rparr>
         in if is_pooling_model s then Inr s1
            else Inr (s1\<lparr>builder := (builder s1)\<lparr>bu_moved := bu_moved (builder s1) @ [(i, j, SWAP)]\<rparr>,
                         ib_rows := swap_sampling_rows i j rw\<rparr>))))
     | _ \<Rightarrow> Inl AssertionError))"

section \<open>Closing the gaps\<close>

function skip_empty :: "nat list \<Rightarrow> int \<Rightarrow> int" where
  "skip_empty empties l = (if 0 \<le> l \<and> nat l \<in> set empties then skip_empty empties (l - 1) else l)"
  by auto
termination by (relation "measure (\<lambda>(_, l). nat (l + 1))") auto

declare skip_empty.simps [simp del]

text \<open>A dictionary entry popped at one key and stored at another.\<close>

definition move_key :: "nat \<Rightarrow> nat \<Rightarrow> (nat \<rightharpoonup> 'v) \<Rightarrow> nat \<rightharpoonup> 'v" where
  "move_key src tgt d = (case d src of None \<Rightarrow> d(src := None) | Some v \<Rightarrow> (d(src := None))(tgt \<mapsto> v))"

definition move_token_rows :: "nat \<Rightarrow> nat \<Rightarrow> input_rows \<Rightarrow> input_rows result" where
  "move_token_rows src tgt rw =
     (let n = rw_num_tokens rw ! src in
      bnd (mg_move_row src tgt (rw_block_table rw)) (\<lambda>bts.
      Inr (rw\<lparr>token_ids_cpu := (token_ids_cpu rw)[tgt := take n (token_ids_cpu rw ! src) @ drop n (token_ids_cpu rw ! tgt)],
              is_token_ids := (is_token_ids rw)[tgt := take n (is_token_ids rw ! src) @ drop n (is_token_ids rw ! tgt)],
              req_prompt_embeds := move_key src tgt (req_prompt_embeds rw),
              rw_num_tokens := (rw_num_tokens rw)[tgt := n],
              num_tokens_no_spec := (num_tokens_no_spec rw)[tgt := num_tokens_no_spec rw ! src],
              rw_num_prompt_tokens := (rw_num_prompt_tokens rw)[tgt := rw_num_prompt_tokens rw ! src],
              num_computed_tokens_cpu := (num_computed_tokens_cpu rw)[tgt := num_computed_tokens_cpu rw ! src],
              rw_block_table := bts,
              request_lora_mapping := (request_lora_mapping rw)[tgt := request_lora_mapping rw ! src]\<rparr>)))"

definition move_sampling_rows :: "nat \<Rightarrow> nat \<Rightarrow> input_rows \<Rightarrow> input_rows" where
  "move_sampling_rows src tgt rw =
     rw\<lparr>temperature_cpu := (temperature_cpu rw)[tgt := temperature_cpu rw ! src],
        top_p_cpu := (top_p_cpu rw)[tgt := top_p_cpu rw ! src], top_k_cpu := (top_k_cpu rw)[tgt := top_k_cpu rw ! src],
        frequency_penalties_cpu := (frequency_penalties_cpu rw)[tgt := frequency_penalties_cpu rw ! src],
        presence_penalties_cpu := (presence_penalties_cpu rw)[tgt := presence_penalties_cpu rw ! src],
        repetition_penalties_cpu := (repetition_penalties_cpu rw)[tgt := repetition_penalties_cpu rw ! src],
        num_accepted_tokens_cpu := (num_accepted_tokens_cpu rw)[tgt := num_accepted_tokens_cpu rw ! src],
        rw_generators := move_key src tgt (rw_generators rw),
        allowed_token_ids_mask := map_option (\<lambda>m. m[tgt := m ! src]) (allowed_token_ids_mask rw),
        rw_bad_words_token_ids := move_key src tgt (rw_bad_words_token_ids rw)\<rparr>"

definition condense_move :: "nat \<Rightarrow> nat \<Rightarrow> input_batch \<Rightarrow> input_batch result" where
  "condense_move src tgt s =
     bnd (index_py (req_ids s) src) (\<lambda>req_id. case req_id of
       None \<Rightarrow> Inl AssertionError
     | Some r \<Rightarrow>
         check (tgt < length (req_ids s)) IndexError
         (bnd (index_py (req_output_token_ids s) src) (\<lambda>out.
          bnd (move_token_rows src tgt (ib_rows s)) (\<lambda>rw.
          let s1 = s\<lparr>req_ids := (req_ids s)[tgt := Some r, src := None],
                     req_output_token_ids := (req_output_token_ids s)[tgt := out, src := None],
                     req_id_to_index := AList.update r tgt (req_id_to_index s), ib_rows := rw\<rparr>
          in if is_pooling_model s then Inr s1
             else Inr (s1\<lparr>builder := (builder s1)\<lparr>bu_moved := bu_moved (builder s1) @ [(src, tgt, UNIDIRECTIONAL)]\<rparr>,
                          ib_rows := move_sampling_rows src tgt rw\<rparr>)))))"

text \<open>One round of the loop: whether it goes on, the next index to look at, and the state.\<close>

definition condense_step :: "int \<Rightarrow> input_batch \<Rightarrow> (bool \<times> int \<times> input_batch) result" where
  "condense_step l s =
     (if bu_removed (builder s) = [] then Inr (False, l, s)
      else let l' = skip_empty (bu_removed (builder s)) l; (empty_index, b) = peek_removed (builder s)
           in case empty_index of
                None \<Rightarrow> Inl AssertionError
              | Some e \<Rightarrow>
                  if int e \<ge> l' then Inr (False, l', s\<lparr>builder := b\<rparr>)
                  else bnd (condense_move (nat l') e (s\<lparr>builder := snd (pop_removed b)\<rparr>)) (\<lambda>s'. Inr (True, l' - 1, s')))"

lemma condense_move_builder:
  "condense_move src tgt s = Inr s' \<Longrightarrow> bu_removed (builder s') = bu_removed (builder s) \<and>
     is_removed_sorted (builder s') = is_removed_sorted (builder s)"
  by (auto simp: condense_move_def Let_def split: option.splits if_splits)

lemma condense_step_shrinks:
  assumes "condense_step l s = Inr (True, l', s')"
  shows "length (bu_removed (builder s')) < length (bu_removed (builder s))"
proof -
  have "bu_removed (builder s) \<noteq> []" using assms by (auto simp: condense_step_def)
  then show ?thesis
    using assms by (auto simp: condense_step_def peek_removed_def pop_removed_def has_removed_def Let_def ensure_removed_sorted_def
        split: if_splits dest!: condense_move_builder)
qed

function condense_loop :: "int \<Rightarrow> input_batch \<Rightarrow> input_batch result" where
  "condense_loop l s = (case condense_step l s of
     Inl e \<Rightarrow> Inl e
   | Inr (go_on, l', s') \<Rightarrow> if go_on then condense_loop l' s' else Inr s')"
  by auto
termination
  by (relation "measure (\<lambda>(_, s). length (bu_removed (builder s)))") (auto dest: condense_step_shrinks)

declare condense_loop.simps [simp del]

definition condense :: "input_batch \<Rightarrow> input_batch result" where
  "condense s =
     (let (empty_req_indices, b) = removed_list (builder s); s1 = s\<lparr>builder := b\<rparr>; n = num_reqs s in
      if empty_req_indices = [] then Inr s1
      else if n = 0 then Inr (s1\<lparr>req_ids := [], req_output_token_ids := []\<rparr>)
      else bnd (condense_loop (int (n + length empty_req_indices) - 1) s1) (\<lambda>s2.
        Inr (s2\<lparr>req_ids := take n (req_ids s2), req_output_token_ids := take n (req_output_token_ids s2)\<rparr>)))"

section \<open>Sampling metadata\<close>

definition make_prompt_token_ids_tensor :: "input_batch \<Rightarrow> int list list result" where
  "make_prompt_token_ids_tensor s =
     (let n = num_reqs s; lens = take n (rw_num_prompt_tokens (ib_rows s)) in
      case lens of
        [] \<Rightarrow> Inl ValueError
      | x # xs \<Rightarrow> let max_prompt_len = fold max xs x in
          check (max_prompt_len \<le> ib_max_model_len s) ValueError
            (Inr (map (\<lambda>i. take (lens ! i) (take max_prompt_len (token_ids_cpu (ib_rows s) ! i))
                            @ replicate (max_prompt_len - lens ! i) (int (vocab_size s))) [0..<n])))"

definition copy_slice :: "nat \<Rightarrow> 'a list \<Rightarrow> 'a list \<Rightarrow> 'a list" where
  "copy_slice n from_tensor to_tensor = take n from_tensor @ drop n to_tensor"

text \<open>The device tensors are brought up to date only where some request needs them.\<close>

definition copy_params :: "input_batch \<Rightarrow> batch_device" where
  "copy_params s =
     (let n = num_reqs s; rw = ib_rows s; d = ib_device s;
          cp = (\<lambda>needed from_tensor to_tensor. if needed then copy_slice n from_tensor to_tensor else to_tensor)
      in \<lparr>temperature_gpu = (if all_greedy_batch s then temperature_gpu d else copy_slice n (temperature_cpu rw) (temperature_gpu d)),
          top_p_gpu = (if no_top_p s then top_p_gpu d else copy_slice n (top_p_cpu rw) (top_p_gpu d)),
          top_k_gpu = (if no_top_k s then top_k_gpu d else copy_slice n (top_k_cpu rw) (top_k_gpu d)),
          frequency_penalties_gpu = cp (\<not> no_penalties s) (frequency_penalties_cpu rw) (frequency_penalties_gpu d),
          presence_penalties_gpu = cp (\<not> no_penalties s) (presence_penalties_cpu rw) (presence_penalties_gpu d),
          repetition_penalties_gpu = cp (\<not> no_penalties s) (repetition_penalties_cpu rw) (repetition_penalties_gpu d),
          allowed_token_ids_mask_gpu =
            (if no_allowed_token_ids s then allowed_token_ids_mask_gpu d
             else case (allowed_token_ids_mask rw, allowed_token_ids_mask_gpu d) of
               (Some c, Some g) \<Rightarrow> Some (copy_slice n c g) | _ \<Rightarrow> allowed_token_ids_mask_gpu d)\<rparr>)"

definition make_sampling_metadata :: "input_batch \<Rightarrow> (batch_sampling_metadata \<times> batch_device) result" where
  "make_sampling_metadata s =
     (let n = num_reqs s; d = copy_params s in
      bnd (if \<not> no_penalties s \<or> list_ex (\<lambda>b. b) (take n (needs_token_ids (ib_rows s)))
           then bnd (make_prompt_token_ids_tensor s) (\<lambda>t. Inr (Some t)) else Inr None) (\<lambda>prompts.
      check (no_allowed_token_ids s \<or> allowed_token_ids_mask_gpu d \<noteq> None) AssertionError
      (Inr (\<lparr>sm_temperature = (if all_greedy_batch s then None else Some (take n (temperature_gpu d))),
         sm_all_greedy = all_greedy_batch s, sm_all_random = all_random_batch s,
         sm_top_p = (if no_top_p s then None else Some (take n (top_p_gpu d))),
         sm_top_k = (if no_top_k s then None else Some (take n (top_k_gpu d))),
         sm_generators = rw_generators (ib_rows s), sm_max_num_logprobs = max_num_logprobs s, sm_prompt_token_ids = prompts,
         sm_frequency_penalties = take n (frequency_penalties_gpu d),
         sm_presence_penalties = take n (presence_penalties_gpu d),
         sm_repetition_penalties = take n (repetition_penalties_gpu d),
         sm_output_token_ids = req_output_token_ids s, sm_no_penalties = no_penalties s,
         sm_allowed_token_ids_mask = (if no_allowed_token_ids s then None
            else map_option (take n) (allowed_token_ids_mask_gpu d)),
         sm_bad_words_token_ids = rw_bad_words_token_ids (ib_rows s)\<rparr>, d))))"

text \<open>The update for the logits processors is returned; the processors themselves are left out.\<close>

definition refresh_metadata :: "input_batch \<Rightarrow> (batch_update option \<times> input_batch) result" where
  "refresh_metadata s =
     (if is_pooling_model s
      then let (changed, b) = builder_reset (builder s); s1 = s\<lparr>builder := b\<rparr> in
           if changed then bnd (make_sampling_metadata s1) (\<lambda>(m, d). Inr (None, s1\<lparr>ib_sampling_metadata := Some m, ib_device := d\<rparr>))
           else Inr (None, s1)
      else let (upd, b) = get_and_reset (num_reqs s) (builder s); s1 = s\<lparr>builder := b\<rparr> in
           if upd \<noteq> None then bnd (make_sampling_metadata s1) (\<lambda>(m, d). Inr (upd, s1\<lparr>ib_sampling_metadata := Some m, ib_device := d\<rparr>))
           else Inr (None, s1))"

definition get_pooling_params :: "input_batch \<Rightarrow> bool list result" where
  "get_pooling_params s =
     check (length (req_ids s) = length (batch_pooling_params (ib_sets s))) AssertionError
       (map_res (\<lambda>r. case r of None \<Rightarrow> Inl KeyError | Some r \<Rightarrow> lookup_py (map_of (batch_pooling_params (ib_sets s))) r) (req_ids s))"

definition make_lora_inputs :: "nat list \<Rightarrow> input_batch \<Rightarrow> (int list \<times> int list \<times> lora_request set) result" where
  "make_lora_inputs num_scheduled_tokens s =
     (let mapping = take (num_reqs s) (request_lora_mapping (ib_rows s)) in
      check (length num_scheduled_tokens = length mapping \<or> length num_scheduled_tokens = 1) ValueError
        (Inr (mapping,
              (if length num_scheduled_tokens = length mapping then concat (map2 replicate num_scheduled_tokens mapping)
               else concat (map (replicate (hd num_scheduled_tokens)) mapping)),
              set (map snd (lora_id_to_lora_request (ib_sets s))))))"

end
