(* ===== verification/Batch_Refinement.thy ===== *)
theory Batch_Refinement
  imports Input_Batch
begin

text \<open>
  The persistent batch as a map from request ids to rows. The arrays, dictionaries and sets of the batch always describe
  one such map; removing, adding, condensing and exchanging requests act on it as expected, and the metadata for the
  sampler is that of the map. What the batch keeps by request id (log-probabilities, the request's need for a mask, whether
  speculative decoding supports it) is a second map. The mask of allowed tokens is not part of the rows: its two flaws are
  at the end. The table of prompt embeddings is left out as well.
\<close>

section \<open>Rows and the map they represent\<close>

record request_row =
  v_tokens :: "int list"
  v_flags :: "bool list"
  v_num_tokens :: nat
  v_no_spec :: nat
  v_prompt :: nat
  v_computed :: nat
  v_blocks :: "int list list"
  v_lora :: int
  v_temperature :: rat
  v_top_p :: rat
  v_top_k :: int
  v_frequency :: rat
  v_presence :: rat
  v_repetition :: rat
  v_accepted :: nat
  v_generator :: "nat option"
  v_bad_words :: "int list list option"

definition row_of :: "input_rows \<Rightarrow> nat \<Rightarrow> request_row" where
  "row_of rw i =
     \<lparr>v_tokens = take (rw_num_tokens rw ! i) (token_ids_cpu rw ! i), v_flags = take (rw_num_tokens rw ! i) (is_token_ids rw ! i),
      v_num_tokens = rw_num_tokens rw ! i, v_no_spec = num_tokens_no_spec rw ! i, v_prompt = rw_num_prompt_tokens rw ! i,
      v_computed = num_computed_tokens_cpu rw ! i, v_blocks = group_blocks (rw_block_table rw) i,
      v_lora = request_lora_mapping rw ! i, v_temperature = temperature_cpu rw ! i, v_top_p = top_p_cpu rw ! i,
      v_top_k = top_k_cpu rw ! i, v_frequency = frequency_penalties_cpu rw ! i, v_presence = presence_penalties_cpu rw ! i,
      v_repetition = repetition_penalties_cpu rw ! i, v_accepted = num_accepted_tokens_cpu rw ! i,
      v_generator = rw_generators rw i, v_bad_words = rw_bad_words_token_ids rw i\<rparr>"

definition batch_of :: "input_batch \<Rightarrow> string \<rightharpoonup> request_row" where
  "batch_of s r = map_option (row_of (ib_rows s)) (map_of (req_id_to_index s) r)"

definition rows_ok :: "nat \<Rightarrow> nat \<Rightarrow> input_rows \<Rightarrow> bool" where
  "rows_ok n len rw \<longleftrightarrow> length (token_ids_cpu rw) = n \<and> length (is_token_ids rw) = n \<and> length (rw_num_tokens rw) = n \<and>
     length (num_tokens_no_spec rw) = n \<and> length (rw_num_prompt_tokens rw) = n \<and> length (num_computed_tokens_cpu rw) = n \<and>
     tables_ok n (rw_block_table rw) \<and> length (request_lora_mapping rw) = n \<and> length (temperature_cpu rw) = n \<and>
     length (top_p_cpu rw) = n \<and> length (top_k_cpu rw) = n \<and> length (frequency_penalties_cpu rw) = n \<and>
     length (presence_penalties_cpu rw) = n \<and> length (repetition_penalties_cpu rw) = n \<and> length (num_accepted_tokens_cpu rw) = n \<and>
     (\<forall>i<n. length (token_ids_cpu rw ! i) = len \<and> length (is_token_ids rw ! i) = len \<and> rw_num_tokens rw ! i \<le> len \<and>
        rw_num_prompt_tokens rw ! i \<le> len)"

lemma rows_okD:
  assumes "rows_ok n len rw"
  shows "length (token_ids_cpu rw) = n" "length (is_token_ids rw) = n" "length (rw_num_tokens rw) = n"
    "length (num_tokens_no_spec rw) = n" "length (rw_num_prompt_tokens rw) = n" "length (num_computed_tokens_cpu rw) = n"
    "tables_ok n (rw_block_table rw)" "length (request_lora_mapping rw) = n" "length (temperature_cpu rw) = n"
    "length (top_p_cpu rw) = n" "length (top_k_cpu rw) = n" "length (frequency_penalties_cpu rw) = n"
    "length (presence_penalties_cpu rw) = n" "length (repetition_penalties_cpu rw) = n" "length (num_accepted_tokens_cpu rw) = n"
    "i < n \<Longrightarrow> length (token_ids_cpu rw ! i) = len" "i < n \<Longrightarrow> length (is_token_ids rw ! i) = len"
    "i < n \<Longrightarrow> rw_num_tokens rw ! i \<le> len" "i < n \<Longrightarrow> rw_num_prompt_tokens rw ! i \<le> len"
  using assms unfolding rows_ok_def by blast+

text \<open>Moving and exchanging rows.\<close>

lemma move_rows_ok:
  assumes ok: "rows_ok n len rw" and s: "src < n" and t: "tgt < n" "src \<noteq> tgt"
    and free: "rw_generators rw tgt = None" "rw_bad_words_token_ids rw tgt = None"
  obtains rw1 where "move_token_rows src tgt rw = Inr rw1" "rows_ok n len (move_sampling_rows src tgt rw1)"
    "\<And>i. i < n \<Longrightarrow> i \<noteq> src \<Longrightarrow> row_of (move_sampling_rows src tgt rw1) i = row_of rw (if i = tgt then src else i)"
    "\<And>i. rw_generators (move_sampling_rows src tgt rw1) i = (if i = src then None else if i = tgt then rw_generators rw src else rw_generators rw i)"
    "\<And>i. rw_bad_words_token_ids (move_sampling_rows src tgt rw1) i =
      (if i = src then None else if i = tgt then rw_bad_words_token_ids rw src else rw_bad_words_token_ids rw i)"
proof -
  note d = rows_okD[OF ok]
  from mg.move_law[OF d(7) s t(1)] obtain bts where bts: "mg_move_row src tgt (rw_block_table rw) = Inr bts" "tables_ok n bts"
    and gb: "\<And>i. i < n \<Longrightarrow> group_blocks bts i = (if i = tgt then group_blocks (rw_block_table rw) src else group_blocks (rw_block_table rw) i)"
    by blast
  obtain rw1 where rw1: "move_token_rows src tgt rw = Inr rw1" by (simp add: move_token_rows_def Let_def bts)
  note e = rw1[unfolded move_token_rows_def Let_def bts bnd_simps sum.inject, symmetric]
  have mk: "move_key src tgt m i = (if i = src then None else if i = tgt then m src else m i)" if "m tgt = None" for m :: "nat \<rightharpoonup> 'z" and i
    using that t(2) by (auto simp: move_key_def split: option.split)
  show thesis
  proof (rule that[OF rw1])
    show "rows_ok n len (move_sampling_rows src tgt rw1)"
      unfolding e move_sampling_rows_def rows_ok_def
      by (intro conjI allI impI) (simp_all add: d s t bts(2) nth_list_update)
    show "row_of (move_sampling_rows src tgt rw1) i = row_of rw (if i = tgt then src else i)" if "i < n" "i \<noteq> src" for i
      unfolding e move_sampling_rows_def row_of_def
      by (simp add: d s t gb[OF that(1)] that free nth_list_update mk)
    show "rw_generators (move_sampling_rows src tgt rw1) i = (if i = src then None else if i = tgt then rw_generators rw src else rw_generators rw i)" for i
      unfolding e move_sampling_rows_def using free by (simp add: mk)
    show "rw_bad_words_token_ids (move_sampling_rows src tgt rw1) i =
      (if i = src then None else if i = tgt then rw_bad_words_token_ids rw src else rw_bad_words_token_ids rw i)" for i
      unfolding e move_sampling_rows_def using free by (simp add: mk)
  qed
qed

lemma swap_rows_ok:
  assumes ok: "rows_ok n len rw" and s: "a < n" and t: "b < n"
  obtains rw1 where "swap_token_rows a b rw = Inr rw1" "rows_ok n len (swap_sampling_rows a b rw1)"
    "\<And>i. i < n \<Longrightarrow> row_of (swap_sampling_rows a b rw1) i = row_of rw (if i = b then a else if i = a then b else i)"
    "\<And>i. rw_generators (swap_sampling_rows a b rw1) i = rw_generators rw (if i = b then a else if i = a then b else i)"
    "\<And>i. rw_bad_words_token_ids (swap_sampling_rows a b rw1) i = rw_bad_words_token_ids rw (if i = b then a else if i = a then b else i)"
proof -
  note d = rows_okD[OF ok]
  from mg.swap_law[OF d(7) s t] obtain bts where bts: "mg_swap_row a b (rw_block_table rw) = Inr bts" "tables_ok n bts"
    and gb: "\<And>i. i < n \<Longrightarrow> group_blocks bts i = (if i = b then group_blocks (rw_block_table rw) a
        else if i = a then group_blocks (rw_block_table rw) b else group_blocks (rw_block_table rw) i)"
    by blast
  obtain rw1 where rw1: "swap_token_rows a b rw = Inr rw1" by (simp add: swap_token_rows_def bts)
  note e = rw1[unfolded swap_token_rows_def bts bnd_simps sum.inject, symmetric]
  have sd: "swap_dict_values a b m i = m (if i = b then a else if i = a then b else i)" for m :: "nat \<rightharpoonup> 'z" and i
    by (auto simp: swap_dict_values_def Let_def split: option.split)
  have sw: "swap_at a b xs ! i = xs ! (if i = b then a else if i = a then b else i)" if "length xs = n" "i < n" for xs :: "'y list" and i
    using that s t by (auto simp: swap_at_def nth_list_update)
  have len: "length (swap_at a b xs) = length xs" for xs :: "'y list" by (simp add: swap_at_def)
  show thesis
  proof (rule that[OF rw1])
    show "rows_ok n len (swap_sampling_rows a b rw1)"
      unfolding e swap_sampling_rows_def rows_ok_def
      by (intro conjI allI impI) (simp_all add: d s t bts(2) sw len)
    show "row_of (swap_sampling_rows a b rw1) i = row_of rw (if i = b then a else if i = a then b else i)" if "i < n" for i
      unfolding e swap_sampling_rows_def row_of_def
      by (simp add: d s t gb[OF that] that sw sd)
    show "rw_generators (swap_sampling_rows a b rw1) i = rw_generators rw (if i = b then a else if i = a then b else i)" for i
      unfolding e swap_sampling_rows_def by (simp add: sd)
    show "rw_bad_words_token_ids (swap_sampling_rows a b rw1) i = rw_bad_words_token_ids rw (if i = b then a else if i = a then b else i)" for i
      unfolding e swap_sampling_rows_def by (simp add: sd)
  qed
qed

section \<open>Indices\<close>

definition live :: "input_batch \<Rightarrow> nat \<Rightarrow> bool" where
  "live s i \<longleftrightarrow> i < length (req_ids s) \<and> req_ids s ! i \<noteq> None"

definition index_ok :: "input_batch \<Rightarrow> bool" where
  "index_ok s \<longleftrightarrow> distinct (map fst (req_id_to_index s)) \<and>
     (\<forall>r i. map_of (req_id_to_index s) r = Some i \<longleftrightarrow> i < length (req_ids s) \<and> req_ids s ! i = Some r) \<and>
     req_output_token_ids s = req_ids s \<and> length (req_ids s) \<le> max_num_reqs s"

text \<open>Only requests of the batch have generators or bad words.\<close>

definition keys_ok :: "input_batch \<Rightarrow> bool" where
  "keys_ok s \<longleftrightarrow> (\<forall>i. rw_generators (ib_rows s) i \<noteq> None \<or> rw_bad_words_token_ids (ib_rows s) i \<noteq> None \<longrightarrow> live s i)"

definition base_ok :: "input_batch \<Rightarrow> bool" where
  "base_ok s \<longleftrightarrow> \<not> is_pooling_model s \<and> index_ok s \<and> rows_ok (max_num_reqs s) (ib_max_model_len s) (ib_rows s) \<and> keys_ok s"

definition same_rest :: "input_batch \<Rightarrow> input_batch \<Rightarrow> bool" where
  "same_rest s s' \<longleftrightarrow> ib_sets s' = ib_sets s \<and> ib_device s' = ib_device s \<and> max_num_reqs s' = max_num_reqs s \<and>
     ib_max_model_len s' = ib_max_model_len s \<and> vocab_size s' = vocab_size s \<and> is_pooling_model s' = is_pooling_model s \<and>
     is_spec_decode s' = is_spec_decode s \<and> ib_sampling_metadata s' = ib_sampling_metadata s \<and>
     map max_num_blocks_per_req (rw_block_table (ib_rows s')) = map max_num_blocks_per_req (rw_block_table (ib_rows s)) \<and>
     (allowed_token_ids_mask (ib_rows s') = None \<longleftrightarrow> allowed_token_ids_mask (ib_rows s) = None) \<and>
     needs_token_ids (ib_rows s') = needs_token_ids (ib_rows s)"

definition ids_ok :: "nat list \<Rightarrow> input_batch \<Rightarrow> bool" where
  "ids_ok R s \<longleftrightarrow> distinct R \<and> set R = {i. i < length (req_ids s) \<and> req_ids s ! i = None}"

lemma index_okD:
  assumes "index_ok s"
  shows "distinct (map fst (req_id_to_index s))"
    "map_of (req_id_to_index s) r = Some i \<longleftrightarrow> i < length (req_ids s) \<and> req_ids s ! i = Some r"
    "req_output_token_ids s = req_ids s" "length (req_ids s) \<le> max_num_reqs s"
  using assms unfolding index_ok_def by blast+

lemma num_reqs_card:
  assumes "index_ok s"
  shows "num_reqs s = card {i. live s i}"
proof -
  note d = index_okD[OF assms]
  let ?m = "map_of (req_id_to_index s)"
  have "num_reqs s = card (dom ?m)"
    using d(1) by (simp add: num_reqs_def dom_map_of_conv_image_fst distinct_card[of "map fst _", simplified])
  also have "\<dots> = card ((\<lambda>r. the (?m r)) ` dom ?m)"
  proof (rule card_image[symmetric], rule inj_onI)
    fix q r assume "q \<in> dom ?m" "r \<in> dom ?m" and e: "the (?m q) = the (?m r)"
    then obtain i where "?m q = Some i" "?m r = Some i" by (auto simp: dom_def)
    then show "q = r" unfolding d(2) by simp
  qed
  also have "(\<lambda>r. the (?m r)) ` dom ?m = {i. live s i}"
  proof (intro equalityI subsetI)
    fix i assume "i \<in> {i. live s i}"
    then obtain r where "?m r = Some i" by (auto simp: live_def d(2))
    then show "i \<in> (\<lambda>r. the (?m r)) ` dom ?m" by (force simp: image_iff dom_def)
  next
    fix i assume "i \<in> (\<lambda>r. the (?m r)) ` dom ?m"
    then obtain r where "?m r = Some i" by (auto simp: dom_def)
    then show "i \<in> {i. live s i}" by (simp add: live_def d(2))
  qed
  finally show ?thesis .
qed

lemma ids_ok_length:
  assumes "index_ok s" "ids_ok R s"
  shows "num_reqs s + length R = length (req_ids s)"
proof -
  have "length R = card {i. i < length (req_ids s) \<and> req_ids s ! i = None}"
    using assms(2) distinct_card unfolding ids_ok_def by metis
  then have "num_reqs s + length R = card ({i. live s i} \<union> {i. i < length (req_ids s) \<and> req_ids s ! i = None})"
    unfolding num_reqs_card[OF assms(1)] by (subst card_Un_disjoint) (auto simp: live_def[abs_def])
  also have "{i. live s i} \<union> {i. i < length (req_ids s) \<and> req_ids s ! i = None} = {..<length (req_ids s)}"
    by (auto simp: live_def)
  finally show ?thesis by simp
qed

text \<open>The map is the same when each request keeps its row wherever it has moved to.\<close>

lemma batch_of_eqI:
  assumes "index_ok s" "index_ok s'"
    and "\<And>r i. i < length (req_ids s) \<Longrightarrow> req_ids s ! i = Some r \<Longrightarrow>
      \<exists>j < length (req_ids s'). req_ids s' ! j = Some r \<and> row_of (ib_rows s') j = row_of (ib_rows s) i"
    and "\<And>r j. j < length (req_ids s') \<Longrightarrow> req_ids s' ! j = Some r \<Longrightarrow> Some r \<in> set (req_ids s)"
  shows "batch_of s' = batch_of s"
proof
  fix r
  show "batch_of s' r = batch_of s r"
  proof (cases "map_of (req_id_to_index s) r")
    case None
    have "map_of (req_id_to_index s') r = None"
    proof (rule ccontr)
      assume "map_of (req_id_to_index s') r \<noteq> None"
      then have "Some r \<in> set (req_ids s)" using assms(4) by (auto simp: index_okD(2)[OF assms(2)])
      then show False using None index_okD(2)[OF assms(1), of r] by (auto simp: in_set_conv_nth)
    qed
    with None show ?thesis by (simp add: batch_of_def)
  next
    case (Some i)
    then obtain j where "map_of (req_id_to_index s') r = Some j" "row_of (ib_rows s') j = row_of (ib_rows s) i"
      using assms(3)[of i r] by (auto simp: index_okD(2)[OF assms(1)] index_okD(2)[OF assms(2)])
    with Some show ?thesis by (simp add: batch_of_def)
  qed
qed

lemma condense_move_ok:
  assumes ok: "base_ok s" and src: "src < length (req_ids s)" "req_ids s ! src = Some r"
    and tgt: "tgt < length (req_ids s)" "req_ids s ! tgt = None"
  obtains s' where "condense_move src tgt s = Inr s'" "base_ok s'" "same_rest s s'" "batch_of s' = batch_of s"
    "req_ids s' = (req_ids s)[tgt := Some r, src := None]"
proof -
  have i: "index_ok s" and rk: "rows_ok (max_num_reqs s) (ib_max_model_len s) (ib_rows s)" and k: "keys_ok s" and np: "\<not> is_pooling_model s"
    using ok by (simp_all add: base_ok_def)
  note d = index_okD[OF i]
  have ne: "src \<noteq> tgt" using src tgt by auto
  have lt: "src < max_num_reqs s" "tgt < max_num_reqs s" using src tgt d(4) by auto
  have "rw_generators (ib_rows s) tgt = None" "rw_bad_words_token_ids (ib_rows s) tgt = None"
    using k tgt unfolding keys_ok_def live_def by auto
  then obtain rw1 where m: "move_token_rows src tgt (ib_rows s) = Inr rw1"
    and rk': "rows_ok (max_num_reqs s) (ib_max_model_len s) (move_sampling_rows src tgt rw1)"
    and row: "\<And>i. i < max_num_reqs s \<Longrightarrow> i \<noteq> src \<Longrightarrow>
        row_of (move_sampling_rows src tgt rw1) i = row_of (ib_rows s) (if i = tgt then src else i)"
    and gen: "\<And>i. rw_generators (move_sampling_rows src tgt rw1) i =
        (if i = src then None else if i = tgt then rw_generators (ib_rows s) src else rw_generators (ib_rows s) i)"
    and bad: "\<And>i. rw_bad_words_token_ids (move_sampling_rows src tgt rw1) i =
      (if i = src then None else if i = tgt then rw_bad_words_token_ids (ib_rows s) src else rw_bad_words_token_ids (ib_rows s) i)"
    by (rule move_rows_ok[OF rk lt ne]) (rule that; assumption)
  define s' where "s' = s\<lparr>req_ids := (req_ids s)[tgt := Some r, src := None],
      req_output_token_ids := (req_output_token_ids s)[tgt := Some r, src := None],
      req_id_to_index := AList.update r tgt (req_id_to_index s), ib_rows := move_sampling_rows src tgt rw1,
      builder := (builder s)\<lparr>bu_moved := bu_moved (builder s) @ [(src, tgt, UNIDIRECTIONAL)]\<rparr>\<rparr>"
  have run: "condense_move src tgt s = Inr s'"
    using src tgt np by (simp add: condense_move_def index_py_def d(3) m Let_def s'_def)
  have ids: "req_ids s' = (req_ids s)[tgt := Some r, src := None]" by (simp add: s'_def)
  have uniq: "req_ids s ! i = Some r \<Longrightarrow> i < length (req_ids s) \<Longrightarrow> i = src" for i
    using d(2)[of r i] d(2)[of r src] src by auto
  have i': "index_ok s'"
    unfolding index_ok_def
  proof (intro conjI allI)
    show "distinct (map fst (req_id_to_index s'))" using d(1) by (simp add: s'_def distinct_update)
    show "map_of (req_id_to_index s') q = Some i \<longleftrightarrow> i < length (req_ids s') \<and> req_ids s' ! i = Some q" for q i
    proof (cases "q = r")
      case True
      have "req_ids s' ! i = Some r \<longleftrightarrow> i = tgt" if "i < length (req_ids s)"
        using that src tgt ne uniq[of i] by (auto simp: ids nth_list_update)
      then show ?thesis using tgt True by (auto simp: s'_def update_conv')
    next
      case False
      have "req_ids s' ! i = Some q \<longleftrightarrow> req_ids s ! i = Some q" if "i < length (req_ids s)"
        using that src tgt ne False by (auto simp: ids nth_list_update)
      then show ?thesis using False d(2)[of q i] by (auto simp: s'_def update_conv')
    qed
  qed (use d in \<open>simp_all add: s'_def\<close>)
  have k': "keys_ok s'"
    using k src tgt ne unfolding keys_ok_def live_def s'_def by (auto simp: gen bad nth_list_update)
  have b: "batch_of s' = batch_of s"
  proof (rule batch_of_eqI[OF i i'])
    fix q j assume q: "j < length (req_ids s)" "req_ids s ! j = Some q"
    then show "\<exists>j' < length (req_ids s'). req_ids s' ! j' = Some q \<and> row_of (ib_rows s') j' = row_of (ib_rows s) j"
      using row[of "if j = src then tgt else j"] src tgt ne d(4)
      by (intro exI[of _ "if j = src then tgt else j"]) (auto simp: s'_def nth_list_update split: if_splits)
  next
    fix q j assume "j < length (req_ids s')" "req_ids s' ! j = Some q"
    then show "Some q \<in> set (req_ids s)"
      using src tgt ne by (auto simp: s'_def nth_list_update in_set_conv_nth split: if_splits)
  qed
  have tb: "map max_num_blocks_per_req (rw_block_table rw1) = map max_num_blocks_per_req (rw_block_table (ib_rows s))"
    and mk: "allowed_token_ids_mask rw1 = allowed_token_ids_mask (ib_rows s)" "needs_token_ids rw1 = needs_token_ids (ib_rows s)"
    using m mg_op_width(2) by (auto simp: move_token_rows_def Let_def)
  show thesis
    by (rule that[OF run _ _ b ids]) (use np i' rk' k' tb mk in \<open>auto simp: base_ok_def same_rest_def s'_def move_sampling_rows_def\<close>)
qed

section \<open>Condensing\<close>

lemma skip_empty_spec:
  assumes "-1 \<le> l"
  shows "-1 \<le> skip_empty R l" "skip_empty R l \<le> l" "\<And>i. skip_empty R l < int i \<Longrightarrow> int i \<le> l \<Longrightarrow> i \<in> set R"
    "0 \<le> skip_empty R l \<Longrightarrow> nat (skip_empty R l) \<notin> set R"
proof -
  have "-1 \<le> skip_empty R l \<and> skip_empty R l \<le> l \<and> (\<forall>i. skip_empty R l < int i \<and> int i \<le> l \<longrightarrow> i \<in> set R) \<and>
      (0 \<le> skip_empty R l \<longrightarrow> nat (skip_empty R l) \<notin> set R)"
    using assms
  proof (induction R l rule: skip_empty.induct)
    case (1 R l)
    show ?case
    proof (cases "0 \<le> l \<and> nat l \<in> set R")
      case True
      with 1 have IH: "-1 \<le> skip_empty R (l - 1) \<and> skip_empty R (l - 1) \<le> l - 1 \<and>
        (\<forall>i. skip_empty R (l - 1) < int i \<and> int i \<le> l - 1 \<longrightarrow> i \<in> set R) \<and>
        (0 \<le> skip_empty R (l - 1) \<longrightarrow> nat (skip_empty R (l - 1)) \<notin> set R)" by simp
      have e: "skip_empty R l = skip_empty R (l - 1)" using True by (subst skip_empty.simps) simp
      have "i \<in> set R" if "skip_empty R (l - 1) < int i" "int i \<le> l" for i
        using that IH True by (cases "int i = l") auto
      with IH show ?thesis unfolding e by auto
    next
      case False
      then have "skip_empty R l = l" by (subst skip_empty.simps) auto
      with False 1 show ?thesis by auto
    qed
  qed
  then show "-1 \<le> skip_empty R l" "skip_empty R l \<le> l" "\<And>i. skip_empty R l < int i \<Longrightarrow> int i \<le> l \<Longrightarrow> i \<in> set R"
    "0 \<le> skip_empty R l \<Longrightarrow> nat (skip_empty R l) \<notin> set R" by blast+
qed

text \<open>During the loop the gaps up to the index looked at are those still registered; everything above is empty.\<close>

definition loop_ok :: "int \<Rightarrow> input_batch \<Rightarrow> bool" where
  "loop_ok l s \<longleftrightarrow> -1 \<le> l \<and> l < int (length (req_ids s)) \<and> is_removed_sorted (builder s) \<and>
     sorted (rev (bu_removed (builder s))) \<and> distinct (bu_removed (builder s)) \<and>
     (\<forall>i < length (req_ids s). req_ids s ! i = None \<longleftrightarrow> l < int i \<or> i \<in> set (bu_removed (builder s)))"

lemma sorted_rev_last:
  assumes "sorted (rev R)" "R \<noteq> []" "x \<in> set R"
  shows "last R \<le> (x :: nat)"
  using assms by (cases R rule: rev_cases) auto

lemma sorted_rev_butlast: "sorted (rev R) \<Longrightarrow> sorted (rev (butlast R))"
  by (cases R rule: rev_cases) auto

lemma base_ok_builder [simp]: "base_ok (s\<lparr>builder := b\<rparr>) = base_ok s" "batch_of (s\<lparr>builder := b\<rparr>) = batch_of s"
  "same_rest s0 (s\<lparr>builder := b\<rparr>) = same_rest s0 s" "same_rest (s\<lparr>builder := b\<rparr>) s0 = same_rest s s0"
  by (auto simp: base_ok_def index_ok_def keys_ok_def live_def batch_of_def same_rest_def fun_eq_iff)

lemma same_rest_trans: "same_rest a b \<Longrightarrow> same_rest b c \<Longrightarrow> same_rest a c"
  by (simp add: same_rest_def)

lemma condense_step_ok:
  assumes base: "base_ok s" and l: "loop_ok l s"
  obtains (stop) s' where "condense_step l s = Inr (False, skip_empty (bu_removed (builder s)) l, s')" "base_ok s'" "same_rest s s'"
      "batch_of s' = batch_of s" "\<exists>k. \<forall>i < length (req_ids s'). req_ids s' ! i \<noteq> None \<longleftrightarrow> i < k"
  | (go) l' s' where "condense_step l s = Inr (True, l', s')" "base_ok s'" "same_rest s s'" "batch_of s' = batch_of s" "loop_ok l' s'"
proof -
  let ?R = "bu_removed (builder s)" let ?l = "skip_empty ?R l"
  from l have l0: "-1 \<le> l" "l < int (length (req_ids s))" and srt: "is_removed_sorted (builder s)" "sorted (rev ?R)" "distinct ?R"
    and gaps: "\<And>i. i < length (req_ids s) \<Longrightarrow> req_ids s ! i = None \<longleftrightarrow> l < int i \<or> i \<in> set ?R"
    by (auto simp: loop_ok_def)
  note sk = skip_empty_spec[OF l0(1), of ?R]
  have sk4: "int i = ?l \<Longrightarrow> i \<notin> set ?R" for i using sk(4) by (metis nat_int of_nat_0_le_iff)
  have gaps': "req_ids s ! i = None \<longleftrightarrow> ?l < int i \<or> i \<in> set ?R" if "i < length (req_ids s)" for i
    using gaps[OF that] sk(2) sk(3)[of i] by fastforce
  show thesis
  proof (cases "?R = []")
    case True
    have "skip_empty [] l = l" by (subst skip_empty.simps) simp
    then have "condense_step l s = Inr (False, ?l, s)" by (simp add: condense_step_def True)
    then show thesis
      by (rule stop) (use base gaps True in \<open>auto simp: same_rest_def intro!: exI[of _ "nat (l + 1)"]\<close>)
  next
    case False
    let ?e = "last ?R"
    have pk: "peek_removed (builder s) = (Some ?e, builder s)"
      using False srt by (simp add: peek_removed_def has_removed_def ensure_removed_sorted_def Let_def)
    have pp: "snd (pop_removed (builder s)) = (builder s)\<lparr>bu_removed := butlast ?R\<rparr>"
      using False srt by (simp add: pop_removed_def has_removed_def ensure_removed_sorted_def Let_def)
    show thesis
    proof (cases "int ?e \<ge> ?l")
      case True
      have "condense_step l s = Inr (False, ?l, s)" using False True by (simp add: condense_step_def pk)
      moreover have "req_ids s ! i \<noteq> None \<longleftrightarrow> i < nat (?l + 1)" if "i < length (req_ids s)" for i
        using gaps'[OF that] sorted_rev_last[OF srt(2) False, of i] True sk(1) sk4[of i] by (cases "int i = ?l") auto
      ultimately show thesis using base by (intro stop) (auto simp: same_rest_def)
    next
      case lt: False
      let ?s = "s\<lparr>builder := (builder s)\<lparr>bu_removed := butlast ?R\<rparr>\<rparr>"
      have src: "nat ?l < length (req_ids s)" "int (nat ?l) = ?l" using lt sk(2) l0 by auto
      then obtain r where r: "req_ids s ! nat ?l = Some r" using gaps'[of "nat ?l"] sk(4) by fastforce
      have e: "?e < length (req_ids s)" "?e \<in> set ?R" using lt src False by auto
      then have n: "req_ids s ! ?e = None" using gaps' by blast
      have sel: "req_ids ?s = req_ids s" "bu_removed (builder ?s) = butlast ?R" "is_removed_sorted (builder ?s)" using srt by simp_all
      obtain s' where s': "condense_move (nat ?l) ?e ?s = Inr s'" "base_ok s'" "same_rest ?s s'" "batch_of s' = batch_of ?s"
        "req_ids s' = (req_ids s)[?e := Some r, nat ?l := None]"
        by (rule condense_move_ok[of ?s "nat ?l" r ?e]) (use base src r e n in \<open>auto simp: sel\<close>)
      have run: "condense_step l s = Inr (True, ?l - 1, s')" using False lt by (simp add: condense_step_def pk pp s'(1))
      have R: "?R = butlast ?R @ [?e]" using False by simp
      then have mem: "i \<in> set ?R \<longleftrightarrow> i \<in> set (butlast ?R) \<or> i = ?e" and ne: "?e \<notin> set (butlast ?R)" for i
        using srt(3) by (metis Un_iff empty_iff list.set(1,2) insert_iff set_append, metis distinct_append disjoint_iff list.set_intros(1))
      have sorted: "sorted (rev (butlast ?R))" "distinct (butlast ?R)"
        using srt by (simp_all add: sorted_rev_butlast distinct_butlast)
      have "loop_ok (?l - 1) s'"
        unfolding loop_ok_def
      proof (intro conjI allI impI)
        fix i assume i: "i < length (req_ids s')"
        show "req_ids s' ! i = None \<longleftrightarrow> ?l - 1 < int i \<or> i \<in> set (bu_removed (builder s'))"
          using i gaps'[of i] condense_move_builder[OF s'(1)] mem[of i] ne lt src e sk(4)
          by (auto simp: s'(5) sel nth_list_update)
      qed (use condense_move_builder[OF s'(1)] sel sorted lt src s'(5) in auto)
      then show thesis using s' by (intro go[OF run]) auto
    qed
  qed
qed

lemma condense_loop_ok:
  assumes "base_ok s" "loop_ok l s"
  shows "\<exists>s'. condense_loop l s = Inr s' \<and> base_ok s' \<and> same_rest s s' \<and> batch_of s' = batch_of s \<and>
    (\<exists>k. \<forall>i < length (req_ids s'). req_ids s' ! i \<noteq> None \<longleftrightarrow> i < k)"
  using assms
proof (induction l s rule: condense_loop.induct)
  case (1 l s)
  show ?case
    using 1(2,3)
  proof (cases rule: condense_step_ok)
    case (stop s')
    then show ?thesis by (subst condense_loop.simps) auto
  next
    case (go l' s')
    from "1.IH"[OF go(1) refl refl TrueI go(2,5)] obtain s'' where "condense_loop l' s' = Inr s''" "base_ok s''" "same_rest s' s''"
      "batch_of s'' = batch_of s'" "\<exists>k. \<forall>i < length (req_ids s''). req_ids s'' ! i \<noteq> None \<longleftrightarrow> i < k" by auto
    then show ?thesis using go same_rest_trans[of s s' s''] by (subst condense_loop.simps) auto
  qed
qed

lemma num_reqs_dom: "index_ok s \<Longrightarrow> num_reqs s = card (dom (batch_of s))"
proof -
  assume "index_ok s"
  then have "num_reqs s = card (dom (map_of (req_id_to_index s)))"
    using index_okD(1)[of s] by (simp add: num_reqs_def dom_map_of_conv_image_fst distinct_card[of "map fst _", simplified])
  also have "dom (map_of (req_id_to_index s)) = dom (batch_of s)" by (auto simp: batch_of_def dom_def)
  finally show ?thesis .
qed

lemma trim_ok:
  assumes base: "base_ok s" and k: "\<forall>i < length (req_ids s). req_ids s ! i \<noteq> None \<longleftrightarrow> i < k" and n: "num_reqs s = n"
  defines "s' \<equiv> s\<lparr>req_ids := take n (req_ids s), req_output_token_ids := take n (req_output_token_ids s)\<rparr>"
  shows "base_ok s'" "batch_of s' = batch_of s" "None \<notin> set (req_ids s')" "same_rest s s'" "length (req_ids s') = n"
proof -
  have i: "index_ok s" using base by (simp add: base_ok_def)
  note d = index_okD[OF i]
  have "{i. live s i} = {..<min k (length (req_ids s))}" using k by (auto simp: live_def)
  then have nk: "n = min k (length (req_ids s))" using num_reqs_card[OF i] n by simp
  have lv: "live s' j = live s j" for j using k by (auto simp: live_def s'_def nk)
  have "i < length (req_ids s) \<and> req_ids s ! i = Some r \<longleftrightarrow> i < length (req_ids s') \<and> req_ids s' ! i = Some r" for i r
    using k by (auto simp: s'_def nk)
  then have "index_ok s'" using d unfolding index_ok_def by (auto simp: s'_def)
  then show "base_ok s'" using base lv by (simp add: base_ok_def keys_ok_def) (simp add: s'_def)
  show "batch_of s' = batch_of s" by (simp add: s'_def batch_of_def fun_eq_iff)
  show "None \<notin> set (req_ids s')" using k by (auto simp: s'_def nk in_set_conv_nth)
  show "same_rest s s'" by (simp add: same_rest_def s'_def)
  show "length (req_ids s') = n" by (simp add: s'_def nk)
qed

definition builder_ok :: "input_batch \<Rightarrow> bool" where
  "builder_ok s \<longleftrightarrow> ids_ok (bu_removed (builder s)) s \<and>
     (is_removed_sorted (builder s) \<longrightarrow> sorted (rev (bu_removed (builder s))))"

lemma ensure_sorted_ok:
  assumes "builder_ok s"
  defines "b \<equiv> ensure_removed_sorted (builder s)"
  shows "is_removed_sorted b" "sorted (rev (bu_removed b))" "ids_ok (bu_removed b) s" "length (bu_removed b) = length (bu_removed (builder s))"
  using assms by (auto simp: builder_ok_def ensure_removed_sorted_def ids_ok_def)

lemma condense_ok:
  assumes base: "base_ok s" and bok: "builder_ok s"
  shows "\<exists>s'. condense s = Inr s' \<and> base_ok s' \<and> same_rest s s' \<and> batch_of s' = batch_of s \<and>
    None \<notin> set (req_ids s') \<and> length (req_ids s') = num_reqs s"
proof -
  let ?b = "ensure_removed_sorted (builder s)" let ?R = "bu_removed ?b" and ?s = "s\<lparr>builder := ensure_removed_sorted (builder s)\<rparr>"
  note b = ensure_sorted_ok[OF bok]
  have i: "index_ok s" using base by (simp add: base_ok_def)
  note len = ids_ok_length[OF i b(3)]
  have base': "base_ok ?s" using base by simp
  show ?thesis
  proof (cases "?R = []")
    case True
    then have "condense s = Inr ?s" by (simp add: condense_def removed_list_def Let_def)
    moreover have "None \<notin> set (req_ids s)" using b(3) True by (force simp: ids_ok_def in_set_conv_nth)
    ultimately show ?thesis using base' len True by (auto simp: same_rest_def)
  next
    case R: False
    show ?thesis
    proof (cases "num_reqs s = 0")
      case True
      let ?s' = "?s\<lparr>req_ids := take 0 (req_ids ?s), req_output_token_ids := take 0 (req_output_token_ids ?s)\<rparr>"
      have run: "condense s = Inr ?s'" using R True by (simp add: condense_def removed_list_def Let_def)
      have "{i. live s i} = {}" using num_reqs_card[OF i] True by (auto simp: live_def)
      then have k: "\<forall>i < length (req_ids ?s). req_ids ?s ! i \<noteq> None \<longleftrightarrow> i < 0" by (auto simp: live_def)
      have "num_reqs ?s = 0" using True by (simp add: num_reqs_def)
      note t = trim_ok[OF base' k this]
      show ?thesis by (intro exI[of _ ?s'] conjI run) (use t True in \<open>simp_all\<close>)
    next
      case False
      let ?l = "int (num_reqs s + length ?R) - 1"
      have "loop_ok ?l ?s" using b R len by (auto simp: loop_ok_def ids_ok_def)
      from condense_loop_ok[OF base' this] obtain s2 k where s2: "condense_loop ?l ?s = Inr s2" "base_ok s2" "same_rest ?s s2"
        "batch_of s2 = batch_of ?s" and k: "\<forall>i < length (req_ids s2). req_ids s2 ! i \<noteq> None \<longleftrightarrow> i < k" by blast
      have "num_reqs s2 = num_reqs s" using num_reqs_dom[of s2] num_reqs_dom[OF i] s2 by (simp add: base_ok_def)
      note t = trim_ok[OF s2(2) k this]
      have "condense s = Inr (s2\<lparr>req_ids := take (num_reqs s) (req_ids s2), req_output_token_ids := take (num_reqs s) (req_output_token_ids s2)\<rparr>)"
        using R False s2(1) by (simp add: condense_def removed_list_def Let_def)
      then show ?thesis using t s2 same_rest_trans[OF s2(3) t(4)] by (auto simp del: base_ok_builder(3))
    qed
  qed
qed

section \<open>Sets of requests\<close>

definition sel :: "(request_row \<Rightarrow> bool) \<Rightarrow> (string \<rightharpoonup> request_row) \<Rightarrow> string set" where
  "sel P m = {r. \<exists>v. m r = Some v \<and> P v}"

lemma sel_upd: "sel P (m(r := None)) = sel P m - {r}" "m r = None \<Longrightarrow> sel P (m(r \<mapsto> v)) = insert_if (P v) r (sel P m)"
  by (auto simp: sel_def insert_if_def)

text \<open>The sets of the batch are those of the requests whose rows have the property; LoRA ids are registered exactly
  while a request uses them.\<close>

definition lora_ok :: "batch_sets \<Rightarrow> (string \<rightharpoonup> request_row) \<Rightarrow> bool" where
  "lora_ok st m \<longleftrightarrow> (\<forall>L. lora_id_to_request_ids st L =
      (let A = sel (\<lambda>v. v_lora v = L) m in if L = 0 \<or> A = {} then None else Some A) \<and>
      (map_of (lora_id_to_lora_request st) L = None \<longleftrightarrow> lora_id_to_request_ids st L = None))"

definition sampling_sets_ok :: "nat \<Rightarrow> batch_sets \<Rightarrow> (string \<rightharpoonup> request_row) \<Rightarrow> bool" where
  "sampling_sets_ok vocab st m \<longleftrightarrow> greedy_reqs st = sel (\<lambda>v. v_temperature v = 0) m \<and>
     random_reqs st = sel (\<lambda>v. v_temperature v \<noteq> 0) m \<and> top_p_reqs st = sel (\<lambda>v. v_top_p v < 1) m \<and>
     top_k_reqs st = sel (\<lambda>v. v_top_k v \<noteq> int vocab) m \<and> frequency_penalties_reqs st = sel (\<lambda>v. v_frequency v \<noteq> 0) m \<and>
     presence_penalties_reqs st = sel (\<lambda>v. v_presence v \<noteq> 0) m \<and> repetition_penalties_reqs st = sel (\<lambda>v. v_repetition v \<noteq> 1) m"

text \<open>What the batch keeps of a request by its id. A request that is not in the batch has left no trace.\<close>

record request_options =
  o_logprobs :: "int option"
  o_prompt_logprobs :: "int option"
  o_spec_unsupported :: bool
  o_restricted :: bool

definition no_options :: request_options where
  "no_options = \<lparr>o_logprobs = None, o_prompt_logprobs = None, o_spec_unsupported = False, o_restricted = False\<rparr>"

definition options_in :: "batch_sets \<Rightarrow> string \<Rightarrow> request_options" where
  "options_in st r = \<lparr>o_logprobs = map_of (num_logprobs st) r, o_prompt_logprobs = num_prompt_logprobs st r,
     o_spec_unsupported = (r \<in> spec_decode_unsupported_reqs st), o_restricted = (r \<in> has_allowed_token_ids st)\<rparr>"

definition options_of :: "input_batch \<Rightarrow> string \<rightharpoonup> request_options" where
  "options_of s r = (if batch_of s r = None then None else Some (options_in (ib_sets s) r))"

definition opts_ok :: "batch_sets \<Rightarrow> (string \<rightharpoonup> request_row) \<Rightarrow> bool" where
  "opts_ok st m \<longleftrightarrow> distinct (map fst (num_logprobs st)) \<and> (\<forall>r. m r = None \<longrightarrow> options_in st r = no_options)"

lemma options_of_cong: "batch_of s' = batch_of s \<Longrightarrow> ib_sets s' = ib_sets s \<Longrightarrow> options_of s' = options_of s"
  by (simp add: options_of_def fun_eq_iff)

definition mask_ok :: "input_batch \<Rightarrow> bool" where
  "mask_ok s \<longleftrightarrow> (allowed_token_ids_mask (ib_rows s) = None \<longleftrightarrow> allowed_token_ids_mask_gpu (ib_device s) = None) \<and>
     (has_allowed_token_ids (ib_sets s) \<noteq> {} \<longrightarrow> allowed_token_ids_mask (ib_rows s) \<noteq> None)"

definition device_ok :: "input_batch \<Rightarrow> bool" where
  "device_ok s \<longleftrightarrow> length (temperature_gpu (ib_device s)) = max_num_reqs s \<and> length (top_p_gpu (ib_device s)) = max_num_reqs s \<and>
     length (top_k_gpu (ib_device s)) = max_num_reqs s \<and> length (frequency_penalties_gpu (ib_device s)) = max_num_reqs s \<and>
     length (presence_penalties_gpu (ib_device s)) = max_num_reqs s \<and> length (repetition_penalties_gpu (ib_device s)) = max_num_reqs s"

definition batch_inv :: "input_batch \<Rightarrow> bool" where
  "batch_inv s \<longleftrightarrow> base_ok s \<and> lora_ok (ib_sets s) (batch_of s) \<and> sampling_sets_ok (vocab_size s) (ib_sets s) (batch_of s) \<and> mask_ok s
     \<and> device_ok s \<and> True \<notin> set (needs_token_ids (ib_rows s)) \<and> opts_ok (ib_sets s) (batch_of s)"

text \<open>What the operations never change.\<close>

definition same_config :: "input_batch \<Rightarrow> input_batch \<Rightarrow> bool" where
  "same_config s s' \<longleftrightarrow> max_num_reqs s' = max_num_reqs s \<and> ib_max_model_len s' = ib_max_model_len s \<and> vocab_size s' = vocab_size s \<and>
     is_spec_decode s' = is_spec_decode s \<and>
     map max_num_blocks_per_req (rw_block_table (ib_rows s')) = map max_num_blocks_per_req (rw_block_table (ib_rows s))"

lemma same_config_trans: "same_config a b \<Longrightarrow> same_config b c \<Longrightarrow> same_config a c"
  by (simp add: same_config_def)

section \<open>Removing a request\<close>

lemma remove_lora_eq:
  assumes l: "lora_ok (ib_sets s) m" and r: "m r = Some v" and v: "v_lora v = request_lora_mapping (ib_rows s) ! i"
  obtains st where "remove_lora i r s = Inr (s\<lparr>ib_sets := st,
      ib_rows := (ib_rows s)\<lparr>request_lora_mapping := (request_lora_mapping (ib_rows s))[i := 0]\<rparr>\<rparr>)"
    "lora_ok st (m(r := None))" "\<And>vocab. sampling_sets_ok vocab st m = sampling_sets_ok vocab (ib_sets s) m"
    "has_allowed_token_ids st = has_allowed_token_ids (ib_sets s)" "num_logprobs st = num_logprobs (ib_sets s)"
    "options_in st = options_in (ib_sets s)"
proof (cases "request_lora_mapping (ib_rows s) ! i = 0")
  case True
  have run: "remove_lora i r s = Inr (s\<lparr>ib_sets := ib_sets s,
      ib_rows := (ib_rows s)\<lparr>request_lora_mapping := (request_lora_mapping (ib_rows s))[i := 0]\<rparr>\<rparr>)"
    using True list_update_id[of "request_lora_mapping (ib_rows s)" i] by (simp add: remove_lora_def)
  have "sel (\<lambda>v. v_lora v = L) (m(r := None)) = sel (\<lambda>v. v_lora v = L) m" if "L \<noteq> 0" for L
    using that True v r by (auto simp: sel_def)
  then have "lora_ok (ib_sets s) (m(r := None))" using l unfolding lora_ok_def by (auto simp: Let_def)
  with run show thesis by (rule that) auto
next
  case False
  let ?L = "request_lora_mapping (ib_rows s) ! i" and ?st = "ib_sets s"
  let ?A = "sel (\<lambda>v. v_lora v = ?L) m"
  have rA: "r \<in> ?A" using r v by (auto simp: sel_def)
  then have ids: "lora_id_to_request_ids ?st ?L = Some ?A" and kn: "map_of (lora_id_to_lora_request ?st) ?L \<noteq> None"
    using l False unfolding lora_ok_def by (auto simp: Let_def)
  have other: "sel (\<lambda>v. v_lora v = L) (m(r := None)) = (if L = ?L then ?A - {r} else sel (\<lambda>v. v_lora v = L) m)" for L
    using v r by (auto simp: sel_def)
  define st where "st = (if ?A - {r} = {} then ?st\<lparr>lora_id_to_request_ids := (lora_id_to_request_ids ?st)(?L := None),
        lora_id_to_lora_request := AList.delete ?L (lora_id_to_lora_request ?st)\<rparr>
      else ?st\<lparr>lora_id_to_request_ids := (lora_id_to_request_ids ?st)(?L \<mapsto> ?A - {r})\<rparr>)"
  show thesis
  proof (rule that[of st])
    show "remove_lora i r s = Inr (s\<lparr>ib_sets := st,
      ib_rows := (ib_rows s)\<lparr>request_lora_mapping := (request_lora_mapping (ib_rows s))[i := 0]\<rparr>\<rparr>)"
      using False ids kn by (simp add: remove_lora_def Let_def lookup_py_def st_def)
    have "lora_id_to_request_ids st L = (let A = sel (\<lambda>v. v_lora v = L) (m(r := None)) in if L = 0 \<or> A = {} then None else Some A)" for L
      using l False unfolding lora_ok_def by (auto simp: Let_def other st_def)
    moreover have "map_of (lora_id_to_lora_request st) L = None \<longleftrightarrow> lora_id_to_request_ids st L = None" for L
      using l kn unfolding lora_ok_def by (auto simp: st_def delete_conv')
    ultimately show "lora_ok st (m(r := None))" unfolding lora_ok_def by blast
  qed (auto simp: st_def sampling_sets_ok_def options_in_def[abs_def])
qed

lemma remove_row:
  "j \<noteq> i \<Longrightarrow> row_of (discard_sampling_rows i (rw\<lparr>request_lora_mapping := (request_lora_mapping rw)[i := 0]\<rparr>)) j = row_of rw j"
  by (simp add: row_of_def discard_sampling_rows_def)

lemma discard_sets:
  "sampling_sets_ok vocab st m \<Longrightarrow> sampling_sets_ok vocab (discard_sampling_sets r st) (m(r := None))"
  "lora_ok (discard_sampling_sets r st) m = lora_ok st m"
  "options_in (discard_sampling_sets r st) q = (if q = r then no_options else options_in st q)"
  by (simp_all add: sampling_sets_ok_def discard_sampling_sets_def sel_upd lora_ok_def options_in_def no_options_def delete_conv')

lemma remove_request_ok:
  assumes inv: "batch_inv s" and bok: "builder_ok s" and ns: "\<not> is_removed_sorted (builder s)"
  shows "\<exists>i s'. ib_remove_request r s = Inr (i, s') \<and> batch_inv s' \<and> builder_ok s' \<and> \<not> is_removed_sorted (builder s') \<and>
    batch_of s' = (batch_of s)(r := None) \<and> options_of s' = (options_of s)(r := None) \<and> same_config s s'"
proof (cases "map_of (req_id_to_index s) r")
  case None
  then have "batch_of s r = None" by (simp add: batch_of_def)
  then have "batch_of s = (batch_of s)(r := None)" "options_of s = (options_of s)(r := None)" by (simp_all add: fun_upd_idem options_of_def)
  with None assms show ?thesis by (simp add: ib_remove_request_def same_config_def)
next
  case (Some i)
  from inv have base: "base_ok s" and l: "lora_ok (ib_sets s) (batch_of s)" and st: "sampling_sets_ok (vocab_size s) (ib_sets s) (batch_of s)"
    and mk: "mask_ok s" and dv: "device_ok s" and nt: "True \<notin> set (needs_token_ids (ib_rows s))" and op: "opts_ok (ib_sets s) (batch_of s)"
    by (simp_all add: batch_inv_def)
  have ix: "index_ok s" and rk: "rows_ok (max_num_reqs s) (ib_max_model_len s) (ib_rows s)" and ks: "keys_ok s" and np: "\<not> is_pooling_model s"
    using base by (simp_all add: base_ok_def)
  note d = index_okD[OF ix]
  have i: "i < length (req_ids s)" "req_ids s ! i = Some r" using Some d(2) by auto
  define b where "b = (builder s)\<lparr>bu_removed := bu_removed (builder s) @ [i], batch_changed := True\<rparr>"
  define s0 where "s0 = s\<lparr>req_id_to_index := AList.delete r (req_id_to_index s), builder := b,
      req_ids := (req_ids s)[i := None], req_output_token_ids := (req_output_token_ids s)[i := None]\<rparr>"
  have r: "batch_of s r = Some (row_of (ib_rows s) i)" using Some by (simp add: batch_of_def)
  have s0: "ib_sets s0 = ib_sets s" "ib_rows s0 = ib_rows s" by (simp_all add: s0_def)
  obtain st' where rl: "remove_lora i r s0 = Inr (s0\<lparr>ib_sets := st',
      ib_rows := (ib_rows s)\<lparr>request_lora_mapping := (request_lora_mapping (ib_rows s))[i := 0]\<rparr>\<rparr>)"
    and lo: "lora_ok st' ((batch_of s)(r := None))"
    and ss: "\<And>vocab. sampling_sets_ok vocab st' (batch_of s) = sampling_sets_ok vocab (ib_sets s) (batch_of s)"
    and al: "has_allowed_token_ids st' = has_allowed_token_ids (ib_sets s)"
    and nl: "num_logprobs st' = num_logprobs (ib_sets s)" and oi: "options_in st' = options_in (ib_sets s)"
    by (rule remove_lora_eq[of s0 "batch_of s" r "row_of (ib_rows s) i" i])
      (use l r in \<open>auto simp: s0 row_of_def\<close>)
  let ?rw = "discard_sampling_rows i ((ib_rows s)\<lparr>request_lora_mapping := (request_lora_mapping (ib_rows s))[i := 0]\<rparr>)"
  define s' where "s' = s0\<lparr>ib_sets := discard_sampling_sets r st', ib_rows := ?rw\<rparr>"
  have run: "ib_remove_request r s = Inr (Some i, s')"
    using Some ns i np rl by (simp add: ib_remove_request_def removed_append_def b_def[symmetric] s0_def[symmetric] s'_def)
      (simp add: s0_def)
  have ids: "req_ids s' = (req_ids s)[i := None]" "req_id_to_index s' = AList.delete r (req_id_to_index s)" "ib_rows s' = ?rw"
    "ib_sets s' = discard_sampling_sets r st'" "builder s' = b" "ib_device s' = ib_device s"
    by (simp_all add: s'_def s0_def)
  have uniq: "req_ids s ! j = Some r \<Longrightarrow> j < length (req_ids s) \<Longrightarrow> j = i" for j using d(2)[of r j] Some by auto
  have ix': "index_ok s'"
    unfolding index_ok_def
  proof (intro conjI allI)
    show "distinct (map fst (req_id_to_index s'))" using d(1) by (simp add: ids distinct_delete)
    show "map_of (req_id_to_index s') q = Some j \<longleftrightarrow> j < length (req_ids s') \<and> req_ids s' ! j = Some q" for q j
    proof (cases "q = r")
      case True
      then show ?thesis using uniq[of j] i by (auto simp: ids delete_conv' nth_list_update)
    next
      case False
      then show ?thesis using d(2)[of q j] i by (auto simp: ids delete_conv' nth_list_update)
    qed
  qed (use d in \<open>simp_all add: s'_def s0_def\<close>)
  have rk': "rows_ok (max_num_reqs s) (ib_max_model_len s) ?rw"
    using rk by (simp add: rows_ok_def discard_sampling_rows_def)
  have ks': "keys_ok s'"
    using ks i unfolding keys_ok_def live_def by (auto simp: ids discard_sampling_rows_def nth_list_update)
  have bo: "batch_of s' = (batch_of s)(r := None)"
  proof
    fix q
    have "j \<noteq> i" if "q \<noteq> r" "map_of (req_id_to_index s) q = Some j" for j using that d(2)[of q j] i by auto
    then show "batch_of s' q = ((batch_of s)(r := None)) q"
      by (cases "map_of (req_id_to_index s) q") (auto simp: batch_of_def ids delete_conv' remove_row)
  qed
  have base': "base_ok s'" using np ix' rk' ks' by (simp add: base_ok_def ids) (simp add: s'_def s0_def)
  have sets': "lora_ok (ib_sets s') (batch_of s')" "sampling_sets_ok (vocab_size s') (ib_sets s') (batch_of s')"
    using lo discard_sets(1)[of "vocab_size s" st' "batch_of s" r] st ss
    by (simp_all add: bo ids discard_sets(2)) (simp add: s'_def s0_def)
  have mk': "mask_ok s'" using mk al by (auto simp: mask_ok_def ids discard_sampling_sets_def discard_sampling_rows_def)
  have dv': "device_ok s'" using dv by (simp add: device_ok_def s'_def s0_def)
  have op': "opts_ok (ib_sets s') (batch_of s')"
    using op nl by (auto simp: opts_ok_def bo ids discard_sets(3) oi) (simp add: discard_sampling_sets_def distinct_delete)
  have oo: "options_of s' = (options_of s)(r := None)" by (auto simp: options_of_def bo ids discard_sets(3) oi)
  have inv': "batch_inv s'" using base' sets' mk' dv' nt op' by (simp add: batch_inv_def ids discard_sampling_rows_def)
  have "set (bu_removed b) = {j. j < length (req_ids s') \<and> req_ids s' ! j = None}" "distinct (bu_removed b)"
    using bok i by (auto simp: builder_ok_def ids_ok_def b_def ids nth_list_update)
  then have bok': "builder_ok s'" using ns by (simp add: builder_ok_def ids_ok_def ids) (simp add: b_def)
  have "\<not> is_removed_sorted (builder s')" "same_config s s'"
    using ns by (simp_all add: ids b_def same_config_def discard_sampling_rows_def) (simp_all add: s'_def s0_def)
  with run inv' bok' bo oo show ?thesis by blast
qed

section \<open>Exchanging requests\<close>

lemma swap_states_ok:
  assumes base: "base_ok s" and i: "i < length (req_ids s)" "req_ids s ! i = Some a" and j: "j < length (req_ids s)" "req_ids s ! j = Some b"
  obtains s' where "swap_states i j s = Inr s'" "base_ok s'" "same_rest s s'" "batch_of s' = batch_of s"
    "req_ids s' = swap_at i j (req_ids s)" "bu_removed (builder s') = bu_removed (builder s)"
proof -
  have ix: "index_ok s" and rk: "rows_ok (max_num_reqs s) (ib_max_model_len s) (ib_rows s)" and k: "keys_ok s" and np: "\<not> is_pooling_model s"
    using base by (simp_all add: base_ok_def)
  note d = index_okD[OF ix]
  have lt: "i < max_num_reqs s" "j < max_num_reqs s" using i j d(4) by auto
  let ?p = "\<lambda>x. if x = j then i else if x = i then j else x"
  from rk lt obtain rw1 where m: "swap_token_rows i j (ib_rows s) = Inr rw1"
    and rk': "rows_ok (max_num_reqs s) (ib_max_model_len s) (swap_sampling_rows i j rw1)"
    and row: "\<And>x. x < max_num_reqs s \<Longrightarrow> row_of (swap_sampling_rows i j rw1) x = row_of (ib_rows s) (?p x)"
    and gen: "\<And>x. rw_generators (swap_sampling_rows i j rw1) x = rw_generators (ib_rows s) (?p x)"
    and bad: "\<And>x. rw_bad_words_token_ids (swap_sampling_rows i j rw1) x = rw_bad_words_token_ids (ib_rows s) (?p x)"
    by (rule swap_rows_ok) (rule that; assumption)
  define s' where "s' = s\<lparr>req_ids := swap_at i j (req_ids s), req_output_token_ids := swap_at i j (req_output_token_ids s),
      req_id_to_index := AList.update b i (AList.update a j (req_id_to_index s)), ib_rows := swap_sampling_rows i j rw1,
      builder := (builder s)\<lparr>bu_moved := bu_moved (builder s) @ [(i, j, SWAP)]\<rparr>\<rparr>"
  have ma: "map_of (req_id_to_index s) a = Some i" and mb: "map_of (req_id_to_index s) b = Some j" using i j d(2) by auto
  have run: "swap_states i j s = Inr s'"
    using i j np by (simp add: swap_states_def index_py_def lookup_py_def ma mb m Let_def s'_def)
  have nth: "swap_at i j (req_ids s) ! x = req_ids s ! ?p x" if "x < length (req_ids s)" for x
    using that i j by (auto simp: swap_at_def nth_list_update)
  have p: "?p (?p x) = x" "?p x < length (req_ids s) \<longleftrightarrow> x < length (req_ids s)" for x using i j by auto
  have ix': "index_ok s'"
    unfolding index_ok_def
  proof (intro conjI allI)
    show "distinct (map fst (req_id_to_index s'))" using d(1) by (simp add: s'_def distinct_update)
    show "map_of (req_id_to_index s') q = Some x \<longleftrightarrow> x < length (req_ids s') \<and> req_ids s' ! x = Some q" for q x
    proof -
      have "map_of (req_id_to_index s') q = Some x \<longleftrightarrow> map_of (req_id_to_index s) q = Some (?p x)"
      proof -
        have "map_of (req_id_to_index s) q \<noteq> Some i" "map_of (req_id_to_index s) q \<noteq> Some j" if "q \<noteq> a" "q \<noteq> b"
          using d(2)[of q i] d(2)[of q j] i(2) j(2) that by simp_all
        moreover have "a = b \<Longrightarrow> i = j" using ma mb by simp
        ultimately show ?thesis using ma mb by (simp add: s'_def update_conv')
      qed
      also have "\<dots> \<longleftrightarrow> x < length (req_ids s) \<and> req_ids s ! ?p x = Some q" using d(2)[of q "?p x"] p(2)[of x] by blast
      finally show ?thesis using nth[of x] by (auto simp: s'_def swap_at_def)
    qed
  qed (use d in \<open>simp_all add: s'_def swap_at_def\<close>)
  have lv: "live s' x \<longleftrightarrow> live s (?p x)" for x
  proof -
    have "live s' x \<longleftrightarrow> x < length (req_ids s) \<and> swap_at i j (req_ids s) ! x \<noteq> None" by (simp add: live_def s'_def swap_at_def)
    then show ?thesis using nth[of x] p(2)[of x] unfolding live_def by (metis (no_types, lifting))
  qed
  have k': "keys_ok s'" using k lv unfolding keys_ok_def by (simp add: s'_def gen bad)
  have bo: "batch_of s' = batch_of s"
  proof (rule batch_of_eqI[OF ix ix'])
    fix q x assume q: "x < length (req_ids s)" "req_ids s ! x = Some q"
    then have "?p x < length (req_ids s)" using p(2) by blast
    then show "\<exists>y < length (req_ids s'). req_ids s' ! y = Some q \<and> row_of (ib_rows s') y = row_of (ib_rows s) x"
      using nth[of "?p x"] row[of "?p x"] q d(4) unfolding p(1)[of x] by (auto simp: s'_def swap_at_def)
  next
    fix q x assume "x < length (req_ids s')" "req_ids s' ! x = Some q"
    then have "x < length (req_ids s)" "req_ids s ! ?p x = Some q" using nth[of x] by (simp_all add: s'_def swap_at_def)
    then show "Some q \<in> set (req_ids s)" using p(2)[of x] by (metis nth_mem)
  qed
  have tb: "map max_num_blocks_per_req (rw_block_table rw1) = map max_num_blocks_per_req (rw_block_table (ib_rows s))"
    and mk: "allowed_token_ids_mask rw1 = allowed_token_ids_mask (ib_rows s)" "needs_token_ids rw1 = needs_token_ids (ib_rows s)"
    using m mg_op_width(3) by (auto simp: swap_token_rows_def)
  show thesis
    by (rule that[OF run _ _ bo])
      (use np ix' rk' k' tb mk in \<open>auto simp: base_ok_def same_rest_def s'_def swap_sampling_rows_def\<close>)
qed

section \<open>Adding a request\<close>

text \<open>A request of a text model that fits the arrays, and the row it gets.\<close>

definition request_fits :: "input_batch \<Rightarrow> cached_request_state \<Rightarrow> bool" where
  "request_fits s r \<longleftrightarrow> (case (cr_prompt_token_ids r, cr_sampling_params r) of
     (Some ts, Some p) \<Rightarrow>
       (case cr_prompt_embeds r of None \<Rightarrow> True | Some (_, n) \<Rightarrow> n = length ts) \<and>
       length ts + length (cr_output_token_ids r) \<le> ib_max_model_len s \<and>
       list_all2 (\<lambda>ids w. length ids \<le> w) (cr_block_ids r) (map max_num_blocks_per_req (rw_block_table (ib_rows s))) \<and>
       (case bp_allowed_token_ids p of None \<Rightarrow> True | Some ids \<Rightarrow> \<forall>t \<in> set ids. - int (vocab_size s) \<le> t \<and> t < int (vocab_size s)) \<and>
       (case cr_lora_request r of None \<Rightarrow> True | Some l \<Rightarrow> lora_int_id l \<noteq> 0)
   | _ \<Rightarrow> False)"

definition lora_of :: "cached_request_state \<Rightarrow> int" where
  "lora_of r = (case cr_lora_request r of None \<Rightarrow> 0 | Some l \<Rightarrow> lora_int_id l)"

definition new_row :: "nat \<Rightarrow> cached_request_state \<Rightarrow> request_row" where
  "new_row vocab r =
     (let p = the (cr_sampling_params r); tokens = the (cr_prompt_token_ids r) @ cr_output_token_ids r in
      \<lparr>v_tokens = tokens, v_flags = replicate (length tokens) True, v_num_tokens = length tokens, v_no_spec = length tokens,
       v_prompt = length (the (cr_prompt_token_ids r)), v_computed = cr_num_computed_tokens r, v_blocks = cr_block_ids r,
       v_lora = lora_of r, v_temperature = (if sampling_type_of p = GREEDY then 0 else bp_temperature p), v_top_p = bp_top_p p,
       v_top_k = (if 0 < bp_top_k p \<and> bp_top_k p < int vocab then bp_top_k p else int vocab),
       v_frequency = bp_frequency_penalty p, v_presence = bp_presence_penalty p, v_repetition = bp_repetition_penalty p,
       v_accepted = 1, v_generator = cr_generator r,
       v_bad_words = (case bp_bad_words_token_ids p of Some (w # ws) \<Rightarrow> Some (w # ws) | _ \<Rightarrow> None)\<rparr>)"

definition new_options :: "bool \<Rightarrow> nat \<Rightarrow> cached_request_state \<Rightarrow> request_options" where
  "new_options spec vocab r =
     (let p = the (cr_sampling_params r); count = map_option (\<lambda>k. if k = -1 then int vocab else k) in
      \<lparr>o_logprobs = count (bp_logprobs p), o_prompt_logprobs = count (bp_prompt_logprobs p),
       o_spec_unsupported = (spec \<and> is_spec_decode_unsupported p), o_restricted = wants_allowed p\<rparr>)"

lemma add_options:
  assumes "options_in st (cr_req_id r) = no_options" "cr_sampling_params r = Some p"
  shows "options_in (add_sampling_sets spec vocab (cr_req_id r) p st) q = (if q = cr_req_id r then new_options spec vocab r else options_in st q)"
  using assms by (auto simp: options_in_def no_options_def new_options_def add_sampling_sets_def insert_if_def update_conv' Let_def split: option.splits)

definition add_id :: "nat \<Rightarrow> 'a \<Rightarrow> 'a option list \<Rightarrow> 'a option list" where
  "add_id i x xs = (if i = length xs then xs @ [Some x] else xs[i := Some x])"

lemma add_id_nth: "i \<le> length xs \<Longrightarrow> j < length (add_id i x xs) \<longleftrightarrow> j = i \<or> j < length xs"
  "i \<le> length xs \<Longrightarrow> j < length (add_id i x xs) \<Longrightarrow> add_id i x xs ! j = (if j = i then Some x else xs ! j)"
  by (auto simp: add_id_def nth_append nth_list_update)

lemma register_ok:
  assumes ix: "index_ok s" and bok: "builder_ok s" and room: "num_reqs s < max_num_reqs s"
  obtains i b where "register_add_request r s = Inr (i, s\<lparr>builder := b\<rparr>)" "i \<le> length (req_ids s)" "i < max_num_reqs s"
    "\<not> live s i" "ids_ok (bu_removed b) (s\<lparr>req_ids := add_id i x (req_ids s)\<rparr>)" "is_removed_sorted b \<longrightarrow> sorted (rev (bu_removed b))"
proof (cases "bu_removed (builder s) = []")
  case True
  let ?added = "bu_added (builder s) @ (case cr_sampling_params r of None \<Rightarrow> [] | Some p \<Rightarrow> [(num_reqs s, p, cr_prompt_token_ids r, cr_req_id r)])"
  have len: "num_reqs s = length (req_ids s)" using ids_ok_length[OF ix] bok True unfolding builder_ok_def by fastforce
  have full: "\<forall>j < length (req_ids s). req_ids s ! j \<noteq> None" using bok True by (auto simp: builder_ok_def ids_ok_def)
  show thesis
    by (rule that[of "num_reqs s" "(builder s)\<lparr>batch_changed := True, bu_added := ?added\<rparr>"])
      (use True room len full in \<open>auto simp: register_add_request_def pop_removed_def has_removed_def Let_def ids_ok_def live_def
          add_id_def nth_append cong: option.case_cong\<close>)
next
  case False
  let ?b = "ensure_removed_sorted (builder s)" let ?R = "bu_removed ?b"
  note b = ensure_sorted_ok[OF bok]
  have ne: "?R \<noteq> []" using b(4) False by (metis length_0_conv)
  let ?i = "last ?R"
  let ?added = "bu_added (builder s) @ (case cr_sampling_params r of None \<Rightarrow> [] | Some p \<Rightarrow> [(?i, p, cr_prompt_token_ids r, cr_req_id r)])"
  have sets: "set ?R = {j. j < length (req_ids s) \<and> req_ids s ! j = None}" "distinct ?R" using b(3) by (auto simp: ids_ok_def)
  have i: "?i < length (req_ids s)" "req_ids s ! ?i = None" using last_in_set[OF ne] unfolding sets by auto
  have bl: "set (butlast ?R) = set ?R - {?i}" "distinct (butlast ?R)" "sorted (rev (butlast ?R))"
    using ne sets(2) b(2) sorted_rev_butlast by (cases ?R rule: rev_cases; auto)+
  have keep: "bu_added ?b = bu_added (builder s)" by (simp add: ensure_removed_sorted_def)
  show thesis
  proof (rule that[of ?i "?b\<lparr>bu_removed := butlast ?R, batch_changed := True, bu_added := ?added\<rparr>"])
    show "register_add_request r s = Inr (?i, s\<lparr>builder := ?b\<lparr>bu_removed := butlast ?R, batch_changed := True, bu_added := ?added\<rparr>\<rparr>)"
      using False i index_okD(4)[OF ix] by (simp add: register_add_request_def pop_removed_def has_removed_def Let_def keep cong: option.case_cong)
    show "ids_ok (bu_removed (?b\<lparr>bu_removed := butlast ?R, batch_changed := True, bu_added := ?added\<rparr>)) (s\<lparr>req_ids := add_id ?i x (req_ids s)\<rparr>)"
      using bl sets i by (auto simp: ids_ok_def add_id_def nth_list_update)
  qed (use i bl index_okD(4)[OF ix] in \<open>auto simp: live_def\<close>)
qed

lemma take_fill_slice:
  assumes "a + b \<le> length row"
  shows "take (a + b) (fill_slice a (a + b) v (fill_slice 0 a v row)) = replicate (a + b) v"
    "length (fill_slice a (a + b) v (fill_slice 0 a v row)) = length row"
  using assms by (auto simp: fill_slice_def replicate_add min_def max_def)

text \<open>The rows after the tokens of a request have been written, and after the whole request has been added.\<close>

definition token_rows :: "nat \<Rightarrow> cached_request_state \<Rightarrow> int list \<Rightarrow> (nat \<rightharpoonup> nat \<times> nat) \<Rightarrow> multi_group_block_table \<Rightarrow> input_rows \<Rightarrow> input_rows" where
  "token_rows i r ts embeds bts rw =
     (let n = length ts + length (cr_output_token_ids r) in
      rw\<lparr>rw_num_prompt_tokens := (rw_num_prompt_tokens rw)[i := length ts],
         token_ids_cpu := (token_ids_cpu rw)[i := ts @ cr_output_token_ids r @ drop n (token_ids_cpu rw ! i)],
         is_token_ids := (is_token_ids rw)[i := fill_slice (length ts) n True (fill_slice 0 (length ts) True (is_token_ids rw ! i))],
         req_prompt_embeds := embeds, rw_num_tokens := (rw_num_tokens rw)[i := n], num_tokens_no_spec := (num_tokens_no_spec rw)[i := n],
         num_computed_tokens_cpu := (num_computed_tokens_cpu rw)[i := cr_num_computed_tokens r], rw_block_table := bts\<rparr>)"

definition added_rows :: "nat \<Rightarrow> nat \<Rightarrow> cached_request_state \<Rightarrow> int list \<Rightarrow> batch_sampling_params \<Rightarrow> (nat \<rightharpoonup> nat \<times> nat) \<Rightarrow>
    multi_group_block_table \<Rightarrow> bool list list option \<Rightarrow> input_rows \<Rightarrow> input_rows" where
  "added_rows vocab i r ts p embeds bts M rw =
     (add_sampling_rows vocab i p (cr_generator r) (token_rows i r ts embeds bts rw))
       \<lparr>allowed_token_ids_mask := M, num_accepted_tokens_cpu := (num_accepted_tokens_cpu rw)[i := 1],
        request_lora_mapping := (request_lora_mapping rw)[i := lora_of r]\<rparr>"

lemma add_tokens_ok:
  assumes ok: "rows_ok n len rw" and i: "i < n" and p: "cr_prompt_token_ids r = Some ts"
    and e: "case cr_prompt_embeds r of None \<Rightarrow> True | Some (_, k) \<Rightarrow> k = length ts"
    and fits: "length ts + length (cr_output_token_ids r) \<le> len"
      "list_all2 (\<lambda>ids w. length ids \<le> w) (cr_block_ids r) (map max_num_blocks_per_req (rw_block_table rw))"
  obtains embeds bts where "mg_add_row (cr_block_ids r) i (rw_block_table rw) = Inr bts"
    "add_tokens i r rw = Inr (token_rows i r ts embeds bts rw)"
    "tables_ok n bts" "\<And>j. j < n \<Longrightarrow> group_blocks bts j = (if j = i then cr_block_ids r else group_blocks (rw_block_table rw) j)"
proof -
  note d = rows_okD[OF ok]
  have l: "length_from_prompt_token_ids_or_embeds (cr_prompt_token_ids r) (map_option snd (cr_prompt_embeds r)) = Inr (length ts)"
    using e by (auto simp: length_from_prompt_token_ids_or_embeds_def p split: option.splits)
  from mg_add_row_ok[OF d(7) i, of "cr_block_ids r"] fits(2) obtain bts where
    bts: "mg_add_row (cr_block_ids r) i (rw_block_table rw) = Inr bts" "tables_ok n bts"
      "\<forall>j<n. group_blocks bts j = (if j = i then cr_block_ids r else group_blocks (rw_block_table rw) j)"
    by (auto simp: list_all2_conv_all_nth)
  have s1: "put_slice (token_ids_cpu rw ! i) 0 ts = Inr (ts @ drop (length ts) (token_ids_cpu rw ! i))"
    using fits(1) d(16)[OF i] by (simp add: put_slice_def)
  have s2: "put_slice (ts @ drop (length ts) (token_ids_cpu rw ! i)) (length ts) (cr_output_token_ids r) =
      Inr (ts @ cr_output_token_ids r @ drop (length ts + length (cr_output_token_ids r)) (token_ids_cpu rw ! i))"
    using fits(1) d(16)[OF i] by (simp add: put_slice_def add.commute)
  show thesis
    by (rule that[OF bts(1), of "case cr_prompt_embeds r of None \<Rightarrow> req_prompt_embeds rw | Some e \<Rightarrow> (req_prompt_embeds rw)(i \<mapsto> e)"])
      (use bts in \<open>auto simp: add_tokens_def token_rows_def l[unfolded p] p s1 s2 Let_def\<close>)
qed

lemma add_allowed_eq:
  assumes ids: "case bp_allowed_token_ids p of None \<Rightarrow> True | Some ids \<Rightarrow> \<forall>t \<in> set ids. - int (vocab_size s) \<le> t \<and> t < int (vocab_size s)"
    and m: "allowed_token_ids_mask (ib_rows s) = None \<longleftrightarrow> allowed_token_ids_mask_gpu (ib_device s) = None"
  obtains M G where "add_allowed i p s = Inr (s\<lparr>ib_rows := (ib_rows s)\<lparr>allowed_token_ids_mask := M\<rparr>,
      ib_device := (ib_device s)\<lparr>allowed_token_ids_mask_gpu := G\<rparr>\<rparr>)"
    "M = None \<longleftrightarrow> G = None" "wants_allowed p \<or> allowed_token_ids_mask (ib_rows s) \<noteq> None \<Longrightarrow> M \<noteq> None"
proof (cases "wants_allowed p")
  case False
  then show thesis
    by (intro that[where M = "allowed_token_ids_mask (ib_rows s)" and G = "allowed_token_ids_mask_gpu (ib_device s)"]) (use m in \<open>auto simp: add_allowed_def\<close>)
next
  case True
  then obtain t0 ids where "bp_allowed_token_ids p = Some (t0 # ids)"
    by (auto simp: wants_allowed_def neq_Nil_conv)
  then obtain row where row: "allowed_row (vocab_size s) (the (bp_allowed_token_ids p)) = Inr row"
    using ids by (auto simp: allowed_row_def)
  let ?zeros = "replicate (max_num_reqs s) (replicate (vocab_size s) False)"
  show thesis
  proof (cases "allowed_token_ids_mask (ib_rows s)")
    case None
    then show thesis
      by (intro that[where M = "Some (?zeros[i := row])" and G = "Some ?zeros"]) (use True row in \<open>auto simp: add_allowed_def Let_def\<close>)
  next
    case (Some m0)
    then show thesis
      by (intro that[where M = "Some (m0[i := row])" and G = "allowed_token_ids_mask_gpu (ib_device s)"])
        (use True row m in \<open>auto simp: add_allowed_def Let_def\<close>)
  qed
qed

lemma add_sets_ok:
  assumes "sampling_sets_ok vocab st m" "m r = None" "v_temperature v = (if sampling_type_of p = GREEDY then 0 else bp_temperature p)"
    "v_top_p v = bp_top_p p" "v_top_k v = (if 0 < bp_top_k p \<and> bp_top_k p < int vocab then bp_top_k p else int vocab)"
    "v_frequency v = bp_frequency_penalty p" "v_presence v = bp_presence_penalty p" "v_repetition v = bp_repetition_penalty p"
  shows "sampling_sets_ok vocab (add_sampling_sets spec vocab r p st) (m(r \<mapsto> v))"
proof -
  have t: "v_temperature v = 0 \<longleftrightarrow> sampling_type_of p = GREEDY"
    using assms(3) by (auto simp: sampling_type_of_def SAMPLING_EPS_def split: if_splits)
  have k: "v_top_k v \<noteq> int vocab \<longleftrightarrow> 0 < bp_top_k p \<and> bp_top_k p < int vocab" using assms(5) by auto
  show ?thesis
    using assms(1) unfolding sampling_sets_ok_def add_sampling_sets_def
    by (simp add: sel_upd(2)[of m r, OF assms(2)] t k assms(4,6-8))
qed

lemma add_lora_ok:
  assumes l: "lora_ok (ib_sets s) m" and r: "m (cr_req_id r) = None" "v_lora v = lora_of r"
    and nz: "case cr_lora_request r of None \<Rightarrow> True | Some l \<Rightarrow> lora_int_id l \<noteq> 0"
  obtains st where "add_lora i r s = s\<lparr>ib_sets := st,
      ib_rows := (ib_rows s)\<lparr>request_lora_mapping := (request_lora_mapping (ib_rows s))[i := lora_of r]\<rparr>\<rparr>"
    "lora_ok st (m(cr_req_id r \<mapsto> v))" "\<And>vocab m. sampling_sets_ok vocab st m = sampling_sets_ok vocab (ib_sets s) m"
    "has_allowed_token_ids st = has_allowed_token_ids (ib_sets s)" "num_logprobs st = num_logprobs (ib_sets s)"
    "options_in st = options_in (ib_sets s)"
proof (cases "cr_lora_request r")
  case None
  have "sel (\<lambda>v. v_lora v = L) (m(cr_req_id r \<mapsto> v)) = sel (\<lambda>v. v_lora v = L) m" if "L \<noteq> 0" for L
    using that None r by (auto simp: sel_def lora_of_def)
  then have "lora_ok (ib_sets s) (m(cr_req_id r \<mapsto> v))" using l unfolding lora_ok_def by (auto simp: Let_def)
  then show thesis by (intro that[of "ib_sets s"]) (auto simp: add_lora_def None lora_of_def)
next
  case (Some lr)
  let ?L = "lora_int_id lr" and ?q = "cr_req_id r" and ?st = "ib_sets s"
  let ?A = "sel (\<lambda>v. v_lora v = ?L) m"
  have nz': "?L \<noteq> 0" "lora_of r = ?L" using nz Some by (auto simp: lora_of_def)
  have ids: "(case lora_id_to_request_ids ?st ?L of None \<Rightarrow> {} | Some A \<Rightarrow> A) = ?A"
    using l nz' unfolding lora_ok_def by (auto simp: Let_def)
  have other: "sel (\<lambda>v. v_lora v = L) (m(?q \<mapsto> v)) = (if L = ?L then insert ?q ?A else sel (\<lambda>v. v_lora v = L) m)" for L
    using r nz' by (auto simp: sel_def)
  define st where "st = ?st\<lparr>lora_id_to_request_ids := (lora_id_to_request_ids ?st)(?L \<mapsto> insert ?q ?A),
      lora_id_to_lora_request := AList.update ?L lr (lora_id_to_lora_request ?st)\<rparr>"
  show thesis
  proof (rule that[of st])
    show "add_lora i r s = s\<lparr>ib_sets := st,
      ib_rows := (ib_rows s)\<lparr>request_lora_mapping := (request_lora_mapping (ib_rows s))[i := lora_of r]\<rparr>\<rparr>"
      by (simp add: add_lora_def Some Let_def ids nz' st_def)
    have "lora_id_to_request_ids st L = (let A = sel (\<lambda>v. v_lora v = L) (m(?q \<mapsto> v)) in if L = 0 \<or> A = {} then None else Some A)" for L
      using l nz' unfolding lora_ok_def by (auto simp: Let_def other st_def)
    moreover have "map_of (lora_id_to_lora_request st) L = None \<longleftrightarrow> lora_id_to_request_ids st L = None" for L
      using l unfolding lora_ok_def by (auto simp: st_def update_conv')
    ultimately show "lora_ok st (m(?q \<mapsto> v))" unfolding lora_ok_def by blast
  qed (auto simp: st_def sampling_sets_ok_def options_in_def[abs_def])
qed

lemma added_rows_ok:
  fixes vocab embeds M
  assumes ok: "rows_ok n l rw" and i: "i < n" and ts: "cr_prompt_token_ids r = Some ts" and p: "cr_sampling_params r = Some p"
    and len: "length ts + length (cr_output_token_ids r) \<le> l"
    and tb: "tables_ok n bts" and gb: "\<And>j. j < n \<Longrightarrow> group_blocks bts j = (if j = i then cr_block_ids r else group_blocks (rw_block_table rw) j)"
    and free: "rw_generators rw i = None" "rw_bad_words_token_ids rw i = None"
  defines "rw' \<equiv> added_rows vocab i r ts p embeds bts M rw"
  shows "rows_ok n l rw'" "row_of rw' i = new_row vocab r" "\<And>j. j \<noteq> i \<Longrightarrow> j < n \<Longrightarrow> row_of rw' j = row_of rw j"
    "\<And>j. rw_generators rw' j \<noteq> None \<or> rw_bad_words_token_ids rw' j \<noteq> None \<Longrightarrow> j \<noteq> i \<Longrightarrow>
      rw_generators rw j \<noteq> None \<or> rw_bad_words_token_ids rw j \<noteq> None"
    "allowed_token_ids_mask rw' = M" "needs_token_ids rw' = needs_token_ids rw" "rw_block_table rw' = bts"
proof -
  note rd = rows_okD[OF ok]
  have len': "length ts \<le> l" using len by simp
  note defs = rw'_def added_rows_def add_sampling_rows_def token_rows_def Let_def
  show "rows_ok n l rw'"
    unfolding defs rows_ok_def by (intro conjI allI impI) (simp_all add: rd i tb nth_list_update len len' take_fill_slice(2))
  show "row_of rw' i = new_row vocab r"
    unfolding defs row_of_def new_row_def
    by (simp add: rd i ts p gb[OF i] take_fill_slice(1) len free split: option.split list.split)
  show "row_of rw' j = row_of rw j" if "j \<noteq> i" "j < n" for j
    unfolding defs row_of_def using that gb[OF that(2)] by (simp split: option.split list.split)
  show "rw_generators rw j \<noteq> None \<or> rw_bad_words_token_ids rw j \<noteq> None"
    if "rw_generators rw' j \<noteq> None \<or> rw_bad_words_token_ids rw' j \<noteq> None" "j \<noteq> i" for j
    using that by (auto simp: defs split: option.splits list.splits)
qed (simp_all add: rw'_def added_rows_def add_sampling_rows_def token_rows_def Let_def)

lemma request_fitsD:
  assumes "request_fits s r"
  obtains ts p where "cr_prompt_token_ids r = Some ts" "cr_sampling_params r = Some p"
    "case cr_prompt_embeds r of None \<Rightarrow> True | Some (_, n) \<Rightarrow> n = length ts"
    "length ts + length (cr_output_token_ids r) \<le> ib_max_model_len s"
    "list_all2 (\<lambda>ids w. length ids \<le> w) (cr_block_ids r) (map max_num_blocks_per_req (rw_block_table (ib_rows s)))"
    "case bp_allowed_token_ids p of None \<Rightarrow> True | Some ids \<Rightarrow> \<forall>t \<in> set ids. - int (vocab_size s) \<le> t \<and> t < int (vocab_size s)"
    "case cr_lora_request r of None \<Rightarrow> True | Some l \<Rightarrow> lora_int_id l \<noteq> 0"
  using assms by (auto simp: request_fits_def split: option.splits)

text \<open>What adding a request computes.\<close>

lemma add_request_run:
  assumes rk: "rows_ok (max_num_reqs s) (ib_max_model_len s) (ib_rows s)" and lo: "lora_ok (ib_sets s) (batch_of s)" and mk: "mask_ok s"
    and out: "req_output_token_ids s = req_ids s" and fresh: "batch_of s (cr_req_id r) = None"
    and reg: "register_add_request r s = Inr (i, s\<lparr>builder := b\<rparr>)" and i: "i \<le> length (req_ids s)" "i < max_num_reqs s"
    and ts: "cr_prompt_token_ids r = Some ts" and p: "cr_sampling_params r = Some p"
    and em: "case cr_prompt_embeds r of None \<Rightarrow> True | Some (_, n) \<Rightarrow> n = length ts"
    and len: "length ts + length (cr_output_token_ids r) \<le> ib_max_model_len s"
    and bl: "list_all2 (\<lambda>ids w. length ids \<le> w) (cr_block_ids r) (map max_num_blocks_per_req (rw_block_table (ib_rows s)))"
    and al: "case bp_allowed_token_ids p of None \<Rightarrow> True | Some ids \<Rightarrow> \<forall>t \<in> set ids. - int (vocab_size s) \<le> t \<and> t < int (vocab_size s)"
    and nz: "case cr_lora_request r of None \<Rightarrow> True | Some l \<Rightarrow> lora_int_id l \<noteq> 0"
  obtains sts M G embeds bts where "ib_add_request r s = Inr (i, s\<lparr>builder := b, req_ids := add_id i (cr_req_id r) (req_ids s),
        req_output_token_ids := add_id i (cr_req_id r) (req_ids s), req_id_to_index := AList.update (cr_req_id r) i (req_id_to_index s),
        ib_sets := sts, ib_rows := added_rows (vocab_size s) i r ts p embeds bts M (ib_rows s),
        ib_device := (ib_device s)\<lparr>allowed_token_ids_mask_gpu := G\<rparr>\<rparr>)"
    "mg_add_row (cr_block_ids r) i (rw_block_table (ib_rows s)) = Inr bts" "tables_ok (max_num_reqs s) bts"
    "\<And>j. j < max_num_reqs s \<Longrightarrow> group_blocks bts j = (if j = i then cr_block_ids r else group_blocks (rw_block_table (ib_rows s)) j)"
    "M = None \<longleftrightarrow> G = None" "has_allowed_token_ids sts \<noteq> {} \<Longrightarrow> M \<noteq> None"
    "lora_ok sts ((batch_of s)(cr_req_id r \<mapsto> new_row (vocab_size s) r))"
    "\<And>m. sampling_sets_ok (vocab_size s) sts m =
      sampling_sets_ok (vocab_size s) (add_sampling_sets (is_spec_decode s) (vocab_size s) (cr_req_id r) p (ib_sets s)) m"
    "num_logprobs sts = num_logprobs (add_sampling_sets (is_spec_decode s) (vocab_size s) (cr_req_id r) p (ib_sets s))"
    "options_in sts = options_in (add_sampling_sets (is_spec_decode s) (vocab_size s) (cr_req_id r) p (ib_sets s))"
proof -
  let ?q = "cr_req_id r" let ?v = "new_row (vocab_size s) r"
  let ?st = "add_sampling_sets (is_spec_decode s) (vocab_size s) ?q p (ib_sets s)"
  define s2 where "s2 = s\<lparr>builder := b, req_ids := add_id i ?q (req_ids s), req_output_token_ids := add_id i ?q (req_ids s),
      req_id_to_index := AList.update ?q i (req_id_to_index s)\<rparr>"
  have place: "place_id i ?q (s\<lparr>builder := b\<rparr>) = Inr s2" using i by (simp add: place_id_def s2_def add_id_def out)
  obtain embeds bts where mg: "mg_add_row (cr_block_ids r) i (rw_block_table (ib_rows s)) = Inr bts"
    and tk: "add_tokens i r (ib_rows s) = Inr (token_rows i r ts embeds bts (ib_rows s))" and tb: "tables_ok (max_num_reqs s) bts"
    and gb: "\<And>j. j < max_num_reqs s \<Longrightarrow> group_blocks bts j = (if j = i then cr_block_ids r else group_blocks (rw_block_table (ib_rows s)) j)"
    by (rule add_tokens_ok[OF rk i(2) ts em len bl]) (rule that; assumption)
  define rw2 where "rw2 = add_sampling_rows (vocab_size s) i p (cr_generator r) (token_rows i r ts embeds bts (ib_rows s))"
  define s3 where "s3 = s2\<lparr>ib_rows := rw2, ib_sets := ?st\<rparr>"
  have sel3: "vocab_size s3 = vocab_size s" "ib_rows s3 = rw2" "ib_device s3 = ib_device s" "ib_sets s3 = ?st"
    by (simp_all add: s3_def s2_def)
  have keep: "allowed_token_ids_mask rw2 = allowed_token_ids_mask (ib_rows s)" "num_accepted_tokens_cpu rw2 = num_accepted_tokens_cpu (ib_rows s)"
    "request_lora_mapping rw2 = request_lora_mapping (ib_rows s)"
    by (simp_all add: rw2_def token_rows_def Let_def add_sampling_rows_def)
  have m3: "allowed_token_ids_mask (ib_rows s3) = None \<longleftrightarrow> allowed_token_ids_mask_gpu (ib_device s3) = None"
    using mk by (simp add: mask_ok_def sel3 keep)
  obtain M G where alw: "add_allowed i p s3 = Inr (s3\<lparr>ib_rows := rw2\<lparr>allowed_token_ids_mask := M\<rparr>,
      ib_device := (ib_device s)\<lparr>allowed_token_ids_mask_gpu := G\<rparr>\<rparr>)"
    and MG: "M = None \<longleftrightarrow> G = None" "wants_allowed p \<or> allowed_token_ids_mask (ib_rows s) \<noteq> None \<Longrightarrow> M \<noteq> None"
    by (rule add_allowed_eq[OF al[folded sel3(1)] m3, where i = i, unfolded sel3(2,3) keep(1)]) (rule that; assumption)
  define s4 where "s4 = s3\<lparr>ib_rows := rw2\<lparr>allowed_token_ids_mask := M, num_accepted_tokens_cpu := (num_accepted_tokens_cpu (ib_rows s))[i := 1]\<rparr>,
      ib_device := (ib_device s)\<lparr>allowed_token_ids_mask_gpu := G\<rparr>\<rparr>"
  have sets4: "ib_sets s4 = ?st" by (simp add: s4_def sel3)
  have lo4: "lora_ok (ib_sets s4) (batch_of s)" using lo by (simp add: lora_ok_def sets4 add_sampling_sets_def)
  have vl: "v_lora ?v = lora_of r" by (simp add: new_row_def Let_def)
  obtain sts where lor: "add_lora i r s4 = s4\<lparr>ib_sets := sts,
      ib_rows := (ib_rows s4)\<lparr>request_lora_mapping := (request_lora_mapping (ib_rows s4))[i := lora_of r]\<rparr>\<rparr>"
    and lo': "lora_ok sts ((batch_of s)(?q \<mapsto> ?v))" and ss: "\<And>vocab m. sampling_sets_ok vocab sts m = sampling_sets_ok vocab (ib_sets s4) m"
    and ha: "has_allowed_token_ids sts = has_allowed_token_ids (ib_sets s4)"
    and on: "num_logprobs sts = num_logprobs (ib_sets s4)" "options_in sts = options_in (ib_sets s4)"
    by (rule add_lora_ok[OF lo4 fresh vl nz]) (rule that; assumption)
  have s2: "ib_rows s2 = ib_rows s" "add_params i r (s2\<lparr>ib_rows := token_rows i r ts embeds bts (ib_rows s)\<rparr>) = add_allowed i p s3"
    by (simp_all add: s3_def s2_def add_params_def p rw2_def)
  have step: "(s3\<lparr>ib_rows := rw2\<lparr>allowed_token_ids_mask := M\<rparr>, ib_device := (ib_device s)\<lparr>allowed_token_ids_mask_gpu := G\<rparr>\<rparr>)
      \<lparr>ib_rows := rw2\<lparr>allowed_token_ids_mask := M, num_accepted_tokens_cpu := (num_accepted_tokens_cpu (ib_rows s))[i := 1]\<rparr>\<rparr> = s4"
    by (simp add: s4_def)
  have "ib_add_request r s = Inr (i, add_lora i r s4)"
    unfolding ib_add_request_def reg bnd_simps case_prod_conv place s2 tk alw using step by (simp add: keep)
  moreover have "add_lora i r s4 = s\<lparr>builder := b, req_ids := add_id i ?q (req_ids s), req_output_token_ids := add_id i ?q (req_ids s),
        req_id_to_index := AList.update ?q i (req_id_to_index s), ib_sets := sts,
        ib_rows := added_rows (vocab_size s) i r ts p embeds bts M (ib_rows s), ib_device := (ib_device s)\<lparr>allowed_token_ids_mask_gpu := G\<rparr>\<rparr>"
    unfolding lor by (simp add: s4_def s3_def s2_def added_rows_def keep flip: rw2_def)
  ultimately have run: "ib_add_request r s = Inr (i, s\<lparr>builder := b, req_ids := add_id i ?q (req_ids s), req_output_token_ids := add_id i ?q (req_ids s),
        req_id_to_index := AList.update ?q i (req_id_to_index s), ib_sets := sts,
        ib_rows := added_rows (vocab_size s) i r ts p embeds bts M (ib_rows s), ib_device := (ib_device s)\<lparr>allowed_token_ids_mask_gpu := G\<rparr>\<rparr>)"
    by simp
  have al': "M \<noteq> None" if "has_allowed_token_ids sts \<noteq> {}"
    using that MG(2) mk by (auto simp: ha sets4 add_sampling_sets_def insert_if_def mask_ok_def split: if_splits)
  show thesis by (rule that[OF run mg tb gb MG(1) al' lo']) (simp_all add: ss sets4 on)
qed

lemma add_request_ok:
  assumes inv: "batch_inv s" and bok: "builder_ok s" and fits: "request_fits s r" and room: "num_reqs s < max_num_reqs s"
    and fresh: "batch_of s (cr_req_id r) = None"
  shows "\<exists>i s'. ib_add_request r s = Inr (i, s') \<and> batch_inv s' \<and> builder_ok s' \<and> same_config s s' \<and>
    batch_of s' = (batch_of s)(cr_req_id r \<mapsto> new_row (vocab_size s) r) \<and>
    options_of s' = (options_of s)(cr_req_id r \<mapsto> new_options (is_spec_decode s) (vocab_size s) r)"
proof -
  let ?q = "cr_req_id r" let ?v = "new_row (vocab_size s) r"
  from inv have base: "base_ok s" and lo: "lora_ok (ib_sets s) (batch_of s)" and st: "sampling_sets_ok (vocab_size s) (ib_sets s) (batch_of s)"
    and mk: "mask_ok s" and dv: "device_ok s" and nt: "True \<notin> set (needs_token_ids (ib_rows s))" and op: "opts_ok (ib_sets s) (batch_of s)"
    by (simp_all add: batch_inv_def)
  have ix: "index_ok s" and rk: "rows_ok (max_num_reqs s) (ib_max_model_len s) (ib_rows s)" and ks: "keys_ok s" and np: "\<not> is_pooling_model s"
    using base by (simp_all add: base_ok_def)
  note d = index_okD[OF ix]
  from fits obtain ts p where f: "cr_prompt_token_ids r = Some ts" "cr_sampling_params r = Some p"
    "case cr_prompt_embeds r of None \<Rightarrow> True | Some (_, n) \<Rightarrow> n = length ts"
    "length ts + length (cr_output_token_ids r) \<le> ib_max_model_len s"
    "list_all2 (\<lambda>ids w. length ids \<le> w) (cr_block_ids r) (map max_num_blocks_per_req (rw_block_table (ib_rows s)))"
    "case bp_allowed_token_ids p of None \<Rightarrow> True | Some ids \<Rightarrow> \<forall>t \<in> set ids. - int (vocab_size s) \<le> t \<and> t < int (vocab_size s)"
    "case cr_lora_request r of None \<Rightarrow> True | Some l \<Rightarrow> lora_int_id l \<noteq> 0" by (rule request_fitsD)
  obtain i b where reg: "register_add_request r s = Inr (i, s\<lparr>builder := b\<rparr>)" and i: "i \<le> length (req_ids s)" "i < max_num_reqs s" "\<not> live s i"
    and b: "ids_ok (bu_removed b) (s\<lparr>req_ids := add_id i ?q (req_ids s)\<rparr>)" "is_removed_sorted b \<longrightarrow> sorted (rev (bu_removed b))"
    by (rule register_ok[OF ix bok room, where x = ?q and r = r]) (rule that; assumption)
  obtain sts M G embeds bts where run: "ib_add_request r s = Inr (i, s\<lparr>builder := b, req_ids := add_id i ?q (req_ids s),
        req_output_token_ids := add_id i ?q (req_ids s), req_id_to_index := AList.update ?q i (req_id_to_index s),
        ib_sets := sts, ib_rows := added_rows (vocab_size s) i r ts p embeds bts M (ib_rows s),
        ib_device := (ib_device s)\<lparr>allowed_token_ids_mask_gpu := G\<rparr>\<rparr>)" (is "_ = Inr (i, ?s')")
    and mg: "mg_add_row (cr_block_ids r) i (rw_block_table (ib_rows s)) = Inr bts" and tb: "tables_ok (max_num_reqs s) bts"
    and gb: "\<And>j. j < max_num_reqs s \<Longrightarrow> group_blocks bts j = (if j = i then cr_block_ids r else group_blocks (rw_block_table (ib_rows s)) j)"
    and MG: "M = None \<longleftrightarrow> G = None" "has_allowed_token_ids sts \<noteq> {} \<Longrightarrow> M \<noteq> None"
    and lo': "lora_ok sts ((batch_of s)(?q \<mapsto> ?v))"
    and ss: "\<And>m. sampling_sets_ok (vocab_size s) sts m =
      sampling_sets_ok (vocab_size s) (add_sampling_sets (is_spec_decode s) (vocab_size s) ?q p (ib_sets s)) m"
    and nl: "num_logprobs sts = num_logprobs (add_sampling_sets (is_spec_decode s) (vocab_size s) ?q p (ib_sets s))"
    and oi: "options_in sts = options_in (add_sampling_sets (is_spec_decode s) (vocab_size s) ?q p (ib_sets s))"
    by (rule add_request_run[OF rk lo mk d(3) fresh reg i(1,2) f]) (rule that; assumption)
  have free: "rw_generators (ib_rows s) i = None" "rw_bad_words_token_ids (ib_rows s) i = None"
    using ks i(3) unfolding keys_ok_def by auto
  note ar = added_rows_ok[OF rk i(2) f(1,2,4) tb gb free, where vocab = "vocab_size s" and embeds = embeds and M = M]
  define s' where "s' = ?s'"
  have sel: "req_ids s' = add_id i ?q (req_ids s)" "req_id_to_index s' = AList.update ?q i (req_id_to_index s)"
    "ib_rows s' = added_rows (vocab_size s) i r ts p embeds bts M (ib_rows s)" "ib_sets s' = sts" "builder s' = b" "vocab_size s' = vocab_size s"
    "max_num_reqs s' = max_num_reqs s" "ib_max_model_len s' = ib_max_model_len s" "is_pooling_model s' = is_pooling_model s"
    "req_output_token_ids s' = add_id i ?q (req_ids s)" "ib_device s' = (ib_device s)\<lparr>allowed_token_ids_mask_gpu := G\<rparr>"
    by (simp_all add: s'_def)
  note nth = add_id_nth[OF i(1), where x = ?q]
  have unused: "map_of (req_id_to_index s) ?q = None" using fresh by (simp add: batch_of_def)
  have lv: "j < length (req_ids s) \<and> req_ids s ! j = Some x \<Longrightarrow> j \<noteq> i" for j x using i(3) by (auto simp: live_def)
  have ix': "index_ok s'"
    unfolding index_ok_def
  proof (intro conjI allI)
    show "distinct (map fst (req_id_to_index s'))" using d(1) by (simp add: sel distinct_update)
    show "map_of (req_id_to_index s') x = Some j \<longleftrightarrow> j < length (req_ids s') \<and> req_ids s' ! j = Some x" for x j
      using d(2)[of x j] d(2)[of ?q j] unused nth[of j] lv[of j x] by (cases "x = ?q"; cases "j = i") (auto simp: sel update_conv')
    show "length (req_ids s') \<le> max_num_reqs s'" using d(4) i by (simp add: sel add_id_def)
  qed (simp add: sel)
  have ks': "keys_ok s'"
  proof -
    have "live s' j" if "rw_generators (ib_rows s') j \<noteq> None \<or> rw_bad_words_token_ids (ib_rows s') j \<noteq> None" for j
    proof (cases "j = i")
      case False
      then have "live s j" using ar(4)[of j] that ks unfolding sel keys_ok_def by blast
      then show ?thesis using nth[of j] False by (auto simp: live_def sel)
    qed (use nth[of i] i in \<open>auto simp: live_def sel\<close>)
    then show ?thesis unfolding keys_ok_def by blast
  qed
  have bo: "batch_of s' = (batch_of s)(?q \<mapsto> ?v)"
  proof
    fix x
    have "j \<noteq> i \<and> j < max_num_reqs s" if "map_of (req_id_to_index s) x = Some j" for j
      using that d(2)[of x j] d(4) lv by auto
    then show "batch_of s' x = ((batch_of s)(?q \<mapsto> ?v)) x"
      using ar(2,3) by (cases "map_of (req_id_to_index s) x") (auto simp: batch_of_def sel update_conv')
  qed
  have "sampling_sets_ok (vocab_size s) sts ((batch_of s)(?q \<mapsto> ?v))"
    unfolding ss using st fresh by (rule add_sets_ok) (simp_all add: new_row_def f Let_def)
  moreover have none: "options_in (ib_sets s) ?q = no_options" using op fresh by (simp add: opts_ok_def)
  note ao = add_options[OF none f(2)]
  have "opts_ok sts ((batch_of s)(?q \<mapsto> ?v))"
    using op unfolding opts_ok_def nl oi ao by (auto simp: add_sampling_sets_def distinct_update split: option.splits)
  moreover have oo: "options_of s' = (options_of s)(?q \<mapsto> new_options (is_spec_decode s) (vocab_size s) r)"
    by (auto simp: options_of_def bo sel oi ao)
  ultimately have "batch_inv s'"
    using ix' ks' ar(1,5,6) np lo' MG dv nt by (auto simp: batch_inv_def base_ok_def mask_ok_def device_ok_def sel bo)
  moreover have "builder_ok s'" using b by (simp add: builder_ok_def ids_ok_def sel)
  moreover have "same_config s s'" using mg_op_width(1)[OF mg] by (simp add: same_config_def sel ar(7)) (simp add: s'_def)
  ultimately show ?thesis using run bo oo unfolding s'_def by blast
qed

section \<open>The metadata of the sampler\<close>

definition rows_in_order :: "input_batch \<Rightarrow> request_row list" where
  "rows_in_order s = map (row_of (ib_rows s)) [0..<num_reqs s]"

text \<open>A parameter left out of the metadata is neutral for every request; one that is there lists the values of the requests
  in the order of the batch.\<close>

definition param_for :: "(request_row \<Rightarrow> 'a) \<Rightarrow> (request_row \<Rightarrow> bool) \<Rightarrow> request_row list \<Rightarrow> 'a list option \<Rightarrow> bool" where
  "param_for f neutral rows x \<longleftrightarrow> (case x of None \<Rightarrow> \<forall>v \<in> set rows. neutral v | Some xs \<Rightarrow> xs = map f rows)"

definition neutral_penalties :: "request_row \<Rightarrow> bool" where
  "neutral_penalties v \<longleftrightarrow> v_frequency v = 0 \<and> v_presence v = 0 \<and> v_repetition v = 1"

definition prompt_row_for :: "nat \<Rightarrow> request_row \<Rightarrow> int list \<Rightarrow> bool" where
  "prompt_row_for vocab v ts \<longleftrightarrow> v_prompt v \<le> length ts \<and> (\<forall>t \<in> set (drop (v_prompt v) ts). t = int vocab) \<and>
     (v_prompt v \<le> v_num_tokens v \<longrightarrow> take (v_prompt v) ts = take (v_prompt v) (v_tokens v))"

definition max_option :: "int set \<Rightarrow> int option" where
  "max_option A = (if A = {} then None else Some (Max A))"

text \<open>The metadata for the requests \<open>ids\<close> with their rows, in the order of the batch, and their options. The output tokens of a
  request are referred to by its id. Of the mask of allowed tokens only its presence is claimed.\<close>

definition metadata_for :: "nat \<Rightarrow> string option list \<Rightarrow> request_row list \<Rightarrow> (string \<rightharpoonup> request_options) \<Rightarrow> batch_sampling_metadata \<Rightarrow> bool" where
  "metadata_for vocab ids rows opts m \<longleftrightarrow>
     sm_output_token_ids m = ids \<and>
     (\<forall>i. sm_generators m i = (if i < length rows then v_generator (rows ! i) else None)) \<and>
     (\<forall>i. sm_bad_words_token_ids m i = (if i < length rows then v_bad_words (rows ! i) else None)) \<and>
     sm_max_num_logprobs m = max_option {k. \<exists>v \<in> ran opts. o_logprobs v = Some k} \<and>
     (sm_allowed_token_ids_mask m = None \<longleftrightarrow> (\<forall>v \<in> ran opts. \<not> o_restricted v)) \<and>
     param_for v_temperature (\<lambda>v. v_temperature v = 0) rows (sm_temperature m) \<and>
     (sm_all_greedy m \<longleftrightarrow> (\<forall>v \<in> set rows. v_temperature v = 0)) \<and> (sm_all_random m \<longleftrightarrow> (\<forall>v \<in> set rows. v_temperature v \<noteq> 0)) \<and>
     param_for v_top_p (\<lambda>v. 1 \<le> v_top_p v) rows (sm_top_p m) \<and> param_for v_top_k (\<lambda>v. v_top_k v = int vocab) rows (sm_top_k m) \<and>
     (sm_no_penalties m \<longleftrightarrow> (\<forall>v \<in> set rows. neutral_penalties v)) \<and>
     (\<not> sm_no_penalties m \<longrightarrow> sm_frequency_penalties m = map v_frequency rows \<and> sm_presence_penalties m = map v_presence rows \<and>
        sm_repetition_penalties m = map v_repetition rows \<and>
        (\<exists>ps. sm_prompt_token_ids m = Some ps \<and> list_all2 (prompt_row_for vocab) rows ps))"

lemma dense_live:
  assumes ix: "index_ok s" and dense: "None \<notin> set (req_ids s)"
  shows "num_reqs s = length (req_ids s)" "num_reqs s \<le> max_num_reqs s" "set (rows_in_order s) = ran (batch_of s)"
proof -
  have "{i. live s i} = {..<length (req_ids s)}" using dense by (auto simp: live_def in_set_conv_nth)
  then show n: "num_reqs s = length (req_ids s)" using num_reqs_card[OF ix] by simp
  then show "num_reqs s \<le> max_num_reqs s" using index_okD(4)[OF ix] by simp
  show "set (rows_in_order s) = ran (batch_of s)"
  proof (intro equalityI subsetI)
    fix v assume "v \<in> set (rows_in_order s)"
    then obtain i where i: "i < length (req_ids s)" "v = row_of (ib_rows s) i" by (auto simp: rows_in_order_def n)
    moreover obtain r where "req_ids s ! i = Some r" using i dense by (metis nth_mem option.exhaust)
    ultimately have "batch_of s r = Some v" using index_okD(2)[OF ix, of r i] by (simp add: batch_of_def)
    then show "v \<in> ran (batch_of s)" by (auto simp: ran_def)
  next
    fix v assume "v \<in> ran (batch_of s)"
    then obtain r i where "map_of (req_id_to_index s) r = Some i" "v = row_of (ib_rows s) i" by (auto simp: ran_def batch_of_def)
    then show "v \<in> set (rows_in_order s)" using index_okD(2)[OF ix, of r i] by (auto simp: rows_in_order_def n)
  qed
qed

lemma sel_empty: "sel P m = {} \<longleftrightarrow> (\<forall>v \<in> ran m. \<not> P v)"
  by (auto simp: sel_def ran_def)

lemma copy_slice_rows: "n \<le> length xs \<Longrightarrow> n \<le> length ys \<Longrightarrow> take n (copy_slice n xs ys) = map (\<lambda>i. xs ! i) [0..<n]"
  by (auto simp: copy_slice_def intro!: nth_equalityI)

lemma fold_max_ge: "x \<in> set (y # ys) \<Longrightarrow> x \<le> fold max ys (y :: nat)"
  by (metis Max_ge List.finite_set Max.set_eq_fold)

lemma prompt_tensor_ok:
  assumes inv: "batch_inv s" and dense: "None \<notin> set (req_ids s)" and ne: "num_reqs s \<noteq> 0"
  shows "\<exists>ps. make_prompt_token_ids_tensor s = Inr ps \<and> list_all2 (prompt_row_for (vocab_size s)) (rows_in_order s) ps"
proof -
  have ix: "index_ok s" and rk: "rows_ok (max_num_reqs s) (ib_max_model_len s) (ib_rows s)" using inv by (simp_all add: batch_inv_def base_ok_def)
  note rd = rows_okD[OF rk] and n = dense_live(2)[OF ix dense]
  let ?lens = "take (num_reqs s) (rw_num_prompt_tokens (ib_rows s))"
  obtain x xs where lens: "?lens = x # xs" using ne n rd(5) by (cases ?lens) auto
  let ?max = "fold max xs x"
  have le: "?lens ! i \<le> ?max" "?lens ! i = rw_num_prompt_tokens (ib_rows s) ! i" if "i < num_reqs s" for i
  proof -
    have "i < length ?lens" using that n rd(5) by simp
    then have "?lens ! i \<in> set (x # xs)" using nth_mem lens by metis
    then show "?lens ! i \<le> ?max" by (rule fold_max_ge)
    show "?lens ! i = rw_num_prompt_tokens (ib_rows s) ! i" using that by simp
  qed
  have "?max \<in> set (x # xs)" by (metis Max.set_eq_fold Max_in List.finite_set list.distinct(1) set_empty)
  then obtain k where "k < num_reqs s" "?max = rw_num_prompt_tokens (ib_rows s) ! k" unfolding lens[symmetric] by (auto simp: in_set_conv_nth)
  then have max: "?max \<le> ib_max_model_len s" using rd(19)[of k] n by simp
  let ?ps = "map (\<lambda>i. take (?lens ! i) (take ?max (token_ids_cpu (ib_rows s) ! i)) @ replicate (?max - ?lens ! i) (int (vocab_size s))) [0..<num_reqs s]"
  have run: "make_prompt_token_ids_tensor s = Inr ?ps"
    using max unfolding make_prompt_token_ids_tensor_def Let_def lens by simp
  have "prompt_row_for (vocab_size s) (row_of (ib_rows s) i) (?ps ! i)" if "i < num_reqs s" for i
    using that le[OF that] rd(16)[of i] rd(19)[of i] n
    by (auto simp: prompt_row_for_def row_of_def min_def)
  then have "list_all2 (prompt_row_for (vocab_size s)) (rows_in_order s) ?ps"
    by (auto simp: list_all2_conv_all_nth rows_in_order_def)
  with run show ?thesis by blast
qed

lemma max_num_logprobs_ok:
  assumes "opts_ok (ib_sets s) (batch_of s)"
  shows "max_num_logprobs s = max_option {k. \<exists>v \<in> ran (options_of s). o_logprobs v = Some k}"
    "no_allowed_token_ids s \<longleftrightarrow> (\<forall>v \<in> ran (options_of s). \<not> o_restricted v)"
proof -
  let ?xs = "num_logprobs (ib_sets s)"
  have out: "batch_of s r \<noteq> None" if "map_of ?xs r \<noteq> None \<or> r \<in> has_allowed_token_ids (ib_sets s)" for r
    using assms that by (auto simp: opts_ok_def options_in_def no_options_def)
  have "{k. \<exists>v \<in> ran (options_of s). o_logprobs v = Some k} = ran (map_of ?xs)"
    using out by (fastforce simp: ran_def options_of_def options_in_def split: if_splits)
  also have "\<dots> = set (map snd ?xs)" using assms by (simp add: opts_ok_def ran_distinct)
  finally have K: "{k. \<exists>v \<in> ran (options_of s). o_logprobs v = Some k} = set (map snd ?xs)" .
  show "max_num_logprobs s = max_option {k. \<exists>v \<in> ran (options_of s). o_logprobs v = Some k}"
    unfolding K max_num_logprobs_def max_option_def 
  proof (cases "map snd ?xs")
    case (Cons x ys)
    have "Max (set (x # ys)) = fold max ys x" by (rule Max.set_eq_fold)
    then show "(case map snd ?xs of [] \<Rightarrow> None | x # xs \<Rightarrow> Some (fold max xs x)) = (if set (map snd ?xs) = {} then None else Some (Max (set (map snd ?xs))))"
      unfolding Cons by simp
  qed simp
  show "no_allowed_token_ids s \<longleftrightarrow> (\<forall>v \<in> ran (options_of s). \<not> o_restricted v)"
  proof -
    have "(\<exists>v \<in> ran (options_of s). o_restricted v) \<longleftrightarrow> (\<exists>r. batch_of s r \<noteq> None \<and> r \<in> has_allowed_token_ids (ib_sets s))"
      (is "?L \<longleftrightarrow> ?R")
    proof
      assume ?R
      then obtain r where r: "batch_of s r \<noteq> None" "r \<in> has_allowed_token_ids (ib_sets s)" by blast
      from r(1) have "options_in (ib_sets s) r \<in> ran (options_of s)" by (intro ranI[of _ r]) (simp add: options_of_def)
      moreover have "o_restricted (options_in (ib_sets s) r)" using r(2) by (simp add: options_in_def)
      ultimately show ?L by blast
    qed (auto simp: ran_def options_of_def options_in_def split: if_splits)
    then show ?thesis using out unfolding no_allowed_token_ids_def by blast
  qed
qed

lemma dense_keys:
  assumes "batch_inv s" "None \<notin> set (req_ids s)"
  shows "rw_generators (ib_rows s) i = (if i < length (rows_in_order s) then v_generator (rows_in_order s ! i) else None)"
    "rw_bad_words_token_ids (ib_rows s) i = (if i < length (rows_in_order s) then v_bad_words (rows_in_order s ! i) else None)"
proof -
  have k: "keys_ok s" and ix: "index_ok s" using assms(1) by (simp_all add: batch_inv_def base_ok_def)
  have n: "length (rows_in_order s) = length (req_ids s)" using dense_live(1)[OF ix assms(2)] by (simp add: rows_in_order_def)
  have "live s i \<Longrightarrow> i < length (rows_in_order s)" by (simp add: live_def n)
  then show "rw_generators (ib_rows s) i = (if i < length (rows_in_order s) then v_generator (rows_in_order s ! i) else None)"
    "rw_bad_words_token_ids (ib_rows s) i = (if i < length (rows_in_order s) then v_bad_words (rows_in_order s ! i) else None)"
    using k unfolding keys_ok_def by (auto simp: rows_in_order_def row_of_def)
qed

lemma build_metadata_ok:
  assumes inv: "batch_inv s" and dense: "None \<notin> set (req_ids s)"
  shows "\<exists>m d. make_sampling_metadata s = Inr (m, d) \<and> metadata_for (vocab_size s) (req_ids s) (rows_in_order s) (options_of s) m \<and> batch_inv (s\<lparr>ib_device := d\<rparr>)"
proof -
  have ix: "index_ok s" and rk: "rows_ok (max_num_reqs s) (ib_max_model_len s) (ib_rows s)" and st: "sampling_sets_ok (vocab_size s) (ib_sets s) (batch_of s)"
    and mk: "mask_ok s" and dv: "device_ok s" and nt: "True \<notin> set (needs_token_ids (ib_rows s))" and op: "opts_ok (ib_sets s) (batch_of s)"
    using inv by (simp_all add: batch_inv_def base_ok_def)
  note rd = rows_okD[OF rk] and dl = dense_live[OF ix dense]
  have sets: "all_greedy_batch s \<longleftrightarrow> (\<forall>v \<in> set (rows_in_order s). v_temperature v = 0)"
    "all_random_batch s \<longleftrightarrow> (\<forall>v \<in> set (rows_in_order s). v_temperature v \<noteq> 0)"
    "no_top_p s \<longleftrightarrow> (\<forall>v \<in> set (rows_in_order s). 1 \<le> v_top_p v)" "no_top_k s \<longleftrightarrow> (\<forall>v \<in> set (rows_in_order s). v_top_k v = int (vocab_size s))"
    "no_penalties s \<longleftrightarrow> (\<forall>v \<in> set (rows_in_order s). neutral_penalties v)"
    using st unfolding sampling_sets_ok_def dl(3)
    by (auto simp: all_greedy_batch_def all_random_batch_def no_top_p_def no_top_k_def no_penalties_def neutral_penalties_def sel_empty not_less)
  have col: "take (num_reqs s) (copy_slice (num_reqs s) xs ys) = map f (rows_in_order s)"
    if "length xs = max_num_reqs s" "length ys = max_num_reqs s" "\<And>i. f (row_of (ib_rows s) i) = xs ! i" for xs ys and f :: "request_row \<Rightarrow> 'z"
    using that dl(2) by (simp add: copy_slice_rows rows_in_order_def)
  obtain prompts where pr: "(if \<not> no_penalties s \<or> list_ex (\<lambda>b. b) (take (num_reqs s) (needs_token_ids (ib_rows s)))
      then bnd (make_prompt_token_ids_tensor s) (\<lambda>t. Inr (Some t)) else Inr None) = Inr prompts"
    and prs: "\<not> no_penalties s \<Longrightarrow> \<exists>ps. prompts = Some ps \<and> list_all2 (prompt_row_for (vocab_size s)) (rows_in_order s) ps"
  proof (cases "no_penalties s")
    case True
    have "\<not> list_ex (\<lambda>b. b) (take (num_reqs s) (needs_token_ids (ib_rows s)))" using nt by (auto simp: list_ex_iff dest: in_set_takeD)
    with True show thesis by (intro that[of None]) auto
  next
    case False
    then have "num_reqs s \<noteq> 0" unfolding sets(5) by (auto simp: rows_in_order_def)
    from prompt_tensor_ok[OF inv dense this] False show thesis by (auto intro!: that)
  qed
  let ?d = "copy_params s"
  have mg: "no_allowed_token_ids s \<or> allowed_token_ids_mask_gpu ?d \<noteq> None"
    using mk by (auto simp: mask_ok_def no_allowed_token_ids_def copy_params_def Let_def split: option.splits)
  let ?m = "\<lparr>sm_temperature = (if all_greedy_batch s then None else Some (take (num_reqs s) (temperature_gpu ?d))),
       sm_all_greedy = all_greedy_batch s, sm_all_random = all_random_batch s,
       sm_top_p = (if no_top_p s then None else Some (take (num_reqs s) (top_p_gpu ?d))),
       sm_top_k = (if no_top_k s then None else Some (take (num_reqs s) (top_k_gpu ?d))),
       sm_generators = rw_generators (ib_rows s), sm_max_num_logprobs = max_num_logprobs s, sm_prompt_token_ids = prompts,
       sm_frequency_penalties = take (num_reqs s) (frequency_penalties_gpu ?d),
       sm_presence_penalties = take (num_reqs s) (presence_penalties_gpu ?d),
       sm_repetition_penalties = take (num_reqs s) (repetition_penalties_gpu ?d),
       sm_output_token_ids = req_output_token_ids s, sm_no_penalties = no_penalties s,
       sm_allowed_token_ids_mask = (if no_allowed_token_ids s then None
          else map_option (take (num_reqs s)) (allowed_token_ids_mask_gpu ?d)),
       sm_bad_words_token_ids = rw_bad_words_token_ids (ib_rows s)\<rparr>"
  have dvd: "length (temperature_gpu (ib_device s)) = max_num_reqs s" "length (top_p_gpu (ib_device s)) = max_num_reqs s"
     "length (top_k_gpu (ib_device s)) = max_num_reqs s" "length (frequency_penalties_gpu (ib_device s)) = max_num_reqs s"
     "length (presence_penalties_gpu (ib_device s)) = max_num_reqs s" "length (repetition_penalties_gpu (ib_device s)) = max_num_reqs s"
    using dv by (simp_all add: device_ok_def)
  obtain m where run: "make_sampling_metadata s = Inr (m, ?d)" and md: "metadata_for (vocab_size s) (req_ids s) (rows_in_order s) (options_of s) m"
  proof (rule that)
    show "make_sampling_metadata s = Inr (?m, ?d)" using mg unfolding make_sampling_metadata_def Let_def pr bnd_simps by simp
    show "metadata_for (vocab_size s) (req_ids s) (rows_in_order s) (options_of s) ?m"
      unfolding metadata_for_def
    proof (intro conjI)
      show "sm_output_token_ids ?m = req_ids s" using index_okD(3)[OF ix] by simp
      show "\<forall>i. sm_generators ?m i = (if i < length (rows_in_order s) then v_generator (rows_in_order s ! i) else None)"
        "\<forall>i. sm_bad_words_token_ids ?m i = (if i < length (rows_in_order s) then v_bad_words (rows_in_order s ! i) else None)"
        using dense_keys[OF inv dense] by simp_all
      show "sm_max_num_logprobs ?m = max_option {k. \<exists>v \<in> ran (options_of s). o_logprobs v = Some k}"
        using max_num_logprobs_ok(1)[OF op] by simp
      show "sm_allowed_token_ids_mask ?m = None \<longleftrightarrow> (\<forall>v \<in> ran (options_of s). \<not> o_restricted v)"
        using max_num_logprobs_ok(2)[OF op] mg by auto
    qed (use prs in \<open>auto simp: param_for_def sets copy_params_def Let_def row_of_def dvd rd intro!: col split: if_splits\<close>)
  qed
  have "device_ok (s\<lparr>ib_device := ?d\<rparr>)" "mask_ok (s\<lparr>ib_device := ?d\<rparr>)"
    using mk dl(2) by (auto simp: device_ok_def dvd rd copy_params_def Let_def copy_slice_def mask_ok_def split: option.splits)
  then have "batch_inv (s\<lparr>ib_device := ?d\<rparr>)"
    using inv by (simp add: batch_inv_def base_ok_def index_ok_def keys_ok_def live_def batch_of_def[abs_def])
  with run md show ?thesis by blast
qed

section \<open>A step of the batch\<close>

definition between_steps :: "input_batch \<Rightarrow> bool" where
  "between_steps s \<longleftrightarrow> batch_inv s \<and> None \<notin> set (req_ids s) \<and> bu_removed (builder s) = [] \<and> \<not> is_removed_sorted (builder s)"

lemma batch_inv_rest:
  assumes "batch_inv s" "base_ok s'" "same_rest s s'" "batch_of s' = batch_of s"
  shows "batch_inv s'"
  using assms by (auto simp: batch_inv_def same_rest_def mask_ok_def device_ok_def)

lemma remove_all_ok:
  assumes "batch_inv s" "builder_ok s" "\<not> is_removed_sorted (builder s)"
  shows "\<exists>s'. for_each (\<lambda>r s. bnd (ib_remove_request r s) (\<lambda>(_, s'). Inr s')) rs s = Inr s' \<and> batch_inv s' \<and> builder_ok s' \<and>
    batch_of s' = batch_of s |` (- set rs) \<and> options_of s' = options_of s |` (- set rs) \<and> same_config s s'"
  using assms
proof (induction rs arbitrary: s)
  case Nil
  then show ?case by (simp add: same_config_def)
next
  case (Cons r rs)
  from remove_request_ok[OF Cons.prems, of r] obtain i s1 where s1: "ib_remove_request r s = Inr (i, s1)" "batch_inv s1" "builder_ok s1"
    "\<not> is_removed_sorted (builder s1)" "batch_of s1 = (batch_of s)(r := None)" "same_config s s1" "options_of s1 = (options_of s)(r := None)" by blast
  from Cons.IH[OF s1(2-4)] obtain s' where s': "for_each (\<lambda>r s. bnd (ib_remove_request r s) (\<lambda>(_, s'). Inr s')) rs s1 = Inr s'"
    "batch_inv s'" "builder_ok s'" "batch_of s' = batch_of s1 |` (- set rs)" "same_config s1 s'" "options_of s' = options_of s1 |` (- set rs)" by blast
  have "batch_of s' = batch_of s |` (- set (r # rs))" "options_of s' = options_of s |` (- set (r # rs))"
    by (auto simp: s'(4,6) s1(5,7) restrict_map_def)
  with s1(1) s' same_config_trans[OF s1(6) s'(5)] show ?case by (auto simp del: set_simps)
qed

lemma request_fits_config: "same_config s s' \<Longrightarrow> request_fits s' r = request_fits s r"
  by (simp add: same_config_def request_fits_def cong: option.case_cong)

lemma finite_batch [simp]: "finite (dom (batch_of s))"
proof -
  have "dom (batch_of s) = dom (map_of (req_id_to_index s))" by (auto simp: batch_of_def dom_def)
  then show ?thesis by (simp add: finite_dom_map_of)
qed

lemma add_all_ok:
  assumes "batch_inv s" "builder_ok s" "\<forall>r \<in> set qs. request_fits s r" "distinct (map cr_req_id qs)"
    "\<forall>r \<in> set qs. batch_of s (cr_req_id r) = None" "num_reqs s + length qs \<le> max_num_reqs s"
  shows "\<exists>s'. for_each (\<lambda>r s. bnd (ib_add_request r s) (\<lambda>(_, s'). Inr s')) qs s = Inr s' \<and> batch_inv s' \<and> builder_ok s' \<and> same_config s s' \<and>
    batch_of s' = batch_of s ++ map_of (map (\<lambda>r. (cr_req_id r, new_row (vocab_size s) r)) qs) \<and> num_reqs s' = num_reqs s + length qs \<and>
    options_of s' = options_of s ++ map_of (map (\<lambda>r. (cr_req_id r, new_options (is_spec_decode s) (vocab_size s) r)) qs)"
  using assms
proof (induction qs arbitrary: s)
  case Nil
  then show ?case by (simp add: same_config_def)
next
  case (Cons r qs)
  let ?q = "cr_req_id r" and ?v = "new_row (vocab_size s) r"
  from Cons.prems have pre: "request_fits s r" "num_reqs s < max_num_reqs s" "batch_of s ?q = None" by auto
  from add_request_ok[OF Cons.prems(1,2) pre] obtain i s1 where s1: "ib_add_request r s = Inr (i, s1)" "batch_inv s1" "builder_ok s1"
    "same_config s s1" "batch_of s1 = (batch_of s)(?q \<mapsto> ?v)"
    "options_of s1 = (options_of s)(?q \<mapsto> new_options (is_spec_decode s) (vocab_size s) r)" by blast
  have ix: "index_ok s" "index_ok s1" using Cons.prems(1) s1(2) by (simp_all add: batch_inv_def base_ok_def)
  have n1: "num_reqs s1 = Suc (num_reqs s)"
    unfolding num_reqs_dom[OF ix(1)] num_reqs_dom[OF ix(2)] s1(5) using pre(3) by (simp add: domIff)
  have cfg: "max_num_reqs s1 = max_num_reqs s" "vocab_size s1 = vocab_size s" "is_spec_decode s1 = is_spec_decode s"
    using s1(4) by (simp_all add: same_config_def)
  have "\<forall>q \<in> set qs. request_fits s1 q" "\<forall>q \<in> set qs. batch_of s1 (cr_req_id q) = None"
    using Cons.prems(3-5) request_fits_config[OF s1(4)] by (auto simp: s1(5) image_iff)
  with Cons.IH[OF s1(2,3)] Cons.prems(4,6) n1 cfg obtain s' where
    s': "for_each (\<lambda>r s. bnd (ib_add_request r s) (\<lambda>(_, s'). Inr s')) qs s1 = Inr s'" "batch_inv s'" "builder_ok s'" "same_config s1 s'"
    "batch_of s' = batch_of s1 ++ map_of (map (\<lambda>r. (cr_req_id r, new_row (vocab_size s) r)) qs)" "num_reqs s' = num_reqs s1 + length qs"
    "options_of s' = options_of s1 ++ map_of (map (\<lambda>r. (cr_req_id r, new_options (is_spec_decode s) (vocab_size s) r)) qs)" by auto
  have q: "?q \<notin> dom (map_of (map (\<lambda>r. (cr_req_id r, f r)) qs))" for f :: "cached_request_state \<Rightarrow> 'z"
    using Cons.prems(4) by (auto simp: dom_map_of_conv_image_fst image_iff)
  have oo: "options_of s' = options_of s ++ map_of (map (\<lambda>r. (cr_req_id r, new_options (is_spec_decode s) (vocab_size s) r)) (r # qs))"
    using q[of "new_options (is_spec_decode s) (vocab_size s)"] by (auto simp: s'(7) s1(6) map_add_def domIff split: option.split)
  have bo: "batch_of s' = batch_of s ++ map_of (map (\<lambda>r. (cr_req_id r, new_row (vocab_size s) r)) (r # qs))"
    using q[of "new_row (vocab_size s)"] by (auto simp: s'(5) s1(5) map_add_def domIff split: option.split)
  show ?case
    by (intro exI[of _ s'] conjI bo oo) (use s1(1) s'(1-3,6) n1 same_config_trans[OF s1(4) s'(4)] in simp_all)
qed

lemma swap_all_ok:
  assumes "base_ok s" "None \<notin> set (req_ids s)" "\<forall>(i, j) \<in> set sw. i < length (req_ids s) \<and> j < length (req_ids s)"
  shows "\<exists>s'. for_each (\<lambda>(i, j). swap_states i j) sw s = Inr s' \<and> base_ok s' \<and> None \<notin> set (req_ids s') \<and> same_rest s s' \<and>
    batch_of s' = batch_of s"
  using assms
proof (induction sw arbitrary: s)
  case Nil
  then show ?case by (simp add: same_rest_def)
next
  case (Cons ij sw)
  obtain i j where ij: "ij = (i, j)" by (cases ij)
  with Cons.prems have lt: "i < length (req_ids s)" "j < length (req_ids s)" by auto
  with Cons.prems(2) obtain a b where ab: "req_ids s ! i = Some a" "req_ids s ! j = Some b" by (metis nth_mem option.exhaust)
  obtain s1 where s1: "swap_states i j s = Inr s1" "base_ok s1" "same_rest s s1" "batch_of s1 = batch_of s"
    "req_ids s1 = swap_at i j (req_ids s)"
    by (rule swap_states_ok[OF Cons.prems(1) lt(1) ab(1) lt(2) ab(2)]) (rule that; assumption)
  have "set (req_ids s1) = set (req_ids s)" "length (req_ids s1) = length (req_ids s)"
    using set_swap[OF lt] by (simp_all add: s1(5) swap_at_def)
  with Cons.IH[OF s1(2)] Cons.prems(2,3) obtain s' where "for_each (\<lambda>(i, j). swap_states i j) sw s1 = Inr s'" "base_ok s'"
    "None \<notin> set (req_ids s')" "same_rest s1 s'" "batch_of s' = batch_of s1" by auto
  then show ?case using s1 ij same_rest_trans[of s s1 s'] by auto
qed

lemma batch_inv_builder [simp]: "batch_inv (s\<lparr>builder := b\<rparr>) = batch_inv s" "batch_inv (s\<lparr>ib_sampling_metadata := x\<rparr>) = batch_inv s"
  "batch_of (s\<lparr>ib_sampling_metadata := x\<rparr>) = batch_of s" "batch_of (s\<lparr>ib_device := y\<rparr>) = batch_of s"
  "options_of (s\<lparr>builder := b\<rparr>) = options_of s" "options_of (s\<lparr>ib_sampling_metadata := x\<rparr>) = options_of s" "options_of (s\<lparr>ib_device := y\<rparr>) = options_of s"
  by (auto simp: options_of_def[abs_def] batch_inv_def base_ok_def index_ok_def keys_ok_def live_def mask_ok_def device_ok_def batch_of_def[abs_def])

lemma refresh_ok:
  assumes inv: "batch_inv s" and dense: "None \<notin> set (req_ids s)"
  shows "\<exists>upd s'. refresh_metadata s = Inr (upd, s') \<and> between_steps s' \<and> batch_of s' = batch_of s \<and> options_of s' = options_of s \<and>
    (upd \<noteq> None \<longrightarrow> (\<exists>m. ib_sampling_metadata s' = Some m \<and> metadata_for (vocab_size s') (req_ids s') (rows_in_order s') (options_of s') m))"
proof -
  have np: "\<not> is_pooling_model s" using inv by (simp add: batch_inv_def base_ok_def)
  obtain upd b where g: "get_and_reset (num_reqs s) (builder s) = (upd, b)" by (cases "get_and_reset (num_reqs s) (builder s)")
  have b: "bu_removed b = []" "\<not> is_removed_sorted b" using g by (auto simp: get_and_reset_def Let_def split: if_splits)
  let ?s = "s\<lparr>builder := b\<rparr>"
  show ?thesis
  proof (cases "upd = None")
    case True
    then show ?thesis using np g b inv dense by (simp add: refresh_metadata_def between_steps_def)
  next
    case False
    have "batch_inv ?s" "None \<notin> set (req_ids ?s)" using inv dense by simp_all
    from build_metadata_ok[OF this] obtain m d where md: "make_sampling_metadata ?s = Inr (m, d)"
      "metadata_for (vocab_size ?s) (req_ids ?s) (rows_in_order ?s) (options_of ?s) m" "batch_inv (?s\<lparr>ib_device := d\<rparr>)" by blast
    let ?s' = "?s\<lparr>ib_sampling_metadata := Some m, ib_device := d\<rparr>"
    have "?s' = (?s\<lparr>ib_device := d\<rparr>)\<lparr>ib_sampling_metadata := Some m\<rparr>" by simp
    then have "batch_inv ?s'" using md(3) batch_inv_builder(2) by metis
    moreover have "refresh_metadata s = Inr (upd, ?s')" using np g False md(1) by (simp add: refresh_metadata_def)
    moreover have "rows_in_order ?s' = rows_in_order ?s" by (simp add: rows_in_order_def num_reqs_def)
    ultimately show ?thesis using md(2) b dense by (auto simp: between_steps_def)
  qed
qed

text \<open>One step of the model runner: requests leave, requests come, gaps are closed, the attention backend reorders the batch,
  and the metadata is refreshed.\<close>

definition batch_step :: "string list \<Rightarrow> cached_request_state list \<Rightarrow> (nat \<times> nat) list \<Rightarrow> input_batch \<Rightarrow> (batch_update option \<times> input_batch) result" where
  "batch_step rs qs sw s =
     bnd (for_each (\<lambda>r s. bnd (ib_remove_request r s) (\<lambda>(_, s'). Inr s')) rs s) (\<lambda>s1.
     bnd (for_each (\<lambda>r s. bnd (ib_add_request r s) (\<lambda>(_, s'). Inr s')) qs s1) (\<lambda>s2.
     bnd (condense s2) (\<lambda>s3.
     bnd (for_each (\<lambda>(i, j). swap_states i j) sw s3) refresh_metadata)))"

lemma batch_step_ok:
  assumes inv: "between_steps s"
    and new: "\<forall>r \<in> set qs. request_fits s r" "distinct (map cr_req_id qs)" "\<forall>r \<in> set qs. cr_req_id r \<in> set rs \<or> batch_of s (cr_req_id r) = None"
    and room: "card (dom (batch_of s) - set rs) + length qs \<le> max_num_reqs s"
    and sw: "\<forall>(i, j) \<in> set sw. i < card (dom (batch_of s) - set rs) + length qs \<and> j < card (dom (batch_of s) - set rs) + length qs"
  shows "\<exists>upd s'. batch_step rs qs sw s = Inr (upd, s') \<and> between_steps s' \<and>
    batch_of s' = (batch_of s |` (- set rs)) ++ map_of (map (\<lambda>r. (cr_req_id r, new_row (vocab_size s) r)) qs) \<and>
    options_of s' = (options_of s |` (- set rs)) ++ map_of (map (\<lambda>r. (cr_req_id r, new_options (is_spec_decode s) (vocab_size s) r)) qs) \<and>
    length (req_ids s') = card (dom (batch_of s) - set rs) + length qs \<and>
    (\<forall>r i. map_of (req_id_to_index s') r = Some i \<longleftrightarrow> i < length (req_ids s') \<and> req_ids s' ! i = Some r) \<and>
    (upd \<noteq> None \<longrightarrow> (\<exists>m. ib_sampling_metadata s' = Some m \<and> metadata_for (vocab_size s') (req_ids s') (rows_in_order s') (options_of s') m))"
proof -
  let ?n = "card (dom (batch_of s) - set rs) + length qs"
  have b0: "batch_inv s" "builder_ok s" "\<not> is_removed_sorted (builder s)"
    using inv by (auto simp: between_steps_def builder_ok_def ids_ok_def in_set_conv_nth)
  from remove_all_ok[OF b0, of rs] obtain s1 where s1: "for_each (\<lambda>r s. bnd (ib_remove_request r s) (\<lambda>(_, s'). Inr s')) rs s = Inr s1"
    "batch_inv s1" "builder_ok s1" "batch_of s1 = batch_of s |` (- set rs)" "same_config s s1" "options_of s1 = options_of s |` (- set rs)" by blast
  have ix1: "index_ok s1" using s1(2) by (simp add: batch_inv_def base_ok_def)
  have n1: "num_reqs s1 = card (dom (batch_of s) - set rs)" unfolding num_reqs_dom[OF ix1] s1(4) by (simp add: Diff_eq)
  have cfg: "max_num_reqs s1 = max_num_reqs s" "vocab_size s1 = vocab_size s" "is_spec_decode s1 = is_spec_decode s"
    using s1(5) by (simp_all add: same_config_def)
  have "\<forall>r \<in> set qs. request_fits s1 r" "\<forall>r \<in> set qs. batch_of s1 (cr_req_id r) = None"
    using new request_fits_config[OF s1(5)] by (auto simp: s1(4) restrict_map_def)
  with add_all_ok[OF s1(2,3), of qs] new(2) room n1 cfg obtain s2 where
    s2: "for_each (\<lambda>r s. bnd (ib_add_request r s) (\<lambda>(_, s'). Inr s')) qs s1 = Inr s2" "batch_inv s2" "builder_ok s2"
    "batch_of s2 = batch_of s1 ++ map_of (map (\<lambda>r. (cr_req_id r, new_row (vocab_size s) r)) qs)" "num_reqs s2 = ?n"
    "options_of s2 = options_of s1 ++ map_of (map (\<lambda>r. (cr_req_id r, new_options (is_spec_decode s) (vocab_size s) r)) qs)" by auto
  have base2: "base_ok s2" using s2(2) by (simp add: batch_inv_def)
  from condense_ok[OF base2 s2(3)] obtain s3 where s3: "condense s2 = Inr s3" "base_ok s3" "same_rest s2 s3" "batch_of s3 = batch_of s2"
    "None \<notin> set (req_ids s3)" "length (req_ids s3) = ?n" unfolding s2(5) by blast
  have "\<forall>(i, j) \<in> set sw. i < length (req_ids s3) \<and> j < length (req_ids s3)" using sw s3(6) by simp
  from swap_all_ok[OF s3(2,5) this] obtain s4 where s4: "for_each (\<lambda>(i, j). swap_states i j) sw s3 = Inr s4" "base_ok s4"
    "None \<notin> set (req_ids s4)" "same_rest s3 s4" "batch_of s4 = batch_of s3" by blast
  have inv4: "batch_inv s4" by (rule batch_inv_rest[OF batch_inv_rest[OF s2(2) s3(2-4)] s4(2,4,5)])
  have o4: "options_of s4 = options_of s2" using s3(3,4) s4(4,5) by (intro options_of_cong) (simp_all add: same_rest_def)
  from refresh_ok[OF inv4 s4(3)] obtain upd s' where s': "refresh_metadata s4 = Inr (upd, s')" "between_steps s'" "batch_of s' = batch_of s4"
    "options_of s' = options_of s4"
    and md: "upd \<noteq> None \<longrightarrow> (\<exists>m. ib_sampling_metadata s' = Some m \<and> metadata_for (vocab_size s') (req_ids s') (rows_in_order s') (options_of s') m)" by blast
  have ix': "index_ok s'" "None \<notin> set (req_ids s')" using s'(2) by (simp_all add: between_steps_def batch_inv_def base_ok_def)
  have "num_reqs s' = num_reqs s2"
    using num_reqs_dom[OF ix'(1)] num_reqs_dom[of s2] base2 s'(3) s4(5) s3(4) by (simp add: base_ok_def)
  then have "length (req_ids s') = ?n" using dense_live(1)[OF ix'] s2(5) by simp
  moreover have "batch_step rs qs sw s = Inr (upd, s')" by (simp add: batch_step_def s1(1) s2(1) s3(1) s4(1) s'(1))
  ultimately show ?thesis
    using s'(2-4) md o4 s4(5) s3(4) s2(4,6) s1(4,6) index_okD(2)[OF ix'(1)] by auto
qed

text \<open>C9: The persistent batch of a generative model is a map from requests to rows. Starting from a batch between two steps, a step
  that removes the requests \<open>rs\<close>, adds the fitting new requests \<open>qs\<close> (with prompt token ids and sampling parameters), condenses,
  exchanges rows within the batch and refreshes the metadata succeeds. Afterwards every request that stayed still has its
  tokens, counters, blocks, LoRA adapter, generator, bad words and numeric sampling parameters wherever it was moved, and its
  log-probability settings and marks; every added request has the row and the settings its parameters describe, no other
  request is there, the indices are dense and agree with the ids, and metadata built in the step is that of the rows:
  temperatures, top-p, top-k, penalties with the prompts, generators, bad words, output tokens and the largest number of
  log-probabilities. Not part of the rows are the contents of the mask of allowed tokens, which the code does not keep right
  (C17, C18), and the prompt embeddings; stored floats are exact numbers here.\<close>

theorem batch_step_refines:
  assumes inv: "between_steps s"
    and new: "\<forall>r \<in> set qs. request_fits s r" "distinct (map cr_req_id qs)" "\<forall>r \<in> set qs. cr_req_id r \<in> set rs \<or> batch_of s (cr_req_id r) = None"
    and room: "card (dom (batch_of s) - set rs) + length qs \<le> max_num_reqs s"
    and sw: "\<forall>(i, j) \<in> set sw. i < card (dom (batch_of s) - set rs) + length qs \<and> j < card (dom (batch_of s) - set rs) + length qs"
  shows "\<exists>upd s'. batch_step rs qs sw s = Inr (upd, s') \<and> between_steps s' \<and>
    batch_of s' = (batch_of s |` (- set rs)) ++ map_of (map (\<lambda>r. (cr_req_id r, new_row (vocab_size s) r)) qs) \<and>
    options_of s' = (options_of s |` (- set rs)) ++ map_of (map (\<lambda>r. (cr_req_id r, new_options (is_spec_decode s) (vocab_size s) r)) qs) \<and>
    length (req_ids s') = card (dom (batch_of s) - set rs) + length qs \<and>
    (\<forall>r i. map_of (req_id_to_index s') r = Some i \<longleftrightarrow> i < length (req_ids s') \<and> req_ids s' ! i = Some r) \<and>
    (upd \<noteq> None \<longrightarrow> (\<exists>m. ib_sampling_metadata s' = Some m \<and> metadata_for (vocab_size s') (req_ids s') (rows_in_order s') (options_of s') m))"
  using assms by (rule batch_step_ok)

lemma init_table_ok:
  assumes "0 < bs" "0 < world_size" "rank < world_size"
  shows "table_ok n (block_table_init bs n w t world_size rank)"
  using assms by (simp add: table_ok_def block_table_init_def)

text \<open>A new batch is one between two steps.\<close>

lemma input_batch_init_ok:
  assumes "length floats = n" "length ints = n" "\<forall>bs \<in> set block_sizes. 0 < bs" "0 < world_size" "rank < world_size"
  shows "between_steps (input_batch_init n len t vocab block_sizes spec False k world_size rank floats ints)"
    and "batch_of (input_batch_init n len t vocab block_sizes spec False k world_size rank floats ints) = Map.empty"
proof -
  let ?s = "input_batch_init n len t vocab block_sizes spec False k world_size rank floats ints"
  have tb: "tables_ok n (multi_group_init n (int len) t block_sizes k world_size rank)"
    using assms by (auto simp: multi_group_init_def intro!: init_table_ok)
  show bo: "batch_of ?s = Map.empty" by (simp add: batch_of_def input_batch_init_def fun_eq_iff)
  have "base_ok ?s"
    using assms(1,2) tb by (simp add: base_ok_def index_ok_def keys_ok_def input_batch_init_def rows_ok_def)
  moreover have "lora_ok (ib_sets ?s) Map.empty" "sampling_sets_ok (vocab_size ?s) (ib_sets ?s) Map.empty" "mask_ok ?s" "device_ok ?s"
      "opts_ok (ib_sets ?s) Map.empty"
    using assms(1,2) by (simp_all add: lora_ok_def sampling_sets_ok_def mask_ok_def device_ok_def input_batch_init_def sel_def
        opts_ok_def options_in_def no_options_def)
  moreover have "True \<notin> set (needs_token_ids (ib_rows ?s))" by (simp add: input_batch_init_def)
  ultimately have "batch_inv ?s" unfolding batch_inv_def bo by blast
  then show "between_steps ?s" by (simp add: between_steps_def input_batch_init_def builder_init_def)
qed

text \<open>Two small requests for the examples.\<close>

definition params_ex :: "int list option \<Rightarrow> batch_sampling_params" where
  "params_ex allowed = \<lparr>bp_temperature = 0, bp_top_p = 1, bp_top_k = 0, bp_min_p = 0, bp_frequency_penalty = 0, bp_presence_penalty = 0,
     bp_repetition_penalty = 1, bp_seed = None, bp_logprobs = None, bp_prompt_logprobs = None, bp_allowed_token_ids = allowed,
     bp_bad_words_token_ids = None\<rparr>"

definition request_ex :: "string \<Rightarrow> int \<Rightarrow> int list option \<Rightarrow> cached_request_state" where
  "request_ex q tok allowed = \<lparr>cr_req_id = q, cr_prompt_token_ids = Some [tok, 1], cr_sampling_params = Some (params_ex allowed), cr_pooling_params = None,
     cr_generator = None, cr_block_ids = [[7]], cr_num_computed_tokens = 0, cr_output_token_ids = [], cr_lora_request = None,
     cr_prompt_embeds = None\<rparr>"

definition batch_ex :: input_batch where
  "batch_ex = input_batch_init 2 4 8 3 [2] False False 0 1 0 [0, 0] [0, 0]"

lemma batch_ex_ok: "between_steps batch_ex" "batch_of batch_ex = Map.empty"
  unfolding batch_ex_def by (rule input_batch_init_ok; simp)+

theorem batch_step_refines_witness:
  "\<exists>upd s'. batch_step [] [request_ex ''a'' 0 None, request_ex ''b'' 2 None] [(0, 1)] batch_ex = Inr (upd, s') \<and>
     map_option v_tokens (batch_of s' ''a'') = Some [0, 1] \<and> map_option v_tokens (batch_of s' ''b'') = Some [2, 1]"
proof -
  have fits: "request_fits batch_ex (request_ex q t None)" for q t
    by (simp add: request_fits_def request_ex_def params_ex_def batch_ex_def input_batch_init_def multi_group_init_def block_table_init_def cdiv_def)
  have "\<exists>upd s'. batch_step [] [request_ex ''a'' 0 None, request_ex ''b'' 2 None] [(0, 1)] batch_ex = Inr (upd, s') \<and> between_steps s' \<and>
    batch_of s' = (batch_of batch_ex |` (- set [])) ++
      map_of (map (\<lambda>r. (cr_req_id r, new_row (vocab_size batch_ex) r)) [request_ex ''a'' 0 None, request_ex ''b'' 2 None]) \<and>
    options_of s' = (options_of batch_ex |` (- set [])) ++
      map_of (map (\<lambda>r. (cr_req_id r, new_options (is_spec_decode batch_ex) (vocab_size batch_ex) r)) [request_ex ''a'' 0 None, request_ex ''b'' 2 None]) \<and>
    length (req_ids s') = card (dom (batch_of batch_ex) - set []) + length [request_ex ''a'' 0 None, request_ex ''b'' 2 None] \<and>
    (\<forall>r i. map_of (req_id_to_index s') r = Some i \<longleftrightarrow> i < length (req_ids s') \<and> req_ids s' ! i = Some r) \<and>
    (upd \<noteq> None \<longrightarrow> (\<exists>m. ib_sampling_metadata s' = Some m \<and> metadata_for (vocab_size s') (req_ids s') (rows_in_order s') (options_of s') m))"
    by (rule batch_step_refines) (use batch_ex_ok fits in \<open>simp_all add: request_ex_def batch_ex_def input_batch_init_def\<close>)
  then obtain upd s' where "batch_step [] [request_ex ''a'' 0 None, request_ex ''b'' 2 None] [(0, 1)] batch_ex = Inr (upd, s')"
    "batch_of s' = map_of (map (\<lambda>r. (cr_req_id r, new_row (vocab_size batch_ex) r)) [request_ex ''a'' 0 None, request_ex ''b'' 2 None])"
    by (auto simp: batch_ex_ok)
  then show ?thesis by (auto simp: request_ex_def new_row_def Let_def)
qed

section \<open>The mask of allowed tokens\<close>

text \<open>C17: Exchanging two requests of the batch does not exchange their rows in the mask of allowed tokens: the tuple
  assignment reads views of the tensor, so that both rows end up with the mask of the second request, and the
  request that was first is restricted to the tokens of the other from then on.\<close>

theorem swap_states_copies_mask:
  assumes "between_steps s" "i < length (req_ids s)" "j < length (req_ids s)"
    and "allowed_token_ids_mask (ib_rows s) = Some m" "length m = max_num_reqs s"
  shows "\<exists>s' m'. swap_states i j s = Inr s' \<and> req_ids s' ! j = req_ids s ! i \<and> req_ids s' ! i = req_ids s ! j \<and> batch_of s' = batch_of s \<and>
    allowed_token_ids_mask (ib_rows s') = Some m' \<and> m' ! i = m ! j \<and> m' ! j = m ! j"
proof -
  have base: "base_ok s" and dense: "None \<notin> set (req_ids s)" and np: "\<not> is_pooling_model s" and le: "length (req_ids s) \<le> max_num_reqs s"
    using assms(1) by (simp_all add: between_steps_def batch_inv_def base_ok_def index_ok_def)
  from dense assms(2,3) obtain a b where ab: "req_ids s ! i = Some a" "req_ids s ! j = Some b" by (metis nth_mem option.exhaust)
  obtain s' where s': "swap_states i j s = Inr s'" "batch_of s' = batch_of s" "req_ids s' = swap_at i j (req_ids s)"
    by (rule swap_states_ok[OF base assms(2) ab(1) assms(3) ab(2)]) (rule that; assumption)
  have "allowed_token_ids_mask (ib_rows s') = Some (swap_mask_rows i j m)"
    using s'(1) np assms(4) by (auto simp: swap_states_def swap_token_rows_def swap_sampling_rows_def Let_def split: option.splits)
  moreover have "swap_mask_rows i j m ! i = m ! j" "swap_mask_rows i j m ! j = m ! j"
    using assms(2,3,5) le by (simp_all add: swap_mask_rows_def Let_def nth_list_update)
  moreover have "req_ids s' ! j = req_ids s ! i" "req_ids s' ! i = req_ids s ! j"
    using assms(2,3) by (simp_all add: s'(3) swap_at_def nth_list_update)
  ultimately show ?thesis using s' by blast
qed

theorem swap_states_copies_mask_witness:
  "\<exists>upd s s' m'. batch_step [] [request_ex ''a'' 0 None, request_ex ''b'' 2 (Some [0])] [] batch_ex = Inr (upd, s) \<and> swap_states 0 1 s = Inr s' \<and>
     req_ids s' ! 1 = Some ''a'' \<and> allowed_token_ids_mask (ib_rows s') = Some m' \<and> m' ! 1 = [False, True, True]"
proof -
  let ?qs = "[request_ex ''a'' 0 None, request_ex ''b'' 2 (Some [0])]"
  have fits: "\<forall>r \<in> set ?qs. request_fits batch_ex r"
    by (simp add: request_fits_def request_ex_def params_ex_def batch_ex_def input_batch_init_def multi_group_init_def block_table_init_def cdiv_def)
  obtain upd s where s: "batch_step [] ?qs [] batch_ex = Inr (upd, s)" "between_steps s"
    using batch_step_ok[of batch_ex ?qs "[]" "[]"] fits batch_ex_ok
    by (auto simp: request_ex_def batch_ex_def input_batch_init_def)
  have "(case batch_step [] ?qs [] batch_ex of Inl _ \<Rightarrow> False | Inr (upd, s) \<Rightarrow> req_ids s = [Some ''a'', Some ''b''] \<and> max_num_reqs s = 2 \<and>
     allowed_token_ids_mask (ib_rows s) = Some [[False, False, False], [False, True, True]])" by code_simp
  then have m: "req_ids s = [Some ''a'', Some ''b'']" "max_num_reqs s = 2"
    "allowed_token_ids_mask (ib_rows s) = Some [[False, False, False], [False, True, True]]" by (simp_all add: s(1))
  from swap_states_copies_mask[OF s(2), of 0 1, OF _ _ m(3)] m(1,2) s(1) show ?thesis by fastforce
qed

text \<open>What the operations do to the mask.\<close>

abbreviation cpu_mask :: "input_batch \<Rightarrow> bool list list option" where
  "cpu_mask s \<equiv> allowed_token_ids_mask (ib_rows s)"

lemma remove_lora_mask:
  "remove_lora i r s = Inr s' \<Longrightarrow> cpu_mask s' = cpu_mask s \<and> has_allowed_token_ids (ib_sets s') = has_allowed_token_ids (ib_sets s)
     \<and> req_ids s' = req_ids s \<and> builder s' = builder s \<and> is_pooling_model s' = is_pooling_model s"
  by (auto simp: remove_lora_def Let_def split: if_splits)

lemma remove_request_mask:
  assumes "ib_remove_request r s = Inr (x, s')" "map_of (req_id_to_index s) r = Some i" "\<not> is_pooling_model s"
  shows "cpu_mask s' = map_option (\<lambda>m. m[i := map (\<lambda>_. False) (m ! i)]) (cpu_mask s)" "req_ids s' = (req_ids s)[i := None]"
    "has_allowed_token_ids (ib_sets s') = has_allowed_token_ids (ib_sets s) - {r}" "bu_removed (builder s') = bu_removed (builder s) @ [i]"
  using assms by (auto simp: ib_remove_request_def removed_append_def discard_sampling_rows_def discard_sampling_sets_def
      split: if_splits dest!: remove_lora_mask)

lemma condense_move_mask:
  assumes "condense_move src tgt s = Inr s'" "\<not> is_pooling_model s"
  shows "cpu_mask s' = map_option (\<lambda>m. m[tgt := m ! src]) (cpu_mask s)"
  using assms by (auto simp: condense_move_def move_token_rows_def move_sampling_rows_def Let_def split: option.splits)

text \<open>Closing a single gap moves the last request down; its row of the mask stays behind.\<close>

lemma condense_one:
  assumes base: "base_ok s" and bok: "builder_ok s" and gap: "bu_removed (builder s) = [i]" and i: "i < l" "length (req_ids s) = Suc l"
  shows "\<exists>s'. condense s = Inr s' \<and> req_ids s' = (take l (req_ids s))[i := req_ids s ! l]
    \<and> cpu_mask s' = map_option (\<lambda>m. m[i := m ! l]) (cpu_mask s)"
proof -
  have ix: "index_ok s" and np: "\<not> is_pooling_model s" using base by (simp_all add: base_ok_def)
  have n: "num_reqs s = l" using ids_ok_length[OF ix, of "[i]"] bok gap i(2) by (simp add: builder_ok_def)
  have none: "j = i \<longleftrightarrow> req_ids s ! j = None" if "j < Suc l" for j
    using bok gap i(2) that by (auto simp: builder_ok_def ids_ok_def)
  obtain q where q: "req_ids s ! l = Some q" using none[of l] i(1) by auto
  let ?b = "(builder s)\<lparr>bu_removed := [i], is_removed_sorted := True\<rparr>"
  have b: "ensure_removed_sorted (builder s) = ?b" using gap by (simp add: ensure_removed_sorted_def)
  let ?s = "s\<lparr>builder := ?b\<lparr>bu_removed := []\<rparr>\<rparr>"
  obtain s1 where s1: "condense_move l i ?s = Inr s1" "req_ids s1 = (req_ids s)[i := Some q, l := None]"
    by (rule condense_move_ok[of ?s l q i]) (use base i q none[of i] in auto)
  have m: "cpu_mask s1 = map_option (\<lambda>m. m[i := m ! l]) (cpu_mask s)" using condense_move_mask[OF s1(1)] np by simp
  have "skip_empty [i] (int l) = int l" using i(1) by (subst skip_empty.simps) simp
  then have "condense_step (int l) (s\<lparr>builder := ?b\<rparr>) = Inr (True, int l - 1, s1)"
    using i(1) s1(1) by (simp add: condense_step_def peek_removed_def pop_removed_def has_removed_def ensure_removed_sorted_def Let_def)
  moreover have "condense_step (int l - 1) s1 = Inr (False, int l - 1, s1)"
    using condense_move_builder[OF s1(1)] by (simp add: condense_step_def)
  ultimately have loop: "condense_loop (int l) (s\<lparr>builder := ?b\<rparr>) = Inr s1"
    by (simp add: condense_loop.simps[of "int l"] condense_loop.simps[of "int l - 1"])
  have "condense s = Inr (s1\<lparr>req_ids := take l (req_ids s1), req_output_token_ids := take l (req_output_token_ids s1)\<rparr>)"
    using i(1) loop n by (simp add: condense_def removed_list_def Let_def b)
  moreover have "take l (req_ids s1) = (take l (req_ids s))[i := req_ids s ! l]" by (simp add: s1(2) q take_update_swap list_update_beyond)
  ultimately show ?thesis using m by (intro exI[of _ "s1\<lparr>req_ids := take l (req_ids s1), req_output_token_ids := take l (req_output_token_ids s1)\<rparr>"]) simp
qed

lemma refresh_frame:
  assumes "refresh_metadata s = Inr (upd, s')" "\<not> is_pooling_model s"
  shows "ib_rows s' = ib_rows s" "ib_sets s' = ib_sets s" "req_ids s' = req_ids s" "same_config s s'"
    "bu_added (builder s) \<noteq> [] \<Longrightarrow> \<exists>md d b. ib_sampling_metadata s' = Some md \<and> make_sampling_metadata (s\<lparr>builder := b\<rparr>) = Inr (md, d)"
proof -
  obtain u b where g: "get_and_reset (num_reqs s) (builder s) = (u, b)" by (cases "get_and_reset (num_reqs s) (builder s)")
  note r = assms(1)[unfolded refresh_metadata_def g Let_def case_prod_conv]
  show "ib_rows s' = ib_rows s" "ib_sets s' = ib_sets s" "req_ids s' = req_ids s" "same_config s s'"
    using r assms(2) by (auto simp: same_config_def split: if_splits)
  assume "bu_added (builder s) \<noteq> []"
  then have "u \<noteq> None" using g by (auto simp: get_and_reset_def Let_def split: if_splits)
  then obtain md d where "make_sampling_metadata (s\<lparr>builder := b\<rparr>) = Inr (md, d)" "ib_sampling_metadata s' = Some md" using r assms(2) by auto
  then show "\<exists>md d b. ib_sampling_metadata s' = Some md \<and> make_sampling_metadata (s\<lparr>builder := b\<rparr>) = Inr (md, d)" by blast
qed

lemma metadata_mask:
  assumes "make_sampling_metadata s = Inr (md, d)" "cpu_mask s = Some m" "length m = max_num_reqs s" "num_reqs s \<le> max_num_reqs s"
    "has_allowed_token_ids (ib_sets s) \<noteq> {}" "mask_ok s"
  shows "sm_allowed_token_ids_mask md = Some (take (num_reqs s) m)"
proof -
  obtain g where g: "allowed_token_ids_mask_gpu (ib_device s) = Some g" using assms(2,6) by (auto simp: mask_ok_def)
  have "sm_allowed_token_ids_mask md = map_option (take (num_reqs s)) (allowed_token_ids_mask_gpu (copy_params s))"
    using assms(1,5) by (auto simp: make_sampling_metadata_def no_allowed_token_ids_def Let_def)
  also have "\<dots> = Some (take (num_reqs s) (copy_slice (num_reqs s) m g))"
    using assms(2,5) g by (simp add: copy_params_def no_allowed_token_ids_def Let_def)
  also have "take (num_reqs s) (copy_slice (num_reqs s) m g) = take (num_reqs s) m" using assms(3,4) by (simp add: copy_slice_def)
  finally show ?thesis .
qed

lemma add_unrestricted_mask:
  assumes add: "ib_add_request c s = Inr (j, s')" and gaps: "bu_removed (builder s) = []" and n: "num_reqs s = length (req_ids s)"
    and p: "cr_sampling_params c = Some p" "\<not> wants_allowed p"
  shows "cpu_mask s' = cpu_mask s" "req_ids s' = req_ids s @ [Some (cr_req_id c)]" "bu_removed (builder s') = []" "bu_added (builder s') \<noteq> []"
    "has_allowed_token_ids (ib_sets s') = has_allowed_token_ids (ib_sets s)"
proof -
  have tk: "allowed_token_ids_mask rw = allowed_token_ids_mask (ib_rows x)" if "add_tokens k c (ib_rows x) = Inr rw" for k rw x
    using that by (auto simp: add_tokens_def Let_def)
  have lo: "cpu_mask (add_lora k c x) = cpu_mask x" "req_ids (add_lora k c x) = req_ids x" "builder (add_lora k c x) = builder x"
    "has_allowed_token_ids (ib_sets (add_lora k c x)) = has_allowed_token_ids (ib_sets x)" for k x
    by (simp_all add: add_lora_def Let_def split: option.splits)
  have pr: "add_params k c x = Inr (x\<lparr>ib_rows := add_sampling_rows (vocab_size x) k p (cr_generator c) (ib_rows x),
      ib_sets := add_sampling_sets (is_spec_decode x) (vocab_size x) (cr_req_id c) p (ib_sets x)\<rparr>)" for k x
    using p by (simp add: add_params_def add_allowed_def)
  let ?b = "(builder s)\<lparr>batch_changed := True, bu_added := bu_added (builder s) @ [(num_reqs s, p, cr_prompt_token_ids c, cr_req_id c)]\<rparr>"
  have "register_add_request c s = check (num_reqs s < max_num_reqs s) AssertionError (Inr (num_reqs s, s\<lparr>builder := ?b\<rparr>))"
    using gaps p(1) by (simp add: register_add_request_def pop_removed_def has_removed_def Let_def)
  then have reg: "register_add_request c s = Inr (num_reqs s, s\<lparr>builder := ?b\<rparr>)" using add by (cases "num_reqs s < max_num_reqs s") (simp_all add: ib_add_request_def check_def)
  define s2 where "s2 = s\<lparr>builder := ?b, req_ids := req_ids s @ [Some (cr_req_id c)], req_output_token_ids := req_output_token_ids s @ [Some (cr_req_id c)],
      req_id_to_index := AList.update (cr_req_id c) (num_reqs s) (req_id_to_index s)\<rparr>"
  have place: "place_id (num_reqs s) (cr_req_id c) (s\<lparr>builder := ?b\<rparr>) = Inr s2" using n by (simp add: place_id_def s2_def)
  note a = add[unfolded ib_add_request_def reg bnd_simps case_prod_conv place]
  obtain rw where t: "add_tokens (num_reqs s) c (ib_rows s2) = Inr rw" using a by (cases "add_tokens (num_reqs s) c (ib_rows s2)") auto
  obtain y where s': "s' = add_lora (num_reqs s) c y" "cpu_mask y = allowed_token_ids_mask rw" "req_ids y = req_ids s2" "builder y = ?b"
    "ib_sets y = add_sampling_sets (is_spec_decode s2) (vocab_size s2) (cr_req_id c) p (ib_sets s2)"
    using a[unfolded t pr bnd_simps sum.inject prod.inject] by (auto simp: add_sampling_rows_def s2_def)
  have "allowed_token_ids_mask rw = cpu_mask s" "req_ids s2 = req_ids s @ [Some (cr_req_id c)]" "ib_sets s2 = ib_sets s"
    using tk[OF t] by (simp_all add: s2_def)
  note s' = s'(1) s'(2-5)[unfolded this]
  show "cpu_mask s' = cpu_mask s" "req_ids s' = req_ids s @ [Some (cr_req_id c)]" "bu_removed (builder s') = []" "bu_added (builder s') \<noteq> []"
    "has_allowed_token_ids (ib_sets s') = has_allowed_token_ids (ib_sets s)"
    using p(2) gaps by (simp_all add: s' lo add_sampling_sets_def insert_if_def)
qed

text \<open>A step that only removes one request, and one that only adds an unrestricted request.\<close>

lemma step_remove_one:
  assumes inv: "between_steps s" and m: "cpu_mask s = Some m" "length m = max_num_reqs s"
    and i: "i < l" "length (req_ids s) = Suc l" "req_ids s ! i = Some r"
  shows "\<exists>upd s'. batch_step [r] [] [] s = Inr (upd, s') \<and> between_steps s' \<and> same_config s s' \<and> batch_of s' = (batch_of s)(r := None)
    \<and> req_ids s' = (take l (req_ids s))[i := req_ids s ! l] \<and> has_allowed_token_ids (ib_sets s') = has_allowed_token_ids (ib_sets s) - {r}
    \<and> (\<exists>m'. cpu_mask s' = Some m' \<and> length m' = length m \<and> m' ! i = m ! l \<and> m' ! l = m ! l)"
proof -
  have b0: "batch_inv s" "builder_ok s" "\<not> is_removed_sorted (builder s)" "bu_removed (builder s) = []"
    using inv by (auto simp: between_steps_def builder_ok_def ids_ok_def in_set_conv_nth)
  have ix: "index_ok s" and np: "\<not> is_pooling_model s" using b0(1) by (simp_all add: batch_inv_def base_ok_def)
  have ir: "map_of (req_id_to_index s) r = Some i" using index_okD(2)[OF ix, of r i] i by simp
  have ln: "l < max_num_reqs s" using index_okD(4)[OF ix] i(2) by simp
  obtain x s1 where s1: "ib_remove_request r s = Inr (x, s1)" "batch_inv s1" "builder_ok s1" "batch_of s1 = (batch_of s)(r := None)" "same_config s s1"
    using remove_request_ok[OF b0(1-3), of r] by blast
  note rm = remove_request_mask[OF s1(1) ir np]
  have base1: "base_ok s1" using s1(2) by (simp add: batch_inv_def)
  have gap: "bu_removed (builder s1) = [i]" "length (req_ids s1) = Suc l" using rm(2,4) b0(4) i(2) by simp_all
  obtain s2 where s2: "condense s1 = Inr s2" "base_ok s2" "same_rest s1 s2" "batch_of s2 = batch_of s1" "None \<notin> set (req_ids s2)"
    using condense_ok[OF base1 s1(3)] by blast
  have c2: "req_ids s2 = (take l (req_ids s1))[i := req_ids s1 ! l]" "cpu_mask s2 = map_option (\<lambda>m. m[i := m ! l]) (cpu_mask s1)"
    using condense_one[OF base1 s1(3) gap(1) i(1) gap(2)] s2(1) by auto
  have inv2: "batch_inv s2" by (rule batch_inv_rest[OF s1(2) s2(2-4)])
  obtain upd s3 where s3: "refresh_metadata s2 = Inr (upd, s3)" "between_steps s3" "batch_of s3 = batch_of s2"
    using refresh_ok[OF inv2 s2(5)] by blast
  have "\<not> is_pooling_model s2" using s2(2) by (simp add: base_ok_def)
  note fr = refresh_frame[OF s3(1) this]
  have "batch_step [r] [] [] s = Inr (upd, s3)" by (simp add: batch_step_def s1(1) s2(1) s3(1))
  moreover have "same_config s s3"
    using s1(5) s2(3) fr(4) by (simp add: same_config_def same_rest_def)
  moreover have "req_ids s3 = (take l (req_ids s))[i := req_ids s ! l]" using i(1) by (simp add: fr(3) c2(1) rm(2) take_update_swap)
  moreover have "has_allowed_token_ids (ib_sets s3) = has_allowed_token_ids (ib_sets s) - {r}" using s2(3) by (simp add: fr(2) rm(3) same_rest_def)
  moreover have "cpu_mask s3 = Some (m[i := m ! l])" using i(1) by (simp add: fr(1) c2(2) rm(1) m(1))
  ultimately show ?thesis using s3(2,3) s2(4) s1(4) i(1) ln m(2) by (auto simp: nth_list_update)
qed

lemma step_add_unrestricted:
  assumes inv: "between_steps s" and m: "cpu_mask s = Some m" "length m = max_num_reqs s" and fits: "request_fits s c"
    and p: "cr_sampling_params c = Some p" "\<not> wants_allowed p" and fresh: "batch_of s (cr_req_id c) = None"
    and room: "length (req_ids s) < max_num_reqs s" and some: "has_allowed_token_ids (ib_sets s) \<noteq> {}"
  shows "\<exists>upd s' md. batch_step [] [c] [] s = Inr (upd, s') \<and> req_ids s' = req_ids s @ [Some (cr_req_id c)] \<and> cpu_mask s' = Some m
    \<and> has_allowed_token_ids (ib_sets s') = has_allowed_token_ids (ib_sets s)
    \<and> ib_sampling_metadata s' = Some md \<and> sm_allowed_token_ids_mask md = Some (take (Suc (length (req_ids s))) m)"
proof -
  have b0: "batch_inv s" "builder_ok s" "bu_removed (builder s) = []" "None \<notin> set (req_ids s)"
    using inv by (auto simp: between_steps_def builder_ok_def ids_ok_def in_set_conv_nth)
  have ix: "index_ok s" using b0(1) by (simp add: batch_inv_def base_ok_def)
  have n: "num_reqs s = length (req_ids s)" by (rule dense_live(1)[OF ix b0(4)])
  obtain j s1 where s1: "ib_add_request c s = Inr (j, s1)" "batch_inv s1" "builder_ok s1" "same_config s s1"
    using add_request_ok[OF b0(1,2) fits _ fresh] room n by auto
  note ad = add_unrestricted_mask[OF s1(1) b0(3) n p]
  let ?s2 = "s1\<lparr>builder := ensure_removed_sorted (builder s1)\<rparr>"
  have c: "condense s1 = Inr ?s2" using ad(3) by (simp add: condense_def removed_list_def Let_def ensure_removed_sorted_def)
  have d1: "None \<notin> set (req_ids s1)" using b0(4) by (simp add: ad(2))
  have i2: "batch_inv ?s2" "None \<notin> set (req_ids ?s2)" "\<not> is_pooling_model ?s2" "bu_added (builder ?s2) \<noteq> []"
    using s1(2) d1 ad(4) by (simp_all add: ensure_removed_sorted_def) (simp add: batch_inv_def base_ok_def)
  obtain upd s3 where s3: "refresh_metadata ?s2 = Inr (upd, s3)" using refresh_ok[OF i2(1,2)] by blast
  note fr = refresh_frame[OF s3 i2(3)]
  obtain md d b where md: "ib_sampling_metadata s3 = Some md" "make_sampling_metadata (?s2\<lparr>builder := b\<rparr>) = Inr (md, d)" using fr(5)[OF i2(4)] by blast
  have ix1: "index_ok s1" using s1(2) by (simp add: batch_inv_def base_ok_def)
  have n1: "num_reqs s1 = Suc (length (req_ids s))" "num_reqs s1 \<le> max_num_reqs s1" using dense_live(1,2)[OF ix1 d1] by (simp_all add: ad(2))
  have nr: "num_reqs (?s2\<lparr>builder := b\<rparr>) = num_reqs s1" by (simp add: num_reqs_def)
  have "sm_allowed_token_ids_mask md = Some (take (num_reqs (?s2\<lparr>builder := b\<rparr>)) m)"
    by (rule metadata_mask[OF md(2)])
      (use ad(1,5) m n1(2) some s1(2,4) nr in \<open>simp_all add: same_config_def batch_inv_def mask_ok_def\<close>)
  then have "sm_allowed_token_ids_mask md = Some (take (Suc (length (req_ids s))) m)" unfolding nr n1(1) .
  moreover have "batch_step [] [c] [] s = Inr (upd, s3)" by (simp add: batch_step_def s1(1) c s3)
  ultimately show ?thesis using md(1) fr(1-3) ad(1,2,5) m(1) by auto
qed

text \<open>C18: Closing a gap leaves the mask row of the moved request behind, and adding a request without a restriction does not clear
  the row it gets. For every batch between two steps that has the mask: when request \<open>r\<close> leaves and it is not the last one, the last
  request \<open>q\<close>, which is restricted to some tokens, moves into the gap, and its row of the mask stays at the old index as well; a
  request \<open>c\<close> without restriction that is added next gets this index, and the mask handed to the sampler forbids it every token
  that is forbidden to \<open>q\<close>.\<close>

theorem stale_mask_restricts_request:
  assumes "between_steps s" "allowed_token_ids_mask (ib_rows s) = Some m" "length m = max_num_reqs s"
    and "i < l" "length (req_ids s) = Suc l" "req_ids s ! i = Some r"
    and "req_ids s ! l = Some q" "q \<in> has_allowed_token_ids (ib_sets s)"
    and "request_fits s c" "cr_sampling_params c = Some p" "\<not> wants_allowed p" "batch_of s (cr_req_id c) = None"
  shows "\<exists>upd1 s1 upd2 s2 md mm. batch_step [r] [] [] s = Inr (upd1, s1) \<and> batch_step [] [c] [] s1 = Inr (upd2, s2)
    \<and> req_ids s1 = (take l (req_ids s))[i := Some q] \<and> req_ids s2 = req_ids s1 @ [Some (cr_req_id c)]
    \<and> cr_req_id c \<notin> has_allowed_token_ids (ib_sets s2)
    \<and> ib_sampling_metadata s2 = Some md \<and> sm_allowed_token_ids_mask md = Some mm \<and> length mm = Suc l \<and> mm ! i = m ! l \<and> mm ! l = m ! l"
proof -
  obtain upd1 s1 m1 where s1: "batch_step [r] [] [] s = Inr (upd1, s1)" "between_steps s1" "same_config s s1" "batch_of s1 = (batch_of s)(r := None)"
    "req_ids s1 = (take l (req_ids s))[i := req_ids s ! l]" "has_allowed_token_ids (ib_sets s1) = has_allowed_token_ids (ib_sets s) - {r}"
    "cpu_mask s1 = Some m1" "length m1 = length m" "m1 ! i = m ! l" "m1 ! l = m ! l"
    using step_remove_one[OF assms(1-6)] by blast
  have inv: "batch_inv s" and ix: "index_ok s" using assms(1) by (simp_all add: between_steps_def batch_inv_def base_ok_def)
  have "map_of (req_id_to_index s) r = Some i" "map_of (req_id_to_index s) q = Some l"
    using index_okD(2)[OF ix] assms(4-7) by simp_all
  then have "q \<noteq> r" using assms(4) by auto
  then have some: "has_allowed_token_ids (ib_sets s1) \<noteq> {}" using assms(8) s1(6) by blast
  have ln: "l < max_num_reqs s" using index_okD(4)[OF ix] assms(5) by simp
  have cfg: "max_num_reqs s1 = max_num_reqs s" "length m1 = max_num_reqs s1" "length (req_ids s1) < max_num_reqs s1" "length (req_ids s1) = l"
    using s1(3,5,8) assms(3,5) ln by (simp_all add: same_config_def)
  have fits: "request_fits s1 c" using assms(9) request_fits_config[OF s1(3)] by simp
  have fresh: "batch_of s1 (cr_req_id c) = None" using assms(12) by (simp add: s1(4))
  obtain upd2 s2 md where s2: "batch_step [] [c] [] s1 = Inr (upd2, s2)" "req_ids s2 = req_ids s1 @ [Some (cr_req_id c)]"
    "has_allowed_token_ids (ib_sets s2) = has_allowed_token_ids (ib_sets s1)"
    "ib_sampling_metadata s2 = Some md" "sm_allowed_token_ids_mask md = Some (take (Suc (length (req_ids s1))) m1)"
    using step_add_unrestricted[OF s1(2,7) cfg(2) fits assms(10,11) fresh cfg(3) some] by blast
  have "cr_req_id c \<notin> has_allowed_token_ids (ib_sets s)"
    using inv assms(12) by (auto simp: batch_inv_def opts_ok_def options_in_def no_options_def)
  then have "cr_req_id c \<notin> has_allowed_token_ids (ib_sets s2)" by (simp add: s2(3) s1(6))
  with s1(1,5,9,10) s2 cfg ln assms(4,7) show ?thesis by (auto intro!: exI[of _ s1] exI[of _ s2])
qed

text \<open>Request \<open>b\<close>, which may only produce token 0, is moved from index 1 to index 0 when \<open>a\<close> leaves; request \<open>c\<close>, which has no
  restriction, is added at index 1, and the mask handed to the sampler forbids it all tokens but 0.\<close>

theorem stale_mask_restricts_request_witness:
  "\<exists>upd s upd1 s1 upd2 s2 md mm. batch_step [] [request_ex ''a'' 0 None, request_ex ''b'' 2 (Some [0])] [] batch_ex = Inr (upd, s)
     \<and> batch_step [''a''] [] [] s = Inr (upd1, s1) \<and> batch_step [] [request_ex ''c'' 1 None] [] s1 = Inr (upd2, s2)
     \<and> req_ids s2 = [Some ''b'', Some ''c''] \<and> ''c'' \<notin> has_allowed_token_ids (ib_sets s2)
     \<and> ib_sampling_metadata s2 = Some md \<and> sm_allowed_token_ids_mask md = Some mm \<and> mm ! 1 = [False, True, True]"
proof -
  let ?qs = "[request_ex ''a'' 0 None, request_ex ''b'' 2 (Some [0])]"
  have fits: "\<forall>r \<in> set ?qs. request_fits batch_ex r"
    by (simp add: request_fits_def request_ex_def params_ex_def batch_ex_def input_batch_init_def multi_group_init_def block_table_init_def cdiv_def)
  obtain upd s where s: "batch_step [] ?qs [] batch_ex = Inr (upd, s)" "between_steps s"
    "batch_of s = map_of (map (\<lambda>r. (cr_req_id r, new_row (vocab_size batch_ex) r)) ?qs)"
    using batch_step_ok[of batch_ex ?qs "[]" "[]"] fits batch_ex_ok
    by (auto simp: request_ex_def batch_ex_def input_batch_init_def)
  have "(case batch_step [] ?qs [] batch_ex of Inl _ \<Rightarrow> False | Inr (upd, s) \<Rightarrow> req_ids s = [Some ''a'', Some ''b''] \<and> max_num_reqs s = 2 \<and>
     allowed_token_ids_mask (ib_rows s) = Some [[False, False, False], [False, True, True]] \<and> has_allowed_token_ids (ib_sets s) = {''b''} \<and>
     ib_max_model_len s = 4 \<and> map max_num_blocks_per_req (rw_block_table (ib_rows s)) = [2])" by code_simp
  then have m: "req_ids s = [Some ''a'', Some ''b'']" "max_num_reqs s = 2"
    "allowed_token_ids_mask (ib_rows s) = Some [[False, False, False], [False, True, True]]" "has_allowed_token_ids (ib_sets s) = {''b''}"
    "ib_max_model_len s = 4" "map max_num_blocks_per_req (rw_block_table (ib_rows s)) = [2]" by (simp_all add: s(1))
  have c: "request_fits s (request_ex ''c'' 1 None)" "cr_sampling_params (request_ex ''c'' 1 None) = Some (params_ex None)" "\<not> wants_allowed (params_ex None)"
    "batch_of s (cr_req_id (request_ex ''c'' 1 None)) = None" "cr_req_id (request_ex ''c'' 1 None) = ''c''"
    unfolding request_fits_def m(5,6) s(3) by (simp_all add: wants_allowed_def request_ex_def params_ex_def)
  have "\<exists>upd1 s1 upd2 s2 md mm. batch_step [''a''] [] [] s = Inr (upd1, s1) \<and> batch_step [] [request_ex ''c'' 1 None] [] s1 = Inr (upd2, s2)
    \<and> req_ids s1 = (take 1 (req_ids s))[0 := Some ''b''] \<and> req_ids s2 = req_ids s1 @ [Some (cr_req_id (request_ex ''c'' 1 None))]
    \<and> cr_req_id (request_ex ''c'' 1 None) \<notin> has_allowed_token_ids (ib_sets s2)
    \<and> ib_sampling_metadata s2 = Some md \<and> sm_allowed_token_ids_mask md = Some mm \<and> length mm = Suc 1
    \<and> mm ! 0 = [[False, False, False], [False, True, True]] ! 1 \<and> mm ! 1 = [[False, False, False], [False, True, True]] ! 1"
    by (rule stale_mask_restricts_request[OF s(2) m(3) _ _ _ _ _ _ c(1-4)]) (simp_all add: m)
  then obtain upd1 s1 upd2 s2 md mm where w: "batch_step [''a''] [] [] s = Inr (upd1, s1)" "batch_step [] [request_ex ''c'' 1 None] [] s1 = Inr (upd2, s2)"
    "req_ids s1 = (take 1 (req_ids s))[0 := Some ''b'']" "req_ids s2 = req_ids s1 @ [Some ''c'']" "''c'' \<notin> has_allowed_token_ids (ib_sets s2)"
    "ib_sampling_metadata s2 = Some md" "sm_allowed_token_ids_mask md = Some mm" "mm ! 1 = [False, True, True]"
    unfolding c(5) by auto
  have "req_ids s2 = [Some ''b'', Some ''c'']" by (simp add: w(3,4) m(1))
  with s(1) w show ?thesis by blast
qed

end
